(* ===== verification/Prelude.thy ===== *)
theory Prelude
  imports Main "HOL-Library.Word"
begin

unbundle bit_operations_syntax

text \<open>
  Shared vocabulary of the development: bytes and fixed-width words, the exceptions the C++
  code can raise and the result type built on them, wrap-around arithmetic on \<open>size_t\<close>,
  padding to an alignment, and the generic lemmas the component theories use.
\<close>

text \<open>What an operation does to the resources a program owns, one lemma for each operation.\<close>

named_theorems ledger

section \<open>Bytes, words and \<open>size_t\<close>\<close>

type_synonym u8 = "8 word"
type_synonym u16 = "16 word"
type_synonym u32 = "32 word"
type_synonym u64 = "64 word"

text \<open>
  A \<open>size_t\<close> is a natural number below \<open>2 ^ 64\<close>; its arithmetic wraps around, which is
  written out.  \<open>ptrdiff_t\<close> values are integers.
\<close>

abbreviation UINT32_MAX :: nat where "UINT32_MAX \<equiv> 4294967295"
abbreviation SIZE_MAX :: nat where "SIZE_MAX \<equiv> 18446744073709551615"
abbreviation INT32_MAX :: nat where "INT32_MAX \<equiv> 2147483647"
abbreviation SIZE_MOD :: nat where "SIZE_MOD \<equiv> 18446744073709551616"

definition sz_add :: "nat \<Rightarrow> nat \<Rightarrow> nat" where
  "sz_add a b = (a + b) mod SIZE_MOD"

definition sz_sub :: "nat \<Rightarrow> nat \<Rightarrow> nat" where
  "sz_sub a b = nat ((int a - int b) mod int SIZE_MOD)"

definition sz_mul :: "nat \<Rightarrow> nat \<Rightarrow> nat" where
  "sz_mul a b = (a * b) mod SIZE_MOD"

text \<open>Adding a signed displacement to a \<open>size_t\<close>, as \<open>m_offset -= relative_origin\<close> does.\<close>

definition sz_sub_diff :: "nat \<Rightarrow> int \<Rightarrow> nat" where
  "sz_sub_diff a d = nat ((int a - d) mod int SIZE_MOD)"

lemma sz_add_lt [simp]: "sz_add a b < SIZE_MOD"
  by (simp add: sz_add_def)

lemma sz_add_small [simp]: "a + b < SIZE_MOD \<Longrightarrow> sz_add a b = a + b"
  by (simp add: sz_add_def)

lemma sz_sub_small [simp]: "b \<le> a \<Longrightarrow> a < SIZE_MOD \<Longrightarrow> sz_sub a b = a - b"
  by (simp add: sz_sub_def nat_diff_distrib flip: of_nat_diff)

lemma sz_mul_small [simp]: "a * b < SIZE_MOD \<Longrightarrow> sz_mul a b = a * b"
  by (simp add: sz_mul_def)

section \<open>Exceptions and results\<close>

text \<open>
  The exception types the code throws (or lets pass), \<open>Terminate\<close> for \<open>std::terminate\<close>, and \<open>UB\<close> for what the language leaves
  undefined: a write past the destination buffer, a division by zero, a read of a null pointer.
  A model that returns \<open>Inl (UB _)\<close> has reached such a point; safety theorems say it does not.
\<close>

datatype exn =
    RuntimeError string
  | LogicError string
  | OverflowError string
  | LengthError string
  | OutOfRange string
  | BadAlloc
  | Terminate
  | UB string

type_synonym 'a result = "exn + 'a"

definition rbind :: "'a result \<Rightarrow> ('a \<Rightarrow> 'b result) \<Rightarrow> 'b result" where
  "rbind r f = (case r of Inl e \<Rightarrow> Inl e | Inr x \<Rightarrow> f x)"

lemma rbind_Inl [simp]: "rbind (Inl e) f = Inl e"
  and rbind_Inr [simp]: "rbind (Inr x) f = f x"
  by (simp_all add: rbind_def)

lemma rbind_Inr_right [simp]: "rbind r Inr = r"
  by (cases r) simp_all

lemma rbind_assoc: "rbind (rbind r f) g = rbind r (\<lambda>x. rbind (f x) g)"
  by (cases r) simp_all

lemma rbind_eq_Inr: "rbind r f = Inr y \<longleftrightarrow> (\<exists>x. r = Inr x \<and> f x = Inr y)"
  by (cases r) auto

lemma rbind_eq_Inl: "rbind r f = Inl e \<longleftrightarrow> r = Inl e \<or> (\<exists>x. r = Inr x \<and> f x = Inl e)"
  by (cases r) auto

lemma rbind_cong [fundef_cong]:
  "r = r' \<Longrightarrow> (\<And>x. r' = Inr x \<Longrightarrow> f x = g x) \<Longrightarrow> rbind r f = rbind r' g"
  by (cases r') auto

lemma rbind_cong_Inr: "(\<And>x. r = Inr x \<Longrightarrow> f x = g x) \<Longrightarrow> rbind r f = rbind r g"
  by (cases r) auto

lemma rbind_if_distrib: "rbind (if b then x else y) f = (if b then rbind x f else rbind y f)"
  by simp

section \<open>Padding\<close>

text \<open>The number of padding bytes that bring an offset to a multiple of \<open>n\<close>.\<close>

definition padding :: "nat \<Rightarrow> nat \<Rightarrow> nat" where
  "padding n off = (if off mod n = 0 then 0 else n - off mod n)"

definition align_up :: "nat \<Rightarrow> nat \<Rightarrow> nat" where
  "align_up n off = off + padding n off"

lemma padding_lt: "0 < n \<Longrightarrow> padding n off < n"
  by (auto simp: padding_def)

lemma padding_one [simp]: "padding (Suc 0) off = 0"
  by (simp add: padding_def)

lemma padding_zero: "off mod n = 0 \<Longrightarrow> padding n off = 0"
  by (simp add: padding_def)

lemma align_up_dvd: "0 < n \<Longrightarrow> n dvd align_up n off"
proof (cases "off mod n = 0")
  case True
  then show ?thesis by (simp add: align_up_def padding_def dvd_eq_mod_eq_0)
next
  case False
  assume "0 < n"
  then have lt: "off mod n < n" by simp
  have "off + (n - off mod n) = (off div n) * n + n"
    using div_mult_mod_eq [of off n] lt by linarith
  also have "\<dots> = (off div n + 1) * n" by (simp add: algebra_simps)
  finally show ?thesis using False by (simp add: align_up_def padding_def)
qed

lemma align_up_ge [simp]: "off \<le> align_up n off"
  by (simp add: align_up_def)

lemma padding_cong: "a mod n = b mod n \<Longrightarrow> padding n a = padding n b"
  by (simp add: padding_def)

lemma mod_mod_dvd: "(n::nat) dvd N \<Longrightarrow> a mod N = b mod N \<Longrightarrow> a mod n = b mod n"
  by (metis mod_mod_cancel)

lemma align_up_least:
  assumes "0 < n" "off \<le> x" "n dvd x"
  shows "align_up n off \<le> x"
proof (rule ccontr)
  assume "\<not> ?thesis"
  then have lt: "x < align_up n off" by simp
  have "align_up n off < off + n"
    using padding_lt [OF assms(1), of off] by (simp add: align_up_def)
  moreover have "n dvd align_up n off - x"
    using align_up_dvd [OF assms(1)] assms(3) by simp
  then have "n \<le> align_up n off - x" using lt by (simp add: dvd_imp_le)
  ultimately show False using assms(2) lt by linarith
qed

lemma align_up_mono: "0 < n \<Longrightarrow> a \<le> b \<Longrightarrow> align_up n a \<le> align_up n b"
  by (rule align_up_least) (auto simp: align_up_dvd intro: order_trans)

abbreviation zeros :: "nat \<Rightarrow> u8 list" where
  "zeros n \<equiv> replicate n 0"

section \<open>Iterating a step over an index range\<close>

text \<open>\<open>for_upto n f c\<close> runs \<open>f 0\<close>, \<dots>, \<open>f (n - 1)\<close> on the state \<open>c\<close>, stopping at an exception.\<close>

fun for_from :: "nat \<Rightarrow> nat \<Rightarrow> (nat \<Rightarrow> 's \<Rightarrow> 's result) \<Rightarrow> 's \<Rightarrow> 's result" where
  "for_from i 0 f c = Inr c"
| "for_from i (Suc n) f c = rbind (f i c) (for_from (Suc i) n f)"

abbreviation for_upto :: "nat \<Rightarrow> (nat \<Rightarrow> 's \<Rightarrow> 's result) \<Rightarrow> 's \<Rightarrow> 's result" where
  "for_upto n f c \<equiv> for_from 0 n f c"

lemma for_from_cong [fundef_cong]:
  assumes "i = i'" "n = n'" "c = c'" "\<And>j x. f j x = g j x"
  shows "for_from i n f c = for_from i' n' g c'"
proof -
  have "f = g" using assms(4) by blast
  then show ?thesis using assms by simp
qed

lemma for_from_add: "for_from i (n + k) f c = rbind (for_from i n f c) (for_from (i + n) k f)"
proof (induction n arbitrary: i c)
  case 0
  then show ?case by simp
next
  case (Suc n)
  show ?case by (cases "f i c") (simp_all add: Suc.IH)
qed

end
