(* ===== verification/TypeSupport.thy ===== *)
theory TypeSupport
  imports Prelude
begin

text \<open>
  \<^verbatim>\<open>TypeSupport2.hpp\<close> and \<^verbatim>\<open>TypeSupport2.cpp\<close>: the value types that describe a message's IDL
  type together with its representation in memory, and their construction from the rosidl
  introspection tables.  The tables and the handles that lead to them come from generated code
  and from rosidl; they are data of the model.  What the C++ library decides (the sizes of
  \<open>std::string\<close> and the like) is the record \<open>abi\<close>.
\<close>

section \<open>Value types\<close>

datatype type_kind =
    FLOAT | DOUBLE | CHAR_T | WCHAR | BOOLEAN | OCTET
  | UINT8 | INT8 | UINT16 | INT16 | UINT32 | INT32 | UINT64 | INT64
  | STRING | WSTRING | MESSAGE

datatype type_generator = ROSIDL_C | ROSIDL_Cpp

datatype span_kind = CallbackSpan | ROSIDLC_Span nat

record struct_info =
  size_of :: nat
  m_has_keys :: bool
  m_is_self_contained :: bool
  m_type_generator :: type_generator

text \<open>
  One constructor per \<open>EValueType\<close>.  A string type holds its bound and \<open>sizeof(type)\<close>; an array
  holds its element type, its size and the member \<open>m_is_self_contained\<close>; a sequence its kind, its
  element type and its bound; a vector of booleans its bound and \<open>sizeof(std::vector<bool>)\<close>.
\<close>

datatype value_type =
    PrimitiveValueType type_kind
  | U8StringValueType nat nat
  | U16StringValueType nat nat
  | StructValueType struct_info "member list"
  | ArrayValueType value_type nat bool
  | SpanSequenceValueType span_kind value_type nat
  | BoolVectorValueType nat nat
and member = Member (member_name: string) (member_type: value_type) (member_offset: nat) (is_key: bool)

subsection \<open>Sizes and alignments\<close>

fun prim_sizeof :: "type_kind \<Rightarrow> nat result" where
  "prim_sizeof FLOAT = Inr 4"
| "prim_sizeof DOUBLE = Inr 8"
| "prim_sizeof CHAR_T = Inr 1"
| "prim_sizeof WCHAR = Inr 2"
| "prim_sizeof BOOLEAN = Inr 1"
| "prim_sizeof OCTET = Inr 1"
| "prim_sizeof UINT8 = Inr 1"
| "prim_sizeof INT8 = Inr 1"
| "prim_sizeof UINT16 = Inr 2"
| "prim_sizeof INT16 = Inr 2"
| "prim_sizeof UINT32 = Inr 4"
| "prim_sizeof INT32 = Inr 4"
| "prim_sizeof UINT64 = Inr 8"
| "prim_sizeof INT64 = Inr 8"
| "prim_sizeof _ = Inl (UB ''unreachable'')"

fun prim_cdrsizeof :: "type_kind \<Rightarrow> nat" where
  "prim_cdrsizeof BOOLEAN = 1"
| "prim_cdrsizeof OCTET = 1"
| "prim_cdrsizeof UINT8 = 1"
| "prim_cdrsizeof INT8 = 1"
| "prim_cdrsizeof CHAR_T = 1"
| "prim_cdrsizeof UINT16 = 2"
| "prim_cdrsizeof INT16 = 2"
| "prim_cdrsizeof WCHAR = 2"
| "prim_cdrsizeof UINT32 = 4"
| "prim_cdrsizeof INT32 = 4"
| "prim_cdrsizeof FLOAT = 4"
| "prim_cdrsizeof UINT64 = 8"
| "prim_cdrsizeof INT64 = 8"
| "prim_cdrsizeof DOUBLE = 8"
| "prim_cdrsizeof STRING = 0"
| "prim_cdrsizeof WSTRING = 0"
| "prim_cdrsizeof MESSAGE = 0"

definition prim_cdralignof :: "type_kind \<Rightarrow> nat" where
  "prim_cdralignof k = prim_cdrsizeof k"

fun sizeof_type :: "value_type \<Rightarrow> nat result" where
  "sizeof_type (PrimitiveValueType k) = prim_sizeof k"
| "sizeof_type (U8StringValueType bound sz) = Inr sz"
| "sizeof_type (U16StringValueType bound sz) = Inr sz"
| "sizeof_type (StructValueType si ms) = Inr (size_of si)"
| "sizeof_type (ArrayValueType e n sc) = rbind (sizeof_type e) (\<lambda>s. Inr (n * s))"
| "sizeof_type (SpanSequenceValueType CallbackSpan e bound) = Inl (LogicError ''not implemented'')"
| "sizeof_type (SpanSequenceValueType (ROSIDLC_Span sz) e bound) = Inr sz"
| "sizeof_type (BoolVectorValueType bound sz) = Inr sz"

fun is_self_contained :: "value_type \<Rightarrow> bool" where
  "is_self_contained (PrimitiveValueType k) = True"
| "is_self_contained (U8StringValueType bound sz) = False"
| "is_self_contained (U16StringValueType bound sz) = False"
| "is_self_contained (StructValueType si ms) = m_is_self_contained si"
| "is_self_contained (ArrayValueType e n sc) = sc"
| "is_self_contained (SpanSequenceValueType k e bound) = False"
| "is_self_contained (BoolVectorValueType bound sz) = False"

definition is_primitive_kind :: "type_kind \<Rightarrow> bool" where
  "is_primitive_kind k \<longleftrightarrow> k \<noteq> STRING \<and> k \<noteq> WSTRING \<and> k \<noteq> MESSAGE"

lemma prim_sizes:
  assumes "is_primitive_kind k"
  shows "prim_sizeof k = Inr (prim_cdrsizeof k)" and "prim_cdrsizeof k \<in> {1, 2, 4, 8}"
  using assms by (cases k; simp add: is_primitive_kind_def)+

lemma prim_cdrsizeof_dvd_8: "is_primitive_kind k \<Longrightarrow> prim_cdrsizeof k dvd 8"
  and prim_cdrsizeof_pos: "is_primitive_kind k \<Longrightarrow> 0 < prim_cdrsizeof k"
  by (cases k; simp add: is_primitive_kind_def)+

section \<open>Construction from the introspection tables\<close>

text \<open>
  A type support is what the two calls to \<open>get_message_typesupport_handle\<close> return for it: the
  introspection table under the C identifier and the one under the C++ identifier, if any.  A table
  has a namespace, which may be null, and a name.  Of a
  member's table entry the model keeps the fields the code reads; \<open>has_size_function\<close> says whether
  \<open>size_function\<close> is not null.
\<close>

datatype type_support = TypeSupport (ts_c: "meta_message option") (ts_cpp: "meta_message option")
and meta_message = MetaMessage (mm_namespace: "string option") (mm_message_name: string) (mm_size_of: nat) (mm_members: "meta_member list")
and meta_member = MetaMember (mm_name: string) (type_id: type_kind) (sub_type_support: type_support)
      (is_array: bool) (array_size: nat) (is_upper_bound: bool) (mm_offset: nat) (mm_is_key: bool)
      (has_size_function: bool) (string_upper_bound: nat)

record abi =
  sizeof_rosidl_String :: nat
  sizeof_rosidl_U16String :: nat
  sizeof_std_string :: nat
  sizeof_std_u16string :: nat
  sizeof_vector_bool :: nat
  sizeof_SequenceObject :: nat
  uninitialized_bool :: bool

definition make_U8String :: "nat \<Rightarrow> nat \<Rightarrow> value_type result" where
  "make_U8String bound sz =
     (if bound > UINT32_MAX - 1 then Inl (LogicError ''oversize string bound (> UINT32_MAX-1)'')
      else Inr (U8StringValueType bound sz))"

definition make_U16String :: "nat \<Rightarrow> nat \<Rightarrow> value_type result" where
  "make_U16String bound sz =
     (if bound > UINT32_MAX div 2 then Inl (LogicError ''oversize string bound (> UINT32_MAX/2)'')
      else Inr (U16StringValueType bound sz))"

text \<open>
  The constructor of \<open>ArrayValueType\<close> initialises the element type and the size but not
  \<open>m_is_self_contained\<close>: the member holds whatever the memory held.
\<close>

definition make_Array :: "abi \<Rightarrow> value_type \<Rightarrow> nat \<Rightarrow> value_type" where
  "make_Array A e n = ArrayValueType e n (uninitialized_bool A)"

definition member_bound :: "bool \<Rightarrow> nat \<Rightarrow> bool \<Rightarrow> nat" where
  "member_bound arr asz ub = (if arr \<and> asz \<noteq> 0 \<and> ub then asz mod 2 ^ 32 else UINT32_MAX)"

definition rosidlc_member_type ::
  "abi \<Rightarrow> value_type \<Rightarrow> bool \<Rightarrow> nat \<Rightarrow> bool \<Rightarrow> bool \<Rightarrow> value_type result" where
  "rosidlc_member_type A elt arr asz ub szf =
     (if arr \<and> asz > UINT32_MAX then Inl (LengthError ''arrays > UINT32_MAX not supported'')
      else if \<not> arr then Inr elt
      else if asz \<noteq> 0 \<and> \<not> ub then Inr (make_Array A elt asz)
      else if szf then Inr (SpanSequenceValueType CallbackSpan elt (member_bound arr asz ub))
      else Inr (SpanSequenceValueType (ROSIDLC_Span (sizeof_SequenceObject A)) elt
                  (member_bound arr asz ub)))"

definition rosidlcpp_member_type ::
  "abi \<Rightarrow> type_kind \<Rightarrow> value_type \<Rightarrow> bool \<Rightarrow> nat \<Rightarrow> bool \<Rightarrow> value_type result" where
  "rosidlcpp_member_type A tid elt arr asz ub =
     (if arr \<and> asz > UINT32_MAX then Inl (LengthError ''arrays > UINT32_MAX not supported'')
      else if \<not> arr then Inr elt
      else if asz \<noteq> 0 \<and> \<not> ub then Inr (make_Array A elt asz)
      else if tid = BOOLEAN
        then Inr (BoolVectorValueType (member_bound arr asz ub) (sizeof_vector_bool A))
      else Inr (SpanSequenceValueType CallbackSpan elt (member_bound arr asz ub)))"

fun make_message_value_type :: "abi \<Rightarrow> type_support \<Rightarrow> value_type result"
  and make_rosidlc_struct :: "abi \<Rightarrow> meta_message \<Rightarrow> value_type result"
  and make_rosidlcpp_struct :: "abi \<Rightarrow> meta_message \<Rightarrow> value_type result"
  and rosidlc_members ::
    "abi \<Rightarrow> meta_member list \<Rightarrow> member list \<Rightarrow> bool \<Rightarrow> bool \<Rightarrow> (member list \<times> bool \<times> bool) result"
  and rosidlcpp_members ::
    "abi \<Rightarrow> meta_member list \<Rightarrow> member list \<Rightarrow> bool \<Rightarrow> bool \<Rightarrow> (member list \<times> bool \<times> bool) result"
where
  "make_message_value_type A (TypeSupport c cpp) =
     (case c of
        Some m \<Rightarrow> make_rosidlc_struct A m
      | None \<Rightarrow>
         (case cpp of
            Some m \<Rightarrow> make_rosidlcpp_struct A m
          | None \<Rightarrow> Inl (RuntimeError ''Type support not from this implementation'')))"
| "make_rosidlc_struct A (MetaMessage ns name sz ms) =
     rbind (rosidlc_members A ms [] False True) (\<lambda>(members, has_keys, self_contained).
       Inr (StructValueType \<lparr>size_of = sz, m_has_keys = has_keys,
              m_is_self_contained = self_contained, m_type_generator = ROSIDL_C\<rparr> members))"
| "make_rosidlcpp_struct A (MetaMessage ns name sz ms) =
     rbind (rosidlcpp_members A ms [] False True) (\<lambda>(members, has_keys, self_contained).
       Inr (StructValueType \<lparr>size_of = sz, m_has_keys = has_keys,
              m_is_self_contained = self_contained, m_type_generator = ROSIDL_Cpp\<rparr> members))"
| "rosidlc_members A [] members has_keys self_contained = Inr (members, has_keys, self_contained)"
| "rosidlc_members A (MetaMember nm tid sub arr asz ub off key szf sb # ms) members has_keys
     self_contained =
     rbind (if tid = MESSAGE then make_message_value_type A sub
            else if tid = STRING then make_U8String (UINT32_MAX - 1) (sizeof_rosidl_String A)
            else if tid = WSTRING then make_U16String (UINT32_MAX div 2) (sizeof_rosidl_U16String A)
            else Inr (PrimitiveValueType tid)) (\<lambda>elt.
     rbind (rosidlc_member_type A elt arr asz ub szf) (\<lambda>vt.
       rosidlc_members A ms (members @ [Member nm vt off key]) (if key then True else has_keys)
         (if \<not> is_self_contained vt then False else self_contained)))"
| "rosidlcpp_members A [] members has_keys self_contained = Inr (members, has_keys, self_contained)"
| "rosidlcpp_members A (MetaMember nm tid sub arr asz ub off key szf sb # ms) members has_keys
     self_contained =
     rbind (if tid = MESSAGE then make_message_value_type A sub
            else if tid = STRING then make_U8String (UINT32_MAX - 1) (sizeof_std_string A)
            else if tid = WSTRING then make_U16String (UINT32_MAX div 2) (sizeof_std_u16string A)
            else Inr (PrimitiveValueType tid)) (\<lambda>elt.
     rbind (rosidlcpp_member_type A tid elt arr asz ub) (\<lambda>vt.
       rosidlcpp_members A ms (members @ [Member nm vt off key]) (if key then True else has_keys)
         (if \<not> is_self_contained vt then False else self_contained)))"

text \<open>A service has a request and a response; its type support is found the same way.\<close>

datatype service_members = ServiceMembers (sv_namespace: "string option") (sv_name: string)
      (request_members: meta_message) (response_members: meta_message)

datatype service_type_support =
  ServiceTypeSupport (sts_c: "service_members option") (sts_cpp: "service_members option")

definition make_request_response_value_types ::
  "abi \<Rightarrow> service_type_support \<Rightarrow> (value_type \<times> value_type) result" where
  "make_request_response_value_types A svc =
     (case sts_c svc of
        Some typed \<Rightarrow>
          rbind (make_rosidlc_struct A (request_members typed)) (\<lambda>rq.
          rbind (make_rosidlc_struct A (response_members typed)) (\<lambda>rp. Inr (rq, rp)))
      | None \<Rightarrow>
         (case sts_cpp svc of
            Some typed \<Rightarrow>
              rbind (make_rosidlcpp_struct A (request_members typed)) (\<lambda>rq.
              rbind (make_rosidlcpp_struct A (response_members typed)) (\<lambda>rp. Inr (rq, rp)))
          | None \<Rightarrow> Inl (RuntimeError ''Service type support not from this implementation'')))"

section \<open>Well-formed value types\<close>

text \<open>
  What the rest of the code relies on: primitive types are primitive, elements of arrays and
  sequences have a size, bounds fit \<open>uint32_t\<close>, and \<open>m_has_keys\<close> says whether a member is a key.
\<close>

lemma size_member_type [termination_simp]:
  "m \<in> set ms \<Longrightarrow> size (member_type m) < Suc (size_list size ms)"
proof (induction ms)
  case Nil
  then show ?case by simp
next
  case (Cons a ms)
  then show ?case by (cases a; cases m) auto
qed

fun wf_type :: "value_type \<Rightarrow> bool" where
  "wf_type (PrimitiveValueType k) = is_primitive_kind k"
| "wf_type (U8StringValueType bound sz) = (bound \<le> UINT32_MAX - 1)"
| "wf_type (U16StringValueType bound sz) = (bound \<le> UINT32_MAX div 2)"
| "wf_type (StructValueType si ms) =
     ((\<forall>m \<in> set ms. wf_type (member_type m)) \<and> m_has_keys si = list_ex is_key ms)"
| "wf_type (ArrayValueType e n sc) = (wf_type e \<and> (\<exists>s. sizeof_type e = Inr s) \<and> 0 < n \<and> n \<le> UINT32_MAX)"
| "wf_type (SpanSequenceValueType k e bound) =
     (wf_type e \<and> (\<exists>s. sizeof_type e = Inr s) \<and> bound \<le> UINT32_MAX)"
| "wf_type (BoolVectorValueType bound sz) = (bound \<le> UINT32_MAX)"

lemma member_bound_le: "member_bound arr asz ub \<le> UINT32_MAX"
proof -
  have "asz mod 2 ^ 32 < 2 ^ 32" by simp
  then have "asz mod 2 ^ 32 \<le> UINT32_MAX" by simp
  then show ?thesis by (simp add: member_bound_def)
qed

lemma rosidlc_member_type_wf:
  assumes "rosidlc_member_type A elt arr asz ub szf = Inr vt"
    and "wf_type elt" and "sizeof_type elt = Inr s"
  shows "wf_type vt"
  using assms member_bound_le [of arr asz ub]
  by (auto simp: rosidlc_member_type_def make_Array_def split: if_splits)

lemma rosidlcpp_member_type_wf:
  assumes "rosidlcpp_member_type A tid elt arr asz ub = Inr vt"
    and "wf_type elt" and "sizeof_type elt = Inr s"
  shows "wf_type vt"
  using assms member_bound_le [of arr asz ub]
  by (auto simp: rosidlcpp_member_type_def make_Array_def split: if_splits)

definition wf_struct :: "value_type \<Rightarrow> bool" where
  "wf_struct vt \<longleftrightarrow> wf_type vt \<and> (\<exists>si ms. vt = StructValueType si ms)"

definition wf_partial :: "member list \<Rightarrow> bool \<Rightarrow> bool" where
  "wf_partial ms hk \<longleftrightarrow> (\<forall>m \<in> set ms. wf_type (member_type m)) \<and> hk = list_ex is_key ms"

lemma wf_partial_Nil [simp]: "wf_partial [] False"
  by (simp add: wf_partial_def)

lemma wf_partial_snoc:
  "wf_partial ms hk \<Longrightarrow> wf_type vt \<Longrightarrow> wf_partial (ms @ [Member nm vt off key]) (if key then True else hk)"
  by (auto simp: wf_partial_def)

lemma element_type_wf:
  assumes "(if tid = MESSAGE then r
            else if tid = STRING then make_U8String (UINT32_MAX - 1) s1
            else if tid = WSTRING then make_U16String (UINT32_MAX div 2) s2
            else Inr (PrimitiveValueType tid)) = Inr elt"
    and "\<And>vt. tid = MESSAGE \<Longrightarrow> r = Inr vt \<Longrightarrow> wf_struct vt"
  shows "wf_type elt \<and> (\<exists>s. sizeof_type elt = Inr s)"
proof -
  have "sizeof_type elt = Inr (prim_cdrsizeof tid)" if "elt = PrimitiveValueType tid" "is_primitive_kind tid"
    using that prim_sizes(1) by simp
  then show ?thesis
    using assms by (auto simp: make_U8String_def make_U16String_def wf_struct_def
        is_primitive_kind_def split: if_splits)
qed

lemma make_value_types_wf:
  "make_message_value_type A ts = Inr vt \<Longrightarrow> wf_struct vt"
  "make_rosidlc_struct A mm = Inr vt \<Longrightarrow> wf_struct vt"
  "make_rosidlcpp_struct A mm = Inr vt \<Longrightarrow> wf_struct vt"
  "rosidlc_members A mms acc hk sc = Inr (ms, hk', sc') \<Longrightarrow> wf_partial acc hk \<Longrightarrow> wf_partial ms hk'"
  "rosidlcpp_members A mms acc hk sc = Inr (ms, hk', sc') \<Longrightarrow> wf_partial acc hk \<Longrightarrow> wf_partial ms hk'"
proof (induction A ts and A mm and A mm and A mms acc hk sc and A mms acc hk sc
    arbitrary: vt and vt and vt and ms hk' sc' and ms hk' sc'
    rule: make_message_value_type_make_rosidlc_struct_make_rosidlcpp_struct_rosidlc_members_rosidlcpp_members.induct)
  case (1 A c cpp)
  then show ?case by (auto split: option.splits)
next
  case (2 A ns name sz ms)
  then show ?case
    by (fastforce simp: rbind_eq_Inr wf_struct_def wf_partial_def)
next
  case (3 A ns name sz ms)
  then show ?case
    by (fastforce simp: rbind_eq_Inr wf_struct_def wf_partial_def)
next
  case (4 A members has_keys self_contained)
  then show ?case by simp
next
  case (5 A nm tid sub arr asz ub off key szf sb mms acc hk sc)
  from "5.prems"(1) obtain elt vt where elt:
      "(if tid = MESSAGE then make_message_value_type A sub
        else if tid = STRING then make_U8String (UINT32_MAX - 1) (sizeof_rosidl_String A)
        else if tid = WSTRING then make_U16String (UINT32_MAX div 2) (sizeof_rosidl_U16String A)
        else Inr (PrimitiveValueType tid)) = Inr elt"
    and vt: "rosidlc_member_type A elt arr asz ub szf = Inr vt"
    and rest: "rosidlc_members A mms (acc @ [Member nm vt off key]) (if key then True else hk)
         (if \<not> is_self_contained vt then False else sc) = Inr (ms, hk', sc')"
    by (auto simp: rbind_eq_Inr)
  have "wf_type elt \<and> (\<exists>s. sizeof_type elt = Inr s)"
    by (rule element_type_wf [OF elt]) (rule "5.IH"(1))
  then have "wf_type vt" using rosidlc_member_type_wf [OF vt] by blast
  with "5.prems"(2) have "wf_partial (acc @ [Member nm vt off key]) (if key then True else hk)"
    by (rule wf_partial_snoc)
  with "5.IH"(2) [OF elt vt rest] show ?case by simp
next
  case (6 A members has_keys self_contained)
  then show ?case by simp
next
  case (7 A nm tid sub arr asz ub off key szf sb mms acc hk sc)
  from "7.prems"(1) obtain elt vt where elt:
      "(if tid = MESSAGE then make_message_value_type A sub
        else if tid = STRING then make_U8String (UINT32_MAX - 1) (sizeof_std_string A)
        else if tid = WSTRING then make_U16String (UINT32_MAX div 2) (sizeof_std_u16string A)
        else Inr (PrimitiveValueType tid)) = Inr elt"
    and vt: "rosidlcpp_member_type A tid elt arr asz ub = Inr vt"
    and rest: "rosidlcpp_members A mms (acc @ [Member nm vt off key]) (if key then True else hk)
         (if \<not> is_self_contained vt then False else sc) = Inr (ms, hk', sc')"
    by (auto simp: rbind_eq_Inr)
  have "wf_type elt \<and> (\<exists>s. sizeof_type elt = Inr s)"
    by (rule element_type_wf [OF elt]) (rule "7.IH"(1))
  then have "wf_type vt" using rosidlcpp_member_type_wf [OF vt] by blast
  with "7.prems"(2) have "wf_partial (acc @ [Member nm vt off key]) (if key then True else hk)"
    by (rule wf_partial_snoc)
  with "7.IH"(2) [OF elt vt rest] show ?case by simp
qed

end
