(* ===== verification/TrivSerCache.thy ===== *)
theory TrivSerCache
  imports TypeSupport
begin

text \<open>
  \<^verbatim>\<open>trivsercache.hpp\<close>: the cache that answers, for a value type and an offset modulo 8, whether
  the bytes of a value in memory are its CDR serialization.  The code's key is the pointer to a
  value type; here it is the value type itself, which every pointer to it shares.  \<open>triv\<close> is the
  closed form of the computation; the theory shows that the constructor fills the cache with it for
  the root type and everything below it, so that a lookup never throws.
\<close>

section \<open>Computing the answer\<close>

abbreviation max_align :: nat where "max_align \<equiv> 8"

definition prim_is_trivially_serialized :: "nat \<Rightarrow> type_kind \<Rightarrow> bool result" where
  "prim_is_trivially_serialized al k =
     (let a = al mod max_align; cdr_alignof = prim_cdralignof k in
      if cdr_alignof = 0 then Inl (UB ''not a primitive type'')
      else if a mod cdr_alignof \<noteq> 0 then Inr False
      else rbind (prim_sizeof k) (\<lambda>s. Inr (s = prim_cdrsizeof k)))"

fun compute_trivially_serialized :: "nat \<Rightarrow> value_type \<Rightarrow> bool result"
  and struct_is_trivially_serialized :: "nat \<Rightarrow> nat \<Rightarrow> member list \<Rightarrow> nat \<Rightarrow> bool result"
where
  "compute_trivially_serialized al (PrimitiveValueType k) = prim_is_trivially_serialized (al mod max_align) k"
| "compute_trivially_serialized al (StructValueType si ms) =
     (let a = al mod max_align in struct_is_trivially_serialized a a ms (size_of si))"
| "compute_trivially_serialized al (ArrayValueType e n sc) =
     (let a = al mod max_align in
      rbind (compute_trivially_serialized a e) (\<lambda>b.
        if \<not> b then Inr False
        else rbind (sizeof_type e) (\<lambda>s. compute_trivially_serialized ((a + s) mod max_align) e)))"
| "compute_trivially_serialized al (U8StringValueType bound sz) = Inr False"
| "compute_trivially_serialized al (U16StringValueType bound sz) = Inr False"
| "compute_trivially_serialized al (SpanSequenceValueType k e bound) = Inr False"
| "compute_trivially_serialized al (BoolVectorValueType bound sz) = Inr False"
| "struct_is_trivially_serialized a offset [] sz = Inr (offset = a + sz)"
| "struct_is_trivially_serialized a offset (Member nm vt moff key # ms) sz =
     (if moff \<noteq> offset - a then Inr False
      else rbind (compute_trivially_serialized (offset mod max_align) vt) (\<lambda>b.
        if \<not> b then Inr False
        else rbind (sizeof_type vt) (\<lambda>s. struct_is_trivially_serialized a (offset + s) ms sz)))"

section \<open>The cache\<close>

type_synonym tsc = "nat \<times> value_type \<Rightarrow> bool option"

definition register_with ::
  "value_type \<Rightarrow> (nat \<Rightarrow> tsc \<Rightarrow> tsc result) \<Rightarrow> tsc \<Rightarrow> tsc result" where
  "register_with t fill cache =
     for_upto max_align (\<lambda>al cache.
       if cache (al, t) \<noteq> None then Inr cache
       else fill al (cache((al, t) \<mapsto> False))) cache"

lemma register_with_cong [fundef_cong]:
  assumes "t = t'" "c = c'" "\<And>al x. f al x = g al x"
  shows "register_with t f c = register_with t' g c'"
proof -
  have "f = g" using assms(3) by blast
  then show ?thesis using assms by simp
qed

fun register_serializable_type :: "value_type \<Rightarrow> tsc \<Rightarrow> tsc result"
  and register_members :: "member list \<Rightarrow> tsc \<Rightarrow> tsc result"
where
  "register_serializable_type (PrimitiveValueType k) cache =
     register_with (PrimitiveValueType k) (\<lambda>al cache.
       rbind (prim_is_trivially_serialized al k) (\<lambda>b.
         Inr (cache((al, PrimitiveValueType k) \<mapsto> b)))) cache"
| "register_serializable_type (ArrayValueType e n sc) cache =
     register_with (ArrayValueType e n sc) (\<lambda>al cache.
       rbind (compute_trivially_serialized al (ArrayValueType e n sc)) (\<lambda>b.
         register_serializable_type e (cache((al, ArrayValueType e n sc) \<mapsto> b)))) cache"
| "register_serializable_type (StructValueType si ms) cache =
     register_with (StructValueType si ms) (\<lambda>al cache.
       rbind (register_members ms cache) (\<lambda>cache.
       rbind (struct_is_trivially_serialized (al mod max_align) (al mod max_align) ms (size_of si)) (\<lambda>b.
         Inr (cache((al, StructValueType si ms) \<mapsto> b))))) cache"
| "register_serializable_type (SpanSequenceValueType k e bound) cache =
     register_with (SpanSequenceValueType k e bound) (\<lambda>al cache.
       rbind (register_serializable_type e cache) (\<lambda>cache.
         Inr (cache((al, SpanSequenceValueType k e bound) \<mapsto> False)))) cache"
| "register_serializable_type (U8StringValueType bound sz) cache =
     register_with (U8StringValueType bound sz) (\<lambda>al cache.
       Inr (cache((al, U8StringValueType bound sz) \<mapsto> False))) cache"
| "register_serializable_type (U16StringValueType bound sz) cache =
     register_with (U16StringValueType bound sz) (\<lambda>al cache.
       Inr (cache((al, U16StringValueType bound sz) \<mapsto> False))) cache"
| "register_serializable_type (BoolVectorValueType bound sz) cache =
     register_with (BoolVectorValueType bound sz) (\<lambda>al cache.
       Inr (cache((al, BoolVectorValueType bound sz) \<mapsto> False))) cache"
| "register_members [] cache = Inr cache"
| "register_members (Member nm vt moff key # ms) cache =
     rbind (register_serializable_type vt cache) (register_members ms)"

definition TriviallySerializedCache :: "value_type \<Rightarrow> tsc result" where
  "TriviallySerializedCache t = register_serializable_type t Map.empty"

definition lookup_trivially_serialized :: "tsc \<Rightarrow> nat \<Rightarrow> value_type \<Rightarrow> bool result" where
  "lookup_trivially_serialized cache al p =
     (case cache (al mod max_align, p) of
        Some b \<Rightarrow> Inr b
      | None \<Rightarrow> Inl (OutOfRange ''unordered_map::at''))"

definition lookup_many_trivially_serialized :: "tsc \<Rightarrow> nat \<Rightarrow> value_type \<Rightarrow> bool result" where
  "lookup_many_trivially_serialized cache al evt =
     (let a = al mod max_align in
      rbind (lookup_trivially_serialized cache a evt) (\<lambda>b.
        if \<not> b then Inr False
        else rbind (sizeof_type evt) (\<lambda>s.
          lookup_trivially_serialized cache ((a + s) mod max_align) evt)))"

section \<open>Closed form\<close>

definition szof :: "value_type \<Rightarrow> nat" where
  "szof vt = (case sizeof_type vt of Inr s \<Rightarrow> s | Inl _ \<Rightarrow> 0)"

lemma szof_Inr [simp]: "sizeof_type vt = Inr s \<Longrightarrow> szof vt = s"
  by (simp add: szof_def)

fun triv :: "nat \<Rightarrow> value_type \<Rightarrow> bool"
  and mtriv :: "nat \<Rightarrow> nat \<Rightarrow> member list \<Rightarrow> nat \<Rightarrow> bool"
where
  "triv al (PrimitiveValueType k) = (is_primitive_kind k \<and> al mod prim_cdralignof k = 0)"
| "triv al (StructValueType si ms) = mtriv al 0 ms (size_of si)"
| "triv al (ArrayValueType e n sc) = (triv al e \<and> triv (al + szof e) e)"
| "triv al (U8StringValueType bound sz) = False"
| "triv al (U16StringValueType bound sz) = False"
| "triv al (SpanSequenceValueType k e bound) = False"
| "triv al (BoolVectorValueType bound sz) = False"
| "mtriv al rel [] sz = (rel = sz)"
| "mtriv al rel (Member nm vt moff key # ms) sz =
     (moff = rel \<and> triv (al + rel) vt \<and> mtriv al (rel + szof vt) ms sz)"

lemma triv_cong:
  "al mod 8 = al' mod 8 \<Longrightarrow> triv al vt = triv al' vt"
  "al mod 8 = al' mod 8 \<Longrightarrow> mtriv al rel ms sz = mtriv al' rel ms sz"
proof (induction al vt and al rel ms sz arbitrary: al' and al' rule: triv_mtriv.induct)
  case (1 al k)
  then show ?case
    using mod_mod_dvd [of "prim_cdralignof k" 8 al al'] prim_cdrsizeof_dvd_8 [of k]
    by (auto simp: prim_cdralignof_def)
next
  case (3 al e n sc)
  have "(al + szof e) mod 8 = (al' + szof e) mod 8"
    using "3.prems" by (metis mod_add_left_eq)
  then show ?case
    using "3.IH"(1) [OF "3.prems"] "3.IH"(2) [of "al' + szof e"] by simp
next
  case (9 al rel nm vt moff key ms sz)
  have "(al + rel) mod 8 = (al' + rel) mod 8"
    using "9.prems" by (metis mod_add_left_eq)
  then show ?case
    using "9.IH"(1) [of "al' + rel"] "9.IH"(2) [OF "9.prems"] by auto
qed auto

lemma triv_mod [simp]: "triv (al mod 8) vt = triv al vt"
  by (rule triv_cong) simp

lemma triv_mod_add [simp]: "triv (al mod 8 + k) vt = triv (al + k) vt"
  by (rule triv_cong) (simp add: mod_add_left_eq)

lemma mtriv_mod [simp]: "mtriv (al mod 8) rel ms sz = mtriv al rel ms sz"
  by (rule triv_cong) simp

lemma triv_sizeof: "triv al vt \<Longrightarrow> \<exists>s. sizeof_type vt = Inr s"
proof (induction vt arbitrary: al rule: sizeof_type.induct)
  case (1 k)
  then show ?case using prim_sizes(1) by auto
next
  case (5 e n sc)
  then obtain s where "sizeof_type e = Inr s" by auto
  then show ?case by simp
qed auto

text \<open>The computation of the code never throws on a well-formed type, and gives the closed form.\<close>

lemma prim_trivially_eq:
  assumes "is_primitive_kind k"
  shows "prim_is_trivially_serialized al k = Inr (triv al (PrimitiveValueType k))"
proof -
  have "al mod 8 mod prim_cdralignof k = al mod prim_cdralignof k"
    using prim_cdrsizeof_dvd_8 [OF assms] by (simp add: prim_cdralignof_def mod_mod_cancel)
  then show ?thesis
    using assms prim_sizes(1) [OF assms] prim_cdrsizeof_pos [OF assms]
    by (simp add: prim_is_trivially_serialized_def prim_cdralignof_def Let_def)
qed

lemma compute_eq_triv:
  "wf_type vt \<Longrightarrow> compute_trivially_serialized al vt = Inr (triv al vt)"
  "\<forall>m \<in> set ms. wf_type (member_type m) \<Longrightarrow> a \<le> offset \<Longrightarrow>
     struct_is_trivially_serialized a offset ms sz = Inr (mtriv a (offset - a) ms sz)"
proof (induction al vt and a offset ms sz
    rule: compute_trivially_serialized_struct_is_trivially_serialized.induct)
  case (1 al k)
  then have "triv (al mod 8) (PrimitiveValueType k) = triv al (PrimitiveValueType k)"
    by (intro triv_mod)
  then show ?case using 1 prim_trivially_eq [of k "al mod 8"]
    by (simp del: triv.simps)
next
  case (2 al si ms)
  then show ?case by (simp add: Let_def)
next
  case (3 al e n sc)
  have wf: "wf_type e" and "\<exists>s. sizeof_type e = Inr s" using "3.prems" by auto
  then obtain s where s: "sizeof_type e = Inr s" by blast
  have one: "compute_trivially_serialized (al mod 8) e = Inr (triv al e)"
    using "3.IH"(1) [OF refl wf] by simp
  have two: "compute_trivially_serialized ((al mod 8 + s) mod 8) e = Inr (triv (al + s) e)"
    if "triv al e" using "3.IH"(2) [OF refl one] that s wf by simp
  show ?case using one two s by (simp add: Let_def)
next
  case (9 a offset nm vt moff key ms sz)
  have wf: "wf_type vt" "\<forall>m \<in> set ms. wf_type (member_type m)" using "9.prems"(1) by auto
  show ?case
  proof (cases "moff = offset - a \<and> triv offset vt")
    case False
    then show ?thesis using "9.IH"(1) wf "9.prems"(2) by auto
  next
    case True
    then obtain s where s: "sizeof_type vt = Inr s" using triv_sizeof by blast
    have one: "compute_trivially_serialized (offset mod 8) vt = Inr True"
      using "9.IH"(1) wf True by simp
    have "struct_is_trivially_serialized a (offset + s) ms sz = Inr (mtriv a (offset + s - a) ms sz)"
      using "9.IH"(2) [OF _ one _ s wf(2)] True "9.prems"(2) by simp
    then show ?thesis using True one s "9.prems"(2) by simp
  qed
qed auto

text \<open>
  The step the code calls clever: a type that is trivially serialized at offsets \<open>A\<close> and \<open>A + N\<close> is
  trivially serialized at \<open>A + k * N\<close> for every \<open>k\<close>.
\<close>

lemma triv_arith_progression:
  "triv al vt \<Longrightarrow> triv (al + d) vt \<Longrightarrow> triv (al + k * d) vt"
  "mtriv al rel ms sz \<Longrightarrow> mtriv (al + d) rel ms sz \<Longrightarrow> mtriv (al + k * d) rel ms sz"
proof (induction al vt and al rel ms sz arbitrary: d k and d k rule: triv_mtriv.induct)
  case (1 al pk)
  let ?n = "prim_cdralignof pk"
  have "?n dvd al" "?n dvd al + d" using 1 by (auto simp: dvd_eq_mod_eq_0)
  then have "?n dvd d" by (simp add: dvd_add_right_iff)
  with \<open>?n dvd al\<close> have "?n dvd al + k * d" by simp
  then show ?case using 1 by (simp add: dvd_eq_mod_eq_0)
next
  case (3 al e n sc)
  then show ?case
    using "3.IH"(1) [of d k] "3.IH"(2) [of d k] by (simp add: ac_simps)
next
  case (9 al rel nm vt moff key ms sz)
  then show ?case
    using "9.IH"(1) [of d k] "9.IH"(2) [of d k] by (simp add: ac_simps)
qed auto

section \<open>The cache holds the closed form\<close>

fun subtypes :: "value_type \<Rightarrow> value_type set" where
  "subtypes (StructValueType si ms) =
     insert (StructValueType si ms) (\<Union>m \<in> set ms. subtypes (member_type m))"
| "subtypes (ArrayValueType e n sc) = insert (ArrayValueType e n sc) (subtypes e)"
| "subtypes (SpanSequenceValueType k e bound) = insert (SpanSequenceValueType k e bound) (subtypes e)"
| "subtypes (PrimitiveValueType k) = {PrimitiveValueType k}"
| "subtypes (U8StringValueType bound sz) = {U8StringValueType bound sz}"
| "subtypes (U16StringValueType bound sz) = {U16StringValueType bound sz}"
| "subtypes (BoolVectorValueType bound sz) = {BoolVectorValueType bound sz}"

definition below :: "value_type \<Rightarrow> value_type set" where
  "below vt = subtypes vt - {vt}"

lemma self_subtype [simp]: "vt \<in> subtypes vt"
  by (cases vt) auto

lemma size_subtype: "u \<in> subtypes vt \<Longrightarrow> u = vt \<or> size u < size vt"
proof (induction vt rule: subtypes.induct)
  case (1 si ms)
  then show ?case using size_member_type [of _ ms] by (fastforce dest: less_trans)
qed auto

text \<open>Complete for a type: every question about it or a part of it has its answer.\<close>

definition tsc_complete :: "tsc \<Rightarrow> value_type \<Rightarrow> bool" where
  "tsc_complete C vt \<longleftrightarrow> (\<forall>a < 8. \<forall>u \<in> subtypes vt. C (a, u) = Some (triv a u))"

text \<open>
  The invariant while types in \<open>B\<close> are being registered: an entry for another type is right and
  the types below it are complete.
\<close>

definition tsc_inv :: "tsc \<Rightarrow> value_type set \<Rightarrow> bool" where
  "tsc_inv C B \<longleftrightarrow>
     (\<forall>a u b. C (a, u) = Some b \<longrightarrow> u \<notin> B \<longrightarrow> b = triv a u \<and> (\<forall>w \<in> below u. tsc_complete C w))"

definition tsc_grows :: "value_type set \<Rightarrow> tsc \<Rightarrow> tsc \<Rightarrow> bool" where
  "tsc_grows S C C' \<longleftrightarrow> C \<subseteq>\<^sub>m C' \<and> (\<forall>a u. C' (a, u) \<noteq> None \<longrightarrow> C (a, u) \<noteq> None \<or> u \<in> S)"

lemma tsc_complete_mono: "C \<subseteq>\<^sub>m C' \<Longrightarrow> tsc_complete C vt \<Longrightarrow> tsc_complete C' vt"
  by (fastforce simp: tsc_complete_def map_le_def dom_def)

lemma tsc_grows_refl [simp]: "tsc_grows S C C"
  by (simp add: tsc_grows_def)

lemma tsc_grows_trans: "tsc_grows S C C' \<Longrightarrow> tsc_grows S' C' C'' \<Longrightarrow> S' \<subseteq> S \<Longrightarrow> tsc_grows S C C''"
  unfolding tsc_grows_def by (blast intro: map_le_trans)

text \<open>Registering a type completes the cache for it and keeps the invariant.\<close>

definition reg_ok :: "value_type \<Rightarrow> (tsc \<Rightarrow> tsc result) \<Rightarrow> bool" where
  "reg_ok t R \<longleftrightarrow>
     (\<forall>C B. tsc_inv C B \<longrightarrow> (\<forall>w \<in> B. size t < size w) \<longrightarrow>
        (\<exists>C'. R C = Inr C' \<and> tsc_inv C' B \<and> tsc_grows (subtypes t) C C' \<and> tsc_complete C' t))"

text \<open>One step of the loop over alignments, from an absent entry.\<close>

definition step_ok :: "value_type \<Rightarrow> value_type set \<Rightarrow> nat \<Rightarrow> tsc \<Rightarrow> tsc \<Rightarrow> bool" where
  "step_ok t B al C C' \<longleftrightarrow>
     C' (al, t) = Some (triv al t) \<and> (\<forall>w \<in> below t. tsc_complete C' w) \<and>
     tsc_inv C' (insert t B) \<and> tsc_grows (subtypes t) C C' \<and>
     (\<forall>a. a \<noteq> al \<longrightarrow> C' (a, t) = C (a, t))"

lemma tsc_inv_fresh:
  assumes "tsc_inv C B" "C (al, t) = None"
  shows "tsc_inv (C((al, t) \<mapsto> x)) (insert t B)"
proof -
  have "C \<subseteq>\<^sub>m C((al, t) \<mapsto> x)" using assms(2) by (auto simp: map_le_def)
  then have "tsc_complete (C((al, t) \<mapsto> x)) w" if "tsc_complete C w" for w
    using that by (rule tsc_complete_mono)
  then show ?thesis using assms(1) by (auto simp: tsc_inv_def)
qed

lemma tsc_complete_upd: "tsc_complete C w \<Longrightarrow> tsc_complete (C((al, t) \<mapsto> triv al t)) w"
  by (auto simp: tsc_complete_def)

lemma step_okI:
  assumes "C (al, t) = None" "tsc_inv C2 (insert t B)"
    and grows: "tsc_grows (below t) (C((al, t) \<mapsto> x)) C2"
    and "\<And>w. w \<in> below t \<Longrightarrow> tsc_complete C2 w"
  shows "step_ok t B al C (C2((al, t) \<mapsto> triv al t))"
proof -
  let ?C = "C2((al, t) \<mapsto> triv al t)"
  have "C \<subseteq>\<^sub>m C((al, t) \<mapsto> x)" using assms(1) by (auto simp: map_le_def)
  then have le: "C \<subseteq>\<^sub>m C2" using grows by (auto simp: tsc_grows_def intro: map_le_trans)
  have "tsc_inv ?C (insert t B)"
    using assms(2) unfolding tsc_inv_def by (auto simp del: fun_upd_apply simp: fun_upd_other intro: tsc_complete_upd)
  moreover have "tsc_grows (subtypes t) C ?C"
    unfolding tsc_grows_def
  proof (intro conjI allI impI)
    show "C \<subseteq>\<^sub>m ?C" using le assms(1) by (auto simp: map_le_def)
  next
    fix a u assume "?C (a, u) \<noteq> None"
    then consider "u = t" | "C2 (a, u) \<noteq> None" "u \<noteq> t" by (auto split: if_splits)
    then show "C (a, u) \<noteq> None \<or> u \<in> subtypes t"
    proof cases
      case 2
      then have "(C((al, t) \<mapsto> x)) (a, u) \<noteq> None \<or> u \<in> below t"
        using grows unfolding tsc_grows_def by blast
      then show ?thesis using 2 by (auto simp: below_def)
    qed simp
  qed
  moreover have "?C (a, t) = C (a, t)" if "a \<noteq> al" for a
  proof (cases "C (a, t)")
    case None
    have "C2 (a, t) = None"
    proof (rule ccontr)
      assume "C2 (a, t) \<noteq> None"
      then have "(C((al, t) \<mapsto> x)) (a, t) \<noteq> None \<or> t \<in> below t"
        using grows unfolding tsc_grows_def by blast
      then show False using None that by (simp add: below_def)
    qed
    then show ?thesis using None that by simp
  next
    case (Some b)
    then show ?thesis using le that by (auto simp: map_le_def dom_def)
  qed
  ultimately show ?thesis using assms(4) by (auto simp: step_ok_def intro: tsc_complete_upd)
qed

lemma step_ok_inv:
  assumes "step_ok t B al C C'" "tsc_inv C B" "t \<notin> B"
  shows "tsc_inv C' B"
  unfolding tsc_inv_def
proof (intro allI impI)
  fix a u b assume e: "C' (a, u) = Some b" "u \<notin> B"
  show "b = triv a u \<and> (\<forall>w \<in> below u. tsc_complete C' w)"
  proof (cases "u = t")
    case False
    then show ?thesis using assms(1) e unfolding step_ok_def tsc_inv_def by blast
  next
    case True
    have "b = triv a t"
    proof (cases "a = al")
      case True
      then show ?thesis using assms(1) e \<open>u = t\<close> by (simp add: step_ok_def)
    next
      case False
      then have "C (a, t) = Some b" using assms(1) e \<open>u = t\<close> by (simp add: step_ok_def)
      then show ?thesis using assms(2,3) unfolding tsc_inv_def by blast
    qed
    then show ?thesis using assms(1) True by (simp add: step_ok_def)
  qed
qed

lemma register_loop_ok:
  assumes fill: "\<And>al C. C (al, t) = None \<Longrightarrow> tsc_inv C B \<Longrightarrow>
      \<exists>C'. fill al (C((al, t) \<mapsto> False)) = Inr C' \<and> step_ok t B al C C'"
    and "t \<notin> B"
  shows "tsc_inv C B \<Longrightarrow> \<forall>a < i. C (a, t) \<noteq> None \<Longrightarrow>
    \<exists>C'. for_from i n (\<lambda>al C. if C (al, t) \<noteq> None then Inr C else fill al (C((al, t) \<mapsto> False))) C
        = Inr C' \<and> tsc_inv C' B \<and> tsc_grows (subtypes t) C C' \<and> (\<forall>a < i + n. C' (a, t) \<noteq> None)"
proof (induction n arbitrary: i C)
  case 0
  then show ?case by simp
next
  case (Suc n)
  obtain C1 where C1: "(if C (i, t) \<noteq> None then Inr C else fill i (C((i, t) \<mapsto> False))) = Inr C1"
    and inv: "tsc_inv C1 B" and grows: "tsc_grows (subtypes t) C C1" and at: "C1 (i, t) \<noteq> None"
  proof (cases "C (i, t)")
    case None
    from fill [OF this Suc.prems(1)] obtain C' where
      C': "fill i (C((i, t) \<mapsto> False)) = Inr C'" "step_ok t B i C C'" by blast
    show ?thesis
      using that [of C'] None C' step_ok_inv [OF C'(2) Suc.prems(1) assms(2)]
      by (simp add: step_ok_def)
  next
    case (Some b)
    then show ?thesis using that [of C] Suc.prems(1) by simp
  qed
  have "\<forall>a < Suc i. C1 (a, t) \<noteq> None"
  proof (intro allI impI)
    fix a assume "a < Suc i"
    then consider "a = i" | "C (a, t) \<noteq> None" using Suc.prems(2) by (auto simp: less_Suc_eq)
    then show "C1 (a, t) \<noteq> None"
    proof cases
      case 1
      then show ?thesis using at by simp
    next
      case 2
      then obtain b where b: "C (a, t) = Some b" by auto
      have "(a, t) \<in> dom C" using b by auto
      then show ?thesis using grows b by (auto simp: tsc_grows_def map_le_def)
    qed
  qed
  from Suc.IH [OF inv this] obtain C' where C':
    "for_from (Suc i) n (\<lambda>al C. if C (al, t) \<noteq> None then Inr C else fill al (C((al, t) \<mapsto> False))) C1
       = Inr C'" "tsc_inv C' B" "tsc_grows (subtypes t) C1 C'" "\<forall>a < Suc i + n. C' (a, t) \<noteq> None"
    by blast
  then show ?case using C1 tsc_grows_trans [OF grows C'(3)] by simp
qed

lemma reg_okI:
  assumes "\<And>B al C. C (al, t) = None \<Longrightarrow> tsc_inv C B \<Longrightarrow> \<forall>w \<in> B. size t < size w \<Longrightarrow>
      \<exists>C'. fill al (C((al, t) \<mapsto> False)) = Inr C' \<and> step_ok t B al C C'"
  shows "reg_ok t (register_with t fill)"
  unfolding reg_ok_def
proof (intro allI impI)
  fix C B assume inv: "tsc_inv C B" and B: "\<forall>w \<in> B. size t < size w"
  then have "t \<notin> B" by blast
  have fill: "\<And>al C. C (al, t) = None \<Longrightarrow> tsc_inv C B \<Longrightarrow>
      \<exists>C'. fill al (C((al, t) \<mapsto> False)) = Inr C' \<and> step_ok t B al C C'"
    by (rule assms [OF _ _ B])
  have none: "\<forall>a < 0. C (a, t) \<noteq> None" by simp
  have "\<exists>C'. register_with t fill C = Inr C' \<and> tsc_inv C' B \<and> tsc_grows (subtypes t) C C' \<and>
      (\<forall>a < 0 + max_align. C' (a, t) \<noteq> None)"
    unfolding register_with_def by (rule register_loop_ok [OF fill \<open>t \<notin> B\<close> inv none])
  then obtain C' where C': "register_with t fill C = Inr C'" "tsc_inv C' B"
      "tsc_grows (subtypes t) C C'" "\<forall>a < 8. C' (a, t) \<noteq> None" by auto
  have entry: "C' (a, t) = Some (triv a t) \<and> (\<forall>w \<in> below t. tsc_complete C' w)" if "a < 8" for a
    using C'(2,4) that \<open>t \<notin> B\<close> unfolding tsc_inv_def by fastforce
  have below: "\<forall>w \<in> below t. tsc_complete C' w" using entry [of 0] by simp
  have "C' (a, u) = Some (triv a u)" if "a < 8" "u \<in> subtypes t" for a u
  proof (cases "u = t")
    case True
    then show ?thesis using entry that by simp
  next
    case False
    then have "tsc_complete C' u" using below that by (auto simp: below_def)
    then show ?thesis using that by (simp add: tsc_complete_def)
  qed
  then have "tsc_complete C' t" by (simp add: tsc_complete_def)
  with C' show "\<exists>C'. register_with t fill C = Inr C' \<and> tsc_inv C' B \<and>
      tsc_grows (subtypes t) C C' \<and> tsc_complete C' t" by blast
qed

lemma tsc_complete_sub: "tsc_complete C vt \<Longrightarrow> subtypes u \<subseteq> subtypes vt \<Longrightarrow> tsc_complete C u"
  by (auto simp: tsc_complete_def)

lemma subtypes_trans: "u \<in> subtypes vt \<Longrightarrow> subtypes u \<subseteq> subtypes vt"
  by (induction vt rule: subtypes.induct) auto

lemma register_members_ok:
  assumes "\<And>m. m \<in> set ms \<Longrightarrow> reg_ok (member_type m) (register_serializable_type (member_type m))"
    and "\<forall>w \<in> B. \<forall>m \<in> set ms. size (member_type m) < size w"
  shows "tsc_inv C B \<Longrightarrow> \<exists>C'. register_members ms C = Inr C' \<and> tsc_inv C' B \<and>
    tsc_grows (\<Union>m \<in> set ms. subtypes (member_type m)) C C' \<and>
    (\<forall>m \<in> set ms. tsc_complete C' (member_type m))"
  using assms
proof (induction ms arbitrary: C)
  case Nil
  then show ?case by simp
next
  case (Cons m ms)
  obtain nm vt off key where m: "m = Member nm vt off key" by (cases m)
  obtain C1 where C1: "register_serializable_type vt C = Inr C1" "tsc_inv C1 B"
      "tsc_grows (subtypes vt) C C1" "tsc_complete C1 vt"
  proof -
    have "reg_ok vt (register_serializable_type vt)" using Cons.prems(2) [of m] m by simp
    moreover have "\<forall>w \<in> B. size vt < size w" using Cons.prems(3) m by auto
    ultimately show thesis using Cons.prems(1) that unfolding reg_ok_def by blast
  qed
  obtain C2 where C2: "register_members ms C1 = Inr C2" "tsc_inv C2 B"
      "tsc_grows (\<Union>m \<in> set ms. subtypes (member_type m)) C1 C2"
      "\<forall>m \<in> set ms. tsc_complete C2 (member_type m)"
  proof -
    have "\<And>m. m \<in> set ms \<Longrightarrow> reg_ok (member_type m) (register_serializable_type (member_type m))"
      using Cons.prems(2) by simp
    moreover have "\<forall>w \<in> B. \<forall>m \<in> set ms. size (member_type m) < size w"
      using Cons.prems(3) by simp
    ultimately show thesis using Cons.IH [OF C1(2)] that by blast
  qed
  have "tsc_complete C2 vt" using C1(4) C2(3) tsc_complete_mono by (auto simp: tsc_grows_def)
  moreover have "tsc_grows (\<Union>m \<in> set (m # ms). subtypes (member_type m)) C C2"
  proof -
    have "tsc_grows (\<Union>m \<in> set (m # ms). subtypes (member_type m)) C C1"
      using C1(3) m by (auto simp: tsc_grows_def)
    then show ?thesis by (rule tsc_grows_trans [OF _ C2(3)]) auto
  qed
  ultimately show ?case using C1(1) C2 m by auto
qed

lemma step_ok_leaf:
  assumes "C (al, t) = None" "tsc_inv C B" "subtypes t = {t}"
  shows "step_ok t B al C (C((al, t) \<mapsto> triv al t))"
  using step_okI [OF assms(1) tsc_inv_fresh [OF assms(2,1)] tsc_grows_refl, of False]
  by (simp add: below_def assms(3))

lemma step_ok_child:
  assumes "C (al, t) = None" "tsc_inv C B" "\<forall>w \<in> B. size t < size w"
    and "reg_ok e (register_serializable_type e)" "subtypes t = insert t (subtypes e)" "size e < size t"
  obtains C2 where "register_serializable_type e (C((al, t) \<mapsto> x)) = Inr C2"
    and "step_ok t B al C (C2((al, t) \<mapsto> triv al t))" and "C2 (al, t) = Some x"
proof -
  have t: "t \<notin> subtypes e" using size_subtype [of t e] assms(6) by auto
  then have below: "below t = subtypes e" using assms(5) by (auto simp: below_def)
  have "\<forall>w \<in> insert t B. size e < size w" using assms(3,6) by auto
  then obtain C2 where C2: "register_serializable_type e (C((al, t) \<mapsto> x)) = Inr C2"
      "tsc_inv C2 (insert t B)" "tsc_grows (subtypes e) (C((al, t) \<mapsto> x)) C2" "tsc_complete C2 e"
    using tsc_inv_fresh [OF assms(2,1)] assms(4) unfolding reg_ok_def by blast
  have "tsc_complete C2 w" if "w \<in> subtypes e" for w
    using C2(4) subtypes_trans [OF that] by (rule tsc_complete_sub)
  then have "step_ok t B al C (C2((al, t) \<mapsto> triv al t))"
    by (intro step_okI [where x = x]) (use assms(1) C2 below in auto)
  moreover have "C2 (al, t) = Some x"
    using C2(3) by (auto simp: tsc_grows_def map_le_def)
  ultimately show thesis using that C2(1) by blast
qed

lemma register_ok: "wf_type t \<Longrightarrow> reg_ok t (register_serializable_type t)"
proof (induction t rule: measure_induct_rule [where f = size])
  case (less t)
  show ?case
  proof (cases t)
    case (PrimitiveValueType k)
    have "reg_ok t (register_with t (\<lambda>al cache.
        rbind (prim_is_trivially_serialized al k) (\<lambda>b. Inr (cache((al, t) \<mapsto> b)))))"
      by (rule reg_okI)
        (use less.prems PrimitiveValueType step_ok_leaf [of _ _ t] in
          \<open>simp add: prim_trivially_eq del: triv.simps fun_upd_apply\<close>)
    then show ?thesis using PrimitiveValueType by (simp add: reg_ok_def)
  next
    case (U8StringValueType b sz)
    have "reg_ok t (register_with t (\<lambda>al cache. Inr (cache((al, t) \<mapsto> False))))"
      by (rule reg_okI) (use U8StringValueType step_ok_leaf [of _ _ t] in \<open>simp del: fun_upd_apply\<close>)
    then show ?thesis using U8StringValueType by (simp add: reg_ok_def)
  next
    case (U16StringValueType b sz)
    have "reg_ok t (register_with t (\<lambda>al cache. Inr (cache((al, t) \<mapsto> False))))"
      by (rule reg_okI) (use U16StringValueType step_ok_leaf [of _ _ t] in \<open>simp del: fun_upd_apply\<close>)
    then show ?thesis using U16StringValueType by (simp add: reg_ok_def)
  next
    case (BoolVectorValueType b sz)
    have "reg_ok t (register_with t (\<lambda>al cache. Inr (cache((al, t) \<mapsto> False))))"
      by (rule reg_okI) (use BoolVectorValueType step_ok_leaf [of _ _ t] in \<open>simp del: fun_upd_apply\<close>)
    then show ?thesis using BoolVectorValueType by (simp add: reg_ok_def)
  next
    case (ArrayValueType e n sc)
    have e: "reg_ok e (register_serializable_type e)" using less ArrayValueType by simp
    have "reg_ok t (register_with t (\<lambda>al cache.
        rbind (compute_trivially_serialized al t) (\<lambda>b.
          register_serializable_type e (cache((al, t) \<mapsto> b)))))"
    proof (rule reg_okI)
      fix B al C assume "C (al, t) = None" "tsc_inv C B" "\<forall>w \<in> B. size t < size w"
      then obtain C2 where C2: "register_serializable_type e (C((al, t) \<mapsto> triv al t)) = Inr C2"
          "step_ok t B al C (C2((al, t) \<mapsto> triv al t))" "C2 (al, t) = Some (triv al t)"
        by (rule step_ok_child [OF _ _ _ e]) (use ArrayValueType in auto)
      then have "C2((al, t) \<mapsto> triv al t) = C2" by (simp add: fun_upd_idem)
      then show "\<exists>C'. rbind (compute_trivially_serialized al t) (\<lambda>b.
          register_serializable_type e ((C((al, t) \<mapsto> False))((al, t) \<mapsto> b))) = Inr C' \<and> step_ok t B al C C'"
        using C2 compute_eq_triv(1) [OF less.prems] by (simp del: fun_upd_apply)
    qed
    then show ?thesis using ArrayValueType by (simp add: reg_ok_def)
  next
    case (SpanSequenceValueType k e bound)
    have e: "reg_ok e (register_serializable_type e)" using less SpanSequenceValueType by simp
    have "reg_ok t (register_with t (\<lambda>al cache.
        rbind (register_serializable_type e cache) (\<lambda>cache. Inr (cache((al, t) \<mapsto> False)))))"
    proof (rule reg_okI)
      fix B al C assume "C (al, t) = None" "tsc_inv C B" "\<forall>w \<in> B. size t < size w"
      then obtain C2 where C2: "register_serializable_type e (C((al, t) \<mapsto> False)) = Inr C2"
          "step_ok t B al C (C2((al, t) \<mapsto> triv al t))"
        by (rule step_ok_child [OF _ _ _ e]) (use SpanSequenceValueType in auto)
      then show "\<exists>C'. rbind (register_serializable_type e (C((al, t) \<mapsto> False)))
          (\<lambda>cache. Inr (cache((al, t) \<mapsto> False))) = Inr C' \<and> step_ok t B al C C'"
        using SpanSequenceValueType by (simp del: fun_upd_apply)
    qed
    then show ?thesis using SpanSequenceValueType by (simp add: reg_ok_def)
  next
    case (StructValueType si ms)
    have small: "size (member_type m) < size t" if "m \<in> set ms" for m
      using size_member_type [OF that] StructValueType by simp
    then have ms: "reg_ok (member_type m) (register_serializable_type (member_type m))"
      if "m \<in> set ms" for m using that less StructValueType by simp
    have fill: "struct_is_trivially_serialized (al mod 8) (al mod 8) ms (size_of si) = Inr (triv al t)" for al
      using compute_eq_triv(1) [OF less.prems, of al] StructValueType by (simp add: Let_def)
    have below: "below t = (\<Union>m \<in> set ms. subtypes (member_type m))"
    proof -
      have "t \<notin> subtypes (member_type m)" if "m \<in> set ms" for m
        using size_subtype [of t "member_type m"] small [OF that] by auto
      then show ?thesis using StructValueType by (auto simp: below_def)
    qed
    have "reg_ok t (register_with t (\<lambda>al cache.
        rbind (register_members ms cache) (\<lambda>cache.
        rbind (struct_is_trivially_serialized (al mod max_align) (al mod max_align) ms (size_of si)) (\<lambda>b.
          Inr (cache((al, t) \<mapsto> b))))))"
    proof (rule reg_okI)
      fix B al C assume C: "C (al, t) = None" "tsc_inv C B" and B: "\<forall>w \<in> B. size t < size w"
      have inv: "tsc_inv (C((al, t) \<mapsto> False)) (insert t B)" by (rule tsc_inv_fresh [OF C(2,1)])
      have "\<forall>w \<in> insert t B. \<forall>m \<in> set ms. size (member_type m) < size w"
        using B small by (auto dest: less_trans)
      from register_members_ok [OF ms this inv] obtain C2 where C2:
          "register_members ms (C((al, t) \<mapsto> False)) = Inr C2" "tsc_inv C2 (insert t B)"
          "tsc_grows (below t) (C((al, t) \<mapsto> False)) C2"
          "\<forall>m \<in> set ms. tsc_complete C2 (member_type m)" unfolding below by blast
      have "tsc_complete C2 w" if "w \<in> below t" for w
        using that C2(4) unfolding below by (auto dest: subtypes_trans intro: tsc_complete_sub)
      with step_okI [OF C(1) C2(2,3)] have "step_ok t B al C (C2((al, t) \<mapsto> triv al t))" by simp
      then show "\<exists>C'. rbind (register_members ms (C((al, t) \<mapsto> False))) (\<lambda>cache.
          rbind (struct_is_trivially_serialized (al mod max_align) (al mod max_align) ms (size_of si)) (\<lambda>b.
            Inr (cache((al, t) \<mapsto> b)))) = Inr C' \<and> step_ok t B al C C'"
        using C2(1) fill by (simp del: fun_upd_apply)
    qed
    then show ?thesis using StructValueType by (simp add: reg_ok_def)
  qed
qed

section \<open>What the constructor and the lookups guarantee\<close>

lemma TriviallySerializedCache_complete:
  assumes "wf_type t"
  shows "\<exists>C. TriviallySerializedCache t = Inr C \<and> tsc_complete C t"
proof -
  have "tsc_inv Map.empty {}" by (simp add: tsc_inv_def)
  then show ?thesis
    using register_ok [OF assms] unfolding reg_ok_def TriviallySerializedCache_def by blast
qed

lemma lookup_complete:
  assumes "tsc_complete C t" "u \<in> subtypes t"
  shows "lookup_trivially_serialized C al u = Inr (triv al u)"
  using assms by (simp add: lookup_trivially_serialized_def tsc_complete_def)

definition many_triv :: "nat \<Rightarrow> value_type \<Rightarrow> bool" where
  "many_triv al e \<longleftrightarrow> triv al e \<and> triv (al + szof e) e"

lemma lookup_many_complete:
  assumes "tsc_complete C t" "u \<in> subtypes t"
  shows "lookup_many_trivially_serialized C al u = Inr (many_triv al u)"
proof -
  have "triv (al mod 8) u = triv al u" by simp
  then show ?thesis
    using triv_sizeof [of al u]
    by (auto simp: lookup_many_trivially_serialized_def Let_def lookup_complete [OF assms] many_triv_def)
qed

lemma many_triv_progression:
  "many_triv al e \<Longrightarrow> triv (al + k * szof e) e"
  unfolding many_triv_def by (blast intro: triv_arith_progression)

lemma tsc_complete_subtype: "tsc_complete C t \<Longrightarrow> u \<in> subtypes t \<Longrightarrow> tsc_complete C u"
  using subtypes_trans tsc_complete_sub by blast

end
