(* ===== verification/Bytewise.thy ===== *)
theory Bytewise
  imports Prelude
begin

text \<open>
  \<^verbatim>\<open>bytewise.hpp\<close> and the byte-swapping helpers at the head of \<^verbatim>\<open>Serialization.cpp\<close>.
  The byte order of the machine (\<open>native_endian()\<close>, fixed by the build) is an argument of the
  definitions that depend on it.  The main facts: the object representation of an unsigned
  integer determines it, and \<open>bswapN\<close> reverses the bytes of its operand.
\<close>

section \<open>Byte order\<close>

datatype endian = little | big

text \<open>The bytes of a value in a given byte order, from its bytes in little-endian order.\<close>

definition in_order :: "endian \<Rightarrow> u8 list \<Rightarrow> u8 list" where
  "in_order E bs = (case E of little \<Rightarrow> bs | big \<Rightarrow> rev bs)"

lemma in_order_in_order [simp]: "in_order E (in_order E bs) = bs"
  by (cases E) (simp_all add: in_order_def)

lemma length_in_order [simp]: "length (in_order E bs) = length bs"
  by (cases E) (simp_all add: in_order_def)

lemma in_order_little [simp]: "in_order little bs = bs"
  by (simp add: in_order_def)

lemma in_order_single [simp]: "in_order E [b] = [b]"
  by (cases E) (simp_all add: in_order_def)

lemma in_order_other: "E \<noteq> F \<Longrightarrow> in_order E bs = rev (in_order F bs)"
  by (cases E; cases F) (simp_all add: in_order_def)

section \<open>Object representation of unsigned integers\<close>

definition le_bytes :: "nat \<Rightarrow> 'a::len word \<Rightarrow> u8 list" where
  "le_bytes n w = map (\<lambda>i. ucast (drop_bit (8 * i) w)) [0..<n]"

fun of_le_bytes :: "u8 list \<Rightarrow> 'a::len word" where
  "of_le_bytes [] = 0"
| "of_le_bytes (b # bs) = ucast b OR push_bit 8 (of_le_bytes bs)"

lemma length_le_bytes [simp]: "length (le_bytes n w) = n"
  by (simp add: le_bytes_def)

lemma nth_le_bytes [simp]: "i < n \<Longrightarrow> le_bytes n w ! i = ucast (drop_bit (8 * i) w)"
  by (simp add: le_bytes_def)

lemma bit_of_le_bytes:
  "bit (of_le_bytes bs :: 'a::len word) i \<longleftrightarrow>
     i < LENGTH('a) \<and> i div 8 < length bs \<and> bit (bs ! (i div 8)) (i mod 8)"
proof (induction bs arbitrary: i)
  case Nil
  then show ?case by simp
next
  case (Cons b bs)
  show ?case
  proof (cases "i < 8")
    case True
    then show ?thesis by (auto simp: bit_simps)
  next
    case False
    then obtain j where j: "i = j + 8" by (metis add.commute le_iff_add not_less)
    then have "i div 8 = Suc (j div 8)" "i mod 8 = j mod 8" by simp_all
    moreover have "\<not> bit b (j + 8)"
      using bit_imp_le_length [of b "j + 8"] by auto
    ultimately show ?thesis
      using Cons [of j] j by (auto simp: bit_simps)
  qed
qed

lemma of_le_bytes_le_bytes:
  assumes "LENGTH('a) = 8 * n"
  shows "of_le_bytes (le_bytes n w) = (w :: 'a::len word)"
proof (rule bit_word_eqI)
  fix i assume "i < LENGTH('a)"
  with assms have "i < 8 * n" by simp
  then have "i div 8 < n" by linarith
  then show "bit (of_le_bytes (le_bytes n w) :: 'a word) i \<longleftrightarrow> bit w i"
    using \<open>i < LENGTH('a)\<close> by (simp add: bit_of_le_bytes bit_simps)
qed

lemma le_bytes_of_le_bytes:
  assumes "LENGTH('a) = 8 * n" "length bs = n"
  shows "le_bytes n (of_le_bytes bs :: 'a::len word) = bs"
proof (rule nth_equalityI)
  show "length (le_bytes n (of_le_bytes bs :: 'a word)) = length bs" using assms by simp
next
  fix k assume "k < length (le_bytes n (of_le_bytes bs :: 'a word))"
  then have k: "k < n" by simp
  show "le_bytes n (of_le_bytes bs :: 'a word) ! k = bs ! k"
  proof (rule bit_word_eqI)
    fix i assume i: "i < LENGTH(8)"
    then have "8 * k + i < 8 * n" "(8 * k + i) div 8 = k" "(8 * k + i) mod 8 = i"
      using k by simp_all
    then show "bit (le_bytes n (of_le_bytes bs :: 'a word) ! k) i \<longleftrightarrow> bit (bs ! k) i"
      using assms k i by (simp add: bit_of_le_bytes bit_simps)
  qed
qed

text \<open>What \<open>memcpy\<close> from and to an unsigned integer variable sees.\<close>

definition word_bytes :: "endian \<Rightarrow> nat \<Rightarrow> 'a::len word \<Rightarrow> u8 list" where
  "word_bytes E n w = in_order E (le_bytes n w)"

definition bytes_word :: "endian \<Rightarrow> u8 list \<Rightarrow> 'a::len word" where
  "bytes_word E bs = of_le_bytes (in_order E bs)"

lemma length_word_bytes [simp]: "length (word_bytes E n w) = n"
  by (simp add: word_bytes_def)

lemma bytes_word_word_bytes:
  "LENGTH('a) = 8 * n \<Longrightarrow> bytes_word E (word_bytes E n w) = (w :: 'a::len word)"
  by (simp add: bytes_word_def word_bytes_def of_le_bytes_le_bytes)

lemma word_bytes_bytes_word:
  "LENGTH('a) = 8 * n \<Longrightarrow> length bs = n \<Longrightarrow> word_bytes E n (bytes_word E bs :: 'a::len word) = bs"
  by (simp add: bytes_word_def word_bytes_def le_bytes_of_le_bytes)

lemma word_bytes_rev: "E \<noteq> F \<Longrightarrow> word_bytes E n w = rev (word_bytes F n w)"
  unfolding word_bytes_def by (rule in_order_other)

section \<open>\<open>bswap\<close>\<close>

definition bswap16 :: "u16 \<Rightarrow> u16" where
  "bswap16 u = (drop_bit 8 u OR push_bit 8 u)"

definition bswap32 :: "u32 \<Rightarrow> u32" where
  "bswap32 u =
     (drop_bit 24 u OR
      drop_bit 8 (u AND 0x00ff0000) OR
      push_bit 8 (u AND 0x0000ff00) OR
      push_bit 24 u)"

definition bswap64 :: "u64 \<Rightarrow> u64" where
  "bswap64 u =
     (drop_bit 56 u OR
      drop_bit 40 (u AND 0x00ff000000000000) OR
      drop_bit 24 (u AND 0x0000ff0000000000) OR
      drop_bit 8 (u AND 0x000000ff00000000) OR
      push_bit 8 (u AND 0x00000000ff000000) OR
      push_bit 24 (u AND 0x0000000000ff0000) OR
      push_bit 40 (u AND 0x000000000000ff00) OR
      push_bit 56 u)"

text \<open>
  \<open>bswapN<sz>\<close> copies \<open>sz\<close> bytes into an unsigned integer, swaps it and copies it back; the
  template is instantiated at 1, 2, 4 and 8 only.
\<close>

definition bswapN :: "endian \<Rightarrow> nat \<Rightarrow> u8 list \<Rightarrow> u8 list" where
  "bswapN E sz x =
     (if sz = 2 then word_bytes E 2 (bswap16 (bytes_word E x))
      else if sz = 4 then word_bytes E 4 (bswap32 (bytes_word E x))
      else if sz = 8 then word_bytes E 8 (bswap64 (bytes_word E x))
      else x)"

lemma less_8_cases: "(i::nat) < 8 \<longleftrightarrow> i = 0 \<or> i = 1 \<or> i = 2 \<or> i = 3 \<or> i = 4 \<or> i = 5 \<or> i = 6 \<or> i = 7"
  by auto

lemma le_bytes_bswap16: "le_bytes 2 (bswap16 w) = rev (le_bytes 2 w)"
  by (auto simp: le_bytes_def bswap16_def upt_rec less_8_cases bit_simps intro!: bit_word_eqI)

lemma le_bytes_bswap32: "le_bytes 4 (bswap32 w) = rev (le_bytes 4 w)"
  by (auto simp: le_bytes_def bswap32_def upt_rec less_8_cases bit_simps intro!: bit_word_eqI)

lemma byte_masks:
  "0x00ff000000000000 = push_bit 48 (mask 8 :: u64)"
  "0x0000ff0000000000 = push_bit 40 (mask 8 :: u64)"
  "0x000000ff00000000 = push_bit 32 (mask 8 :: u64)"
  "0x00000000ff000000 = push_bit 24 (mask 8 :: u64)"
  "0x0000000000ff0000 = push_bit 16 (mask 8 :: u64)"
  "0x000000000000ff00 = push_bit 8 (mask 8 :: u64)"
  by (simp_all add: mask_eq_exp_minus_1)

lemma bit_bswap64:
  assumes "k < 8" "j < 8"
  shows "bit (bswap64 w) (8 * k + j) \<longleftrightarrow> bit w (8 * (7 - k) + j)"
proof -
  have out: "\<not> bit w n" if "64 \<le> n" for n
    using that bit_imp_le_length [of w n] by auto
  consider "k = 0" | "k = 1" | "k = 2" | "k = 3" | "k = 4" | "k = 5" | "k = 6" | "k = 7"
    using assms(1) by linarith
  then show ?thesis
    by cases (use assms(2) in \<open>simp_all add: bswap64_def byte_masks bit_simps out\<close>)
qed

lemma le_bytes_bswap64: "le_bytes 8 (bswap64 w) = rev (le_bytes 8 w)"
proof (rule nth_equalityI)
  fix k assume "k < length (le_bytes 8 (bswap64 w))"
  then have k: "k < 8" by simp
  show "le_bytes 8 (bswap64 w) ! k = rev (le_bytes 8 w) ! k"
  proof (rule bit_word_eqI)
    fix j assume "j < LENGTH(8)"
    then show "bit (le_bytes 8 (bswap64 w) ! k) j \<longleftrightarrow> bit (rev (le_bytes 8 w) ! k) j"
      using k bit_bswap64 [of k j w] by (simp add: rev_nth bit_simps)
  qed
qed simp

lemma in_order_rev: "in_order E (rev bs) = rev (in_order E bs)"
  by (cases E) (simp_all add: in_order_def)

lemma bswapN_rev:
  assumes "length x = sz" "sz \<in> {1, 2, 4, 8}"
  shows "bswapN E sz x = rev x"
proof -
  consider "sz = 1" | "sz = 2" | "sz = 4" | "sz = 8" using assms(2) by auto
  then show ?thesis
  proof cases
    case 1
    with assms(1) show ?thesis by (cases x) (auto simp: bswapN_def)
  next
    case 2
    with assms(1) show ?thesis
      by (simp add: bswapN_def word_bytes_def bytes_word_def le_bytes_bswap16
          le_bytes_of_le_bytes in_order_rev)
  next
    case 3
    with assms(1) show ?thesis
      by (simp add: bswapN_def word_bytes_def bytes_word_def le_bytes_bswap32
          le_bytes_of_le_bytes in_order_rev)
  next
    case 4
    with assms(1) show ?thesis
      by (simp add: bswapN_def word_bytes_def bytes_word_def le_bytes_bswap64
          le_bytes_of_le_bytes in_order_rev)
  qed
qed

lemma word_eq_if_le_bytes_eq:
  "LENGTH('a) = 8 * n \<Longrightarrow> le_bytes n v = le_bytes n w \<Longrightarrow> v = (w :: 'a::len word)"
  by (metis of_le_bytes_le_bytes)

lemma bswap16_bytes_word:
  assumes "E \<noteq> F" "length bs = 2"
  shows "bswap16 (bytes_word E bs) = bytes_word F bs"
proof (rule word_eq_if_le_bytes_eq [where n = 2])
  show "le_bytes 2 (bswap16 (bytes_word E bs)) = le_bytes 2 (bytes_word F bs :: u16)"
    using assms in_order_other [OF assms(1), of bs]
    by (simp add: le_bytes_bswap16 bytes_word_def le_bytes_of_le_bytes)
qed simp

lemma bswap32_bytes_word:
  assumes "E \<noteq> F" "length bs = 4"
  shows "bswap32 (bytes_word E bs) = bytes_word F bs"
proof (rule word_eq_if_le_bytes_eq [where n = 4])
  show "le_bytes 4 (bswap32 (bytes_word E bs)) = le_bytes 4 (bytes_word F bs :: u32)"
    using assms in_order_other [OF assms(1), of bs]
    by (simp add: le_bytes_bswap32 bytes_word_def le_bytes_of_le_bytes)
qed simp

lemma bswap64_bytes_word:
  assumes "E \<noteq> F" "length bs = 8"
  shows "bswap64 (bytes_word E bs) = bytes_word F bs"
proof (rule word_eq_if_le_bytes_eq [where n = 8])
  show "le_bytes 8 (bswap64 (bytes_word E bs)) = le_bytes 8 (bytes_word F bs :: u64)"
    using assms in_order_other [OF assms(1), of bs]
    by (simp add: le_bytes_bswap64 bytes_word_def le_bytes_of_le_bytes)
qed simp

end
