(* ===== verification/CdrSpec.thy ===== *)
theory CdrSpec
  imports TrivSerCache Bytewise
begin

text \<open>
  What the CDR serializer is meant to produce, apart from how: the memory a sample lives in, the
  abstract value found there, and the XCDR1 encoding of an abstract value in a given byte order.
  The writer, the reader and the key extractor are each proved against this encoding.
\<close>

section \<open>Memory\<close>

text \<open>
  Raw bytes at every address, and at the addresses where library objects live, what their
  accessors return: the characters of a string, the size and the address of the contents of a
  sequence, the elements of a \<open>std::vector<bool>\<close>.  Addresses are natural numbers.
\<close>

record memory =
  mem_byte :: "nat \<Rightarrow> u8"
  mem_u8str :: "nat \<Rightarrow> u8 list"
  mem_u16str :: "nat \<Rightarrow> u16 list"
  mem_seq :: "nat \<Rightarrow> nat \<times> nat"
  mem_bools :: "nat \<Rightarrow> bool list"

definition mem_read :: "memory \<Rightarrow> nat \<Rightarrow> nat \<Rightarrow> u8 list" where
  "mem_read m a n = map (\<lambda>i. mem_byte m (a + i)) [0..<n]"

definition sequence_size :: "memory \<Rightarrow> nat \<Rightarrow> nat" where
  "sequence_size m a = fst (mem_seq m a)"

definition sequence_contents :: "memory \<Rightarrow> span_kind \<Rightarrow> nat \<Rightarrow> nat" where
  "sequence_contents m k a =
     (case k of
        CallbackSpan \<Rightarrow> (if sequence_size m a = 0 then 0 else snd (mem_seq m a))
      | ROSIDLC_Span _ \<Rightarrow> snd (mem_seq m a))"

lemma length_mem_read [simp]: "length (mem_read m a n) = n"
  by (simp add: mem_read_def)

lemma mem_read_0 [simp]: "mem_read m a 0 = []"
  by (simp add: mem_read_def)

lemma mem_read_add: "mem_read m a (i + j) = mem_read m a i @ mem_read m (a + i) j"
proof -
  have "[i..<i + j] = map (\<lambda>x. x + i) [0..<j]"
    using map_add_upt [of i j] by (simp add: add.commute)
  then have "map (\<lambda>x. mem_byte m (a + x)) [i..<i + j] = map (\<lambda>x. mem_byte m (a + i + x)) [0..<j]"
    by (simp add: comp_def ac_simps)
  moreover have "[0..<i + j] = [0..<i] @ [i..<i + j]" by (rule upt_add_eq_append) simp
  ultimately show ?thesis by (simp add: mem_read_def)
qed

section \<open>Abstract values\<close>

text \<open>
  The value of a primitive is its bytes in little-endian order, so that it does not depend on the
  machine; strings are their code units, sequences their elements.
\<close>

datatype lobj =
    LPrim "u8 list"
  | LStr "u8 list"
  | LWStr "u16 list"
  | LStruct "lobj list"
  | LArr "lobj list"
  | LSeq "lobj list"
  | LBools "bool list"

fun read_obj :: "endian \<Rightarrow> memory \<Rightarrow> nat \<Rightarrow> value_type \<Rightarrow> lobj" where
  "read_obj E m a (PrimitiveValueType k) = LPrim (in_order E (mem_read m a (prim_cdrsizeof k)))"
| "read_obj E m a (U8StringValueType bound sz) = LStr (mem_u8str m a)"
| "read_obj E m a (U16StringValueType bound sz) = LWStr (mem_u16str m a)"
| "read_obj E m a (StructValueType si ms) =
     LStruct (map (\<lambda>mem. read_obj E m (a + member_offset mem) (member_type mem)) ms)"
| "read_obj E m a (ArrayValueType e n sc) = LArr (map (\<lambda>i. read_obj E m (a + i * szof e) e) [0..<n])"
| "read_obj E m a (SpanSequenceValueType k e bound) =
     LSeq (map (\<lambda>i. read_obj E m (sequence_contents m k a + i * szof e) e) [0..<sequence_size m a])"
| "read_obj E m a (BoolVectorValueType bound sz) = LBools (mem_bools m a)"

section \<open>The encoding\<close>

datatype sample_or_key = Sample | Key

fun cdr_list :: "('o \<Rightarrow> nat \<Rightarrow> u8 list) \<Rightarrow> 'o list \<Rightarrow> nat \<Rightarrow> u8 list" where
  "cdr_list f [] off = []"
| "cdr_list f (x # xs) off = (let bs = f x off in bs @ cdr_list f xs (off + length bs))"

lemma cdr_list_cong [fundef_cong]:
  assumes "xs = ys" "off = off'" "\<And>x o'. x \<in> set ys \<Longrightarrow> f x o' = g x o'"
  shows "cdr_list f xs off = cdr_list g ys off'"
  using assms(3) unfolding assms(1,2) by (induction ys arbitrary: off') (auto simp: Let_def)

definition cdr_u32 :: "endian \<Rightarrow> nat \<Rightarrow> nat \<Rightarrow> u8 list" where
  "cdr_u32 T n off = zeros (padding 4 off) @ word_bytes T 4 (of_nat n :: u32)"

definition u16s_bytes :: "endian \<Rightarrow> u16 list \<Rightarrow> u8 list" where
  "u16s_bytes T ws = concat (map (word_bytes T 2) ws)"

definition bool_byte :: "bool \<Rightarrow> u8" where
  "bool_byte b = (if b then 1 else 0)"

fun cdr :: "endian \<Rightarrow> sample_or_key \<Rightarrow> value_type \<Rightarrow> lobj \<Rightarrow> nat \<Rightarrow> u8 list"
  and cdr_members :: "endian \<Rightarrow> sample_or_key \<Rightarrow> bool \<Rightarrow> member list \<Rightarrow> lobj list \<Rightarrow> nat \<Rightarrow> u8 list"
where
  "cdr T w (PrimitiveValueType k) (LPrim bs) off =
     zeros (padding (prim_cdralignof k) off) @ in_order T bs"
| "cdr T w (U8StringValueType bound sz) (LStr s) off = cdr_u32 T (length s + 1) off @ s @ [0]"
| "cdr T w (U16StringValueType bound sz) (LWStr s) off = cdr_u32 T (2 * length s) off @ u16s_bytes T s"
| "cdr T w (StructValueType si ms) (LStruct os) off =
     cdr_members T w (w \<noteq> Key \<or> \<not> m_has_keys si) ms os off"
| "cdr T w (ArrayValueType e n sc) (LArr os) off = cdr_list (cdr T w e) os off"
| "cdr T w (SpanSequenceValueType k e bound) (LSeq os) off =
     cdr_u32 T (length os) off @ cdr_list (cdr T w e) os (off + length (cdr_u32 T (length os) off))"
| "cdr T w (BoolVectorValueType bound sz) (LBools bs) off =
     cdr_u32 T (length bs) off @ map bool_byte bs"
| "cdr T w vt obj off = []"
| "cdr_members T w all_fields (Member nm vt moff key # ms) (obj # objs) off =
     (let bs = (if all_fields \<or> key then cdr T w vt obj off else [])
      in bs @ cdr_members T w all_fields ms objs (off + length bs))"
| "cdr_members T w all_fields ms objs off = []"

subsection \<open>The encoding depends on the offset modulo 8 only\<close>

lemma cdr_list_off:
  assumes "\<And>x a b. x \<in> set xs \<Longrightarrow> a mod 8 = b mod 8 \<Longrightarrow> f x a = f x b" "off mod 8 = off' mod 8"
  shows "cdr_list f xs off = cdr_list f xs off'"
  using assms
proof (induction xs arbitrary: off off')
  case Nil
  then show ?case by simp
next
  case (Cons x xs)
  have e: "f x off = f x off'" by (rule Cons.prems(1) [OF _ Cons.prems(2)]) simp
  have "(off + length (f x off)) mod 8 = (off' + length (f x off)) mod 8"
    using Cons.prems(2) by (metis mod_add_left_eq)
  then have "cdr_list f xs (off + length (f x off)) = cdr_list f xs (off' + length (f x off))"
    by (rule Cons.IH [rotated]) (rule Cons.prems(1), simp_all)
  then show ?case using e by (simp add: Let_def)
qed

lemma cdr_u32_off: "off mod 8 = off' mod 8 \<Longrightarrow> cdr_u32 T n off = cdr_u32 T n off'"
proof -
  assume "off mod 8 = off' mod 8"
  then have "off mod 4 = off' mod 4" by (rule mod_mod_dvd [rotated]) simp
  then have "padding 4 off = padding 4 off'" by (rule padding_cong)
  then show ?thesis by (simp add: cdr_u32_def)
qed

lemma cdr_off:
  "off mod 8 = off' mod 8 \<Longrightarrow> cdr T w vt obj off = cdr T w vt obj off'"
  "off mod 8 = off' mod 8 \<Longrightarrow> cdr_members T w all_fields ms objs off = cdr_members T w all_fields ms objs off'"
proof (induction T w vt obj off and T w all_fields ms objs off arbitrary: off' and off'
    rule: cdr_cdr_members.induct)
  case (1 T w k bs off)
  have "padding (prim_cdralignof k) off = padding (prim_cdralignof k) off'"
  proof (cases "is_primitive_kind k")
    case True
    then have "prim_cdralignof k dvd 8" by (simp add: prim_cdralignof_def prim_cdrsizeof_dvd_8)
    then show ?thesis by (intro padding_cong mod_mod_dvd [OF _ "1.prems"])
  next
    case False
    then show ?thesis by (auto simp: is_primitive_kind_def prim_cdralignof_def padding_def)
  qed
  then show ?case by simp
next
  case (2 T w bound sz s off)
  then have "cdr_u32 T n off = cdr_u32 T n off'" for n by (rule cdr_u32_off)
  then show ?case by simp
next
  case (3 T w bound sz s off)
  then have "cdr_u32 T n off = cdr_u32 T n off'" for n by (rule cdr_u32_off)
  then show ?case by simp
next
  case (5 T w e n sc os off)
  show ?case unfolding cdr.simps by (rule cdr_list_off [OF _ "5.prems"]) (rule "5.IH")
next
  case (6 T w k e bound os off)
  have u: "cdr_u32 T (length os) off = cdr_u32 T (length os) off'" by (rule cdr_u32_off [OF "6.prems"])
  have "(off + length (cdr_u32 T (length os) off')) mod 8 = (off' + length (cdr_u32 T (length os) off')) mod 8"
    using "6.prems" by (metis mod_add_left_eq)
  then have "cdr_list (cdr T w e) os (off + length (cdr_u32 T (length os) off'))
      = cdr_list (cdr T w e) os (off' + length (cdr_u32 T (length os) off'))"
    by (intro cdr_list_off) (rule "6.IH")
  then show ?case using u by simp
next
  case (7 T w bound sz bs off)
  then have "cdr_u32 T n off = cdr_u32 T n off'" for n by (rule cdr_u32_off)
  then show ?case by simp
next
  case (9 T w all_fields nm vt moff key ms obj objs off)
  let ?b = "\<lambda>off. if all_fields \<or> key then cdr T w vt obj off else []"
  have b: "?b off = ?b off'" using "9.IH"(1) "9.prems" by auto
  have "(off + length (?b off)) mod 8 = (off' + length (?b off)) mod 8"
    using "9.prems" by (metis mod_add_left_eq)
  then show ?case using "9.IH"(2) [OF refl] b by (simp add: Let_def)
qed auto

subsection \<open>Types without key structs encode alike as key and as sample\<close>

fun keyless :: "value_type \<Rightarrow> bool" where
  "keyless (StructValueType si ms) = (\<not> m_has_keys si \<and> (\<forall>m \<in> set ms. keyless (member_type m)))"
| "keyless (ArrayValueType e n sc) = keyless e"
| "keyless (SpanSequenceValueType k e bound) = keyless e"
| "keyless vt = True"

lemma cdr_keyless:
  "keyless vt \<Longrightarrow> cdr T w vt obj off = cdr T Sample vt obj off"
  "\<forall>m \<in> set ms. keyless (member_type m) \<Longrightarrow>
     cdr_members T w all_fields ms objs off = cdr_members T Sample all_fields ms objs off"
proof (induction T w vt obj off and T w all_fields ms objs off rule: cdr_cdr_members.induct)
  case (5 T w e n sc os off)
  then show ?case by (auto intro!: cdr_list_cong)
next
  case (6 T w k e bound os off)
  then show ?case by (auto intro!: cdr_list_cong)
qed (auto simp: Let_def)

text \<open>
  In key mode the serializer visits key members only.  \<open>key_safe\<close>: among what it visits, the
  elements of arrays and sequences are keyless.
\<close>

fun key_safe :: "value_type \<Rightarrow> bool" where
  "key_safe (StructValueType si ms) =
     (\<forall>m \<in> set ms. is_key m \<or> \<not> m_has_keys si \<longrightarrow> key_safe (member_type m))"
| "key_safe (ArrayValueType e n sc) = keyless e"
| "key_safe (SpanSequenceValueType k e bound) = keyless e"
| "key_safe vt = True"

lemma keyless_key_safe: "keyless vt \<Longrightarrow> key_safe vt"
  by (induction vt rule: keyless.induct) auto

definition plain_mode :: "sample_or_key \<Rightarrow> value_type \<Rightarrow> bool" where
  "plain_mode w vt \<longleftrightarrow> w = Sample \<or> key_safe vt"

section \<open>Trivially serialized values are encoded by their bytes\<close>

lemma cdr_list_map_upt_Suc:
  "cdr_list f (map g [0..<Suc n]) off =
     f (g 0) off @ cdr_list f (map (\<lambda>i. g (Suc i)) [0..<n]) (off + length (f (g 0) off))"
  by (simp add: upt_rec [of 0] Let_def map_Suc_upt [symmetric] comp_def del: upt_Suc)

lemma cdr_list_mem:
  assumes "\<And>k a. f (g a) (off + k * s) = mem_read m a s"
  shows "cdr_list f (map (\<lambda>i. g (a + i * s)) [0..<n]) (off + j * s) = mem_read m a (n * s)"
proof (induction n arbitrary: a j)
  case 0
  then show ?case by simp
next
  case (Suc n)
  have "cdr_list f (map (\<lambda>i. g (a + s + i * s)) [0..<n]) (off + Suc j * s) = mem_read m (a + s) (n * s)"
    by (rule Suc.IH)
  then show ?case
    unfolding cdr_list_map_upt_Suc by (simp add: assms mem_read_add ac_simps)
qed

lemma mtriv_is_bytes:
  assumes "\<And>mem off a. mem \<in> set ms \<Longrightarrow> triv off (member_type mem) \<Longrightarrow>
      cdr E Sample (member_type mem) (read_obj E m a (member_type mem)) off
        = mem_read m a (szof (member_type mem))"
  shows "mtriv off rel ms sz \<Longrightarrow>
     rel \<le> sz \<and> cdr_members E Sample True ms
       (map (\<lambda>mem. read_obj E m (a + member_offset mem) (member_type mem)) ms) (off + rel)
     = mem_read m (a + rel) (sz - rel)"
  using assms
proof (induction ms arbitrary: rel)
  case Nil
  then show ?case by simp
next
  case (Cons mem ms)
  obtain nm vt moff key where mem: "mem = Member nm vt moff key" by (cases mem)
  have vt: "triv (off + rel) vt" and moff: "moff = rel" and rest: "mtriv off (rel + szof vt) ms sz"
    using Cons.prems(1) mem by auto
  have one: "cdr E Sample vt (read_obj E m (a + rel) vt) (off + rel) = mem_read m (a + rel) (szof vt)"
    using Cons.prems(2) [of mem] vt mem by simp
  have two: "rel + szof vt \<le> sz \<and> cdr_members E Sample True ms
       (map (\<lambda>mem. read_obj E m (a + member_offset mem) (member_type mem)) ms) (off + (rel + szof vt))
     = mem_read m (a + (rel + szof vt)) (sz - (rel + szof vt))"
    by (rule Cons.IH [OF rest]) (simp add: Cons.prems(2))
  then have "sz - rel = szof vt + (sz - (rel + szof vt))" by linarith
  then have "mem_read m (a + rel) (sz - rel)
      = mem_read m (a + rel) (szof vt) @ mem_read m (a + rel + szof vt) (sz - (rel + szof vt))"
    by (simp only: mem_read_add)
  then show ?case using one two moff mem by (simp add: add.assoc)
qed

lemma triv_is_bytes:
  "triv off vt \<Longrightarrow> cdr E Sample vt (read_obj E m a vt) off = mem_read m a (szof vt)"
proof (induction vt arbitrary: off a rule: subtypes.induct)
  case (1 si ms)
  then have "mtriv off 0 ms (size_of si)" by simp
  from mtriv_is_bytes [OF _ this] "1.IH" show ?case by (simp add: szof_def)
next
  case (2 e n sc)
  then have "triv off e" by simp
  then obtain s where s: "sizeof_type e = Inr s" using triv_sizeof by blast
  have "triv (off + k * szof e) e" for k
    using "2.prems" by (intro many_triv_progression) (simp add: many_triv_def)
  then have "cdr E Sample e (read_obj E m a e) (off + k * szof e) = mem_read m a (szof e)" for k a
    by (rule "2.IH")
  then have "cdr_list (cdr E Sample e) (map (\<lambda>i. read_obj E m (a + i * szof e) e) [0..<n])
      (off + 0 * szof e) = mem_read m a (n * szof e)"
    by (rule cdr_list_mem [where g = "\<lambda>a. read_obj E m a e"])
  then show ?case using s by (simp add: szof_def)
next
  case (4 k)
  then have "sizeof_type (PrimitiveValueType k) = Inr (prim_cdrsizeof k)" by (simp add: prim_sizes(1))
  then show ?case using 4 by (simp add: padding_zero)
qed auto

text \<open>The shortcut of the writer for the elements of a sequence after the first.\<close>

lemma many_triv_is_bytes:
  assumes "many_triv off e" "w = Sample \<or> keyless e"
  shows "cdr_list (cdr E w e) (map (\<lambda>i. read_obj E m (a + i * szof e) e) [0..<n]) off
      = mem_read m a (n * szof e)"
proof -
  have w: "cdr E w e obj off = cdr E Sample e obj off" for obj off
    using assms(2) by (metis cdr_keyless(1))
  have "cdr E w e (read_obj E m a e) (off + k * szof e) = mem_read m a (szof e)" for k a
    unfolding w by (rule triv_is_bytes) (rule many_triv_progression [OF assms(1)])
  then have "cdr_list (cdr E w e) (map (\<lambda>i. read_obj E m (a + i * szof e) e) [0..<n])
      (off + 0 * szof e) = mem_read m a (n * szof e)"
    by (rule cdr_list_mem [where g = "\<lambda>a. read_obj E m a e"])
  then show ?thesis by simp
qed

end
