(* ===== verification/Cursors.thy ===== *)
theory Cursors
  imports Bytewise
begin

text \<open>
  The cursors of \<^verbatim>\<open>Serialization.cpp\<close>.  The serializer is a template over the write cursor; its
  instances are \<open>SizeCursor\<close>, \<open>CheckingSizeCursor\<close>, \<open>SerializeCursor\<close> and \<open>ByteVectorCursor\<close>.  The
  operations a template calls are the record \<open>write_ops\<close>, and the locale \<open>write_cursor\<close> states
  what the serializer needs of them: every operation emits some bytes.  Each of the four cursors
  interprets it.  \<open>DeserializeCursor\<close> is the one read cursor.
\<close>

section \<open>The interface of a write cursor\<close>

record 'c write_ops =
  w_offset :: "'c \<Rightarrow> nat"
  w_advance :: "nat \<Rightarrow> 'c \<Rightarrow> 'c result"
  w_put_bytes :: "u8 list \<Rightarrow> 'c \<Rightarrow> 'c result"
  w_put_null :: "nat \<Rightarrow> 'c \<Rightarrow> 'c result"
  w_rebase :: "int \<Rightarrow> 'c \<Rightarrow> 'c"
  w_ignores_data :: bool

text \<open>
  \<open>CursorBase::align\<close>.  \<open>w_put_null ops n\<close> is \<open>put_bytes(nullptr, n)\<close>, which only the cursors
  that ignore data accept.
\<close>

definition w_align :: "'c write_ops \<Rightarrow> nat \<Rightarrow> 'c \<Rightarrow> 'c result" where
  "w_align ops n c =
     (let start_offset = w_offset ops c in
      if n = 0 then Inl (UB ''align 0'')
      else if n = 1 \<or> start_offset mod n = 0 then Inr c
      else w_advance ops (n - start_offset mod n) c)"

locale write_cursor =
  fixes ops :: "'c write_ops"
    and inv :: "'c \<Rightarrow> bool"
    and emit :: "u8 list \<Rightarrow> 'c \<Rightarrow> 'c result"
  assumes put_bytes: "inv c \<Longrightarrow> w_put_bytes ops bs c = emit bs c"
    and advance: "inv c \<Longrightarrow> w_advance ops n c = emit (zeros n) c"
    and emit_Nil: "inv c \<Longrightarrow> emit [] c = Inr c"
    and emit_append: "inv c \<Longrightarrow> emit (xs @ ys) c = rbind (emit xs c) (emit ys)"
    and emit_inv: "inv c \<Longrightarrow> emit xs c = Inr c' \<Longrightarrow> inv c'"
    and emit_offset: "inv c \<Longrightarrow> emit xs c = Inr c' \<Longrightarrow>
          w_offset ops c' mod 8 = (w_offset ops c + length xs) mod 8"
    and emit_offset_small: "inv c \<Longrightarrow> emit xs c = Inr c' \<Longrightarrow>
          w_offset ops c + length xs \<le> UINT32_MAX \<Longrightarrow> w_offset ops c' = w_offset ops c + length xs"
    and emit_ignores: "w_ignores_data ops \<Longrightarrow> inv c \<Longrightarrow> length xs = length ys \<Longrightarrow> emit xs c = emit ys c"
    and rebase_header: "inv c \<Longrightarrow> w_offset ops c = 4 \<Longrightarrow>
          inv (w_rebase ops 4 c) \<and> w_offset ops (w_rebase ops 4 c) = 0"
begin

lemma align: "inv c \<Longrightarrow> 0 < n \<Longrightarrow> w_align ops n c = emit (zeros (padding n (w_offset ops c))) c"
proof (cases "w_offset ops c mod n = 0")
  case True
  assume "inv c" "0 < n"
  with True show ?thesis by (simp add: w_align_def padding_zero emit_Nil)
next
  case False
  assume "inv c" "0 < n"
  have "n \<noteq> 1" using False by auto
  have "w_align ops n c = w_advance ops (n - w_offset ops c mod n) c"
    unfolding w_align_def Let_def using \<open>0 < n\<close> \<open>n \<noteq> 1\<close> False by simp
  also have "\<dots> = emit (zeros (n - w_offset ops c mod n)) c" using \<open>inv c\<close> by (rule advance)
  finally show ?thesis unfolding padding_def using False by simp
qed

lemma align_8:
  assumes "inv c" "0 < n" "n dvd 8" "w_offset ops c mod 8 = off mod 8"
  shows "w_align ops n c = emit (zeros (padding n off)) c"
proof -
  have "w_offset ops c mod n = off mod n" using assms(3,4) by (rule mod_mod_dvd)
  then have "padding n (w_offset ops c) = padding n off" by (rule padding_cong)
  then show ?thesis by (simp add: align [OF assms(1,2)])
qed

text \<open>Sequencing: a step that emits \<open>xs\<close> followed by one that emits \<open>ys\<close> emits \<open>xs @ ys\<close>.\<close>

lemma emit_then:
  assumes "inv c" "s c = emit xs c"
    and "\<And>c'. inv c' \<Longrightarrow> w_offset ops c' mod 8 = (w_offset ops c + length xs) mod 8 \<Longrightarrow> t c' = emit ys c'"
  shows "rbind (s c) t = emit (xs @ ys) c"
  unfolding assms(2) emit_append [OF assms(1)]
  by (rule rbind_cong_Inr) (use assms(3) emit_inv [OF assms(1)] emit_offset [OF assms(1)] in blast)

end

section \<open>\<open>SizeCursor\<close>\<close>

record size_cursor = m_offset :: nat

definition SizeCursor :: "nat \<Rightarrow> size_cursor" where
  "SizeCursor initial_offset = \<lparr>m_offset = initial_offset\<rparr>"

definition size_advance :: "nat \<Rightarrow> size_cursor \<Rightarrow> size_cursor result" where
  "size_advance n c = Inr (c\<lparr>m_offset := sz_add (m_offset c) n\<rparr>)"

definition size_ops :: "size_cursor write_ops" where
  "size_ops = \<lparr>w_offset = m_offset, w_advance = size_advance,
     w_put_bytes = (\<lambda>bs. size_advance (length bs)), w_put_null = size_advance,
     w_rebase = (\<lambda>d c. c\<lparr>m_offset := sz_sub_diff (m_offset c) d\<rparr>), w_ignores_data = True\<rparr>"

lemma mod_SIZE_MOD_8: "(x mod SIZE_MOD) mod 8 = x mod (8::nat)"
  by (rule mod_mod_cancel) simp

interpretation size_cursor: write_cursor size_ops "\<lambda>c. m_offset c < SIZE_MOD"
  "\<lambda>bs. size_advance (length bs)"
proof (unfold_locales, goal_cases)
  case (4 c xs ys)
  have "((m_offset c + length xs) mod SIZE_MOD + length ys) mod SIZE_MOD
      = (m_offset c + (length xs + length ys)) mod SIZE_MOD"
    by (simp only: mod_add_left_eq add.assoc)
  then show ?case by (simp add: size_advance_def sz_add_def)
qed (auto simp: size_ops_def size_advance_def sz_add_def mod_SIZE_MOD_8 sz_sub_diff_def)

section \<open>\<open>CheckingSizeCursor\<close>\<close>

record checking_cursor = chk_offset :: nat

definition CheckingSizeCursor :: "nat \<Rightarrow> checking_cursor" where
  "CheckingSizeCursor initial_offset = \<lparr>chk_offset = initial_offset\<rparr>"

definition checking_advance :: "nat \<Rightarrow> checking_cursor \<Rightarrow> checking_cursor result" where
  "checking_advance n c =
     (if sz_sub UINT32_MAX (chk_offset c) < n then Inl (OverflowError ''oversize CDR'')
      else Inr (c\<lparr>chk_offset := sz_add (chk_offset c) n\<rparr>))"

definition checking_ops :: "checking_cursor write_ops" where
  "checking_ops = \<lparr>w_offset = chk_offset, w_advance = checking_advance,
     w_put_bytes = (\<lambda>bs. checking_advance (length bs)), w_put_null = checking_advance,
     w_rebase = (\<lambda>d c. c\<lparr>chk_offset := sz_sub_diff (chk_offset c) d\<rparr>), w_ignores_data = True\<rparr>"

lemma checking_advance_eq:
  assumes "chk_offset c \<le> UINT32_MAX"
  shows "checking_advance n c =
     (if chk_offset c + n \<le> UINT32_MAX then Inr (c\<lparr>chk_offset := chk_offset c + n\<rparr>)
      else Inl (OverflowError ''oversize CDR''))"
  using assms by (auto simp: checking_advance_def)

interpretation checking_cursor: write_cursor checking_ops "\<lambda>c. chk_offset c \<le> UINT32_MAX"
  "\<lambda>bs. checking_advance (length bs)"
  by unfold_locales
    (auto simp: checking_ops_def checking_advance_eq sz_sub_diff_def split: if_splits)

section \<open>\<open>SerializeCursor\<close>\<close>

text \<open>
  The destination is a memory block of a fixed length; a write past its end is undefined
  behaviour.  \<open>position\<close> is an index into the block, \<open>origin\<close> the index offsets count from.
\<close>

record serialize_cursor =
  sc_block :: "u8 list"
  sc_position :: nat
  sc_origin :: int

definition SerializeCursor :: "u8 list \<Rightarrow> serialize_cursor" where
  "SerializeCursor block = \<lparr>sc_block = block, sc_position = 0, sc_origin = 0\<rparr>"

definition ptr_offset :: "nat \<Rightarrow> int \<Rightarrow> nat" where
  "ptr_offset position origin = nat ((int position - origin) mod int SIZE_MOD)"

definition write_at :: "u8 list \<Rightarrow> nat \<Rightarrow> u8 list \<Rightarrow> u8 list" where
  "write_at block i bs = take i block @ bs @ drop (i + length bs) block"

definition sc_write :: "u8 list \<Rightarrow> serialize_cursor \<Rightarrow> serialize_cursor result" where
  "sc_write bs c =
     (if sc_position c + length bs \<le> length (sc_block c)
      then Inr (c\<lparr>sc_block := write_at (sc_block c) (sc_position c) bs,
                  sc_position := sc_position c + length bs\<rparr>)
      else Inl (UB ''write past the end of the buffer''))"

definition sc_advance :: "nat \<Rightarrow> serialize_cursor \<Rightarrow> serialize_cursor result" where
  "sc_advance n c = sc_write (zeros n) c"

definition sc_put_bytes :: "u8 list \<Rightarrow> serialize_cursor \<Rightarrow> serialize_cursor result" where
  "sc_put_bytes bs c = (if 0 < length bs then sc_write bs c else Inr c)"

definition serialize_ops :: "serialize_cursor write_ops" where
  "serialize_ops = \<lparr>w_offset = (\<lambda>c. ptr_offset (sc_position c) (sc_origin c)),
     w_advance = sc_advance, w_put_bytes = sc_put_bytes,
     w_put_null = (\<lambda>n c. if 0 < n then Inl (UB ''memcpy from nullptr'') else Inr c),
     w_rebase = (\<lambda>d c. c\<lparr>sc_origin := sc_origin c + d\<rparr>), w_ignores_data = False\<rparr>"

lemma length_write_at [simp]:
  "i + length bs \<le> length block \<Longrightarrow> length (write_at block i bs) = length block"
  by (simp add: write_at_def)

lemma write_at_append:
  "i + length xs + length ys \<le> length block \<Longrightarrow>
     write_at (write_at block i xs) (i + length xs) ys = write_at block i (xs @ ys)"
  by (simp add: write_at_def ac_simps)

lemma write_at_Nil [simp]: "write_at block i [] = block"
  by (simp add: write_at_def)

lemma ptr_offset_add_8: "ptr_offset (p + n) org mod 8 = (ptr_offset p org + n) mod 8"
proof -
  have pos: "0 \<le> (int p - org) mod int SIZE_MOD" "0 \<le> (int p + int n - org) mod int SIZE_MOD"
    by simp_all
  have "int (ptr_offset (p + n) org mod 8) = (int p + int n - org) mod int SIZE_MOD mod 8"
    using pos by (simp add: ptr_offset_def zmod_int)
  also have "\<dots> = (int p + int n - org) mod 8" by (rule mod_mod_cancel) simp
  also have "\<dots> = ((int p - org) mod 8 + int n) mod 8"
    by (metis add.commute add_diff_eq mod_add_left_eq)
  also have "(int p - org) mod 8 = (int p - org) mod int SIZE_MOD mod 8"
    by (rule mod_mod_cancel [symmetric]) simp
  also have "((int p - org) mod int SIZE_MOD mod 8 + int n) mod 8
      = ((int p - org) mod int SIZE_MOD + int n) mod 8" by (rule mod_add_left_eq)
  also have "\<dots> = int ((ptr_offset p org + n) mod 8)"
    using pos by (simp add: ptr_offset_def zmod_int)
  finally show ?thesis by (simp only: of_nat_eq_iff)
qed

lemma ptr_offset_add_small:
  assumes "ptr_offset p org + n < SIZE_MOD"
  shows "ptr_offset (p + n) org = ptr_offset p org + n"
proof -
  let ?M = "int SIZE_MOD"
  have pos: "0 \<le> (int p - org) mod ?M" by simp
  have lt: "(int p - org) mod ?M + int n < ?M" using assms pos by (simp add: ptr_offset_def)
  have "(int p + int n - org) mod ?M = ((int p - org) mod ?M + int n) mod ?M"
    by (metis (no_types, opaque_lifting) add.commute add_diff_eq mod_add_left_eq)
  also have "\<dots> = (int p - org) mod ?M + int n"
    using lt pos by (intro mod_pos_pos_trivial) auto
  finally show ?thesis using pos by (simp add: ptr_offset_def nat_add_distrib)
qed

lemma ptr_offset_shift: "ptr_offset p org = 4 \<Longrightarrow> ptr_offset p (org + 4) = 0"
proof -
  assume "ptr_offset p org = 4"
  then have "(int p - org) mod int SIZE_MOD = 4" by (simp add: ptr_offset_def)
  then have "(int p - org - 4) mod int SIZE_MOD = (4 - 4) mod int SIZE_MOD"
    by (metis mod_diff_left_eq)
  then show ?thesis by (simp add: ptr_offset_def algebra_simps)
qed

interpretation serialize_cursor: write_cursor serialize_ops
  "\<lambda>c. sc_position c \<le> length (sc_block c)" sc_write
proof (unfold_locales, goal_cases)
  case (4 c xs ys)
  show ?case by (simp add: sc_write_def write_at_append add.assoc)
next
  case (6 c xs c')
  then show ?case by (auto simp: serialize_ops_def sc_write_def ptr_offset_add_8 split: if_splits)
next
  case (7 c xs c')
  then show ?case
    by (auto simp: serialize_ops_def sc_write_def ptr_offset_add_small split: if_splits)
qed (auto simp: serialize_ops_def sc_write_def sc_put_bytes_def sc_advance_def ptr_offset_shift
      split: if_splits)

section \<open>\<open>ByteVectorCursor\<close>\<close>

record bytevec_cursor =
  bv_pos :: nat
  bv_data :: "u8 list"

definition ByteVectorCursor :: "u8 list \<Rightarrow> bytevec_cursor" where
  "ByteVectorCursor data = \<lparr>bv_pos = 0, bv_data = data\<rparr>"

definition bv_append :: "u8 list \<Rightarrow> bytevec_cursor \<Rightarrow> bytevec_cursor" where
  "bv_append bs c = c\<lparr>bv_data := bv_data c @ bs, bv_pos := sz_add (bv_pos c) (length bs)\<rparr>"

definition bv_advance :: "nat \<Rightarrow> bytevec_cursor \<Rightarrow> bytevec_cursor result" where
  "bv_advance n c = Inr (bv_append (zeros n) c)"

text \<open>
  \<open>put_bytes\<close> returns a pointer to the bytes it has appended, as an index into the vector, or
  null when there are none.  Callers swap bytes in place through it: \<open>bv_modify\<close>.
\<close>

definition bv_put_bytes :: "u8 list \<Rightarrow> bytevec_cursor \<Rightarrow> nat option \<times> bytevec_cursor" where
  "bv_put_bytes bs c =
     (if length bs = 0 then (None, c)
      else let c' = bv_append bs c in (Some (length (bv_data c') - length bs), c'))"

definition bv_modify :: "nat option \<Rightarrow> nat \<Rightarrow> (u8 list \<Rightarrow> u8 list) \<Rightarrow> bytevec_cursor \<Rightarrow> bytevec_cursor result" where
  "bv_modify p n f c =
     (case p of
        None \<Rightarrow> Inl (UB ''write through a null pointer'')
      | Some i \<Rightarrow>
          if i + n \<le> length (bv_data c)
          then Inr (c\<lparr>bv_data := write_at (bv_data c) i (f (take n (drop i (bv_data c))))\<rparr>)
          else Inl (UB ''write past the end of the vector''))"

definition bytevec_ops :: "bytevec_cursor write_ops" where
  "bytevec_ops = \<lparr>w_offset = bv_pos, w_advance = bv_advance,
     w_put_bytes = (\<lambda>bs c. Inr (snd (bv_put_bytes bs c))),
     w_put_null = (\<lambda>n c. if 0 < n then Inl (UB ''read of nullptr'') else Inr c),
     w_rebase = (\<lambda>d c. c\<lparr>bv_pos := sz_sub_diff (bv_pos c) d\<rparr>), w_ignores_data = False\<rparr>"

interpretation bytevec_cursor: write_cursor bytevec_ops "\<lambda>c. bv_pos c < SIZE_MOD"
  "\<lambda>bs c. Inr (bv_append bs c)"
proof (unfold_locales, goal_cases)
  case (4 c xs ys)
  have "((bv_pos c + length xs) mod SIZE_MOD + length ys) mod SIZE_MOD
      = (bv_pos c + (length xs + length ys)) mod SIZE_MOD"
    by (simp only: mod_add_left_eq add.assoc)
  then show ?case by (simp add: bv_append_def sz_add_def)
qed (auto simp: bytevec_ops_def bv_append_def bv_put_bytes_def bv_advance_def sz_add_def
      mod_SIZE_MOD_8 sz_sub_diff_def Let_def)

text \<open>Appending bytes and then transforming them in place appends the transformed bytes.\<close>

lemma bv_modify_put:
  assumes "bv_put_bytes bs c = (p, c')" "bs \<noteq> []" "n = length bs" "length (f bs) = length bs"
  shows "bv_modify p n f c' = Inr (bv_append (f bs) c)"
proof -
  have p: "p = Some (length (bv_data c))" and c': "c' = bv_append bs c"
    using assms(1,2) by (auto simp: bv_put_bytes_def Let_def bv_append_def)
  have "write_at (bv_data c @ bs) (length (bv_data c)) (f bs) = bv_data c @ f bs"
    using assms(4) by (simp add: write_at_def)
  then show ?thesis
    using assms(3,4) by (simp add: bv_modify_def p c' bv_append_def)
qed

section \<open>\<open>DeserializeCursor\<close>\<close>

record deserialize_cursor =
  dc_data :: "u8 list"
  dc_position :: nat
  dc_origin :: int

definition DeserializeCursor :: "u8 list \<Rightarrow> deserialize_cursor" where
  "DeserializeCursor bytes = \<lparr>dc_data = bytes, dc_position = 0, dc_origin = 0\<rparr>"

definition dc_offset :: "deserialize_cursor \<Rightarrow> nat" where
  "dc_offset c = ptr_offset (dc_position c) (dc_origin c)"

text \<open>
  \<open>advance\<close> returns a pointer to the bytes it has stepped over; \<open>get_bytes\<close> copies them.  Both are
  the bytes themselves here.
\<close>

definition dc_advance :: "nat \<Rightarrow> deserialize_cursor \<Rightarrow> (u8 list \<times> deserialize_cursor) result" where
  "dc_advance n c =
     (if length (dc_data c) - dc_position c < n
      then Inl (RuntimeError ''CDR deserialization: truncated input'')
      else Inr (take n (drop (dc_position c) (dc_data c)), c\<lparr>dc_position := dc_position c + n\<rparr>))"

abbreviation dc_get_bytes :: "nat \<Rightarrow> deserialize_cursor \<Rightarrow> (u8 list \<times> deserialize_cursor) result" where
  "dc_get_bytes \<equiv> dc_advance"

definition dc_rebase :: "int \<Rightarrow> deserialize_cursor \<Rightarrow> deserialize_cursor" where
  "dc_rebase d c = c\<lparr>dc_origin := dc_origin c + d\<rparr>"

definition dc_align :: "nat \<Rightarrow> deserialize_cursor \<Rightarrow> deserialize_cursor result" where
  "dc_align n c =
     (let start_offset = dc_offset c in
      if n = 0 then Inl (UB ''align 0'')
      else if n = 1 \<or> start_offset mod n = 0 then Inr c
      else rbind (dc_advance (n - start_offset mod n) c) (\<lambda>(_, c'). Inr c'))"

text \<open>The position never passes the end of the input; that is what makes \<open>end - position\<close> a size.\<close>

definition dc_inv :: "deserialize_cursor \<Rightarrow> bool" where
  "dc_inv c \<longleftrightarrow> dc_position c \<le> length (dc_data c)"

definition dc_rest :: "deserialize_cursor \<Rightarrow> u8 list" where
  "dc_rest c = drop (dc_position c) (dc_data c)"

lemma dc_advance_inv:
  "dc_advance n c = Inr (bs, c') \<Longrightarrow> dc_inv c \<Longrightarrow>
     dc_inv c' \<and> length bs = n \<and> dc_rest c = bs @ dc_rest c' \<and> dc_data c' = dc_data c
     \<and> dc_position c' = dc_position c + n \<and> dc_origin c' = dc_origin c"
  by (auto simp: dc_advance_def dc_inv_def dc_rest_def add.commute min_def split: if_splits
      simp flip: drop_drop)

lemma dc_advance_error: "dc_advance n c = Inl e \<Longrightarrow> e = RuntimeError ''CDR deserialization: truncated input''"
  by (simp add: dc_advance_def split: if_splits)

lemma dc_align_error:
  "dc_align n c = Inl e \<Longrightarrow> 0 < n \<Longrightarrow> e = RuntimeError ''CDR deserialization: truncated input''"
  by (auto simp: dc_align_def Let_def rbind_eq_Inl dest: dc_advance_error split: if_splits)

lemma dc_align_inv:
  "dc_align n c = Inr c' \<Longrightarrow> dc_inv c \<Longrightarrow> 0 < n \<Longrightarrow>
     dc_inv c' \<and> dc_data c' = dc_data c \<and> dc_origin c' = dc_origin c \<and> dc_position c \<le> dc_position c'"
proof -
  assume a: "dc_align n c = Inr c'" "dc_inv c" "0 < n"
  show ?thesis
  proof (cases "n = 1 \<or> dc_offset c mod n = 0")
    case True
    with a have "c' = c" by (auto simp: dc_align_def Let_def)
    with a show ?thesis by simp
  next
    case False
    with a obtain bs where "dc_advance (n - dc_offset c mod n) c = Inr (bs, c')"
      by (auto simp: dc_align_def Let_def rbind_eq_Inr)
    from dc_advance_inv [OF this a(2)] show ?thesis by simp
  qed
qed

text \<open>\<open>dc_step bs c c'\<close>: the cursor \<open>c'\<close> is \<open>c\<close> after reading the bytes \<open>bs\<close>.\<close>

definition dc_step :: "u8 list \<Rightarrow> deserialize_cursor \<Rightarrow> deserialize_cursor" where
  "dc_step bs c = c\<lparr>dc_position := dc_position c + length bs\<rparr>"

lemma dc_rest_step: "dc_rest c = bs @ rest \<Longrightarrow> dc_rest (dc_step bs c) = rest"
proof -
  assume "dc_rest c = bs @ rest"
  then have "drop (length bs) (drop (dc_position c) (dc_data c)) = rest" by (simp add: dc_rest_def)
  then show ?thesis by (simp add: dc_rest_def dc_step_def add.commute)
qed

lemma dc_offset_step: "dc_offset (dc_step bs c) mod 8 = (dc_offset c + length bs) mod 8"
  by (simp add: dc_offset_def dc_step_def ptr_offset_add_8)

lemma dc_step_append: "dc_step (xs @ ys) c = dc_step ys (dc_step xs c)"
  by (simp add: dc_step_def add.assoc)

lemma dc_step_Nil [simp]: "dc_step [] c = c"
  by (simp add: dc_step_def)

lemma dc_advance_step:
  assumes "dc_rest c = bs @ rest" "length bs = n"
  shows "dc_advance n c = Inr (bs, dc_step bs c)"
proof -
  have "length (dc_data c) - dc_position c = n + length rest"
    using arg_cong [OF assms(1), of length] assms(2) by (simp add: dc_rest_def)
  moreover have "take n (drop (dc_position c) (dc_data c)) = bs"
    using assms by (simp add: dc_rest_def)
  ultimately show ?thesis using assms(2) by (simp add: dc_advance_def dc_step_def)
qed

lemma dc_align_step:
  assumes "dc_rest c = zeros (padding n off) @ rest" "0 < n" "n dvd 8" "dc_offset c mod 8 = off mod 8"
  shows "dc_align n c = Inr (dc_step (zeros (padding n off)) c)"
proof -
  have "dc_offset c mod n = off mod n" using assms(3,4) by (rule mod_mod_dvd)
  then show ?thesis
    using assms(2) dc_advance_step [OF assms(1)] by (auto simp: dc_align_def Let_def padding_def)
qed

end
