(* ===== verification/CdrWriter.thy ===== *)
theory CdrWriter
  imports CdrSpec Cursors
begin

text \<open>
  \<open>CDRWriter::serialize\<close> of \<^verbatim>\<open>Serialization.cpp\<close>, a template over the write cursor: each definition
  takes the operations of the cursor.  The theory proves, for every lawful cursor, that the
  serializer with its \<open>memcpy\<close> shortcuts emits the abstract encoding of the value in memory, and
  instantiates this at the cursor that measures and at the cursor that writes.
\<close>

section \<open>The serializer\<close>

definition put_rtps_header :: "'c write_ops \<Rightarrow> endian \<Rightarrow> 'c \<Rightarrow> 'c result" where
  "put_rtps_header ops E c = w_put_bytes ops [0, (if E = little then 1 else 0), 0, 0] c"

definition serialize_u32 :: "'c write_ops \<Rightarrow> endian \<Rightarrow> nat \<Rightarrow> 'c \<Rightarrow> 'c result" where
  "serialize_u32 ops E value c =
     rbind (w_align ops 4 c) (w_put_bytes ops (word_bytes E 4 (of_nat value :: u32)))"

definition serialize_primitive ::
  "'c write_ops \<Rightarrow> endian \<Rightarrow> memory \<Rightarrow> type_kind \<Rightarrow> nat \<Rightarrow> 'c \<Rightarrow> 'c result" where
  "serialize_primitive ops E m k src c =
     rbind (w_align ops (prim_cdralignof k) c) (\<lambda>c.
     let n_bytes = prim_cdrsizeof k in
     if k = FLOAT \<or> k = DOUBLE then w_put_bytes ops (mem_read m src n_bytes) c
     else if k = STRING \<or> k = WSTRING \<or> k = MESSAGE then Inl (UB ''unreachable'')
     else rbind (prim_sizeof k) (\<lambda>sz.
       if sz = n_bytes \<or> E = little then w_put_bytes ops (mem_read m src n_bytes) c
       else w_put_bytes ops (mem_read m (src + (sz - n_bytes)) n_bytes) c))"

definition serialize_u8string :: "'c write_ops \<Rightarrow> endian \<Rightarrow> memory \<Rightarrow> nat \<Rightarrow> 'c \<Rightarrow> 'c result" where
  "serialize_u8string ops E m src c =
     (let str = mem_u8str m src in
      rbind (serialize_u32 ops E (length str + 1) c) (\<lambda>c.
      rbind (w_put_bytes ops str c) (\<lambda>c.
      w_put_bytes ops [0] c)))"

definition serialize_u16string :: "'c write_ops \<Rightarrow> endian \<Rightarrow> memory \<Rightarrow> nat \<Rightarrow> 'c \<Rightarrow> 'c result" where
  "serialize_u16string ops E m src c =
     (let str = mem_u16str m src in
      rbind (serialize_u32 ops E (2 * length str) c) (\<lambda>c.
      if w_ignores_data ops then w_advance ops (2 * length str) c
      else w_put_bytes ops (u16s_bytes E str) c))"

fun put_bools :: "'c write_ops \<Rightarrow> bool list \<Rightarrow> 'c \<Rightarrow> 'c result" where
  "put_bools ops [] c = Inr c"
| "put_bools ops (b # bs) c = rbind (w_put_bytes ops [bool_byte b] c) (put_bools ops bs)"

definition serialize_boolvector :: "'c write_ops \<Rightarrow> endian \<Rightarrow> memory \<Rightarrow> nat \<Rightarrow> 'c \<Rightarrow> 'c result" where
  "serialize_boolvector ops E m src c =
     (let bools = mem_bools m src in
      rbind (serialize_u32 ops E (length bools) c) (\<lambda>c.
      if w_ignores_data ops then w_advance ops (length bools) c else put_bools ops bools c))"

text \<open>
  \<open>serialize_many\<close>; \<open>ser\<close> is \<open>serialize(dst, _, vt, what)\<close> on an element.
\<close>

definition serialize_many ::
  "'c write_ops \<Rightarrow> tsc \<Rightarrow> memory \<Rightarrow> (nat \<Rightarrow> 'c \<Rightarrow> 'c result) \<Rightarrow> value_type \<Rightarrow> nat \<Rightarrow> nat \<Rightarrow> 'c \<Rightarrow> 'c result"
where
  "serialize_many ops tsc m ser vt src count c =
     (if count = 0 then Inr c
      else rbind (ser src c) (\<lambda>c.
      rbind (sizeof_type vt) (\<lambda>value_size.
      let src = src + value_size; count = count - 1 in
      if count = 0 then Inr c
      else rbind (lookup_many_trivially_serialized tsc (w_offset ops c) vt) (\<lambda>trivial.
        if trivial then w_put_bytes ops (mem_read m src (count * value_size)) c
        else for_upto count (\<lambda>i c. ser (src + i * value_size) c) c))))"

lemma serialize_many_cong [fundef_cong]:
  assumes "ops = ops'" "tsc = tsc'" "m = m'" "vt = vt'" "src = src'" "count = count'" "c = c'"
    and "\<And>a x. ser a x = ser' a x"
  shows "serialize_many ops tsc m ser vt src count c = serialize_many ops' tsc' m' ser' vt' src' count' c'"
proof -
  have "ser = ser'" using assms(8) by blast
  then show ?thesis using assms by simp
qed

text \<open>
  \<open>serialize\<close> on an \<open>AnyValueType\<close> pointer: copy the bytes if the value is trivially serialized,
  else dispatch on the type, whose result is \<open>body\<close>.
\<close>

definition serialize_AnyValueType ::
  "'c write_ops \<Rightarrow> tsc \<Rightarrow> memory \<Rightarrow> sample_or_key \<Rightarrow> value_type \<Rightarrow> nat \<Rightarrow> 'c \<Rightarrow> 'c result \<Rightarrow> 'c result" where
  "serialize_AnyValueType ops tsc m what vt src c body =
     (if what = Sample then
        rbind (lookup_trivially_serialized tsc (w_offset ops c) vt) (\<lambda>trivial.
        if trivial then rbind (sizeof_type vt) (\<lambda>sz. w_put_bytes ops (mem_read m src sz) c)
        else body)
      else body)"

fun serialize ::
  "'c write_ops \<Rightarrow> endian \<Rightarrow> tsc \<Rightarrow> memory \<Rightarrow> sample_or_key \<Rightarrow> value_type \<Rightarrow> nat \<Rightarrow> 'c \<Rightarrow> 'c result"
  and serialize_members ::
  "'c write_ops \<Rightarrow> endian \<Rightarrow> tsc \<Rightarrow> memory \<Rightarrow> sample_or_key \<Rightarrow> bool \<Rightarrow> member list \<Rightarrow> nat \<Rightarrow> 'c \<Rightarrow> 'c result"
where
  "serialize ops E tsc m what (PrimitiveValueType k) src c = serialize_primitive ops E m k src c"
| "serialize ops E tsc m what (U8StringValueType bound sz) src c = serialize_u8string ops E m src c"
| "serialize ops E tsc m what (U16StringValueType bound sz) src c = serialize_u16string ops E m src c"
| "serialize ops E tsc m what (ArrayValueType e n sc) src c =
     serialize_many ops tsc m
       (\<lambda>a c. serialize_AnyValueType ops tsc m what e a c (serialize ops E tsc m what e a c)) e src n c"
| "serialize ops E tsc m what (SpanSequenceValueType k e bound) src c =
     (let count = sequence_size m src in
      rbind (serialize_u32 ops E count c) (\<lambda>c.
      serialize_many ops tsc m
        (\<lambda>a c. serialize_AnyValueType ops tsc m what e a c (serialize ops E tsc m what e a c)) e
        (sequence_contents m k src) count c))"
| "serialize ops E tsc m what (BoolVectorValueType bound sz) src c = serialize_boolvector ops E m src c"
| "serialize ops E tsc m what (StructValueType si ms) src c =
     serialize_members ops E tsc m what (what \<noteq> Key \<or> \<not> m_has_keys si) ms src c"
| "serialize_members ops E tsc m what all_fields [] src c = Inr c"
| "serialize_members ops E tsc m what all_fields (Member nm vt moff key # ms) src c =
     rbind (if all_fields \<or> key
            then serialize_AnyValueType ops tsc m what vt (src + moff) c
                   (serialize ops E tsc m what vt (src + moff) c)
            else Inr c)
       (serialize_members ops E tsc m what all_fields ms src)"

datatype sample_or_request = SRSample | SRRequest

fun has_keys :: "value_type \<Rightarrow> bool" where
  "has_keys (StructValueType si ms) = m_has_keys si"
| "has_keys _ = False"

text \<open>
  A request is passed as a \<open>cdds_request_wrapper_t\<close>: the client's GUID, the sequence number and the
  pointer to the request proper.
\<close>

definition request_data :: "endian \<Rightarrow> memory \<Rightarrow> nat \<Rightarrow> nat" where
  "request_data E m src = unat (bytes_word E (mem_read m (src + 16) 8) :: u64)"

definition serialize_top_level ::
  "'c write_ops \<Rightarrow> endian \<Rightarrow> tsc \<Rightarrow> memory \<Rightarrow> value_type \<Rightarrow> sample_or_request \<Rightarrow> sample_or_key \<Rightarrow>
   nat \<Rightarrow> 'c \<Rightarrow> 'c result" where
  "serialize_top_level ops E tsc m root variant what src c =
     rbind (put_rtps_header ops E c) (\<lambda>c.
     let c = w_rebase ops 4 c in
     rbind (if what = Sample \<and> variant = SRRequest
            then rbind (w_put_bytes ops (mem_read m src 8) c) (\<lambda>c.
                 rbind (w_put_bytes ops (mem_read m (src + 8) 8) c) (\<lambda>c.
                 Inr (c, request_data E m src)))
            else Inr (c, src)) (\<lambda>(c, src).
     rbind (if what = Sample \<or> has_keys root
            then serialize_AnyValueType ops tsc m what root src c (serialize ops E tsc m what root src c)
            else Inr c) (\<lambda>c.
     Inr (w_rebase ops (-4) c))))"

section \<open>The encoding of a top-level value\<close>

definition rtps_header :: "endian \<Rightarrow> u8 list" where
  "rtps_header E = [0, (if E = little then 1 else 0), 0, 0]"

definition cdr_body :: "endian \<Rightarrow> memory \<Rightarrow> value_type \<Rightarrow> sample_or_request \<Rightarrow> sample_or_key \<Rightarrow> nat \<Rightarrow> u8 list" where
  "cdr_body E m root variant what src =
     (if what = Sample \<and> variant = SRRequest
      then mem_read m src 16 @ cdr E Sample root (read_obj E m (request_data E m src) root) 16
      else if what = Sample \<or> has_keys root then cdr E what root (read_obj E m src root) 0
      else [])"

section \<open>The serializer emits the encoding\<close>

lemma length_concat_const: "(\<And>x. x \<in> set xs \<Longrightarrow> length (f x) = n) \<Longrightarrow> length (concat (map f xs)) = n * length xs"
  by (induction xs) auto

lemma length_u16s_bytes [simp]: "length (u16s_bytes T ws) = 2 * length ws"
  by (simp add: u16s_bytes_def length_concat_const)

context write_cursor
begin

lemma emit_step:
  assumes "inv c" and "\<And>c'. inv c' \<Longrightarrow> w_offset ops c' mod 8 = (w_offset ops c + length xs) mod 8 \<Longrightarrow> t c' = emit ys c'"
  shows "rbind (emit xs c) t = emit (xs @ ys) c"
  using emit_then [of c "emit xs" xs t ys] assms by simp

lemma serialize_u32_emit:
  assumes "inv c"
  shows "serialize_u32 ops E n c = emit (cdr_u32 E n (w_offset ops c)) c"
  unfolding serialize_u32_def cdr_u32_def align [OF assms zero_less_numeral]
  by (rule emit_step [OF assms]) (simp add: put_bytes)

lemma cdr_shift:
  assumes "w_offset ops c' mod 8 = (w_offset ops c + n) mod 8"
  shows "cdr E w vt obj (w_offset ops c') = cdr E w vt obj (w_offset ops c + n)"
    and "cdr_members E w all_fields ms objs (w_offset ops c') = cdr_members E w all_fields ms objs (w_offset ops c + n)"
    and "cdr_list (cdr E w vt) xs (w_offset ops c') = cdr_list (cdr E w vt) xs (w_offset ops c + n)"
  by (rule cdr_off [OF assms])+ (rule cdr_list_off [OF cdr_off(1) assms])

lemma serialize_primitive_emit:
  assumes "inv c" "is_primitive_kind k"
  shows "serialize_primitive ops E m k src c
    = emit (cdr E what (PrimitiveValueType k) (read_obj E m src (PrimitiveValueType k)) (w_offset ops c)) c"
proof -
  have pos: "0 < prim_cdralignof k" using prim_cdrsizeof_pos [OF assms(2)] by (simp add: prim_cdralignof_def)
  show ?thesis
    unfolding serialize_primitive_def align [OF assms(1) pos] cdr.simps read_obj.simps in_order_in_order
    by (rule emit_step [OF assms(1)])
      (use assms(2) prim_sizes(1) [OF assms(2)] in \<open>auto simp: put_bytes is_primitive_kind_def Let_def\<close>)
qed

lemma serialize_u8string_emit:
  assumes "inv c"
  shows "serialize_u8string ops E m src c
    = emit (cdr_u32 E (length (mem_u8str m src) + 1) (w_offset ops c) @ mem_u8str m src @ [0]) c"
  unfolding serialize_u8string_def Let_def serialize_u32_emit [OF assms]
proof (rule emit_step [OF assms])
  fix c' assume inv: "inv c'"
  show "rbind (w_put_bytes ops (mem_u8str m src) c') (w_put_bytes ops [0]) = emit (mem_u8str m src @ [0]) c'"
    unfolding put_bytes [OF inv] by (rule emit_step [OF inv]) (rule put_bytes)
qed

lemma serialize_u16string_emit:
  assumes "inv c"
  shows "serialize_u16string ops E m src c
    = emit (cdr_u32 E (2 * length (mem_u16str m src)) (w_offset ops c) @ u16s_bytes E (mem_u16str m src)) c"
  unfolding serialize_u16string_def Let_def serialize_u32_emit [OF assms]
proof (rule emit_step [OF assms])
  fix c' assume "inv c'"
  then show "(if w_ignores_data ops then w_advance ops (2 * length (mem_u16str m src)) c'
      else w_put_bytes ops (u16s_bytes E (mem_u16str m src)) c') = emit (u16s_bytes E (mem_u16str m src)) c'"
    using emit_ignores [of c' "zeros (2 * length (mem_u16str m src))" "u16s_bytes E (mem_u16str m src)"]
    by (simp add: advance put_bytes)
qed

lemma put_bools_emit: "inv c \<Longrightarrow> put_bools ops bs c = emit (map bool_byte bs) c"
proof (induction bs arbitrary: c)
  case Nil
  then show ?case by (simp add: emit_Nil)
next
  case (Cons b bs)
  have "rbind (emit [bool_byte b] c) (put_bools ops bs) = emit ([bool_byte b] @ map bool_byte bs) c"
    by (rule emit_step [OF Cons.prems]) (rule Cons.IH)
  then show ?case using Cons.prems by (simp add: put_bytes)
qed

lemma serialize_boolvector_emit:
  assumes "inv c"
  shows "serialize_boolvector ops E m src c
    = emit (cdr_u32 E (length (mem_bools m src)) (w_offset ops c) @ map bool_byte (mem_bools m src)) c"
  unfolding serialize_boolvector_def Let_def serialize_u32_emit [OF assms]
proof (rule emit_step [OF assms])
  fix c' assume "inv c'"
  then show "(if w_ignores_data ops then w_advance ops (length (mem_bools m src)) c'
      else put_bools ops (mem_bools m src) c') = emit (map bool_byte (mem_bools m src)) c'"
    using emit_ignores [of c' "zeros (length (mem_bools m src))" "map bool_byte (mem_bools m src)"]
    by (simp add: advance put_bools_emit)
qed

lemma for_emit_list:
  assumes "\<And>a c. inv c \<Longrightarrow> ser a c = emit (cdr E w e (g a) (w_offset ops c)) c"
  shows "inv c \<Longrightarrow> for_from j n (\<lambda>i c. ser (src + i * s) c) c
    = emit (cdr_list (cdr E w e) (map (\<lambda>i. g (src + j * s + i * s)) [0..<n]) (w_offset ops c)) c"
proof (induction n arbitrary: j c)
  case 0
  then show ?case by (simp add: emit_Nil)
next
  case (Suc n)
  let ?xs = "cdr E w e (g (src + j * s)) (w_offset ops c)"
  let ?rest = "map (\<lambda>i. g (src + Suc j * s + i * s)) [0..<n]"
  have "rbind (emit ?xs c) (for_from (Suc j) n (\<lambda>i c. ser (src + i * s) c))
      = emit (?xs @ cdr_list (cdr E w e) ?rest (w_offset ops c + length ?xs)) c"
    by (rule emit_step [OF Suc.prems]) (simp only: Suc.IH cdr_shift(3))
  moreover have "map (\<lambda>i. g (src + j * s + i * s)) [0..<Suc n] = g (src + j * s) # ?rest"
    by (simp add: upt_rec [of 0] map_Suc_upt [symmetric] comp_def ac_simps del: upt_Suc)
  ultimately show ?case using Suc.prems by (simp add: assms Let_def)
qed

lemma serialize_many_emit:
  assumes "inv c"
    and ser: "\<And>a c. inv c \<Longrightarrow> ser a c = emit (cdr E w e (read_obj E m a e) (w_offset ops c)) c"
    and "tsc_complete tsc e" "sizeof_type e = Inr s" "w = Sample \<or> keyless e"
  shows "serialize_many ops tsc m ser e src n c
    = emit (cdr_list (cdr E w e) (map (\<lambda>i. read_obj E m (src + i * szof e) e) [0..<n]) (w_offset ops c)) c"
proof (cases n)
  case 0
  then show ?thesis using assms(1) by (simp add: serialize_many_def emit_Nil)
next
  case (Suc k)
  let ?xs = "cdr E w e (read_obj E m src e) (w_offset ops c)"
  let ?rest = "map (\<lambda>i. read_obj E m (src + s + i * s) e) [0..<k]"
  have s: "szof e = s" using assms(4) by simp
  have list: "map (\<lambda>i. read_obj E m (src + i * s) e) [0..<Suc k] = read_obj E m src e # ?rest"
    by (simp add: upt_rec [of 0] map_Suc_upt [symmetric] comp_def ac_simps del: upt_Suc)
  let ?tail = "\<lambda>c. if k = 0 then Inr c
      else rbind (lookup_many_trivially_serialized tsc (w_offset ops c) e) (\<lambda>trivial.
        if trivial then w_put_bytes ops (mem_read m (src + s) (k * s)) c
        else for_upto k (\<lambda>i c. ser (src + s + i * s) c) c)"
  have "rbind (emit ?xs c) ?tail
      = emit (?xs @ cdr_list (cdr E w e) ?rest (w_offset ops c + length ?xs)) c"
  proof (rule emit_step [OF assms(1)])
    fix c' assume inv: "inv c'" and off: "w_offset ops c' mod 8 = (w_offset ops c + length ?xs) mod 8"
    have triv: "cdr_list (cdr E w e) ?rest (w_offset ops c') = mem_read m (src + s) (k * s)"
      if "many_triv (w_offset ops c') e"
      using many_triv_is_bytes [OF that assms(5), of E m "src + s" k] s by simp
    show "?tail c' = emit (cdr_list (cdr E w e) ?rest (w_offset ops c + length ?xs)) c'"
      unfolding cdr_shift(3) [OF off, symmetric]
      using for_emit_list [where ser = ser and g = "\<lambda>a. read_obj E m a e" and j = 0 and n = k
          and src = "src + s" and s = s, OF ser inv] triv inv
        lookup_many_complete [OF assms(3) self_subtype, of "w_offset ops c'"]
      by (cases "k = 0"; cases "many_triv (w_offset ops c') e") (simp_all add: emit_Nil put_bytes)
  qed
  then show ?thesis
    using Suc assms(1,4) ser [OF assms(1)]
    by (simp add: serialize_many_def s list Let_def del: upt_Suc)
qed

lemma serialize_any_emit:
  assumes "inv c" "tsc_complete tsc vt"
    and "body = emit (cdr E w vt (read_obj E m a vt) (w_offset ops c)) c"
  shows "serialize_AnyValueType ops tsc m w vt a c body
      = emit (cdr E w vt (read_obj E m a vt) (w_offset ops c)) c"
proof -
  have "rbind (sizeof_type vt) (\<lambda>sz. w_put_bytes ops (mem_read m a sz) c)
      = emit (cdr E Sample vt (read_obj E m a vt) (w_offset ops c)) c" if t: "triv (w_offset ops c) vt"
  proof -
    obtain s where "sizeof_type vt = Inr s" using triv_sizeof [OF t] by blast
    then show ?thesis using triv_is_bytes [OF t, of E m a] assms(1) by (simp add: put_bytes)
  qed
  then show ?thesis
    using assms(3) lookup_complete [OF assms(2) self_subtype]
    by (auto simp: serialize_AnyValueType_def)
qed

lemma serialize_members_emit:
  assumes "\<And>mem a c. mem \<in> set ms \<Longrightarrow> all_fields \<or> is_key mem \<Longrightarrow> inv c \<Longrightarrow>
      serialize ops E tsc m w (member_type mem) a c
      = emit (cdr E w (member_type mem) (read_obj E m a (member_type mem)) (w_offset ops c)) c"
    and "\<And>mem. mem \<in> set ms \<Longrightarrow> tsc_complete tsc (member_type mem)"
  shows "inv c \<Longrightarrow> serialize_members ops E tsc m w all_fields ms a c
    = emit (cdr_members E w all_fields ms
        (map (\<lambda>mem. read_obj E m (a + member_offset mem) (member_type mem)) ms) (w_offset ops c)) c"
  using assms
proof (induction ms arbitrary: c)
  case Nil
  then show ?case by (simp add: emit_Nil)
next
  case (Cons mem ms)
  obtain nm vt moff key where mem: "mem = Member nm vt moff key" by (cases mem)
  let ?bs = "if all_fields \<or> key then cdr E w vt (read_obj E m (a + moff) vt) (w_offset ops c) else []"
  have first: "(if all_fields \<or> key then serialize_AnyValueType ops tsc m w vt (a + moff) c
        (serialize ops E tsc m w vt (a + moff) c) else Inr c) = emit ?bs c"
    using serialize_any_emit [of c tsc vt _ E w m "a + moff"] Cons.prems(2,3) [of mem] Cons.prems(1) mem
    by (simp add: emit_Nil)
  let ?rest = "map (\<lambda>mem. read_obj E m (a + member_offset mem) (member_type mem)) ms"
  have "rbind (emit ?bs c) (serialize_members ops E tsc m w all_fields ms a)
      = emit (?bs @ cdr_members E w all_fields ms ?rest (w_offset ops c + length ?bs)) c"
  proof (rule emit_step [OF Cons.prems(1)])
    fix c' assume c': "inv c'" "w_offset ops c' mod 8 = (w_offset ops c + length ?bs) mod 8"
    have "serialize_members ops E tsc m w all_fields ms a c'
        = emit (cdr_members E w all_fields ms ?rest (w_offset ops c')) c'"
      by (rule Cons.IH [OF c'(1)]) (simp_all add: Cons.prems(2,3))
    then show "serialize_members ops E tsc m w all_fields ms a c'
        = emit (cdr_members E w all_fields ms ?rest (w_offset ops c + length ?bs)) c'"
      by (simp only: cdr_shift(2) [OF c'(2)])
  qed
  then show ?case unfolding mem by (simp add: first Let_def)
qed

lemma serialize_emit:
  "inv c \<Longrightarrow> tsc_complete tsc vt \<Longrightarrow> wf_type vt \<Longrightarrow> plain_mode w vt \<Longrightarrow>
     serialize ops E tsc m w vt a c = emit (cdr E w vt (read_obj E m a vt) (w_offset ops c)) c"
proof (induction vt arbitrary: a c rule: subtypes.induct)
  case (1 si ms)
  have "serialize_members ops E tsc m w (w \<noteq> Key \<or> \<not> m_has_keys si) ms a c
    = emit (cdr_members E w (w \<noteq> Key \<or> \<not> m_has_keys si) ms
        (map (\<lambda>mem. read_obj E m (a + member_offset mem) (member_type mem)) ms) (w_offset ops c)) c"
  proof (rule serialize_members_emit [OF _ _ "1.prems"(1)])
    fix mem assume "mem \<in> set ms"
    then show "tsc_complete tsc (member_type mem)"
      by (intro tsc_complete_sub [OF "1.prems"(2)]) auto
  next
    fix mem a c assume mem: "mem \<in> set ms" "(w \<noteq> Key \<or> \<not> m_has_keys si) \<or> is_key mem" and inv: "inv c"
    have "tsc_complete tsc (member_type mem)"
      using mem(1) by (intro tsc_complete_sub [OF "1.prems"(2)]) auto
    moreover have "plain_mode w (member_type mem)"
      using mem "1.prems"(4) by (cases w) (auto simp: plain_mode_def)
    ultimately show "serialize ops E tsc m w (member_type mem) a c
      = emit (cdr E w (member_type mem) (read_obj E m a (member_type mem)) (w_offset ops c)) c"
      using "1.IH" [OF mem(1) inv] "1.prems"(3) mem(1) by simp
  qed
  then show ?case by simp
next
  case (2 e n sc)
  have e: "tsc_complete tsc e" by (rule tsc_complete_sub [OF "2.prems"(2)]) auto
  have pm: "w = Sample \<or> keyless e" "plain_mode w e"
    using "2.prems"(4) keyless_key_safe by (auto simp: plain_mode_def)
  obtain s where s: "sizeof_type e = Inr s" and wf: "wf_type e" using "2.prems"(3) by auto
  have "serialize_AnyValueType ops tsc m w e a c (serialize ops E tsc m w e a c)
      = emit (cdr E w e (read_obj E m a e) (w_offset ops c)) c" if "inv c" for a c
    by (rule serialize_any_emit [OF that e]) (rule "2.IH" [OF that e wf pm(2)])
  from serialize_many_emit [OF "2.prems"(1) this e s pm(1)] show ?case by simp
next
  case (3 k e bound)
  have e: "tsc_complete tsc e" by (rule tsc_complete_sub [OF "3.prems"(2)]) auto
  have pm: "w = Sample \<or> keyless e" "plain_mode w e"
    using "3.prems"(4) keyless_key_safe by (auto simp: plain_mode_def)
  obtain s where s: "sizeof_type e = Inr s" and wf: "wf_type e" using "3.prems"(3) by auto
  have any: "serialize_AnyValueType ops tsc m w e a c (serialize ops E tsc m w e a c)
      = emit (cdr E w e (read_obj E m a e) (w_offset ops c)) c" if "inv c" for a c
    by (rule serialize_any_emit [OF that e]) (rule "3.IH" [OF that e wf pm(2)])
  show ?case
    unfolding serialize.simps Let_def serialize_u32_emit [OF "3.prems"(1)] read_obj.simps cdr.simps
      length_map length_upt minus_nat.diff_0
  proof (rule emit_step [OF "3.prems"(1)])
    fix c' assume c': "inv c'"
      "w_offset ops c' mod 8 = (w_offset ops c + length (cdr_u32 E (sequence_size m a) (w_offset ops c))) mod 8"
    show "serialize_many ops tsc m
        (\<lambda>a c. serialize_AnyValueType ops tsc m w e a c (serialize ops E tsc m w e a c)) e
        (sequence_contents m k a) (sequence_size m a) c'
      = emit (cdr_list (cdr E w e)
          (map (\<lambda>i. read_obj E m (sequence_contents m k a + i * szof e) e) [0..<sequence_size m a])
          (w_offset ops c + length (cdr_u32 E (sequence_size m a) (w_offset ops c)))) c'"
      using serialize_many_emit [OF c'(1) any e s pm(1)] by (simp add: cdr_shift(3) [OF c'(2)])
  qed
next
  case (4 k)
  then show ?case using serialize_primitive_emit by simp
next
  case (5 bound sz)
  then show ?case using serialize_u8string_emit by simp
next
  case (6 bound sz)
  then show ?case using serialize_u16string_emit by simp
next
  case (7 bound sz)
  then show ?case using serialize_boolvector_emit by simp
qed

lemma serialize_root_emit:
  assumes "inv c" "tsc_complete tsc vt" "wf_type vt" "plain_mode w vt"
  shows "serialize_AnyValueType ops tsc m w vt a c (serialize ops E tsc m w vt a c)
    = emit (cdr E w vt (read_obj E m a vt) (w_offset ops c)) c"
  by (rule serialize_any_emit [OF assms(1,2)]) (rule serialize_emit [OF assms])

text \<open>The whole of \<open>serialize_top_level\<close>, from a cursor at offset 0.\<close>

lemma serialize_top_level_emit:
  assumes "inv c" "w_offset ops c = 0" "tsc_complete tsc root" "wf_type root"
    and "plain_mode w root"
  shows "serialize_top_level ops E tsc m root variant w src c =
    rbind (emit (rtps_header E) c) (\<lambda>c.
    rbind (emit (cdr_body E m root variant w src) (w_rebase ops 4 c)) (\<lambda>c.
    Inr (w_rebase ops (-4) c)))"
  unfolding serialize_top_level_def put_rtps_header_def rtps_header_def [symmetric]
    put_bytes [OF assms(1)] Let_def
proof (rule rbind_cong_Inr)
  fix c1 assume c1: "emit (rtps_header E) c = Inr c1"
  have "w_offset ops c1 = 4"
    using emit_offset_small [OF assms(1) c1] assms(2) by (simp add: rtps_header_def)
  then have inv: "inv (w_rebase ops 4 c1)" and off: "w_offset ops (w_rebase ops 4 c1) = 0"
    using rebase_header emit_inv [OF assms(1) c1] by auto
  let ?c = "w_rebase ops 4 c1"
  let ?any = "\<lambda>src c. serialize_AnyValueType ops tsc m w root src c (serialize ops E tsc m w root src c)"
  have any: "?any a c = emit (cdr E w root (read_obj E m a root) (w_offset ops c)) c" if "inv c" for a c
    by (rule serialize_root_emit [OF that assms(3-5)])
  have "rbind (if w = Sample \<and> variant = SRRequest
      then rbind (w_put_bytes ops (mem_read m src 8) ?c) (\<lambda>c.
           rbind (w_put_bytes ops (mem_read m (src + 8) 8) c) (\<lambda>c. Inr (c, request_data E m src)))
      else Inr (?c, src)) (\<lambda>(c, src). if w = Sample \<or> has_keys root then ?any src c else Inr c)
    = emit (cdr_body E m root variant w src) ?c"
  proof (cases "w = Sample \<and> variant = SRRequest")
    case True
    let ?tail = "cdr E Sample root (read_obj E m (request_data E m src) root) 16"
    have body: "?any (request_data E m src) c' = emit ?tail c'"
      if "inv c'" "w_offset ops c' mod 8 = 0" for c'
      using any [OF that(1)] cdr_off(1) [of "w_offset ops c'" 16] that(2) True by simp
    have inner: "rbind (emit (mem_read m (src + 8) 8) c') (?any (request_data E m src))
        = emit (mem_read m (src + 8) 8 @ ?tail) c'"
      if "inv c'" "w_offset ops c' mod 8 = (w_offset ops ?c + length (mem_read m src 8)) mod 8" for c'
    proof (rule emit_step [OF that(1)], rule body, assumption)
      fix d assume "w_offset ops d mod 8 = (w_offset ops c' + length (mem_read m (src + 8) 8)) mod 8"
      then show "w_offset ops d mod 8 = 0" using that(2) off by simp
    qed
    have "rbind (emit (mem_read m src 8) ?c) (\<lambda>c'. rbind (emit (mem_read m (src + 8) 8) c')
        (?any (request_data E m src))) = emit (mem_read m src 8 @ mem_read m (src + 8) 8 @ ?tail) ?c"
      by (rule emit_step [OF inv]) (rule inner)
    moreover have "mem_read m src 16 = mem_read m src 8 @ mem_read m (src + 8) 8"
      using mem_read_add [of m src 8 8] by simp
    moreover have "rbind (w_put_bytes ops (mem_read m src 8) ?c) (\<lambda>c'. rbind (w_put_bytes ops (mem_read m (src + 8) 8) c') f)
       = rbind (emit (mem_read m src 8) ?c) (\<lambda>c'. rbind (emit (mem_read m (src + 8) 8) c') f)"
      for f :: "'c \<Rightarrow> 'c result"
      unfolding put_bytes [OF inv]
      by (rule rbind_cong_Inr) (simp add: put_bytes emit_inv [OF inv])
    ultimately show ?thesis using True by (simp add: cdr_body_def rbind_assoc)
  next
    case False
    then show ?thesis using any [OF inv] off inv by (auto simp: cdr_body_def emit_Nil)
  qed
  then show "rbind (if w = Sample \<and> variant = SRRequest
      then rbind (w_put_bytes ops (mem_read m src 8) ?c) (\<lambda>c.
           rbind (w_put_bytes ops (mem_read m (src + 8) 8) c) (\<lambda>c. Inr (c, request_data E m src)))
      else Inr (?c, src)) (\<lambda>(c, src). rbind (if w = Sample \<or> has_keys root then ?any src c else Inr c)
        (\<lambda>c. Inr (w_rebase ops (-4) c)))
    = rbind (emit (cdr_body E m root variant w src) ?c) (\<lambda>c. Inr (w_rebase ops (-4) c))"
    by (simp add: rbind_assoc [symmetric] split_def)
qed

end

end
