(* ===== verification/CdrSize.thy ===== *)
theory CdrSize
  imports CdrWriter
begin

text \<open>
  The size bounds of \<open>CDRWriter\<close> (\<open>serialize_size_bound\<close>, \<open>compute_serialized_size_bound\<close>), its
  constructor and its public operations.  The bound functions of the code are shown to compute a
  function of the start offset, \<open>bend\<close>, which is monotone and periodic; from this the maximum it
  reports is an upper bound of every encoding, and a buffer of \<open>get_serialized_size\<close> bytes is never
  overrun.
\<close>

section \<open>\<open>serialize_size_bound\<close>\<close>

datatype min_or_max = Min | Max

definition size_bound_many ::
  "'c write_ops \<Rightarrow> ('c \<Rightarrow> (bool \<times> 'c) result) \<Rightarrow> nat \<Rightarrow> 'c \<Rightarrow> (bool \<times> 'c) result" where
  "size_bound_many ops bound_elt count c =
     (if count = 0 then Inr (True, c)
      else if UINT32_MAX \<le> count then Inr (False, c)
      else rbind (bound_elt c) (\<lambda>(ok, c).
        if \<not> ok then Inr (False, c)
        else if 1 < count then
          (let offset = w_offset ops c in
           rbind (bound_elt c) (\<lambda>(ok, c).
             if \<not> ok then Inr (False, c)
             else let elt_size = sz_sub (w_offset ops c) offset in
               if elt_size = 0 then Inl (UB ''division by zero'')
               else let max_count = SIZE_MAX div elt_size in
                 if max_count < count then Inr (False, c)
                 else rbind (w_put_null ops (count * elt_size) c) (\<lambda>c. Inr (True, c))))
        else Inr (True, c)))"

lemma size_bound_many_cong [fundef_cong]:
  assumes "ops = ops'" "count = count'" "c = c'" "\<And>x. f x = g x"
  shows "size_bound_many ops f count c = size_bound_many ops' g count' c'"
proof -
  have "f = g" using assms(4) by blast
  then show ?thesis using assms by simp
qed

fun serialize_size_bound ::
  "'c write_ops \<Rightarrow> endian \<Rightarrow> sample_or_key \<Rightarrow> min_or_max \<Rightarrow> value_type \<Rightarrow> 'c \<Rightarrow> (bool \<times> 'c) result"
  and size_bound_members ::
  "'c write_ops \<Rightarrow> endian \<Rightarrow> sample_or_key \<Rightarrow> min_or_max \<Rightarrow> bool \<Rightarrow> member list \<Rightarrow> 'c \<Rightarrow> (bool \<times> 'c) result"
where
  "serialize_size_bound ops E what mm (PrimitiveValueType k) c =
     rbind (w_align ops (prim_cdralignof k) c) (\<lambda>c.
     rbind (w_put_null ops (prim_cdrsizeof k) c) (\<lambda>c. Inr (True, c)))"
| "serialize_size_bound ops E what mm (U8StringValueType string_bound sz) c =
     (let bound = (if mm = Min then 0 else string_bound) in
      rbind (serialize_u32 ops E bound c) (\<lambda>c.
      rbind (w_put_null ops bound c) (\<lambda>c.
      rbind (w_put_null ops 1 c) (\<lambda>c. Inr (True, c)))))"
| "serialize_size_bound ops E what mm (U16StringValueType string_bound sz) c =
     (let bound = (if mm = Min then 0 else string_bound) in
      rbind (serialize_u32 ops E bound c) (\<lambda>c.
      rbind (w_put_null ops ((2 * bound) mod 2 ^ 32) c) (\<lambda>c. Inr (True, c))))"
| "serialize_size_bound ops E what mm (ArrayValueType e n sc) c =
     size_bound_many ops (serialize_size_bound ops E what mm e) n c"
| "serialize_size_bound ops E what mm (SpanSequenceValueType k e sequence_bound) c =
     (let count = (if mm = Min then 0 else sequence_bound) in
      rbind (serialize_u32 ops E count c)
        (size_bound_many ops (serialize_size_bound ops E what mm e) count))"
| "serialize_size_bound ops E what mm (BoolVectorValueType sequence_bound sz) c =
     (let count = (if mm = Min then 0 else sequence_bound) in
      rbind (serialize_u32 ops E count c) (\<lambda>c.
      rbind (w_put_null ops count c) (\<lambda>c. Inr (True, c))))"
| "serialize_size_bound ops E what mm (StructValueType si ms) c =
     size_bound_members ops E what mm (what \<noteq> Key \<or> \<not> m_has_keys si) ms c"
| "size_bound_members ops E what mm all_fields [] c = Inr (True, c)"
| "size_bound_members ops E what mm all_fields (Member nm vt moff key # ms) c =
     (if all_fields \<or> key
      then rbind (serialize_size_bound ops E what mm vt c) (\<lambda>(ok, c).
             if \<not> ok then Inr (False, c) else size_bound_members ops E what mm all_fields ms c)
      else size_bound_members ops E what mm all_fields ms c)"

definition serialize_size_bound_top_level ::
  "'c write_ops \<Rightarrow> endian \<Rightarrow> value_type \<Rightarrow> sample_or_request \<Rightarrow> sample_or_key \<Rightarrow> min_or_max \<Rightarrow> 'c \<Rightarrow>
   (bool \<times> 'c) result" where
  "serialize_size_bound_top_level ops E root variant what mm c =
     rbind (put_rtps_header ops E c) (\<lambda>c.
     let c = w_rebase ops 4 c in
     rbind (if what = Sample \<and> variant = SRRequest
            then rbind (w_put_null ops 8 c) (w_put_null ops 8)
            else Inr c) (\<lambda>c.
     rbind (if what = Sample \<or> has_keys root
            then serialize_size_bound ops E what mm root c
            else Inr (True, c)) (\<lambda>(fixed, c).
     Inr (fixed, w_rebase ops (-4) c))))"

definition compute_serialized_size_bound ::
  "endian \<Rightarrow> value_type \<Rightarrow> sample_or_request \<Rightarrow> sample_or_key \<Rightarrow> min_or_max \<Rightarrow> nat result" where
  "compute_serialized_size_bound E root variant what mm =
     (case serialize_size_bound_top_level checking_ops E root variant what mm (CheckingSizeCursor 0) of
        Inl (OverflowError _) \<Rightarrow> Inr SIZE_MAX
      | Inl e \<Rightarrow> Inl e
      | Inr (ok, c) \<Rightarrow> Inr (if \<not> ok then SIZE_MAX else chk_offset c))"

section \<open>The writer object\<close>

record cdr_writer =
  wr_root_value_type :: value_type
  wr_tsc :: tsc
  wr_variant :: sample_or_request
  min_serialized_data_size :: nat
  min_serialized_key_size :: nat
  max_serialized_data_size :: nat
  max_serialized_key_size :: nat

definition make_cdr_writer :: "endian \<Rightarrow> value_type \<Rightarrow> sample_or_request \<Rightarrow> cdr_writer result" where
  "make_cdr_writer E root variant =
     rbind (TriviallySerializedCache root) (\<lambda>tsc.
     rbind (compute_serialized_size_bound E root variant Sample Min) (\<lambda>min_data.
     rbind (compute_serialized_size_bound E root variant Key Min) (\<lambda>min_key.
     rbind (compute_serialized_size_bound E root variant Sample Max) (\<lambda>max_data.
     rbind (compute_serialized_size_bound E root variant Key Max) (\<lambda>max_key.
     Inr \<lparr>wr_root_value_type = root, wr_tsc = tsc, wr_variant = variant,
          min_serialized_data_size = min_data, min_serialized_key_size = min_key,
          max_serialized_data_size = max_data, max_serialized_key_size = max_key\<rparr>)))))"

definition get_min_serialized_size :: "cdr_writer \<Rightarrow> sample_or_key \<Rightarrow> nat" where
  "get_min_serialized_size w what =
     (if what = Sample then min_serialized_data_size w else min_serialized_key_size w)"

definition get_max_serialized_size :: "cdr_writer \<Rightarrow> sample_or_key \<Rightarrow> nat" where
  "get_max_serialized_size w what =
     (if what = Sample then max_serialized_data_size w else max_serialized_key_size w)"

definition measure_serialized_size :: "endian \<Rightarrow> cdr_writer \<Rightarrow> memory \<Rightarrow> nat \<Rightarrow> sample_or_key \<Rightarrow> nat result" where
  "measure_serialized_size E w m src what =
     rbind (serialize_top_level size_ops E (wr_tsc w) m (wr_root_value_type w) (wr_variant w) what src
        (SizeCursor 0)) (\<lambda>c. Inr (m_offset c))"

definition get_serialized_size :: "endian \<Rightarrow> cdr_writer \<Rightarrow> memory \<Rightarrow> nat \<Rightarrow> sample_or_key \<Rightarrow> nat result" where
  "get_serialized_size E w m src what =
     (let min = get_min_serialized_size w what; max = get_max_serialized_size w what in
      if min = max then Inr max else measure_serialized_size E w m src what)"

definition get_serialized_size_estimate ::
  "endian \<Rightarrow> cdr_writer \<Rightarrow> memory \<Rightarrow> nat \<Rightarrow> sample_or_key \<Rightarrow> nat result" where
  "get_serialized_size_estimate E w m src what =
     (let min = get_min_serialized_size w what; max = get_max_serialized_size w what in
      if max \<le> 1024 \<or> (0 < min \<and> max div min = 1) then Inr max
      else measure_serialized_size E w m src what)"

text \<open>\<open>CDRWriter::serialize\<close> into a block of memory; the result is the block afterwards.\<close>

definition writer_serialize ::
  "endian \<Rightarrow> cdr_writer \<Rightarrow> memory \<Rightarrow> u8 list \<Rightarrow> nat \<Rightarrow> sample_or_key \<Rightarrow> u8 list result" where
  "writer_serialize E w m dst src what =
     rbind (serialize_top_level serialize_ops E (wr_tsc w) m (wr_root_value_type w) (wr_variant w) what src
        (SerializeCursor dst)) (\<lambda>c. Inr (sc_block c))"

text \<open>The whole encoding of a top-level value, header included.\<close>

definition cdr_message :: "endian \<Rightarrow> memory \<Rightarrow> value_type \<Rightarrow> sample_or_request \<Rightarrow> sample_or_key \<Rightarrow> nat \<Rightarrow> u8 list" where
  "cdr_message E m root variant what src = rtps_header E @ cdr_body E m root variant what src"

section \<open>Regular functions of an offset\<close>

text \<open>
  A step of the size computation maps the offset it starts at to the offset it ends at.  Such a
  function is regular for an alignment \<open>D\<close>: it commutes with shifts by \<open>D\<close>, its results agree modulo
  \<open>D\<close>, and it is monotone and never decreases the offset.
\<close>

definition regular :: "nat \<Rightarrow> (nat \<Rightarrow> nat) \<Rightarrow> bool" where
  "regular D f \<longleftrightarrow> D \<in> {1, 2, 4, 8} \<and> (\<forall>a. f (a + D) = f a + D) \<and> (\<forall>a b. f a mod D = f b mod D)
     \<and> (\<forall>a. a \<le> f a) \<and> mono f"

lemma regular_shift: "regular D f \<Longrightarrow> f (a + k * D) = f a + k * D"
proof (induction k)
  case 0
  then show ?case by simp
next
  case (Suc k)
  have "f (a + Suc k * D) = f ((a + k * D) + D)" by (simp add: ac_simps)
  also have "\<dots> = f (a + k * D) + D" using Suc.prems by (simp add: regular_def)
  finally show ?case using Suc by simp
qed

lemma regular_shift_dvd:
  assumes "regular D f" "D dvd M"
  shows "f (a + k * M) = f a + k * M"
proof -
  obtain j where "M = j * D" using assms(2) by (metis dvd_def mult.commute)
  then show ?thesis using regular_shift [OF assms(1), of a "k * j"] by (simp add: mult.assoc)
qed

lemma regular_D: "regular D f \<Longrightarrow> 0 < D"
  by (auto simp: regular_def)

text \<open>Past its first result a regular function advances by a constant.\<close>

lemma regular_step:
  assumes "regular D f"
  shows "f (f a) - f a = f (f b) - f b"
proof -
  let ?r = "f a mod D"
  have a: "f a = ?r + (f a div D) * D" by (simp add: mult.commute)
  have b: "f b = ?r + (f b div D) * D"
    using assms by (metis mod_mult_div_eq mult.commute regular_def)
  have "f (f a) = f ?r + (f a div D) * D" using regular_shift [OF assms, of ?r "f a div D"] a by simp
  moreover have "f (f b) = f ?r + (f b div D) * D" using regular_shift [OF assms, of ?r "f b div D"] b by simp
  ultimately show ?thesis using a b by linarith
qed

lemma regular_iterate:
  assumes "regular D f"
  shows "(f ^^ Suc n) a = f a + n * (f (f a) - f a)"
proof (induction n)
  case 0
  then show ?case by simp
next
  case (Suc n)
  let ?x = "(f ^^ n) a"
  have "f (f ?x) - f ?x = f (f a) - f a" by (rule regular_step [OF assms])
  moreover have "f ?x \<le> f (f ?x)" using assms by (simp add: regular_def)
  ultimately have "(f ^^ Suc (Suc n)) a = f ?x + (f (f a) - f a)" by simp
  then show ?case using Suc by simp
qed

lemma regular_align: "n \<in> {1, 2, 4, 8} \<Longrightarrow> regular n (\<lambda>a. align_up n a + k)"
proof -
  assume n: "n \<in> {1, 2, 4, 8}"
  then have pos: "0 < n" by auto
  have "align_up n (a + n) = align_up n a + n" for a by (simp add: align_up_def padding_def)
  moreover have "(align_up n a + k) mod n = (align_up n b + k) mod n" for a b
    using align_up_dvd [OF pos, of a] align_up_dvd [OF pos, of b]
    by (metis dvd_eq_mod_eq_0 mod_add_left_eq)
  moreover have "mono (\<lambda>a. align_up n a + k)"
    by (rule monoI) (simp add: align_up_mono [OF pos])
  moreover have "a \<le> align_up n a + k" for a by (rule trans_le_add1 [OF align_up_ge])
  ultimately show ?thesis
    using n by (auto simp: regular_def)
qed

lemma regular_id: "regular 1 (\<lambda>a. a)"
  by (auto simp: regular_def mono_def)

lemma regular_add: "regular D f \<Longrightarrow> regular D (\<lambda>a. f a + k)"
  unfolding regular_def mono_def by (auto intro: trans_le_add1 mod_add_cong)

lemma regular_comp:
  assumes f: "regular D f" and g: "regular D' g"
  shows "regular (max D D') (\<lambda>a. g (f a))"
proof -
  have D: "D \<in> {1, 2, 4, 8}" "D' \<in> {1, 2, 4, 8}" using f g by (auto simp: regular_def)
  then have dvd: "D dvd max D D'" "D' dvd max D D'" by auto
  have shift: "g (f (a + max D D')) = g (f a) + max D D'" for a
    using regular_shift_dvd [OF f dvd(1), of a 1] regular_shift_dvd [OF g dvd(2), of "f a" 1] by simp
  have res: "g (f a) mod max D D' = g (f b) mod max D D'" for a b
  proof (cases "D \<le> D'")
    case True
    then show ?thesis using g by (simp add: regular_def max_def)
  next
    case False
    then have max: "max D D' = D" by simp
    have r: "f a mod D = f b mod D" using f by (simp add: regular_def)
    have "g (f x) = g (f x mod D) + (f x div D) * D" for x
      using regular_shift_dvd [OF g, of D "f x mod D" "f x div D"] dvd(2) max
      by (metis mod_mult_div_eq mult.commute)
    then have "g (f x) mod D = g (f x mod D) mod D" for x by (metis mod_mult_self1 mult.commute)
    then show ?thesis using r max by metis
  qed
  have "max D D' \<in> {1, 2, 4, 8}" using D by (auto simp: max_def)
  moreover have "a \<le> g (f a)" for a using f g by (meson order_trans regular_def)
  moreover have "mono (\<lambda>a. g (f a))" using f g by (simp add: regular_def mono_def)
  ultimately show ?thesis
    unfolding regular_def using shift res by blast
qed

section \<open>The end offset the bounds compute\<close>

definition many_end :: "(nat \<Rightarrow> nat) \<Rightarrow> nat \<Rightarrow> nat \<Rightarrow> nat" where
  "many_end S n a = (if n = 0 then a else if n = 1 then S a else S (S a) + n * (S (S a) - S a))"

lemma many_end_cong [fundef_cong]:
  assumes "n = n'" "a = a'" "\<And>x. S x = S' x"
  shows "many_end S n a = many_end S' n' a'"
proof -
  have "S = S'" using assms(3) by blast
  then show ?thesis using assms by simp
qed

definition bound_of :: "min_or_max \<Rightarrow> nat \<Rightarrow> nat" where
  "bound_of mm b = (if mm = Min then 0 else b)"

fun bend :: "sample_or_key \<Rightarrow> min_or_max \<Rightarrow> value_type \<Rightarrow> nat \<Rightarrow> nat"
  and bend_members :: "sample_or_key \<Rightarrow> min_or_max \<Rightarrow> bool \<Rightarrow> member list \<Rightarrow> nat \<Rightarrow> nat"
where
  "bend w mm (PrimitiveValueType k) a = align_up (prim_cdralignof k) a + prim_cdrsizeof k"
| "bend w mm (U8StringValueType b sz) a = align_up 4 a + (4 + bound_of mm b + 1)"
| "bend w mm (U16StringValueType b sz) a = align_up 4 a + (4 + 2 * bound_of mm b)"
| "bend w mm (ArrayValueType e n sc) a = many_end (bend w mm e) n a"
| "bend w mm (SpanSequenceValueType k e b) a = many_end (bend w mm e) (bound_of mm b) (align_up 4 a + 4)"
| "bend w mm (BoolVectorValueType b sz) a = align_up 4 a + (4 + bound_of mm b)"
| "bend w mm (StructValueType si ms) a = bend_members w mm (w \<noteq> Key \<or> \<not> m_has_keys si) ms a"
| "bend_members w mm all_fields [] a = a"
| "bend_members w mm all_fields (Member nm vt moff key # ms) a =
     bend_members w mm all_fields ms (if all_fields \<or> key then bend w mm vt a else a)"

lemma regular_many:
  assumes "regular D S"
  shows "\<exists>D. regular D (many_end S n)"
proof -
  consider "n = 0" | "n = 1" | "2 \<le> n" by linarith
  then show ?thesis
  proof cases
    case 1
    then have "many_end S n = (\<lambda>a. a)" by (simp add: many_end_def fun_eq_iff)
    then show ?thesis using regular_id by auto
  next
    case 2
    then have "many_end S n = S" by (simp add: many_end_def fun_eq_iff)
    then show ?thesis using assms by auto
  next
    case 3
    have "many_end S n = (\<lambda>a. S (S a) + n * (S (S 0) - S 0))"
      using 3 regular_step [OF assms, of _ 0] by (simp add: many_end_def fun_eq_iff)
    then show ?thesis using regular_add [OF regular_comp [OF assms assms]] by auto
  qed
qed

lemma regular_members:
  assumes "\<And>mem. mem \<in> set ms \<Longrightarrow> \<exists>D. regular D (bend w mm (member_type mem))"
  shows "\<exists>D. regular D (bend_members w mm all_fields ms)"
  using assms
proof (induction ms)
  case Nil
  have "bend_members w mm all_fields [] = (\<lambda>a. a)" by (simp add: fun_eq_iff)
  then show ?case using regular_id by auto
next
  case (Cons mem ms)
  obtain nm vt moff key where mem: "mem = Member nm vt moff key" by (cases mem)
  obtain D where D: "regular D (bend_members w mm all_fields ms)" using Cons by auto
  obtain D' where D': "regular D' (bend w mm vt)" using Cons.prems [of mem] mem by auto
  show ?case
  proof (cases "all_fields \<or> key")
    case True
    then have "bend_members w mm all_fields (mem # ms) = (\<lambda>a. bend_members w mm all_fields ms (bend w mm vt a))"
      by (simp add: mem fun_eq_iff)
    then show ?thesis using regular_comp [OF D' D] by auto
  next
    case False
    then have "bend_members w mm all_fields (mem # ms) = bend_members w mm all_fields ms"
      by (simp add: mem fun_eq_iff)
    then show ?thesis using D by auto
  qed
qed

lemma regular_bend: "wf_type vt \<Longrightarrow> \<exists>D. regular D (bend w mm vt)"
proof (induction vt rule: subtypes.induct)
  case (1 si ms)
  then have "\<exists>D. regular D (bend_members w mm (w \<noteq> Key \<or> \<not> m_has_keys si) ms)"
    by (intro regular_members) auto
  then show ?case by (auto simp: fun_eq_iff)
next
  case (2 e n sc)
  then obtain D where "regular D (bend w mm e)" by auto
  then obtain D' where "regular D' (many_end (bend w mm e) n)" using regular_many by blast
  moreover have "bend w mm (ArrayValueType e n sc) = many_end (bend w mm e) n" by (simp add: fun_eq_iff)
  ultimately show ?case by auto
next
  case (3 k e b)
  then obtain D where "regular D (bend w mm e)" by auto
  then obtain D' where D': "regular D' (many_end (bend w mm e) (bound_of mm b))" using regular_many by blast
  have al: "regular 4 (\<lambda>a. align_up 4 a + 4)" by (rule regular_align) simp
  have "bend w mm (SpanSequenceValueType k e b) = (\<lambda>a. many_end (bend w mm e) (bound_of mm b) (align_up 4 a + 4))"
    by (simp add: fun_eq_iff)
  then show ?case using regular_comp [OF al D'] by auto
next
  case (4 k)
  then have "prim_cdralignof k \<in> {1, 2, 4, 8}"
    unfolding prim_cdralignof_def by (intro prim_sizes(2)) simp
  then have "regular (prim_cdralignof k) (\<lambda>a. align_up (prim_cdralignof k) a + prim_cdrsizeof k)"
    by (rule regular_align)
  moreover have "bend w mm (PrimitiveValueType k) = (\<lambda>a. align_up (prim_cdralignof k) a + prim_cdrsizeof k)"
    by (simp add: fun_eq_iff)
  ultimately show ?case by auto
next
  case (5 b sz)
  have "bend w mm (U8StringValueType b sz) = (\<lambda>a. align_up 4 a + (4 + bound_of mm b + 1))" by (simp add: fun_eq_iff)
  then show ?case using regular_align [of 4 "4 + bound_of mm b + 1"] by (metis insertCI)
next
  case (6 b sz)
  have "bend w mm (U16StringValueType b sz) = (\<lambda>a. align_up 4 a + (4 + 2 * bound_of mm b))" by (simp add: fun_eq_iff)
  then show ?case using regular_align [of 4 "4 + 2 * bound_of mm b"] by (metis insertCI)
next
  case (7 b sz)
  have "bend w mm (BoolVectorValueType b sz) = (\<lambda>a. align_up 4 a + (4 + bound_of mm b))" by (simp add: fun_eq_iff)
  then show ?case using regular_align [of 4 "4 + bound_of mm b"] by (metis insertCI)
qed

section \<open>The maximum bounds every encoding\<close>

text \<open>The values a type admits: bytes of the right number, lengths within the bounds.\<close>

fun fits :: "value_type \<Rightarrow> lobj \<Rightarrow> bool" where
  "fits (PrimitiveValueType k) (LPrim bs) = (length bs = prim_cdrsizeof k)"
| "fits (U8StringValueType b sz) (LStr s) = (length s \<le> b)"
| "fits (U16StringValueType b sz) (LWStr s) = (length s \<le> b)"
| "fits (StructValueType si ms) (LStruct os) = list_all2 (\<lambda>m. fits (member_type m)) ms os"
| "fits (ArrayValueType e n sc) (LArr os) = (length os = n \<and> list_all (fits e) os)"
| "fits (SpanSequenceValueType k e b) (LSeq os) = (length os \<le> b \<and> list_all (fits e) os)"
| "fits (BoolVectorValueType b sz) (LBools bs) = (length bs \<le> b)"
| "fits vt obj = False"

lemma cdr_list_end:
  assumes "\<And>x a a'. x \<in> set xs \<Longrightarrow> a \<le> a' \<Longrightarrow> a + length (f x a) \<le> S a'"
  shows "a \<le> a' \<Longrightarrow> a + length (cdr_list f xs a) \<le> (S ^^ length xs) a'"
  using assms
proof (induction xs arbitrary: a a')
  case Nil
  then show ?case by simp
next
  case (Cons x xs)
  have "a + length (f x a) \<le> S a'" using Cons.prems by simp
  then have "a + length (f x a) + length (cdr_list f xs (a + length (f x a))) \<le> (S ^^ length xs) (S a')"
    by (rule Cons.IH) (use Cons.prems(2) in simp)
  then show ?case by (simp add: Let_def funpow_swap1 add.assoc)
qed

lemma many_end_ge:
  assumes "regular D S" "n \<le> count"
  shows "(S ^^ n) a \<le> many_end S count a"
proof (cases n)
  case 0
  have "a \<le> S a" "S a \<le> S (S a)" using assms(1) by (auto simp: regular_def)
  then show ?thesis using 0 by (auto simp: many_end_def)
next
  case (Suc k)
  have le: "S a \<le> S (S a)" using assms(1) by (auto simp: regular_def)
  have it: "(S ^^ n) a = S a + k * (S (S a) - S a)" unfolding Suc by (rule regular_iterate [OF assms(1)])
  show ?thesis
  proof (cases "count = 1")
    case True
    then show ?thesis using assms(2) Suc by (simp add: many_end_def)
  next
    case False
    have "k * (S (S a) - S a) \<le> count * (S (S a) - S a)" using Suc assms(2) by (intro mult_le_mono1) simp
    then have "S a + k * (S (S a) - S a) \<le> S (S a) + count * (S (S a) - S a)" using le by linarith
    then show ?thesis using it False Suc assms(2) by (simp add: many_end_def)
  qed
qed

lemma align_end:
  assumes "0 < n" "a \<le> a'" "k \<le> k'"
  shows "a + (padding n a + k) \<le> align_up n a' + k'"
  using align_up_mono [OF assms(1,2)] assms(3) by (simp add: align_up_def)

lemma length_cdr_u32: "length (cdr_u32 T n a) = padding 4 a + 4"
  by (simp add: cdr_u32_def)

lemma cdr_members_end:
  assumes "\<And>mem obj a a'. mem \<in> set ms \<Longrightarrow> fits (member_type mem) obj \<Longrightarrow> a \<le> a' \<Longrightarrow>
      a + length (cdr T w (member_type mem) obj a) \<le> bend w Max (member_type mem) a'"
  shows "list_all2 (\<lambda>m. fits (member_type m)) ms os \<Longrightarrow> a \<le> a' \<Longrightarrow>
     a + length (cdr_members T w all_fields ms os a) \<le> bend_members w Max all_fields ms a'"
  using assms
proof (induction ms arbitrary: os a a')
  case Nil
  then show ?case by simp
next
  case (Cons mem ms)
  obtain nm vt moff key where mem: "mem = Member nm vt moff key" by (cases mem)
  from Cons.prems(1) obtain o1 os' where os: "os = o1 # os'" "fits vt o1"
    "list_all2 (\<lambda>m. fits (member_type m)) ms os'"
    by (cases os) (auto simp: mem)
  let ?bs = "if all_fields \<or> key then cdr T w vt o1 a else []"
  have "a + length ?bs \<le> (if all_fields \<or> key then bend w Max vt a' else a')"
    using Cons.prems(3) [of mem o1 a a'] os(2) mem Cons.prems(2) by simp
  from Cons.IH [OF os(3) this] Cons.prems(3)
  have "a + length ?bs + length (cdr_members T w all_fields ms os' (a + length ?bs))
      \<le> bend_members w Max all_fields ms (if all_fields \<or> key then bend w Max vt a' else a')" by simp
  then show ?case by (simp add: mem os(1) Let_def add.assoc)
qed

lemma cdr_end:
  "wf_type vt \<Longrightarrow> fits vt obj \<Longrightarrow> a \<le> a' \<Longrightarrow> a + length (cdr T w vt obj a) \<le> bend w Max vt a'"
proof (induction vt arbitrary: obj a a' rule: subtypes.induct)
  case (1 si ms)
  then obtain os where os: "obj = LStruct os" "list_all2 (\<lambda>m. fits (member_type m)) ms os"
    by (cases obj) auto
  then show ?case using cdr_members_end [of ms T w os a a'] 1 by simp
next
  case (2 e n sc)
  then obtain os where os: "obj = LArr os" "length os = n" "\<forall>x \<in> set os. fits e x"
    by (cases obj) (auto simp: list_all_iff)
  have "a + length (cdr_list (cdr T w e) os a) \<le> (bend w Max e ^^ length os) a'"
    by (rule cdr_list_end [OF _ "2.prems"(3)]) (use 2 os in auto)
  moreover obtain D where "regular D (bend w Max e)" using regular_bend "2.prems"(1) by force
  ultimately show ?case using many_end_ge [of D "bend w Max e" n n a'] os by simp
next
  case (3 k e b)
  then obtain os where os: "obj = LSeq os" "length os \<le> b" "\<forall>x \<in> set os. fits e x"
    by (cases obj) (auto simp: list_all_iff)
  let ?u = "cdr_u32 T (length os) a"
  have "a + length ?u \<le> align_up 4 a' + 4"
    using align_end [OF zero_less_numeral "3.prems"(3) order_refl] by (simp add: length_cdr_u32)
  then have "a + length ?u + length (cdr_list (cdr T w e) os (a + length ?u))
      \<le> (bend w Max e ^^ length os) (align_up 4 a' + 4)"
    by (rule cdr_list_end [rotated]) (use 3 os in auto)
  moreover obtain D where "regular D (bend w Max e)" using regular_bend "3.prems"(1) by force
  ultimately show ?case
    using many_end_ge [of D "bend w Max e" "length os" b "align_up 4 a' + 4"] os
    by (simp add: bound_of_def)
next
  case (4 k)
  then have "0 < prim_cdralignof k" by (simp add: prim_cdralignof_def prim_cdrsizeof_pos)
  moreover obtain bs where "obj = LPrim bs" "length bs = prim_cdrsizeof k"
    using 4 by (cases obj) auto
  ultimately show ?case using align_end [OF _ "4.prems"(3)] by simp
next
  case (5 b sz)
  then obtain s where "obj = LStr s" "length s \<le> b" by (cases obj) auto
  then show ?case
    using align_end [OF _ "5.prems"(3), of 4 "4 + length s + 1" "4 + b + 1"]
    by (simp add: length_cdr_u32 bound_of_def)
next
  case (6 b sz)
  then obtain s where "obj = LWStr s" "length s \<le> b" by (cases obj) auto
  then show ?case
    using align_end [OF _ "6.prems"(3), of 4 "4 + 2 * length s" "4 + 2 * b"]
    by (simp add: length_cdr_u32 bound_of_def)
next
  case (7 b sz)
  then obtain s where "obj = LBools s" "length s \<le> b" by (cases obj) auto
  then show ?case
    using align_end [OF _ "7.prems"(3), of 4 "4 + length s" "4 + b"]
    by (simp add: length_cdr_u32 bound_of_def)
qed

section \<open>The bound functions compute the end offset\<close>

text \<open>
  Every struct has a member, as rosidl ensures; without that the code divides by an element size of
  zero.
\<close>

fun inhabited :: "value_type \<Rightarrow> bool" where
  "inhabited (StructValueType si ms) = (ms \<noteq> [] \<and> (\<forall>m \<in> set ms. inhabited (member_type m)))"
| "inhabited (ArrayValueType e n sc) = inhabited e"
| "inhabited (SpanSequenceValueType k e b) = inhabited e"
| "inhabited vt = True"

definition chk_step :: "checking_cursor result \<Rightarrow> nat \<Rightarrow> bool" where
  "chk_step r b \<longleftrightarrow>
     (case r of Inl e \<Rightarrow> (\<exists>s. e = OverflowError s) | Inr c \<Rightarrow> chk_offset c = b \<and> b \<le> UINT32_MAX)"

definition chk_bound :: "(bool \<times> checking_cursor) result \<Rightarrow> nat \<Rightarrow> bool" where
  "chk_bound r b \<longleftrightarrow>
     (case r of
        Inl e \<Rightarrow> (\<exists>s. e = OverflowError s)
      | Inr (ok, c) \<Rightarrow> ok \<longrightarrow> chk_offset c = b \<and> b \<le> UINT32_MAX)"

lemma chk_step_bind:
  assumes "chk_step r a" "\<And>c. chk_offset c = a \<Longrightarrow> a \<le> UINT32_MAX \<Longrightarrow> chk_bound (f c) b"
  shows "chk_bound (rbind r f) b"
  using assms by (cases r) (auto simp: chk_step_def chk_bound_def)

lemma chk_step_step:
  assumes "chk_step r a" "\<And>c. chk_offset c = a \<Longrightarrow> a \<le> UINT32_MAX \<Longrightarrow> chk_step (f c) b"
  shows "chk_step (rbind r f) b"
  using assms by (cases r) (auto simp: chk_step_def)

lemma chk_bound_bind:
  assumes "chk_bound r a"
    and "\<And>c. chk_offset c = a \<Longrightarrow> a \<le> UINT32_MAX \<Longrightarrow> chk_bound (f c) b"
  shows "chk_bound (rbind r (\<lambda>(ok, c). if \<not> ok then Inr (False, c) else f c)) b"
  using assms by (cases r) (auto simp: chk_bound_def)

lemma chk_bound_done [simp]: "chk_bound (Inr (True, c)) b \<longleftrightarrow> chk_offset c = b \<and> b \<le> UINT32_MAX"
  and chk_bound_stop [simp]: "chk_bound (Inr (False, c)) b"
  by (simp_all add: chk_bound_def)

lemma chk_advance: "chk_offset c \<le> UINT32_MAX \<Longrightarrow> chk_step (checking_advance n c) (chk_offset c + n)"
  by (simp add: checking_advance_eq chk_step_def)

lemma checking_ops_simps [simp]:
  "w_offset checking_ops = chk_offset" "w_put_null checking_ops = checking_advance"
  "w_advance checking_ops = checking_advance" "w_put_bytes checking_ops bs = checking_advance (length bs)"
  by (simp_all add: checking_ops_def)

lemma chk_align:
  "chk_offset c \<le> UINT32_MAX \<Longrightarrow> 0 < n \<Longrightarrow> chk_step (w_align checking_ops n c) (align_up n (chk_offset c))"
  using chk_advance [of c "padding n (chk_offset c)"]
  by (simp add: checking_cursor.align align_up_def)

lemma chk_u32:
  assumes "chk_offset c \<le> UINT32_MAX"
  shows "chk_step (serialize_u32 checking_ops E v c) (align_up 4 (chk_offset c) + 4)"
  unfolding serialize_u32_def
proof (rule chk_step_step)
  show "chk_step (w_align checking_ops 4 c) (align_up 4 (chk_offset c))"
    using chk_align [OF assms] by simp
next
  fix d :: checking_cursor assume "chk_offset d = align_up 4 (chk_offset c)" "align_up 4 (chk_offset c) \<le> UINT32_MAX"
  then show "chk_step (w_put_bytes checking_ops (word_bytes E 4 (of_nat v :: u32)) d) (align_up 4 (chk_offset c) + 4)"
    using chk_advance [of d 4] by simp
qed

lemma chk_put:
  assumes "chk_offset c = a" "a \<le> UINT32_MAX" "\<And>c. chk_offset c = a + n \<Longrightarrow> a + n \<le> UINT32_MAX \<Longrightarrow> chk_bound (f c) b"
  shows "chk_bound (rbind (checking_advance n c) f) b"
  by (rule chk_step_bind [OF chk_advance]) (use assms in auto)

lemma chk_put_end:
  assumes "chk_offset c = a" "a \<le> UINT32_MAX" "a + n = b"
  shows "chk_bound (rbind (checking_advance n c) (\<lambda>c. Inr (True, c))) b"
  by (rule chk_put [OF assms(1,2)]) (simp add: assms(3))

lemma chk_many:
  assumes bound: "\<And>c. chk_offset c \<le> UINT32_MAX \<Longrightarrow> chk_bound (be c) (S (chk_offset c))"
    and S: "\<And>a. a < S a" and c: "chk_offset c \<le> UINT32_MAX"
  shows "chk_bound (size_bound_many checking_ops be n c) (many_end S n (chk_offset c))"
proof -
  let ?a = "chk_offset c"
  consider "n = 0" | "n \<noteq> 0" "UINT32_MAX \<le> n" | "n = 1" | "1 < n" "n < UINT32_MAX" by linarith
  then show ?thesis
  proof cases
    case 4
    let ?K = "S (S ?a) - S ?a"
    have "chk_bound (rbind (be c) (\<lambda>(ok, c). if \<not> ok then Inr (False, c) else
        (let offset = chk_offset c in
         rbind (be c) (\<lambda>(ok, c).
           if \<not> ok then Inr (False, c)
           else let elt_size = sz_sub (chk_offset c) offset in
             if elt_size = 0 then Inl (UB ''division by zero'')
             else let max_count = SIZE_MAX div elt_size in
               if max_count < n then Inr (False, c)
               else rbind (checking_advance (n * elt_size) c) (\<lambda>c. Inr (True, c)))))) (S (S ?a) + n * ?K)"
    proof (rule chk_bound_bind [OF bound [OF c]])
      fix d :: checking_cursor assume d: "chk_offset d = S ?a" "S ?a \<le> UINT32_MAX"
      have "chk_bound (be d) (S (S ?a))" using bound [of d] d by simp
      then show "chk_bound (let offset = chk_offset d in
         rbind (be d) (\<lambda>(ok, c).
           if \<not> ok then Inr (False, c)
           else let elt_size = sz_sub (chk_offset c) offset in
             if elt_size = 0 then Inl (UB ''division by zero'')
             else let max_count = SIZE_MAX div elt_size in
               if max_count < n then Inr (False, c)
               else rbind (checking_advance (n * elt_size) c) (\<lambda>c. Inr (True, c)))) (S (S ?a) + n * ?K)"
        unfolding Let_def
      proof (rule chk_bound_bind)
        fix f :: checking_cursor assume f: "chk_offset f = S (S ?a)" "S (S ?a) \<le> UINT32_MAX"
        have K: "sz_sub (chk_offset f) (chk_offset d) = ?K"
          using d f S [of "S ?a"] by simp
        have pos: "0 < ?K" using S [of "S ?a"] by simp
        have "chk_bound (rbind (checking_advance (n * ?K) f) (\<lambda>c. Inr (True, c))) (S (S ?a) + n * ?K)"
          by (rule chk_put [OF f]) simp
        then show "chk_bound (if sz_sub (chk_offset f) (chk_offset d) = 0 then Inl (UB ''division by zero'')
             else if SIZE_MAX div sz_sub (chk_offset f) (chk_offset d) < n then Inr (False, f)
               else rbind (checking_advance (n * sz_sub (chk_offset f) (chk_offset d)) f)
                      (\<lambda>c. Inr (True, c))) (S (S ?a) + n * ?K)"
          unfolding K using pos by simp
      qed
    qed
    moreover have "n \<noteq> 0" "n \<noteq> 1" "(1 < n) = True" "(UINT32_MAX \<le> n) = False" using 4 by auto
    ultimately show ?thesis
      unfolding size_bound_many_def many_end_def checking_ops_simps by (simp only: if_True if_False)
  next
    case 3
    have "chk_bound (rbind (be c) (\<lambda>(ok, c). if \<not> ok then Inr (False, c) else Inr (True, c))) (S ?a)"
      by (rule chk_bound_bind [OF bound [OF c]]) simp
    moreover have "(n = 0) = False" "(n = 1) = True" "(1 < n) = False" "(UINT32_MAX \<le> n) = False" using 3 by auto
    ultimately show ?thesis
      unfolding size_bound_many_def many_end_def checking_ops_simps by (simp only: if_True if_False)
  qed (use c in \<open>simp_all add: size_bound_many_def many_end_def\<close>)
qed

lemma many_end_gt:
  assumes "\<And>a. a < S a"
  shows "a \<le> many_end S n a" and "0 < n \<Longrightarrow> a < many_end S n a"
  using assms [of a] assms [of "S a"] by (auto simp: many_end_def)

lemma bend_members_gt:
  assumes "\<And>mem a. mem \<in> set ms \<Longrightarrow> a < bend w mm (member_type mem) a"
  shows "a \<le> bend_members w mm all_fields ms a"
    and "\<exists>mem \<in> set ms. all_fields \<or> is_key mem \<Longrightarrow> a < bend_members w mm all_fields ms a"
proof -
  have "a \<le> bend_members w mm all_fields ms a \<and>
      ((\<exists>mem \<in> set ms. all_fields \<or> is_key mem) \<longrightarrow> a < bend_members w mm all_fields ms a)"
    using assms
  proof (induction ms arbitrary: a)
    case Nil
    then show ?case by simp
  next
    case (Cons mem ms)
    obtain nm vt moff key where mem: "mem = Member nm vt moff key" by (cases mem)
    have "a < bend w mm vt a" using Cons.prems [of mem a] mem by simp
    moreover have "bend w mm vt a \<le> bend_members w mm all_fields ms (bend w mm vt a)"
      "a \<le> bend_members w mm all_fields ms a \<and>
        ((\<exists>mem \<in> set ms. all_fields \<or> is_key mem) \<longrightarrow> a < bend_members w mm all_fields ms a)"
      using Cons.IH Cons.prems by auto
    ultimately show ?case by (auto simp: mem)
  qed
  then show "a \<le> bend_members w mm all_fields ms a"
    and "\<exists>mem \<in> set ms. all_fields \<or> is_key mem \<Longrightarrow> a < bend_members w mm all_fields ms a" by blast+
qed

lemma align_up_less: "0 < k \<Longrightarrow> a < align_up n a + k"
  using align_up_ge [of a n] by linarith

lemma align_up_less_add: "0 < k \<Longrightarrow> a < align_up n a + (k + j)"
  using align_up_less [of k a n] by linarith

lemma bend_gt: "wf_type vt \<Longrightarrow> inhabited vt \<Longrightarrow> a < bend w mm vt a"
proof (induction vt arbitrary: a rule: subtypes.induct)
  case (1 si ms)
  have mem: "a < bend w mm (member_type mem) a" if "mem \<in> set ms" for mem a
    using "1.IH" [OF that] "1.prems" that by simp
  have "\<exists>mem \<in> set ms. (w \<noteq> Key \<or> \<not> m_has_keys si) \<or> is_key mem"
    using "1.prems" by (cases ms) (auto simp: list_ex_iff)
  from bend_members_gt(2) [OF mem this] show ?case by simp
next
  case (2 e n sc)
  have "a < bend w mm e a" for a using 2 by simp
  from many_end_gt(2) [OF this, of n a] show ?case using "2.prems" by simp
next
  case (3 k e b)
  have "a < bend w mm e a" for a using 3 by simp
  from many_end_gt(1) [OF this, of "align_up 4 a + 4" "bound_of mm b"] align_up_less [of 4 a 4]
  show ?case by simp
next
  case (4 k)
  then show ?case by (simp add: align_up_less prim_cdrsizeof_pos)
qed (simp_all add: align_up_less_add)

lemma chk_members:
  assumes "\<And>mem c. mem \<in> set ms \<Longrightarrow> chk_offset c \<le> UINT32_MAX \<Longrightarrow>
      chk_bound (serialize_size_bound checking_ops E w mm (member_type mem) c)
        (bend w mm (member_type mem) (chk_offset c))"
  shows "chk_offset c \<le> UINT32_MAX \<Longrightarrow>
     chk_bound (size_bound_members checking_ops E w mm all_fields ms c)
       (bend_members w mm all_fields ms (chk_offset c))"
  using assms
proof (induction ms arbitrary: c)
  case Nil
  then show ?case by simp
next
  case (Cons mem ms)
  obtain nm vt moff key where mem: "mem = Member nm vt moff key" by (cases mem)
  have IH: "chk_bound (size_bound_members checking_ops E w mm all_fields ms c)
       (bend_members w mm all_fields ms (chk_offset c))" if "chk_offset c \<le> UINT32_MAX" for c
    using Cons.IH [OF that] Cons.prems(2) by simp
  show ?case
  proof (cases "all_fields \<or> key")
    case True
    have "chk_bound (serialize_size_bound checking_ops E w mm vt c) (bend w mm vt (chk_offset c))"
      using Cons.prems(2) [of mem c] Cons.prems(1) mem by simp
    then have "chk_bound (rbind (serialize_size_bound checking_ops E w mm vt c) (\<lambda>(ok, c).
        if \<not> ok then Inr (False, c) else size_bound_members checking_ops E w mm all_fields ms c))
        (bend_members w mm all_fields ms (bend w mm vt (chk_offset c)))"
    proof (rule chk_bound_bind)
      fix d :: checking_cursor
      assume "chk_offset d = bend w mm vt (chk_offset c)" "bend w mm vt (chk_offset c) \<le> UINT32_MAX"
      then show "chk_bound (size_bound_members checking_ops E w mm all_fields ms d)
          (bend_members w mm all_fields ms (bend w mm vt (chk_offset c)))"
        using IH [of d] by simp
    qed
    then show ?thesis unfolding mem size_bound_members.simps bend_members.simps if_P [OF True] .
  next
    case False
    then show ?thesis using IH [OF Cons.prems(1)] by (simp add: mem)
  qed
qed

lemma size_bound_correct:
  "wf_type vt \<Longrightarrow> inhabited vt \<Longrightarrow> chk_offset c \<le> UINT32_MAX \<Longrightarrow>
     chk_bound (serialize_size_bound checking_ops E w mm vt c) (bend w mm vt (chk_offset c))"
proof (induction vt arbitrary: c rule: subtypes.induct)
  case (1 si ms)
  then show ?case using chk_members [of ms E w mm c] by simp
next
  case (2 e n sc)
  then show ?case
    using chk_many [of "serialize_size_bound checking_ops E w mm e" "bend w mm e" c n] bend_gt [of e] by simp
next
  case (3 k e b)
  have "chk_bound (rbind (serialize_u32 checking_ops E (bound_of mm b) c)
      (size_bound_many checking_ops (serialize_size_bound checking_ops E w mm e) (bound_of mm b)))
      (many_end (bend w mm e) (bound_of mm b) (align_up 4 (chk_offset c) + 4))"
  proof (rule chk_step_bind [OF chk_u32 [OF "3.prems"(3)]])
    fix d :: checking_cursor
    assume "chk_offset d = align_up 4 (chk_offset c) + 4" "align_up 4 (chk_offset c) + 4 \<le> UINT32_MAX"
    then show "chk_bound (size_bound_many checking_ops (serialize_size_bound checking_ops E w mm e) (bound_of mm b) d)
      (many_end (bend w mm e) (bound_of mm b) (align_up 4 (chk_offset c) + 4))"
      using chk_many [of "serialize_size_bound checking_ops E w mm e" "bend w mm e" d "bound_of mm b"]
        bend_gt [of e] "3.IH" "3.prems" by simp
  qed
  then show ?case
    unfolding serialize_size_bound.simps bend.simps Let_def bound_of_def [symmetric] .
next
  case (4 k)
  have pos: "0 < prim_cdralignof k" using 4 by (simp add: prim_cdralignof_def prim_cdrsizeof_pos)
  show ?case unfolding serialize_size_bound.simps bend.simps checking_ops_simps
    by (rule chk_step_bind [OF chk_align [OF "4.prems"(3) pos]], rule chk_put_end, assumption+) (rule refl)
next
  case (5 b sz)
  show ?case unfolding serialize_size_bound.simps bend.simps checking_ops_simps Let_def bound_of_def [symmetric]
    by (rule chk_step_bind [OF chk_u32 [OF "5.prems"(3)]], rule chk_put, assumption+,
        rule chk_put_end, assumption+) (simp only: add.assoc)
next
  case (6 b sz)
  have "2 * bound_of mm b < 2 ^ 32" using 6 by (simp add: bound_of_def)
  then have m: "2 * bound_of mm b mod 2 ^ 32 = 2 * bound_of mm b" by simp
  show ?case unfolding serialize_size_bound.simps bend.simps checking_ops_simps Let_def bound_of_def [symmetric] m
    by (rule chk_step_bind [OF chk_u32 [OF "6.prems"(3)]], rule chk_put_end, assumption+) (simp only: add.assoc)
next
  case (7 b sz)
  show ?case unfolding serialize_size_bound.simps bend.simps checking_ops_simps Let_def bound_of_def [symmetric]
    by (rule chk_step_bind [OF chk_u32 [OF "7.prems"(3)]], rule chk_put_end, assumption+) (simp only: add.assoc)
qed

text \<open>The end offset of a whole top-level value, counted from after the header.\<close>

definition bend_top :: "value_type \<Rightarrow> sample_or_request \<Rightarrow> sample_or_key \<Rightarrow> min_or_max \<Rightarrow> nat" where
  "bend_top root variant w mm =
     (let a = (if w = Sample \<and> variant = SRRequest then 16 else 0) in
      if w = Sample \<or> has_keys root then bend w mm root a else a)"

lemma size_bound_top_correct:
  assumes "wf_type root" "inhabited root"
  shows "case serialize_size_bound_top_level checking_ops E root variant w mm (CheckingSizeCursor 0) of
      Inl e \<Rightarrow> \<exists>s. e = OverflowError s
    | Inr (ok, c) \<Rightarrow> ok \<longrightarrow> chk_offset c = 4 + bend_top root variant w mm \<and> bend_top root variant w mm \<le> UINT32_MAX"
proof -
  let ?c = "CheckingSizeCursor 0"
  let ?r = "rbind (if w = Sample \<and> variant = SRRequest
            then rbind (checking_advance 8 ?c) (checking_advance 8) else Inr ?c) (\<lambda>c.
     if w = Sample \<or> has_keys root then serialize_size_bound checking_ops E w mm root c else Inr (True, c))"
  have req: "rbind (checking_advance 8 ?c) (checking_advance 8) = Inr (CheckingSizeCursor 16)"
    by (simp add: checking_advance_eq CheckingSizeCursor_def)
  have head: "rbind (checking_advance 4 ?c) (\<lambda>c. f (w_rebase checking_ops 4 c)) = f ?c" for f :: "checking_cursor \<Rightarrow> 'a result"
    by (simp add: checking_advance_eq CheckingSizeCursor_def checking_ops_def sz_sub_diff_def)
  have "chk_bound ?r (bend_top root variant w mm)"
    using size_bound_correct [OF assms, of "CheckingSizeCursor 16" E w mm]
      size_bound_correct [OF assms, of "CheckingSizeCursor 0" E w mm]
    by (auto simp: req [unfolded CheckingSizeCursor_def] bend_top_def CheckingSizeCursor_def)
  moreover have "serialize_size_bound_top_level checking_ops E root variant w mm ?c
      = rbind ?r (\<lambda>(fixed, c). Inr (fixed, w_rebase checking_ops (-4) c))"
  proof -
    let ?F = "\<lambda>c. rbind (if w = Sample \<and> variant = SRRequest
            then rbind (checking_advance 8 c) (checking_advance 8) else Inr c) (\<lambda>c.
       rbind (if w = Sample \<or> has_keys root then serialize_size_bound checking_ops E w mm root c
            else Inr (True, c)) (\<lambda>(fixed, c). Inr (fixed, w_rebase checking_ops (-4) c)))"
    have "put_rtps_header checking_ops E ?c = checking_advance 4 ?c"
      by (simp add: put_rtps_header_def numeral_eq_Suc)
    then have "serialize_size_bound_top_level checking_ops E root variant w mm ?c
        = rbind (checking_advance 4 ?c) (\<lambda>c. ?F (w_rebase checking_ops 4 c))"
      unfolding serialize_size_bound_top_level_def Let_def checking_ops_simps by simp
    also have "\<dots> = ?F ?c" by (rule head)
    finally show ?thesis unfolding rbind_assoc .
  qed
  moreover have "chk_offset (w_rebase checking_ops (-4) c) = 4 + n" if "chk_offset c = n" "n \<le> UINT32_MAX" for c n
    using that by (simp add: checking_ops_def sz_sub_diff_def nat_add_distrib)
  ultimately show ?thesis by (cases ?r) (auto simp: chk_bound_def)
qed

lemma compute_bound_cases:
  assumes "wf_type root" "inhabited root"
  shows "\<exists>n. compute_serialized_size_bound E root variant w mm = Inr n \<and>
      (n = SIZE_MAX \<or> n = 4 + bend_top root variant w mm \<and> bend_top root variant w mm \<le> UINT32_MAX)"
  using size_bound_top_correct [OF assms, of variant w mm E]
  by (auto simp: compute_serialized_size_bound_def split: sum.splits prod.splits)

section \<open>The writer object\<close>

text \<open>The value a top-level serialization starts from: the request proper for a request.\<close>

definition top_value :: "endian \<Rightarrow> memory \<Rightarrow> value_type \<Rightarrow> sample_or_request \<Rightarrow> sample_or_key \<Rightarrow> nat \<Rightarrow> lobj" where
  "top_value E m root variant what src =
     read_obj E m (if what = Sample \<and> variant = SRRequest then request_data E m src else src) root"

lemma cdr_body_bend:
  assumes "wf_type root" "fits root (top_value E m root variant what src)"
  shows "length (cdr_body E m root variant what src) \<le> bend_top root variant what Max"
  using cdr_end [OF assms order_refl, of 16 E what] cdr_end [OF assms order_refl, of 0 E what]
  by (auto simp: cdr_body_def bend_top_def top_value_def)

lemma length_cdr_message:
  "length (cdr_message E m root variant what src) = 4 + length (cdr_body E m root variant what src)"
  by (simp add: cdr_message_def rtps_header_def)

lemma make_cdr_writer_root:
  assumes "make_cdr_writer E root variant = Inr w" "wf_type root"
  shows "wr_root_value_type w = root" "wr_variant w = variant" "tsc_complete (wr_tsc w) root"
  using assms TriviallySerializedCache_complete [OF assms(2)]
  by (auto simp: make_cdr_writer_def rbind_eq_Inr)

lemma make_cdr_writer_max:
  assumes "make_cdr_writer E root variant = Inr w"
  shows "compute_serialized_size_bound E root variant what Max = Inr (get_max_serialized_size w what)"
  using assms by (cases what) (auto simp: make_cdr_writer_def rbind_eq_Inr get_max_serialized_size_def)

text \<open>The constructor succeeds.\<close>

lemma make_cdr_writer_total:
  assumes "wf_type root" "inhabited root"
  shows "\<exists>w. make_cdr_writer E root variant = Inr w"
proof -
  have b: "\<exists>n. compute_serialized_size_bound E root variant w mm = Inr n" for w mm
    using compute_bound_cases [OF assms] by blast
  obtain tsc where "TriviallySerializedCache root = Inr tsc"
    using TriviallySerializedCache_complete [OF assms(1)] by blast
  then show ?thesis
    using b [of Sample Min] b [of Key Min] b [of Sample Max] b [of Key Max]
    by (auto simp: make_cdr_writer_def)
qed

lemma max_bounds_message:
  assumes "make_cdr_writer E root variant = Inr w" "wf_type root" "inhabited root"
    and "fits root (top_value E m root variant what src)"
  shows "get_max_serialized_size w what = SIZE_MAX \<or>
     length (cdr_message E m root variant what src) \<le> get_max_serialized_size w what"
  using compute_bound_cases [OF assms(2,3), of E variant what Max] make_cdr_writer_max [OF assms(1), of what]
    cdr_body_bend [OF assms(2,4)]
  by (auto simp: length_cdr_message)

subsection \<open>Measuring\<close>

lemma measure_message:
  assumes "tsc_complete (wr_tsc w) (wr_root_value_type w)" "wf_type (wr_root_value_type w)"
    and "plain_mode what (wr_root_value_type w)"
    and "length (cdr_message E m (wr_root_value_type w) (wr_variant w) what src) < SIZE_MOD"
  shows "measure_serialized_size E w m src what =
     Inr (length (cdr_message E m (wr_root_value_type w) (wr_variant w) what src))"
proof -
  have "serialize_top_level size_ops E (wr_tsc w) m (wr_root_value_type w) (wr_variant w) what src (SizeCursor 0)
    = Inr \<lparr>m_offset = 4 + length (cdr_body E m (wr_root_value_type w) (wr_variant w) what src)\<rparr>"
    using assms(4)
    by (subst size_cursor.serialize_top_level_emit [OF _ _ assms(1-3)])
      (auto simp: SizeCursor_def size_ops_def size_advance_def rtps_header_def sz_sub_diff_def
        length_cdr_message nat_add_distrib)
  then show ?thesis by (simp add: measure_serialized_size_def length_cdr_message)
qed

lemma serialized_size_enough:
  assumes "make_cdr_writer E root variant = Inr w" "wf_type root" "inhabited root"
    and "plain_mode what root" "fits root (top_value E m root variant what src)"
    and "length (cdr_message E m root variant what src) < SIZE_MOD"
  obtains n where "get_serialized_size E w m src what = Inr n"
    "length (cdr_message E m root variant what src) \<le> n"
proof (cases "get_min_serialized_size w what = get_max_serialized_size w what")
  case True
  then have "get_serialized_size E w m src what = Inr (get_max_serialized_size w what)"
    by (simp add: get_serialized_size_def)
  moreover have "length (cdr_message E m root variant what src) \<le> get_max_serialized_size w what"
    using max_bounds_message [OF assms(1-3,5)] assms(6) by auto
  ultimately show ?thesis by (rule that)
next
  case False
  note w = make_cdr_writer_root [OF assms(1,2)]
  have "measure_serialized_size E w m src what = Inr (length (cdr_message E m root variant what src))"
    using measure_message [of w what E m src] w assms(2,4,6) by simp
  then show ?thesis using False that by (simp add: get_serialized_size_def)
qed

subsection \<open>Writing\<close>

lemma sc_write_message:
  "rbind (sc_write xs c) (\<lambda>c. rbind (sc_write ys (w_rebase serialize_ops 4 c)) (\<lambda>c. Inr (sc_block (w_rebase serialize_ops (-4) c))))
   = (if sc_position c + length xs + length ys \<le> length (sc_block c)
      then Inr (write_at (sc_block c) (sc_position c) (xs @ ys))
      else Inl (UB ''write past the end of the buffer''))"
  by (simp add: sc_write_def serialize_ops_def write_at_append)

lemma writer_serialize_message:
  assumes "tsc_complete (wr_tsc w) (wr_root_value_type w)" "wf_type (wr_root_value_type w)"
    and "plain_mode what (wr_root_value_type w)"
  shows "writer_serialize E w m block src what =
     (let msg = cdr_message E m (wr_root_value_type w) (wr_variant w) what src in
      if length msg \<le> length block then Inr (msg @ drop (length msg) block)
      else Inl (UB ''write past the end of the buffer''))"
proof -
  let ?c = "SerializeCursor block"
  have inv: "sc_position ?c \<le> length (sc_block ?c)" and off: "w_offset serialize_ops ?c = 0"
    by (simp_all add: SerializeCursor_def serialize_ops_def ptr_offset_def)
  show ?thesis
    unfolding writer_serialize_def serialize_cursor.serialize_top_level_emit [OF inv off assms] rbind_assoc
      rbind_Inr sc_write_message
    by (simp add: SerializeCursor_def cdr_message_def write_at_def Let_def add.assoc)
qed

end
