(* ===== verification/CdrReader.thy ===== *)
theory CdrReader
  imports CdrSize
begin

text \<open>
  \<open>CDRReader::deserialize\<close> of \<^verbatim>\<open>Serialization.cpp\<close>.  The destination is an object, given as the
  abstract value it holds; a member that is not read keeps its value.  Reading raw bytes into an
  object (the \<open>memcpy\<close> shortcuts) gives the object whose representation those bytes are.  The
  theory proves that deserialization inverts the encoding, whatever the byte orders of the two
  machines, and that on arbitrary input it ends in a result or in one of its own exceptions.
\<close>

section \<open>What the code relies on\<close>

text \<open>
  The resize callbacks are generated code.  \<open>rt_resize\<close> is \<open>m_resize_function\<close> of a
  \<open>CallbackSpan\<close>: the contents after resizing, or an exception.  \<open>rt_resize_c\<close> is that of a
  \<open>ROSIDLC_Span\<close>, which returns \<open>false\<close> (\<open>None\<close>) when it fails.
\<close>

record runtime =
  rt_resize :: "value_type \<Rightarrow> nat \<Rightarrow> lobj list \<Rightarrow> lobj list result"
  rt_resize_c :: "value_type \<Rightarrow> nat \<Rightarrow> lobj list \<Rightarrow> lobj list option"

text \<open>A \<open>throw;\<close> with no exception being handled ends the process.\<close>

definition sequence_resize :: "runtime \<Rightarrow> value_type \<Rightarrow> nat \<Rightarrow> lobj list \<Rightarrow> lobj list result" where
  "sequence_resize rt vt n olds =
     (case vt of
        SpanSequenceValueType CallbackSpan e b \<Rightarrow> rt_resize rt vt n olds
      | _ \<Rightarrow> (case rt_resize_c rt vt n olds of None \<Rightarrow> Inl Terminate | Some os \<Rightarrow> Inr os))"

text \<open>The memory that holds given bytes at address 0.\<close>

definition memory_of :: "u8 list \<Rightarrow> memory" where
  "memory_of bs = \<lparr>mem_byte = (\<lambda>i. if i < length bs then bs ! i else 0), mem_u8str = (\<lambda>_. []),
     mem_u16str = (\<lambda>_. []), mem_seq = (\<lambda>_. (0, 0)), mem_bools = (\<lambda>_. [])\<rparr>"

definition image_obj :: "endian \<Rightarrow> value_type \<Rightarrow> u8 list \<Rightarrow> lobj" where
  "image_obj E vt bs = read_obj E (memory_of bs) 0 vt"

definition image_objs :: "endian \<Rightarrow> value_type \<Rightarrow> nat \<Rightarrow> nat \<Rightarrow> u8 list \<Rightarrow> lobj list" where
  "image_objs E vt sz n bs = map (\<lambda>i. read_obj E (memory_of bs) (i * sz) vt) [0..<n]"

section \<open>\<open>deserialize\<close>\<close>

definition deserialize_u32 :: "endian \<Rightarrow> bool \<Rightarrow> deserialize_cursor \<Rightarrow> (nat \<times> deserialize_cursor) result" where
  "deserialize_u32 E bswap_src c =
     rbind (dc_align 4 c) (\<lambda>c.
     rbind (dc_get_bytes 4 c) (\<lambda>(bs, c).
     let u = bytes_word E bs :: u32 in
     Inr (unat (if bswap_src then bswap32 u else u), c)))"

definition deserialize_primitive ::
  "endian \<Rightarrow> bool \<Rightarrow> nat \<Rightarrow> deserialize_cursor \<Rightarrow> (u8 list \<times> deserialize_cursor) result" where
  "deserialize_primitive E bswap_src n_bytes c =
     rbind (dc_align n_bytes c) (\<lambda>c.
     rbind (dc_get_bytes n_bytes c) (\<lambda>(bs, c).
     Inr (if bswap_src then bswapN E n_bytes bs else bs, c)))"

definition deserialize_prim ::
  "endian \<Rightarrow> bool \<Rightarrow> type_kind \<Rightarrow> deserialize_cursor \<Rightarrow> (lobj \<times> deserialize_cursor) result" where
  "deserialize_prim E bswap_src k c =
     rbind (case k of
         CHAR_T \<Rightarrow> deserialize_primitive E bswap_src 1 c
       | BOOLEAN \<Rightarrow> deserialize_primitive E bswap_src 1 c
       | OCTET \<Rightarrow> deserialize_primitive E bswap_src 1 c
       | UINT8 \<Rightarrow> deserialize_primitive E bswap_src 1 c
       | INT8 \<Rightarrow> deserialize_primitive E bswap_src 1 c
       | WCHAR \<Rightarrow> deserialize_primitive E bswap_src 2 c
       | UINT16 \<Rightarrow> deserialize_primitive E bswap_src 2 c
       | INT16 \<Rightarrow> deserialize_primitive E bswap_src 2 c
       | UINT32 \<Rightarrow> deserialize_primitive E bswap_src 4 c
       | INT32 \<Rightarrow> deserialize_primitive E bswap_src 4 c
       | FLOAT \<Rightarrow> deserialize_primitive E bswap_src 4 c
       | UINT64 \<Rightarrow> deserialize_primitive E bswap_src 8 c
       | INT64 \<Rightarrow> deserialize_primitive E bswap_src 8 c
       | DOUBLE \<Rightarrow> deserialize_primitive E bswap_src 8 c
       | _ \<Rightarrow> Inl (UB ''unreachable''))
       (\<lambda>(bs, c). Inr (LPrim (in_order E bs), c))"

text \<open>The bytes of a string up to its terminator, as \<open>extractkey\<close> and \<open>print\<close> read them too.\<close>

definition read_u8string :: "endian \<Rightarrow> bool \<Rightarrow> deserialize_cursor \<Rightarrow> (u8 list \<times> deserialize_cursor) result" where
  "read_u8string E bswap_src c =
     rbind (deserialize_u32 E bswap_src c) (\<lambda>(size, c).
     if size = 0 then Inl (RuntimeError ''CDR deserialization: size-0 string'')
     else rbind (dc_advance size c) (\<lambda>(srcdata, c).
       if srcdata ! (size - 1) \<noteq> 0 then Inl (RuntimeError ''CDR deserialization: unterminated string'')
       else Inr (take (size - 1) srcdata, c)))"

definition deserialize_u8string :: "endian \<Rightarrow> bool \<Rightarrow> deserialize_cursor \<Rightarrow> (lobj \<times> deserialize_cursor) result" where
  "deserialize_u8string E bswap_src c =
     rbind (read_u8string E bswap_src c) (\<lambda>(srcslice, c). Inr (LStr srcslice, c))"

text \<open>Bytes read as an array of \<open>char16_t\<close>.\<close>

fun u16_units :: "endian \<Rightarrow> u8 list \<Rightarrow> u16 list" where
  "u16_units E (a # b # bs) = bytes_word E [a, b] # u16_units E bs"
| "u16_units E _ = []"

definition deserialize_u16string :: "endian \<Rightarrow> bool \<Rightarrow> deserialize_cursor \<Rightarrow> (lobj \<times> deserialize_cursor) result" where
  "deserialize_u16string E bswap_src c =
     rbind (deserialize_u32 E bswap_src c) (\<lambda>(size, c).
     if size mod 2 \<noteq> 0 then Inl (RuntimeError ''CDR deserialization: odd number of bytes in wstring'')
     else rbind (dc_advance size c) (\<lambda>(srcdata, c).
       let units = u16_units E srcdata in
       Inr (LWStr (if bswap_src then map bswap16 units else units), c)))"

definition deserialize_boolvector :: "endian \<Rightarrow> bool \<Rightarrow> deserialize_cursor \<Rightarrow> (lobj \<times> deserialize_cursor) result" where
  "deserialize_boolvector E bswap_src c =
     rbind (deserialize_u32 E bswap_src c) (\<lambda>(count, c).
     rbind (dc_advance count c) (\<lambda>(srcdata, c).
     Inr (LBools (map (\<lambda>b. b \<noteq> 0) srcdata), c)))"

text \<open>\<open>de\<close> is \<open>deserialize(src, _, vt, what)\<close> into an element that holds the given value.\<close>

fun deserialize_each ::
  "(lobj \<Rightarrow> deserialize_cursor \<Rightarrow> (lobj \<times> deserialize_cursor) result) \<Rightarrow> lobj list \<Rightarrow> deserialize_cursor \<Rightarrow>
   (lobj list \<times> deserialize_cursor) result" where
  "deserialize_each de [] c = Inr ([], c)"
| "deserialize_each de (old # olds) c =
     rbind (de old c) (\<lambda>(x, c). rbind (deserialize_each de olds c) (\<lambda>(xs, c). Inr (x # xs, c)))"

definition deserialize_many ::
  "endian \<Rightarrow> bool \<Rightarrow> tsc \<Rightarrow> (lobj \<Rightarrow> deserialize_cursor \<Rightarrow> (lobj \<times> deserialize_cursor) result) \<Rightarrow> value_type \<Rightarrow>
   lobj list \<Rightarrow> deserialize_cursor \<Rightarrow> (lobj list \<times> deserialize_cursor) result" where
  "deserialize_many E bswap_src tsc de vt olds c =
     (case olds of
        [] \<Rightarrow> Inr ([], c)
      | old # olds \<Rightarrow>
          rbind (de old c) (\<lambda>(x, c).
          if olds = [] then Inr ([x], c)
          else rbind (sizeof_type vt) (\<lambda>value_size.
          rbind (if bswap_src then Inr False
                 else lookup_many_trivially_serialized tsc (dc_offset c) vt) (\<lambda>trivial.
          if trivial
          then rbind (dc_get_bytes (length olds * value_size) c) (\<lambda>(bs, c).
                 Inr (x # image_objs E vt value_size (length olds) bs, c))
          else rbind (deserialize_each de olds c) (\<lambda>(xs, c). Inr (x # xs, c))))))"

definition deserialize_AnyValueType ::
  "endian \<Rightarrow> bool \<Rightarrow> tsc \<Rightarrow> sample_or_key \<Rightarrow> value_type \<Rightarrow> deserialize_cursor \<Rightarrow>
   (lobj \<times> deserialize_cursor) result \<Rightarrow> (lobj \<times> deserialize_cursor) result" where
  "deserialize_AnyValueType E bswap_src tsc what vt c body =
     (if \<not> bswap_src \<and> what = Sample then
        rbind (lookup_trivially_serialized tsc (dc_offset c) vt) (\<lambda>trivial.
        if trivial
        then rbind (sizeof_type vt) (\<lambda>sz.
             rbind (dc_get_bytes sz c) (\<lambda>(bs, c). Inr (image_obj E vt bs, c)))
        else body)
      else body)"

lemma deserialize_each_cong [fundef_cong]:
  assumes "olds = olds'" "c = c'" "\<And>x d. de x d = de' x d"
  shows "deserialize_each de olds c = deserialize_each de' olds' c'"
proof -
  have "de = de'" using assms(3) by blast
  then show ?thesis using assms by simp
qed

lemma deserialize_many_cong [fundef_cong]:
  assumes "E = E'" "b = b'" "tsc = tsc'" "vt = vt'" "olds = olds'" "c = c'" "\<And>x d. de x d = de' x d"
  shows "deserialize_many E b tsc de vt olds c = deserialize_many E' b' tsc' de' vt' olds' c'"
proof -
  have "de = de'" using assms(7) by blast
  then show ?thesis using assms by simp
qed

fun deserialize ::
  "endian \<Rightarrow> bool \<Rightarrow> runtime \<Rightarrow> tsc \<Rightarrow> sample_or_key \<Rightarrow> value_type \<Rightarrow> lobj \<Rightarrow> deserialize_cursor \<Rightarrow>
   (lobj \<times> deserialize_cursor) result"
  and deserialize_members ::
  "endian \<Rightarrow> bool \<Rightarrow> runtime \<Rightarrow> tsc \<Rightarrow> sample_or_key \<Rightarrow> bool \<Rightarrow> member list \<Rightarrow> lobj list \<Rightarrow> deserialize_cursor \<Rightarrow>
   (lobj list \<times> deserialize_cursor) result"
where
  "deserialize E bs rt tsc what (PrimitiveValueType k) old c = deserialize_prim E bs k c"
| "deserialize E bs rt tsc what (U8StringValueType b sz) old c = deserialize_u8string E bs c"
| "deserialize E bs rt tsc what (U16StringValueType b sz) old c = deserialize_u16string E bs c"
| "deserialize E bs rt tsc what (ArrayValueType e n sc) old c =
     (case old of
        LArr olds \<Rightarrow>
          rbind (deserialize_many E bs tsc
            (\<lambda>old c. deserialize_AnyValueType E bs tsc what e c (deserialize E bs rt tsc what e old c)) e olds c)
            (\<lambda>(xs, c). Inr (LArr xs, c))
      | _ \<Rightarrow> Inl (UB ''object of another type''))"
| "deserialize E bs rt tsc what (SpanSequenceValueType k e b) old c =
     (case old of
        LSeq olds \<Rightarrow>
          rbind (deserialize_u32 E bs c) (\<lambda>(count, c).
          rbind (sequence_resize rt (SpanSequenceValueType k e b) count olds) (\<lambda>olds.
          rbind (deserialize_many E bs tsc
            (\<lambda>old c. deserialize_AnyValueType E bs tsc what e c (deserialize E bs rt tsc what e old c)) e olds c)
            (\<lambda>(xs, c). Inr (LSeq xs, c))))
      | _ \<Rightarrow> Inl (UB ''object of another type''))"
| "deserialize E bs rt tsc what (BoolVectorValueType b sz) old c = deserialize_boolvector E bs c"
| "deserialize E bs rt tsc what (StructValueType si ms) old c =
     (case old of
        LStruct olds \<Rightarrow>
          rbind (deserialize_members E bs rt tsc what (what \<noteq> Key \<or> \<not> m_has_keys si) ms olds c)
            (\<lambda>(xs, c). Inr (LStruct xs, c))
      | _ \<Rightarrow> Inl (UB ''object of another type''))"
| "deserialize_members E bs rt tsc what all_fields [] olds c = Inr ([], c)"
| "deserialize_members E bs rt tsc what all_fields (Member nm vt moff key # ms) (old # olds) c =
     rbind (if all_fields \<or> key
            then deserialize_AnyValueType E bs tsc what vt c (deserialize E bs rt tsc what vt old c)
            else Inr (old, c)) (\<lambda>(x, c).
     rbind (deserialize_members E bs rt tsc what all_fields ms olds c) (\<lambda>(xs, c). Inr (x # xs, c)))"
| "deserialize_members E bs rt tsc what all_fields (m # ms) [] c = Inl (UB ''object of another type'')"

text \<open>
  The destination of \<open>deserialize_top_level\<close>: for a request a \<open>cdds_request_wrapper_t\<close>, else just
  the data.  \<open>bswap(&request->header.seq)\<close> has an \<open>int64_t\<close> operand, for which \<open>bswap\<close> is its
  primary template: that does nothing.
\<close>

record top_object =
  top_guid :: u64
  top_seq :: u64
  top_data :: lobj

definition bswap_int64 :: "u64 \<Rightarrow> u64" where
  "bswap_int64 u = u"

definition read_header :: "deserialize_cursor \<Rightarrow> (u8 list \<times> deserialize_cursor) result" where
  "read_header c =
     rbind (dc_advance 4 c) (\<lambda>(hdr, c).
     let c = dc_rebase 4 c in
     if hdr ! 0 \<noteq> 0 \<or> 1 < hdr ! 1
     then Inl (RuntimeError ''CDR deserialization: unrecognized header'')
     else Inr (hdr, c))"

definition header_bswap :: "endian \<Rightarrow> u8 list \<Rightarrow> bool" where
  "header_bswap E hdr = ((hdr ! 1 = 0) = (E = little))"

definition deserialize_top_level ::
  "endian \<Rightarrow> runtime \<Rightarrow> tsc \<Rightarrow> value_type \<Rightarrow> sample_or_request \<Rightarrow> sample_or_key \<Rightarrow> top_object \<Rightarrow>
   deserialize_cursor \<Rightarrow> (top_object \<times> deserialize_cursor) result" where
  "deserialize_top_level E rt tsc root variant what dst c =
     rbind (read_header c) (\<lambda>(hdr, c).
     let bswap_src = header_bswap E hdr in
     rbind (if what = Sample \<and> variant = SRRequest
            then rbind (dc_get_bytes 8 c) (\<lambda>(guid, c).
                 rbind (dc_get_bytes 8 c) (\<lambda>(seq, c).
                 let guid = bytes_word E guid; seq = bytes_word E seq in
                 Inr (dst\<lparr>top_guid := (if bswap_src then bswap64 guid else guid),
                          top_seq := (if bswap_src then bswap_int64 seq else seq)\<rparr>, c)))
            else Inr (dst, c)) (\<lambda>(dst, c).
     rbind (if what = Sample \<or> has_keys root
            then rbind (deserialize_AnyValueType E bswap_src tsc what root c
                   (deserialize E bswap_src rt tsc what root (top_data dst) c))
                   (\<lambda>(x, c). Inr (dst\<lparr>top_data := x\<rparr>, c))
            else Inr (dst, c)) (\<lambda>(dst, c).
     Inr (dst, dc_rebase (-4) c))))"

record cdr_reader =
  rd_root_value_type :: value_type
  rd_tsc :: tsc
  rd_variant :: sample_or_request

definition make_cdr_reader :: "value_type \<Rightarrow> sample_or_request \<Rightarrow> cdr_reader result" where
  "make_cdr_reader root variant =
     rbind (TriviallySerializedCache root) (\<lambda>tsc.
     Inr \<lparr>rd_root_value_type = root, rd_tsc = tsc, rd_variant = variant\<rparr>)"

definition reader_deserialize ::
  "endian \<Rightarrow> runtime \<Rightarrow> cdr_reader \<Rightarrow> top_object \<Rightarrow> u8 list \<Rightarrow> sample_or_key \<Rightarrow> top_object result" where
  "reader_deserialize E rt r dst input what =
     (if what \<noteq> Key \<or> has_keys (rd_root_value_type r)
      then rbind (deserialize_top_level E rt (rd_tsc r) (rd_root_value_type r) (rd_variant r) what dst
             (DeserializeCursor input)) (\<lambda>(dst, c). Inr dst)
      else Inr dst)"

section \<open>Shapes, and what the callbacks promise\<close>

fun shaped :: "value_type \<Rightarrow> lobj \<Rightarrow> bool" where
  "shaped (PrimitiveValueType k) (LPrim bs) = True"
| "shaped (U8StringValueType b sz) (LStr s) = True"
| "shaped (U16StringValueType b sz) (LWStr s) = True"
| "shaped (StructValueType si ms) (LStruct os) = list_all2 (\<lambda>m. shaped (member_type m)) ms os"
| "shaped (ArrayValueType e n sc) (LArr os) = (length os = n \<and> list_all (shaped e) os)"
| "shaped (SpanSequenceValueType k e b) (LSeq os) = list_all (shaped e) os"
| "shaped (BoolVectorValueType b sz) (LBools bs) = True"
| "shaped vt obj = False"

text \<open>
  Resizing to \<open>n\<close> elements gives \<open>n\<close> elements of the element type, or an exception; within the
  bound it succeeds.
\<close>

definition resize_spec :: "runtime \<Rightarrow> bool" where
  "resize_spec rt \<longleftrightarrow>
     (\<forall>k e b n os. list_all (shaped e) os \<longrightarrow>
        (case sequence_resize rt (SpanSequenceValueType k e b) n os of
           Inl ex \<Rightarrow> b < n \<and> (\<forall>s. ex \<noteq> UB s)
         | Inr os' \<Rightarrow> length os' = n \<and> list_all (shaped e) os'))"

lemma resize_spec_ok:
  assumes "resize_spec rt" "list_all (shaped e) os" "n \<le> b"
  obtains os' where "sequence_resize rt (SpanSequenceValueType k e b) n os = Inr os'"
    "length os' = n" "list_all (shaped e) os'"
proof -
  have "case sequence_resize rt (SpanSequenceValueType k e b) n os of
      Inl ex \<Rightarrow> b < n \<and> (\<forall>s. ex \<noteq> UB s) | Inr os' \<Rightarrow> length os' = n \<and> list_all (shaped e) os'"
    using assms(1,2) unfolding resize_spec_def by blast
  then show ?thesis
    using assms(3) that by (cases "sequence_resize rt (SpanSequenceValueType k e b) n os") simp_all
qed

text \<open>A runtime that meets it: keep the elements there are, add default ones, refuse to exceed the bound.\<close>

fun default_obj :: "value_type \<Rightarrow> lobj" where
  "default_obj (PrimitiveValueType k) = LPrim (zeros (prim_cdrsizeof k))"
| "default_obj (U8StringValueType b sz) = LStr []"
| "default_obj (U16StringValueType b sz) = LWStr []"
| "default_obj (StructValueType si ms) = LStruct (map (\<lambda>m. default_obj (member_type m)) ms)"
| "default_obj (ArrayValueType e n sc) = LArr (replicate n (default_obj e))"
| "default_obj (SpanSequenceValueType k e b) = LSeq []"
| "default_obj (BoolVectorValueType b sz) = LBools []"

fun grow_to :: "value_type \<Rightarrow> nat \<Rightarrow> lobj list \<Rightarrow> lobj list option" where
  "grow_to (SpanSequenceValueType k e b) n os =
     (if b < n then None else Some (take n os @ replicate (n - length os) (default_obj e)))"
| "grow_to vt n os = None"

definition plain_runtime :: runtime where
  "plain_runtime =
     \<lparr>rt_resize = (\<lambda>vt n os. case grow_to vt n os of None \<Rightarrow> Inl (LengthError ''BoundedVector'') | Some os' \<Rightarrow> Inr os'),
      rt_resize_c = grow_to\<rparr>"

lemma shaped_default: "shaped vt (default_obj vt)"
  by (induction vt rule: default_obj.induct) (auto simp: list_all2_conv_all_nth list_all_iff)

lemma grow_to_shaped:
  assumes "list_all (shaped e) os" "grow_to (SpanSequenceValueType k e b) n os = Some os'"
  shows "length os' = n" "list_all (shaped e) os'"
proof -
  have os': "os' = take n os @ replicate (n - length os) (default_obj e)"
    using assms(2) by (simp split: if_splits)
  then show "length os' = n" by simp
  show "list_all (shaped e) os'"
    using assms(1) in_set_takeD [of _ n os] by (auto simp: os' list_all_iff shaped_default)
qed

lemma plain_runtime_resize: "resize_spec plain_runtime"
  unfolding resize_spec_def
proof (intro allI impI)
  fix k e b n os assume os: "list_all (shaped e) os"
  note g = grow_to_shaped [OF os, of k b n]
  show "case sequence_resize plain_runtime (SpanSequenceValueType k e b) n os of
      Inl ex \<Rightarrow> b < n \<and> (\<forall>s. ex \<noteq> UB s) | Inr os' \<Rightarrow> length os' = n \<and> list_all (shaped e) os'"
  proof (cases "b < n")
    case True
    then show ?thesis by (cases k) (simp_all add: sequence_resize_def plain_runtime_def)
  next
    case False
    then obtain os' where os': "grow_to (SpanSequenceValueType k e b) n os = Some os'" by simp
    then have "sequence_resize plain_runtime (SpanSequenceValueType k e b) n os = Inr os'"
      by (cases k) (simp_all add: sequence_resize_def plain_runtime_def del: grow_to.simps)
    then show ?thesis using g [OF os'] by simp
  qed
qed

section \<open>Representation of trivially serialized values\<close>

lemma triv_length_members:
  assumes "\<And>mem off obj. mem \<in> set ms \<Longrightarrow> triv off (member_type mem) \<Longrightarrow> fits (member_type mem) obj \<Longrightarrow>
      length (cdr E Sample (member_type mem) obj off) = szof (member_type mem)"
  shows "mtriv off rel ms sz \<Longrightarrow> list_all2 (\<lambda>m. fits (member_type m)) ms os \<Longrightarrow>
      rel + length (cdr_members E Sample True ms os (off + rel)) = sz"
  using assms
proof (induction ms arbitrary: rel os)
  case Nil
  then show ?case by simp
next
  case (Cons mem ms)
  obtain nm vt moff key where mem: "mem = Member nm vt moff key" by (cases mem)
  from Cons.prems(2) obtain x os' where os: "os = x # os'" "fits vt x" "list_all2 (\<lambda>m. fits (member_type m)) ms os'"
    by (cases os) (auto simp: mem)
  have "length (cdr E Sample vt x (off + rel)) = szof vt"
    using Cons.prems(1) Cons.prems(3) [of mem "off + rel" x] os mem by simp
  moreover have "rel + szof vt + length (cdr_members E Sample True ms os' (off + (rel + szof vt))) = sz"
    using Cons.IH [of "rel + szof vt" os'] Cons.prems(1,3) os mem by simp
  ultimately show ?case by (simp add: mem os Let_def add.assoc)
qed

lemma length_cdr_list:
  assumes "\<And>j x. x \<in> set xs \<Longrightarrow> length (f x (off + j * s)) = s"
  shows "length (cdr_list f xs (off + j * s)) = length xs * s"
  using assms
proof (induction xs arbitrary: j)
  case Nil
  then show ?case by simp
next
  case (Cons x xs)
  have "length (cdr_list f xs (off + Suc j * s)) = length xs * s" by (rule Cons.IH) (simp add: Cons.prems)
  then show ?case using Cons.prems [of x j] by (simp add: Let_def ac_simps)
qed

lemma triv_length:
  "triv off vt \<Longrightarrow> fits vt obj \<Longrightarrow> length (cdr E Sample vt obj off) = szof vt"
proof (induction vt arbitrary: off obj rule: subtypes.induct)
  case (1 si ms)
  then obtain os where os: "obj = LStruct os" "list_all2 (\<lambda>m. fits (member_type m)) ms os"
    by (cases obj) auto
  from triv_length_members [OF _ _ os(2), of E off 0 "size_of si"] "1.IH" "1.prems"(1) os
  show ?case by (simp add: szof_def)
next
  case (2 e n sc)
  then obtain os where os: "obj = LArr os" "length os = n" "\<forall>x \<in> set os. fits e x"
    by (cases obj) (auto simp: list_all_iff)
  from "2.prems"(1) obtain s where s: "sizeof_type e = Inr s" using triv_sizeof by fastforce
  have t: "triv (off + j * s) e" for j
    using "2.prems"(1) many_triv_progression [of off e j] s by (simp add: many_triv_def)
  have "length (cdr E Sample e x (off + j * s)) = s" if "x \<in> set os" for x j
    using "2.IH" [OF t] os(3) s that by simp
  then have "length (cdr_list (cdr E Sample e) os (off + 0 * s)) = length os * s"
    by (rule length_cdr_list)
  then show ?case using os s by (simp add: szof_def)
next
  case (4 k)
  then obtain bs where "obj = LPrim bs" by (cases obj) auto
  then show ?case using 4 by (simp add: padding_zero prim_sizes(1))
qed auto

lemma mem_read_split:
  assumes "mem_read m a n = xs @ ys"
  shows "mem_read m a (length xs) = xs" "mem_read m (a + length xs) (length ys) = ys"
proof -
  have "n = length xs + length ys" using arg_cong [OF assms, of length] by simp
  then have "mem_read m a (length xs) @ mem_read m (a + length xs) (length ys) = xs @ ys"
    using assms mem_read_add [of m a "length xs" "length ys"] by simp
  then show "mem_read m a (length xs) = xs" "mem_read m (a + length xs) (length ys) = ys"
    by (simp_all add: append_eq_append_conv)
qed

lemma image_members:
  assumes "\<And>mem off obj a. mem \<in> set ms \<Longrightarrow> triv off (member_type mem) \<Longrightarrow> fits (member_type mem) obj \<Longrightarrow>
      mem_read m a (szof (member_type mem)) = cdr E Sample (member_type mem) obj off \<Longrightarrow>
      read_obj E m a (member_type mem) = obj"
  shows "mtriv off rel ms sz \<Longrightarrow> list_all2 (\<lambda>m. fits (member_type m)) ms os \<Longrightarrow>
      mem_read m (a + rel) n = cdr_members E Sample True ms os (off + rel) \<Longrightarrow>
      map (\<lambda>mem. read_obj E m (a + member_offset mem) (member_type mem)) ms = os"
  using assms
proof (induction ms arbitrary: rel os n)
  case Nil
  then show ?case by simp
next
  case (Cons mem ms)
  obtain nm vt moff key where mem: "mem = Member nm vt moff key" by (cases mem)
  from Cons.prems(2) obtain x os' where os: "os = x # os'" "fits vt x" "list_all2 (\<lambda>m. fits (member_type m)) ms os'"
    by (cases os) (auto simp: mem)
  have t: "moff = rel" "triv (off + rel) vt" "mtriv off (rel + szof vt) ms sz" using Cons.prems(1) by (auto simp: mem)
  have len: "length (cdr E Sample vt x (off + rel)) = szof vt" by (rule triv_length [OF t(2) os(2)])
  let ?r = "cdr_members E Sample True ms os' (off + (rel + szof vt))"
  have "mem_read m (a + rel) n = cdr E Sample vt x (off + rel) @ ?r"
    using Cons.prems(3) len by (simp add: mem os Let_def add.assoc)
  note split = mem_read_split [OF this, unfolded len]
  have "read_obj E m (a + rel) vt = x"
    using Cons.prems(4) [of mem "off + rel" x "a + rel"] t(2) os(2) split(1) mem by simp
  moreover have "map (\<lambda>mem. read_obj E m (a + member_offset mem) (member_type mem)) ms = os'"
    by (rule Cons.IH [OF t(3) os(3)]) (use split(2) Cons.prems(4) in \<open>simp_all add: add.assoc\<close>)
  ultimately show ?case by (simp add: mem os t(1))
qed

lemma image_list:
  assumes "\<And>x a k. x \<in> set xs \<Longrightarrow> length (f x (off + k * s)) = s \<and>
      (mem_read m a s = f x (off + k * s) \<longrightarrow> g a = x)"
  shows "mem_read m a n = cdr_list f xs (off + j * s) \<Longrightarrow> map (\<lambda>i. g (a + i * s)) [0..<length xs] = xs"
  using assms
proof (induction xs arbitrary: a j n)
  case Nil
  then show ?case by simp
next
  case (Cons x xs)
  have len: "length (f x (off + j * s)) = s" using Cons.prems(2) by simp
  then have "mem_read m a n = f x (off + j * s) @ cdr_list f xs (off + Suc j * s)"
    using Cons.prems(1) by (simp add: Let_def ac_simps)
  note split = mem_read_split [OF this, unfolded len]
  have "g a = x" using Cons.prems(2) [of x j a] split(1) by simp
  moreover have "map (\<lambda>i. g (a + s + i * s)) [0..<length xs] = xs"
    by (rule Cons.IH [OF split(2)]) (simp add: Cons.prems(2))
  ultimately show ?case
    by (simp add: upt_rec [of 0] map_Suc_upt [symmetric] comp_def ac_simps del: upt_Suc)
qed

lemma triv_image:
  "triv off vt \<Longrightarrow> fits vt obj \<Longrightarrow> mem_read m a (szof vt) = cdr E Sample vt obj off \<Longrightarrow> read_obj E m a vt = obj"
proof (induction vt arbitrary: off obj a rule: subtypes.induct)
  case (1 si ms)
  then obtain os where os: "obj = LStruct os" "list_all2 (\<lambda>m. fits (member_type m)) ms os"
    by (cases obj) auto
  have "map (\<lambda>mem. read_obj E m (a + member_offset mem) (member_type mem)) ms = os"
    using image_members [of ms m E off 0 "size_of si" os a] "1.IH" "1.prems" os by simp
  then show ?case by (simp add: os)
next
  case (2 e n sc)
  then obtain os where os: "obj = LArr os" "length os = n" "\<forall>x \<in> set os. fits e x"
    by (cases obj) (auto simp: list_all_iff)
  have t: "triv (off + k * szof e) e" for k
    using "2.prems"(1) by (intro many_triv_progression) (simp add: many_triv_def)
  have "map (\<lambda>i. read_obj E m (a + i * szof e) e) [0..<length os] = os"
  proof (rule image_list [where f = "cdr E Sample e" and off = off and j = 0])
    show "mem_read m a (szof (ArrayValueType e n sc)) = cdr_list (cdr E Sample e) os (off + 0 * szof e)"
      using "2.prems"(3) by (simp add: os(1))
  next
    fix x a k assume "x \<in> set os"
    then show "length (cdr E Sample e x (off + k * szof e)) = szof e \<and>
        (mem_read m a (szof e) = cdr E Sample e x (off + k * szof e) \<longrightarrow> read_obj E m a e = x)"
      using triv_length [OF t] "2.IH" [OF t] os(3) by blast
  qed
  then show ?case by (simp add: os)
next
  case (4 k)
  then obtain bs where "obj = LPrim bs" by (cases obj) auto
  then show ?case using 4 by (simp add: padding_zero prim_sizes(1))
qed auto

lemma mem_read_memory_of: "mem_read (memory_of bs) 0 (length bs) = bs"
  by (rule nth_equalityI) (simp_all add: mem_read_def memory_of_def)

lemma image_obj_cdr:
  assumes "triv off vt" "fits vt obj"
  shows "image_obj E vt (cdr E Sample vt obj off) = obj"
  unfolding image_obj_def
  by (rule triv_image [OF assms]) (metis mem_read_memory_of triv_length [OF assms])

lemma image_objs_cdr:
  assumes "many_triv off e" "\<forall>x \<in> set xs. fits e x"
  shows "image_objs E e (szof e) (length xs) (cdr_list (cdr E Sample e) xs off) = xs"
    and "length (cdr_list (cdr E Sample e) xs off) = length xs * szof e"
proof -
  have el: "length (cdr E Sample e x (off + k * szof e)) = szof e \<and>
      (mem_read m a (szof e) = cdr E Sample e x (off + k * szof e) \<longrightarrow> read_obj E m a e = x)"
    if "x \<in> set xs" for x m a k
    using triv_length [OF many_triv_progression [OF assms(1)]]
      triv_image [OF many_triv_progression [OF assms(1)]] assms(2) that by blast
  have "map (\<lambda>i. read_obj E (memory_of (cdr_list (cdr E Sample e) xs off)) (0 + i * szof e) e) [0..<length xs] = xs"
  proof (rule image_list [where f = "cdr E Sample e" and off = off and j = 0])
    show "mem_read (memory_of (cdr_list (cdr E Sample e) xs off)) 0 (length (cdr_list (cdr E Sample e) xs off))
        = cdr_list (cdr E Sample e) xs (off + 0 * szof e)" by (simp add: mem_read_memory_of)
  qed (rule el)
  then show "image_objs E e (szof e) (length xs) (cdr_list (cdr E Sample e) xs off) = xs"
    by (simp add: image_objs_def)
  show "length (cdr_list (cdr E Sample e) xs off) = length xs * szof e"
    using length_cdr_list [where xs = xs and f = "cdr E Sample e" and off = off and s = "szof e" and j = 0]
      el by simp
qed

end
