(* ===== verification/CdrDecode.thy ===== *)
theory CdrDecode
  imports CdrReader
begin

text \<open>
  Deserialization inverts the encoding: a cursor in front of the encoding of a value reads that
  value back and ends behind it, on a machine of either byte order.  In key mode the members that
  are not keys keep what the destination held.
\<close>

section \<open>Leaves\<close>

lemma bytes_word_in_order: "bytes_word E (word_bytes T 4 w) = (if E \<noteq> T then bswap32 w else (w :: u32))"
proof (cases "E = T")
  case True
  then show ?thesis by (simp add: bytes_word_word_bytes)
next
  case False
  have "bswap32 (bytes_word T (word_bytes T 4 w)) = bytes_word E (word_bytes T 4 w :: u8 list)"
    using False by (intro bswap32_bytes_word) auto
  then show ?thesis using False by (simp add: bytes_word_word_bytes)
qed

lemma bswap32_bswap32 [simp]: "bswap32 (bswap32 w) = w"
  by (rule word_eq_if_le_bytes_eq [where n = 4]) (simp_all add: le_bytes_bswap32)

lemma bswap16_bswap16 [simp]: "bswap16 (bswap16 w) = w"
  by (rule word_eq_if_le_bytes_eq [where n = 2]) (simp_all add: le_bytes_bswap16)

lemma deserialize_u32_step:
  assumes "dc_rest c = cdr_u32 T n off @ rest" "dc_offset c mod 8 = off mod 8" "n \<le> UINT32_MAX"
  shows "deserialize_u32 E (E \<noteq> T) c = Inr (n, dc_step (cdr_u32 T n off) c)"
proof -
  let ?z = "zeros (padding 4 off)" and ?w = "word_bytes T 4 (of_nat n :: u32)"
  have r: "dc_rest c = ?z @ (?w @ rest)" using assms(1) by (simp add: cdr_u32_def)
  have al: "dc_align 4 c = Inr (dc_step ?z c)" by (rule dc_align_step [OF r _ _ assms(2)]) simp_all
  have ad: "dc_advance 4 (dc_step ?z c) = Inr (?w, dc_step ?w (dc_step ?z c))"
    by (rule dc_advance_step [OF dc_rest_step [OF r]]) simp
  have "unat (of_nat n :: u32) = n" using assms(3) by (simp add: unat_of_nat)
  then show ?thesis
    by (simp add: deserialize_u32_def al ad bytes_word_in_order Let_def cdr_u32_def dc_step_append)
qed

lemma deserialize_primitive_step:
  assumes "dc_rest c = zeros (padding n off) @ in_order T bs @ rest" "dc_offset c mod 8 = off mod 8"
    and "length bs = n" "n \<in> {1, 2, 4, 8}"
  shows "deserialize_primitive E (E \<noteq> T) n c
    = Inr (in_order E bs, dc_step (zeros (padding n off) @ in_order T bs) c)"
proof -
  let ?z = "zeros (padding n off)"
  have "0 < n" "n dvd 8" using assms(4) by auto
  then have al: "dc_align n c = Inr (dc_step ?z c)" by (rule dc_align_step [OF assms(1) _ _ assms(2)])
  have ad: "dc_advance n (dc_step ?z c) = Inr (in_order T bs, dc_step (in_order T bs) (dc_step ?z c))"
    by (rule dc_advance_step [OF dc_rest_step [OF assms(1)]]) (simp add: assms(3))
  have "bswapN E n (in_order T bs) = rev (in_order T bs)" using assms(3,4) by (intro bswapN_rev) auto
  then have "(if E \<noteq> T then bswapN E n (in_order T bs) else in_order T bs) = in_order E bs"
    using in_order_other [of E T bs] by auto
  then show ?thesis by (simp add: deserialize_primitive_def al ad dc_step_append)
qed

lemma deserialize_prim_step:
  assumes "is_primitive_kind k" "dc_rest c = cdr T w (PrimitiveValueType k) (LPrim bs) off @ rest"
    and "dc_offset c mod 8 = off mod 8" "length bs = prim_cdrsizeof k"
  shows "deserialize_prim E (E \<noteq> T) k c = Inr (LPrim bs, dc_step (cdr T w (PrimitiveValueType k) (LPrim bs) off) c)"
proof -
  have "deserialize_prim E (E \<noteq> T) k c
      = rbind (deserialize_primitive E (E \<noteq> T) (prim_cdrsizeof k) c) (\<lambda>(bs, c). Inr (LPrim (in_order E bs), c))"
    using assms(1) by (cases k) (simp_all add: deserialize_prim_def is_primitive_kind_def)
  then show ?thesis
    using deserialize_primitive_step [OF _ assms(3,4) prim_sizes(2) [OF assms(1)]] assms(2)
    by (simp add: prim_cdralignof_def)
qed

lemma read_u8string_step:
  assumes "dc_rest c = (cdr_u32 T (length s + 1) off @ s @ [0]) @ rest" "dc_offset c mod 8 = off mod 8"
    and "length s < UINT32_MAX"
  shows "read_u8string E (E \<noteq> T) c = Inr (s, dc_step (cdr_u32 T (length s + 1) off @ s @ [0]) c)"
proof -
  let ?u = "cdr_u32 T (length s + 1) off"
  have r: "dc_rest c = ?u @ ((s @ [0]) @ rest)" using assms(1) by simp
  have u: "deserialize_u32 E (E \<noteq> T) c = Inr (length s + 1, dc_step ?u c)"
    by (rule deserialize_u32_step [OF r assms(2)]) (use assms(3) in simp)
  have ad: "dc_advance (length s + 1) (dc_step ?u c) = Inr (s @ [0], dc_step (s @ [0]) (dc_step ?u c))"
    by (rule dc_advance_step [OF dc_rest_step [OF r]]) simp
  show ?thesis by (simp add: read_u8string_def u ad [simplified] nth_append dc_step_append)
qed

lemma u16_units_bytes: "u16_units E (u16s_bytes T ws) = map (\<lambda>w. if E \<noteq> T then bswap16 w else w) ws"
proof (induction ws)
  case Nil
  then show ?case by (simp add: u16s_bytes_def)
next
  case (Cons w ws)
  have "length (word_bytes T 2 w) = Suc (Suc 0)" by simp
  then obtain a b where ab: "word_bytes T 2 w = [a, b]" unfolding length_Suc_conv length_0_conv by blast
  have "bytes_word E [a, b] = (if E \<noteq> T then bswap16 w else w)"
  proof (cases "E = T")
    case True
    then show ?thesis using bytes_word_word_bytes [of 2 T w] ab by simp
  next
    case False
    have "bswap16 (bytes_word T [a, b]) = bytes_word E [a, b]" by (rule bswap16_bytes_word) (use False in auto)
    then show ?thesis using bytes_word_word_bytes [of 2 T w] ab False by simp
  qed
  then show ?case using Cons by (simp add: u16s_bytes_def ab)
qed

lemma deserialize_u16string_step:
  assumes "dc_rest c = (cdr_u32 T (2 * length s) off @ u16s_bytes T s) @ rest" "dc_offset c mod 8 = off mod 8"
    and "2 * length s \<le> UINT32_MAX"
  shows "deserialize_u16string E (E \<noteq> T) c = Inr (LWStr s, dc_step (cdr_u32 T (2 * length s) off @ u16s_bytes T s) c)"
proof -
  let ?u = "cdr_u32 T (2 * length s) off"
  have r: "dc_rest c = ?u @ (u16s_bytes T s @ rest)" using assms(1) by simp
  have u: "deserialize_u32 E (E \<noteq> T) c = Inr (2 * length s, dc_step ?u c)"
    by (rule deserialize_u32_step [OF r assms(2,3)])
  have ad: "dc_advance (2 * length s) (dc_step ?u c) = Inr (u16s_bytes T s, dc_step (u16s_bytes T s) (dc_step ?u c))"
    by (rule dc_advance_step [OF dc_rest_step [OF r]]) simp
  show ?thesis
    by (simp add: deserialize_u16string_def u ad Let_def u16_units_bytes comp_def dc_step_append)
qed

lemma deserialize_boolvector_step:
  assumes "dc_rest c = (cdr_u32 T (length bs) off @ map bool_byte bs) @ rest" "dc_offset c mod 8 = off mod 8"
    and "length bs \<le> UINT32_MAX"
  shows "deserialize_boolvector E (E \<noteq> T) c = Inr (LBools bs, dc_step (cdr_u32 T (length bs) off @ map bool_byte bs) c)"
proof -
  let ?u = "cdr_u32 T (length bs) off"
  have r: "dc_rest c = ?u @ (map bool_byte bs @ rest)" using assms(1) by simp
  have u: "deserialize_u32 E (E \<noteq> T) c = Inr (length bs, dc_step ?u c)"
    by (rule deserialize_u32_step [OF r assms(2,3)])
  have ad: "dc_advance (length bs) (dc_step ?u c) = Inr (map bool_byte bs, dc_step (map bool_byte bs) (dc_step ?u c))"
    by (rule dc_advance_step [OF dc_rest_step [OF r]]) simp
  have "map ((\<lambda>b. b \<noteq> 0) \<circ> bool_byte) bs = bs" by (induction bs) (auto simp: bool_byte_def)
  then show ?thesis by (simp add: deserialize_boolvector_def u ad dc_step_append)
qed

section \<open>The value the destination ends with\<close>

fun key_merge :: "value_type \<Rightarrow> lobj \<Rightarrow> lobj \<Rightarrow> lobj"
  and key_merge_members :: "bool \<Rightarrow> member list \<Rightarrow> lobj list \<Rightarrow> lobj list \<Rightarrow> lobj list"
where
  "key_merge (StructValueType si ms) (LStruct os) (LStruct olds) =
     LStruct (key_merge_members (\<not> m_has_keys si) ms os olds)"
| "key_merge vt obj old = obj"
| "key_merge_members all_fields (Member nm vt moff key # ms) (x # xs) (old # olds) =
     (if all_fields \<or> key then key_merge vt x old else old) # key_merge_members all_fields ms xs olds"
| "key_merge_members all_fields ms xs olds = []"

definition merge :: "sample_or_key \<Rightarrow> value_type \<Rightarrow> lobj \<Rightarrow> lobj \<Rightarrow> lobj" where
  "merge what vt obj old = (if what = Sample then obj else key_merge vt obj old)"

lemma key_merge_keyless_members:
  assumes "\<And>mem x old. mem \<in> set ms \<Longrightarrow> fits (member_type mem) x \<Longrightarrow> shaped (member_type mem) old \<Longrightarrow>
      key_merge (member_type mem) x old = x"
  shows "list_all2 (\<lambda>m. fits (member_type m)) ms xs \<Longrightarrow> list_all2 (\<lambda>m. shaped (member_type m)) ms olds \<Longrightarrow>
      key_merge_members True ms xs olds = xs"
  using assms
proof (induction ms arbitrary: xs olds)
  case Nil
  then show ?case by simp
next
  case (Cons mem ms)
  obtain nm vt moff key where mem: "mem = Member nm vt moff key" by (cases mem)
  obtain x xs' where xs: "xs = x # xs'" "fits vt x" "list_all2 (\<lambda>m. fits (member_type m)) ms xs'"
    using Cons.prems(1) by (cases xs) (auto simp: mem)
  obtain old olds' where olds: "olds = old # olds'" "shaped vt old"
    "list_all2 (\<lambda>m. shaped (member_type m)) ms olds'"
    using Cons.prems(2) by (cases olds) (auto simp: mem)
  have "key_merge vt x old = x" using Cons.prems(3) [of mem x old] xs olds mem by simp
  then show ?case using Cons.IH [OF xs(3) olds(3)] Cons.prems(3) by (simp add: mem xs(1) olds(1))
qed

lemma key_merge_keyless:
  "keyless vt \<Longrightarrow> fits vt obj \<Longrightarrow> shaped vt old \<Longrightarrow> key_merge vt obj old = obj"
proof (induction vt arbitrary: obj old rule: subtypes.induct)
  case (1 si ms)
  obtain os where os: "obj = LStruct os" "list_all2 (\<lambda>m. fits (member_type m)) ms os"
    using "1.prems"(2) by (cases obj) auto
  obtain olds where olds: "old = LStruct olds" "list_all2 (\<lambda>m. shaped (member_type m)) ms olds"
    using "1.prems"(3) by (cases old) auto
  have "key_merge_members True ms os olds = os"
    by (rule key_merge_keyless_members [OF _ os(2) olds(2)]) (use "1.IH" "1.prems"(1) in auto)
  then show ?case using os olds "1.prems"(1) by simp
qed simp_all

lemma merge_keyless:
  "w = Sample \<or> keyless vt \<Longrightarrow> fits vt obj \<Longrightarrow> shaped vt old \<Longrightarrow> merge w vt obj old = obj"
  by (auto simp: merge_def key_merge_keyless)

section \<open>Deserialization inverts the encoding\<close>

lemma deserialize_each_step:
  assumes "\<And>x old c off rest. x \<in> set xs \<Longrightarrow> P old \<Longrightarrow> dc_rest c = f x off @ rest \<Longrightarrow>
      dc_offset c mod 8 = off mod 8 \<Longrightarrow> de old c = Inr (x, dc_step (f x off) c)"
  shows "length olds = length xs \<Longrightarrow> list_all P olds \<Longrightarrow> dc_rest c = cdr_list f xs off @ rest \<Longrightarrow>
      dc_offset c mod 8 = off mod 8 \<Longrightarrow>
      deserialize_each de olds c = Inr (xs, dc_step (cdr_list f xs off) c)"
  using assms
proof (induction xs arbitrary: olds c off)
  case Nil
  then show ?case by simp
next
  case (Cons x xs)
  then obtain old olds' where olds: "olds = old # olds'" "P old" "list_all P olds'" "length olds' = length xs"
    by (cases olds) auto
  let ?e = "f x off"
  have r: "dc_rest c = ?e @ (cdr_list f xs (off + length ?e) @ rest)"
    using Cons.prems(3) by (simp add: Let_def)
  have de: "de old c = Inr (x, dc_step ?e c)" by (rule Cons.prems(5) [OF _ olds(2) r Cons.prems(4)]) simp
  have off: "dc_offset (dc_step ?e c) mod 8 = (off + length ?e) mod 8"
    using dc_offset_step [of ?e c] Cons.prems(4) by (metis mod_add_left_eq)
  have "deserialize_each de olds' (dc_step ?e c)
      = Inr (xs, dc_step (cdr_list f xs (off + length ?e)) (dc_step ?e c))"
    by (rule Cons.IH [OF olds(4,3) dc_rest_step [OF r] off]) (rule Cons.prems(5), simp_all)
  then show ?case by (simp add: olds(1) de Let_def dc_step_append)
qed

lemma deserialize_many_step:
  assumes de: "\<And>x old c off rest. x \<in> set xs \<Longrightarrow> shaped e old \<Longrightarrow> dc_rest c = cdr T w e x off @ rest \<Longrightarrow>
      dc_offset c mod 8 = off mod 8 \<Longrightarrow> de old c = Inr (x, dc_step (cdr T w e x off) c)"
    and "length olds = length xs" "list_all (shaped e) olds" "\<forall>x \<in> set xs. fits e x"
    and "dc_rest c = cdr_list (cdr T w e) xs off @ rest" "dc_offset c mod 8 = off mod 8"
    and "tsc_complete tsc e" "sizeof_type e = Inr s" "w = Sample \<or> keyless e"
  shows "deserialize_many E (E \<noteq> T) tsc de e olds c = Inr (xs, dc_step (cdr_list (cdr T w e) xs off) c)"
proof (cases xs)
  case Nil
  then show ?thesis using assms(2) by (simp add: deserialize_many_def)
next
  case (Cons x ys)
  then obtain old olds' where olds: "olds = old # olds'" "shaped e old" "list_all (shaped e) olds'" "length olds' = length ys"
    using assms(2,3) by (cases olds) auto
  let ?e = "cdr T w e x off"
  let ?o = "off + length ?e"
  let ?l = "cdr_list (cdr T w e) ys ?o"
  have r: "dc_rest c = ?e @ (?l @ rest)" using assms(5) Cons by (simp add: Let_def)
  have one: "de old c = Inr (x, dc_step ?e c)" by (rule de [OF _ olds(2) r assms(6)]) (simp add: Cons)
  have off: "dc_offset (dc_step ?e c) mod 8 = ?o mod 8"
    using dc_offset_step [of ?e c] assms(6) by (metis mod_add_left_eq)
  have each: "deserialize_each de olds' (dc_step ?e c) = Inr (ys, dc_step ?l (dc_step ?e c))"
    by (rule deserialize_each_step [OF _ olds(4,3) dc_rest_step [OF r] off]) (rule de, simp_all add: Cons)
  have short: "dc_get_bytes (length olds' * s) (dc_step ?e c) = Inr (?l, dc_step ?l (dc_step ?e c)) \<and>
      image_objs E e s (length olds') ?l = ys"
    if m: "many_triv (dc_offset (dc_step ?e c)) e" and ET: "E = T"
  proof -
    have key: "cdr E w e y a = cdr E Sample e y a" for y a using assms(9) cdr_keyless(1) by blast
    let ?d = "dc_offset (dc_step ?e c)"
    have "?l = cdr_list (cdr E w e) ys ?d"
      unfolding ET [symmetric] by (rule cdr_list_off [OF cdr_off(1) off [symmetric, unfolded ET [symmetric]]])
    also have "\<dots> = cdr_list (cdr E Sample e) ys ?d" by (rule cdr_list_cong) (simp_all add: key)
    finally have l: "?l = cdr_list (cdr E Sample e) ys ?d" .
    have fits: "\<forall>x \<in> set ys. fits e x" using assms(4) Cons by simp
    have "length ?l = length olds' * s" "image_objs E e s (length olds') ?l = ys"
      unfolding l using image_objs_cdr [OF m fits, of E] assms(8) olds(4) by simp_all
    then show ?thesis using dc_advance_step [OF dc_rest_step [OF r]] by simp
  qed
  have "(olds' = []) = (ys = [])" using olds(4) by auto
  then show ?thesis
    using one each short olds(4) assms(8) lookup_many_complete [OF assms(7) self_subtype, of "dc_offset (dc_step ?e c)"]
    by (cases "ys = []"; cases "E = T"; cases "many_triv (dc_offset (dc_step ?e c)) e")
      (simp_all add: deserialize_many_def olds(1) Cons Let_def dc_step_append)
qed

lemma deserialize_any_step:
  assumes "tsc_complete tsc vt" "fits vt obj" "dc_rest c = cdr T w vt obj off @ rest"
    and "dc_offset c mod 8 = off mod 8"
    and "body = Inr (merge w vt obj old, dc_step (cdr T w vt obj off) c)"
  shows "deserialize_AnyValueType E (E \<noteq> T) tsc w vt c body = Inr (merge w vt obj old, dc_step (cdr T w vt obj off) c)"
proof -
  have short: "rbind (sizeof_type vt) (\<lambda>sz. rbind (dc_get_bytes sz c) (\<lambda>(bs, c). Inr (image_obj E vt bs, c)))
      = Inr (obj, dc_step (cdr T w vt obj off) c)"
    if t: "triv (dc_offset c) vt" and ET: "E = T" "w = Sample"
  proof -
    obtain s where s: "sizeof_type vt = Inr s" using triv_sizeof [OF t] by blast
    have e: "cdr T w vt obj off = cdr E Sample vt obj (dc_offset c)"
      using ET cdr_off(1) [OF assms(4)] by simp
    have "length (cdr T w vt obj off) = s" using triv_length [OF t assms(2)] s e by simp
    then show ?thesis
      using dc_advance_step [OF assms(3)] image_obj_cdr [OF t assms(2)] e by (simp add: s)
  qed
  show ?thesis
    using assms(5) short lookup_complete [OF assms(1) self_subtype, of "dc_offset c"]
    by (cases "E = T"; cases w; cases "triv (dc_offset c) vt")
      (simp_all add: deserialize_AnyValueType_def merge_def)
qed

lemma deserialize_members_step:
  assumes "\<And>mem x old c off rest. mem \<in> set ms \<Longrightarrow> all_fields \<or> is_key mem \<Longrightarrow> fits (member_type mem) x \<Longrightarrow>
      shaped (member_type mem) old \<Longrightarrow> dc_rest c = cdr T w (member_type mem) x off @ rest \<Longrightarrow>
      dc_offset c mod 8 = off mod 8 \<Longrightarrow>
      deserialize E (E \<noteq> T) rt tsc w (member_type mem) old c
        = Inr (merge w (member_type mem) x old, dc_step (cdr T w (member_type mem) x off) c)"
    and "\<And>mem. mem \<in> set ms \<Longrightarrow> tsc_complete tsc (member_type mem)"
    and "w = Sample \<Longrightarrow> all_fields"
  shows "list_all2 (\<lambda>m. fits (member_type m)) ms xs \<Longrightarrow> list_all2 (\<lambda>m. shaped (member_type m)) ms olds \<Longrightarrow>
      dc_rest c = cdr_members T w all_fields ms xs off @ rest \<Longrightarrow> dc_offset c mod 8 = off mod 8 \<Longrightarrow>
      deserialize_members E (E \<noteq> T) rt tsc w all_fields ms olds c
        = Inr (if w = Sample then xs else key_merge_members all_fields ms xs olds,
               dc_step (cdr_members T w all_fields ms xs off) c)"
  using assms
proof (induction ms arbitrary: xs olds c off)
  case Nil
  then show ?case by simp
next
  case (Cons mem ms)
  obtain nm vt moff key where mem: "mem = Member nm vt moff key" by (cases mem)
  obtain x xs' where xs: "xs = x # xs'" "fits vt x" "list_all2 (\<lambda>m. fits (member_type m)) ms xs'"
    using Cons.prems(1) by (cases xs) (auto simp: mem)
  obtain old olds' where olds: "olds = old # olds'" "shaped vt old"
    "list_all2 (\<lambda>m. shaped (member_type m)) ms olds'"
    using Cons.prems(2) by (cases olds) (auto simp: mem)
  let ?e = "if all_fields \<or> key then cdr T w vt x off else []"
  let ?x = "if all_fields \<or> key then merge w vt x old else old"
  let ?r = "cdr_members T w all_fields ms xs' (off + length ?e)"
  have r: "dc_rest c = ?e @ (?r @ rest)" using Cons.prems(3) by (simp add: mem xs(1) Let_def)
  have one: "(if all_fields \<or> key
      then deserialize_AnyValueType E (E \<noteq> T) tsc w vt c (deserialize E (E \<noteq> T) rt tsc w vt old c)
      else Inr (old, c)) = Inr (?x, dc_step ?e c)"
  proof (cases "all_fields \<or> key")
    case True
    have body: "deserialize E (E \<noteq> T) rt tsc w vt old c = Inr (merge w vt x old, dc_step (cdr T w vt x off) c)"
      using Cons.prems(5) [of mem x old c off "?r @ rest"] xs(2) olds(2) r Cons.prems(4) True mem by simp
    show ?thesis
      using deserialize_any_step [OF _ xs(2) _ Cons.prems(4) body] Cons.prems(6) [of mem] True r mem by simp
  qed simp
  have off: "dc_offset (dc_step ?e c) mod 8 = (off + length ?e) mod 8"
    using dc_offset_step [of ?e c] Cons.prems(4) by (metis mod_add_left_eq)
  have rest: "deserialize_members E (E \<noteq> T) rt tsc w all_fields ms olds' (dc_step ?e c)
      = Inr (if w = Sample then xs' else key_merge_members all_fields ms xs' olds', dc_step ?r (dc_step ?e c))"
    by (rule Cons.IH [OF xs(3) olds(3) dc_rest_step [OF r] off]) (use Cons.prems(5-7) in auto)
  have "?x = (if w = Sample then x else if all_fields \<or> key then key_merge vt x old else old)"
    using Cons.prems(7) by (auto simp: merge_def)
  then show ?case using one rest
    unfolding mem xs(1) olds(1) deserialize_members.simps cdr_members.simps key_merge_members.simps Let_def dc_step_append
    by (cases "w = Sample") simp_all
qed

lemma deserialize_step:
  "tsc_complete tsc vt \<Longrightarrow> wf_type vt \<Longrightarrow> plain_mode w vt \<Longrightarrow> resize_spec rt \<Longrightarrow> fits vt obj \<Longrightarrow> shaped vt old \<Longrightarrow>
     dc_rest c = cdr T w vt obj off @ rest \<Longrightarrow> dc_offset c mod 8 = off mod 8 \<Longrightarrow>
     deserialize E (E \<noteq> T) rt tsc w vt old c = Inr (merge w vt obj old, dc_step (cdr T w vt obj off) c)"
proof (induction vt arbitrary: obj old c off rest rule: subtypes.induct)
  case (1 si ms)
  obtain os where os: "obj = LStruct os" "list_all2 (\<lambda>m. fits (member_type m)) ms os"
    using "1.prems"(5) by (cases obj) auto
  obtain olds where olds: "old = LStruct olds" "list_all2 (\<lambda>m. shaped (member_type m)) ms olds"
    using "1.prems"(6) by (cases old) auto
  let ?all = "w \<noteq> Key \<or> \<not> m_has_keys si"
  have "deserialize_members E (E \<noteq> T) rt tsc w ?all ms olds c
      = Inr (if w = Sample then os else key_merge_members ?all ms os olds, dc_step (cdr_members T w ?all ms os off) c)"
  proof (rule deserialize_members_step [OF _ _ _ os(2) olds(2) _ "1.prems"(8)])
    show "dc_rest c = cdr_members T w ?all ms os off @ rest" using "1.prems"(7) os(1) by simp
  next
    fix mem assume "mem \<in> set ms"
    then show "tsc_complete tsc (member_type mem)" by (intro tsc_complete_sub [OF "1.prems"(1)]) auto
  next
    fix mem x old' c' off' rest'
    assume mem: "mem \<in> set ms" "?all \<or> is_key mem" and h: "fits (member_type mem) x" "shaped (member_type mem) old'"
      "dc_rest c' = cdr T w (member_type mem) x off' @ rest'" "dc_offset c' mod 8 = off' mod 8"
    have t: "tsc_complete tsc (member_type mem)" using mem(1) by (intro tsc_complete_sub [OF "1.prems"(1)]) auto
    have wf: "wf_type (member_type mem)" using mem(1) "1.prems"(2) by simp
    have pm: "plain_mode w (member_type mem)" using mem "1.prems"(3) by (cases w) (auto simp: plain_mode_def)
    show "deserialize E (E \<noteq> T) rt tsc w (member_type mem) old' c'
        = Inr (merge w (member_type mem) x old', dc_step (cdr T w (member_type mem) x off') c')"
      by (rule "1.IH" [OF mem(1) t wf pm "1.prems"(4) h])
  qed simp
  then show ?case by (cases w) (simp_all add: os(1) olds(1) merge_def)
next
  case (2 e n sc)
  obtain os where os: "obj = LArr os" "length os = n" "\<forall>x \<in> set os. fits e x"
    using "2.prems"(5) by (cases obj) (auto simp: list_all_iff)
  obtain olds where olds: "old = LArr olds" "length olds = n" "list_all (shaped e) olds"
    using "2.prems"(6) by (cases old) auto
  have e: "tsc_complete tsc e" by (rule tsc_complete_sub [OF "2.prems"(1)]) auto
  have pm: "w = Sample \<or> keyless e" "plain_mode w e"
    using "2.prems"(3) keyless_key_safe by (auto simp: plain_mode_def)
  obtain s where s: "sizeof_type e = Inr s" and wf: "wf_type e" using "2.prems"(2) by auto
  have "deserialize_many E (E \<noteq> T) tsc (\<lambda>old c. deserialize_AnyValueType E (E \<noteq> T) tsc w e c
      (deserialize E (E \<noteq> T) rt tsc w e old c)) e olds c = Inr (os, dc_step (cdr_list (cdr T w e) os off) c)"
  proof (rule deserialize_many_step [OF _ _ olds(3) os(3) _ "2.prems"(8) e s pm(1)])
    show "length olds = length os" using os(2) olds(2) by simp
    show "dc_rest c = cdr_list (cdr T w e) os off @ rest" using "2.prems"(7) os(1) by simp
    fix x old c off rest assume x: "x \<in> set os" and h: "shaped e old" "dc_rest c = cdr T w e x off @ rest"
      "dc_offset c mod 8 = off mod 8"
    have f: "fits e x" using os(3) x by blast
    from deserialize_any_step [OF e f h(2,3) "2.IH" [OF e wf pm(2) "2.prems"(4) f h]] merge_keyless [OF pm(1) f h(1)]
    show "deserialize_AnyValueType E (E \<noteq> T) tsc w e c (deserialize E (E \<noteq> T) rt tsc w e old c)
        = Inr (x, dc_step (cdr T w e x off) c)" by simp
  qed
  then show ?case by (simp add: os(1) olds(1) merge_def)
next
  case (3 k e b)
  obtain os where os: "obj = LSeq os" "length os \<le> b" "\<forall>x \<in> set os. fits e x"
    using "3.prems"(5) by (cases obj) (auto simp: list_all_iff)
  obtain olds where olds: "old = LSeq olds" "list_all (shaped e) olds"
    using "3.prems"(6) by (cases old) auto
  have e: "tsc_complete tsc e" by (rule tsc_complete_sub [OF "3.prems"(1)]) auto
  have pm: "w = Sample \<or> keyless e" "plain_mode w e"
    using "3.prems"(3) keyless_key_safe by (auto simp: plain_mode_def)
  obtain s where s: "sizeof_type e = Inr s" and wf: "wf_type e" using "3.prems"(2) by auto
  obtain olds' where olds': "sequence_resize rt (SpanSequenceValueType k e b) (length os) olds = Inr olds'"
    "length olds' = length os" "list_all (shaped e) olds'"
    by (rule resize_spec_ok [OF "3.prems"(4) olds(2) os(2)])
  let ?u = "cdr_u32 T (length os) off"
  let ?l = "cdr_list (cdr T w e) os (off + length ?u)"
  have r: "dc_rest c = ?u @ (?l @ rest)" using "3.prems"(7) os(1) by simp
  have "length os \<le> UINT32_MAX" using os(2) "3.prems"(2) by simp
  from deserialize_u32_step [OF r "3.prems"(8) this]
  have u: "deserialize_u32 E (E \<noteq> T) c = Inr (length os, dc_step ?u c)" .
  have off: "dc_offset (dc_step ?u c) mod 8 = (off + length ?u) mod 8"
    using dc_offset_step [of ?u c] "3.prems"(8) by (metis mod_add_left_eq)
  have "deserialize_many E (E \<noteq> T) tsc (\<lambda>old c. deserialize_AnyValueType E (E \<noteq> T) tsc w e c
      (deserialize E (E \<noteq> T) rt tsc w e old c)) e olds' (dc_step ?u c) = Inr (os, dc_step ?l (dc_step ?u c))"
  proof (rule deserialize_many_step [OF _ olds'(2,3) os(3) dc_rest_step [OF r] off e s pm(1)])
    fix x old c off rest assume x: "x \<in> set os" and h: "shaped e old" "dc_rest c = cdr T w e x off @ rest"
      "dc_offset c mod 8 = off mod 8"
    have f: "fits e x" using os(3) x by blast
    from deserialize_any_step [OF e f h(2,3) "3.IH" [OF e wf pm(2) "3.prems"(4) f h]] merge_keyless [OF pm(1) f h(1)]
    show "deserialize_AnyValueType E (E \<noteq> T) tsc w e c (deserialize E (E \<noteq> T) rt tsc w e old c)
        = Inr (x, dc_step (cdr T w e x off) c)" by simp
  qed
  then show ?case by (simp add: os(1) olds(1) olds'(1) u merge_def dc_step_append)
next
  case (4 k)
  obtain bs where "obj = LPrim bs" "length bs = prim_cdrsizeof k" using "4.prems"(5) by (cases obj) auto
  then show ?case using deserialize_prim_step [of k c T w bs off rest E] "4.prems" by (simp add: merge_def)
next
  case (5 b sz)
  obtain s where s: "obj = LStr s" "length s \<le> b" using "5.prems"(5) by (cases obj) auto
  have "length s < UINT32_MAX" using s(2) "5.prems"(2) by simp
  then show ?case
    using read_u8string_step [of c T s off rest E] "5.prems"(7,8) s(1)
    by (simp add: merge_def deserialize_u8string_def)
next
  case (6 b sz)
  obtain s where s: "obj = LWStr s" "length s \<le> b" using "6.prems"(5) by (cases obj) auto
  have "2 * length s \<le> UINT32_MAX" using s(2) "6.prems"(2) by simp
  then show ?case
    using deserialize_u16string_step [of c T s off rest E] "6.prems"(7,8) s(1) by (simp add: merge_def)
next
  case (7 b sz)
  obtain s where s: "obj = LBools s" "length s \<le> b" using "7.prems"(5) by (cases obj) auto
  have "length s \<le> UINT32_MAX" using s(2) "7.prems"(2) by simp
  then show ?case
    using deserialize_boolvector_step [of c T s off rest E] "7.prems"(7,8) s(1) by (simp add: merge_def)
qed

lemma deserialize_root_step:
  assumes "tsc_complete tsc vt" "wf_type vt" "plain_mode w vt" "resize_spec rt" "fits vt obj" "shaped vt old"
    and "dc_rest c = cdr T w vt obj off @ rest" "dc_offset c mod 8 = off mod 8"
  shows "deserialize_AnyValueType E (E \<noteq> T) tsc w vt c (deserialize E (E \<noteq> T) rt tsc w vt old c)
     = Inr (merge w vt obj old, dc_step (cdr T w vt obj off) c)"
  by (rule deserialize_any_step [OF assms(1,5,7,8)]) (rule deserialize_step [OF assms])

section \<open>Whole messages\<close>

lemma header_step:
  "read_header (DeserializeCursor (rtps_header T @ rest))
     = Inr (rtps_header T, dc_rebase 4 (dc_step (rtps_header T) (DeserializeCursor (rtps_header T @ rest))))"
  by (cases T) (simp_all add: read_header_def dc_advance_def DeserializeCursor_def rtps_header_def dc_step_def
      dc_rebase_def numeral_eq_Suc)

lemma header_bswap_rtps: "header_bswap E (rtps_header T) = (E \<noteq> T)"
  by (cases E; cases T) (simp_all add: header_bswap_def rtps_header_def)

lemma header_cursor:
  fixes T rest
  defines "c \<equiv> dc_rebase 4 (dc_step (rtps_header T) (DeserializeCursor (rtps_header T @ rest)))"
  shows "dc_rest c = rest" "dc_offset c = 0"
  by (simp_all add: c_def dc_rest_def dc_rebase_def dc_step_def DeserializeCursor_def dc_offset_def
      ptr_offset_def rtps_header_def)

text \<open>The sequence number of a request as a reader of byte order \<open>E\<close> obtains it from its bytes.\<close>

definition read_seq :: "endian \<Rightarrow> u8 list \<Rightarrow> u64" where
  "read_seq E bs = bytes_word E bs"

lemma deserialize_data_message:
  assumes "tsc_complete tsc root" "wf_type root" "plain_mode w root" "resize_spec rt"
    and "fits root obj" "shaped root (top_data dst)" "w = Sample \<or> has_keys root"
    and "\<not> (w = Sample \<and> variant = SRRequest)"
  shows "rbind (deserialize_top_level E rt tsc root variant w dst
       (DeserializeCursor (rtps_header T @ cdr T w root obj 0 @ rest))) (\<lambda>(dst, c). Inr dst)
     = Inr (dst\<lparr>top_data := merge w root obj (top_data dst)\<rparr>)"
proof -
  note c = header_cursor [of T "cdr T w root obj 0 @ rest"]
  note root = deserialize_root_step [OF assms(1-6) c(1), of E]
  show ?thesis
    unfolding deserialize_top_level_def header_step
    using assms(7,8) root c(2) by (auto simp: header_bswap_rtps Let_def)
qed

lemma deserialize_request_message:
  assumes "tsc_complete tsc root" "wf_type root" "resize_spec rt"
    and "fits root obj" "shaped root (top_data dst)" "length g = 8" "length q = 8"
  shows "rbind (deserialize_top_level E rt tsc root SRRequest Sample dst
       (DeserializeCursor (rtps_header T @ g @ q @ cdr T Sample root obj 16 @ rest))) (\<lambda>(dst, c). Inr dst)
     = Inr \<lparr>top_guid = bytes_word T g, top_seq = read_seq E q, top_data = obj\<rparr>"
proof -
  let ?rest = "cdr T Sample root obj 16 @ rest"
  let ?c = "dc_rebase 4 (dc_step (rtps_header T) (DeserializeCursor (rtps_header T @ g @ q @ cdr T Sample root obj 16 @ rest)))"
  have r: "dc_rest ?c = g @ (q @ ?rest)" and off: "dc_offset ?c = 0"
    using header_cursor [of T "g @ q @ cdr T Sample root obj 16 @ rest"] by simp_all
  have one: "dc_advance 8 ?c = Inr (g, dc_step g ?c)" by (rule dc_advance_step [OF r assms(6)])
  have two: "dc_advance 8 (dc_step g ?c) = Inr (q, dc_step q (dc_step g ?c))"
    by (rule dc_advance_step [OF dc_rest_step [OF r] assms(7)])
  have off': "dc_offset (dc_step q (dc_step g ?c)) mod 8 = 16 mod 8"
    using dc_offset_step [of q "dc_step g ?c"] dc_offset_step [of g ?c] off assms(6,7) by simp
  have pm: "plain_mode Sample root" by (simp add: plain_mode_def)
  note root = deserialize_root_step [OF assms(1,2) pm assms(3-5) dc_rest_step [OF dc_rest_step [OF r]] off', of E]
  have guid: "(if E \<noteq> T then bswap64 (bytes_word E g) else bytes_word E g) = (bytes_word T g :: u64)"
    using bswap64_bytes_word [of E T g] assms(6) by simp
  show ?thesis
    unfolding deserialize_top_level_def header_step
    using root guid by (simp add: one two header_bswap_rtps Let_def bswap_int64_def read_seq_def merge_def)
qed

lemma make_cdr_reader_root:
  assumes "make_cdr_reader root variant = Inr r" "wf_type root"
  shows "rd_root_value_type r = root" "rd_variant r = variant" "tsc_complete (rd_tsc r) root"
  using assms TriviallySerializedCache_complete [OF assms(2)]
  by (auto simp: make_cdr_reader_def rbind_eq_Inr)

lemma make_cdr_reader_total: "wf_type root \<Longrightarrow> \<exists>r. make_cdr_reader root variant = Inr r"
  using TriviallySerializedCache_complete [of root] by (auto simp: make_cdr_reader_def)

section \<open>Arbitrary input\<close>

text \<open>A read that is safe: its result has a property and its cursor is within the input, or it throws.\<close>

definition safe_read :: "('a \<Rightarrow> bool) \<Rightarrow> ('a \<times> deserialize_cursor) result \<Rightarrow> bool" where
  "safe_read P r \<longleftrightarrow> (case r of Inl e \<Rightarrow> (\<forall>s. e \<noteq> UB s) | Inr (x, c) \<Rightarrow> P x \<and> dc_inv c)"

lemma safe_read_simps [simp]:
  "safe_read P (Inr (x, c)) \<longleftrightarrow> P x \<and> dc_inv c"
  "safe_read P (Inl e) \<longleftrightarrow> (\<forall>s. e \<noteq> UB s)"
  by (simp_all add: safe_read_def)

lemma safe_bind:
  assumes "safe_read P r" "\<And>x c. P x \<Longrightarrow> dc_inv c \<Longrightarrow> safe_read Q (f (x, c))"
  shows "safe_read Q (rbind r f)"
  using assms by (cases r) (auto simp: safe_read_def)

lemma safe_pair: "safe_read P r \<Longrightarrow> (\<And>x. P x \<Longrightarrow> Q (h x)) \<Longrightarrow> safe_read Q (rbind r (\<lambda>(x, c). Inr (h x, c)))"
  by (erule safe_bind) simp

lemma safe_mono: "safe_read P r \<Longrightarrow> (\<And>x. P x \<Longrightarrow> Q x) \<Longrightarrow> safe_read Q r"
  by (cases r) (auto simp: safe_read_def)

lemma safe_advance: "dc_inv c \<Longrightarrow> safe_read (\<lambda>bs. length bs = n) (dc_advance n c)"
  by (cases "dc_advance n c") (auto dest: dc_advance_error dc_advance_inv)

lemma safe_align:
  assumes "dc_inv c" "0 < n" "\<And>c. dc_inv c \<Longrightarrow> safe_read Q (f c)"
  shows "safe_read Q (rbind (dc_align n c) f)"
proof (cases "dc_align n c")
  case (Inl e)
  then show ?thesis using dc_align_error [OF Inl assms(2)] by simp
next
  case (Inr c')
  then show ?thesis using dc_align_inv [OF Inr assms(1,2)] assms(3) by simp
qed

lemma safe_u32: "dc_inv c \<Longrightarrow> safe_read (\<lambda>n. n \<le> UINT32_MAX) (deserialize_u32 E bs c)"
  unfolding deserialize_u32_def
proof (rule safe_align)
  fix c assume "dc_inv c"
  have "unat (u :: u32) \<le> UINT32_MAX" for u
    using unsigned_less [where ?'a = nat, of u] by simp
  then show "safe_read (\<lambda>n. n \<le> UINT32_MAX) (rbind (dc_advance 4 c) (\<lambda>(bs', c).
      let u = bytes_word E bs' in Inr (unat (if bs then bswap32 u else u), c)))"
    by (intro safe_bind [OF safe_advance [OF \<open>dc_inv c\<close>]]) (simp add: Let_def)
qed simp_all

lemma safe_prim:
  assumes "dc_inv c" "is_primitive_kind k"
  shows "safe_read (shaped (PrimitiveValueType k)) (deserialize_prim E bs k c)"
proof -
  have p: "safe_read (\<lambda>_. True) (deserialize_primitive E bs n c)" if "0 < n" for n
    unfolding deserialize_primitive_def
    by (rule safe_align [OF assms(1) that]) (rule safe_pair [OF safe_advance], simp_all)
  have "deserialize_prim E bs k c
      = rbind (deserialize_primitive E bs (prim_cdrsizeof k) c) (\<lambda>(bs, c). Inr (LPrim (in_order E bs), c))"
    using assms(2) by (cases k) (simp_all add: deserialize_prim_def is_primitive_kind_def)
  then show ?thesis using safe_pair [OF p [OF prim_cdrsizeof_pos [OF assms(2)]], of "shaped (PrimitiveValueType k)" "\<lambda>bs. LPrim (in_order E bs)"] by simp
qed

lemma safe_u8string: "dc_inv c \<Longrightarrow> safe_read (\<lambda>_. True) (read_u8string E bs c)"
  unfolding read_u8string_def
proof (rule safe_bind [OF safe_u32], assumption)
  fix size d assume "dc_inv d"
  have "safe_read (\<lambda>_. True) (rbind (dc_advance size d) (\<lambda>(srcdata, c).
       if srcdata ! (size - 1) \<noteq> 0 then Inl (RuntimeError ''CDR deserialization: unterminated string'')
       else Inr (take (size - 1) srcdata, c)))"
    by (rule safe_bind [OF safe_advance [OF \<open>dc_inv d\<close>]]) simp
  then show "safe_read (\<lambda>_. True) (case (size, d) of (size, c) \<Rightarrow>
      if size = 0 then Inl (RuntimeError ''CDR deserialization: size-0 string'')
      else rbind (dc_advance size c) (\<lambda>(srcdata, c).
       if srcdata ! (size - 1) \<noteq> 0 then Inl (RuntimeError ''CDR deserialization: unterminated string'')
       else Inr (take (size - 1) srcdata, c)))" by simp
qed

lemma safe_u16string: "dc_inv c \<Longrightarrow> safe_read (shaped (U16StringValueType b sz)) (deserialize_u16string E bs c)"
  unfolding deserialize_u16string_def
proof (rule safe_bind [OF safe_u32], assumption)
  fix size d assume "dc_inv d"
  have "safe_read (shaped (U16StringValueType b sz)) (rbind (dc_advance size d) (\<lambda>(srcdata, c).
       let units = u16_units E srcdata in Inr (LWStr (if bs then map bswap16 units else units), c)))"
    by (rule safe_bind [OF safe_advance [OF \<open>dc_inv d\<close>]]) (simp add: Let_def)
  then show "safe_read (shaped (U16StringValueType b sz)) (case (size, d) of (size, c) \<Rightarrow>
      if size mod 2 \<noteq> 0 then Inl (RuntimeError ''CDR deserialization: odd number of bytes in wstring'')
     else rbind (dc_advance size c) (\<lambda>(srcdata, c).
       let units = u16_units E srcdata in
       Inr (LWStr (if bs then map bswap16 units else units), c)))" by simp
qed

lemma safe_boolvector: "dc_inv c \<Longrightarrow> safe_read (shaped (BoolVectorValueType b sz)) (deserialize_boolvector E bs c)"
  unfolding deserialize_boolvector_def
proof (rule safe_bind [OF safe_u32], assumption)
  fix count d assume "dc_inv d"
  then show "safe_read (shaped (BoolVectorValueType b sz)) (case (count, d) of (count, c) \<Rightarrow>
      rbind (dc_advance count c) (\<lambda>(srcdata, c). Inr (LBools (map (\<lambda>b. b \<noteq> 0) srcdata), c)))"
    using safe_pair [where Q = "shaped (BoolVectorValueType b sz)" and h = "\<lambda>s. LBools (map (\<lambda>b. b \<noteq> 0) s)",
        OF safe_advance, of d count] by simp
qed

lemma shaped_read_obj: "shaped vt (read_obj E m a vt)"
  by (induction vt arbitrary: a rule: subtypes.induct) (auto simp: list_all2_conv_all_nth list_all_iff)

lemma safe_each:
  assumes "\<And>old c. shaped e old \<Longrightarrow> dc_inv c \<Longrightarrow> safe_read (shaped e) (de old c)"
  shows "list_all (shaped e) olds \<Longrightarrow> dc_inv c \<Longrightarrow>
     safe_read (\<lambda>xs. length xs = length olds \<and> list_all (shaped e) xs) (deserialize_each de olds c)"
proof (induction olds arbitrary: c)
  case Nil
  then show ?case by simp
next
  case (Cons old olds)
  have "safe_read (shaped e) (de old c)" using assms Cons.prems by simp
  then show ?case unfolding deserialize_each.simps
  proof (rule safe_bind)
    fix x d assume "shaped e x" "dc_inv d"
    moreover have "list_all (shaped e) olds" using Cons.prems(1) by simp
    ultimately show "safe_read (\<lambda>xs. length xs = length (old # olds) \<and> list_all (shaped e) xs)
        (case (x, d) of (x, c) \<Rightarrow> rbind (deserialize_each de olds c) (\<lambda>(xs, c). Inr (x # xs, c)))"
      using safe_pair [OF Cons.IH, of d _ "\<lambda>xs. x # xs"] by auto
  qed
qed

lemma safe_many:
  assumes de: "\<And>old c. shaped e old \<Longrightarrow> dc_inv c \<Longrightarrow> safe_read (shaped e) (de old c)"
    and "list_all (shaped e) olds" "dc_inv c" "tsc_complete tsc e" "sizeof_type e = Inr s"
  shows "safe_read (\<lambda>xs. length xs = length olds \<and> list_all (shaped e) xs) (deserialize_many E bs tsc de e olds c)"
proof (cases olds)
  case Nil
  then show ?thesis using assms(3) by (simp add: deserialize_many_def)
next
  case (Cons old olds')
  let ?P = "\<lambda>xs. length xs = length olds \<and> list_all (shaped e) xs"
  have one: "safe_read (shaped e) (de old c)" using de assms(2,3) Cons by simp
  show ?thesis
    unfolding deserialize_many_def Cons list.case
  proof (rule safe_bind [OF one])
    fix x d assume x: "shaped e x" and d: "dc_inv d"
    have "list_all (shaped e) (image_objs E e s n bs')" for n bs'
      by (auto simp: image_objs_def list_all_iff shaped_read_obj)
    then have short: "safe_read ?P (rbind (dc_get_bytes (length olds' * s) d) (\<lambda>(bs', c).
        Inr (x # image_objs E e s (length olds') bs', c)))"
      using x Cons by (intro safe_pair [OF safe_advance [OF d]]) (simp add: image_objs_def)
    have each: "safe_read ?P (rbind (deserialize_each de olds' d) (\<lambda>(xs, c). Inr (x # xs, c)))"
      using safe_pair [where Q = ?P and h = "\<lambda>xs. x # xs", OF safe_each [where olds = olds', OF de]]
        assms(2) x d Cons by simp
    have P: "?P = (\<lambda>xs. length xs = length (old # olds') \<and> list_all (shaped e) xs)" by (simp add: Cons)
    show "safe_read (\<lambda>xs. length xs = length (old # olds') \<and> list_all (shaped e) xs) (case (x, d) of (x, c) \<Rightarrow>
        if olds' = [] then Inr ([x], c)
        else rbind (sizeof_type e) (\<lambda>value_size.
          rbind (if bs then Inr False else lookup_many_trivially_serialized tsc (dc_offset c) e) (\<lambda>trivial.
          if trivial
          then rbind (dc_get_bytes (length olds' * value_size) c) (\<lambda>(bs, c).
                 Inr (x # image_objs E e value_size (length olds') bs, c))
          else rbind (deserialize_each de olds' c) (\<lambda>(xs, c). Inr (x # xs, c)))))"
      using short each x d lookup_many_complete [OF assms(4) self_subtype, of "dc_offset d"] assms(5)
      unfolding P [symmetric]
      by (cases "olds' = []"; cases bs; cases "many_triv (dc_offset d) e") (simp_all add: Cons)
  qed
qed

lemma safe_any:
  assumes "dc_inv c" "tsc_complete tsc vt" "safe_read (shaped vt) body"
  shows "safe_read (shaped vt) (deserialize_AnyValueType E bs tsc w vt c body)"
proof -
  have "safe_read (shaped vt) (rbind (sizeof_type vt) (\<lambda>sz.
      rbind (dc_get_bytes sz c) (\<lambda>(bs, c). Inr (image_obj E vt bs, c))))" if t: "triv (dc_offset c) vt"
  proof -
    obtain s where "sizeof_type vt = Inr s" using triv_sizeof [OF t] by blast
    then show ?thesis
      using safe_pair [OF safe_advance [OF assms(1)], of s "shaped vt" "image_obj E vt"]
      by (simp add: image_obj_def shaped_read_obj)
  qed
  then show ?thesis
    using assms(3) lookup_complete [OF assms(2) self_subtype, of "dc_offset c"]
    by (simp add: deserialize_AnyValueType_def)
qed

lemma safe_members:
  assumes "\<And>mem old c. mem \<in> set ms \<Longrightarrow> shaped (member_type mem) old \<Longrightarrow> dc_inv c \<Longrightarrow>
      safe_read (shaped (member_type mem)) (deserialize E bs rt tsc w (member_type mem) old c)"
    and "\<And>mem. mem \<in> set ms \<Longrightarrow> tsc_complete tsc (member_type mem)"
  shows "list_all2 (\<lambda>m. shaped (member_type m)) ms olds \<Longrightarrow> dc_inv c \<Longrightarrow>
      safe_read (list_all2 (\<lambda>m. shaped (member_type m)) ms) (deserialize_members E bs rt tsc w all_fields ms olds c)"
  using assms
proof (induction ms arbitrary: olds c)
  case Nil
  then show ?case by simp
next
  case (Cons mem ms)
  obtain nm vt moff key where mem: "mem = Member nm vt moff key" by (cases mem)
  obtain old olds' where olds: "olds = old # olds'" "shaped vt old" "list_all2 (\<lambda>m. shaped (member_type m)) ms olds'"
    using Cons.prems(1) by (cases olds) (auto simp: mem)
  have one: "safe_read (shaped vt) (if all_fields \<or> key
      then deserialize_AnyValueType E bs tsc w vt c (deserialize E bs rt tsc w vt old c) else Inr (old, c))"
    using Cons.prems(2) olds(2) safe_any [OF Cons.prems(2), of tsc vt _ E bs w]
      Cons.prems(3) [of mem old c] Cons.prems(4) [of mem] mem by simp
  show ?case
    unfolding mem olds(1) deserialize_members.simps
  proof (rule safe_bind [OF one])
    fix x d assume x: "shaped vt x" and d: "dc_inv d"
    have "safe_read (list_all2 (\<lambda>m. shaped (member_type m)) ms) (deserialize_members E bs rt tsc w all_fields ms olds' d)"
      by (rule Cons.IH [OF olds(3) d]) (use Cons.prems(3,4) in auto)
    then show "safe_read (list_all2 (\<lambda>m. shaped (member_type m)) (Member nm vt moff key # ms))
        (case (x, d) of (x, c) \<Rightarrow>
          rbind (deserialize_members E bs rt tsc w all_fields ms olds' c) (\<lambda>(xs, c). Inr (x # xs, c)))"
      using x safe_pair [where h = "\<lambda>xs. x # xs"] by simp
  qed
qed

lemma deserialize_safe:
  "tsc_complete tsc vt \<Longrightarrow> wf_type vt \<Longrightarrow> resize_spec rt \<Longrightarrow> shaped vt old \<Longrightarrow> dc_inv c \<Longrightarrow>
     safe_read (shaped vt) (deserialize E bs rt tsc w vt old c)"
proof (induction vt arbitrary: old c rule: subtypes.induct)
  case (1 si ms)
  obtain olds where olds: "old = LStruct olds" "list_all2 (\<lambda>m. shaped (member_type m)) ms olds"
    using "1.prems"(4) by (cases old) auto
  have "safe_read (list_all2 (\<lambda>m. shaped (member_type m)) ms)
      (deserialize_members E bs rt tsc w (w \<noteq> Key \<or> \<not> m_has_keys si) ms olds c)"
  proof (rule safe_members [OF _ _ olds(2) "1.prems"(5)])
    fix mem assume "mem \<in> set ms"
    then show "tsc_complete tsc (member_type mem)" by (intro tsc_complete_sub [OF "1.prems"(1)]) auto
  next
    fix mem old c assume mem: "mem \<in> set ms" and h: "shaped (member_type mem) old" "dc_inv c"
    have "tsc_complete tsc (member_type mem)" using mem by (intro tsc_complete_sub [OF "1.prems"(1)]) auto
    from "1.IH" [OF mem this _ "1.prems"(3) h] "1.prems"(2) mem
    show "safe_read (shaped (member_type mem)) (deserialize E bs rt tsc w (member_type mem) old c)" by simp
  qed
  then show ?case using safe_pair [where h = LStruct and Q = "shaped (StructValueType si ms)"] olds(1) by simp
next
  case (2 e n sc)
  obtain olds where olds: "old = LArr olds" "length olds = n" "list_all (shaped e) olds"
    using "2.prems"(4) by (cases old) auto
  have e: "tsc_complete tsc e" by (rule tsc_complete_sub [OF "2.prems"(1)]) auto
  obtain s where s: "sizeof_type e = Inr s" and wf: "wf_type e" using "2.prems"(2) by auto
  have "safe_read (\<lambda>xs. length xs = length olds \<and> list_all (shaped e) xs) (deserialize_many E bs tsc
      (\<lambda>old c. deserialize_AnyValueType E bs tsc w e c (deserialize E bs rt tsc w e old c)) e olds c)"
    by (rule safe_many [OF _ olds(3) "2.prems"(5) e s]) (rule safe_any [OF _ e "2.IH" [OF e wf "2.prems"(3)]])
  then show ?case using safe_pair [where h = LArr and Q = "shaped (ArrayValueType e n sc)"] olds by simp
next
  case (3 k e b)
  obtain olds where olds: "old = LSeq olds" "list_all (shaped e) olds"
    using "3.prems"(4) by (cases old) auto
  have e: "tsc_complete tsc e" by (rule tsc_complete_sub [OF "3.prems"(1)]) auto
  obtain s where s: "sizeof_type e = Inr s" and wf: "wf_type e" using "3.prems"(2) by auto
  have "safe_read (shaped (SpanSequenceValueType k e b)) (rbind (deserialize_u32 E bs c) (\<lambda>(count, c).
      rbind (sequence_resize rt (SpanSequenceValueType k e b) count olds) (\<lambda>olds.
      rbind (deserialize_many E bs tsc (\<lambda>old c. deserialize_AnyValueType E bs tsc w e c
        (deserialize E bs rt tsc w e old c)) e olds c) (\<lambda>(xs, c). Inr (LSeq xs, c)))))"
  proof (rule safe_bind [OF safe_u32 [OF "3.prems"(5)]], unfold prod.case)
    fix count d assume d: "dc_inv d"
    have rs: "case sequence_resize rt (SpanSequenceValueType k e b) count olds of
        Inl ex \<Rightarrow> b < count \<and> (\<forall>s. ex \<noteq> UB s) | Inr os' \<Rightarrow> length os' = count \<and> list_all (shaped e) os'"
      using "3.prems"(3) olds(2) unfolding resize_spec_def by blast
    show "safe_read (shaped (SpanSequenceValueType k e b))
        (rbind (sequence_resize rt (SpanSequenceValueType k e b) count olds) (\<lambda>olds.
      rbind (deserialize_many E bs tsc (\<lambda>old c. deserialize_AnyValueType E bs tsc w e c
        (deserialize E bs rt tsc w e old c)) e olds d) (\<lambda>(xs, c). Inr (LSeq xs, c))))"
    proof (cases "sequence_resize rt (SpanSequenceValueType k e b) count olds")
      case (Inl ex)
      then show ?thesis using rs by simp
    next
      case (Inr os')
      have "safe_read (\<lambda>xs. length xs = length os' \<and> list_all (shaped e) xs) (deserialize_many E bs tsc
          (\<lambda>old c. deserialize_AnyValueType E bs tsc w e c (deserialize E bs rt tsc w e old c)) e os' d)"
        by (rule safe_many [OF _ _ d e s]) (use rs Inr safe_any [OF _ e "3.IH" [OF e wf "3.prems"(3)]] in auto)
      then show ?thesis
        using Inr safe_pair [where h = LSeq and Q = "shaped (SpanSequenceValueType k e b)"] by simp
    qed
  qed
  then show ?case by (simp add: olds(1))
next
  case (4 k)
  then show ?case using safe_prim by simp
next
  case (5 b sz)
  then show ?case
    using safe_pair [OF safe_u8string, of c "shaped (U8StringValueType b sz)" LStr] by (simp add: deserialize_u8string_def)
next
  case (6 b sz)
  then show ?case using safe_u16string by simp
next
  case (7 b sz)
  then show ?case using safe_boolvector by simp
qed

lemma dc_inv_rebase [simp]: "dc_inv (dc_rebase d c) = dc_inv c"
  by (simp add: dc_inv_def dc_rebase_def)

lemma safe_header: "dc_inv c \<Longrightarrow> safe_read (\<lambda>_. True) (read_header c)"
  unfolding read_header_def
  by (rule safe_bind [OF safe_advance]) (simp_all add: Let_def)

lemma deserialize_top_level_safe:
  assumes "tsc_complete tsc root" "wf_type root" "resize_spec rt" "shaped root (top_data dst)" "dc_inv c"
  shows "safe_read (\<lambda>dst. shaped root (top_data dst)) (deserialize_top_level E rt tsc root variant w dst c)"
  unfolding deserialize_top_level_def
proof (rule safe_bind [OF safe_header [OF assms(5)]], unfold prod.case Let_def, rule safe_bind [where P = "\<lambda>dst. shaped root (top_data dst)"],
    unfold prod.case)
  fix hdr c assume c: "dc_inv c"
  let ?Q = "\<lambda>dst. shaped root (top_data dst)"
  have "safe_read ?Q (rbind (dc_get_bytes 8 c) (\<lambda>(guid, c). rbind (dc_get_bytes 8 c) (\<lambda>(seq, c).
      Inr (dst\<lparr>top_guid := (if header_bswap E hdr then bswap64 (bytes_word E guid) else bytes_word E guid),
               top_seq := (if header_bswap E hdr then bswap_int64 (bytes_word E seq) else bytes_word E seq)\<rparr>, c))))"
    by (rule safe_bind [OF safe_advance [OF c]], unfold prod.case, rule safe_bind [OF safe_advance])
      (simp_all add: assms(4))
  then show "safe_read ?Q (if w = Sample \<and> variant = SRRequest then
      rbind (dc_get_bytes 8 c) (\<lambda>(guid, c). rbind (dc_get_bytes 8 c) (\<lambda>(seq, c).
      Inr (dst\<lparr>top_guid := (if header_bswap E hdr then bswap64 (bytes_word E guid) else bytes_word E guid),
               top_seq := (if header_bswap E hdr then bswap_int64 (bytes_word E seq) else bytes_word E seq)\<rparr>, c)))
      else Inr (dst, c))"
    using assms(4) c by simp
next
  fix hdr c and dst' :: top_object and d assume x: "shaped root (top_data dst')" and d: "dc_inv d"
  let ?Q = "\<lambda>dst. shaped root (top_data dst)"
  have "safe_read (shaped root) (deserialize_AnyValueType E (header_bswap E hdr) tsc w root d
      (deserialize E (header_bswap E hdr) rt tsc w root (top_data dst') d))"
    by (rule safe_any [OF d assms(1) deserialize_safe [OF assms(1-3) x d]])
  from safe_pair [OF this, of ?Q "\<lambda>x. dst'\<lparr>top_data := x\<rparr>"]
  have "safe_read ?Q (if w = Sample \<or> has_keys root then rbind (deserialize_AnyValueType E (header_bswap E hdr) tsc w root d
      (deserialize E (header_bswap E hdr) rt tsc w root (top_data dst') d)) (\<lambda>(x, c). Inr (dst'\<lparr>top_data := x\<rparr>, c))
      else Inr (dst', d))" using x d by simp
  then show "safe_read ?Q (rbind (if w = Sample \<or> has_keys root then rbind (deserialize_AnyValueType E (header_bswap E hdr) tsc w root d
      (deserialize E (header_bswap E hdr) rt tsc w root (top_data dst') d)) (\<lambda>(x, c). Inr (dst'\<lparr>top_data := x\<rparr>, c))
      else Inr (dst', d)) (\<lambda>(dst, c). Inr (dst, dc_rebase (-4) c)))"
    by (rule safe_bind) simp
qed

end
