(* ===== verification/ExtractKey.thy ===== *)
theory ExtractKey
  imports CdrDecode
begin

text \<open>
  \<open>CDRReader::extractkey\<close> and \<open>extractkey_be\<close> of \<^verbatim>\<open>Serialization.cpp\<close>: from the encoding of a
  sample, or of a key, produce the encoding of the key, in the byte order of the machine or in big
  endian order.  The theory proves that the bytes appended are the key encoding of the value whose
  encoding was read, whatever the byte order of the input, for types without the constructs the code
  mistreats (named where they are excluded).
\<close>

section \<open>The model\<close>

datatype extract_key_mode = XSample | XKey | XSkip

type_synonym xcursors = "deserialize_cursor \<times> bytevec_cursor"

text \<open>\<open>put_bytes\<close> followed by an in-place swap of what was put, when \<open>swap\<close>.\<close>

definition put_swapped :: "endian \<Rightarrow> bool \<Rightarrow> u8 list \<Rightarrow> bytevec_cursor \<Rightarrow> bytevec_cursor result" where
  "put_swapped E swap bytes dst =
     (let (p, dst) = bv_put_bytes bytes dst in
      if swap then bv_modify p (length bytes) (bswapN E (length bytes)) dst else Inr dst)"

definition extractkey_primitive ::
  "endian \<Rightarrow> bool \<Rightarrow> bool \<Rightarrow> nat \<Rightarrow> extract_key_mode \<Rightarrow> deserialize_cursor \<Rightarrow> bytevec_cursor \<Rightarrow> xcursors result" where
  "extractkey_primitive E bswap_src bswap_dst n_bytes mode src dst =
     rbind (dc_align n_bytes src) (\<lambda>src.
     rbind (dc_advance n_bytes src) (\<lambda>(srcdata, src).
     if mode \<noteq> XSkip
     then rbind (w_align bytevec_ops n_bytes dst) (\<lambda>dst.
          rbind (put_swapped E (bswap_src \<noteq> bswap_dst) srcdata dst) (\<lambda>dst. Inr (src, dst)))
     else Inr (src, dst)))"

definition extractkey_prim ::
  "endian \<Rightarrow> bool \<Rightarrow> bool \<Rightarrow> type_kind \<Rightarrow> extract_key_mode \<Rightarrow> deserialize_cursor \<Rightarrow> bytevec_cursor \<Rightarrow> xcursors result" where
  "extractkey_prim E bs bd k mode src dst =
     (case k of
         CHAR_T \<Rightarrow> extractkey_primitive E bs bd 1 mode src dst
       | BOOLEAN \<Rightarrow> extractkey_primitive E bs bd 1 mode src dst
       | OCTET \<Rightarrow> extractkey_primitive E bs bd 1 mode src dst
       | UINT8 \<Rightarrow> extractkey_primitive E bs bd 1 mode src dst
       | INT8 \<Rightarrow> extractkey_primitive E bs bd 1 mode src dst
       | WCHAR \<Rightarrow> extractkey_primitive E bs bd 2 mode src dst
       | UINT16 \<Rightarrow> extractkey_primitive E bs bd 2 mode src dst
       | INT16 \<Rightarrow> extractkey_primitive E bs bd 2 mode src dst
       | UINT32 \<Rightarrow> extractkey_primitive E bs bd 4 mode src dst
       | INT32 \<Rightarrow> extractkey_primitive E bs bd 4 mode src dst
       | FLOAT \<Rightarrow> extractkey_primitive E bs bd 4 mode src dst
       | UINT64 \<Rightarrow> extractkey_primitive E bs bd 8 mode src dst
       | INT64 \<Rightarrow> extractkey_primitive E bs bd 8 mode src dst
       | DOUBLE \<Rightarrow> extractkey_primitive E bs bd 8 mode src dst
       | _ \<Rightarrow> Inl (UB ''unreachable''))"

text \<open>The count or size in front of a string or sequence, put in the destination's byte order.\<close>

definition put_size :: "endian \<Rightarrow> bool \<Rightarrow> nat \<Rightarrow> bytevec_cursor \<Rightarrow> bytevec_cursor result" where
  "put_size E bswap_dst n dst =
     rbind (w_align bytevec_ops 4 dst)
       (put_swapped E bswap_dst (word_bytes E 4 (of_nat n :: u32)))"

definition extractkey_u8string ::
  "endian \<Rightarrow> bool \<Rightarrow> bool \<Rightarrow> extract_key_mode \<Rightarrow> deserialize_cursor \<Rightarrow> bytevec_cursor \<Rightarrow> xcursors result" where
  "extractkey_u8string E bswap_src bswap_dst mode src dst =
     rbind (deserialize_u32 E bswap_src src) (\<lambda>(size, src).
     if size = 0 then Inl (RuntimeError ''CDR deserialization: size-0 string'')
     else rbind (dc_advance size src) (\<lambda>(srcdata, src).
       if srcdata ! (size - 1) \<noteq> 0 then Inl (RuntimeError ''CDR deserialization: unterminated string'')
       else if mode \<noteq> XSkip
       then rbind (put_size E bswap_dst size dst) (\<lambda>dst. Inr (src, snd (bv_put_bytes srcdata dst)))
       else Inr (src, dst)))"

text \<open>The loop \<open>bswap(&dstdata[i])\<close> over the code units just put; \<open>dstdata\<close> is null if there are none.\<close>

fun bswap_units :: "endian \<Rightarrow> u8 list \<Rightarrow> u8 list" where
  "bswap_units E (a # b # bs) = bswapN E 2 [a, b] @ bswap_units E bs"
| "bswap_units E bs = bs"

definition extractkey_u16string ::
  "endian \<Rightarrow> bool \<Rightarrow> bool \<Rightarrow> extract_key_mode \<Rightarrow> deserialize_cursor \<Rightarrow> bytevec_cursor \<Rightarrow> xcursors result" where
  "extractkey_u16string E bswap_src bswap_dst mode src dst =
     rbind (deserialize_u32 E bswap_src src) (\<lambda>(size, src).
     if size mod 2 \<noteq> 0 then Inl (RuntimeError ''CDR deserialization: odd number of bytes in wstring'')
     else rbind (dc_advance size src) (\<lambda>(srcdata, src).
       if mode \<noteq> XSkip
       then rbind (put_size E bswap_dst size dst) (\<lambda>dst.
            let (dstdata, dst) = bv_put_bytes srcdata dst in
            rbind (if bswap_src \<and> 0 < size div 2 then bv_modify dstdata size (bswap_units E) dst else Inr dst)
              (\<lambda>dst. Inr (src, dst)))
       else Inr (src, dst)))"

definition extractkey_boolvector ::
  "endian \<Rightarrow> bool \<Rightarrow> bool \<Rightarrow> extract_key_mode \<Rightarrow> deserialize_cursor \<Rightarrow> bytevec_cursor \<Rightarrow> xcursors result" where
  "extractkey_boolvector E bswap_src bswap_dst mode src dst =
     rbind (deserialize_u32 E bswap_src src) (\<lambda>(count, src).
     rbind (dc_advance count src) (\<lambda>(srcdata, src).
       if mode \<noteq> XSkip
       then rbind (put_size E bswap_dst count dst) (\<lambda>dst. Inr (src, snd (bv_put_bytes srcdata dst)))
       else Inr (src, dst)))"

text \<open>\<open>ex\<close> is \<open>extractkey(src, dst, vt, mode)\<close> on an element.\<close>

fun extract_times :: "nat \<Rightarrow> (deserialize_cursor \<Rightarrow> bytevec_cursor \<Rightarrow> xcursors result) \<Rightarrow> deserialize_cursor \<Rightarrow>
  bytevec_cursor \<Rightarrow> xcursors result" where
  "extract_times 0 ex src dst = Inr (src, dst)"
| "extract_times (Suc n) ex src dst = rbind (ex src dst) (\<lambda>(src, dst). extract_times n ex src dst)"

definition extractkey_many ::
  "bool \<Rightarrow> bool \<Rightarrow> tsc \<Rightarrow> (deserialize_cursor \<Rightarrow> bytevec_cursor \<Rightarrow> xcursors result) \<Rightarrow> value_type \<Rightarrow>
   extract_key_mode \<Rightarrow> nat \<Rightarrow> deserialize_cursor \<Rightarrow> bytevec_cursor \<Rightarrow> xcursors result" where
  "extractkey_many bswap_src bswap_dst tsc ex vt mode count src dst =
     (if count = 0 then Inr (src, dst)
      else rbind (ex src dst) (\<lambda>(src, dst).
        let count = count - 1 in
        if count = 0 then Inr (src, dst)
        else rbind (sizeof_type vt) (\<lambda>value_size.
        rbind (if bswap_src \<or> bswap_dst then Inr False
               else lookup_many_trivially_serialized tsc (dc_offset src) vt) (\<lambda>trivial.
        if trivial
        then let sz = count * value_size in
             rbind (dc_advance sz src) (\<lambda>(srcdata, src).
             Inr (src, if mode \<noteq> XSkip then snd (bv_put_bytes srcdata dst) else dst))
        else extract_times count ex src dst))))"

definition extractkey_AnyValueType ::
  "tsc \<Rightarrow> value_type \<Rightarrow> extract_key_mode \<Rightarrow> deserialize_cursor \<Rightarrow> bytevec_cursor \<Rightarrow> xcursors result \<Rightarrow> xcursors result" where
  "extractkey_AnyValueType tsc vt mode src dst body =
     (if mode = XSkip then
        rbind (lookup_trivially_serialized tsc (dc_offset src) vt) (\<lambda>trivial.
        if trivial
        then rbind (sizeof_type vt) (\<lambda>sz. rbind (dc_advance sz src) (\<lambda>(_, src). Inr (src, dst)))
        else body)
      else body)"

lemma extract_times_cong [fundef_cong]:
  assumes "n = n'" "c = c'" "d = d'" "\<And>x y. ex x y = ex' x y"
  shows "extract_times n ex c d = extract_times n' ex' c' d'"
proof -
  have "ex = ex'" using assms(4) by blast
  then show ?thesis using assms by simp
qed

lemma extractkey_many_cong [fundef_cong]:
  assumes "bs = bs'" "bd = bd'" "tsc = tsc'" "vt = vt'" "mode = mode'" "n = n'" "c = c'" "d = d'"
    and "\<And>x y. ex x y = ex' x y"
  shows "extractkey_many bs bd tsc ex vt mode n c d = extractkey_many bs' bd' tsc' ex' vt' mode' n' c' d'"
proof -
  have "ex = ex'" using assms(9) by blast
  then show ?thesis using assms by simp
qed

fun extractkey ::
  "endian \<Rightarrow> bool \<Rightarrow> bool \<Rightarrow> tsc \<Rightarrow> value_type \<Rightarrow> extract_key_mode \<Rightarrow> deserialize_cursor \<Rightarrow> bytevec_cursor \<Rightarrow>
   xcursors result"
  and extractkey_members ::
  "endian \<Rightarrow> bool \<Rightarrow> bool \<Rightarrow> tsc \<Rightarrow> bool \<Rightarrow> member list \<Rightarrow> extract_key_mode \<Rightarrow> deserialize_cursor \<Rightarrow>
   bytevec_cursor \<Rightarrow> xcursors result"
where
  "extractkey E bs bd tsc (PrimitiveValueType k) mode src dst = extractkey_prim E bs bd k mode src dst"
| "extractkey E bs bd tsc (U8StringValueType b sz) mode src dst = extractkey_u8string E bs bd mode src dst"
| "extractkey E bs bd tsc (U16StringValueType b sz) mode src dst = extractkey_u16string E bs bd mode src dst"
| "extractkey E bs bd tsc (ArrayValueType e n sc) mode src dst =
     extractkey_many bs bd tsc
       (\<lambda>src dst. extractkey_AnyValueType tsc e mode src dst (extractkey E bs bd tsc e mode src dst))
       e mode n src dst"
| "extractkey E bs bd tsc (SpanSequenceValueType k e b) mode src dst =
     rbind (deserialize_u32 E bs src) (\<lambda>(count, src).
     rbind (if mode \<noteq> XSkip then put_size E bd count dst else Inr dst) (\<lambda>dst.
     extractkey_many bs bd tsc
       (\<lambda>src dst. extractkey_AnyValueType tsc e mode src dst (extractkey E bs bd tsc e mode src dst))
       e mode count src dst))"
| "extractkey E bs bd tsc (BoolVectorValueType b sz) mode src dst = extractkey_boolvector E bs bd mode src dst"
| "extractkey E bs bd tsc (StructValueType si ms) mode src dst =
     extractkey_members E bs bd tsc (\<not> m_has_keys si) ms mode src dst"
| "extractkey_members E bs bd tsc all_fields_are_key [] mode src dst = Inr (src, dst)"
| "extractkey_members E bs bd tsc all_fields_are_key (Member nm vt moff key # ms) mode src dst =
     rbind (case mode of
         XSkip \<Rightarrow> extractkey_AnyValueType tsc vt XSkip src dst (extractkey E bs bd tsc vt XSkip src dst)
       | XKey \<Rightarrow>
           (if key \<or> all_fields_are_key
            then extractkey_AnyValueType tsc vt XKey src dst (extractkey E bs bd tsc vt XKey src dst)
            else Inr (src, dst))
       | XSample \<Rightarrow>
           (if key \<or> all_fields_are_key
            then extractkey_AnyValueType tsc vt XSample src dst (extractkey E bs bd tsc vt XSample src dst)
            else extractkey_AnyValueType tsc vt XSkip src dst (extractkey E bs bd tsc vt XSkip src dst)))
       (\<lambda>(src, dst). extractkey_members E bs bd tsc all_fields_are_key ms mode src dst)"

definition extractkey_top_level ::
  "endian \<Rightarrow> tsc \<Rightarrow> value_type \<Rightarrow> sample_or_request \<Rightarrow> sample_or_key \<Rightarrow> bool \<Rightarrow> deserialize_cursor \<Rightarrow>
   bytevec_cursor \<Rightarrow> xcursors result" where
  "extractkey_top_level E tsc root variant what bswap_dst src dst =
     (if \<not> has_keys root then Inr (src, dst)
      else rbind (read_header src) (\<lambda>(hdr, src).
        let bswap_src = header_bswap E hdr;
            dst = snd (bv_put_bytes [0, (if E = (if bswap_dst then big else little) then 1 else 0), 0, 0] dst);
            dst = w_rebase bytevec_ops 4 dst in
        rbind (if what = Sample \<and> variant = SRRequest
               then rbind (dc_advance 8 src) (\<lambda>(_, src). Inr src) else Inr src) (\<lambda>src.
        let kmode = (if what = Key then XKey else XSample) in
        rbind (extractkey_AnyValueType tsc root kmode src dst
                 (extractkey E bswap_src bswap_dst tsc root kmode src dst)) (\<lambda>(src, dst).
        Inr (dc_rebase (-4) src, w_rebase bytevec_ops (-4) dst)))))"

definition reader_extractkey ::
  "endian \<Rightarrow> cdr_reader \<Rightarrow> u8 list \<Rightarrow> u8 list \<Rightarrow> sample_or_key \<Rightarrow> u8 list result" where
  "reader_extractkey E r dst input what =
     rbind (extractkey_top_level E (rd_tsc r) (rd_root_value_type r) (rd_variant r) what False
       (DeserializeCursor input) (ByteVectorCursor dst)) (\<lambda>(_, c). Inr (bv_data c))"

definition reader_extractkey_be ::
  "endian \<Rightarrow> cdr_reader \<Rightarrow> u8 list \<Rightarrow> u8 list \<Rightarrow> sample_or_key \<Rightarrow> u8 list result" where
  "reader_extractkey_be E r dst input what =
     rbind (extractkey_top_level E (rd_tsc r) (rd_root_value_type r) (rd_variant r) what (E \<noteq> big)
       (DeserializeCursor input) (ByteVectorCursor dst)) (\<lambda>(_, c). Inr (bv_data c))"

section \<open>Alignment of trivially serialized elements\<close>

text \<open>
  The shortcut for the elements after the first looks at the alignment of the source only.  It is
  right for the destination too: after one element both are at the same offset modulo the largest
  alignment within the element.
\<close>

fun talign :: "value_type \<Rightarrow> nat" where
  "talign (PrimitiveValueType k) = prim_cdralignof k"
| "talign (StructValueType si ms) = foldr (\<lambda>m a. max (talign (member_type m)) a) ms 1"
| "talign (ArrayValueType e n sc) = talign e"
| "talign vt = 1"

lemma talign_cases: "wf_type vt \<Longrightarrow> talign vt \<in> {1, 2, 4, 8}"
proof (induction vt rule: subtypes.induct)
  case (1 si ms)
  have "foldr (\<lambda>m a. max (talign (member_type m)) a) l 1 \<in> {1, 2, 4, 8}" if "set l \<subseteq> set ms" for l
    using that
  proof (induction l)
    case Nil
    then show ?case by simp
  next
    case (Cons m l)
    then have "talign (member_type m) \<in> {1, 2, 4, 8}" using "1.IH" "1.prems" by simp
    moreover have "foldr (\<lambda>m a. max (talign (member_type m)) a) l 1 \<in> {1, 2, 4, 8}" using Cons by simp
    ultimately show ?case by (auto simp: max_def)
  qed
  then show ?case by simp
next
  case (4 k)
  then show ?case unfolding talign.simps prim_cdralignof_def by (intro prim_sizes(2)) simp
qed auto

lemma talign_mod_le:
  assumes "D \<in> {1, 2, 4, 8}" "D' \<in> {1, 2, 4, 8}" "D' \<le> D" "a mod D = b mod (D::nat)"
  shows "a mod D' = b mod D'"
proof -
  have "D' dvd D" using assms(1-3) by auto
  then show ?thesis using assms(4) by (rule mod_mod_dvd)
qed

lemma mtriv_mod_align:
  assumes "\<And>mem a b. mem \<in> set ms \<Longrightarrow> a mod D = b mod D \<Longrightarrow> triv a (member_type mem) = triv b (member_type mem)"
  shows "a mod D = b mod D \<Longrightarrow> mtriv a rel ms sz = mtriv b rel ms sz"
  using assms
proof (induction ms arbitrary: rel)
  case Nil
  then show ?case by simp
next
  case (Cons mem ms)
  obtain nm vt moff key where mem: "mem = Member nm vt moff key" by (cases mem)
  have ab: "(a + rel) mod D = (b + rel) mod D" by (rule mod_add_cong [OF Cons.prems(1) refl])
  have "triv (a + rel) (member_type mem) = triv (b + rel) (member_type mem)"
    by (rule Cons.prems(2) [OF _ ab]) simp
  moreover have "mtriv a (rel + szof vt) ms sz = mtriv b (rel + szof vt) ms sz"
    by (rule Cons.IH [OF Cons.prems(1)]) (rule Cons.prems(2), simp_all)
  ultimately show ?case by (simp add: mem)
qed

lemma triv_mod_align: "wf_type vt \<Longrightarrow> a mod talign vt = b mod talign vt \<Longrightarrow> triv a vt = triv b vt"
proof (induction vt arbitrary: a b rule: subtypes.induct)
  case (1 si ms)
  have le: "talign (member_type mem) \<le> talign (StructValueType si ms)" if "mem \<in> set ms" for mem
    using that by (induction ms) auto
  have "mtriv a 0 ms (size_of si) = mtriv b 0 ms (size_of si)"
  proof (rule mtriv_mod_align [OF _ "1.prems"(2)])
    fix mem a b assume mem: "mem \<in> set ms" and ab: "a mod talign (StructValueType si ms) = b mod talign (StructValueType si ms)"
    have wf: "wf_type (member_type mem)" using mem "1.prems"(1) by simp
    have "a mod talign (member_type mem) = b mod talign (member_type mem)"
      by (rule talign_mod_le [OF talign_cases [OF "1.prems"(1)] talign_cases [OF wf] le [OF mem] ab])
    then show "triv a (member_type mem) = triv b (member_type mem)" by (rule "1.IH" [OF mem wf])
  qed
  then show ?case by simp
next
  case (2 e n sc)
  have ab: "a mod talign e = b mod talign e" and wf: "wf_type e" using "2.prems" by simp_all
  have ab': "(a + szof e) mod talign e = (b + szof e) mod talign e" by (rule mod_add_cong [OF ab refl])
  show ?case using "2.IH" [OF wf ab] "2.IH" [OF wf ab'] by simp
qed simp_all

text \<open>The end offset of an element that is trivially serialized somewhere is a regular function.\<close>

definition trivial_shape :: "value_type \<Rightarrow> bool" where
  "trivial_shape vt \<longleftrightarrow> (\<exists>a. triv a vt)"

lemma trivial_shape_struct:
  "trivial_shape (StructValueType si ms) \<Longrightarrow> mem \<in> set ms \<Longrightarrow> trivial_shape (member_type mem)"
proof -
  assume "trivial_shape (StructValueType si ms)" "mem \<in> set ms"
  moreover have "mtriv a rel ms sz \<Longrightarrow> mem \<in> set ms \<Longrightarrow> trivial_shape (member_type mem)" for a rel sz
  proof (induction ms arbitrary: rel)
    case Nil
    then show ?case by simp
  next
    case (Cons x ms)
    then show ?case by (cases x) (auto simp: trivial_shape_def)
  qed
  ultimately show ?thesis by (auto simp: trivial_shape_def)
qed

lemma trivial_shape_array: "trivial_shape (ArrayValueType e n sc) \<Longrightarrow> trivial_shape e"
  by (auto simp: trivial_shape_def)

definition cend :: "value_type \<Rightarrow> lobj \<Rightarrow> nat \<Rightarrow> nat" where
  "cend vt obj a = a + length (cdr little Sample vt obj a)"

lemma length_cdr_order: "length (cdr T w vt obj a) = length (cdr little w vt obj a)"
  "length (cdr_members T w all_fields ms objs a) = length (cdr_members little w all_fields ms objs a)"
proof (induction T w vt obj a and T w all_fields ms objs a rule: cdr_cdr_members.induct)
  case (5 T w e n sc os off)
  have "length (cdr_list (cdr T w e) xs a) = length (cdr_list (cdr little w e) xs a)" if "set xs \<subseteq> set os" for xs a
    using that "5.IH" by (induction xs arbitrary: a) (auto simp: Let_def)
  then show ?case by simp
next
  case (6 T w k e b os off)
  have "length (cdr_list (cdr T w e) xs a) = length (cdr_list (cdr little w e) xs a)" if "set xs \<subseteq> set os" for xs a
    using that "6.IH" by (induction xs arbitrary: a) (auto simp: Let_def)
  then show ?case by (simp add: cdr_u32_def)
qed (auto simp: cdr_u32_def Let_def)

lemma regular_list:
  assumes "\<And>x. x \<in> set xs \<Longrightarrow> regular D (\<lambda>a. a + length (f x a))" "D \<in> {1, 2, 4, 8}" "xs \<noteq> []"
  shows "regular D (\<lambda>a. a + length (cdr_list f xs a))"
  using assms(1,3)
proof (induction xs)
  case Nil
  then show ?case by simp
next
  case (Cons x xs)
  have x: "regular D (\<lambda>a. a + length (f x a))" using Cons.prems by simp
  show ?case
  proof (cases "xs = []")
    case True
    then show ?thesis using x by (simp add: Let_def)
  next
    case False
    then have "regular D (\<lambda>a. a + length (cdr_list f xs a))" using Cons by simp
    from regular_comp [OF x this] show ?thesis by (simp add: Let_def add.assoc)
  qed
qed

lemma regular_cend_members:
  assumes "\<And>mem x. mem \<in> set ms \<Longrightarrow> fits (member_type mem) x \<Longrightarrow>
      regular (talign (member_type mem)) (cend (member_type mem) x)"
  shows "list_all2 (\<lambda>m. fits (member_type m)) ms os \<Longrightarrow>
      regular (foldr (\<lambda>m a. max (talign (member_type m)) a) ms 1)
        (\<lambda>a. a + length (cdr_members little Sample True ms os a))"
  using assms
proof (induction ms arbitrary: os)
  case Nil
  then show ?case using regular_id by simp
next
  case (Cons mem ms)
  obtain nm vt moff key where mem: "mem = Member nm vt moff key" by (cases mem)
  obtain x os' where os: "os = x # os'" "fits vt x" "list_all2 (\<lambda>m. fits (member_type m)) ms os'"
    using Cons.prems(1) by (cases os) (auto simp: mem)
  have "regular (talign vt) (cend vt x)" using Cons.prems(2) [of mem x] os(2) mem by simp
  from regular_comp [OF this Cons.IH [OF os(3) Cons.prems(2)]]
  show ?case by (simp add: mem os(1) cend_def Let_def add.assoc)
qed

lemma regular_cend:
  "wf_type vt \<Longrightarrow> trivial_shape vt \<Longrightarrow> fits vt obj \<Longrightarrow> regular (talign vt) (cend vt obj)"
proof (induction vt arbitrary: obj rule: subtypes.induct)
  case (1 si ms)
  obtain os where os: "obj = LStruct os" "list_all2 (\<lambda>m. fits (member_type m)) ms os"
    using "1.prems"(3) by (cases obj) auto
  have "regular (talign (member_type mem)) (cend (member_type mem) x)"
    if "mem \<in> set ms" "fits (member_type mem) x" for mem x
    using "1.IH" [OF that(1) _ _ that(2)] trivial_shape_struct [OF "1.prems"(2) that(1)] "1.prems"(1) that(1) by simp
  from regular_cend_members [OF this os(2)]
  show ?case by (simp add: os(1) cend_def)
next
  case (2 e n sc)
  obtain os where os: "obj = LArr os" "length os = n" "\<forall>x \<in> set os. fits e x"
    using "2.prems"(3) by (cases obj) (auto simp: list_all_iff)
  have wf: "wf_type e" and "os \<noteq> []" using "2.prems"(1) os(2) by auto
  have "regular (talign e) (\<lambda>a. a + length (cdr_list (cdr little Sample e) os a))"
  proof (rule regular_list [OF _ talign_cases [OF wf] \<open>os \<noteq> []\<close>])
    fix x assume "x \<in> set os"
    then have "regular (talign e) (cend e x)"
      using "2.IH" [OF wf trivial_shape_array [OF "2.prems"(2)]] os(3) by blast
    then show "regular (talign e) (\<lambda>a. a + length (cdr little Sample e x a))" unfolding cend_def .
  qed
  then show ?case by (simp add: os(1) cend_def)
next
  case (4 k)
  obtain bs where bs: "obj = LPrim bs" "length bs = prim_cdrsizeof k" using "4.prems"(3) by (cases obj) auto
  have "prim_cdralignof k \<in> {1, 2, 4, 8}" using "4.prems"(1) unfolding prim_cdralignof_def by (intro prim_sizes(2)) simp
  from regular_align [OF this, of "prim_cdrsizeof k"]
  show ?case by (simp add: cend_def bs align_up_def add.assoc)
qed (auto simp: trivial_shape_def)

lemma many_triv_after:
  assumes "wf_type e" "fits e obj" "many_triv (a + length (cdr T w e obj a)) e"
    and "w = Sample \<or> keyless e" "w' = Sample \<or> keyless e"
  shows "many_triv (b + length (cdr T' w' e obj b)) e"
proof -
  have k: "cdr T w e obj a = cdr T Sample e obj a" "cdr T' w' e obj b = cdr T' Sample e obj b"
    using assms(4,5) cdr_keyless(1) by blast+
  have len: "a + length (cdr T w e obj a) = cend e obj a" "b + length (cdr T' w' e obj b) = cend e obj b"
    unfolding cend_def k using length_cdr_order(1) by metis+
  have "trivial_shape e" using assms(3) by (auto simp: trivial_shape_def many_triv_def)
  then have "regular (talign e) (cend e obj)" by (rule regular_cend [OF assms(1) _ assms(2)])
  then have m: "cend e obj a mod talign e = cend e obj b mod talign e" unfolding regular_def by blast
  have m': "(cend e obj a + szof e) mod talign e = (cend e obj b + szof e) mod talign e"
    by (rule mod_add_cong [OF m refl])
  show ?thesis
    using assms(3) triv_mod_align [OF assms(1) m] triv_mod_align [OF assms(1) m']
    unfolding len many_triv_def by blast
qed

lemma cdr_list_triv_off:
  assumes "many_triv a e" "many_triv b e" "\<forall>x \<in> set xs. fits e x"
  shows "cdr_list (cdr E Sample e) xs a = cdr_list (cdr E Sample e) xs b"
proof -
  let ?l = "cdr_list (cdr E Sample e) xs a"
  have xs: "map (\<lambda>i. read_obj E (memory_of ?l) (0 + i * szof e) e) [0..<length xs] = xs"
    using image_objs_cdr(1) [OF assms(1,3), of E] by (simp add: image_objs_def)
  have "cdr_list (cdr E Sample e) xs b = mem_read (memory_of ?l) 0 (length xs * szof e)"
    using many_triv_is_bytes [OF assms(2), of Sample E "memory_of ?l" 0 "length xs"] xs by simp
  also have "\<dots> = ?l" using mem_read_memory_of [of ?l] image_objs_cdr(2) [OF assms(1,3), of E] by simp
  finally show ?thesis by simp
qed

section \<open>What extraction reads and writes\<close>

definition wpos :: "bytevec_cursor \<Rightarrow> nat \<Rightarrow> bool" where
  "wpos dst off \<longleftrightarrow> bv_pos dst < SIZE_MOD \<and> bv_pos dst mod 8 = off mod 8"

definition xout :: "extract_key_mode \<Rightarrow> u8 list \<Rightarrow> bytevec_cursor \<Rightarrow> bytevec_cursor" where
  "xout mode bs dst = (if mode = XSkip then dst else bv_append bs dst)"

definition src_mode :: "extract_key_mode \<Rightarrow> sample_or_key" where
  "src_mode mode = (if mode = XKey then Key else Sample)"

lemma wpos_append: "wpos dst off \<Longrightarrow> wpos (bv_append bs dst) (off + length bs)"
proof -
  assume w: "wpos dst off"
  have "bv_pos (bv_append bs dst) mod 8 = (bv_pos dst + length bs) mod 8"
    by (simp add: bv_append_def sz_add_def mod_SIZE_MOD_8)
  also have "\<dots> = (off + length bs) mod 8" using w unfolding wpos_def by (intro mod_add_cong) auto
  finally show ?thesis by (simp add: wpos_def bv_append_def)
qed

lemma wpos_xout: "wpos dst off \<Longrightarrow> wpos (xout mode bs dst) (off + (if mode = XSkip then 0 else length bs))"
  by (simp add: xout_def wpos_append)

lemma bv_append_append: "bv_append ys (bv_append xs c) = bv_append (xs @ ys) c"
proof -
  have "((bv_pos c + length xs) mod SIZE_MOD + length ys) mod SIZE_MOD = (bv_pos c + (length xs + length ys)) mod SIZE_MOD"
    by (simp only: mod_add_left_eq add.assoc)
  then show ?thesis by (simp add: bv_append_def sz_add_def)
qed

lemma xout_xout: "xout mode ys (xout mode xs c) = xout mode (xs @ ys) c"
  by (simp add: xout_def bv_append_append)

lemma bv_append_Nil: "bv_pos c < SIZE_MOD \<Longrightarrow> bv_append [] c = c"
  by (simp add: bv_append_def sz_add_def)

lemma snd_bv_put_bytes: "bv_pos c < SIZE_MOD \<Longrightarrow> snd (bv_put_bytes bs c) = bv_append bs c"
  by (simp add: bv_put_bytes_def bv_append_Nil Let_def)

lemma bv_align:
  assumes "wpos dst off" "0 < n" "n dvd 8"
  shows "w_align bytevec_ops n dst = Inr (bv_append (zeros (padding n off)) dst)"
  using bytevec_cursor.align_8 [of dst n off] assms by (simp add: wpos_def bytevec_ops_def)

lemma put_swapped_order:
  assumes "length bs \<in> {1, 2, 4, 8}" "bv_pos dst < SIZE_MOD"
  shows "put_swapped E (S \<noteq> D) (in_order S bs) dst = Inr (bv_append (in_order D bs) dst)"
proof (cases "S = D")
  case True
  then show ?thesis using snd_bv_put_bytes [OF assms(2)] by (simp add: put_swapped_def split_def Let_def)
next
  case False
  obtain p c' where put: "bv_put_bytes (in_order S bs) dst = (p, c')" by fastforce
  have sw: "bswapN E (length bs) (in_order S bs) = in_order D bs"
    using bswapN_rev [of "in_order S bs" "length bs" E] assms(1) in_order_other [OF False, of bs] by simp
  have "length (in_order S bs) \<noteq> 0" using assms(1) by auto
  then have "in_order S bs \<noteq> []" by blast
  then have "bv_modify p (length bs) (bswapN E (length bs)) c'
      = Inr (bv_append (bswapN E (length bs) (in_order S bs)) dst)"
    by (intro bv_modify_put [OF put]) (simp_all add: sw)
  then show ?thesis using False by (simp add: put_swapped_def put sw)
qed

lemma put_size_step:
  assumes "wpos dst off"
  shows "put_size E (E \<noteq> D) n dst = Inr (bv_append (cdr_u32 D n off) dst)"
proof -
  let ?d = "bv_append (zeros (padding 4 off)) dst"
  have "bv_pos ?d < SIZE_MOD" by (simp add: bv_append_def)
  then have "put_swapped E (E \<noteq> D) (word_bytes E 4 (of_nat n :: u32)) ?d = Inr (bv_append (word_bytes D 4 (of_nat n :: u32)) ?d)"
    unfolding word_bytes_def by (rule put_swapped_order [rotated]) simp
  then show ?thesis using bv_align [OF assms, of 4] by (simp add: put_size_def cdr_u32_def bv_append_append)
qed

lemma extractkey_prim_step:
  assumes "is_primitive_kind k" "dc_rest src = cdr T w (PrimitiveValueType k) (LPrim bs) off @ rest"
    and "dc_offset src mod 8 = off mod 8" "length bs = prim_cdrsizeof k" "wpos dst woff"
  shows "extractkey_prim E (E \<noteq> T) (E \<noteq> D) k mode src dst
    = Inr (dc_step (cdr T w (PrimitiveValueType k) (LPrim bs) off) src,
           xout mode (cdr D Key (PrimitiveValueType k) (LPrim bs) woff) dst)"
proof -
  let ?n = "prim_cdrsizeof k"
  let ?z = "zeros (padding ?n off)"
  note sz = prim_sizes(2) [OF assms(1)]
  have n: "0 < ?n" "?n dvd 8" using assms(1) prim_cdrsizeof_pos prim_cdrsizeof_dvd_8 by auto
  have r: "dc_rest src = ?z @ (in_order T bs @ rest)" using assms(2) by (simp add: prim_cdralignof_def)
  have al: "dc_align ?n src = Inr (dc_step ?z src)" by (rule dc_align_step [OF r n assms(3)])
  have ad: "dc_advance ?n (dc_step ?z src) = Inr (in_order T bs, dc_step (in_order T bs) (dc_step ?z src))"
    by (rule dc_advance_step [OF dc_rest_step [OF r]]) (simp add: assms(4))
  let ?d = "bv_append (zeros (padding ?n woff)) dst"
  have "bv_pos ?d < SIZE_MOD" by (simp add: bv_append_def)
  then have put: "put_swapped E (T \<noteq> D) (in_order T bs) ?d = Inr (bv_append (in_order D bs) ?d)"
    by (rule put_swapped_order [rotated]) (use sz assms(4) in simp)
  have sw: "((E = T) = (E \<noteq> D)) = (T \<noteq> D)" by (cases E; cases T; cases D) auto
  have "extractkey_prim E (E \<noteq> T) (E \<noteq> D) k mode src dst = extractkey_primitive E (E \<noteq> T) (E \<noteq> D) ?n mode src dst"
    using assms(1) by (cases k) (simp_all add: extractkey_prim_def is_primitive_kind_def)
  then show ?thesis
    using al ad put bv_align [OF assms(5) n]
    by (simp add: extractkey_primitive_def sw xout_def dc_step_append bv_append_append prim_cdralignof_def)
qed

lemma extractkey_u8string_step:
  assumes "dc_rest src = (cdr_u32 T (length s + 1) off @ s @ [0]) @ rest" "dc_offset src mod 8 = off mod 8"
    and "length s < UINT32_MAX" "wpos dst woff"
  shows "extractkey_u8string E (E \<noteq> T) (E \<noteq> D) mode src dst
    = Inr (dc_step (cdr_u32 T (length s + 1) off @ s @ [0]) src,
           xout mode (cdr_u32 D (length s + 1) woff @ s @ [0]) dst)"
proof -
  let ?u = "cdr_u32 T (length s + 1) off"
  have r: "dc_rest src = ?u @ ((s @ [0]) @ rest)" using assms(1) by simp
  have u: "deserialize_u32 E (E \<noteq> T) src = Inr (length s + 1, dc_step ?u src)"
    by (rule deserialize_u32_step [OF r assms(2)]) (use assms(3) in simp)
  have ad: "dc_advance (length s + 1) (dc_step ?u src) = Inr (s @ [0], dc_step (s @ [0]) (dc_step ?u src))"
    by (rule dc_advance_step [OF dc_rest_step [OF r]]) simp
  have "bv_pos (bv_append (cdr_u32 D (length s + 1) woff) dst) < SIZE_MOD" by (simp add: bv_append_def)
  then show ?thesis
    using put_size_step [OF assms(4), of E D "length s + 1"]
    by (simp add: extractkey_u8string_def u ad [simplified] nth_append snd_bv_put_bytes bv_append_append
        xout_def dc_step_append)
qed

lemma bswap_units_bytes: "T \<noteq> D \<Longrightarrow> bswap_units E (u16s_bytes T ws) = u16s_bytes D ws"
proof (induction ws)
  case Nil
  then show ?case by (simp add: u16s_bytes_def)
next
  case (Cons w ws)
  have "length (word_bytes T 2 w) = Suc (Suc 0)" by simp
  then obtain a b where ab: "word_bytes T 2 w = [a, b]" unfolding length_Suc_conv length_0_conv by blast
  have "bswapN E 2 [a, b] = rev [a, b]" by (rule bswapN_rev) simp_all
  also have "\<dots> = word_bytes D 2 w" using word_bytes_rev [OF Cons.prems, of 2 w] by (simp add: ab)
  finally show ?case using Cons by (simp add: u16s_bytes_def ab)
qed

text \<open>
  The code swaps the code units of a wide string when the source is in the other byte order, without
  looking at the order of the destination; the result is right when the destination is in native order.
\<close>

text \<open>The size is put in the destination's byte order, the characters in the machine's.\<close>

lemma extractkey_u16string_out:
  assumes "dc_rest src = (cdr_u32 T (2 * length s) off @ u16s_bytes T s) @ rest" "dc_offset src mod 8 = off mod 8"
    and "2 * length s \<le> UINT32_MAX" "wpos dst woff"
  shows "extractkey_u16string E (E \<noteq> T) (E \<noteq> D) mode src dst
    = Inr (dc_step (cdr_u32 T (2 * length s) off @ u16s_bytes T s) src,
           xout mode (cdr_u32 D (2 * length s) woff @ u16s_bytes E s) dst)"
proof -
  let ?u = "cdr_u32 T (2 * length s) off"
  let ?d = "bv_append (cdr_u32 D (2 * length s) woff) dst"
  have r: "dc_rest src = ?u @ (u16s_bytes T s @ rest)" using assms(1) by simp
  have u: "deserialize_u32 E (E \<noteq> T) src = Inr (2 * length s, dc_step ?u src)"
    by (rule deserialize_u32_step [OF r assms(2,3)])
  have ad: "dc_advance (2 * length s) (dc_step ?u src) = Inr (u16s_bytes T s, dc_step (u16s_bytes T s) (dc_step ?u src))"
    by (rule dc_advance_step [OF dc_rest_step [OF r]]) simp
  have pos: "bv_pos ?d < SIZE_MOD" by (simp add: bv_append_def)
  obtain p d' where put: "bv_put_bytes (u16s_bytes T s) ?d = (p, d')" by fastforce
  have d': "d' = bv_append (u16s_bytes T s) ?d" using snd_bv_put_bytes [OF pos, of "u16s_bytes T s"] put by simp
  have swap: "(if E \<noteq> T \<and> 0 < length s then bv_modify p (2 * length s) (bswap_units E) d' else Inr d')
      = Inr (bv_append (u16s_bytes E s) ?d)"
  proof (cases "E \<noteq> T \<and> 0 < length s")
    case True
    then have "u16s_bytes T s \<noteq> []" using length_u16s_bytes [of T s] by (auto simp del: length_u16s_bytes)
    moreover have "bswap_units E (u16s_bytes T s) = u16s_bytes E s" using True by (intro bswap_units_bytes) auto
    ultimately show ?thesis
      using True bv_modify_put [OF put, of "2 * length s" "bswap_units E"] by simp
  next
    case False
    then have "u16s_bytes T s = u16s_bytes E s" by (auto simp: u16s_bytes_def)
    then show ?thesis using False d' by auto
  qed
  show ?thesis
    using put_size_step [OF assms(4), of E D "2 * length s"] put swap
    by (cases "mode = XSkip") (simp_all add: extractkey_u16string_def u ad xout_def dc_step_append bv_append_append)
qed

lemma extractkey_u16string_step:
  assumes "dc_rest src = (cdr_u32 T (2 * length s) off @ u16s_bytes T s) @ rest" "dc_offset src mod 8 = off mod 8"
    and "2 * length s \<le> UINT32_MAX" "wpos dst woff" "mode = XSkip \<or> D = E"
  shows "extractkey_u16string E (E \<noteq> T) (E \<noteq> D) mode src dst
    = Inr (dc_step (cdr_u32 T (2 * length s) off @ u16s_bytes T s) src,
           xout mode (cdr_u32 D (2 * length s) woff @ u16s_bytes D s) dst)"
  using extractkey_u16string_out [OF assms(1-4), of E D mode] assms(5) by (auto simp: xout_def)

lemma extractkey_boolvector_step:
  assumes "dc_rest src = (cdr_u32 T (length bs) off @ map bool_byte bs) @ rest" "dc_offset src mod 8 = off mod 8"
    and "length bs \<le> UINT32_MAX" "wpos dst woff"
  shows "extractkey_boolvector E (E \<noteq> T) (E \<noteq> D) mode src dst
    = Inr (dc_step (cdr_u32 T (length bs) off @ map bool_byte bs) src,
           xout mode (cdr_u32 D (length bs) woff @ map bool_byte bs) dst)"
proof -
  let ?u = "cdr_u32 T (length bs) off"
  have r: "dc_rest src = ?u @ (map bool_byte bs @ rest)" using assms(1) by simp
  have u: "deserialize_u32 E (E \<noteq> T) src = Inr (length bs, dc_step ?u src)"
    by (rule deserialize_u32_step [OF r assms(2,3)])
  have ad: "dc_advance (length bs) (dc_step ?u src) = Inr (map bool_byte bs, dc_step (map bool_byte bs) (dc_step ?u src))"
    by (rule dc_advance_step [OF dc_rest_step [OF r]]) simp
  have "bv_pos (bv_append (cdr_u32 D (length bs) woff) dst) < SIZE_MOD" by (simp add: bv_append_def)
  then show ?thesis
    using put_size_step [OF assms(4), of E D "length bs"]
    by (simp add: extractkey_boolvector_def u ad snd_bv_put_bytes bv_append_append xout_def dc_step_append)
qed

text \<open>\<open>extracts\<close>: reading the encoding of \<open>obj\<close> at any offset, the extractor appends its key encoding.\<close>

definition extracts ::
  "(deserialize_cursor \<Rightarrow> bytevec_cursor \<Rightarrow> xcursors result) \<Rightarrow> endian \<Rightarrow> endian \<Rightarrow> extract_key_mode \<Rightarrow>
   (endian \<Rightarrow> sample_or_key \<Rightarrow> nat \<Rightarrow> u8 list) \<Rightarrow> bool" where
  "extracts ex T D mode enc \<longleftrightarrow>
     (\<forall>src dst off woff rest. dc_rest src = enc T (src_mode mode) off @ rest \<longrightarrow> dc_offset src mod 8 = off mod 8 \<longrightarrow>
        wpos dst woff \<longrightarrow>
        ex src dst = Inr (dc_step (enc T (src_mode mode) off) src, xout mode (enc D Key woff) dst))"

lemma extractsD:
  "extracts ex T D mode enc \<Longrightarrow> dc_rest src = enc T (src_mode mode) off @ rest \<Longrightarrow>
     dc_offset src mod 8 = off mod 8 \<Longrightarrow> wpos dst woff \<Longrightarrow>
     ex src dst = Inr (dc_step (enc T (src_mode mode) off) src, xout mode (enc D Key woff) dst)"
  unfolding extracts_def by blast

lemma wpos_next: "wpos dst woff \<Longrightarrow> wpos (xout mode bs dst) (woff + length bs) \<or> mode = XSkip \<and> wpos (xout mode bs dst) woff"
  by (cases "mode = XSkip") (simp_all add: xout_def wpos_append)

lemma offset_next: "dc_offset c mod 8 = off mod 8 \<Longrightarrow> dc_offset (dc_step bs c) mod 8 = (off + length bs) mod 8"
  using dc_offset_step [of bs c] by (metis mod_add_left_eq)

lemma xout_skip_any: "xout XSkip bs c = xout XSkip bs' c"
  by (simp add: xout_def)

lemma extract_times_step:
  assumes "\<And>x. x \<in> set xs \<Longrightarrow> extracts ex T D mode (\<lambda>T w off. cdr T w e x off)"
  shows "dc_rest src = cdr_list (cdr T (src_mode mode) e) xs off @ rest \<Longrightarrow> dc_offset src mod 8 = off mod 8 \<Longrightarrow>
     wpos dst woff \<Longrightarrow>
     extract_times (length xs) ex src dst = Inr (dc_step (cdr_list (cdr T (src_mode mode) e) xs off) src,
       xout mode (cdr_list (cdr D Key e) xs woff) dst)"
  using assms
proof (induction xs arbitrary: src dst off woff)
  case Nil
  then show ?case by (simp add: xout_def wpos_def bv_append_Nil)
next
  case (Cons x xs)
  let ?s = "cdr T (src_mode mode) e x off" and ?d = "cdr D Key e x woff"
  have r: "dc_rest src = ?s @ (cdr_list (cdr T (src_mode mode) e) xs (off + length ?s) @ rest)"
    using Cons.prems(1) by (simp add: Let_def)
  have one: "ex src dst = Inr (dc_step ?s src, xout mode ?d dst)"
    by (rule extractsD [OF Cons.prems(4) r Cons.prems(2,3)]) simp
  obtain w where w: "wpos (xout mode ?d dst) w" "mode \<noteq> XSkip \<Longrightarrow> w = woff + length ?d"
    using wpos_next [OF Cons.prems(3), of mode ?d] by (metis extract_key_mode.simps)
  have rest: "extract_times (length xs) ex (dc_step ?s src) (xout mode ?d dst)
      = Inr (dc_step (cdr_list (cdr T (src_mode mode) e) xs (off + length ?s)) (dc_step ?s src),
             xout mode (cdr_list (cdr D Key e) xs w) (xout mode ?d dst))"
    by (rule Cons.IH [OF dc_rest_step [OF r] offset_next [OF Cons.prems(2)] w(1)]) (rule Cons.prems(4), simp)
  have "xout mode (cdr_list (cdr D Key e) xs w) (xout mode ?d dst) = xout mode (cdr_list (cdr D Key e) (x # xs) woff) dst"
    using w(2) by (cases "mode = XSkip") (simp_all add: xout_xout Let_def, simp add: xout_def)
  then show ?case by (simp add: one rest Let_def dc_step_append)
qed

lemma extractkey_many_step:
  assumes ex: "\<And>x. x \<in> set xs \<Longrightarrow> extracts ex T D mode (\<lambda>T w off. cdr T w e x off)"
    and src: "dc_rest src = cdr_list (cdr T (src_mode mode) e) xs off @ rest" "dc_offset src mod 8 = off mod 8"
    and dst: "wpos dst woff" and "tsc_complete tsc e" "wf_type e" "sizeof_type e = Inr s" "\<forall>x \<in> set xs. fits e x"
    and mode: "mode = XSkip \<or> keyless e"
  shows "extractkey_many (E \<noteq> T) (E \<noteq> D) tsc ex e mode (length xs) src dst
    = Inr (dc_step (cdr_list (cdr T (src_mode mode) e) xs off) src, xout mode (cdr_list (cdr D Key e) xs woff) dst)"
proof (cases xs)
  case Nil
  then show ?thesis using dst by (simp add: extractkey_many_def xout_def wpos_def bv_append_Nil)
next
  case (Cons x ys)
  let ?s = "cdr T (src_mode mode) e x off" and ?d = "cdr D Key e x woff"
  let ?o = "off + length ?s"
  let ?l = "cdr_list (cdr T (src_mode mode) e) ys ?o"
  have r: "dc_rest src = ?s @ (?l @ rest)" using src(1) Cons by (simp add: Let_def)
  have one: "ex src dst = Inr (dc_step ?s src, xout mode ?d dst)"
    by (rule extractsD [OF ex r src(2) dst]) (simp add: Cons)
  note off = offset_next [OF src(2), of ?s]
  have fits: "fits e x" "\<forall>x \<in> set ys. fits e x" using assms(8) Cons by simp_all
  obtain w where w: "wpos (xout mode ?d dst) w" "mode \<noteq> XSkip \<Longrightarrow> w = woff + length ?d"
    using wpos_next [OF dst, of mode ?d] by (metis extract_key_mode.simps)
  have each: "extract_times (length ys) ex (dc_step ?s src) (xout mode ?d dst)
      = Inr (dc_step ?l (dc_step ?s src), xout mode (cdr_list (cdr D Key e) ys w) (xout mode ?d dst))"
    by (rule extract_times_step [OF ex dc_rest_step [OF r] off w(1)]) (simp add: Cons)
  have short: "rbind (dc_advance (length ys * s) (dc_step ?s src)) (\<lambda>(srcdata, src).
        Inr (src, if mode \<noteq> XSkip then snd (bv_put_bytes srcdata (xout mode ?d dst)) else xout mode ?d dst))
      = Inr (dc_step ?l (dc_step ?s src), xout mode (cdr_list (cdr D Key e) ys w) (xout mode ?d dst))"
    if m: "many_triv (dc_offset (dc_step ?s src)) e" and ET: "E = T" "E = D"
  proof -
    let ?do = "dc_offset (dc_step ?s src)"
    have sm: "src_mode mode = Sample \<or> keyless e" using mode by (auto simp: src_mode_def)
    have key: "cdr E (src_mode mode) e y a = cdr E Sample e y a" for y a using sm cdr_keyless(1) by metis
    have "?l = cdr_list (cdr E (src_mode mode) e) ys ?do"
      unfolding ET(1) [symmetric] by (rule cdr_list_off [OF cdr_off(1) off [symmetric, unfolded ET(1) [symmetric]]])
    also have "\<dots> = cdr_list (cdr E Sample e) ys ?do" by (rule cdr_list_cong) (simp_all add: key)
    finally have l: "?l = cdr_list (cdr E Sample e) ys ?do" .
    have len: "length ?l = length ys * s" unfolding l using image_objs_cdr(2) [OF m fits(2), of E] assms(7) by simp
    have ad: "dc_advance (length ys * s) (dc_step ?s src) = Inr (?l, dc_step ?l (dc_step ?s src))"
      by (rule dc_advance_step [OF dc_rest_step [OF r] len])
    show ?thesis
    proof (cases "mode = XSkip")
      case True
      then show ?thesis using ad by (simp add: xout_def)
    next
      case False
      then have kl: "keyless e" using mode by simp
      have m0: "many_triv ?o e" using m off many_triv_def triv_cong by (metis triv_mod triv_mod_add)
      have "many_triv w e" unfolding w(2) [OF False] using many_triv_after [OF assms(6) fits(1) m0] kl by blast
      then have "?l = cdr_list (cdr E Sample e) ys w" unfolding l by (rule cdr_list_triv_off [OF m _ fits(2)])
      also have "\<dots> = cdr_list (cdr D Key e) ys w" unfolding ET(2)
        by (rule cdr_list_cong [OF refl refl]) (simp add: cdr_keyless(1) [OF kl, of D Key])
      finally show ?thesis using ad False w(1) by (simp add: xout_def wpos_def snd_bv_put_bytes)
    qed
  qed
  have res: "xout mode (cdr_list (cdr D Key e) ys w) (xout mode ?d dst) = xout mode (cdr_list (cdr D Key e) xs woff) dst"
    using w(2) by (cases "mode = XSkip") (simp_all add: xout_xout Cons Let_def, simp add: xout_def)
  have look: "(if (E \<noteq> T) \<or> (E \<noteq> D) then Inr False else lookup_many_trivially_serialized tsc (dc_offset (dc_step ?s src)) e)
      = Inr (E = T \<and> E = D \<and> many_triv (dc_offset (dc_step ?s src)) e)"
    using lookup_many_complete [OF assms(5) self_subtype] by auto
  have "extractkey_many (E \<noteq> T) (E \<noteq> D) tsc ex e mode (length xs) src dst =
      (if ys = [] then Inr (dc_step ?s src, xout mode ?d dst)
       else if E = T \<and> E = D \<and> many_triv (dc_offset (dc_step ?s src)) e
       then rbind (dc_advance (length ys * s) (dc_step ?s src)) (\<lambda>(srcdata, src).
         Inr (src, if mode \<noteq> XSkip then snd (bv_put_bytes srcdata (xout mode ?d dst)) else xout mode ?d dst))
       else extract_times (length ys) ex (dc_step ?s src) (xout mode ?d dst))"
    unfolding extractkey_many_def one assms(7) rbind_Inr prod.case Let_def look
    by (cases "E = T"; cases "E = D") (auto simp: Cons)
  also have "\<dots> = Inr (dc_step ?l (dc_step ?s src), xout mode (cdr_list (cdr D Key e) ys w) (xout mode ?d dst))"
    using each short by (cases "ys = []") auto
  finally show ?thesis unfolding res by (simp add: Cons Let_def dc_step_append)
qed

lemma extractkey_any_step:
  assumes "extracts ex T D mode (\<lambda>T w off. cdr T w vt obj off)" "tsc_complete tsc vt" "fits vt obj"
  shows "extracts (\<lambda>src dst. extractkey_AnyValueType tsc vt mode src dst (ex src dst)) T D mode
    (\<lambda>T w off. cdr T w vt obj off)"
  unfolding extracts_def
proof (intro allI impI)
  fix src dst off woff rest
  assume r: "dc_rest src = cdr T (src_mode mode) vt obj off @ rest" and off: "dc_offset src mod 8 = off mod 8"
    and dst: "wpos dst woff"
  have body: "ex src dst = Inr (dc_step (cdr T (src_mode mode) vt obj off) src, xout mode (cdr D Key vt obj woff) dst)"
    using extractsD [OF assms(1) r off dst] .
  have short: "rbind (sizeof_type vt) (\<lambda>sz. rbind (dc_advance sz src) (\<lambda>(_, src). Inr (src, dst)))
      = Inr (dc_step (cdr T (src_mode mode) vt obj off) src, xout mode (cdr D Key vt obj woff) dst)"
    if t: "triv (dc_offset src) vt" and skip: "mode = XSkip"
  proof -
    obtain s where s: "sizeof_type vt = Inr s" using triv_sizeof [OF t] by blast
    have "cdr T Sample vt obj off = cdr T Sample vt obj (dc_offset src)" by (rule cdr_off(1) [OF off [symmetric]])
    then have "length (cdr T (src_mode mode) vt obj off) = s"
      using triv_length [OF t assms(3), of T] s skip by (simp add: src_mode_def)
    from dc_advance_step [OF r this] show ?thesis by (simp add: s skip xout_def)
  qed
  show "extractkey_AnyValueType tsc vt mode src dst (ex src dst)
      = Inr (dc_step (cdr T (src_mode mode) vt obj off) src, xout mode (cdr D Key vt obj woff) dst)"
    using body short lookup_complete [OF assms(2) self_subtype, of "dc_offset src"]
    by (cases "mode = XSkip"; cases "triv (dc_offset src) vt") (simp_all add: extractkey_AnyValueType_def)
qed

fun wstring_free :: "value_type \<Rightarrow> bool" where
  "wstring_free (StructValueType si ms) = (\<forall>m \<in> set ms. wstring_free (member_type m))"
| "wstring_free (ArrayValueType e n sc) = wstring_free e"
| "wstring_free (SpanSequenceValueType k e b) = wstring_free e"
| "wstring_free (U16StringValueType b sz) = False"
| "wstring_free vt = True"

text \<open>What the extraction of a part in a given mode needs of its type.\<close>

definition mode_ok :: "endian \<Rightarrow> endian \<Rightarrow> extract_key_mode \<Rightarrow> value_type \<Rightarrow> bool" where
  "mode_ok E D mode vt \<longleftrightarrow> mode = XSkip \<or> key_safe vt \<and> (D \<noteq> E \<longrightarrow> wstring_free vt)"

lemma extracts_skip:
  assumes "extracts ex T D XSkip enc" "src_mode mode = Sample"
    and "dc_rest src = enc T (src_mode mode) off @ rest" "dc_offset src mod 8 = off mod 8" "wpos dst woff"
  shows "ex src dst = Inr (dc_step (enc T (src_mode mode) off) src, dst)"
  using extractsD [where rest = rest, OF assms(1) _ assms(4,5)] assms(2,3) by (simp add: src_mode_def xout_def)

lemma extractkey_members_step:
  assumes "\<And>mem x mode'. mem \<in> set ms \<Longrightarrow> fits (member_type mem) x \<Longrightarrow>
      mode' = XSkip \<or> mode' = mode \<and> (all_key \<or> is_key mem) \<Longrightarrow>
      extracts (\<lambda>src dst. extractkey_AnyValueType tsc (member_type mem) mode' src dst
          (extractkey E (E \<noteq> T) (E \<noteq> D) tsc (member_type mem) mode' src dst)) T D mode'
        (\<lambda>T w off. cdr T w (member_type mem) x off)"
  shows "list_all2 (\<lambda>m. fits (member_type m)) ms xs \<Longrightarrow>
      dc_rest src = cdr_members T (src_mode mode) (src_mode mode \<noteq> Key \<or> all_key) ms xs off @ rest \<Longrightarrow>
      dc_offset src mod 8 = off mod 8 \<Longrightarrow> wpos dst woff \<Longrightarrow>
      extractkey_members E (E \<noteq> T) (E \<noteq> D) tsc all_key ms mode src dst
        = Inr (dc_step (cdr_members T (src_mode mode) (src_mode mode \<noteq> Key \<or> all_key) ms xs off) src,
               xout mode (cdr_members D Key all_key ms xs woff) dst)"
  using assms
proof (induction ms arbitrary: xs src dst off woff)
  case Nil
  then show ?case by (simp add: xout_def wpos_def bv_append_Nil)
next
  case (Cons mem ms)
  obtain nm vt moff key where mem: "mem = Member nm vt moff key" by (cases mem)
  obtain x xs' where xs: "xs = x # xs'" "fits vt x" "list_all2 (\<lambda>m. fits (member_type m)) ms xs'"
    using Cons.prems(1) by (cases xs) (auto simp: mem)
  let ?all = "src_mode mode \<noteq> Key \<or> all_key"
  let ?s = "if ?all \<or> key then cdr T (src_mode mode) vt x off else []"
  let ?d = "if all_key \<or> key then cdr D Key vt x woff else []"
  let ?rs = "cdr_members T (src_mode mode) ?all ms xs' (off + length ?s)"
  let ?any = "\<lambda>mode. extractkey_AnyValueType tsc vt mode src dst (extractkey E (E \<noteq> T) (E \<noteq> D) tsc vt mode src dst)"
  have r: "dc_rest src = ?s @ (?rs @ rest)" using Cons.prems(2) by (simp add: mem xs(1) Let_def)
  have ex: "extracts (\<lambda>src dst. extractkey_AnyValueType tsc vt mode' src dst
          (extractkey E (E \<noteq> T) (E \<noteq> D) tsc vt mode' src dst)) T D mode' (\<lambda>T w off. cdr T w vt x off)"
    if "mode' = XSkip \<or> mode' = mode \<and> (all_key \<or> key)" for mode'
    using Cons.prems(5) [of mem x mode'] xs(2) that mem by simp
  have one: "(case mode of XSkip \<Rightarrow> ?any XSkip
       | XKey \<Rightarrow> (if key \<or> all_key then ?any XKey else Inr (src, dst))
       | XSample \<Rightarrow> (if key \<or> all_key then ?any XSample else ?any XSkip))
      = Inr (dc_step ?s src, xout mode ?d dst)"
  proof (cases "all_key \<or> key")
    case True
    then have "?any mode = Inr (dc_step ?s src, xout mode ?d dst)"
      using extractsD [where rest = "?rs @ rest", OF ex [of mode] _ Cons.prems(3,4)] r by simp
    then show ?thesis using True by (cases mode) auto
  next
    case False
    show ?thesis
    proof (cases "mode = XKey")
      case True
      then show ?thesis using False Cons.prems(4) by (simp add: src_mode_def xout_def wpos_def bv_append_Nil)
    next
      case nokey: False
      then have sm: "src_mode mode = Sample" by (simp add: src_mode_def)
      have "?any XSkip = Inr (dc_step ?s src, dst)"
        using extracts_skip [where rest = "?rs @ rest", OF ex [of XSkip] sm _ Cons.prems(3,4)] r sm by simp
      then show ?thesis using False nokey Cons.prems(4)
        by (cases mode) (auto simp: xout_def wpos_def bv_append_Nil)
    qed
  qed
  obtain w where w: "wpos (xout mode ?d dst) w" "mode \<noteq> XSkip \<Longrightarrow> w = woff + length ?d"
    using wpos_next [OF Cons.prems(4), of mode ?d] by (metis extract_key_mode.simps)
  have rest: "extractkey_members E (E \<noteq> T) (E \<noteq> D) tsc all_key ms mode (dc_step ?s src) (xout mode ?d dst)
      = Inr (dc_step ?rs (dc_step ?s src), xout mode (cdr_members D Key all_key ms xs' w) (xout mode ?d dst))"
    by (rule Cons.IH [OF xs(3) dc_rest_step [OF r] offset_next [OF Cons.prems(3)] w(1)]) (rule Cons.prems(5), simp_all)
  have out: "xout mode (cdr_members D Key all_key ms xs' w) (xout mode ?d dst)
      = xout mode (cdr_members D Key all_key (mem # ms) xs woff) dst"
    using w(2) by (cases "mode = XSkip") (simp_all add: xout_xout mem xs(1) Let_def, simp add: xout_def)
  have src: "dc_step ?rs (dc_step ?s src) = dc_step (cdr_members T (src_mode mode) ?all (mem # ms) xs off) src"
    by (simp add: mem xs(1) Let_def dc_step_append)
  have "extractkey_members E (E \<noteq> T) (E \<noteq> D) tsc all_key (mem # ms) mode src dst
      = extractkey_members E (E \<noteq> T) (E \<noteq> D) tsc all_key ms mode (dc_step ?s src) (xout mode ?d dst)"
    unfolding mem extractkey_members.simps one by simp
  then show ?case unfolding rest out src .
qed

lemma extractkey_step:
  "tsc_complete tsc vt \<Longrightarrow> wf_type vt \<Longrightarrow> mode_ok E D mode vt \<Longrightarrow> fits vt obj \<Longrightarrow>
     extracts (\<lambda>src dst. extractkey E (E \<noteq> T) (E \<noteq> D) tsc vt mode src dst) T D mode (\<lambda>T w off. cdr T w vt obj off)"
proof (induction vt arbitrary: obj mode rule: subtypes.induct)
  case (1 si ms)
  obtain os where os: "obj = LStruct os" "list_all2 (\<lambda>m. fits (member_type m)) ms os"
    using "1.prems"(4) by (cases obj) auto
  have mem: "extracts (\<lambda>src dst. extractkey_AnyValueType tsc (member_type mem) mode' src dst
          (extractkey E (E \<noteq> T) (E \<noteq> D) tsc (member_type mem) mode' src dst)) T D mode'
        (\<lambda>T w off. cdr T w (member_type mem) x off)"
    if m: "mem \<in> set ms" "fits (member_type mem) x" "mode' = XSkip \<or> mode' = mode \<and> (\<not> m_has_keys si \<or> is_key mem)"
    for mem x mode'
  proof (rule extractkey_any_step [OF _ _ m(2)])
    show t: "tsc_complete tsc (member_type mem)" using m(1) by (intro tsc_complete_sub [OF "1.prems"(1)]) auto
    have "mode_ok E D mode' (member_type mem)"
      using m "1.prems"(3) by (auto simp: mode_ok_def)
    then show "extracts (\<lambda>src dst. extractkey E (E \<noteq> T) (E \<noteq> D) tsc (member_type mem) mode' src dst) T D mode'
        (\<lambda>T w off. cdr T w (member_type mem) x off)"
      using "1.IH" [OF m(1) t _ _ m(2)] "1.prems"(2) m(1) by simp
  qed
  show ?case
    unfolding extracts_def
  proof (intro allI impI)
    fix src dst off woff rest
    assume h: "dc_rest src = cdr T (src_mode mode) (StructValueType si ms) obj off @ rest"
      "dc_offset src mod 8 = off mod 8" "wpos dst woff"
    have "extractkey_members E (E \<noteq> T) (E \<noteq> D) tsc (\<not> m_has_keys si) ms mode src dst
        = Inr (dc_step (cdr_members T (src_mode mode) (src_mode mode \<noteq> Key \<or> \<not> m_has_keys si) ms os off) src,
               xout mode (cdr_members D Key (\<not> m_has_keys si) ms os woff) dst)"
      by (rule extractkey_members_step [where rest = rest, OF mem os(2) _ h(2,3)]) (use h(1) os(1) in auto)
    then show "extractkey E (E \<noteq> T) (E \<noteq> D) tsc (StructValueType si ms) mode src dst
        = Inr (dc_step (cdr T (src_mode mode) (StructValueType si ms) obj off) src,
               xout mode (cdr D Key (StructValueType si ms) obj woff) dst)"
      by (simp add: os(1))
  qed
next
  case (2 e n sc)
  obtain os where os: "obj = LArr os" "length os = n" "\<forall>x \<in> set os. fits e x"
    using "2.prems"(4) by (cases obj) (auto simp: list_all_iff)
  have e: "tsc_complete tsc e" by (rule tsc_complete_sub [OF "2.prems"(1)]) auto
  obtain s where s: "sizeof_type e = Inr s" and wf: "wf_type e" using "2.prems"(2) by auto
  have kl: "mode = XSkip \<or> keyless e" and mo: "mode_ok E D mode e"
    using "2.prems"(3) keyless_key_safe by (auto simp: mode_ok_def)
  have any: "extracts (\<lambda>src dst. extractkey_AnyValueType tsc e mode src dst
      (extractkey E (E \<noteq> T) (E \<noteq> D) tsc e mode src dst)) T D mode (\<lambda>T w off. cdr T w e x off)" if "x \<in> set os" for x
    using os(3) that by (intro extractkey_any_step [OF "2.IH" [OF e wf mo] e]) auto
  show ?case
    unfolding extracts_def
  proof (intro allI impI)
    fix src dst off woff rest
    assume h: "dc_rest src = cdr T (src_mode mode) (ArrayValueType e n sc) obj off @ rest"
      "dc_offset src mod 8 = off mod 8" "wpos dst woff"
    show "extractkey E (E \<noteq> T) (E \<noteq> D) tsc (ArrayValueType e n sc) mode src dst
        = Inr (dc_step (cdr T (src_mode mode) (ArrayValueType e n sc) obj off) src,
               xout mode (cdr D Key (ArrayValueType e n sc) obj woff) dst)"
      using extractkey_many_step [where rest = rest, OF any _ h(2,3) e wf s os(3) kl] h(1) by (simp add: os(1) os(2) [symmetric])
  qed
next
  case (3 k e b)
  obtain os where os: "obj = LSeq os" "length os \<le> b" "\<forall>x \<in> set os. fits e x"
    using "3.prems"(4) by (cases obj) (auto simp: list_all_iff)
  have e: "tsc_complete tsc e" by (rule tsc_complete_sub [OF "3.prems"(1)]) auto
  obtain s where s: "sizeof_type e = Inr s" and wf: "wf_type e" using "3.prems"(2) by auto
  have kl: "mode = XSkip \<or> keyless e" and mo: "mode_ok E D mode e"
    using "3.prems"(3) keyless_key_safe by (auto simp: mode_ok_def)
  have any: "extracts (\<lambda>src dst. extractkey_AnyValueType tsc e mode src dst
      (extractkey E (E \<noteq> T) (E \<noteq> D) tsc e mode src dst)) T D mode (\<lambda>T w off. cdr T w e x off)" if "x \<in> set os" for x
    using os(3) that by (intro extractkey_any_step [OF "3.IH" [OF e wf mo] e]) auto
  show ?case
    unfolding extracts_def
  proof (intro allI impI)
    fix src dst off woff rest
    assume h: "dc_rest src = cdr T (src_mode mode) (SpanSequenceValueType k e b) obj off @ rest"
      "dc_offset src mod 8 = off mod 8" "wpos dst woff"
    let ?u = "cdr_u32 T (length os) off" and ?v = "cdr_u32 D (length os) woff"
    have r: "dc_rest src = ?u @ (cdr_list (cdr T (src_mode mode) e) os (off + length ?u) @ rest)"
      using h(1) os(1) by simp
    have "length os \<le> UINT32_MAX" using os(2) "3.prems"(2) by simp
    from deserialize_u32_step [OF r h(2) this]
    have u: "deserialize_u32 E (E \<noteq> T) src = Inr (length os, dc_step ?u src)" .
    have v: "(if mode \<noteq> XSkip then put_size E (E \<noteq> D) (length os) dst else Inr dst) = Inr (xout mode ?v dst)"
      using put_size_step [OF h(3), of E D "length os"] by (simp add: xout_def)
    obtain w where w: "wpos (xout mode ?v dst) w" "mode \<noteq> XSkip \<Longrightarrow> w = woff + length ?v"
      using wpos_next [OF h(3), of mode ?v] by (metis extract_key_mode.simps)
    have many: "extractkey_many (E \<noteq> T) (E \<noteq> D) tsc (\<lambda>src dst. extractkey_AnyValueType tsc e mode src dst
          (extractkey E (E \<noteq> T) (E \<noteq> D) tsc e mode src dst)) e mode (length os) (dc_step ?u src) (xout mode ?v dst)
        = Inr (dc_step (cdr_list (cdr T (src_mode mode) e) os (off + length ?u)) (dc_step ?u src),
               xout mode (cdr_list (cdr D Key e) os w) (xout mode ?v dst))"
      by (rule extractkey_many_step [OF any dc_rest_step [OF r] offset_next [OF h(2)] w(1) e wf s os(3) kl])
    have out: "xout mode (cdr_list (cdr D Key e) os w) (xout mode ?v dst)
        = xout mode (cdr D Key (SpanSequenceValueType k e b) obj woff) dst"
      using w(2) by (cases "mode = XSkip") (simp_all add: xout_xout os(1), simp add: xout_def)
    show "extractkey E (E \<noteq> T) (E \<noteq> D) tsc (SpanSequenceValueType k e b) mode src dst
        = Inr (dc_step (cdr T (src_mode mode) (SpanSequenceValueType k e b) obj off) src,
               xout mode (cdr D Key (SpanSequenceValueType k e b) obj woff) dst)"
      unfolding extractkey.simps u rbind_Inr prod.case v many out
      by (simp add: os(1) dc_step_append)
  qed
next
  case (4 k)
  obtain bs where bs: "obj = LPrim bs" "length bs = prim_cdrsizeof k" using "4.prems"(4) by (cases obj) auto
  have "is_primitive_kind k" using "4.prems"(2) by simp
  then show ?case unfolding extracts_def extractkey.simps bs(1)
    using extractkey_prim_step [OF _ _ _ bs(2)] by blast
next
  case (5 b sz)
  obtain s where s: "obj = LStr s" "length s \<le> b" using "5.prems"(4) by (cases obj) auto
  have "length s < UINT32_MAX" using s(2) "5.prems"(2) by simp
  then show ?case unfolding extracts_def extractkey.simps s(1) cdr.simps
    using extractkey_u8string_step by blast
next
  case (6 b sz)
  obtain s where s: "obj = LWStr s" "length s \<le> b" using "6.prems"(4) by (cases obj) auto
  have "2 * length s \<le> UINT32_MAX" using s(2) "6.prems"(2) by simp
  moreover have "mode = XSkip \<or> D = E" using "6.prems"(3) by (auto simp: mode_ok_def)
  ultimately show ?case unfolding extracts_def extractkey.simps s(1) cdr.simps
    using extractkey_u16string_step by blast
next
  case (7 b sz)
  obtain s where s: "obj = LBools s" "length s \<le> b" using "7.prems"(4) by (cases obj) auto
  have "length s \<le> UINT32_MAX" using s(2) "7.prems"(2) by simp
  then show ?case unfolding extracts_def extractkey.simps s(1) cdr.simps
    using extractkey_boolvector_step by blast
qed

section \<open>Whole messages\<close>

lemma put_header:
  "w_rebase bytevec_ops 4 (snd (bv_put_bytes [0, (if E = (if E \<noteq> D then big else little) then 1 else 0), 0, 0]
      (ByteVectorCursor pre))) = \<lparr>bv_pos = 0, bv_data = pre @ rtps_header D\<rparr>"
  by (cases E; cases D)
    (simp_all add: bv_put_bytes_def ByteVectorCursor_def bv_append_def bytevec_ops_def sz_sub_diff_def rtps_header_def)

lemma extractkey_message:
  assumes "tsc_complete tsc root" "wf_type root" "has_keys root" "key_safe root" "fits root obj"
    and "what = Sample \<Longrightarrow> variant = SRSample" "D \<noteq> E \<Longrightarrow> wstring_free root"
  shows "rbind (extractkey_top_level E tsc root variant what (E \<noteq> D)
       (DeserializeCursor (rtps_header T @ cdr T what root obj 0 @ rest)) (ByteVectorCursor pre)) (\<lambda>(_, c). Inr (bv_data c))
     = Inr (pre @ rtps_header D @ cdr D Key root obj 0)"
proof -
  let ?mode = "if what = Key then XKey else XSample"
  let ?dst = "\<lparr>bv_pos = 0, bv_data = pre @ rtps_header D\<rparr>"
  note c = header_cursor [of T "cdr T what root obj 0 @ rest"]
  have sm: "src_mode ?mode = what" by (cases what) (simp_all add: src_mode_def)
  have ok: "mode_ok E D ?mode root" using assms(4,7) by (auto simp: mode_ok_def)
  have w: "wpos ?dst 0" by (simp add: wpos_def)
  have r: "dc_rest (dc_rebase 4 (dc_step (rtps_header T) (DeserializeCursor (rtps_header T @ cdr T what root obj 0 @ rest))))
      = cdr T (src_mode ?mode) root obj 0 @ rest" using c(1) by (simp only: sm)
  have o: "dc_offset (dc_rebase 4 (dc_step (rtps_header T) (DeserializeCursor (rtps_header T @ cdr T what root obj 0 @ rest))))
      mod 8 = 0 mod 8" using c(2) by simp
  note any = extractsD [OF extractkey_any_step [OF extractkey_step [OF assms(1,2) ok assms(5)] assms(1,5)] r o w]
  have req: "\<not> (what = Sample \<and> variant = SRRequest)" using assms(6) by auto
  have bytes: "bv_data (xout ?mode bs ?dst) = pre @ rtps_header D @ bs" for bs
    by (simp add: xout_def bv_append_def)
  show ?thesis
    unfolding extractkey_top_level_def header_step rbind_Inr prod.case Let_def header_bswap_rtps put_header
      if_not_P [OF req] any
    using assms(3) bytes by (simp add: bytevec_ops_def)
qed

text \<open>
  A wide string as the only key.  Its length is transcoded to the byte order asked for, its
  characters only to that of the machine.
\<close>

lemma extractkey_wide_message:
  assumes "m_has_keys si" "2 * length s \<le> UINT32_MAX"
  shows "rbind (extractkey_top_level E tsc (StructValueType si [Member nm (U16StringValueType b sz) moff True]) variant Key (E \<noteq> D)
       (DeserializeCursor (rtps_header T @ (cdr_u32 T (2 * length s) 0 @ u16s_bytes T s) @ rest)) (ByteVectorCursor pre))
       (\<lambda>(_, c). Inr (bv_data c))
     = Inr (pre @ rtps_header D @ cdr_u32 D (2 * length s) 0 @ u16s_bytes E s)"
proof -
  let ?enc = "cdr_u32 T (2 * length s) 0 @ u16s_bytes T s"
  let ?dst = "\<lparr>bv_pos = 0, bv_data = pre @ rtps_header D\<rparr>"
  note c = header_cursor [of T "?enc @ rest"]
  have w: "wpos ?dst 0" by (simp add: wpos_def)
  have o: "dc_offset (dc_rebase 4 (dc_step (rtps_header T) (DeserializeCursor (rtps_header T @ ?enc @ rest)))) mod 8 = 0 mod 8"
    using c(2) by simp
  note out = extractkey_u16string_out [OF c(1) o assms(2) w, of E D XKey]
  have req: "\<not> (Key = Sample \<and> variant = SRRequest)" by simp
  show ?thesis
    unfolding extractkey_top_level_def header_step rbind_Inr prod.case Let_def header_bswap_rtps put_header if_not_P [OF req]
    using assms(1) out by (simp add: extractkey_AnyValueType_def xout_def bv_append_def bytevec_ops_def)
qed

end
