(* ===== verification/CdrPrint.thy ===== *)
theory CdrPrint
  imports CdrDecode
begin

text \<open>
  \<open>CDRReader::print\<close> of \<^verbatim>\<open>Serialization.cpp\<close>: a textual rendering of an encoded sample or key
  into a buffer.  The \<open>std::ostringstream\<close> is the text written so far.  How the standard library
  formats a floating-point number is a parameter.  The theory proves that below the limit the text
  is the rendering of the value encoded, and that the call is safe on arbitrary input and always
  leaves a terminated string within the buffer.
\<close>

section \<open>The model\<close>

record float_format =
  show_float :: "u32 \<Rightarrow> string"
  show_double :: "u64 \<Rightarrow> string"

fun digits :: "nat \<Rightarrow> nat \<Rightarrow> string" where
  "digits 0 n = []"
| "digits (Suc fuel) n = (if n < 10 then [] else digits fuel (n div 10)) @ [char_of (48 + n mod 10)]"

text \<open>Decimal digits; 64-bit numbers have at most 20.\<close>

definition show_nat :: "nat \<Rightarrow> string" where
  "show_nat n = digits 20 n"

definition show_int :: "int \<Rightarrow> string" where
  "show_int i = (if i < 0 then ''-'' @ show_nat (nat (- i)) else show_nat (nat i))"

definition byte_char :: "u8 \<Rightarrow> char" where
  "byte_char b = char_of (unat b)"

definition print_primitive_value :: "float_format \<Rightarrow> endian \<Rightarrow> type_kind \<Rightarrow> u8 list \<Rightarrow> string result" where
  "print_primitive_value fmt E k buf =
     (case k of
        CHAR_T \<Rightarrow> Inr (CHR 0x27 # map byte_char (take 1 buf) @ [CHR 0x27])
      | BOOLEAN \<Rightarrow> Inr (if buf ! 0 \<noteq> 0 then ''true'' else ''false'')
      | OCTET \<Rightarrow> Inr (show_nat (unat (bytes_word E buf :: u8)))
      | UINT8 \<Rightarrow> Inr (show_nat (unat (bytes_word E buf :: u8)))
      | INT8 \<Rightarrow> Inr (show_int (sint (bytes_word E buf :: u8)))
      | WCHAR \<Rightarrow> Inr (show_nat (unat (bytes_word E buf :: u16)))
      | UINT16 \<Rightarrow> Inr (show_nat (unat (bytes_word E buf :: u16)))
      | INT16 \<Rightarrow> Inr (show_int (sint (bytes_word E buf :: u16)))
      | UINT32 \<Rightarrow> Inr (show_nat (unat (bytes_word E buf :: u32)))
      | INT32 \<Rightarrow> Inr (show_int (sint (bytes_word E buf :: u32)))
      | FLOAT \<Rightarrow> Inr (show_float fmt (bytes_word E buf))
      | UINT64 \<Rightarrow> Inr (show_nat (unat (bytes_word E buf :: u64)))
      | INT64 \<Rightarrow> Inr (show_int (sint (bytes_word E buf :: u64)))
      | DOUBLE \<Rightarrow> Inr (show_double fmt (bytes_word E buf))
      | _ \<Rightarrow> Inl (UB ''unreachable''))"

definition print_prim ::
  "float_format \<Rightarrow> endian \<Rightarrow> bool \<Rightarrow> type_kind \<Rightarrow> string \<Rightarrow> deserialize_cursor \<Rightarrow> (string \<times> deserialize_cursor) result" where
  "print_prim fmt E bswap_src k out src =
     rbind (dc_align (prim_cdralignof k) src) (\<lambda>src.
     rbind (dc_advance (prim_cdrsizeof k) src) (\<lambda>(srcdata, src).
     let buf = (if bswap_src \<and> prim_cdrsizeof k \<in> {2, 4, 8} then bswapN E (prim_cdrsizeof k) srcdata else srcdata) in
     rbind (print_primitive_value fmt E k buf) (\<lambda>s. Inr (out @ s, src))))"

definition print_u8string :: "endian \<Rightarrow> bool \<Rightarrow> string \<Rightarrow> deserialize_cursor \<Rightarrow> (string \<times> deserialize_cursor) result" where
  "print_u8string E bswap_src out src =
     rbind (read_u8string E bswap_src src) (\<lambda>(s, src).
     Inr (out @ CHR 0x22 # map byte_char s @ [CHR 0x22], src))"

definition print_u16string :: "endian \<Rightarrow> bool \<Rightarrow> string \<Rightarrow> deserialize_cursor \<Rightarrow> (string \<times> deserialize_cursor) result" where
  "print_u16string E bswap_src out src =
     rbind (deserialize_u32 E bswap_src src) (\<lambda>(n, src).
     if n mod 2 \<noteq> 0 then Inl (RuntimeError ''CDR deserialization: odd number of bytes in wstring'')
     else rbind (dc_advance n src) (\<lambda>(_, src). Inr (out @ ''(wstring)'', src)))"

text \<open>The loop of \<open>print_many\<close> from index \<open>i\<close>; \<open>pr\<close> prints one element.\<close>

fun print_elements ::
  "nat \<Rightarrow> (string \<Rightarrow> deserialize_cursor \<Rightarrow> (string \<times> deserialize_cursor) result) \<Rightarrow> nat \<Rightarrow> nat \<Rightarrow> string \<Rightarrow>
   deserialize_cursor \<Rightarrow> (string \<times> deserialize_cursor) result" where
  "print_elements limit pr i 0 out src = Inr (out @ ''}'', src)"
| "print_elements limit pr i (Suc n) out src =
     (if limit < length out then Inr (out, src)
      else rbind (pr (if 0 < i then out @ '','' else out) src) (\<lambda>(out, src).
             print_elements limit pr (Suc i) n out src))"

definition print_many ::
  "nat \<Rightarrow> (string \<Rightarrow> deserialize_cursor \<Rightarrow> (string \<times> deserialize_cursor) result) \<Rightarrow> nat \<Rightarrow> string \<Rightarrow>
   deserialize_cursor \<Rightarrow> (string \<times> deserialize_cursor) result" where
  "print_many limit pr count out src = print_elements limit pr 0 count (out @ ''{'') src"

lemma print_elements_cong [fundef_cong]:
  assumes "limit = limit'" "i = i'" "n = n'" "out = out'" "src = src'" "\<And>x y. pr x y = pr' x y"
  shows "print_elements limit pr i n out src = print_elements limit' pr' i' n' out' src'"
proof -
  have "pr = pr'" using assms(6) by blast
  then show ?thesis using assms by simp
qed

lemma print_many_cong [fundef_cong]:
  assumes "limit = limit'" "n = n'" "out = out'" "src = src'" "\<And>x y. pr x y = pr' x y"
  shows "print_many limit pr n out src = print_many limit' pr' n' out' src'"
proof -
  have "pr = pr'" using assms(5) by blast
  then show ?thesis using assms by simp
qed

fun print ::
  "float_format \<Rightarrow> endian \<Rightarrow> bool \<Rightarrow> sample_or_key \<Rightarrow> nat \<Rightarrow> value_type \<Rightarrow> string \<Rightarrow> deserialize_cursor \<Rightarrow>
   (string \<times> deserialize_cursor) result"
  and print_members ::
  "float_format \<Rightarrow> endian \<Rightarrow> bool \<Rightarrow> sample_or_key \<Rightarrow> nat \<Rightarrow> bool \<Rightarrow> bool \<Rightarrow> member list \<Rightarrow> string \<Rightarrow>
   deserialize_cursor \<Rightarrow> (string \<times> deserialize_cursor) result"
where
  "print fmt E bs what limit (PrimitiveValueType k) out src = print_prim fmt E bs k out src"
| "print fmt E bs what limit (U8StringValueType b sz) out src = print_u8string E bs out src"
| "print fmt E bs what limit (U16StringValueType b sz) out src = print_u16string E bs out src"
| "print fmt E bs what limit (ArrayValueType e n sc) out src =
     print_many limit (print fmt E bs what limit e) n out src"
| "print fmt E bs what limit (SpanSequenceValueType k e b) out src =
     rbind (deserialize_u32 E bs src) (\<lambda>(count, src).
     print_many limit (print fmt E bs what limit e) count out src)"
| "print fmt E bs what limit (BoolVectorValueType b sz) out src =
     rbind (deserialize_u32 E bs src) (\<lambda>(count, src).
     print_many limit (print_prim fmt E bs BOOLEAN) count out src)"
| "print fmt E bs what limit (StructValueType si ms) out src =
     print_members fmt E bs what limit (what \<noteq> Key \<or> \<not> m_has_keys si) True ms out src"
| "print_members fmt E bs what limit all_fields first [] out src =
     Inr (if \<not> first then out @ ''}'' else out, src)"
| "print_members fmt E bs what limit all_fields first (Member nm vt moff key # ms) out src =
     (if limit < length out then Inr (out, src)
      else if key \<or> all_fields
      then rbind (print fmt E bs what limit vt (out @ (if first then ''{'' else '','')) src) (\<lambda>(out, src).
             print_members fmt E bs what limit all_fields False ms out src)
      else print_members fmt E bs what limit all_fields first ms out src)"

definition print_top_level ::
  "float_format \<Rightarrow> endian \<Rightarrow> value_type \<Rightarrow> sample_or_request \<Rightarrow> sample_or_key \<Rightarrow> nat \<Rightarrow> deserialize_cursor \<Rightarrow>
   (string \<times> deserialize_cursor) result" where
  "print_top_level fmt E root variant what limit src =
     rbind (read_header src) (\<lambda>(hdr, src).
     let bs = header_bswap E hdr in
     rbind (if what = Sample \<and> variant = SRRequest
            then rbind (print fmt E bs what limit (PrimitiveValueType UINT64) [] src) (\<lambda>(out, src).
                 print fmt E bs what limit (PrimitiveValueType UINT64) out src)
            else Inr ([], src)) (\<lambda>(out, src).
     rbind (if what = Sample \<or> has_keys root then print fmt E bs what limit root out src
            else Inr (out, src)) (\<lambda>(out, src).
     Inr (out, dc_rebase (-4) src))))"

text \<open>The buffer is a list of \<open>dstsize\<close> characters; the result is the value returned and the buffer.\<close>

definition reader_print ::
  "float_format \<Rightarrow> endian \<Rightarrow> cdr_reader \<Rightarrow> string \<Rightarrow> u8 list \<Rightarrow> sample_or_key \<Rightarrow> (nat \<times> string) result" where
  "reader_print fmt E r dst input what =
     (let dstsize = length dst in
      if dstsize = 0 then Inr (0, dst)
      else if what = Key \<and> \<not> has_keys (rd_root_value_type r) then Inr (0, dst[0 := CHR 0x00])
      else rbind (print_top_level fmt E (rd_root_value_type r) (rd_variant r) what dstsize (DeserializeCursor input))
        (\<lambda>(dststring, _).
        if length dststring < dstsize - 1
        then Inr (length dststring, dststring @ CHR 0x00 # drop (length dststring + 1) dst)
        else Inr (dstsize - 1, take (dstsize - 1) dststring @ [CHR 0x00])))"

section \<open>Arbitrary input\<close>

lemma print_primitive_value_total: "is_primitive_kind k \<Longrightarrow> \<exists>s. print_primitive_value fmt E k buf = Inr s"
  by (cases k) (simp_all add: print_primitive_value_def is_primitive_kind_def)

lemma print_prim_safe:
  assumes "dc_inv c" "is_primitive_kind k"
  shows "safe_read (\<lambda>_. True) (print_prim fmt E bs k out c)"
proof -
  have pos: "0 < prim_cdralignof k" using prim_cdrsizeof_pos [OF assms(2)] by (simp add: prim_cdralignof_def)
  show ?thesis
    unfolding print_prim_def
  proof (rule safe_align [OF assms(1) pos])
    fix c assume c: "dc_inv c"
    show "safe_read (\<lambda>_. True) (rbind (dc_advance (prim_cdrsizeof k) c) (\<lambda>(srcdata, src).
       let buf = (if bs \<and> prim_cdrsizeof k \<in> {2, 4, 8} then bswapN E (prim_cdrsizeof k) srcdata else srcdata) in
       rbind (print_primitive_value fmt E k buf) (\<lambda>s. Inr (out @ s, src))))"
    proof (rule safe_bind [OF safe_advance [OF c]], unfold prod.case Let_def)
      fix x d assume "dc_inv d"
      then show "safe_read (\<lambda>_. True) (rbind (print_primitive_value fmt E k
          (if bs \<and> prim_cdrsizeof k \<in> {2, 4, 8} then bswapN E (prim_cdrsizeof k) x else x)) (\<lambda>s. Inr (out @ s, d)))"
        using print_primitive_value_total [OF assms(2), of fmt E
            "if bs \<and> prim_cdrsizeof k \<in> {2, 4, 8} then bswapN E (prim_cdrsizeof k) x else x"] by auto
    qed
  qed
qed

lemma print_elements_safe:
  assumes "\<And>out c. dc_inv c \<Longrightarrow> safe_read (\<lambda>_. True) (pr out c)"
  shows "dc_inv c \<Longrightarrow> safe_read (\<lambda>_. True) (print_elements limit pr i n out c)"
proof (induction n arbitrary: i out c)
  case 0
  then show ?case by simp
next
  case (Suc n)
  have "safe_read (\<lambda>_. True) (rbind (pr (if 0 < i then out @ '','' else out) c) (\<lambda>(out, src).
      print_elements limit pr (Suc i) n out src))"
    by (rule safe_bind [OF assms [OF Suc.prems]], unfold prod.case) (rule Suc.IH)
  then show ?case using Suc.prems by simp
qed

lemma print_many_safe:
  "(\<And>out c. dc_inv c \<Longrightarrow> safe_read (\<lambda>_. True) (pr out c)) \<Longrightarrow> dc_inv c \<Longrightarrow>
     safe_read (\<lambda>_. True) (print_many limit pr n out c)"
  unfolding print_many_def by (rule print_elements_safe)

lemma print_members_safe:
  assumes "\<And>mem out c. mem \<in> set ms \<Longrightarrow> dc_inv c \<Longrightarrow> safe_read (\<lambda>_. True) (print fmt E bs w limit (member_type mem) out c)"
  shows "dc_inv c \<Longrightarrow> safe_read (\<lambda>_. True) (print_members fmt E bs w limit all_fields first ms out c)"
  using assms
proof (induction ms arbitrary: first out c)
  case Nil
  then show ?case by simp
next
  case (Cons mem ms)
  obtain nm vt moff key where mem: "mem = Member nm vt moff key" by (cases mem)
  have IH: "safe_read (\<lambda>_. True) (print_members fmt E bs w limit all_fields first ms out c)" if "dc_inv c" for first out c
    using Cons.IH [OF that] Cons.prems(2) by simp
  have one: "safe_read (\<lambda>_. True) (print fmt E bs w limit vt out c)" for out
    using Cons.prems(2) [of mem c out] Cons.prems(1) mem by simp
  have "safe_read (\<lambda>_. True) (rbind (print fmt E bs w limit vt out' c) (\<lambda>(out, src).
      print_members fmt E bs w limit all_fields False ms out src))" for out'
    by (rule safe_bind [OF one], unfold prod.case) (rule IH)
  then show ?case unfolding mem using IH [OF Cons.prems(1)] Cons.prems(1) by auto
qed

lemma print_safe: "wf_type vt \<Longrightarrow> dc_inv c \<Longrightarrow> safe_read (\<lambda>_. True) (print fmt E bs w limit vt out c)"
proof (induction vt arbitrary: out c rule: subtypes.induct)
  case (1 si ms)
  then show ?case using print_members_safe [of ms fmt E bs w limit c] by simp
next
  case (2 e n sc)
  then show ?case by (simp add: print_many_safe)
next
  case (3 k e b)
  have "safe_read (\<lambda>_. True) (rbind (deserialize_u32 E bs c) (\<lambda>(count, src).
      print_many limit (print fmt E bs w limit e) count out src))"
    by (rule safe_bind [OF safe_u32 [OF "3.prems"(2)]], unfold prod.case) (rule print_many_safe, use 3 in auto)
  then show ?case by simp
next
  case (4 k)
  then show ?case by (simp add: print_prim_safe)
next
  case (5 b sz)
  have "safe_read (\<lambda>_. True) (rbind (read_u8string E bs c) (\<lambda>(s, src).
     Inr (out @ CHR 0x22 # map byte_char s @ [CHR 0x22], src)))"
    by (rule safe_bind [OF safe_u8string [OF "5.prems"(2)]]) simp
  then show ?case by (simp add: print_u8string_def)
next
  case (6 b sz)
  have "safe_read (\<lambda>_. True) (rbind (dc_advance n c) (\<lambda>(_, src). Inr (out @ ''(wstring)'', src)))" if "dc_inv c" for n c
    by (rule safe_bind [OF safe_advance [OF that]]) simp
  then have "safe_read (\<lambda>_. True) (rbind (deserialize_u32 E bs c) (\<lambda>(n, src).
     if n mod 2 \<noteq> 0 then Inl (RuntimeError ''CDR deserialization: odd number of bytes in wstring'')
     else rbind (dc_advance n src) (\<lambda>(_, src). Inr (out @ ''(wstring)'', src))))"
    by (intro safe_bind [OF safe_u32 [OF "6.prems"(2)]]) simp
  then show ?case by (simp add: print_u16string_def)
next
  case (7 b sz)
  have "safe_read (\<lambda>_. True) (rbind (deserialize_u32 E bs c) (\<lambda>(count, src).
      print_many limit (print_prim fmt E bs BOOLEAN) count out src))"
    by (rule safe_bind [OF safe_u32 [OF "7.prems"(2)]], unfold prod.case)
      (rule print_many_safe, auto intro: print_prim_safe simp: is_primitive_kind_def)
  then show ?case by simp
qed

lemma print_top_level_safe:
  assumes "wf_type root" "dc_inv c"
  shows "safe_read (\<lambda>_. True) (print_top_level fmt E root variant w limit c)"
  unfolding print_top_level_def Let_def
proof (rule safe_bind [OF safe_header [OF assms(2)]], unfold prod.case, rule safe_bind [where P = "\<lambda>_. True"], unfold prod.case)
  fix hdr c assume c: "dc_inv c"
  have u64: "wf_type (PrimitiveValueType UINT64)" by (simp add: is_primitive_kind_def)
  have "safe_read (\<lambda>_. True) (rbind (print fmt E (header_bswap E hdr) w limit (PrimitiveValueType UINT64) [] c) (\<lambda>(out, src).
      print fmt E (header_bswap E hdr) w limit (PrimitiveValueType UINT64) out src))"
    by (rule safe_bind [OF print_safe [OF u64 c]], unfold prod.case) (rule print_safe [OF u64])
  then show "safe_read (\<lambda>_. True) (if w = Sample \<and> variant = SRRequest
      then rbind (print fmt E (header_bswap E hdr) w limit (PrimitiveValueType UINT64) [] c) (\<lambda>(out, src).
        print fmt E (header_bswap E hdr) w limit (PrimitiveValueType UINT64) out src)
      else Inr ([], c))"
    using c by (cases "w = Sample \<and> variant = SRRequest") (simp_all only: if_True if_False safe_read_simps simp_thms)
next
  fix hdr :: "u8 list" and c :: deserialize_cursor and out d assume d: "dc_inv d"
  have "safe_read (\<lambda>_. True) (if w = Sample \<or> has_keys root then print fmt E (header_bswap E hdr) w limit root out d else Inr (out, d))"
    using print_safe [OF assms(1) d] d by simp
  then show "safe_read (\<lambda>_. True) (rbind (if w = Sample \<or> has_keys root
      then print fmt E (header_bswap E hdr) w limit root out d else Inr (out, d)) (\<lambda>(out, src). Inr (out, dc_rebase (-4) src)))"
    by (rule safe_bind) simp
qed

text \<open>The call is safe, and leaves a terminated string in a buffer of the same size.\<close>

lemma reader_print_terminated:
  assumes "reader_print fmt E r dst input what = Inr (n, dst')" "0 < length dst"
  shows "n < length dst" "length dst' = length dst" "dst' ! n = CHR 0x00"
proof -
  have "n < length dst \<and> length dst' = length dst \<and> dst' ! n = CHR 0x00"
    using assms by (auto simp: reader_print_def Let_def rbind_eq_Inr nth_append min_def split: if_splits)
  then show "n < length dst" "length dst' = length dst" "dst' ! n = CHR 0x00" by auto
qed

lemma reader_print_no_ub:
  assumes "wf_type (rd_root_value_type r)"
  shows "reader_print fmt E r dst input what \<noteq> Inl (UB s)"
proof -
  have "dc_inv (DeserializeCursor input)" by (simp add: dc_inv_def DeserializeCursor_def)
  from print_top_level_safe [OF assms this, of fmt E "rd_variant r" what "length dst"]
  show ?thesis
    by (cases "print_top_level fmt E (rd_root_value_type r) (rd_variant r) what (length dst) (DeserializeCursor input)")
      (auto simp: reader_print_def Let_def split: if_splits)
qed

section \<open>The text of an encoded value\<close>

fun render_prim :: "float_format \<Rightarrow> type_kind \<Rightarrow> u8 list \<Rightarrow> string" where
  "render_prim fmt k bs = (case print_primitive_value fmt little k bs of Inr s \<Rightarrow> s | Inl _ \<Rightarrow> [])"

fun commas :: "bool \<Rightarrow> string list \<Rightarrow> string" where
  "commas first [] = ''}''"
| "commas first (s # ss) = (if first then [] else '','') @ s @ commas False ss"

fun render :: "float_format \<Rightarrow> sample_or_key \<Rightarrow> value_type \<Rightarrow> lobj \<Rightarrow> string"
  and render_members :: "float_format \<Rightarrow> sample_or_key \<Rightarrow> bool \<Rightarrow> bool \<Rightarrow> member list \<Rightarrow> lobj list \<Rightarrow> string"
where
  "render fmt w (PrimitiveValueType k) (LPrim bs) = render_prim fmt k bs"
| "render fmt w (U8StringValueType b sz) (LStr s) = CHR 0x22 # map byte_char s @ [CHR 0x22]"
| "render fmt w (U16StringValueType b sz) (LWStr s) = ''(wstring)''"
| "render fmt w (ArrayValueType e n sc) (LArr os) = ''{'' @ commas True (map (render fmt w e) os)"
| "render fmt w (SpanSequenceValueType k e b) (LSeq os) = ''{'' @ commas True (map (render fmt w e) os)"
| "render fmt w (BoolVectorValueType b sz) (LBools bs) =
     ''{'' @ commas True (map (\<lambda>b. render_prim fmt BOOLEAN [bool_byte b]) bs)"
| "render fmt w (StructValueType si ms) (LStruct os) = render_members fmt w (w \<noteq> Key \<or> \<not> m_has_keys si) True ms os"
| "render fmt w vt obj = []"
| "render_members fmt w all_fields first (Member nm vt moff key # ms) (x # xs) =
     (if key \<or> all_fields
      then (if first then ''{'' else '','') @ render fmt w vt x @ render_members fmt w all_fields False ms xs
      else render_members fmt w all_fields first ms xs)"
| "render_members fmt w all_fields first ms xs = (if first then [] else ''}'')"

definition prints ::
  "nat \<Rightarrow> (string \<Rightarrow> deserialize_cursor \<Rightarrow> (string \<times> deserialize_cursor) result) \<Rightarrow> (nat \<Rightarrow> u8 list) \<Rightarrow> string \<Rightarrow> bool" where
  "prints limit pr enc txt \<longleftrightarrow>
     (\<forall>out src off rest. dc_rest src = enc off @ rest \<longrightarrow> dc_offset src mod 8 = off mod 8 \<longrightarrow>
        length (out @ txt) \<le> limit \<longrightarrow> pr out src = Inr (out @ txt, dc_step (enc off) src))"

lemma printsD:
  "prints limit pr enc txt \<Longrightarrow> dc_rest src = enc off @ rest \<Longrightarrow> dc_offset src mod 8 = off mod 8 \<Longrightarrow>
     length (out @ txt) \<le> limit \<Longrightarrow> pr out src = Inr (out @ txt, dc_step (enc off) src)"
  unfolding prints_def by blast

lemma offset_after: "dc_offset c mod 8 = off mod 8 \<Longrightarrow> dc_offset (dc_step bs c) mod 8 = (off + length bs) mod 8"
  using dc_offset_step [of bs c] by (metis mod_add_left_eq)

lemma print_prim_prints:
  assumes "is_primitive_kind k" "length bs = prim_cdrsizeof k"
  shows "prints limit (print_prim fmt E (E \<noteq> T) k) (cdr T w (PrimitiveValueType k) (LPrim bs)) (render_prim fmt k bs)"
  unfolding prints_def
proof (intro allI impI)
  fix out src off rest
  assume r: "dc_rest src = cdr T w (PrimitiveValueType k) (LPrim bs) off @ rest" and off: "dc_offset src mod 8 = off mod 8"
  let ?n = "prim_cdrsizeof k"
  let ?z = "zeros (padding ?n off)"
  have n: "0 < ?n" "?n dvd 8" using assms(1) prim_cdrsizeof_pos prim_cdrsizeof_dvd_8 by auto
  have r: "dc_rest src = ?z @ (in_order T bs @ rest)" using r by (simp add: prim_cdralignof_def)
  have al: "dc_align ?n src = Inr (dc_step ?z src)" by (rule dc_align_step [OF r n off])
  have ad: "dc_advance ?n (dc_step ?z src) = Inr (in_order T bs, dc_step (in_order T bs) (dc_step ?z src))"
    by (rule dc_advance_step [OF dc_rest_step [OF r]]) (simp add: assms(2))
  have "bswapN E ?n (in_order T bs) = rev (in_order T bs)"
    by (rule bswapN_rev) (use assms prim_sizes(2) [OF assms(1)] in auto)
  moreover have "?n \<notin> {2, 4, 8} \<Longrightarrow> rev (in_order T bs) = in_order T bs"
    using assms(2) prim_sizes(2) [OF assms(1)] by (cases bs) auto
  ultimately have buf: "(if E \<noteq> T \<and> ?n \<in> {2, 4, 8} then bswapN E ?n (in_order T bs) else in_order T bs) = in_order E bs"
    using in_order_other [of E T bs] by (cases "E = T") auto
  have b1: "?n = 1 \<Longrightarrow> in_order E bs = bs" using assms(2) by (cases bs) auto
  have "print_primitive_value fmt E k (in_order E bs) = print_primitive_value fmt little k bs"
    using assms(1) b1 by (cases k) (simp_all add: print_primitive_value_def bytes_word_def is_primitive_kind_def)
  then have v: "print_primitive_value fmt E k (in_order E bs) = Inr (render_prim fmt k bs)"
    using print_primitive_value_total [OF assms(1), of fmt little bs] by auto
  show "print_prim fmt E (E \<noteq> T) k out src
      = Inr (out @ render_prim fmt k bs, dc_step (cdr T w (PrimitiveValueType k) (LPrim bs) off) src)"
    unfolding print_prim_def prim_cdralignof_def al ad rbind_Inr prod.case Let_def buf v
    by (simp add: prim_cdralignof_def dc_step_append)
qed

lemma print_elements_prints:
  assumes "\<And>x. x \<in> set xs \<Longrightarrow> prints limit pr (f x) (g x)"
  shows "dc_rest src = cdr_list f xs off @ rest \<Longrightarrow> dc_offset src mod 8 = off mod 8 \<Longrightarrow>
     length (out @ commas (i = 0) (map g xs)) \<le> limit \<Longrightarrow>
     print_elements limit pr i (length xs) out src
       = Inr (out @ commas (i = 0) (map g xs), dc_step (cdr_list f xs off) src)"
  using assms
proof (induction xs arbitrary: i out src off)
  case Nil
  then show ?case by simp
next
  case (Cons x xs)
  let ?e = "f x off"
  let ?out = "if 0 < i then out @ '','' else out"
  have r: "dc_rest src = ?e @ (cdr_list f xs (off + length ?e) @ rest)" using Cons.prems(1) by (simp add: Let_def)
  have lim: "\<not> limit < length out" "length (?out @ g x) \<le> limit"
    "length ((?out @ g x) @ commas (Suc i = 0) (map g xs)) \<le> limit"
    using Cons.prems(3) by (auto split: if_splits)
  have one: "pr ?out src = Inr (?out @ g x, dc_step ?e src)"
    by (rule printsD [OF Cons.prems(4) r Cons.prems(2) lim(2)]) simp
  have "print_elements limit pr (Suc i) (length xs) (?out @ g x) (dc_step ?e src)
      = Inr ((?out @ g x) @ commas (Suc i = 0) (map g xs), dc_step (cdr_list f xs (off + length ?e)) (dc_step ?e src))"
    by (rule Cons.IH [OF dc_rest_step [OF r] offset_after [OF Cons.prems(2)] lim(3)]) (rule Cons.prems(4), simp)
  then show ?case using lim(1) one by (simp add: Let_def dc_step_append)
qed

lemma print_many_prints:
  assumes "\<And>x. x \<in> set xs \<Longrightarrow> prints limit pr (f x) (g x)"
  shows "prints limit (print_many limit pr (length xs)) (cdr_list f xs) (''{'' @ commas True (map g xs))"
  unfolding prints_def print_many_def
proof (intro allI impI)
  fix out src off rest
  assume h: "dc_rest src = cdr_list f xs off @ rest" "dc_offset src mod 8 = off mod 8"
    "length (out @ ''{'' @ commas True (map g xs)) \<le> limit"
  have "print_elements limit pr 0 (length xs) (out @ ''{'') src
      = Inr ((out @ ''{'') @ commas (0 = (0 :: nat)) (map g xs), dc_step (cdr_list f xs off) src)"
    by (rule print_elements_prints [OF assms h(1,2)]) (use h(3) in simp_all)
  then show "print_elements limit pr 0 (length xs) (out @ ''{'') src
      = Inr (out @ ''{'' @ commas True (map g xs), dc_step (cdr_list f xs off) src)" by simp
qed

lemma print_counted_prints:
  assumes "\<And>x. x \<in> set xs \<Longrightarrow> prints limit pr (f x) (g x)" "length xs \<le> UINT32_MAX"
  shows "prints limit (\<lambda>out src. rbind (deserialize_u32 E (E \<noteq> T) src) (\<lambda>(count, src). print_many limit pr count out src))
     (\<lambda>off. cdr_u32 T (length xs) off @ cdr_list f xs (off + length (cdr_u32 T (length xs) off)))
     (''{'' @ commas True (map g xs))"
  unfolding prints_def
proof (intro allI impI)
  fix out src off rest
  let ?u = "cdr_u32 T (length xs) off"
  assume h: "dc_rest src = (?u @ cdr_list f xs (off + length ?u)) @ rest" "dc_offset src mod 8 = off mod 8"
    "length (out @ ''{'' @ commas True (map g xs)) \<le> limit"
  have r: "dc_rest src = ?u @ (cdr_list f xs (off + length ?u) @ rest)" using h(1) by simp
  have u: "deserialize_u32 E (E \<noteq> T) src = Inr (length xs, dc_step ?u src)"
    by (rule deserialize_u32_step [OF r h(2) assms(2)])
  have "print_many limit pr (length xs) out (dc_step ?u src)
      = Inr (out @ ''{'' @ commas True (map g xs), dc_step (cdr_list f xs (off + length ?u)) (dc_step ?u src))"
    by (rule printsD [OF print_many_prints [OF assms(1)] dc_rest_step [OF r] offset_after [OF h(2)] h(3)])
  then show "rbind (deserialize_u32 E (E \<noteq> T) src) (\<lambda>(count, src). print_many limit pr count out src)
      = Inr (out @ ''{'' @ commas True (map g xs), dc_step (?u @ cdr_list f xs (off + length ?u)) src)"
    by (simp add: u dc_step_append)
qed

lemma cdr_list_bools:
  "cdr_list (\<lambda>b. cdr T w (PrimitiveValueType BOOLEAN) (LPrim [bool_byte b])) bs off = map bool_byte bs"
  by (induction bs arbitrary: off) (simp_all add: prim_cdralignof_def Let_def)

lemma print_members_prints:
  assumes "\<And>mem x. mem \<in> set ms \<Longrightarrow> fits (member_type mem) x \<Longrightarrow>
      prints limit (print fmt E (E \<noteq> T) w limit (member_type mem)) (cdr T w (member_type mem) x)
        (render fmt w (member_type mem) x)"
  shows "list_all2 (\<lambda>m. fits (member_type m)) ms xs \<Longrightarrow> dc_rest src = cdr_members T w all_fields ms xs off @ rest \<Longrightarrow>
     dc_offset src mod 8 = off mod 8 \<Longrightarrow> length (out @ render_members fmt w all_fields first ms xs) \<le> limit \<Longrightarrow>
     print_members fmt E (E \<noteq> T) w limit all_fields first ms out src
       = Inr (out @ render_members fmt w all_fields first ms xs, dc_step (cdr_members T w all_fields ms xs off) src)"
  using assms
proof (induction ms arbitrary: xs first out src off)
  case Nil
  then show ?case by simp
next
  case (Cons mem ms)
  obtain nm vt moff key where mem: "mem = Member nm vt moff key" by (cases mem)
  obtain x xs' where xs: "xs = x # xs'" "fits vt x" "list_all2 (\<lambda>m. fits (member_type m)) ms xs'"
    using Cons.prems(1) by (cases xs) (auto simp: mem)
  have IH: "print_members fmt E (E \<noteq> T) w limit all_fields first ms out src
       = Inr (out @ render_members fmt w all_fields first ms xs', dc_step (cdr_members T w all_fields ms xs' off) src)"
    if "dc_rest src = cdr_members T w all_fields ms xs' off @ rest" "dc_offset src mod 8 = off mod 8"
      "length (out @ render_members fmt w all_fields first ms xs') \<le> limit" for src out first off
    by (rule Cons.IH [OF xs(3) that]) (rule Cons.prems(5), simp_all)
  show ?case
  proof (cases "key \<or> all_fields")
    case True
    let ?e = "cdr T w vt x off" and ?out = "out @ (if first then ''{'' else '','')"
    have r: "dc_rest src = ?e @ (cdr_members T w all_fields ms xs' (off + length ?e) @ rest)"
      using Cons.prems(2) True by (simp add: mem xs(1) Let_def disj_commute)
    have lim: "\<not> limit < length out" "length (?out @ render fmt w vt x) \<le> limit"
      "length ((?out @ render fmt w vt x) @ render_members fmt w all_fields False ms xs') \<le> limit"
      using Cons.prems(4) True by (auto simp: mem xs(1))
    have "prints limit (print fmt E (E \<noteq> T) w limit vt) (cdr T w vt x) (render fmt w vt x)"
      using Cons.prems(5) [of mem x] xs(2) mem by simp
    from printsD [OF this r Cons.prems(3) lim(2)]
    have one: "print fmt E (E \<noteq> T) w limit vt ?out src = Inr (?out @ render fmt w vt x, dc_step ?e src)" .
    note rest = IH [OF dc_rest_step [OF r] offset_after [OF Cons.prems(3)] lim(3)]
    show ?thesis using lim(1) True one rest by (auto simp: mem xs(1) Let_def dc_step_append)
  next
    case False
    have lim: "\<not> limit < length out" using Cons.prems(4) by auto
    have "print_members fmt E (E \<noteq> T) w limit all_fields first ms out src
       = Inr (out @ render_members fmt w all_fields first ms xs', dc_step (cdr_members T w all_fields ms xs' off) src)"
      by (rule IH) (use Cons.prems(2-4) False in \<open>auto simp: mem xs(1) Let_def\<close>)
    then show ?thesis using lim False by (simp add: mem xs(1) Let_def)
  qed
qed

lemma print_prints:
  "wf_type vt \<Longrightarrow> fits vt obj \<Longrightarrow>
     prints limit (print fmt E (E \<noteq> T) w limit vt) (cdr T w vt obj) (render fmt w vt obj)"
proof (induction vt arbitrary: obj rule: subtypes.induct)
  case (1 si ms)
  obtain os where os: "obj = LStruct os" "list_all2 (\<lambda>m. fits (member_type m)) ms os"
    using "1.prems"(2) by (cases obj) auto
  have mem: "prints limit (print fmt E (E \<noteq> T) w limit (member_type mem)) (cdr T w (member_type mem) x)
        (render fmt w (member_type mem) x)" if "mem \<in> set ms" "fits (member_type mem) x" for mem x
    using "1.IH" [OF that(1) _ that(2)] "1.prems"(1) that(1) by simp
  show ?case unfolding prints_def os(1) print.simps cdr.simps render.simps
    using print_members_prints [OF mem os(2)] by blast
next
  case (2 e n sc)
  obtain os where os: "obj = LArr os" "length os = n" "\<forall>x \<in> set os. fits e x"
    using "2.prems"(2) by (cases obj) (auto simp: list_all_iff)
  have "prints limit (print fmt E (E \<noteq> T) w limit e) (cdr T w e x) (render fmt w e x)" if "x \<in> set os" for x
    using "2.IH" "2.prems"(1) os(3) that by simp
  then have "prints limit (print_many limit (print fmt E (E \<noteq> T) w limit e) (length os)) (cdr_list (cdr T w e) os)
      (''{'' @ commas True (map (render fmt w e) os))" by (rule print_many_prints)
  then show ?case
    unfolding prints_def os(1) print.simps cdr.simps render.simps os(2) [symmetric] by blast
next
  case (3 k e b)
  obtain os where os: "obj = LSeq os" "length os \<le> b" "\<forall>x \<in> set os. fits e x"
    using "3.prems"(2) by (cases obj) (auto simp: list_all_iff)
  have "prints limit (print fmt E (E \<noteq> T) w limit e) (cdr T w e x) (render fmt w e x)" if "x \<in> set os" for x
    using "3.IH" "3.prems"(1) os(3) that by simp
  moreover have "length os \<le> UINT32_MAX" using os(2) "3.prems"(1) by simp
  ultimately show ?case
    unfolding prints_def os(1) print.simps cdr.simps render.simps
    using print_counted_prints [of os limit "print fmt E (E \<noteq> T) w limit e" "cdr T w e" "render fmt w e" E T]
    unfolding prints_def by blast
next
  case (4 k)
  obtain bs where bs: "obj = LPrim bs" "length bs = prim_cdrsizeof k" using "4.prems"(2) by (cases obj) auto
  show ?case unfolding prints_def bs(1) print.simps render.simps
    using print_prim_prints [OF _ bs(2)] "4.prems"(1) unfolding prints_def by simp
next
  case (5 b sz)
  obtain s where s: "obj = LStr s" "length s \<le> b" using "5.prems"(2) by (cases obj) auto
  have "length s < UINT32_MAX" using s(2) "5.prems"(1) by simp
  then show ?case unfolding prints_def s(1) print.simps cdr.simps render.simps print_u8string_def
    using read_u8string_step [of _ T s _ _ E] by auto
next
  case (6 b sz)
  obtain s where s: "obj = LWStr s" "length s \<le> b" using "6.prems"(2) by (cases obj) auto
  have l: "2 * length s \<le> UINT32_MAX" using s(2) "6.prems"(1) by simp
  show ?case unfolding prints_def s(1) print.simps cdr.simps render.simps
  proof (intro allI impI)
    fix out src off rest
    let ?u = "cdr_u32 T (2 * length s) off"
    assume h: "dc_rest src = (?u @ u16s_bytes T s) @ rest" "dc_offset src mod 8 = off mod 8"
    have r: "dc_rest src = ?u @ (u16s_bytes T s @ rest)" using h(1) by simp
    have u: "deserialize_u32 E (E \<noteq> T) src = Inr (2 * length s, dc_step ?u src)"
      by (rule deserialize_u32_step [OF r h(2) l])
    have ad: "dc_advance (2 * length s) (dc_step ?u src) = Inr (u16s_bytes T s, dc_step (u16s_bytes T s) (dc_step ?u src))"
      by (rule dc_advance_step [OF dc_rest_step [OF r]]) simp
    show "print_u16string E (E \<noteq> T) out src = Inr (out @ ''(wstring)'', dc_step (?u @ u16s_bytes T s) src)"
      by (simp add: print_u16string_def u ad dc_step_append)
  qed
next
  case (7 b sz)
  obtain bs where bs: "obj = LBools bs" "length bs \<le> b" using "7.prems"(2) by (cases obj) auto
  have l: "length bs \<le> UINT32_MAX" using bs(2) "7.prems"(1) by simp
  have "prints limit (print_prim fmt E (E \<noteq> T) BOOLEAN) (cdr T w (PrimitiveValueType BOOLEAN) (LPrim [bool_byte b]))
      (render_prim fmt BOOLEAN [bool_byte b])" for b
    by (rule print_prim_prints) (simp_all add: is_primitive_kind_def)
  then have "prints limit (\<lambda>out src. rbind (deserialize_u32 E (E \<noteq> T) src)
        (\<lambda>(count, src). print_many limit (print_prim fmt E (E \<noteq> T) BOOLEAN) count out src))
      (\<lambda>off. cdr_u32 T (length bs) off @ map bool_byte bs)
      (''{'' @ commas True (map (\<lambda>b. render_prim fmt BOOLEAN [bool_byte b]) bs))"
    using print_counted_prints [where xs = bs and f = "\<lambda>b. cdr T w (PrimitiveValueType BOOLEAN) (LPrim [bool_byte b])"
        and g = "\<lambda>b. render_prim fmt BOOLEAN [bool_byte b]", OF _ l]
    unfolding cdr_list_bools by blast
  then show ?case unfolding prints_def bs(1) print.simps cdr.simps render.simps by blast
qed

lemma print_message:
  assumes "wf_type root" "fits root obj" "w = Sample \<Longrightarrow> variant = SRSample" "w = Sample \<or> has_keys root"
    and "length (render fmt w root obj) \<le> limit"
  shows "print_top_level fmt E root variant w limit (DeserializeCursor (rtps_header T @ cdr T w root obj 0 @ rest))
     = Inr (render fmt w root obj, dc_rebase (-4) (dc_step (cdr T w root obj 0)
         (dc_rebase 4 (dc_step (rtps_header T) (DeserializeCursor (rtps_header T @ cdr T w root obj 0 @ rest))))))"
proof -
  note c = header_cursor [of T "cdr T w root obj 0 @ rest"]
  have "print fmt E (E \<noteq> T) w limit root [] (dc_rebase 4 (dc_step (rtps_header T) (DeserializeCursor (rtps_header T @ cdr T w root obj 0 @ rest))))
     = Inr ([] @ render fmt w root obj, dc_step (cdr T w root obj 0)
         (dc_rebase 4 (dc_step (rtps_header T) (DeserializeCursor (rtps_header T @ cdr T w root obj 0 @ rest)))))"
    by (rule printsD [OF print_prints [OF assms(1,2)] c(1)]) (use c(2) assms(5) in simp_all)
  moreover have req: "\<not> (w = Sample \<and> variant = SRRequest)" using assms(3) by auto
  ultimately show ?thesis
    unfolding print_top_level_def header_step rbind_Inr prod.case Let_def header_bswap_rtps if_not_P [OF req]
    using assms(4) by simp
qed

end
