(* ===== verification/Serdata.thy ===== *)
theory Serdata
  imports ExtractKey CdrPrint
begin

text \<open>
  \<^verbatim>\<open>serdata.cpp\<close>: the serialized samples Cyclone DDS handles (\<open>serdata_rmw\<close>) and their types
  (\<open>sertype_rmw\<close>), built on the CDR reader and writer.  Of the conditional compilation the model
  follows the branch for versions after 0.10, with loaned samples.  An operation of the table
  \<open>serdata_rmw_ops\<close> is a function of the serdata; where the code sets the rmw error message and
  carries on, the message is part of the result.
\<close>

section \<open>What the code relies on\<close>

text \<open>
  The allocator (\<open>None\<close> for \<open>std::bad_alloc\<close>; the bytes of a fresh block are whatever was there),
  the two hash functions of Cyclone DDS, and the resize callbacks.
\<close>

record env =
  machine :: endian
  alloc :: "nat \<Rightarrow> u8 list option"
  ddsrt_mh3 :: "u8 list \<Rightarrow> u32 \<Rightarrow> u32"
  ddsrt_md5 :: "u8 list \<Rightarrow> u8 list"
  callbacks :: runtime
  floats :: float_format

text \<open>A block has the size asked for, an MD5 digest 16 bytes.\<close>

definition env_ok :: "env \<Rightarrow> bool" where
  "env_ok V \<longleftrightarrow> (\<forall>n bs. alloc V n = Some bs \<longrightarrow> length bs = n) \<and> (\<forall>bs. length (ddsrt_md5 V bs) = 16)
     \<and> resize_spec (callbacks V)"

section \<open>Types and samples\<close>

record sertype_rmw =
  is_request_header :: bool
  message_type :: value_type
  cdr_writer_of :: cdr_writer
  cdr_reader_of :: cdr_reader
  type_name :: string
  type_size :: u32
  contains_key :: bool
  memcpy_safe :: bool
  serdata_basehash :: u32

datatype serdata_kind = SDK_EMPTY | SDK_KEY | SDK_DATA

datatype loan_state = UNITIALIZED | RAW_KEY | RAW_DATA | SERIALIZED_KEY | SERIALIZED_DATA

text \<open>A loaned sample: its state, its reference count, and its contents, raw at an address or bytes.\<close>

record loaned_sample =
  sample_state :: loan_state
  loan_refs :: nat
  sample_ptr :: nat
  sample_bytes :: "u8 list"
  loan_statusinfo :: u32
  loan_timestamp :: int

record serdata_rmw =
  sd_type :: "sertype_rmw option"
  kind :: serdata_kind
  m_size :: nat
  m_data :: "u8 list option"
  m_keysize :: nat
  m_key :: "u8 list option"
  sd_hash :: u32
  loan :: "loaned_sample option"
  statusinfo :: u32
  timestamp :: int

definition serdata_rmw_new :: "sertype_rmw \<Rightarrow> serdata_kind \<Rightarrow> serdata_rmw" where
  "serdata_rmw_new tp k =
     \<lparr>sd_type = Some tp, kind = k, m_size = 0, m_data = None, m_keysize = 0, m_key = None, sd_hash = 0,
      loan = None, statusinfo = 0, timestamp = 0\<rparr>"

definition create_sertype ::
  "endian \<Rightarrow> string \<Rightarrow> u32 \<Rightarrow> bool \<Rightarrow> value_type \<Rightarrow> sertype_rmw result" where
  "create_sertype E name basehash request root =
     rbind (sizeof_type root) (\<lambda>sample_size.
     let variant = (if request then SRRequest else SRSample) in
     rbind (make_cdr_writer E root variant) (\<lambda>w.
     rbind (make_cdr_reader root variant) (\<lambda>r.
     Inr \<lparr>is_request_header = request, message_type = root, cdr_writer_of = w, cdr_reader_of = r,
          type_name = name, type_size = of_nat sample_size, contains_key = has_keys root,
          memcpy_safe = is_self_contained root, serdata_basehash = basehash\<rparr>)))"

text \<open>An exception that \<open>catch (std::exception & e)\<close> catches, and its message.\<close>

fun what_msg :: "exn \<Rightarrow> string option" where
  "what_msg (RuntimeError s) = Some s"
| "what_msg (LogicError s) = Some s"
| "what_msg (OverflowError s) = Some s"
| "what_msg (LengthError s) = Some s"
| "what_msg (OutOfRange s) = Some s"
| "what_msg BadAlloc = Some ''std::bad_alloc''"
| "what_msg Terminate = None"
| "what_msg (UB s) = None"

text \<open>\<open>try { ... } catch (std::exception & e) { RMW_SET_ERROR_MSG(e.what()); ... }\<close>; the handler goes
  on with the value \<open>d\<close>.\<close>

definition try_catch :: "'a result \<Rightarrow> 'a \<Rightarrow> ('a \<times> string option) result" where
  "try_catch r d =
     (case r of
        Inr x \<Rightarrow> Inr (x, None)
      | Inl e \<Rightarrow> (case what_msg e of Some msg \<Rightarrow> Inr (d, Some msg) | None \<Rightarrow> Inl e))"

section \<open>Buffers and keys\<close>

definition resize :: "env \<Rightarrow> nat \<Rightarrow> serdata_rmw \<Rightarrow> serdata_rmw result" where
  "resize V requested_size d =
     (if requested_size = 0 then Inr (d\<lparr>m_size := 0, m_data := None\<rparr>)
      else
        let n_pad_bytes = sz_sub 0 requested_size mod 4;
            n = sz_add requested_size n_pad_bytes in
        (case alloc V n of
           None \<Rightarrow> Inl BadAlloc
         | Some block \<Rightarrow>
             if requested_size + n_pad_bytes \<le> length block
             then Inr (d\<lparr>m_data := Some (write_at block requested_size (zeros n_pad_bytes)), m_size := n\<rparr>)
             else Inl (UB ''memset past the end of the buffer'')))"

definition set_key_block :: "env \<Rightarrow> nat \<Rightarrow> u8 list \<Rightarrow> serdata_rmw \<Rightarrow> serdata_rmw result" where
  "set_key_block V keysize key d =
     (case sd_type d of
        None \<Rightarrow> Inl (UB ''type is null'')
      | Some tp \<Rightarrow>
          Inr (d\<lparr>m_key := Some key, m_keysize := keysize,
                 sd_hash := ddsrt_mh3 V (take keysize key) (serdata_basehash tp)\<rparr>))"

definition set_key :: "env \<Rightarrow> nat \<Rightarrow> u8 list \<Rightarrow> serdata_rmw \<Rightarrow> serdata_rmw result" where
  "set_key V keysize key d =
     (if keysize = 0 then Inr (d\<lparr>m_keysize := 0, m_key := None\<rparr>)
      else if alloc V keysize = None then Inl BadAlloc
      else set_key_block V keysize (take keysize key) d)"

definition data_bytes :: "serdata_rmw \<Rightarrow> u8 list" where
  "data_bytes d = take (m_size d) (case m_data d of None \<Rightarrow> [] | Some bs \<Rightarrow> bs)"

definition key_bytes :: "serdata_rmw \<Rightarrow> u8 list" where
  "key_bytes d = take (m_keysize d) (case m_key d of None \<Rightarrow> [] | Some bs \<Rightarrow> bs)"

definition serdata_rmw_eqkey :: "serdata_rmw \<Rightarrow> serdata_rmw \<Rightarrow> bool" where
  "serdata_rmw_eqkey a b \<longleftrightarrow>
     m_keysize a = m_keysize b \<and> (m_keysize a = 0 \<or> key_bytes a = key_bytes b)"

definition cdrmode :: "serdata_kind \<Rightarrow> sample_or_key" where
  "cdrmode k = (if k = SDK_DATA then Sample else Key)"

text \<open>\<open>make_unique<byte[]>\<close> zeroes the block.\<close>

definition serdata_rmw_set_key_from_sample ::
  "env \<Rightarrow> sertype_rmw \<Rightarrow> memory \<Rightarrow> nat \<Rightarrow> serdata_rmw \<Rightarrow> serdata_rmw result" where
  "serdata_rmw_set_key_from_sample V tp m sample d =
     (if contains_key tp then
        rbind (get_serialized_size (machine V) (cdr_writer_of tp) m sample Key) (\<lambda>keysize.
        if alloc V keysize = None then Inl BadAlloc
        else rbind (writer_serialize (machine V) (cdr_writer_of tp) m (zeros keysize) sample Key) (\<lambda>key.
          set_key_block V keysize key d))
      else Inr d)"

definition serdata_rmw_set_key_from_ser ::
  "env \<Rightarrow> sertype_rmw \<Rightarrow> serdata_rmw \<Rightarrow> (serdata_rmw \<times> string option) result" where
  "serdata_rmw_set_key_from_ser V tp d =
     (if contains_key tp then
        try_catch (rbind (reader_extractkey (machine V) (cdr_reader_of tp) [] (data_bytes d) (cdrmode (kind d)))
          (\<lambda>key. set_key V (length key) key d)) d
      else Inr (d, None))"

text \<open>The object is modified in place: an exception keeps what was done before it.\<close>

definition serdata_rmw_serialize_into ::
  "env \<Rightarrow> sertype_rmw \<Rightarrow> memory \<Rightarrow> nat \<Rightarrow> serdata_rmw \<Rightarrow> (serdata_rmw \<times> string option) result" where
  "serdata_rmw_serialize_into V tp m sample d =
     (let mode = cdrmode (kind d) in
      rbind (try_catch (rbind (get_serialized_size (machine V) (cdr_writer_of tp) m sample mode) (\<lambda>sz.
          resize V sz d)) d) (\<lambda>(d, err).
      if err \<noteq> None then Inr (d, err)
      else try_catch (rbind (writer_serialize (machine V) (cdr_writer_of tp) m (data_bytes d) sample mode)
          (\<lambda>bs. Inr (d\<lparr>m_data := Some bs\<rparr>))) d))"

definition serdata_rmw_serialize_into_on_demand ::
  "env \<Rightarrow> sertype_rmw \<Rightarrow> memory \<Rightarrow> serdata_rmw \<Rightarrow> (serdata_rmw \<times> string option) result" where
  "serdata_rmw_serialize_into_on_demand V tp m d =
     (case loan d of
        None \<Rightarrow> Inr (d, None)
      | Some l \<Rightarrow>
          if m_data d \<noteq> None then Inr (d, None)
          else if sample_state l = SERIALIZED_DATA
          then rbind (resize V (length (sample_bytes l)) d) (\<lambda>d.
               Inr (d\<lparr>m_data := map_option (\<lambda>bs. write_at bs 0 (sample_bytes l)) (m_data d)\<rparr>, None))
          else if sample_state l = RAW_DATA
          then serdata_rmw_serialize_into V tp m (sample_ptr l) d
          else Inr (d, Some ''Received iox chunk is uninitialized''))"

definition serdata_rmw_size ::
  "env \<Rightarrow> sertype_rmw \<Rightarrow> memory \<Rightarrow> serdata_rmw \<Rightarrow> (u32 \<times> serdata_rmw \<times> string option) result" where
  "serdata_rmw_size V tp m d =
     rbind (serdata_rmw_serialize_into_on_demand V tp m d) (\<lambda>(d, err). Inr (of_nat (m_size d), d, err))"

text \<open>Freeing drops the reference to the loan.\<close>

definition serdata_rmw_free :: "serdata_rmw \<Rightarrow> loaned_sample option" where
  "serdata_rmw_free d = map_option (\<lambda>l. l\<lparr>loan_refs := loan_refs l - 1\<rparr>) (loan d)"

section \<open>From the network\<close>

text \<open>A fragment covers the bytes from \<open>min\<close> up to \<open>maxp1\<close>; its payload starts at \<open>min\<close>.\<close>

record ddsi_rdata =
  frag_min :: nat
  frag_maxp1 :: nat
  frag_payload :: "u8 list"

fun copy_fragments :: "ddsi_rdata list \<Rightarrow> nat \<Rightarrow> nat \<Rightarrow> nat \<Rightarrow> u8 list \<Rightarrow> u8 list result" where
  "copy_fragments [] off cursor sz block = Inr block"
| "copy_fragments (f # fs) off cursor sz block =
     (if off < frag_maxp1 f then
        let n_bytes = frag_maxp1 f - off;
            src = take n_bytes (drop (off - frag_min f) (frag_payload f)) in
        if off < frag_min f \<or> length src < n_bytes then Inl (UB ''read outside of the fragment'')
        else if length block < cursor + n_bytes then Inl (UB ''write past the end of the buffer'')
        else if sz < frag_maxp1 f then Inl (UB ''assertion failed: off <= size'')
        else copy_fragments fs (frag_maxp1 f) (cursor + n_bytes) sz (write_at block cursor src)
      else copy_fragments fs off cursor sz block)"

definition serdata_rmw_from_ser ::
  "env \<Rightarrow> sertype_rmw \<Rightarrow> serdata_kind \<Rightarrow> ddsi_rdata list \<Rightarrow> nat \<Rightarrow> (serdata_rmw option \<times> string option) result" where
  "serdata_rmw_from_ser V tp k fragchain n =
     (case fragchain of
        [] \<Rightarrow> Inl (UB ''null fragment chain'')
      | f # fs \<Rightarrow>
          if frag_min f \<noteq> 0 then Inl (UB ''assertion failed: fragchain->min == 0'')
          else rbind (try_catch (rbind (resize V n (serdata_rmw_new tp k)) (\<lambda>d.
            rbind (copy_fragments fragchain 0 0 n (case m_data d of None \<Rightarrow> [] | Some bs \<Rightarrow> bs)) (\<lambda>block.
            Inr (Some (d\<lparr>m_data := map_option (\<lambda>_. block) (m_data d)\<rparr>))))) None) (\<lambda>(d, err).
          case d of
            None \<Rightarrow> Inr (None, err)
          | Some d \<Rightarrow> rbind (serdata_rmw_set_key_from_ser V tp d) (\<lambda>(d, err). Inr (Some d, err))))"

fun copy_iov :: "u8 list list \<Rightarrow> nat \<Rightarrow> u8 list \<Rightarrow> u8 list result" where
  "copy_iov [] cursor block = Inr block"
| "copy_iov (v # vs) cursor block =
     (if length block < cursor + length v then Inl (UB ''write past the end of the buffer'')
      else copy_iov vs (cursor + length v) (write_at block cursor v))"

definition serdata_rmw_from_ser_iov ::
  "env \<Rightarrow> sertype_rmw \<Rightarrow> serdata_kind \<Rightarrow> u8 list list \<Rightarrow> nat \<Rightarrow> (serdata_rmw option \<times> string option) result" where
  "serdata_rmw_from_ser_iov V tp k iov n =
     rbind (try_catch (rbind (resize V n (serdata_rmw_new tp k)) (\<lambda>d.
       rbind (copy_iov iov 0 (case m_data d of None \<Rightarrow> [] | Some bs \<Rightarrow> bs)) (\<lambda>block.
       Inr (Some (d\<lparr>m_data := map_option (\<lambda>_. block) (m_data d)\<rparr>))))) None) (\<lambda>(d, err).
     case d of
       None \<Rightarrow> Inr (None, err)
     | Some d \<Rightarrow> rbind (serdata_rmw_set_key_from_ser V tp d) (\<lambda>(d, err). Inr (Some d, err)))"

definition serdata_rmw_from_keyhash :: "sertype_rmw \<Rightarrow> u8 list \<Rightarrow> serdata_rmw option" where
  "serdata_rmw_from_keyhash tp keyhash = None"

text \<open>\<open>ddsrt_iov_len_t\<close> is a \<open>size_t\<close> on the platforms modelled, so the length always fits.\<close>

definition serdata_rmw_from_serialized_message ::
  "env \<Rightarrow> sertype_rmw \<Rightarrow> serdata_kind \<Rightarrow> u8 list \<Rightarrow> (serdata_rmw option \<times> string option) result" where
  "serdata_rmw_from_serialized_message V tp k raw =
     (if length raw mod SIZE_MOD \<noteq> length raw then Inr (None, None)
      else serdata_rmw_from_ser_iov V tp k [raw] (length raw))"

section \<open>From a sample\<close>

definition serdata_rmw_from_sample_unique ::
  "env \<Rightarrow> sertype_rmw \<Rightarrow> serdata_kind \<Rightarrow> memory \<Rightarrow> nat \<Rightarrow> (serdata_rmw option \<times> string option) result" where
  "serdata_rmw_from_sample_unique V tp k m sample =
     rbind (try_catch (rbind (serdata_rmw_set_key_from_sample V tp m sample (serdata_rmw_new tp k)) (\<lambda>d.
       Inr (Some d))) None) (\<lambda>(d, err).
     case d of
       None \<Rightarrow> Inr (None, err)
     | Some d \<Rightarrow> rbind (serdata_rmw_serialize_into V tp m sample d) (\<lambda>(d, err). Inr (Some d, err)))"

definition serdata_rmw_from_sample ::
  "env \<Rightarrow> sertype_rmw \<Rightarrow> serdata_kind \<Rightarrow> memory \<Rightarrow> nat \<Rightarrow> (serdata_rmw option \<times> string option) result" where
  "serdata_rmw_from_sample = serdata_rmw_from_sample_unique"

definition serdata_rmw_from_loaned_sample ::
  "env \<Rightarrow> sertype_rmw \<Rightarrow> serdata_kind \<Rightarrow> memory \<Rightarrow> loaned_sample \<Rightarrow> bool \<Rightarrow> (serdata_rmw option \<times> string option) result" where
  "serdata_rmw_from_loaned_sample V tp k m l will_require_cdr =
     (if sample_state l \<noteq> (if k = SDK_KEY then RAW_KEY else RAW_DATA)
      then Inl (UB ''assertion failed: sample_state'')
      else rbind (if will_require_cdr then serdata_rmw_from_sample_unique V tp k m (sample_ptr l)
                  else rbind (serdata_rmw_set_key_from_sample V tp m (sample_ptr l) (serdata_rmw_new tp k)) (\<lambda>d.
                       Inr (Some d, None))) (\<lambda>(d, err).
        Inr (map_option (\<lambda>d. d\<lparr>loan := Some l\<rparr>) d, err)))"

fun loaned_sample_state_to_serdata_kind :: "loan_state \<Rightarrow> serdata_kind option" where
  "loaned_sample_state_to_serdata_kind RAW_KEY = Some SDK_KEY"
| "loaned_sample_state_to_serdata_kind SERIALIZED_KEY = Some SDK_KEY"
| "loaned_sample_state_to_serdata_kind RAW_DATA = Some SDK_DATA"
| "loaned_sample_state_to_serdata_kind SERIALIZED_DATA = Some SDK_DATA"
| "loaned_sample_state_to_serdata_kind UNITIALIZED = None"

text \<open>The new serdata shares the loan and takes a reference to it.\<close>

definition serdata_rmw_from_psmx ::
  "env \<Rightarrow> sertype_rmw \<Rightarrow> memory \<Rightarrow> loaned_sample \<Rightarrow> (serdata_rmw option \<times> string option) result" where
  "serdata_rmw_from_psmx V tp m l =
     (case loaned_sample_state_to_serdata_kind (sample_state l) of
        None \<Rightarrow> Inr (None, None)
      | Some k \<Rightarrow>
         (if sample_state l = SERIALIZED_KEY \<or> sample_state l = SERIALIZED_DATA
          then serdata_rmw_from_serialized_message V tp k (sample_bytes l)
          else try_catch (rbind (serdata_rmw_set_key_from_sample V tp m (sample_ptr l)
                 ((serdata_rmw_new tp k)\<lparr>statusinfo := loan_statusinfo l, timestamp := loan_timestamp l, loan := Some l\<rparr>))
                 (\<lambda>d. Inr (Some (d\<lparr>loan := Some (l\<lparr>loan_refs := loan_refs l + 1\<rparr>)\<rparr>)))) None))"

section \<open>To the network, to a sample\<close>

definition serdata_rmw_to_ser ::
  "env \<Rightarrow> sertype_rmw \<Rightarrow> memory \<Rightarrow> serdata_rmw \<Rightarrow> nat \<Rightarrow> nat \<Rightarrow> (u8 list \<times> serdata_rmw \<times> string option) result" where
  "serdata_rmw_to_ser V tp m d off sz =
     rbind (serdata_rmw_serialize_into_on_demand V tp m d) (\<lambda>(d, err).
     if length (data_bytes d) < off + sz then Inl (UB ''read past the end of the buffer'')
     else Inr (take sz (drop off (data_bytes d)), d, err))"

text \<open>When deserialization throws, the state of the destination is unspecified; the model leaves it.\<close>

definition serdata_rmw_to_sample_impl ::
  "env \<Rightarrow> sertype_rmw \<Rightarrow> memory \<Rightarrow> serdata_rmw \<Rightarrow> top_object \<Rightarrow> ((bool \<times> top_object) \<times> string option) result" where
  "serdata_rmw_to_sample_impl V tp m d sample =
     (case sd_type d of
        Some _ \<Rightarrow>
          rbind (try_catch (rbind (serdata_rmw_serialize_into_on_demand V tp m d) (\<lambda>(d, err). Inr (Some d)))
            None) (\<lambda>(d, err).
          case d of
            None \<Rightarrow> Inr ((False, sample), err)
          | Some d \<Rightarrow>
              try_catch (rbind (reader_deserialize (machine V) (callbacks V) (cdr_reader_of tp) sample
                (data_bytes d) (cdrmode (kind d))) (\<lambda>x. Inr (True, x))) (False, sample))
      | None \<Rightarrow>
          if kind d \<noteq> SDK_KEY then Inl (UB ''assertion failed: d->kind == SDK_KEY'')
          else try_catch (rbind (reader_deserialize (machine V) (callbacks V) (cdr_reader_of tp) sample
                (key_bytes d) (cdrmode (kind d))) (\<lambda>x. Inr (True, x))) (False, sample))"

definition serdata_rmw_to_sample ::
  "env \<Rightarrow> memory \<Rightarrow> serdata_rmw \<Rightarrow> top_object \<Rightarrow> ((bool \<times> top_object) \<times> string option) result" where
  "serdata_rmw_to_sample V m d sample =
     (case sd_type d of
        None \<Rightarrow> Inl (UB ''type is null'')
      | Some tp \<Rightarrow> serdata_rmw_to_sample_impl V tp m d sample)"

definition serdata_rmw_to_untyped :: "env \<Rightarrow> serdata_rmw \<Rightarrow> serdata_rmw result" where
  "serdata_rmw_to_untyped V d =
     (case sd_type d of
        None \<Rightarrow> Inl (UB ''type is null'')
      | Some tp \<Rightarrow>
          rbind (set_key V (m_keysize d) (key_bytes d) (serdata_rmw_new tp SDK_KEY)) (\<lambda>d1.
          Inr (d1\<lparr>sd_type := None\<rparr>)))"

definition serdata_rmw_untyped_to_sample ::
  "env \<Rightarrow> sertype_rmw \<Rightarrow> memory \<Rightarrow> serdata_rmw \<Rightarrow> top_object \<Rightarrow> ((bool \<times> top_object) \<times> string option) result" where
  "serdata_rmw_untyped_to_sample = serdata_rmw_to_sample_impl"

section \<open>Printing and the key hash\<close>

text \<open>The print buffer and the position the code's \<open>buf\<close> has reached in it.\<close>

type_synonym print_buffer = "string \<times> nat"

definition buffer_left :: "print_buffer \<Rightarrow> nat" where
  "buffer_left b = length (fst b) - snd b"

text \<open>
  \<open>vsnprintf\<close> writes at most \<open>bufsize - 1\<close> characters and a terminator, and returns the length of the
  whole text.
\<close>

definition snprintf_wrapper :: "string \<Rightarrow> print_buffer \<Rightarrow> print_buffer" where
  "snprintf_wrapper txt b =
     (let (buf, pos) = b; bufsize = buffer_left b in
      if 0 < bufsize then
        let out = take (bufsize - 1) txt @ [CHR 0x00];
            buf = take pos buf @ out @ drop (pos + length out) buf;
            n = length txt in
        (if 0 < n then (buf, pos + (if bufsize < n then bufsize else n)) else (buf, pos))
      else b)"

fun hex_digit :: "nat \<Rightarrow> char" where
  "hex_digit n = (if n < 10 then char_of (48 + n) else char_of (87 + n))"

definition hex_byte :: "u8 \<Rightarrow> string" where
  "hex_byte b = [hex_digit (unat b div 16), hex_digit (unat b mod 16)]"

fun print_key_bytes :: "u8 list \<Rightarrow> print_buffer \<Rightarrow> print_buffer" where
  "print_key_bytes [] b = b"
| "print_key_bytes (x # xs) b =
     (if 0 < buffer_left b then print_key_bytes xs (snprintf_wrapper (hex_byte x) b) else b)"

definition serdata_rmw_print ::
  "env \<Rightarrow> sertype_rmw \<Rightarrow> serdata_rmw \<Rightarrow> string \<Rightarrow> (nat \<times> string) result" where
  "serdata_rmw_print V tp d buf =
     (let b = snprintf_wrapper ''['' (buf, 0);
          b = print_key_bytes (key_bytes d) b;
          b = snprintf_wrapper ''] '' b;
          init_len = snd b in
      if 0 < buffer_left b then
        rbind (reader_print (floats V) (machine V) (cdr_reader_of tp) (drop init_len (fst b))
           (if sd_type d \<noteq> None then data_bytes d else key_bytes d) (cdrmode (kind d))) (\<lambda>(n, rest).
        Inr (init_len + n, take init_len (fst b) @ rest))
      else Inr (init_len, fst b))"

definition serdata_rmw_get_keyhash :: "env \<Rightarrow> serdata_rmw \<Rightarrow> bool \<Rightarrow> u8 list result" where
  "serdata_rmw_get_keyhash V d force_md5 =
     (case sd_type d of
        None \<Rightarrow> Inl (UB ''type is null'')
      | Some tp \<Rightarrow>
         (if contains_key tp then
            rbind (reader_extractkey_be (machine V) (cdr_reader_of tp) [] (key_bytes d) Key) (\<lambda>key_be.
            if length key_be \<le> 4 then Inl (UB ''assertion failed: key_be.size() > 4'')
            else if get_max_serialized_size (cdr_writer_of tp) Key \<le> 20 \<and> \<not> force_md5
            then if 16 < length key_be - 4 then Inl (UB ''write past the end of the key hash'')
                 else Inr (write_at (zeros 16) 0 (drop 4 key_be))
            else Inr (ddsrt_md5 V (drop 4 key_be)))
          else Inr (zeros 16)))"

section \<open>\<open>sertype_rmw\<close>\<close>

definition type_generator_of :: "value_type \<Rightarrow> type_generator option" where
  "type_generator_of vt = (case vt of StructValueType si ms \<Rightarrow> Some (m_type_generator si) | _ \<Rightarrow> None)"

definition sertype_rmw_equal :: "sertype_rmw \<Rightarrow> sertype_rmw \<Rightarrow> bool" where
  "sertype_rmw_equal a b \<longleftrightarrow>
     \<not> (is_request_header a \<noteq> is_request_header b) \<and>
     \<not> (type_generator_of (message_type a) \<noteq> type_generator_of (message_type b))"

text \<open>\<open>std::hash\<close> of a boolean and of an enumerator's number are parameters.\<close>

definition sertype_rmw_hash :: "(bool \<Rightarrow> u64) \<Rightarrow> (nat \<Rightarrow> u64) \<Rightarrow> sertype_rmw \<Rightarrow> u32" where
  "sertype_rmw_hash hash_bool hash_gen tp =
     (let h2 = ucast (hash_bool (is_request_header tp)) :: u32;
          gen = (case type_generator_of (message_type tp) of Some ROSIDL_Cpp \<Rightarrow> 1 | _ \<Rightarrow> 0);
          h1 = ucast (hash_gen gen) :: u32 in
      h1 XOR h2)"

definition sertype_get_serialized_size_impl ::
  "env \<Rightarrow> sertype_rmw \<Rightarrow> memory \<Rightarrow> nat \<Rightarrow> (nat \<times> string option) result" where
  "sertype_get_serialized_size_impl V tp m sample =
     try_catch (get_serialized_size (machine V) (cdr_writer_of tp) m sample Sample) 0"

text \<open>\<open>sertype_serialize_into_impl\<close> returns \<open>true\<close> whether or not the serializer threw.\<close>

definition sertype_serialize_into_impl ::
  "env \<Rightarrow> sertype_rmw \<Rightarrow> memory \<Rightarrow> nat \<Rightarrow> u8 list \<Rightarrow> ((bool \<times> u8 list) \<times> string option) result" where
  "sertype_serialize_into_impl V tp m sample dst_buffer =
     try_catch (rbind (writer_serialize (machine V) (cdr_writer_of tp) m dst_buffer sample Sample) (\<lambda>bs.
       Inr (True, bs))) (True, dst_buffer)"

datatype encoding_identifier = DDSI_RTPS_CDR_LE | DDSI_RTPS_CDR_BE

definition sertype_get_serialized_size ::
  "env \<Rightarrow> sertype_rmw \<Rightarrow> memory \<Rightarrow> nat \<Rightarrow> ((nat \<times> encoding_identifier) \<times> string option) result" where
  "sertype_get_serialized_size V tp m sample =
     rbind (sertype_get_serialized_size_impl V tp m sample) (\<lambda>(serialized_size, err).
     if serialized_size < 4 then Inl (UB ''assertion failed: serialized_size >= 4'')
     else Inr ((serialized_size - 4, if machine V = little then DDSI_RTPS_CDR_LE else DDSI_RTPS_CDR_BE), err))"

definition sertype_serialize_into ::
  "env \<Rightarrow> sertype_rmw \<Rightarrow> memory \<Rightarrow> nat \<Rightarrow> u8 list \<Rightarrow> ((bool \<times> u8 list) \<times> string option) result" where
  "sertype_serialize_into = sertype_serialize_into_impl"

end
