(* ===== verification/SerdataProps.thy ===== *)
theory SerdataProps
  imports Serdata
begin

text \<open>
  What the serialized samples promise Cyclone DDS: a sample that is serialized, cut into fragments,
  reassembled on another machine and deserialized is the sample that was sent; the key of a received
  sample is the key encoding of its value; the key hash is computed from the big-endian key and
  stays within its buffer.
\<close>

section \<open>Reader and writer together\<close>

definition received :: "endian \<Rightarrow> endian \<Rightarrow> memory \<Rightarrow> value_type \<Rightarrow> sample_or_request \<Rightarrow> nat \<Rightarrow> top_object \<Rightarrow> top_object" where
  "received E T m root variant src dst =
     (if variant = SRRequest
      then \<lparr>top_guid = bytes_word T (mem_read m src 8), top_seq = read_seq E (mem_read m (src + 8) 8),
            top_data = top_value T m root variant Sample src\<rparr>
      else dst\<lparr>top_data := top_value T m root variant Sample src\<rparr>)"

lemma mem_read_16: "mem_read m src 16 = mem_read m src 8 @ mem_read m (src + 8) 8"
  using mem_read_add [of m src 8 8] by simp

lemma reader_roundtrip:
  assumes "make_cdr_reader root variant = Inr r" "wf_type root" "resize_spec rt"
    and "fits root (top_value T m root variant Sample src)" "shaped root (top_data dst)"
  shows "reader_deserialize E rt r dst (cdr_message T m root variant Sample src @ rest) Sample
    = Inr (received E T m root variant src dst)"
proof -
  note r = make_cdr_reader_root [OF assms(1,2)]
  have pm: "plain_mode Sample root" by (simp add: plain_mode_def)
  show ?thesis
  proof (cases "variant = SRRequest")
    case True
    note t = assms(4) [unfolded top_value_def True, simplified]
    have "length (mem_read m src 8) = 8" "length (mem_read m (src + 8) 8) = 8" by simp_all
    from deserialize_request_message [OF r(3) assms(2,3) t assms(5) this, of E T rest]
    show ?thesis
      by (simp add: reader_deserialize_def r(1,2) True cdr_message_def cdr_body_def received_def top_value_def
          mem_read_16)
  next
    case False
    note t = assms(4) [unfolded top_value_def, simplified False, simplified]
    have "rbind (deserialize_top_level E rt (rd_tsc r) root variant Sample dst
       (DeserializeCursor (rtps_header T @ cdr T Sample root (read_obj T m src root) 0 @ rest))) (\<lambda>(dst, c). Inr dst)
     = Inr (dst\<lparr>top_data := merge Sample root (read_obj T m src root) (top_data dst)\<rparr>)"
      by (rule deserialize_data_message [OF r(3) assms(2) pm assms(3) _ assms(5)]) (use t False in simp_all)
    then show ?thesis
      using False by (simp add: reader_deserialize_def r(1,2) cdr_message_def cdr_body_def received_def top_value_def merge_def)
  qed
qed

lemma reader_roundtrip_key:
  assumes "make_cdr_reader root variant = Inr r" "wf_type root" "resize_spec rt" "has_keys root" "key_safe root"
    and "fits root (read_obj T m src root)" "shaped root (top_data dst)"
  shows "reader_deserialize E rt r dst (cdr_message T m root variant Key src @ rest) Key
    = Inr (dst\<lparr>top_data := key_merge root (read_obj T m src root) (top_data dst)\<rparr>)"
proof -
  note r = make_cdr_reader_root [OF assms(1,2)]
  have pm: "plain_mode Key root" using assms(5) by (simp add: plain_mode_def)
  have "rbind (deserialize_top_level E rt (rd_tsc r) root variant Key dst
       (DeserializeCursor (rtps_header T @ cdr T Key root (read_obj T m src root) 0 @ rest))) (\<lambda>(dst, c). Inr dst)
     = Inr (dst\<lparr>top_data := merge Key root (read_obj T m src root) (top_data dst)\<rparr>)"
    by (rule deserialize_data_message [OF r(3) assms(2) pm assms(3,6,7)]) (use assms(4) in simp_all)
  then show ?thesis
    using assms(4) by (simp add: reader_deserialize_def r(1,2) cdr_message_def cdr_body_def merge_def)
qed

lemma reader_safe:
  assumes "make_cdr_reader root variant = Inr r" "wf_type root" "resize_spec rt" "shaped root (top_data dst)"
  shows "case reader_deserialize E rt r dst input what of
      Inl e \<Rightarrow> \<forall>s. e \<noteq> UB s | Inr dst' \<Rightarrow> shaped root (top_data dst')"
proof -
  note r = make_cdr_reader_root [OF assms(1,2)]
  have "dc_inv (DeserializeCursor input)" by (simp add: dc_inv_def DeserializeCursor_def)
  from deserialize_top_level_safe [OF r(3) assms(2-4) this, of E variant what]
  show ?thesis using assms(4)
    by (cases "deserialize_top_level E rt (rd_tsc r) root variant what dst (DeserializeCursor input)")
      (auto simp: reader_deserialize_def r(1,2))
qed

lemma reader_extractkey_message:
  assumes "make_cdr_reader root variant = Inr r" "wf_type root" "has_keys root" "key_safe root" "fits root obj"
    and "what = Sample \<Longrightarrow> variant = SRSample"
  shows "reader_extractkey E r pre (rtps_header T @ cdr T what root obj 0 @ rest) what
      = Inr (pre @ rtps_header E @ cdr E Key root obj 0)"
    and "E = big \<or> wstring_free root \<Longrightarrow>
      reader_extractkey_be E r pre (rtps_header T @ cdr T what root obj 0 @ rest) what
      = Inr (pre @ rtps_header big @ cdr big Key root obj 0)"
proof -
  note r = make_cdr_reader_root [OF assms(1,2)]
  show "reader_extractkey E r pre (rtps_header T @ cdr T what root obj 0 @ rest) what
      = Inr (pre @ rtps_header E @ cdr E Key root obj 0)"
    using extractkey_message [where D = E and E = E, OF r(3) assms(2-6)] by (simp add: reader_extractkey_def r(1,2))
  assume "E = big \<or> wstring_free root"
  then show "reader_extractkey_be E r pre (rtps_header T @ cdr T what root obj 0 @ rest) what
      = Inr (pre @ rtps_header big @ cdr big Key root obj 0)"
    unfolding reader_extractkey_be_def r(1,2) by (intro extractkey_message [OF r(3) assms(2-6)]) auto
qed

section \<open>Types\<close>

lemma create_sertype_facts:
  assumes "create_sertype E name bh req root = Inr tp"
  shows "make_cdr_writer E root (if req then SRRequest else SRSample) = Inr (cdr_writer_of tp)"
    and "make_cdr_reader root (if req then SRRequest else SRSample) = Inr (cdr_reader_of tp)"
    and "contains_key tp = has_keys root" "message_type tp = root" "is_request_header tp = req"
    and "memcpy_safe tp = is_self_contained root"
  using assms by (auto simp: create_sertype_def rbind_eq_Inr Let_def)

lemma create_sertype_total:
  assumes "wf_struct root" "inhabited root"
  shows "\<exists>tp. create_sertype E name bh req root = Inr tp"
proof -
  obtain si ms where root: "root = StructValueType si ms" and wf: "wf_type root"
    using assms(1) by (auto simp: wf_struct_def)
  obtain w where "make_cdr_writer E root (if req then SRRequest else SRSample) = Inr w"
    using make_cdr_writer_total [OF wf assms(2)] by blast
  moreover obtain r where "make_cdr_reader root (if req then SRRequest else SRSample) = Inr r"
    using make_cdr_reader_total [OF wf] by blast
  ultimately show ?thesis by (simp add: create_sertype_def root Let_def)
qed

section \<open>Buffers\<close>

lemma pad_bytes: "sz_sub 0 n mod 4 = padding 4 n"
proof -
  have "(- int n) mod int SIZE_MOD mod 4 = (- int n) mod 4" by (rule mod_mod_cancel) simp
  moreover have "0 \<le> (- int n) mod int SIZE_MOD" by simp
  ultimately have "int (sz_sub 0 n mod 4) = (- int n) mod 4" by (simp add: sz_sub_def zmod_int)
  also have "\<dots> = int (padding 4 n)"
  proof (cases "n mod 4 = 0")
    case True
    then have "4 dvd int n" by (metis mod_0_imp_dvd of_nat_dvd_iff of_nat_numeral)
    then show ?thesis using True by (simp add: padding_def dvd_eq_mod_eq_0 zmod_zminus1_eq_if)
  next
    case False
    have "n mod 4 < 4" by simp
    moreover have "int n mod 4 = int (n mod 4)" by (simp add: zmod_int)
    ultimately show ?thesis using False by (simp add: zmod_zminus1_eq_if padding_def of_nat_diff)
  qed
  finally show ?thesis by (simp only: of_nat_eq_iff)
qed

lemma resize_block:
  assumes "env_ok V" "0 < n" "n + 3 < SIZE_MOD" "alloc V (n + padding 4 n) = Some block"
  shows "resize V n d = Inr (d\<lparr>m_data := Some (take n block @ zeros (padding 4 n)), m_size := n + padding 4 n\<rparr>)"
proof -
  have "padding 4 n < 4" by (rule padding_lt) simp
  then have lt: "n + padding 4 n < SIZE_MOD" using assms(3) by linarith
  have len: "length block = n + padding 4 n" using assms(1,4) by (simp add: env_ok_def)
  show ?thesis
    using assms(2) lt len assms(4) by (simp add: resize_def pad_bytes Let_def write_at_def)
qed

text \<open>Whatever the size asked for (short of the wrap-around), the buffer is a multiple of four bytes
  long and zero past the size.\<close>

lemma resize_shape:
  assumes "env_ok V" "n + 3 < SIZE_MOD" "resize V n d = Inr d'"
  shows "4 dvd m_size d'" "n \<le> m_size d'" "m_size d' < n + 4" "length (data_bytes d') = m_size d'"
    and "drop n (data_bytes d') = zeros (m_size d' - n)"
proof -
  have p: "padding 4 n < 4" by (rule padding_lt) simp
  have dv: "4 dvd n + padding 4 n" using align_up_dvd [of 4 n] by (simp add: align_up_def)
  have "4 dvd m_size d' \<and> n \<le> m_size d' \<and> m_size d' < n + 4 \<and> length (data_bytes d') = m_size d'
      \<and> drop n (data_bytes d') = zeros (m_size d' - n)"
  proof (cases "n = 0")
    case True
    then show ?thesis using assms(3) by (auto simp: resize_def data_bytes_def)
  next
    case False
    show ?thesis
    proof (cases "alloc V (n + padding 4 n)")
      case None
      then show ?thesis using assms(2,3) False p by (simp add: resize_def pad_bytes Let_def)
    next
      case (Some block)
      have len: "length block = n + padding 4 n" using assms(1) Some by (simp add: env_ok_def)
      show ?thesis
        using resize_block [OF assms(1) _ assms(2) Some, of d] assms(3) False p dv len
        by (auto simp: data_bytes_def)
    qed
  qed
  then show "4 dvd m_size d'" "n \<le> m_size d'" "m_size d' < n + 4" "length (data_bytes d') = m_size d'"
    "drop n (data_bytes d') = zeros (m_size d' - n)" by blast+
qed

section \<open>Fragments\<close>

text \<open>
  \<open>covers msg off fs\<close>: the fragments are pieces of the message, each of them that adds data starts
  at or before the end of what is there, and the last reaches the end of the message.
\<close>

fun covers :: "u8 list \<Rightarrow> nat \<Rightarrow> ddsi_rdata list \<Rightarrow> bool" where
  "covers msg off [] = (off = length msg)"
| "covers msg off (f # fs) =
     (frag_min f \<le> frag_maxp1 f \<and> frag_maxp1 f \<le> length msg
      \<and> take (frag_maxp1 f - frag_min f) (frag_payload f) = drop (frag_min f) (take (frag_maxp1 f) msg)
      \<and> (if off < frag_maxp1 f then frag_min f \<le> off \<and> covers msg (frag_maxp1 f) fs else covers msg off fs))"

lemma copy_fragments_covers:
  assumes "covers msg off fs" "off \<le> length msg" "length msg \<le> length block"
    and "take off block = take off msg"
  shows "copy_fragments fs off off (length msg) block = Inr (msg @ drop (length msg) block)"
  using assms
proof (induction fs arbitrary: off block)
  case Nil
  then have "take (length msg) block = msg" by simp
  then show ?case by (metis append_take_drop_id copy_fragments.simps(1))
next
  case (Cons f fs)
  show ?case
  proof (cases "off < frag_maxp1 f")
    case True
    have mn: "frag_min f \<le> off" "frag_maxp1 f \<le> length msg" and cov: "covers msg (frag_maxp1 f) fs"
      and pay: "take (frag_maxp1 f - frag_min f) (frag_payload f) = drop (frag_min f) (take (frag_maxp1 f) msg)"
      using Cons.prems(1) True by auto
    let ?n = "frag_maxp1 f - off"
    let ?src = "take ?n (drop (off - frag_min f) (frag_payload f))"
    have "?src = drop (off - frag_min f) (take (frag_maxp1 f - frag_min f) (frag_payload f))"
      using mn(1) True by (simp add: take_drop)
    also have "\<dots> = drop off (take (frag_maxp1 f) msg)" unfolding pay using mn(1) by simp
    finally have src: "?src = drop off (take (frag_maxp1 f) msg)" .
    have len: "length ?src = ?n" unfolding src using mn(2) by simp
    let ?block = "write_at block off ?src"
    have lb: "length ?block = length block" using len True mn(2) Cons.prems(3) by simp
    have tk: "take (frag_maxp1 f) ?block = take (frag_maxp1 f) msg"
    proof -
      have "?block = take off msg @ ?src @ drop (frag_maxp1 f) block"
        using Cons.prems(4) len True by (simp add: write_at_def)
      moreover have "take off msg @ ?src = take (frag_maxp1 f) msg"
        unfolding src using True by (metis append_take_drop_id less_imp_le_nat min.absorb1 take_take)
      ultimately have "?block = take (frag_maxp1 f) msg @ drop (frag_maxp1 f) block" by (metis append_assoc)
      moreover have "length (take (frag_maxp1 f) msg) = frag_maxp1 f" using mn(2) by simp
      ultimately show ?thesis by (metis append_eq_conv_conj)
    qed
    have "copy_fragments fs (frag_maxp1 f) (frag_maxp1 f) (length msg) ?block = Inr (msg @ drop (length msg) ?block)"
      by (rule Cons.IH [OF cov mn(2) _ tk]) (use lb Cons.prems(3) in simp)
    moreover have "drop (length msg) ?block = drop (length msg) block"
      using len True mn(2) Cons.prems(3) by (simp add: write_at_def)
    ultimately show ?thesis
      using True mn len Cons.prems(2,3) by (simp add: Let_def)
  next
    case False
    then show ?thesis using Cons by simp
  qed
qed

lemma copy_one: "length v \<le> length block \<Longrightarrow> copy_iov [v] 0 block = Inr (v @ drop (length v) block)"
  by (simp add: write_at_def)

text \<open>Reassembly does not depend on how the message was cut.\<close>

lemma from_ser_fragments:
  assumes "env_ok V" "covers msg 0 (f # fs)" "frag_min f = 0" "length msg + 3 < SIZE_MOD"
  shows "serdata_rmw_from_ser V tp k (f # fs) (length msg) = serdata_rmw_from_serialized_message V tp k msg"
proof -
  have small: "length msg mod SIZE_MOD = length msg" using assms(4) by simp
  have copy: "rbind (resize V (length msg) (serdata_rmw_new tp k)) (\<lambda>d.
        rbind (copy_fragments (f # fs) 0 0 (length msg) (case m_data d of None \<Rightarrow> [] | Some bs \<Rightarrow> bs)) (\<lambda>block.
        Inr (Some (d\<lparr>m_data := map_option (\<lambda>_. block) (m_data d)\<rparr>))))
      = rbind (resize V (length msg) (serdata_rmw_new tp k)) (\<lambda>d.
        rbind (copy_iov [msg] 0 (case m_data d of None \<Rightarrow> [] | Some bs \<Rightarrow> bs)) (\<lambda>block.
        Inr (Some (d\<lparr>m_data := map_option (\<lambda>_. block) (m_data d)\<rparr>))))"
  proof (rule rbind_cong_Inr)
    fix d assume d: "resize V (length msg) (serdata_rmw_new tp k) = Inr d"
    let ?block = "case m_data d of None \<Rightarrow> [] | Some bs \<Rightarrow> bs"
    have "length msg \<le> length (data_bytes d)" using resize_shape [OF assms(1,4) d] by simp
    also have "\<dots> \<le> length ?block" by (simp add: data_bytes_def)
    finally have len: "length msg \<le> length ?block" .
    show "rbind (copy_fragments (f # fs) 0 0 (length msg) ?block) (\<lambda>block. Inr (Some (d\<lparr>m_data := map_option (\<lambda>_. block) (m_data d)\<rparr>)))
        = rbind (copy_iov [msg] 0 ?block) (\<lambda>block. Inr (Some (d\<lparr>m_data := map_option (\<lambda>_. block) (m_data d)\<rparr>)))"
      using copy_fragments_covers [OF assms(2) _ len] copy_one [OF len] by simp
  qed
  show ?thesis
    unfolding serdata_rmw_from_ser_def serdata_rmw_from_serialized_message_def serdata_rmw_from_ser_iov_def list.case copy
    using small assms(3) by simp
qed

section \<open>Sending\<close>

text \<open>No allocation fails.\<close>

definition memory_available :: "env \<Rightarrow> bool" where
  "memory_available V \<longleftrightarrow> (\<forall>n. alloc V n \<noteq> None)"

text \<open>
  What a sender needs of its type and value: a well-formed type with members, a value within the
  bounds, an encoding below 4 GiB, and a type whose fixed part is below 4 GiB too.
\<close>

definition sendable :: "endian \<Rightarrow> sertype_rmw \<Rightarrow> memory \<Rightarrow> nat \<Rightarrow> sample_or_key \<Rightarrow> bool" where
  "sendable E tp m src what \<longleftrightarrow>
     (let root = message_type tp; variant = (if is_request_header tp then SRRequest else SRSample) in
      wf_type root \<and> inhabited root \<and> plain_mode what root \<and> fits root (top_value E m root variant what src)
      \<and> length (cdr_message E m root variant what src) \<le> UINT32_MAX
      \<and> get_min_serialized_size (cdr_writer_of tp) what \<noteq> SIZE_MAX)"

abbreviation variant_of :: "sertype_rmw \<Rightarrow> sample_or_request" where
  "variant_of tp \<equiv> (if is_request_header tp then SRRequest else SRSample)"

abbreviation message_of :: "endian \<Rightarrow> sertype_rmw \<Rightarrow> memory \<Rightarrow> nat \<Rightarrow> sample_or_key \<Rightarrow> u8 list" where
  "message_of E tp m src what \<equiv> cdr_message E m (message_type tp) (variant_of tp) what src"

definition built :: "endian \<Rightarrow> sertype_rmw \<Rightarrow> bool" where
  "built E tp \<longleftrightarrow> (\<exists>name bh. create_sertype E name bh (is_request_header tp) (message_type tp) = Inr tp)"

lemma built_facts:
  assumes "built E tp"
  shows "make_cdr_writer E (message_type tp) (variant_of tp) = Inr (cdr_writer_of tp)"
    and "make_cdr_reader (message_type tp) (variant_of tp) = Inr (cdr_reader_of tp)"
    and "contains_key tp = has_keys (message_type tp)"
  using assms create_sertype_facts unfolding built_def by blast+

lemma send_size:
  assumes "built E tp" "sendable E tp m src what"
  obtains n where "get_serialized_size E (cdr_writer_of tp) m src what = Inr n"
    "length (message_of E tp m src what) \<le> n" "n \<le> UINT32_MAX + 4"
proof -
  note b = built_facts [OF assms(1)]
  have s: "wf_type (message_type tp)" "inhabited (message_type tp)" "plain_mode what (message_type tp)"
    "fits (message_type tp) (top_value E m (message_type tp) (variant_of tp) what src)"
    "length (message_of E tp m src what) \<le> UINT32_MAX" "get_min_serialized_size (cdr_writer_of tp) what \<noteq> SIZE_MAX"
    using assms(2) by (simp_all add: sendable_def Let_def)
  have lt: "length (message_of E tp m src what) < SIZE_MOD" using s(5) by linarith
  obtain n where n: "get_serialized_size E (cdr_writer_of tp) m src what = Inr n"
    "length (message_of E tp m src what) \<le> n"
    by (rule serialized_size_enough [OF b(1) s(1-4) lt])
  have "n \<le> UINT32_MAX + 4"
  proof (cases "get_min_serialized_size (cdr_writer_of tp) what = get_max_serialized_size (cdr_writer_of tp) what")
    case True
    then have "n = get_max_serialized_size (cdr_writer_of tp) what" "n \<noteq> SIZE_MAX"
      using n(1) s(6) by (auto simp: get_serialized_size_def)
    then show ?thesis
      using compute_bound_cases [OF s(1,2), of E "variant_of tp" what Max] make_cdr_writer_max [OF b(1), of what] by auto
  next
    case False
    note w = make_cdr_writer_root [OF b(1) s(1)]
    have "measure_serialized_size E (cdr_writer_of tp) m src what = Inr (length (message_of E tp m src what))"
      using measure_message [of "cdr_writer_of tp" what E m src] w s(1,3) lt by simp
    then show ?thesis using n(1) False s(5) by (simp add: get_serialized_size_def)
  qed
  with n that show thesis by blast
qed

lemma writer_message:
  assumes "built E tp" "sendable E tp m src what" "length (message_of E tp m src what) \<le> length block"
  shows "writer_serialize E (cdr_writer_of tp) m block src what
    = Inr (message_of E tp m src what @ drop (length (message_of E tp m src what)) block)"
proof -
  have s: "wf_type (message_type tp)" "plain_mode what (message_type tp)"
    using assms(2) by (simp_all add: sendable_def Let_def)
  note w = make_cdr_writer_root [OF built_facts(1) [OF assms(1)] s(1)]
  show ?thesis
    using writer_serialize_message [of "cdr_writer_of tp" what E m block src] w s assms(3) by (simp add: Let_def)
qed

text \<open>\<open>serialize_into\<close> leaves the encoding at the head of the data, and only padding or slack after it.\<close>

lemma serialize_into_message:
  assumes "env_ok V" "memory_available V" "built (machine V) tp" "sendable (machine V) tp m src (cdrmode (kind d))"
  obtains n tail where "serdata_rmw_serialize_into V tp m src d
      = Inr (d\<lparr>m_size := n, m_data := Some (message_of (machine V) tp m src (cdrmode (kind d)) @ tail)\<rparr>, None)"
    "4 dvd n" "n = length (message_of (machine V) tp m src (cdrmode (kind d)) @ tail)" "n < UINT32_MAX + 8"
proof -
  let ?w = "cdrmode (kind d)"
  let ?msg = "message_of (machine V) tp m src ?w"
  obtain n where n: "get_serialized_size (machine V) (cdr_writer_of tp) m src ?w = Inr n"
    "length ?msg \<le> n" "n \<le> UINT32_MAX + 4" by (rule send_size [OF assms(3,4)])
  have pos: "0 < n" using n(2) by (simp add: length_cdr_message)
  have lt: "n + 3 < SIZE_MOD" using n(3) by linarith
  obtain block where block: "alloc V (n + padding 4 n) = Some block"
    using assms(2) by (auto simp: memory_available_def)
  let ?d = "d\<lparr>m_data := Some (take n block @ zeros (padding 4 n)), m_size := n + padding 4 n\<rparr>"
  have rs: "resize V n d = Inr ?d" by (rule resize_block [OF assms(1) pos lt block])
  note shape = resize_shape [OF assms(1) lt rs]
  have len: "length ?msg \<le> length (data_bytes ?d)" using shape(2,4) n(2) by simp
  let ?tail = "drop (length ?msg) (data_bytes ?d)"
  have wr: "writer_serialize (machine V) (cdr_writer_of tp) m (data_bytes ?d) src ?w = Inr (?msg @ ?tail)"
    by (rule writer_message [OF assms(3,4) len])
  have "serdata_rmw_serialize_into V tp m src d = Inr (?d\<lparr>m_data := Some (?msg @ ?tail)\<rparr>, None)"
    unfolding serdata_rmw_serialize_into_def Let_def n(1) rbind_Inr rs by (simp add: try_catch_def wr)
  moreover have "?d\<lparr>m_data := Some (?msg @ ?tail)\<rparr> = d\<lparr>m_size := n + padding 4 n, m_data := Some (?msg @ ?tail)\<rparr>"
    by simp
  moreover have "n + padding 4 n = length (?msg @ ?tail)" using len shape(4) by simp
  moreover have "4 dvd n + padding 4 n" using shape(1) by simp
  moreover have "n + padding 4 n < UINT32_MAX + 8" using shape(3) n(3) by simp
  ultimately show ?thesis by (rule_tac that) auto
qed

lemma set_key_from_sample_message:
  assumes "env_ok V" "memory_available V" "built (machine V) tp" "contains_key tp"
    and "sendable (machine V) tp m src Key" "sd_type d = Some tp"
  obtains n where "serdata_rmw_set_key_from_sample V tp m src d
      = Inr (d\<lparr>m_key := Some (message_of (machine V) tp m src Key @ zeros (n - length (message_of (machine V) tp m src Key))),
               m_keysize := n,
               sd_hash := ddsrt_mh3 V (message_of (machine V) tp m src Key
                 @ zeros (n - length (message_of (machine V) tp m src Key))) (serdata_basehash tp)\<rparr>)"
    "length (message_of (machine V) tp m src Key) \<le> n"
    "get_serialized_size (machine V) (cdr_writer_of tp) m src Key = Inr n"
proof -
  let ?msg = "message_of (machine V) tp m src Key"
  obtain n where n: "get_serialized_size (machine V) (cdr_writer_of tp) m src Key = Inr n"
    "length ?msg \<le> n" "n \<le> UINT32_MAX + 4" by (rule send_size [OF assms(3,5)])
  have wr: "writer_serialize (machine V) (cdr_writer_of tp) m (zeros n) src Key = Inr (?msg @ zeros (n - length ?msg))"
    using writer_message [OF assms(3,5), of "zeros n"] n(2) by simp
  have al: "alloc V n \<noteq> None" using assms(2) by (simp add: memory_available_def)
  have "serdata_rmw_set_key_from_sample V tp m src d
      = Inr (d\<lparr>m_key := Some (?msg @ zeros (n - length ?msg)), m_keysize := n,
               sd_hash := ddsrt_mh3 V (?msg @ zeros (n - length ?msg)) (serdata_basehash tp)\<rparr>)"
    unfolding serdata_rmw_set_key_from_sample_def if_P [OF assms(4)] n(1) rbind_Inr if_not_P [OF al] wr
    using n(2) by (simp add: set_key_block_def assms(6))
  with n that show thesis by blast
qed

text \<open>A sample that is sent: no error, the message at the head of the data, and, for a keyed type, its key.\<close>

lemma from_sample_message:
  assumes "env_ok V" "memory_available V" "built (machine V) tp"
    and "sendable (machine V) tp m src (cdrmode k)" "contains_key tp \<Longrightarrow> sendable (machine V) tp m src Key"
  obtains d tail where "serdata_rmw_from_sample V tp k m src = Inr (Some d, None)"
    "data_bytes d = message_of (machine V) tp m src (cdrmode k) @ tail"
    "length (data_bytes d) = m_size d" "4 dvd m_size d" "m_size d < UINT32_MAX + 8"
    "sd_type d = Some tp" "kind d = k" "loan d = None"
    "contains_key tp \<Longrightarrow> get_serialized_size (machine V) (cdr_writer_of tp) m src Key = Inr (m_keysize d)
       \<and> length (message_of (machine V) tp m src Key) \<le> m_keysize d
       \<and> key_bytes d = message_of (machine V) tp m src Key @ zeros (m_keysize d - length (message_of (machine V) tp m src Key))"
proof -
  let ?new = "serdata_rmw_new tp k"
  let ?key = "message_of (machine V) tp m src Key"
  have new: "sd_type ?new = Some tp" "kind ?new = k" "loan ?new = None"
    by (simp_all add: serdata_rmw_new_def)
  obtain d0 where d0: "serdata_rmw_set_key_from_sample V tp m src ?new = Inr d0"
    "sd_type d0 = Some tp" "kind d0 = k" "loan d0 = None"
    "contains_key tp \<Longrightarrow> get_serialized_size (machine V) (cdr_writer_of tp) m src Key = Inr (m_keysize d0)
       \<and> length ?key \<le> m_keysize d0 \<and> key_bytes d0 = ?key @ zeros (m_keysize d0 - length ?key)"
  proof (cases "contains_key tp")
    case True
    obtain n where n: "serdata_rmw_set_key_from_sample V tp m src ?new
      = Inr (?new\<lparr>m_key := Some (?key @ zeros (n - length ?key)), m_keysize := n,
               sd_hash := ddsrt_mh3 V (?key @ zeros (n - length ?key)) (serdata_basehash tp)\<rparr>)"
      "length ?key \<le> n" "get_serialized_size (machine V) (cdr_writer_of tp) m src Key = Inr n"
      by (rule set_key_from_sample_message [OF assms(1-3) True assms(5) [OF True] new(1)])
    show thesis by (rule that [OF n(1)]) (use n(2,3) new in \<open>simp_all add: key_bytes_def\<close>)
  next
    case False
    then show thesis using that [of ?new] new by (simp add: serdata_rmw_set_key_from_sample_def)
  qed
  have s: "sendable (machine V) tp m src (cdrmode (kind d0))" using assms(4) d0(3) by simp
  obtain n tail where n: "serdata_rmw_serialize_into V tp m src d0
      = Inr (d0\<lparr>m_size := n, m_data := Some (message_of (machine V) tp m src (cdrmode (kind d0)) @ tail)\<rparr>, None)"
    "4 dvd n" "n = length (message_of (machine V) tp m src (cdrmode (kind d0)) @ tail)" "n < UINT32_MAX + 8"
    by (rule serialize_into_message [OF assms(1-3) s])
  let ?d = "d0\<lparr>m_size := n, m_data := Some (message_of (machine V) tp m src (cdrmode (kind d0)) @ tail)\<rparr>"
  have "serdata_rmw_from_sample V tp k m src = Inr (Some ?d, None)"
    unfolding serdata_rmw_from_sample_def serdata_rmw_from_sample_unique_def d0(1)
    by (simp add: try_catch_def n(1))
  then show thesis
    by (rule that) (use n(2-4) d0 in \<open>simp_all add: data_bytes_def key_bytes_def\<close>)
qed

section \<open>Receiving\<close>

text \<open>A received sample: the bytes that came, padded to a multiple of four.\<close>

lemma from_serialized_message_data:
  assumes "env_ok V" "memory_available V" "0 < length raw" "length raw + 3 < SIZE_MOD"
  obtains d where "rbind (try_catch (rbind (resize V (length raw) (serdata_rmw_new tp k)) (\<lambda>d.
       rbind (copy_iov [raw] 0 (case m_data d of None \<Rightarrow> [] | Some bs \<Rightarrow> bs)) (\<lambda>block.
       Inr (Some (d\<lparr>m_data := map_option (\<lambda>_. block) (m_data d)\<rparr>))))) None) f = f (Some d, None)"
    "data_bytes d = raw @ zeros (padding 4 (length raw))" "sd_type d = Some tp" "kind d = k" "loan d = None"
    "m_data d \<noteq> None"
proof -
  let ?n = "length raw"
  obtain block where block: "alloc V (?n + padding 4 ?n) = Some block"
    using assms(2) by (auto simp: memory_available_def)
  have len: "length block = ?n + padding 4 ?n" using assms(1) block by (simp add: env_ok_def)
  let ?d = "(serdata_rmw_new tp k)\<lparr>m_data := Some (take ?n block @ zeros (padding 4 ?n)), m_size := ?n + padding 4 ?n\<rparr>"
  have rs: "resize V ?n (serdata_rmw_new tp k) = Inr ?d" by (rule resize_block [OF assms(1,3,4) block])
  have cp: "copy_iov [raw] 0 (take ?n block @ zeros (padding 4 ?n)) = Inr (raw @ zeros (padding 4 ?n))"
    using len by (subst copy_one) simp_all
  show thesis
  proof (rule that [of "?d\<lparr>m_data := Some (raw @ zeros (padding 4 ?n))\<rparr>"])
    show "rbind (try_catch (rbind (resize V ?n (serdata_rmw_new tp k)) (\<lambda>d.
       rbind (copy_iov [raw] 0 (case m_data d of None \<Rightarrow> [] | Some bs \<Rightarrow> bs)) (\<lambda>block.
       Inr (Some (d\<lparr>m_data := map_option (\<lambda>_. block) (m_data d)\<rparr>))))) None) f
       = f (Some (?d\<lparr>m_data := Some (raw @ zeros (padding 4 ?n))\<rparr>), None)"
      using rs cp by (simp add: try_catch_def del: copy_iov.simps)
  qed (simp_all add: data_bytes_def serdata_rmw_new_def)
qed

text \<open>
  The whole received serdata: its data are the bytes that came, and for a keyed type its key is the
  key encoding, in the byte order of the receiver, of the value the bytes encode.
\<close>

lemma receive_message:
  assumes "env_ok V" "memory_available V" "built E tp" "wf_type (message_type tp)"
    and "raw = rtps_header T @ cdr T (cdrmode k) (message_type tp) obj 0 @ slack" "length raw + 3 < SIZE_MOD"
    and "contains_key tp \<Longrightarrow> key_safe (message_type tp) \<and> fits (message_type tp) obj \<and> (k = SDK_DATA \<longrightarrow> \<not> is_request_header tp)"
  obtains d where "serdata_rmw_from_serialized_message V tp k raw = Inr (Some d, None)"
    "data_bytes d = raw @ zeros (padding 4 (length raw))" "sd_type d = Some tp" "kind d = k" "loan d = None"
    "contains_key tp \<Longrightarrow> key_bytes d = rtps_header (machine V) @ cdr (machine V) Key (message_type tp) obj 0
       \<and> m_keysize d = length (key_bytes d)"
proof -
  have pos: "0 < length raw" using assms(5) by (simp add: rtps_header_def)
  have small: "length raw mod SIZE_MOD = length raw" using assms(6) by simp
  note b = built_facts [OF assms(3)]
  let ?set = "\<lambda>(d, err). case d of None \<Rightarrow> Inr (None, err)
     | Some d \<Rightarrow> rbind (serdata_rmw_set_key_from_ser V tp d) (\<lambda>(d, err). Inr (Some d, err))"
  obtain d0 where d0: "rbind (try_catch (rbind (resize V (length raw) (serdata_rmw_new tp k)) (\<lambda>d.
       rbind (copy_iov [raw] 0 (case m_data d of None \<Rightarrow> [] | Some bs \<Rightarrow> bs)) (\<lambda>block.
       Inr (Some (d\<lparr>m_data := map_option (\<lambda>_. block) (m_data d)\<rparr>))))) None) ?set = ?set (Some d0, None)"
    "data_bytes d0 = raw @ zeros (padding 4 (length raw))" "sd_type d0 = Some tp" "kind d0 = k" "loan d0 = None"
    "m_data d0 \<noteq> None"
    by (rule from_serialized_message_data [OF assms(1,2) pos assms(6)])
  have from_ser: "serdata_rmw_from_serialized_message V tp k raw
      = rbind (serdata_rmw_set_key_from_ser V tp d0) (\<lambda>(d, err). Inr (Some d, err))"
    unfolding serdata_rmw_from_serialized_message_def serdata_rmw_from_ser_iov_def d0(1) using small by simp
  show thesis
  proof (cases "contains_key tp")
    case False
    then show thesis using that [of d0] from_ser d0 by (simp add: serdata_rmw_set_key_from_ser_def)
  next
    case True
    then have hk: "has_keys (message_type tp)" and ks: "key_safe (message_type tp)" and f: "fits (message_type tp) obj"
      and rq: "cdrmode k = Sample \<Longrightarrow> variant_of tp = SRSample"
      using b(3) assms(7) by (auto simp: cdrmode_def split: if_splits)
    let ?key = "rtps_header (machine V) @ cdr (machine V) Key (message_type tp) obj 0"
    have ex: "reader_extractkey (machine V) (cdr_reader_of tp) [] (data_bytes d0) (cdrmode (kind d0)) = Inr ?key"
      using reader_extractkey_message(1) [where E = "machine V" and pre = "[]" and T = T
          and rest = "slack @ zeros (padding 4 (length raw))", OF b(2) assms(4) hk ks f rq]
      by (simp add: d0(2,4) assms(5))
    have al: "alloc V (length ?key) \<noteq> None" using assms(2) by (simp add: memory_available_def)
    let ?d = "d0\<lparr>m_key := Some ?key, m_keysize := length ?key, sd_hash := ddsrt_mh3 V ?key (serdata_basehash tp)\<rparr>"
    have "set_key V (length ?key) ?key d0 = Inr ?d"
      unfolding set_key_def if_not_P [OF al] by (simp add: set_key_block_def d0(3) rtps_header_def)
    then have "serdata_rmw_set_key_from_ser V tp d0 = Inr (?d, None)"
      unfolding serdata_rmw_set_key_from_ser_def if_P [OF True] ex rbind_Inr by (simp add: try_catch_def)
    then have "serdata_rmw_from_serialized_message V tp k raw = Inr (Some ?d, None)" by (simp add: from_ser)
    then show thesis by (rule that) (use d0 in \<open>simp_all add: data_bytes_def key_bytes_def\<close>)
  qed
qed

lemma to_sample_message:
  assumes "env_ok V" "built E tp" "wf_type (message_type tp)" "sd_type d = Some tp" "kind d = SDK_DATA" "loan d = None"
    and "data_bytes d = message_of T tp m src Sample @ slack"
    and "fits (message_type tp) (top_value T m (message_type tp) (variant_of tp) Sample src)"
    and "shaped (message_type tp) (top_data dst)"
  shows "serdata_rmw_to_sample V m' d dst
     = Inr ((True, received (machine V) T m (message_type tp) (variant_of tp) src dst), None)"
proof -
  have rs: "resize_spec (callbacks V)" using assms(1) by (simp add: env_ok_def)
  have "serdata_rmw_serialize_into_on_demand V tp m' d = Inr (d, None)"
    by (simp add: serdata_rmw_serialize_into_on_demand_def assms(6))
  then show ?thesis
    using reader_roundtrip [OF built_facts(2) [OF assms(2)] assms(3) rs assms(8,9), of "machine V" slack]
    by (simp add: serdata_rmw_to_sample_def serdata_rmw_to_sample_impl_def assms(4,5,7) cdrmode_def try_catch_def)
qed

section \<open>Keys\<close>

text \<open>
  The size the writer reports is exact for types whose visited part has no array of more than one
  element.
\<close>

fun single_arrays :: "sample_or_key \<Rightarrow> value_type \<Rightarrow> bool" where
  "single_arrays w (StructValueType si ms) =
     (\<forall>mem \<in> set ms. (w \<noteq> Key \<or> \<not> m_has_keys si) \<or> is_key mem \<longrightarrow> single_arrays w (member_type mem))"
| "single_arrays w (ArrayValueType e n sc) = (n = 1 \<and> single_arrays w e)"
| "single_arrays w vt = True"

lemma align_start: "0 < n \<Longrightarrow> a \<le> a' \<Longrightarrow> k \<le> k' \<Longrightarrow> align_up n a + k \<le> a' + (padding n a' + k')"
  using align_up_mono [of n a a'] by (simp add: align_up_def)

lemma cdr_members_start:
  assumes "\<And>mem obj a a'. mem \<in> set ms \<Longrightarrow> all_fields \<or> is_key mem \<Longrightarrow> fits (member_type mem) obj \<Longrightarrow> a \<le> a' \<Longrightarrow>
      bend w Min (member_type mem) a \<le> a' + length (cdr T w (member_type mem) obj a')"
  shows "list_all2 (\<lambda>m. fits (member_type m)) ms os \<Longrightarrow> a \<le> a' \<Longrightarrow>
     bend_members w Min all_fields ms a \<le> a' + length (cdr_members T w all_fields ms os a')"
  using assms
proof (induction ms arbitrary: os a a')
  case Nil
  then show ?case by simp
next
  case (Cons mem ms)
  obtain nm vt moff key where mem: "mem = Member nm vt moff key" by (cases mem)
  from Cons.prems(1) obtain o1 os' where os: "os = o1 # os'" "fits vt o1"
    "list_all2 (\<lambda>m. fits (member_type m)) ms os'"
    by (cases os) (auto simp: mem)
  let ?bs = "if all_fields \<or> key then cdr T w vt o1 a' else []"
  have "(if all_fields \<or> key then bend w Min vt a else a) \<le> a' + length ?bs"
    using Cons.prems(3) [of mem o1 a a'] os(2) mem Cons.prems(2) by simp
  from Cons.IH [OF os(3) this] Cons.prems(3)
  have "bend_members w Min all_fields ms (if all_fields \<or> key then bend w Min vt a else a)
      \<le> a' + length ?bs + length (cdr_members T w all_fields ms os' (a' + length ?bs))" by simp
  then show ?case by (simp add: mem os(1) Let_def add.assoc)
qed

lemma cdr_start:
  "wf_type vt \<Longrightarrow> single_arrays w vt \<Longrightarrow> fits vt obj \<Longrightarrow> a \<le> a' \<Longrightarrow> bend w Min vt a \<le> a' + length (cdr T w vt obj a')"
proof (induction vt arbitrary: obj a a' rule: subtypes.induct)
  case (1 si ms)
  then obtain os where os: "obj = LStruct os" "list_all2 (\<lambda>m. fits (member_type m)) ms os"
    by (cases obj) auto
  have "bend_members w Min (w \<noteq> Key \<or> \<not> m_has_keys si) ms a
      \<le> a' + length (cdr_members T w (w \<noteq> Key \<or> \<not> m_has_keys si) ms os a')"
    by (rule cdr_members_start [OF _ os(2) "1.prems"(4)]) (use 1 in auto)
  then show ?case by (simp add: os(1))
next
  case (2 e n sc)
  then obtain x where os: "obj = LArr [x]" "fits e x"
    by (cases obj) (auto simp: length_Suc_conv)
  then show ?case using 2 by (simp add: many_end_def Let_def)
next
  case (3 k e b)
  then obtain os where os: "obj = LSeq os" by (cases obj) auto
  have "align_up 4 a + 4 \<le> a' + (padding 4 a' + (4 + length (cdr_list (cdr T w e) os (a' + length (cdr_u32 T (length os) a')))))"
    by (rule align_start) (use 3 in simp_all)
  then show ?case by (simp add: os many_end_def bound_of_def length_cdr_u32)
next
  case (4 k)
  then have "0 < prim_cdralignof k" by (simp add: prim_cdralignof_def prim_cdrsizeof_pos)
  moreover obtain bs where "obj = LPrim bs" "length bs = prim_cdrsizeof k"
    using 4 by (cases obj) auto
  ultimately show ?case using align_start [OF _ "4.prems"(4) order_refl] by simp
next
  case (5 b sz)
  then obtain s where "obj = LStr s" by (cases obj) auto
  then show ?case
    using align_start [OF _ "5.prems"(4), of 4 "4 + 1" "4 + length s + 1"] by (simp add: length_cdr_u32 bound_of_def)
next
  case (6 b sz)
  then obtain s where "obj = LWStr s" by (cases obj) auto
  then show ?case
    using align_start [OF _ "6.prems"(4), of 4 4 "4 + 2 * length s"] by (simp add: length_cdr_u32 bound_of_def)
next
  case (7 b sz)
  then obtain s where "obj = LBools s" by (cases obj) auto
  then show ?case
    using align_start [OF _ "7.prems"(4), of 4 4 "4 + length s"] by (simp add: length_cdr_u32 bound_of_def)
qed

lemma exact_size:
  assumes "make_cdr_writer E root variant = Inr w" "wf_type root" "inhabited root" "plain_mode what root"
    and "fits root (top_value E m root variant what src)" "single_arrays what root"
    and "length (cdr_message E m root variant what src) < SIZE_MOD" "get_min_serialized_size w what \<noteq> SIZE_MAX"
  shows "get_serialized_size E w m src what = Inr (length (cdr_message E m root variant what src))"
proof (cases "get_min_serialized_size w what = get_max_serialized_size w what")
  case True
  have min: "compute_serialized_size_bound E root variant what Min = Inr (get_min_serialized_size w what)"
    using assms(1) by (cases what) (auto simp: make_cdr_writer_def rbind_eq_Inr get_min_serialized_size_def)
  have "get_min_serialized_size w what = 4 + bend_top root variant what Min"
    using compute_bound_cases [OF assms(2,3), of E variant what Min] min assms(8) by auto
  moreover have "bend_top root variant what Min \<le> length (cdr_body E m root variant what src)"
    using cdr_start [OF assms(2,6,5) order_refl, of 16 E] cdr_start [OF assms(2,6,5) order_refl, of 0 E]
    by (auto simp: cdr_body_def bend_top_def top_value_def)
  moreover have "length (cdr_message E m root variant what src) \<le> get_max_serialized_size w what"
    using max_bounds_message [OF assms(1-3,5)] assms(8) True by auto
  ultimately show ?thesis using True by (simp add: get_serialized_size_def length_cdr_message)
next
  case False
  note w = make_cdr_writer_root [OF assms(1,2)]
  show ?thesis
    using measure_message [of w what E m src] w assms(2,4,7) False by (simp add: get_serialized_size_def)
qed

lemma key_message:
  "has_keys root \<Longrightarrow> cdr_message E m root variant Key src = rtps_header E @ cdr E Key root (read_obj E m src root) 0"
  by (simp add: cdr_message_def cdr_body_def)

lemma top_value_key: "top_value E m root variant Key src = read_obj E m src root"
  by (simp add: top_value_def)

lemma to_ser_whole:
  assumes "loan d = None" "length (data_bytes d) = m_size d"
  shows "serdata_rmw_to_ser V tp m d 0 (m_size d) = Inr (data_bytes d, d, None)"
  using assms by (simp add: serdata_rmw_to_ser_def serdata_rmw_serialize_into_on_demand_def)

text \<open>Publishing on one machine and receiving on another.\<close>

lemma publish_receive:
  assumes "env_ok V" "memory_available V" "built (machine V) tp"
    and "env_ok V'" "memory_available V'" "built (machine V') tp'"
    and "message_type tp' = message_type tp" "is_request_header tp' = is_request_header tp"
    and "sendable (machine V) tp m src Sample" "contains_key tp \<Longrightarrow> sendable (machine V) tp m src Key \<and> \<not> is_request_header tp"
    and "shaped (message_type tp) (top_data dst)"
  obtains d raw where "serdata_rmw_from_sample V tp SDK_DATA m src = Inr (Some d, None)"
    "serdata_rmw_to_ser V tp m d 0 (m_size d) = Inr (raw, d, None)"
    "\<And>f fs. covers raw 0 (f # fs) \<Longrightarrow> frag_min f = 0 \<Longrightarrow>
       \<exists>d'. serdata_rmw_from_ser V' tp' SDK_DATA (f # fs) (length raw) = Inr (Some d', None) \<and>
         serdata_rmw_to_sample V' m' d' dst
           = Inr ((True, received (machine V') (machine V) m (message_type tp) (variant_of tp) src dst), None) \<and>
         (contains_key tp \<longrightarrow> key_bytes d' = rtps_header (machine V') @ cdr (machine V') Key (message_type tp)
              (top_value (machine V) m (message_type tp) (variant_of tp) Sample src) 0)"
proof -
  let ?root = "message_type tp"
  let ?obj = "top_value (machine V) m ?root (variant_of tp) Sample src"
  have s: "wf_type ?root" "fits ?root ?obj" using assms(9) by (simp_all add: sendable_def Let_def)
  have key: "contains_key tp \<Longrightarrow> sendable (machine V) tp m src Key" using assms(10) by blast
  have s': "sendable (machine V) tp m src (cdrmode SDK_DATA)" using assms(9) by (simp add: cdrmode_def)
  obtain d tail where d: "serdata_rmw_from_sample V tp SDK_DATA m src = Inr (Some d, None)"
    "data_bytes d = message_of (machine V) tp m src (cdrmode SDK_DATA) @ tail"
    "length (data_bytes d) = m_size d" "4 dvd m_size d" "m_size d < UINT32_MAX + 8"
    "sd_type d = Some tp" "kind d = SDK_DATA" "loan d = None"
    by (rule from_sample_message [OF assms(1-3) s' key])
  let ?raw = "data_bytes d"
  have raw: "?raw = message_of (machine V) tp m src Sample @ tail" using d(2) by (simp add: cdrmode_def)
  have small: "length ?raw + 3 < SIZE_MOD" using d(3,5) by linarith
  have pad: "padding 4 (length ?raw) = 0" using d(3,4) by (simp add: padding_def dvd_eq_mod_eq_0)
  have ck: "contains_key tp' = contains_key tp"
    using built_facts(3) [OF assms(3)] built_facts(3) [OF assms(6)] assms(7) by simp
  have recv: "\<exists>d'. serdata_rmw_from_ser V' tp' SDK_DATA (f # fs) (length ?raw) = Inr (Some d', None) \<and>
         serdata_rmw_to_sample V' m' d' dst
           = Inr ((True, received (machine V') (machine V) m ?root (variant_of tp) src dst), None) \<and>
         (contains_key tp \<longrightarrow> key_bytes d' = rtps_header (machine V') @ cdr (machine V') Key ?root ?obj 0)"
    if cov: "covers ?raw 0 (f # fs)" "frag_min f = 0" for f fs
  proof -
    have ser: "serdata_rmw_from_ser V' tp' SDK_DATA (f # fs) (length ?raw)
        = serdata_rmw_from_serialized_message V' tp' SDK_DATA ?raw"
      by (rule from_ser_fragments [OF assms(4) cov small])
    have to: "serdata_rmw_to_sample V' m' d' dst
        = Inr ((True, received (machine V') (machine V) m ?root (variant_of tp) src dst), None)"
      if d': "data_bytes d' = ?raw @ zeros (padding 4 (length ?raw))" "sd_type d' = Some tp'" "kind d' = SDK_DATA"
        "loan d' = None" for d'
      using to_sample_message [OF assms(4,6) _ d'(2-4), of "machine V" m src tail dst m'] d'(1) raw pad s assms(7,8,11)
      by simp
    show ?thesis
    proof (cases "contains_key tp")
      case True
      then have nr: "\<not> is_request_header tp" using assms(10) by blast
      have "plain_mode Key ?root" using key [OF True] by (simp add: sendable_def Let_def)
      then have ks: "key_safe ?root" by (simp add: plain_mode_def)
      have enc: "?raw = rtps_header (machine V) @ cdr (machine V) (cdrmode SDK_DATA) (message_type tp') ?obj 0 @ tail"
        using raw nr assms(7) by (simp add: cdr_message_def cdr_body_def top_value_def cdrmode_def)
      obtain d' where d': "serdata_rmw_from_serialized_message V' tp' SDK_DATA ?raw = Inr (Some d', None)"
        "data_bytes d' = ?raw @ zeros (padding 4 (length ?raw))" "sd_type d' = Some tp'" "kind d' = SDK_DATA" "loan d' = None"
        "contains_key tp' \<Longrightarrow> key_bytes d' = rtps_header (machine V') @ cdr (machine V') Key (message_type tp') ?obj 0
          \<and> m_keysize d' = length (key_bytes d')"
        by (rule receive_message [OF assms(4-6) _ enc small]) (use s ks nr assms(7,8) in simp_all)
      then show ?thesis using ser to [OF d'(2-5)] True ck assms(7) by simp
    next
      case False
      have wf': "wf_type (message_type tp')" using s(1) assms(7) by simp
      have nk: "\<not> contains_key tp'" using False ck by simp
      have pos: "0 < length ?raw" using raw by (simp add: length_cdr_message)
      let ?set = "\<lambda>(d, err). case d of None \<Rightarrow> Inr (None, err)
        | Some d \<Rightarrow> rbind (serdata_rmw_set_key_from_ser V' tp' d) (\<lambda>(d, err). Inr (Some d, err))"
      obtain d' where d': "rbind (try_catch (rbind (resize V' (length ?raw) (serdata_rmw_new tp' SDK_DATA)) (\<lambda>d.
           rbind (copy_iov [?raw] 0 (case m_data d of None \<Rightarrow> [] | Some bs \<Rightarrow> bs)) (\<lambda>block.
           Inr (Some (d\<lparr>m_data := map_option (\<lambda>_. block) (m_data d)\<rparr>))))) None) ?set = ?set (Some d', None)"
        "data_bytes d' = ?raw @ zeros (padding 4 (length ?raw))" "sd_type d' = Some tp'" "kind d' = SDK_DATA" "loan d' = None"
        "m_data d' \<noteq> None"
        by (rule from_serialized_message_data [OF assms(4,5) pos small])
      have "serdata_rmw_from_serialized_message V' tp' SDK_DATA ?raw = Inr (Some d', None)"
        unfolding serdata_rmw_from_serialized_message_def serdata_rmw_from_ser_iov_def d'(1)
        using small nk by (simp add: serdata_rmw_set_key_from_ser_def)
      then show ?thesis using ser to [OF d'(2-5)] False by simp
    qed
  qed
  have ts: "serdata_rmw_to_ser V tp m d 0 (m_size d) = Inr (?raw, d, None)" by (rule to_ser_whole [OF d(8,3)])
  show thesis by (rule that [OF d(1) ts]) (use recv in blast)
qed

text \<open>
  The key of a sample that is sent, and the key the receiver of its bytes extracts, on machines of
  the same byte order.
\<close>

lemma local_received_keys:
  assumes "env_ok V" "memory_available V" "built (machine V) tp" "contains_key tp" "\<not> is_request_header tp"
    and "sendable (machine V) tp m src Sample" "sendable (machine V) tp m src Key"
  obtains d d' where "serdata_rmw_from_sample V tp SDK_DATA m src = Inr (Some d, None)"
    "serdata_rmw_from_serialized_message V tp SDK_DATA (data_bytes d) = Inr (Some d', None)"
    "get_serialized_size (machine V) (cdr_writer_of tp) m src Key = Inr (m_keysize d)"
    "key_bytes d = message_of (machine V) tp m src Key @ zeros (m_keysize d - length (message_of (machine V) tp m src Key))"
    "key_bytes d' = message_of (machine V) tp m src Key" "m_keysize d' = length (message_of (machine V) tp m src Key)"
proof -
  let ?root = "message_type tp" and ?E = "machine V"
  let ?obj = "read_obj ?E m src ?root"
  have s: "wf_type ?root" "key_safe ?root" "fits ?root ?obj"
    using assms(7) by (simp_all add: sendable_def Let_def plain_mode_def top_value_key)
  have hk: "has_keys ?root" using built_facts(3) [OF assms(3)] assms(4) by simp
  have mode: "sendable ?E tp m src (cdrmode SDK_DATA)" using assms(6) by (simp add: cdrmode_def)
  obtain d tail where d: "serdata_rmw_from_sample V tp SDK_DATA m src = Inr (Some d, None)"
    "data_bytes d = message_of ?E tp m src (cdrmode SDK_DATA) @ tail"
    "length (data_bytes d) = m_size d" "4 dvd m_size d" "m_size d < UINT32_MAX + 8"
    "sd_type d = Some tp" "kind d = SDK_DATA" "loan d = None"
    "contains_key tp \<Longrightarrow> get_serialized_size ?E (cdr_writer_of tp) m src Key = Inr (m_keysize d)
       \<and> length (message_of ?E tp m src Key) \<le> m_keysize d
       \<and> key_bytes d = message_of ?E tp m src Key @ zeros (m_keysize d - length (message_of ?E tp m src Key))"
    by (rule from_sample_message [OF assms(1-3) mode assms(7)]) blast
  have raw: "data_bytes d = rtps_header ?E @ cdr ?E (cdrmode SDK_DATA) ?root ?obj 0 @ tail"
    using d(2) assms(5) by (simp add: cdr_message_def cdr_body_def cdrmode_def)
  have small: "length (data_bytes d) + 3 < SIZE_MOD" using d(3,5) by linarith
  obtain d' where d': "serdata_rmw_from_serialized_message V tp SDK_DATA (data_bytes d) = Inr (Some d', None)"
    "data_bytes d' = data_bytes d @ zeros (padding 4 (length (data_bytes d)))" "sd_type d' = Some tp"
    "kind d' = SDK_DATA" "loan d' = None"
    "contains_key tp \<Longrightarrow> key_bytes d' = rtps_header ?E @ cdr ?E Key ?root ?obj 0 \<and> m_keysize d' = length (key_bytes d')"
    by (rule receive_message [OF assms(1-3) s(1) raw small]) (use s assms(5) in simp_all)
  show thesis
    by (rule that [OF d(1) d'(1)]) (use d(9) d'(6) assms(4) key_message [OF hk] in simp_all)
qed

lemma local_received_eqkey:
  assumes "env_ok V" "memory_available V" "built (machine V) tp" "contains_key tp" "\<not> is_request_header tp"
    and "sendable (machine V) tp m src Sample" "sendable (machine V) tp m src Key"
    and "single_arrays Key (message_type tp)"
  obtains d d' where "serdata_rmw_from_sample V tp SDK_DATA m src = Inr (Some d, None) \<and>
    serdata_rmw_from_serialized_message V tp SDK_DATA (data_bytes d) = Inr (Some d', None) \<and> serdata_rmw_eqkey d d'"
proof -
  have s: "wf_type (message_type tp)" "inhabited (message_type tp)" "plain_mode Key (message_type tp)"
    "fits (message_type tp) (top_value (machine V) m (message_type tp) (variant_of tp) Key src)"
    "length (message_of (machine V) tp m src Key) < SIZE_MOD" "get_min_serialized_size (cdr_writer_of tp) Key \<noteq> SIZE_MAX"
    using assms(7) by (auto simp: sendable_def Let_def)
  have size: "get_serialized_size (machine V) (cdr_writer_of tp) m src Key = Inr (length (message_of (machine V) tp m src Key))"
    by (rule exact_size [OF built_facts(1) [OF assms(3)] s(1-4) assms(8) s(5,6)])
  obtain d d' where d: "serdata_rmw_from_sample V tp SDK_DATA m src = Inr (Some d, None)"
    "serdata_rmw_from_serialized_message V tp SDK_DATA (data_bytes d) = Inr (Some d', None)"
    "get_serialized_size (machine V) (cdr_writer_of tp) m src Key = Inr (m_keysize d)"
    "key_bytes d = message_of (machine V) tp m src Key @ zeros (m_keysize d - length (message_of (machine V) tp m src Key))"
    "key_bytes d' = message_of (machine V) tp m src Key" "m_keysize d' = length (message_of (machine V) tp m src Key)"
    by (rule local_received_keys [OF assms(1-7)])
  have "serdata_rmw_eqkey d d'" using d(3-6) size by (simp add: serdata_rmw_eqkey_def)
  then show thesis using d(1,2) that by blast
qed

section \<open>The key hash\<close>

lemma cdr_pos: "wf_type vt \<Longrightarrow> inhabited vt \<Longrightarrow> fits vt obj \<Longrightarrow> 0 < length (cdr T w vt obj a)"
proof (induction vt arbitrary: obj a rule: subtypes.induct)
  case (1 si ms)
  obtain os where os: "obj = LStruct os" "list_all2 (\<lambda>m. fits (member_type m)) ms os"
    using "1.prems"(3) by (cases obj) auto
  let ?all = "w \<noteq> Key \<or> \<not> m_has_keys si"
  have mem: "0 < length (cdr T w (member_type mem) x a)" if "mem \<in> set ms" "fits (member_type mem) x" for mem x a
    using "1.IH" [OF that(1) _ _ that(2)] "1.prems"(1,2) that(1) by simp
  have "0 < length (cdr_members T w ?all l xs a)"
    if "list_all2 (\<lambda>m. fits (member_type m)) l xs" "set l \<subseteq> set ms" "\<exists>mem \<in> set l. ?all \<or> is_key mem" for l xs a
    using that
  proof (induction l arbitrary: xs a)
    case Nil
    then show ?case by simp
  next
    case (Cons y l)
    obtain nm vt moff key where y: "y = Member nm vt moff key" by (cases y)
    obtain x xs' where xs: "xs = x # xs'" "fits vt x" "list_all2 (\<lambda>m. fits (member_type m)) l xs'"
      using Cons.prems(1) by (cases xs) (auto simp: y)
    show ?case
    proof (cases "?all \<or> key")
      case True
      then have "0 < length (cdr T w vt x a)" using mem [of y x a] Cons.prems(2) xs(2) y by simp
      then show ?thesis using True by (auto simp: y xs(1) Let_def)
    next
      case False
      then show ?thesis using Cons.IH [OF xs(3)] Cons.prems(2,3) by (auto simp: y xs(1) Let_def)
    qed
  qed
  moreover have "\<exists>mem \<in> set ms. ?all \<or> is_key mem"
    using "1.prems"(1,2) by (cases ms) (auto simp: list_ex_iff)
  ultimately show ?case using os by simp
next
  case (2 e n sc)
  obtain os where os: "obj = LArr os" "length os = n" "\<forall>x \<in> set os. fits e x"
    using "2.prems"(3) by (cases obj) (auto simp: list_all_iff)
  then obtain x xs where "os = x # xs" using "2.prems"(1) by (cases os) auto
  then show ?case using os "2.IH" [of x a] "2.prems"(1,2) by (auto simp: Let_def)
next
  case (3 k e b)
  then obtain os where "obj = LSeq os" by (cases obj) auto
  then show ?case by (simp add: length_cdr_u32)
next
  case (4 k)
  then obtain bs where "obj = LPrim bs" "length bs = prim_cdrsizeof k" by (cases obj) auto
  then show ?case using 4 prim_cdrsizeof_pos by simp
next
  case (5 b sz)
  then show ?case by (cases obj) (simp_all add: length_cdr_u32)
next
  case (6 b sz)
  then show ?case by (cases obj) (simp_all add: length_cdr_u32)
next
  case (7 b sz)
  then show ?case by (cases obj) (simp_all add: length_cdr_u32)
qed

lemma max_key_bound:
  assumes "make_cdr_writer E root variant = Inr w" "wf_type root" "inhabited root" "has_keys root" "fits root obj"
  shows "get_max_serialized_size w Key = SIZE_MAX \<or> 4 + length (cdr T Key root obj 0) \<le> get_max_serialized_size w Key"
  using compute_bound_cases [OF assms(2,3), of E variant Key Max] make_cdr_writer_max [OF assms(1), of Key]
    cdr_end [OF assms(2,5) order_refl, of 0 T Key] assms(4)
  by (auto simp: bend_top_def Let_def)

lemma keyhash_value:
  assumes "built E tp" "wf_type (message_type tp)" "inhabited (message_type tp)" "contains_key tp"
    and "key_safe (message_type tp)" "fits (message_type tp) obj" "machine V = big \<or> wstring_free (message_type tp)"
    and "sd_type d = Some tp" "key_bytes d = rtps_header T @ cdr T Key (message_type tp) obj 0 @ slack"
  shows "serdata_rmw_get_keyhash V d force_md5 =
     (let K = cdr big Key (message_type tp) obj 0 in
      Inr (if get_max_serialized_size (cdr_writer_of tp) Key \<le> 20 \<and> \<not> force_md5
           then K @ zeros (16 - length K) else ddsrt_md5 V K))"
proof -
  note b = built_facts [OF assms(1)]
  let ?K = "cdr big Key (message_type tp) obj 0"
  have hk: "has_keys (message_type tp)" using b(3) assms(4) by simp
  have ex: "reader_extractkey_be (machine V) (cdr_reader_of tp) [] (key_bytes d) Key = Inr (rtps_header big @ ?K)"
    using reader_extractkey_message(2) [where pre = "[]" and what = Key, OF b(2) assms(2) hk assms(5,6) _ assms(7)]
    by (simp add: assms(9))
  have pos: "0 < length ?K" by (rule cdr_pos [OF assms(2,3,6)])
  have hdr: "length (rtps_header big) = 4" "drop 4 (rtps_header big @ ?K) = ?K" by (simp_all add: rtps_header_def)
  have le: "length ?K \<le> 16" if "get_max_serialized_size (cdr_writer_of tp) Key \<le> 20"
    using max_key_bound [OF b(1) assms(2,3) hk assms(6), of big] that by auto
  have key_be: "\<not> length (rtps_header big @ ?K) \<le> 4" using pos hdr(1) by simp
  have len: "length (rtps_header big @ ?K) - 4 = length ?K" using hdr(1) by simp
  show ?thesis
    unfolding serdata_rmw_get_keyhash_def assms(8) option.case if_P [OF assms(4)] ex rbind_Inr if_not_P [OF key_be] len hdr(2)
    using le by (auto simp: write_at_def Let_def)
qed

section \<open>Printing\<close>

definition print_inv :: "nat \<Rightarrow> print_buffer \<Rightarrow> bool" where
  "print_inv n b \<longleftrightarrow> length (fst b) = n \<and> snd b \<le> n"

lemma snprintf_inv: "print_inv n b \<Longrightarrow> print_inv n (snprintf_wrapper txt b)"
  by (cases b) (auto simp: print_inv_def snprintf_wrapper_def buffer_left_def Let_def min_def)

lemma print_key_bytes_inv: "print_inv n b \<Longrightarrow> print_inv n (print_key_bytes ks b)"
  by (induction ks b rule: print_key_bytes.induct) (simp_all add: snprintf_inv)

lemma reader_print_length:
  "reader_print fmt E r dst input what = Inr (n, dst') \<Longrightarrow> length dst' = length dst"
  by (auto simp: reader_print_def Let_def rbind_eq_Inr split: if_splits)

lemma serdata_print_bounds:
  assumes "wf_type (rd_root_value_type (cdr_reader_of tp))"
  shows "case serdata_rmw_print V tp d buf of
      Inl e \<Rightarrow> \<forall>s. e \<noteq> UB s
    | Inr (n, buf') \<Rightarrow> n \<le> length buf \<and> length buf' = length buf"
proof -
  let ?b = "snprintf_wrapper ''] '' (print_key_bytes (key_bytes d) (snprintf_wrapper ''['' (buf, 0)))"
  let ?input = "if sd_type d \<noteq> None then data_bytes d else key_bytes d"
  have "print_inv (length buf) (buf, 0)" by (simp add: print_inv_def)
  then have "print_inv (length buf) ?b" by (intro snprintf_inv print_key_bytes_inv)
  then have inv: "length (fst ?b) = length buf" "snd ?b \<le> length buf" by (simp_all add: print_inv_def)
  let ?r = "reader_print (floats V) (machine V) (cdr_reader_of tp) (drop (snd ?b) (fst ?b)) ?input (cdrmode (kind d))"
  show ?thesis
  proof (cases "0 < buffer_left ?b")
    case False
    then show ?thesis using inv by (simp add: serdata_rmw_print_def Let_def)
  next
    case True
    show ?thesis
    proof (cases ?r)
      case (Inl e)
      then show ?thesis
        using True reader_print_no_ub [OF assms] by (auto simp: serdata_rmw_print_def Let_def)
    next
      case (Inr x)
      obtain n rest where x: "x = (n, rest)" by fastforce
      have "0 < length (drop (snd ?b) (fst ?b))" using True by (simp add: buffer_left_def)
      from reader_print_terminated [OF Inr [unfolded x] this] reader_print_length [OF Inr [unfolded x]]
      have "n < length buf - snd ?b" "length rest = length buf - snd ?b" using inv by simp_all
      then show ?thesis using True Inr x inv by (simp add: serdata_rmw_print_def Let_def)
    qed
  qed
qed

end
