(* ===== verification/Examples.thy ===== *)
theory Examples
  imports SerdataProps
begin

text \<open>
  Concrete types, samples and environments, on which the properties of the development are
  instantiated: a struct with a numeric key and a bounded string, a struct with an array, the same
  array as a key, a machine for each byte order.
\<close>

section \<open>Types\<close>

definition ex_info :: "nat \<Rightarrow> bool \<Rightarrow> struct_info" where
  "ex_info sz keys = \<lparr>size_of = sz, m_has_keys = keys, m_is_self_contained = False, m_type_generator = ROSIDL_Cpp\<rparr>"

definition ex_keyed :: value_type where
  "ex_keyed = StructValueType (ex_info 40 True)
     [Member ''id'' (PrimitiveValueType UINT32) 0 True, Member ''name'' (U8StringValueType 20 32) 8 False]"

definition ex_array_of :: "bool \<Rightarrow> value_type" where
  "ex_array_of key = StructValueType (ex_info 12 key)
     [Member ''v'' (ArrayValueType (PrimitiveValueType INT32) 3 False) 0 key]"

definition ex_wide :: value_type where
  "ex_wide = StructValueType (ex_info 32 True) [Member ''k'' (U16StringValueType 4 32) 0 True]"

lemmas ex_types = ex_keyed_def ex_array_of_def ex_wide_def ex_info_def

section \<open>A machine and its memory\<close>

definition ex_memory :: memory where
  "ex_memory = \<lparr>mem_byte = of_nat, mem_u8str = (\<lambda>_. [104, 105]), mem_u16str = (\<lambda>_. [1]), mem_seq = (\<lambda>_. (0, 0)),
     mem_bools = (\<lambda>_. [])\<rparr>"

definition ex_floats :: float_format where
  "ex_floats = \<lparr>show_float = (\<lambda>_. ''0''), show_double = (\<lambda>_. ''0'')\<rparr>"

definition ex_env :: "endian \<Rightarrow> env" where
  "ex_env E = \<lparr>machine = E, alloc = (\<lambda>n. Some (replicate n 170)), ddsrt_mh3 = (\<lambda>bs h. of_nat (length bs)),
     ddsrt_md5 = (\<lambda>_. replicate 16 1), callbacks = plain_runtime, floats = ex_floats\<rparr>"

lemma ex_env_ok [simp]: "env_ok (ex_env E)" "memory_available (ex_env E)" "machine (ex_env E) = E"
  by (simp_all add: ex_env_def env_ok_def memory_available_def plain_runtime_resize)

lemma ex_keyed_ok [simp]:
  "wf_type ex_keyed" "inhabited ex_keyed" "has_keys ex_keyed" "key_safe ex_keyed" "wstring_free ex_keyed"
  "wf_struct ex_keyed" "single_arrays w ex_keyed" "plain_mode w ex_keyed"
  by (simp_all add: ex_types wf_struct_def is_primitive_kind_def plain_mode_def)

lemma ex_array_ok [simp]:
  "wf_type (ex_array_of key)" "inhabited (ex_array_of key)" "has_keys (ex_array_of key) = key"
  "key_safe (ex_array_of key)" "wf_struct (ex_array_of key)" "plain_mode w (ex_array_of key)"
  by (simp_all add: ex_types wf_struct_def is_primitive_kind_def plain_mode_def)

lemma ex_keyed_read:
  "read_obj E ex_memory a ex_keyed = LStruct [LPrim (in_order E (mem_read ex_memory a 4)), LStr [104, 105]]"
  by (simp add: ex_types ex_memory_def)

lemma ex_fits [simp]: "fits ex_keyed (read_obj E ex_memory a ex_keyed)"
  unfolding ex_keyed_read by (simp add: ex_types)

lemma ex_fits_top [simp]: "fits ex_keyed (top_value E ex_memory ex_keyed variant what a)"
  by (simp add: top_value_def)

lemma ex_array_fits [simp]: "fits (ex_array_of key) (read_obj E ex_memory a (ex_array_of key))"
  by (simp add: ex_types list_all_iff)

lemma ex_array_fits_top [simp]: "fits (ex_array_of key) (top_value E ex_memory (ex_array_of key) variant what a)"
  by (simp add: top_value_def)

lemma ex_message_length:
  "length (cdr_message E ex_memory ex_keyed variant what a) \<le> 40"
proof -
  have "length (cdr T w ex_keyed (read_obj E ex_memory b ex_keyed) off) \<le> 20" for T w b off
    unfolding ex_keyed_read
    using padding_lt [of 4 off] padding_lt [of 4 "off + (padding 4 off + 4)"]
    by (auto simp: ex_types Let_def length_cdr_u32 prim_cdralignof_def)
  note le = this
  have "length (cdr T w ex_keyed (read_obj E ex_memory b ex_keyed) off) \<le> 36" for T w b off
    by (rule order_trans [OF le]) simp
  moreover have "16 + length (cdr T w ex_keyed (read_obj E ex_memory b ex_keyed) off) \<le> 36" for T w b off
    using le [of T w b off] by linarith
  ultimately show ?thesis by (auto simp: length_cdr_message cdr_body_def)
qed

section \<open>Writers, readers and types\<close>

definition ex_writer :: "endian \<Rightarrow> value_type \<Rightarrow> sample_or_request \<Rightarrow> cdr_writer" where
  "ex_writer E root variant = projr (make_cdr_writer E root variant)"

definition ex_reader :: "value_type \<Rightarrow> sample_or_request \<Rightarrow> cdr_reader" where
  "ex_reader root variant = projr (make_cdr_reader root variant)"

definition ex_sertype :: "endian \<Rightarrow> bool \<Rightarrow> value_type \<Rightarrow> sertype_rmw" where
  "ex_sertype E req root = projr (create_sertype E ''ex'' 7 req root)"

lemma ex_writer_made:
  "wf_type root \<Longrightarrow> inhabited root \<Longrightarrow> make_cdr_writer E root variant = Inr (ex_writer E root variant)"
  using make_cdr_writer_total [of root E variant] by (auto simp: ex_writer_def)

lemma ex_reader_made: "wf_type root \<Longrightarrow> make_cdr_reader root variant = Inr (ex_reader root variant)"
  using make_cdr_reader_total [of root variant] by (auto simp: ex_reader_def)

lemma ex_sertype_made:
  "wf_struct root \<Longrightarrow> inhabited root \<Longrightarrow> create_sertype E ''ex'' 7 req root = Inr (ex_sertype E req root)"
  using create_sertype_total [of root E "''ex''" 7 req] by (auto simp: ex_sertype_def)

lemma ex_sertype_facts [simp]:
  assumes "wf_struct root" "inhabited root"
  shows "built E (ex_sertype E req root)" "message_type (ex_sertype E req root) = root"
    and "is_request_header (ex_sertype E req root) = req" "contains_key (ex_sertype E req root) = has_keys root"
  using create_sertype_facts [OF ex_sertype_made [OF assms, of E req]] ex_sertype_made [OF assms, of E req]
  by (auto simp: built_def)

section \<open>Sizes\<close>

lemma ex_bounds:
  "compute_serialized_size_bound E ex_keyed SRSample Sample Min = Inr 13"
  "compute_serialized_size_bound E ex_keyed SRSample Sample Max = Inr 33"
  "compute_serialized_size_bound E ex_keyed SRSample Key Min = Inr 8"
  "compute_serialized_size_bound E ex_keyed SRSample Key Max = Inr 8"
  by (simp_all add: ex_types compute_serialized_size_bound_def serialize_size_bound_top_level_def
      put_rtps_header_def checking_ops_def checking_advance_def CheckingSizeCursor_def w_align_def sz_sub_diff_def
      prim_cdralignof_def serialize_u32_def)

lemma make_cdr_writer_min:
  assumes "make_cdr_writer E root variant = Inr w"
  shows "compute_serialized_size_bound E root variant what Min = Inr (get_min_serialized_size w what)"
  using assms by (cases what) (auto simp: make_cdr_writer_def rbind_eq_Inr get_min_serialized_size_def)

lemma ex_writer_sizes [simp]:
  "get_min_serialized_size (ex_writer E ex_keyed SRSample) what = (if what = Sample then 13 else 8)"
  "get_max_serialized_size (ex_writer E ex_keyed SRSample) what = (if what = Sample then 33 else 8)"
  using make_cdr_writer_min [OF ex_writer_made, of ex_keyed E SRSample what]
    make_cdr_writer_max [OF ex_writer_made, of ex_keyed E SRSample what]
  by (cases what; simp add: ex_bounds)+

lemma ex_sertype_writer [simp]:
  assumes "wf_struct root" "inhabited root"
  shows "cdr_writer_of (ex_sertype E req root) = ex_writer E root (if req then SRRequest else SRSample)"
    and "cdr_reader_of (ex_sertype E req root) = ex_reader root (if req then SRRequest else SRSample)"
  using create_sertype_facts(1,2) [OF ex_sertype_made [OF assms, of E req]]
  by (simp_all add: ex_writer_def ex_reader_def)

lemma ex_sendable [simp]: "sendable E (ex_sertype E False ex_keyed) ex_memory src what"
  using ex_message_length [of E SRSample what src] by (auto simp: sendable_def Let_def)

definition ex_dst :: top_object where
  "ex_dst = \<lparr>top_guid = 0, top_seq = 0, top_data = default_obj ex_keyed\<rparr>"

lemma ex_dst_shaped [simp]: "shaped ex_keyed (top_data ex_dst)"
  by (simp add: ex_dst_def shaped_default)

definition ex_fragment :: "u8 list \<Rightarrow> ddsi_rdata" where
  "ex_fragment raw = \<lparr>frag_min = 0, frag_maxp1 = length raw, frag_payload = raw\<rparr>"

text \<open>A serdata that holds the key 0x04030201 of the keyed type, little endian.\<close>

definition ex_key_serdata :: serdata_rmw where
  "ex_key_serdata = (serdata_rmw_new (ex_sertype little False ex_keyed) SDK_KEY)
     \<lparr>m_keysize := 8, m_key := Some (rtps_header little @ [1, 2, 3, 4])\<rparr>"

lemma ex_key_serdata [simp]:
  "sd_type ex_key_serdata = Some (ex_sertype little False ex_keyed)"
  "key_bytes ex_key_serdata = rtps_header little @ [1, 2, 3, 4]"
  by (simp_all add: ex_key_serdata_def serdata_rmw_new_def key_bytes_def rtps_header_def)

lemma ex_keyed_fits: "fits ex_keyed (LStruct [LPrim bs, LStr s]) \<longleftrightarrow> length bs = 4 \<and> length s \<le> 20"
  by (simp add: ex_types)

lemma ex_keyed_key:
  "cdr T Key ex_keyed (LStruct [LPrim bs, LStr s]) 0 = in_order T bs"
  by (simp add: ex_types padding_zero)

section \<open>Introspection tables\<close>

definition ex_abi :: abi where
  "ex_abi = \<lparr>sizeof_rosidl_String = 24, sizeof_rosidl_U16String = 24, sizeof_std_string = 32, sizeof_std_u16string = 32,
     sizeof_vector_bool = 40, sizeof_SequenceObject = 24, uninitialized_bool = False\<rparr>"

definition ex_type_support :: type_support where
  "ex_type_support = TypeSupport None (Some (MetaMessage (Some ''pkg__msg'') ''Id'' 4
     [MetaMember ''id'' UINT32 (TypeSupport None None) False 0 False 0 True False 0]))"

section \<open>A message in overlapping fragments\<close>

definition ex_msg :: "u8 list" where
  "ex_msg = [0, 1, 0, 0, 9, 8, 7, 6]"

definition ex_chain :: "ddsi_rdata list" where
  "ex_chain = [\<lparr>frag_min = 1, frag_maxp1 = 4, frag_payload = [1, 0, 0]\<rparr>,
     \<lparr>frag_min = 2, frag_maxp1 = 8, frag_payload = [0, 0, 9, 8, 7, 6]\<rparr>]"

definition ex_first :: ddsi_rdata where
  "ex_first = \<lparr>frag_min = 0, frag_maxp1 = 5, frag_payload = [0, 1, 0, 0, 9]\<rparr>"

lemma ex_chain_covers [simp]:
  "covers ex_msg 0 (ex_first # ex_chain)" "frag_min ex_first = 0" "length ex_msg = 8"
  by (simp_all add: ex_msg_def ex_chain_def ex_first_def)

section \<open>Arrays\<close>

lemma ex_array_bounds:
  "compute_serialized_size_bound E (ex_array_of key) SRSample what mm = Inr (if what = Sample \<or> key then 24 else 4)"
  by (cases what; cases key) (simp_all add: ex_types compute_serialized_size_bound_def serialize_size_bound_top_level_def
      put_rtps_header_def checking_ops_def checking_advance_def CheckingSizeCursor_def w_align_def sz_sub_diff_def
      prim_cdralignof_def serialize_u32_def size_bound_many_def Let_def)

lemma ex_array_sizes:
  "get_min_serialized_size (ex_writer E (ex_array_of key) SRSample) what = (if what = Sample \<or> key then 24 else 4)"
  "get_max_serialized_size (ex_writer E (ex_array_of key) SRSample) what = (if what = Sample \<or> key then 24 else 4)"
  using make_cdr_writer_min [OF ex_writer_made, of "ex_array_of key" E SRSample what]
    make_cdr_writer_max [OF ex_writer_made, of "ex_array_of key" E SRSample what]
  by (simp_all add: ex_array_bounds split: if_splits)

lemma ex_array_length:
  "what = Sample \<or> key \<Longrightarrow> length (cdr_message E ex_memory (ex_array_of key) SRSample what src) = 16"
  by (auto simp: length_cdr_message cdr_body_def ex_types prim_cdralignof_def padding_def upt_rec Let_def)

lemma ex_array_sendable: "what = Sample \<or> key \<Longrightarrow> sendable E (ex_sertype E False (ex_array_of key)) ex_memory src what"
  using ex_array_sizes [where E = E and key = key and what = what]
    ex_array_length [where E = E and key = key and what = what and src = src] by (simp add: sendable_def Let_def)

section \<open>A wide string as a key\<close>

lemma ex_wide_ok [simp]: "wf_type ex_wide" "has_keys ex_wide"
  by (simp_all add: ex_types)

lemma ex_wide_bytes: "cdr_u32 big 2 0 = [0, 0, 0, 2]" "u16s_bytes little [1] = [1, 0]"
  by (simp_all add: cdr_u32_def padding_zero u16s_bytes_def word_bytes_def le_bytes_def upt_rec in_order_def)

lemma show_nat_digit: "n < 10 \<Longrightarrow> show_nat n = [char_of (48 + n)]"
  by (simp add: show_nat_def digits.simps(2) [of 19, simplified])

end
