(* ===== verification/Names.thy ===== *)
theory Names
  imports Prelude "HOL-Library.Sublist"
begin

text \<open>
  \<^verbatim>\<open>type_name.cpp\<close>, \<^verbatim>\<open>demangle.cpp\<close>, \<^verbatim>\<open>u16string.cpp\<close> and \<open>make_fqtopic\<close> of \<^verbatim>\<open>rmw_node.cpp\<close>: how ROS
  names of types, topics and services become DDS names and back.  The theory proves that demangling
  inverts mangling, for types from either introspection library, for topics, requests and replies,
  and says where the demangling functions throw.
\<close>

section \<open>Searching strings\<close>

text \<open>\<open>std::string::find\<close> and \<open>rfind\<close>; \<open>None\<close> is \<open>npos\<close>.\<close>

fun str_find :: "string \<Rightarrow> string \<Rightarrow> nat option" where
  "str_find pat [] = (if pat = [] then Some 0 else None)"
| "str_find pat (c # s) = (if prefix pat (c # s) then Some 0 else map_option Suc (str_find pat s))"

fun str_rfind :: "string \<Rightarrow> string \<Rightarrow> nat option" where
  "str_rfind pat [] = (if pat = [] then Some 0 else None)"
| "str_rfind pat (c # s) =
     (case str_rfind pat s of
        Some i \<Rightarrow> Some (Suc i)
      | None \<Rightarrow> if prefix pat (c # s) then Some 0 else None)"

text \<open>\<open>std::string::at\<close> throws past the end; \<open>substr(pos)\<close> with \<open>pos\<close> at most the size does not.\<close>

definition str_at :: "string \<Rightarrow> nat \<Rightarrow> char result" where
  "str_at s i = (if i < length s then Inr (s ! i) else Inl (OutOfRange ''basic_string::at''))"

definition substr :: "string \<Rightarrow> nat \<Rightarrow> nat \<Rightarrow> string" where
  "substr s pos n = take n (drop pos s)"

fun join :: "string \<Rightarrow> string list \<Rightarrow> string" where
  "join sep [] = []"
| "join sep [x] = x"
| "join sep (x # y # xs) = x @ sep @ join sep (y # xs)"

section \<open>Type names\<close>

text \<open>
  The loop of \<open>get_type_name_impl\<close> over \<open>find(''__'', pos)\<close>: replaces every double underscore, from
  left to right, and goes on behind the replacement.
\<close>

fun replace_double_underscores :: "string \<Rightarrow> string" where
  "replace_double_underscores (a # b # s) =
     (if a = CHR ''_'' \<and> b = CHR ''_'' then ''::'' @ replace_double_underscores s
      else a # replace_double_underscores (b # s))"
| "replace_double_underscores s = s"

definition get_type_name_impl :: "string \<Rightarrow> string \<Rightarrow> string \<Rightarrow> string" where
  "get_type_name_impl message_namespace message_name suf =
     (if length message_namespace \<noteq> 0 then replace_double_underscores message_namespace @ ''::'' else [])
     @ ''dds_::'' @ message_name @ ''_'' @ suf"

text \<open>
  The introspection library a type support handle is for, by its identifier, and the namespace and
  name in its table.  An unknown identifier gives an empty name and an error message.
\<close>

datatype typesupport_identifier = IntrospectionC | IntrospectionCpp | OtherIdentifier

definition get_type_name :: "string \<Rightarrow> typesupport_identifier \<Rightarrow> string \<Rightarrow> string \<Rightarrow> string \<times> string option" where
  "get_type_name suf ident ns name =
     (if ident = IntrospectionC then (get_type_name_impl ns name suf, None)
      else if ident = IntrospectionCpp then (get_type_name_impl ns name suf, None)
      else ([], Some ''Unknown typesupport identifier''))"

definition get_message_type_name :: "typesupport_identifier \<Rightarrow> string \<Rightarrow> string \<Rightarrow> string \<times> string option" where
  "get_message_type_name = get_type_name []"

definition get_request_type_name :: "typesupport_identifier \<Rightarrow> string \<Rightarrow> string \<Rightarrow> string \<times> string option" where
  "get_request_type_name = get_type_name ''Request_''"

definition get_response_type_name :: "typesupport_identifier \<Rightarrow> string \<Rightarrow> string \<Rightarrow> string \<times> string option" where
  "get_response_type_name = get_type_name ''Response_''"

section \<open>Topic names\<close>

definition ROS_TOPIC_PREFIX :: string where "ROS_TOPIC_PREFIX = ''rt''"
definition ROS_SERVICE_REQUESTER_PREFIX :: string where "ROS_SERVICE_REQUESTER_PREFIX = ''rq''"
definition ROS_SERVICE_RESPONSE_PREFIX :: string where "ROS_SERVICE_RESPONSE_PREFIX = ''rr''"

definition ros_prefixes :: "string list" where
  "ros_prefixes = [ROS_TOPIC_PREFIX, ROS_SERVICE_REQUESTER_PREFIX, ROS_SERVICE_RESPONSE_PREFIX]"

definition make_fqtopic :: "string \<Rightarrow> string \<Rightarrow> string \<Rightarrow> bool \<Rightarrow> string" where
  "make_fqtopic pre topic_name suf avoid_ros_namespace_conventions =
     (if avoid_ros_namespace_conventions then topic_name @ suf else pre @ topic_name @ suf)"

section \<open>Demangling\<close>

definition resolve_prefix :: "string \<Rightarrow> string \<Rightarrow> string result" where
  "resolve_prefix name pre =
     (if prefix pre name
      then rbind (str_at name (length pre)) (\<lambda>c. Inr (if c = CHR ''/'' then drop (length pre) name else []))
      else Inr [])"

fun strip_prefixes :: "string list \<Rightarrow> string \<Rightarrow> string result" where
  "strip_prefixes [] topic_name = Inr topic_name"
| "strip_prefixes (p # ps) topic_name =
     (if prefix p topic_name
      then rbind (str_at topic_name (length p)) (\<lambda>c.
           if c = CHR ''/'' then Inr (drop (length p) topic_name) else strip_prefixes ps topic_name)
      else strip_prefixes ps topic_name)"

definition strip_ros_prefix_if_exists :: "string \<Rightarrow> string result" where
  "strip_ros_prefix_if_exists = strip_prefixes ros_prefixes"

definition demangle_if_ros_topic :: "string \<Rightarrow> string result" where
  "demangle_if_ros_topic topic_name = strip_ros_prefix_if_exists topic_name"

text \<open>
  \<open>find_and_replace\<close> of rcpputils is the parameter \<open>far\<close>: subject, what to find, what to put.  Indexing
  the last character of an empty string is undefined.
\<close>

type_synonym find_and_replace = "string \<Rightarrow> string \<Rightarrow> string \<Rightarrow> string"

definition demangle_if_ros_type :: "find_and_replace \<Rightarrow> string \<Rightarrow> string result" where
  "demangle_if_ros_type far dds_type_string =
     (if dds_type_string = [] then Inl (UB ''index past the end of the string'')
      else if last dds_type_string \<noteq> CHR ''_'' then Inr dds_type_string
      else (case str_find ''dds_::'' dds_type_string of
          None \<Rightarrow> Inr dds_type_string
        | Some substring_position \<Rightarrow>
            let type_namespace = far (substr dds_type_string 0 substring_position) ''::'' ''/'';
                start = substring_position + 6;
                type_name = substr dds_type_string start (length dds_type_string - 1 - start) in
            Inr (type_namespace @ type_name)))"

definition demangle_ros_topic_from_topic :: "string \<Rightarrow> string result" where
  "demangle_ros_topic_from_topic topic_name = resolve_prefix topic_name ROS_TOPIC_PREFIX"

definition demangle_service_from_topic_affix :: "string \<Rightarrow> string \<Rightarrow> string \<Rightarrow> string result" where
  "demangle_service_from_topic_affix pre topic_name suf =
     rbind (resolve_prefix topic_name pre) (\<lambda>service_name.
     if service_name = [] then Inr []
     else (case str_rfind suf service_name of
         Some suffix_position \<Rightarrow>
           if length service_name - suffix_position - length suf \<noteq> 0 then Inr []
           else Inr (substr service_name 0 suffix_position)
       | None \<Rightarrow> Inr []))"

definition demangle_service_request_from_topic :: "string \<Rightarrow> string result" where
  "demangle_service_request_from_topic topic_name =
     demangle_service_from_topic_affix ROS_SERVICE_REQUESTER_PREFIX topic_name ''Request''"

definition demangle_service_reply_from_topic :: "string \<Rightarrow> string result" where
  "demangle_service_reply_from_topic topic_name =
     demangle_service_from_topic_affix ROS_SERVICE_RESPONSE_PREFIX topic_name ''Reply''"

definition demangle_service_from_topic :: "string \<Rightarrow> string result" where
  "demangle_service_from_topic topic_name =
     rbind (demangle_service_reply_from_topic topic_name) (\<lambda>demangled_topic.
     if demangled_topic \<noteq> [] then Inr demangled_topic
     else demangle_service_request_from_topic topic_name)"

text \<open>
  The loop over the suffixes leaves \<open>suffix_position\<close> at the last \<open>rfind\<close>: \<open>None\<close> if that found
  nothing, otherwise its position, whether or not the suffix was at the end.
\<close>

fun find_suffix :: "string list \<Rightarrow> string \<Rightarrow> nat option \<Rightarrow> nat option" where
  "find_suffix [] dds_type_name suffix_position = suffix_position"
| "find_suffix (suf # sufs) dds_type_name suffix_position =
     (case str_rfind suf dds_type_name of
        None \<Rightarrow> find_suffix sufs dds_type_name None
      | Some i \<Rightarrow>
          if length dds_type_name - i - length suf \<noteq> 0 then find_suffix sufs dds_type_name (Some i)
          else Some i)"

definition demangle_service_type_only :: "find_and_replace \<Rightarrow> string \<Rightarrow> string result" where
  "demangle_service_type_only far dds_type_name =
     (case str_find ''dds_::'' dds_type_name of
        None \<Rightarrow> Inr []
      | Some ns_substring_position \<Rightarrow>
          (case find_suffix [''_Response_'', ''_Request_''] dds_type_name (Some 0) of
             None \<Rightarrow> Inr []
           | Some suffix_position \<Rightarrow>
               let type_namespace = far (substr dds_type_name 0 ns_substring_position) ''::'' ''/'';
                   start = ns_substring_position + 6;
                   type_name = substr dds_type_name start
                     (if start \<le> suffix_position then suffix_position - start else SIZE_MOD - (start - suffix_position)) in
               Inr (type_namespace @ type_name)))"

definition identity_demangle :: "string \<Rightarrow> string" where
  "identity_demangle name = name"

section \<open>Wide strings\<close>

text \<open>\<open>wchar_t\<close> has 32 bits.  A failed allocation makes the conversion return \<open>false\<close> (\<open>None\<close>).\<close>

definition u16string_to_wstring :: "u16 list \<Rightarrow> u32 list" where
  "u16string_to_wstring u16str = map ucast u16str"

definition wstring_to_u16string :: "bool \<Rightarrow> u32 list \<Rightarrow> u16 list option" where
  "wstring_to_u16string resize_ok wstr = (if \<not> resize_ok then None else Some (map ucast wstr))"

section \<open>Positions\<close>

lemma str_rfind_short: "length s < length pat \<Longrightarrow> str_rfind pat s = None"
  by (induction s) (auto dest: prefix_length_le)

lemma str_rfind_end: "pat \<noteq> [] \<Longrightarrow> str_rfind pat (s @ pat) = Some (length s)"
proof (induction s)
  case Nil
  then obtain c cs where pat: "pat = c # cs" by (cases pat) auto
  then have "str_rfind pat cs = None" by (intro str_rfind_short) simp
  then show ?case by (simp add: pat)
qed simp

lemma str_rfind_prefix: "str_rfind pat s = Some i \<Longrightarrow> i \<le> length s \<and> prefix pat (drop i s)"
  by (induction s arbitrary: i) (auto split: if_splits option.splits)

lemma str_find_prefix: "str_find pat s = Some i \<Longrightarrow> i \<le> length s \<and> prefix pat (drop i s)"
  by (induction s arbitrary: i) (auto split: if_splits)

section \<open>Qualified names\<close>

text \<open>
  A part of a namespace: not empty, without colons, without a double underscore, not ending in an
  underscore; the names of ROS packages and of their interface directories are such.
\<close>

fun no_double_underscore :: "string \<Rightarrow> bool" where
  "no_double_underscore (a # b # s) = (\<not> (a = CHR ''_'' \<and> b = CHR ''_'') \<and> no_double_underscore (b # s))"
| "no_double_underscore [a] = True"
| "no_double_underscore [] = True"

definition namespace_part :: "string \<Rightarrow> bool" where
  "namespace_part p \<longleftrightarrow> p \<noteq> [] \<and> CHR '':'' \<notin> set p \<and> no_double_underscore p \<and> last p \<noteq> CHR ''_''"

definition qualify :: "string \<Rightarrow> string list \<Rightarrow> string" where
  "qualify sep ps = concat (map (\<lambda>p. p @ sep) ps)"

lemma qualify_simps [simp]: "qualify sep [] = []" "qualify sep (p # ps) = p @ sep @ qualify sep ps"
  by (simp_all add: qualify_def)

lemma qualify_join: "ps \<noteq> [] \<Longrightarrow> qualify sep ps = join sep ps @ sep"
  by (induction sep ps rule: join.induct) auto

lemma replace_part:
  "no_double_underscore p \<Longrightarrow> p \<noteq> [] \<Longrightarrow> last p \<noteq> CHR ''_'' \<Longrightarrow>
     replace_double_underscores (p @ ''__'' @ r) = p @ ''::'' @ replace_double_underscores r"
  "no_double_underscore p \<Longrightarrow> p \<noteq> [] \<Longrightarrow> last p \<noteq> CHR ''_'' \<Longrightarrow>
     replace_double_underscores (p @ ''::'' @ r) = p @ ''::'' @ replace_double_underscores r"
  "no_double_underscore p \<Longrightarrow> replace_double_underscores p = p"
proof (induction p rule: no_double_underscore.induct)
  case (2 a)
  case 2
  then show ?case by (cases r) auto
qed auto

lemma replace_join:
  assumes "\<forall>p \<in> set ps. namespace_part p"
  shows "replace_double_underscores (join ''__'' ps) = join ''::'' ps"
    and "replace_double_underscores (join ''::'' ps) = join ''::'' ps"
proof -
  have "replace_double_underscores (join ''__'' ps) = join ''::'' ps \<and>
      replace_double_underscores (join ''::'' ps) = join ''::'' ps"
    using assms
    by (induction "''::''" ps rule: join.induct) (simp_all only: join.simps namespace_part_def replace_part list.set ball_simps
        insert_iff empty_iff simp_thms, simp_all add: replace_part)
  then show "replace_double_underscores (join ''__'' ps) = join ''::'' ps"
    and "replace_double_underscores (join ''::'' ps) = join ''::'' ps" by simp_all
qed

text \<open>The separator of a DDS type name is found behind its namespace.\<close>

fun no_underscore_colon :: "string \<Rightarrow> bool" where
  "no_underscore_colon (a # b # s) = (\<not> (a = CHR ''_'' \<and> b = CHR '':'') \<and> no_underscore_colon (b # s))"
| "no_underscore_colon [a] = True"
| "no_underscore_colon [] = True"

lemma no_underscore_colon_free: "CHR '':'' \<notin> set p \<Longrightarrow> no_underscore_colon p"
  by (induction p rule: no_underscore_colon.induct) auto

lemma no_underscore_colon_append:
  "no_underscore_colon (p @ CHR '':'' # r) \<longleftrightarrow>
     no_underscore_colon p \<and> (p = [] \<or> last p \<noteq> CHR ''_'') \<and> no_underscore_colon (CHR '':'' # r)"
  by (induction p rule: no_underscore_colon.induct) auto

lemma no_underscore_colon_qualify:
  "\<forall>p \<in> set ps. namespace_part p \<Longrightarrow> no_underscore_colon (qualify ''::'' ps)"
proof (induction ps)
  case (Cons p ps)
  then have "no_underscore_colon (qualify ''::'' ps)" by simp
  then have "no_underscore_colon (CHR '':'' # CHR '':'' # qualify ''::'' ps)"
    by (cases "qualify ''::'' ps") auto
  then show ?case
    using Cons.prems by (simp add: namespace_part_def no_underscore_colon_append no_underscore_colon_free)
qed simp

lemma find_separator:
  "no_underscore_colon A \<Longrightarrow> A = [] \<or> last A = CHR '':'' \<Longrightarrow> str_find ''dds_::'' (A @ ''dds_::'' @ r) = Some (length A)"
proof (induction A)
  case (Cons c A)
  have "\<not> prefix ''dds_::'' (c # A @ ''dds_::'' @ r)"
  proof
    assume pre: "prefix ''dds_::'' (c # A @ ''dds_::'' @ r)"
    show False
    proof (cases A)
      case Nil
      with Cons.prems(2) pre show False by simp
    next
      case (Cons c1 A1)
      note 1 = Cons
      show False
      proof (cases A1)
        case Nil
        with Cons.prems(2) pre 1 show False by simp
      next
        case (Cons c2 A2)
        note 2 = Cons
        show False
        proof (cases A2)
          case Nil
          with Cons.prems(2) pre 1 2 show False by simp
        next
          case (Cons c3 A3)
          then show False using Cons.prems pre 1 2 by (cases A3) auto
        qed
      qed
    qed
  qed
  moreover have "no_underscore_colon A" using Cons.prems(1) by (cases A) auto
  moreover have "A = [] \<or> last A = CHR '':''" using Cons.prems(2) by (simp split: if_splits)
  ultimately show ?case using Cons.IH by simp
qed simp

section \<open>Demangling inverts mangling\<close>

text \<open>
  What rcpputils documents of \<open>find_and_replace\<close>: every occurrence is replaced, from left to right.
\<close>

fun slashes :: "string \<Rightarrow> string" where
  "slashes (a # b # s) = (if a = CHR '':'' \<and> b = CHR '':'' then CHR ''/'' # slashes s else a # slashes (b # s))"
| "slashes s = s"

definition replaces_all :: "find_and_replace \<Rightarrow> bool" where
  "replaces_all far \<longleftrightarrow> (\<forall>s. far s ''::'' ''/'' = slashes s)"

lemma slashes_part: "CHR '':'' \<notin> set p \<Longrightarrow> slashes (p @ ''::'' @ r) = p @ CHR ''/'' # slashes r"
  by (induction p rule: no_double_underscore.induct) auto

lemma slashes_qualify: "\<forall>p \<in> set ps. namespace_part p \<Longrightarrow> slashes (qualify ''::'' ps) = qualify ''/'' ps"
proof (induction ps)
  case (Cons p ps)
  then show ?case using slashes_part [of p "qualify ''::'' ps"] by (simp add: namespace_part_def)
qed simp

lemma type_name_qualify:
  assumes "\<forall>p \<in> set ps. namespace_part p" "ns = join ''__'' ps \<or> ns = join ''::'' ps"
  shows "get_type_name_impl ns name suf = qualify ''::'' ps @ ''dds_::'' @ name @ ''_'' @ suf"
proof (cases "ps = []")
  case True
  then show ?thesis using assms(2) by (auto simp: get_type_name_impl_def)
next
  case False
  have "join sep ps \<noteq> []" for sep
    using False assms(1) by (induction sep ps rule: join.induct) (auto simp: namespace_part_def)
  then have "ns \<noteq> []" using assms(2) by metis
  moreover have "replace_double_underscores ns = join ''::'' ps" using assms replace_join by auto
  ultimately show ?thesis using False by (simp add: get_type_name_impl_def qualify_join)
qed

lemma qualify_last: "\<forall>p \<in> set ps. namespace_part p \<Longrightarrow> qualify ''::'' ps = [] \<or> last (qualify ''::'' ps) = CHR '':''"
  by (induction ps) auto

lemma find_in_type_name:
  assumes "\<forall>p \<in> set ps. namespace_part p"
  shows "str_find ''dds_::'' (qualify ''::'' ps @ ''dds_::'' @ r) = Some (length (qualify ''::'' ps))"
  by (rule find_separator) (use assms no_underscore_colon_qualify qualify_last in blast)+

lemma demangle_type:
  assumes "\<forall>p \<in> set ps. namespace_part p" "ns = join ''__'' ps \<or> ns = join ''::'' ps" "replaces_all far"
  shows "demangle_if_ros_type far (get_type_name_impl ns name []) = Inr (qualify ''/'' ps @ name)"
  using assms(3) find_in_type_name [OF assms(1), of "name @ ''_''"] slashes_qualify [OF assms(1)]
  by (simp add: type_name_qualify [OF assms(1,2)] demangle_if_ros_type_def replaces_all_def substr_def)

lemma find_suffix_request: "find_suffix [''_Response_'', ''_Request_''] (X @ ''_Request_'') p = Some (length X)"
proof -
  have req: "str_rfind ''_Request_'' (X @ ''_Request_'') = Some (length X)" by (rule str_rfind_end) simp
  have "length (X @ ''_Request_'') - i - 10 \<noteq> 0" if i: "str_rfind ''_Response_'' (X @ ''_Request_'') = Some i" for i
  proof
    assume z: "length (X @ ''_Request_'') - i - 10 = 0"
    have pre: "prefix ''_Response_'' (drop i (X @ ''_Request_''))" using str_rfind_prefix [OF i] by blast
    then obtain zs where zs: "drop i (X @ ''_Request_'') = ''_Response_'' @ zs" by (auto simp: prefix_def)
    have "length (drop i (X @ ''_Request_'')) \<le> 10" using z by (simp only: length_drop diff_is_0_eq)
    then have "length (''_Response_'' @ zs) \<le> 10" by (simp only: zs)
    then have "zs = []" by simp
    then have "suffix ''_Response_'' (X @ ''_Request_'')" using zs by (metis append_Nil2 suffix_drop)
    then have "suffix ''Response_'' (X @ ''_Request_'')" by (rule suffix_ConsD)
    then have "''Response_'' = ''_Request_''"
      by (auto simp: suffix_def append_eq_append_conv)
    then show False by simp
  qed
  then show ?thesis using req by (auto split: option.splits)
qed

lemma find_suffix_response: "find_suffix [''_Response_'', ''_Request_''] (X @ ''_Response_'') p = Some (length X)"
  using str_rfind_end [of "''_Response_''" X] by simp

lemma demangle_service_type:
  assumes "\<forall>p \<in> set ps. namespace_part p" "ns = join ''__'' ps \<or> ns = join ''::'' ps" "replaces_all far"
    and "suf = ''Request_'' \<or> suf = ''Response_''"
  shows "demangle_service_type_only far (get_type_name_impl ns name suf) = Inr (qualify ''/'' ps @ name)"
proof -
  let ?A = "qualify ''::'' ps @ ''dds_::'' @ name"
  have "find_suffix [''_Response_'', ''_Request_''] (?A @ ''_'' @ suf) (Some 0) = Some (length ?A)"
    using assms(4) find_suffix_request [of ?A] find_suffix_response [of ?A] by auto
  then show ?thesis
    using assms(3) find_in_type_name [OF assms(1), of "name @ ''_'' @ suf"] slashes_qualify [OF assms(1)]
    by (simp add: type_name_qualify [OF assms(1,2)] demangle_service_type_only_def replaces_all_def substr_def)
qed

section \<open>Topics\<close>

lemma resolve_prefix_error: "resolve_prefix name pre = Inl e \<longleftrightarrow> name = pre \<and> e = OutOfRange ''basic_string::at''"
  by (auto simp: resolve_prefix_def str_at_def rbind_eq_Inl prefix_def)

lemma resolve_prefix_slash: "resolve_prefix (pre @ CHR ''/'' # t) pre = Inr (CHR ''/'' # t)"
  by (simp add: resolve_prefix_def str_at_def)

lemma demangle_service_affix:
  "suf \<noteq> [] \<Longrightarrow> demangle_service_from_topic_affix pre (pre @ (CHR ''/'' # t) @ suf) suf = Inr (CHR ''/'' # t)"
  using str_rfind_end [of suf "CHR ''/'' # t"] resolve_prefix_slash [of pre "t @ suf"]
  by (simp add: demangle_service_from_topic_affix_def substr_def)

lemma demangle_other_prefix: "\<not> prefix pre name \<Longrightarrow> demangle_service_from_topic_affix pre name suf = Inr []"
  by (simp add: demangle_service_from_topic_affix_def resolve_prefix_def)

lemma demangle_affix_error:
  "demangle_service_from_topic_affix pre name suf = Inl e \<longleftrightarrow> name = pre \<and> e = OutOfRange ''basic_string::at''"
  by (auto simp: demangle_service_from_topic_affix_def rbind_eq_Inl resolve_prefix_error split: option.splits if_splits)

lemma strip_prefixes_error:
  "strip_prefixes ps name = Inl e \<Longrightarrow> name \<in> set ps \<and> e = OutOfRange ''basic_string::at''"
  by (induction ps name rule: strip_prefixes.induct)
     (auto simp: str_at_def rbind_eq_Inl prefix_def split: if_splits)

lemmas affix_defs = demangle_ros_topic_from_topic_def demangle_service_request_from_topic_def
  demangle_service_reply_from_topic_def demangle_service_from_topic_def ROS_TOPIC_PREFIX_def
  ROS_SERVICE_REQUESTER_PREFIX_def ROS_SERVICE_RESPONSE_PREFIX_def

lemma wide_string_roundtrip: "wstring_to_u16string True (u16string_to_wstring s) = Some s"
  by (induction s) (auto simp: u16string_to_wstring_def wstring_to_u16string_def ucast_down_ucast_id is_down)

section \<open>Properties\<close>

text \<open>
  The DDS name of a message type is demangled to the ROS name, whichever introspection library
  the type support is from: the namespace is written with double underscores by the one and with
  colons by the other, and comes back with slashes.
\<close>

theorem message_type_name_roundtrip:
  assumes "\<forall>p \<in> set ps. namespace_part p" "ns = join ''__'' ps \<or> ns = join ''::'' ps" "replaces_all far"
    and "ident \<noteq> OtherIdentifier"
  shows "snd (get_message_type_name ident ns name) = None
    \<and> demangle_if_ros_type far (fst (get_message_type_name ident ns name)) = Inr (qualify ''/'' ps @ name)"
  using demangle_type [OF assms(1-3), of name] assms(4)
  by (cases ident) (simp_all add: get_message_type_name_def get_type_name_def)

lemma message_type_name_roundtrip_witness:
  "demangle_if_ros_type (\<lambda>s _ _. slashes s) (fst (get_message_type_name IntrospectionC ''std_msgs__msg'' ''String''))
     = Inr ''std_msgs/msg/String''"
  using message_type_name_roundtrip [of "[''std_msgs'', ''msg'']" "''std_msgs__msg''" "\<lambda>s _ _. slashes s" IntrospectionC "''String''"]
  by (simp add: namespace_part_def replaces_all_def)

text \<open>
  The DDS names of the request and response types of a service are demangled to the one ROS name
  of the service type; read as message types they are demangled to the names of the two messages.
\<close>

theorem service_type_name_roundtrip:
  assumes "\<forall>p \<in> set ps. namespace_part p" "ns = join ''__'' ps \<or> ns = join ''::'' ps" "replaces_all far"
    and "ident \<noteq> OtherIdentifier"
  shows "demangle_service_type_only far (fst (get_request_type_name ident ns name)) = Inr (qualify ''/'' ps @ name)
    \<and> demangle_service_type_only far (fst (get_response_type_name ident ns name)) = Inr (qualify ''/'' ps @ name)
    \<and> demangle_if_ros_type far (fst (get_request_type_name ident ns name)) = Inr (qualify ''/'' ps @ name @ ''_Request'')
    \<and> demangle_if_ros_type far (fst (get_response_type_name ident ns name)) = Inr (qualify ''/'' ps @ name @ ''_Response'')"
proof -
  have "get_type_name_impl ns name (suf @ ''_'') = get_type_name_impl ns (name @ ''_'' @ suf) []" for suf
    by (simp add: get_type_name_impl_def)
  from this [of "''Request''"] this [of "''Response''"]
  have m: "demangle_if_ros_type far (get_type_name_impl ns name ''Request_'') = Inr (qualify ''/'' ps @ name @ ''_Request'')"
    "demangle_if_ros_type far (get_type_name_impl ns name ''Response_'') = Inr (qualify ''/'' ps @ name @ ''_Response'')"
    using demangle_type [OF assms(1-3)] by simp_all
  have "get_type_name suf ident ns name = (get_type_name_impl ns name suf, None)" for suf
    using assms(4) by (cases ident) (simp_all add: get_type_name_def)
  then show ?thesis
    using m demangle_service_type [OF assms(1-3), of _ name]
    by (simp add: get_request_type_name_def get_response_type_name_def)
qed

lemma service_type_name_roundtrip_witness:
  "demangle_service_type_only (\<lambda>s _ _. slashes s) (fst (get_request_type_name IntrospectionCpp ''pkg::srv'' ''Add''))
     = Inr ''pkg/srv/Add''"
  using service_type_name_roundtrip [of "[''pkg'', ''srv'']" "''pkg::srv''" "\<lambda>s _ _. slashes s" IntrospectionCpp "''Add''"]
  by (simp add: namespace_part_def replaces_all_def)

text \<open>
  Demangling inverts mangling for topics, requests and replies; a topic name is not taken for a
  service, and the topics of a service are not taken for ROS topics.
\<close>

theorem topic_name_roundtrip:
  "demangle_ros_topic_from_topic (make_fqtopic ROS_TOPIC_PREFIX (CHR ''/'' # t) [] False) = Inr (CHR ''/'' # t)
    \<and> demangle_if_ros_topic (make_fqtopic ROS_TOPIC_PREFIX (CHR ''/'' # t) [] False) = Inr (CHR ''/'' # t)
    \<and> demangle_service_from_topic (make_fqtopic ROS_TOPIC_PREFIX (CHR ''/'' # t) [] False) = Inr []
    \<and> demangle_service_request_from_topic (make_fqtopic ROS_SERVICE_REQUESTER_PREFIX (CHR ''/'' # t) ''Request'' False) = Inr (CHR ''/'' # t)
    \<and> demangle_service_reply_from_topic (make_fqtopic ROS_SERVICE_RESPONSE_PREFIX (CHR ''/'' # t) ''Reply'' False) = Inr (CHR ''/'' # t)
    \<and> demangle_service_from_topic (make_fqtopic ROS_SERVICE_REQUESTER_PREFIX (CHR ''/'' # t) ''Request'' False) = Inr (CHR ''/'' # t)
    \<and> demangle_service_from_topic (make_fqtopic ROS_SERVICE_RESPONSE_PREFIX (CHR ''/'' # t) ''Reply'' False) = Inr (CHR ''/'' # t)
    \<and> demangle_ros_topic_from_topic (make_fqtopic ROS_SERVICE_REQUESTER_PREFIX (CHR ''/'' # t) ''Request'' False) = Inr []
    \<and> demangle_ros_topic_from_topic (make_fqtopic ROS_SERVICE_RESPONSE_PREFIX (CHR ''/'' # t) ''Reply'' False) = Inr []"
  using demangle_service_affix [of "''Request''" "''rq''" t] demangle_service_affix [of "''Reply''" "''rr''" t]
    resolve_prefix_slash [of "''rt''" t]
  by (simp add: affix_defs make_fqtopic_def demangle_other_prefix resolve_prefix_def str_at_def
      demangle_if_ros_topic_def strip_ros_prefix_if_exists_def ros_prefixes_def)

text \<open>
  Demangling throws, and only then, on a topic whose whole name is one of the reserved prefixes,
  without a slash behind it.
\<close>

theorem demangling_throws_on_bare_prefix:
  "(demangle_ros_topic_from_topic name = Inl e \<longleftrightarrow> name = ''rt'' \<and> e = OutOfRange ''basic_string::at'')
    \<and> (demangle_service_from_topic name = Inl e \<longleftrightarrow> name \<in> {''rr'', ''rq''} \<and> e = OutOfRange ''basic_string::at'')
    \<and> (demangle_if_ros_topic name = Inl e \<longleftrightarrow> name \<in> {''rt'', ''rq'', ''rr''} \<and> e = OutOfRange ''basic_string::at'')"
proof -
  have "demangle_service_from_topic name = Inl e \<longleftrightarrow> name \<in> {''rr'', ''rq''} \<and> e = OutOfRange ''basic_string::at''"
    using demangle_other_prefix [of "''rr''" name "''Reply''"]
    by (auto simp: affix_defs rbind_eq_Inl demangle_affix_error)
  moreover have "demangle_if_ros_topic name = Inl e \<longleftrightarrow> name \<in> {''rt'', ''rq'', ''rr''} \<and> e = OutOfRange ''basic_string::at''"
    using strip_prefixes_error [of ros_prefixes name e]
    by (auto simp: demangle_if_ros_topic_def strip_ros_prefix_if_exists_def ros_prefixes_def affix_defs str_at_def)
  ultimately show ?thesis by (simp add: demangle_ros_topic_from_topic_def resolve_prefix_error ROS_TOPIC_PREFIX_def)
qed

end
