(* ===== verification/Qos.thy ===== *)
theory Qos
  imports Prelude
begin

text \<open>
  The QoS conversions of \<^verbatim>\<open>rmw_node.cpp\<close>: \<open>create_readwrite_qos\<close> from an rmw profile to DDS settings,
  \<open>dds_qos_to_rmw_qos\<close> back, and the conversions of durations and policy identifiers.  A \<open>dds_qos_t\<close> is
  the settings its setters have put in it and its getters report; the number of such objects alive
  is threaded through, since the code creates and deletes them by hand.  The theory proves that what
  is read back is the profile asked for, with the defaults filled in, and which failing profiles leak.
\<close>

section \<open>Durations\<close>

record rmw_time =
  sec :: u64
  nsec :: u64

text \<open>
  What the code uses of \<open>rmw/time.h\<close>, and the hash encoding of rmw_dds_common: parameters.
  \<open>encode_type_hash\<close> fails with \<open>None\<close>.
\<close>

record rmw_lib =
  rmw_time_equal :: "rmw_time \<Rightarrow> rmw_time \<Rightarrow> bool"
  rmw_time_total_nsec :: "rmw_time \<Rightarrow> int"
  rmw_time_from_nsec :: "int \<Rightarrow> rmw_time"
  RMW_DURATION_INFINITE :: rmw_time
  RMW_DURATION_UNSPECIFIED :: rmw_time

abbreviation DDS_INFINITY :: int where "DDS_INFINITY \<equiv> 9223372036854775807"

definition is_rmw_duration_unspecified :: "rmw_lib \<Rightarrow> rmw_time \<Rightarrow> bool" where
  "is_rmw_duration_unspecified L duration = rmw_time_equal L duration (RMW_DURATION_UNSPECIFIED L)"

definition rmw_duration_to_dds :: "rmw_lib \<Rightarrow> rmw_time \<Rightarrow> int" where
  "rmw_duration_to_dds L duration =
     (if rmw_time_equal L duration (RMW_DURATION_INFINITE L) then DDS_INFINITY
      else rmw_time_total_nsec L duration)"

definition dds_duration_to_rmw :: "rmw_lib \<Rightarrow> int \<Rightarrow> rmw_time" where
  "dds_duration_to_rmw L duration =
     (if duration = DDS_INFINITY then RMW_DURATION_INFINITE L else rmw_time_from_nsec L duration)"

section \<open>Profiles and settings\<close>

datatype rmw_history = H_SYSTEM_DEFAULT | H_KEEP_LAST | H_KEEP_ALL | H_UNKNOWN
datatype rmw_reliability = R_SYSTEM_DEFAULT | R_RELIABLE | R_BEST_EFFORT | R_UNKNOWN | R_BEST_AVAILABLE
datatype rmw_durability = D_SYSTEM_DEFAULT | D_TRANSIENT_LOCAL | D_VOLATILE | D_UNKNOWN | D_BEST_AVAILABLE
datatype rmw_liveliness = L_SYSTEM_DEFAULT | L_AUTOMATIC | L_MANUAL_BY_TOPIC | L_UNKNOWN | L_BEST_AVAILABLE

record rmw_qos_profile =
  history :: rmw_history
  depth :: nat
  reliability :: rmw_reliability
  durability :: rmw_durability
  deadline :: rmw_time
  lifespan :: rmw_time
  liveliness :: rmw_liveliness
  liveliness_lease_duration :: rmw_time
  avoid_ros_namespace_conventions :: bool

datatype dds_history_kind = DDS_HISTORY_KEEP_LAST | DDS_HISTORY_KEEP_ALL
datatype dds_reliability_kind = DDS_RELIABILITY_BEST_EFFORT | DDS_RELIABILITY_RELIABLE
datatype dds_durability_kind =
  DDS_DURABILITY_VOLATILE | DDS_DURABILITY_TRANSIENT_LOCAL | DDS_DURABILITY_TRANSIENT | DDS_DURABILITY_PERSISTENT
datatype dds_liveliness_kind =
  DDS_LIVELINESS_AUTOMATIC | DDS_LIVELINESS_MANUAL_BY_PARTICIPANT | DDS_LIVELINESS_MANUAL_BY_TOPIC

text \<open>Depths are \<open>int32_t\<close>; \<open>DDS_LENGTH_UNLIMITED\<close> is \<open>-1\<close>.\<close>

abbreviation DDS_LENGTH_UNLIMITED :: int where "DDS_LENGTH_UNLIMITED \<equiv> - 1"

record dds_qos =
  q_writer_data_lifecycle :: "bool option"
  q_history :: "(dds_history_kind \<times> int) option"
  q_reliability :: "(dds_reliability_kind \<times> int) option"
  q_durability :: "dds_durability_kind option"
  q_durability_service :: "(int \<times> dds_history_kind \<times> int \<times> int \<times> int \<times> int) option"
  q_lifespan :: "int option"
  q_deadline :: "int option"
  q_liveliness :: "(dds_liveliness_kind \<times> int) option"
  q_ignorelocal :: "bool option"
  q_userdata :: "string option"

definition dds_create_qos :: dds_qos where
  "dds_create_qos = \<lparr>q_writer_data_lifecycle = None, q_history = None, q_reliability = None, q_durability = None,
     q_durability_service = None, q_lifespan = None, q_deadline = None, q_liveliness = None, q_ignorelocal = None,
     q_userdata = None\<rparr>"

section \<open>From rmw to DDS\<close>

text \<open>
  Each switch of \<open>create_readwrite_qos\<close>: the new settings; \<open>Inl True\<close> when the object is deleted
  before \<open>nullptr\<close> is returned, \<open>Inl False\<close> when it is not.
\<close>

type_synonym qos_step = "bool + dds_qos"

abbreviation then_qos :: "qos_step \<Rightarrow> (dds_qos \<Rightarrow> qos_step) \<Rightarrow> qos_step" where
  "then_qos r f \<equiv> (case r of Inl deleted \<Rightarrow> Inl deleted | Inr q \<Rightarrow> f q)"

definition qset_history_of :: "rmw_qos_profile \<Rightarrow> dds_qos \<Rightarrow> qos_step" where
  "qset_history_of p q =
     (if history p = H_SYSTEM_DEFAULT \<or> history p = H_KEEP_LAST then
        if depth p = 0 then Inr (q\<lparr>q_history := Some (DDS_HISTORY_KEEP_LAST, 1)\<rparr>)
        else if depth p < 1 \<or> INT32_MAX < depth p then Inl True
        else Inr (q\<lparr>q_history := Some (DDS_HISTORY_KEEP_LAST, int (depth p))\<rparr>)
      else if history p = H_KEEP_ALL then Inr (q\<lparr>q_history := Some (DDS_HISTORY_KEEP_ALL, DDS_LENGTH_UNLIMITED)\<rparr>)
      else Inl False)"

definition qset_reliability_of :: "rmw_qos_profile \<Rightarrow> dds_qos \<Rightarrow> qos_step" where
  "qset_reliability_of p q =
     (case reliability p of
        R_UNKNOWN \<Rightarrow> Inl False
      | R_BEST_EFFORT \<Rightarrow> Inr (q\<lparr>q_reliability := Some (DDS_RELIABILITY_BEST_EFFORT, 0)\<rparr>)
      | _ \<Rightarrow> Inr (q\<lparr>q_reliability := Some (DDS_RELIABILITY_RELIABLE, DDS_INFINITY)\<rparr>))"

definition qset_durability_of :: "rmw_qos_profile \<Rightarrow> dds_qos \<Rightarrow> qos_step" where
  "qset_durability_of p q =
     (case durability p of
        D_UNKNOWN \<Rightarrow> Inl False
      | D_TRANSIENT_LOCAL \<Rightarrow>
          let (hk, hd) = (case q_history q of Some h \<Rightarrow> h | None \<Rightarrow> (DDS_HISTORY_KEEP_LAST, 1)) in
          Inr (q\<lparr>q_durability := Some DDS_DURABILITY_TRANSIENT_LOCAL,
                 q_durability_service := Some (0, hk, hd, DDS_LENGTH_UNLIMITED, DDS_LENGTH_UNLIMITED, DDS_LENGTH_UNLIMITED)\<rparr>)
      | _ \<Rightarrow> Inr (q\<lparr>q_durability := Some DDS_DURABILITY_VOLATILE\<rparr>))"

definition qset_durations_of :: "rmw_lib \<Rightarrow> rmw_qos_profile \<Rightarrow> dds_qos \<Rightarrow> dds_qos" where
  "qset_durations_of L p q =
     (let q = (if \<not> is_rmw_duration_unspecified L (lifespan p)
               then q\<lparr>q_lifespan := Some (rmw_duration_to_dds L (lifespan p))\<rparr> else q) in
      if \<not> is_rmw_duration_unspecified L (deadline p)
      then q\<lparr>q_deadline := Some (rmw_duration_to_dds L (deadline p))\<rparr> else q)"

definition lease_duration_of :: "rmw_lib \<Rightarrow> rmw_qos_profile \<Rightarrow> int" where
  "lease_duration_of L p =
     (if is_rmw_duration_unspecified L (liveliness_lease_duration p) then DDS_INFINITY
      else rmw_duration_to_dds L (liveliness_lease_duration p))"

definition qset_liveliness_of :: "rmw_lib \<Rightarrow> rmw_qos_profile \<Rightarrow> dds_qos \<Rightarrow> qos_step" where
  "qset_liveliness_of L p q =
     (let ldur = lease_duration_of L p in
      case liveliness p of
        L_UNKNOWN \<Rightarrow> Inl False
      | L_MANUAL_BY_TOPIC \<Rightarrow> Inr (q\<lparr>q_liveliness := Some (DDS_LIVELINESS_MANUAL_BY_TOPIC, ldur)\<rparr>)
      | _ \<Rightarrow> Inr (q\<lparr>q_liveliness := Some (DDS_LIVELINESS_AUTOMATIC, ldur)\<rparr>))"

definition readwrite_qos_settings ::
  "rmw_lib \<Rightarrow> rmw_qos_profile \<Rightarrow> string option \<Rightarrow> bool \<Rightarrow> string \<Rightarrow> qos_step" where
  "readwrite_qos_settings L p typehash_str ignore_local_publications extra_user_data =
     then_qos (qset_history_of p (dds_create_qos\<lparr>q_writer_data_lifecycle := Some False\<rparr>)) (\<lambda>q.
     then_qos (qset_reliability_of p q) (\<lambda>q.
     then_qos (qset_durability_of p q) (\<lambda>q.
     then_qos (qset_liveliness_of L p (qset_durations_of L p q)) (\<lambda>q.
     let q = (if ignore_local_publications then q\<lparr>q_ignorelocal := Some True\<rparr> else q);
         user_data = extra_user_data @ (case typehash_str of Some s \<Rightarrow> s | None \<Rightarrow> []) in
     Inr (q\<lparr>q_userdata := Some user_data\<rparr>)))))"

text \<open>
  The result, the number of QoS objects alive, and the error message.  \<open>typehash_str\<close> is what
  \<open>encode_type_hash_for_user_data_qos\<close> gives, \<open>None\<close> if it fails.
\<close>

definition create_readwrite_qos ::
  "rmw_lib \<Rightarrow> rmw_qos_profile \<Rightarrow> string option \<Rightarrow> bool \<Rightarrow> string \<Rightarrow> nat \<Rightarrow> dds_qos option \<times> nat \<times> string option" where
  "create_readwrite_qos L p typehash_str ignore_local_publications extra_user_data live =
     (case readwrite_qos_settings L p typehash_str ignore_local_publications extra_user_data of
        Inr q \<Rightarrow> (Some q, live + 1, None)
      | Inl True \<Rightarrow> (None, live, Some ''unsupported history depth'')
      | Inl False \<Rightarrow> (None, live + 1, None))"

section \<open>From DDS to rmw\<close>

text \<open>The profile is filled in place; a missing setting stops the conversion.\<close>

type_synonym profile_step = "(string \<times> rmw_qos_profile) + rmw_qos_profile"

abbreviation then_profile :: "profile_step \<Rightarrow> (rmw_qos_profile \<Rightarrow> profile_step) \<Rightarrow> profile_step" where
  "then_profile r f \<equiv> (case r of Inl e \<Rightarrow> Inl e | Inr p \<Rightarrow> f p)"

definition get_history_into :: "dds_qos \<Rightarrow> rmw_qos_profile \<Rightarrow> profile_step" where
  "get_history_into q p =
     (case q_history q of
        None \<Rightarrow> Inl (''get_readwrite_qos: history not set'', p)
      | Some (DDS_HISTORY_KEEP_LAST, d) \<Rightarrow> Inr (p\<lparr>history := H_KEEP_LAST, depth := nat (d mod 2 ^ 32)\<rparr>)
      | Some (DDS_HISTORY_KEEP_ALL, d) \<Rightarrow> Inr (p\<lparr>history := H_KEEP_ALL, depth := 0\<rparr>))"

definition get_reliability_into :: "dds_qos \<Rightarrow> rmw_qos_profile \<Rightarrow> profile_step" where
  "get_reliability_into q p =
     (case q_reliability q of
        None \<Rightarrow> Inl (''get_readwrite_qos: history not set'', p)
      | Some (DDS_RELIABILITY_BEST_EFFORT, _) \<Rightarrow> Inr (p\<lparr>reliability := R_BEST_EFFORT\<rparr>)
      | Some (DDS_RELIABILITY_RELIABLE, _) \<Rightarrow> Inr (p\<lparr>reliability := R_RELIABLE\<rparr>))"

definition get_durability_into :: "dds_qos \<Rightarrow> rmw_qos_profile \<Rightarrow> profile_step" where
  "get_durability_into q p =
     (case q_durability q of
        None \<Rightarrow> Inl (''get_readwrite_qos: durability not set'', p)
      | Some DDS_DURABILITY_VOLATILE \<Rightarrow> Inr (p\<lparr>durability := D_VOLATILE\<rparr>)
      | Some DDS_DURABILITY_TRANSIENT_LOCAL \<Rightarrow> Inr (p\<lparr>durability := D_TRANSIENT_LOCAL\<rparr>)
      | Some _ \<Rightarrow> Inr (p\<lparr>durability := D_UNKNOWN\<rparr>))"

definition get_deadline_into :: "rmw_lib \<Rightarrow> dds_qos \<Rightarrow> rmw_qos_profile \<Rightarrow> profile_step" where
  "get_deadline_into L q p =
     (case q_deadline q of
        None \<Rightarrow> Inl (''get_readwrite_qos: deadline not set'', p)
      | Some d \<Rightarrow> Inr (p\<lparr>deadline := dds_duration_to_rmw L d\<rparr>))"

definition get_lifespan_into :: "rmw_lib \<Rightarrow> dds_qos \<Rightarrow> rmw_qos_profile \<Rightarrow> profile_step" where
  "get_lifespan_into L q p =
     Inr (p\<lparr>lifespan := dds_duration_to_rmw L (case q_lifespan q of None \<Rightarrow> DDS_INFINITY | Some d \<Rightarrow> d)\<rparr>)"

definition get_liveliness_into :: "rmw_lib \<Rightarrow> dds_qos \<Rightarrow> rmw_qos_profile \<Rightarrow> profile_step" where
  "get_liveliness_into L q p =
     (case q_liveliness q of
        None \<Rightarrow> Inl (''get_readwrite_qos: liveliness not set'', p)
      | Some (kind, lease_duration) \<Rightarrow>
          Inr (p\<lparr>liveliness := (case kind of
                   DDS_LIVELINESS_AUTOMATIC \<Rightarrow> L_AUTOMATIC
                 | DDS_LIVELINESS_MANUAL_BY_PARTICIPANT \<Rightarrow> L_UNKNOWN
                 | DDS_LIVELINESS_MANUAL_BY_TOPIC \<Rightarrow> L_MANUAL_BY_TOPIC),
               liveliness_lease_duration := dds_duration_to_rmw L lease_duration\<rparr>))"

definition dds_qos_to_rmw_qos :: "rmw_lib \<Rightarrow> dds_qos \<Rightarrow> rmw_qos_profile \<Rightarrow> profile_step" where
  "dds_qos_to_rmw_qos L q p =
     then_profile (get_history_into q p) (\<lambda>p.
     then_profile (get_reliability_into q p) (\<lambda>p.
     then_profile (get_durability_into q p) (\<lambda>p.
     then_profile (get_deadline_into L q p) (\<lambda>p.
     then_profile (get_lifespan_into L q p) (get_liveliness_into L q)))))"

text \<open>\<open>entity_qos\<close> is what \<open>dds_get_qos\<close> reports for the handle, \<open>None\<close> if it fails.\<close>

definition get_readwrite_qos :: "rmw_lib \<Rightarrow> dds_qos option \<Rightarrow> rmw_qos_profile \<Rightarrow> profile_step" where
  "get_readwrite_qos L entity_qos p =
     (case entity_qos of
        None \<Rightarrow> Inl (''get_readwrite_qos: invalid handle'', p)
      | Some q \<Rightarrow> dds_qos_to_rmw_qos L q p)"

section \<open>What is read back\<close>

text \<open>
  What rmw documents of its time functions: total nanoseconds are not negative and saturate at the
  infinite duration, equality is that of the total, and nanoseconds convert back.
\<close>

definition rmw_time_spec :: "rmw_lib \<Rightarrow> bool" where
  "rmw_time_spec L \<longleftrightarrow>
     (\<forall>a b. rmw_time_equal L a b \<longleftrightarrow> rmw_time_total_nsec L a = rmw_time_total_nsec L b)
     \<and> (\<forall>a. 0 \<le> rmw_time_total_nsec L a \<and> rmw_time_total_nsec L a \<le> DDS_INFINITY)
     \<and> (\<forall>n. 0 \<le> n \<and> n \<le> DDS_INFINITY \<longrightarrow> rmw_time_total_nsec L (rmw_time_from_nsec L n) = n)
     \<and> rmw_time_total_nsec L (RMW_DURATION_INFINITE L) = DDS_INFINITY
     \<and> rmw_time_total_nsec L (RMW_DURATION_UNSPECIFIED L) = 0"

lemma duration_to_dds: "rmw_time_spec L \<Longrightarrow> rmw_duration_to_dds L d = rmw_time_total_nsec L d"
  by (simp add: rmw_time_spec_def rmw_duration_to_dds_def)

lemma duration_to_rmw:
  "rmw_time_spec L \<Longrightarrow> 0 \<le> n \<Longrightarrow> n \<le> DDS_INFINITY \<Longrightarrow> rmw_time_total_nsec L (dds_duration_to_rmw L n) = n"
  by (simp add: rmw_time_spec_def dds_duration_to_rmw_def)

lemma duration_unspecified:
  "rmw_time_spec L \<Longrightarrow> is_rmw_duration_unspecified L d \<longleftrightarrow> rmw_time_total_nsec L d = 0"
  by (simp add: rmw_time_spec_def is_rmw_duration_unspecified_def)

text \<open>
  What Cyclone DDS documents of the QoS of an entity: the settings it was created with, and defaults
  for what was left unset, which for the deadline and the lifespan is infinity.
\<close>

definition entity_reports :: "dds_qos \<Rightarrow> dds_qos \<Rightarrow> bool" where
  "entity_reports q q' \<longleftrightarrow>
     (q_history q \<noteq> None \<longrightarrow> q_history q' = q_history q)
     \<and> (q_reliability q \<noteq> None \<longrightarrow> q_reliability q' = q_reliability q)
     \<and> (q_durability q \<noteq> None \<longrightarrow> q_durability q' = q_durability q)
     \<and> (q_liveliness q \<noteq> None \<longrightarrow> q_liveliness q' = q_liveliness q)
     \<and> q_deadline q' = Some (case q_deadline q of None \<Rightarrow> DDS_INFINITY | Some d \<Rightarrow> d)
     \<and> (case q_lifespan q of None \<Rightarrow> q_lifespan q' = None \<or> q_lifespan q' = Some DDS_INFINITY | Some d \<Rightarrow> q_lifespan q' = Some d)"

text \<open>The profile asked for with the defaults of the implementation filled in.\<close>

definition effective_depth :: "rmw_qos_profile \<Rightarrow> nat" where
  "effective_depth p = (if history p = H_KEEP_ALL then 0 else if depth p = 0 then 1 else depth p)"

definition effective_nsec :: "rmw_lib \<Rightarrow> rmw_time \<Rightarrow> int" where
  "effective_nsec L d = (if rmw_time_total_nsec L d = 0 then DDS_INFINITY else rmw_time_total_nsec L d)"

definition effective :: "rmw_lib \<Rightarrow> rmw_qos_profile \<Rightarrow> rmw_qos_profile \<Rightarrow> bool" where
  "effective L p p' \<longleftrightarrow>
     history p' = (if history p = H_KEEP_ALL then H_KEEP_ALL else H_KEEP_LAST)
     \<and> depth p' = effective_depth p
     \<and> reliability p' = (if reliability p = R_BEST_EFFORT then R_BEST_EFFORT else R_RELIABLE)
     \<and> durability p' = (if durability p = D_TRANSIENT_LOCAL then D_TRANSIENT_LOCAL else D_VOLATILE)
     \<and> liveliness p' = (if liveliness p = L_MANUAL_BY_TOPIC then L_MANUAL_BY_TOPIC else L_AUTOMATIC)
     \<and> rmw_time_total_nsec L (deadline p') = effective_nsec L (deadline p)
     \<and> rmw_time_total_nsec L (lifespan p') = effective_nsec L (lifespan p)
     \<and> rmw_time_total_nsec L (liveliness_lease_duration p') = effective_nsec L (liveliness_lease_duration p)"

definition supported_profile :: "rmw_qos_profile \<Rightarrow> bool" where
  "supported_profile p \<longleftrightarrow> history p \<noteq> H_UNKNOWN \<and> reliability p \<noteq> R_UNKNOWN \<and> durability p \<noteq> D_UNKNOWN
     \<and> liveliness p \<noteq> L_UNKNOWN \<and> (history p \<noteq> H_KEEP_ALL \<longrightarrow> depth p \<le> INT32_MAX)"

lemma qset_history_cases:
  "qset_history_of p q =
     (if history p = H_UNKNOWN then Inl False
      else if history p \<noteq> H_KEEP_ALL \<and> INT32_MAX < depth p then Inl True
      else Inr (q\<lparr>q_history := Some (if history p = H_KEEP_ALL then (DDS_HISTORY_KEEP_ALL, DDS_LENGTH_UNLIMITED)
                                   else (DDS_HISTORY_KEEP_LAST, int (effective_depth p)))\<rparr>))"
  by (cases "history p") (auto simp: qset_history_of_def effective_depth_def)

lemma qset_reliability_cases:
  "qset_reliability_of p q =
     (if reliability p = R_UNKNOWN then Inl False
      else Inr (q\<lparr>q_reliability := Some (if reliability p = R_BEST_EFFORT then (DDS_RELIABILITY_BEST_EFFORT, 0)
            else (DDS_RELIABILITY_RELIABLE, DDS_INFINITY))\<rparr>))"
  by (cases "reliability p") (simp_all add: qset_reliability_of_def)

lemma qset_durability_cases:
  "qset_durability_of p q =
     (if durability p = D_UNKNOWN then Inl False
      else Inr (q\<lparr>q_durability := Some (if durability p = D_TRANSIENT_LOCAL then DDS_DURABILITY_TRANSIENT_LOCAL
            else DDS_DURABILITY_VOLATILE),
          q_durability_service := (if durability p = D_TRANSIENT_LOCAL
            then (let (hk, hd) = (case q_history q of Some h \<Rightarrow> h | None \<Rightarrow> (DDS_HISTORY_KEEP_LAST, 1)) in
                  Some (0, hk, hd, DDS_LENGTH_UNLIMITED, DDS_LENGTH_UNLIMITED, DDS_LENGTH_UNLIMITED))
            else q_durability_service q)\<rparr>))"
  by (cases "durability p") (simp_all add: qset_durability_of_def split: prod.splits)

lemma qset_liveliness_cases:
  "qset_liveliness_of L p q =
     (if liveliness p = L_UNKNOWN then Inl False
      else Inr (q\<lparr>q_liveliness := Some (if liveliness p = L_MANUAL_BY_TOPIC then DDS_LIVELINESS_MANUAL_BY_TOPIC
            else DDS_LIVELINESS_AUTOMATIC, lease_duration_of L p)\<rparr>))"
  by (cases "liveliness p") (simp_all add: qset_liveliness_of_def)

lemmas qset_cases = qset_history_cases qset_reliability_cases qset_durability_cases qset_liveliness_cases

text \<open>When the profile is refused, and whether the object is deleted then.\<close>

lemma settings_refused:
  "readwrite_qos_settings L p th ign extra = Inl del \<longleftrightarrow>
     \<not> supported_profile p \<and> del = (history p \<noteq> H_UNKNOWN \<and> history p \<noteq> H_KEEP_ALL \<and> INT32_MAX < depth p)"
  by (auto simp: readwrite_qos_settings_def qset_cases supported_profile_def Let_def)

text \<open>The settings of a profile, switch by switch.\<close>

lemma settings_fields:
  assumes "readwrite_qos_settings L p th ign extra = Inr q"
  shows "supported_profile p"
    and "q_history q = Some (if history p = H_KEEP_ALL then (DDS_HISTORY_KEEP_ALL, DDS_LENGTH_UNLIMITED)
            else (DDS_HISTORY_KEEP_LAST, int (effective_depth p)))"
    and "q_reliability q = Some (if reliability p = R_BEST_EFFORT then (DDS_RELIABILITY_BEST_EFFORT, 0)
            else (DDS_RELIABILITY_RELIABLE, DDS_INFINITY))"
    and "q_durability q = Some (if durability p = D_TRANSIENT_LOCAL then DDS_DURABILITY_TRANSIENT_LOCAL
            else DDS_DURABILITY_VOLATILE)"
    and "q_liveliness q = Some (if liveliness p = L_MANUAL_BY_TOPIC then DDS_LIVELINESS_MANUAL_BY_TOPIC
            else DDS_LIVELINESS_AUTOMATIC, lease_duration_of L p)"
    and "q_lifespan q = (if is_rmw_duration_unspecified L (lifespan p) then None else Some (rmw_duration_to_dds L (lifespan p)))"
    and "q_deadline q = (if is_rmw_duration_unspecified L (deadline p) then None else Some (rmw_duration_to_dds L (deadline p)))"
proof -
  show ok: "supported_profile p"
  proof (rule ccontr)
    assume "\<not> supported_profile p"
    then have "readwrite_qos_settings L p th ign extra
        = Inl (history p \<noteq> H_UNKNOWN \<and> history p \<noteq> H_KEEP_ALL \<and> INT32_MAX < depth p)"
      by (simp only: settings_refused) simp
    with assms show False by simp
  qed
  have k: "history p \<noteq> H_UNKNOWN" "reliability p \<noteq> R_UNKNOWN" "durability p \<noteq> D_UNKNOWN" "liveliness p \<noteq> L_UNKNOWN"
    "\<not> (history p \<noteq> H_KEEP_ALL \<and> INT32_MAX < depth p)"
    using ok by (auto simp: supported_profile_def)
  note q = assms [unfolded readwrite_qos_settings_def qset_cases if_not_P [OF k(1)] if_not_P [OF k(2)] if_not_P [OF k(3)]
      if_not_P [OF k(4)] if_not_P [OF k(5)] sum.case Let_def sum.inject(2), symmetric]
  show "q_history q = Some (if history p = H_KEEP_ALL then (DDS_HISTORY_KEEP_ALL, DDS_LENGTH_UNLIMITED)
            else (DDS_HISTORY_KEEP_LAST, int (effective_depth p)))"
    and "q_reliability q = Some (if reliability p = R_BEST_EFFORT then (DDS_RELIABILITY_BEST_EFFORT, 0)
            else (DDS_RELIABILITY_RELIABLE, DDS_INFINITY))"
    and "q_durability q = Some (if durability p = D_TRANSIENT_LOCAL then DDS_DURABILITY_TRANSIENT_LOCAL
            else DDS_DURABILITY_VOLATILE)"
    and "q_liveliness q = Some (if liveliness p = L_MANUAL_BY_TOPIC then DDS_LIVELINESS_MANUAL_BY_TOPIC
            else DDS_LIVELINESS_AUTOMATIC, lease_duration_of L p)"
    and "q_lifespan q = (if is_rmw_duration_unspecified L (lifespan p) then None else Some (rmw_duration_to_dds L (lifespan p)))"
    and "q_deadline q = (if is_rmw_duration_unspecified L (deadline p) then None else Some (rmw_duration_to_dds L (deadline p)))"
    by (simp_all add: q qset_durations_of_def Let_def dds_create_qos_def)
qed

lemma settings_total: "supported_profile p \<Longrightarrow> \<exists>q. readwrite_qos_settings L p th ign extra = Inr q"
  using settings_refused [of L p th ign extra] by (cases "readwrite_qos_settings L p th ign extra") auto

lemma effective_nsec_dds:
  assumes "rmw_time_spec L"
  shows "0 \<le> effective_nsec L d" "effective_nsec L d \<le> DDS_INFINITY"
    and "(if is_rmw_duration_unspecified L d then DDS_INFINITY else rmw_duration_to_dds L d) = effective_nsec L d"
  using assms by (auto simp: effective_nsec_def duration_unspecified duration_to_dds rmw_time_spec_def)

lemma read_back:
  assumes "rmw_time_spec L" "readwrite_qos_settings L p th ign extra = Inr q" "entity_reports q q'"
  shows "\<exists>p'. dds_qos_to_rmw_qos L q' p0 = Inr p' \<and> effective L p p'"
proof -
  note f = settings_fields [OF assms(2)]
  note e = effective_nsec_dds [OF assms(1)]
  have h: "q_history q' = q_history q" "q_reliability q' = q_reliability q" "q_durability q' = q_durability q"
    "q_liveliness q' = q_liveliness q"
    using assms(3) f by (simp_all add: entity_reports_def)
  have dl: "q_deadline q' = Some (effective_nsec L (deadline p))"
    using assms(3) f(7) e(3) [of "deadline p"] by (simp add: entity_reports_def split: if_splits)
  have ls: "(case q_lifespan q' of None \<Rightarrow> DDS_INFINITY | Some d \<Rightarrow> d) = effective_nsec L (lifespan p)"
    using assms(3) f(6) e(3) [of "lifespan p"] by (auto simp: entity_reports_def split: if_splits)
  have ll: "lease_duration_of L p = effective_nsec L (liveliness_lease_duration p)"
    using e(3) by (simp add: lease_duration_of_def)
  have d: "int (effective_depth p) mod 4294967296 = int (effective_depth p)"
    using f(1) by (auto simp: supported_profile_def effective_depth_def)
  show ?thesis
    using d by (auto simp: dds_qos_to_rmw_qos_def get_history_into_def get_reliability_into_def get_durability_into_def
        get_deadline_into_def get_lifespan_into_def get_liveliness_into_def h f(2-5) dl ls ll effective_def
        duration_to_rmw [OF assms(1) e(1,2)] effective_depth_def)
qed

section \<open>Properties\<close>

text \<open>An instance of the time functions, in nanoseconds saturating at the infinite duration.\<close>

definition ex_total_nsec :: "rmw_time \<Rightarrow> int" where
  "ex_total_nsec t = min (uint (sec t) * 1000000000 + uint (nsec t)) DDS_INFINITY"

definition ex_from_nsec :: "int \<Rightarrow> rmw_time" where
  "ex_from_nsec n = \<lparr>sec = word_of_int (n div 1000000000), nsec = word_of_int (n mod 1000000000)\<rparr>"

definition ex_rmw_lib :: rmw_lib where
  "ex_rmw_lib = \<lparr>rmw_time_equal = (\<lambda>a b. ex_total_nsec a = ex_total_nsec b), rmw_time_total_nsec = ex_total_nsec,
     rmw_time_from_nsec = ex_from_nsec, RMW_DURATION_INFINITE = ex_from_nsec DDS_INFINITY,
     RMW_DURATION_UNSPECIFIED = \<lparr>sec = 0, nsec = 0\<rparr>\<rparr>"

lemma ex_nsec_roundtrip: "0 \<le> n \<Longrightarrow> n \<le> DDS_INFINITY \<Longrightarrow> ex_total_nsec (ex_from_nsec n) = n"
  by (simp add: ex_total_nsec_def ex_from_nsec_def uint_word_of_int)

lemma ex_rmw_lib_spec: "rmw_time_spec ex_rmw_lib"
  by (simp add: rmw_time_spec_def ex_rmw_lib_def ex_nsec_roundtrip) (simp add: ex_total_nsec_def)

definition ex_profile :: rmw_qos_profile where
  "ex_profile = \<lparr>history = H_KEEP_LAST, depth = 10, reliability = R_RELIABLE, durability = D_TRANSIENT_LOCAL,
     deadline = \<lparr>sec = 0, nsec = 0\<rparr>, lifespan = \<lparr>sec = 2, nsec = 5\<rparr>, liveliness = L_SYSTEM_DEFAULT,
     liveliness_lease_duration = \<lparr>sec = 0, nsec = 0\<rparr>, avoid_ros_namespace_conventions = False\<rparr>"

definition ex_reported :: "dds_qos \<Rightarrow> dds_qos" where
  "ex_reported q = q\<lparr>q_deadline := Some (case q_deadline q of None \<Rightarrow> DDS_INFINITY | Some d \<Rightarrow> d)\<rparr>"



text \<open>
  Which profiles \<open>create_readwrite_qos\<close> refuses, and what becomes of the QoS object it created:
  it is handed to the caller on success, deleted for a depth that is too large, and lost, without an
  error message, for a policy that is unknown.
\<close>

theorem create_readwrite_qos_outcome:
  "(case create_readwrite_qos L p th ign extra live of
      (None, live', msg) \<Rightarrow> \<not> supported_profile p
        \<and> (if history p \<notin> {H_UNKNOWN, H_KEEP_ALL} \<and> INT32_MAX < depth p
           then live' = live \<and> msg = Some ''unsupported history depth''
           else live' = live + 1 \<and> msg = None)
    | (Some q, live', msg) \<Rightarrow> supported_profile p \<and> live' = live + 1 \<and> msg = None)"
  using settings_refused [of L p th ign extra] settings_fields(1) [of L p th ign extra]
  by (auto simp: create_readwrite_qos_def split: sum.splits bool.splits)

end
