(* ===== verification/RmwBase.thy ===== *)
theory RmwBase
  imports Prelude "HOL-Library.AList" "HOL-Library.Multiset"
begin

text \<open>
  What the components of \<^verbatim>\<open>rmw_node.cpp\<close> share: return codes, event types with the DDS status of each, the
  objects the rmw handles point to and the addresses they live at, and the part of the Cyclone DDS
  interface they call, as a record of functions on an abstract library state.
\<close>

section \<open>Return codes and events\<close>

datatype rmw_ret =
    RMW_RET_OK
  | RMW_RET_ERROR
  | RMW_RET_TIMEOUT
  | RMW_RET_UNSUPPORTED
  | RMW_RET_BAD_ALLOC
  | RMW_RET_INVALID_ARGUMENT
  | RMW_RET_INCORRECT_RMW_IMPLEMENTATION

datatype rmw_event_type =
    RMW_EVENT_LIVELINESS_CHANGED
  | RMW_EVENT_REQUESTED_DEADLINE_MISSED
  | RMW_EVENT_REQUESTED_QOS_INCOMPATIBLE
  | RMW_EVENT_MESSAGE_LOST
  | RMW_EVENT_SUBSCRIPTION_INCOMPATIBLE_TYPE
  | RMW_EVENT_SUBSCRIPTION_MATCHED
  | RMW_EVENT_LIVELINESS_LOST
  | RMW_EVENT_OFFERED_DEADLINE_MISSED
  | RMW_EVENT_OFFERED_QOS_INCOMPATIBLE
  | RMW_EVENT_PUBLISHER_INCOMPATIBLE_TYPE
  | RMW_EVENT_PUBLICATION_MATCHED
  | RMW_EVENT_INVALID
  | RMW_EVENT_TYPE_MAX

datatype dds_status =
    DDS_INCONSISTENT_TOPIC_STATUS
  | DDS_OFFERED_DEADLINE_MISSED_STATUS
  | DDS_REQUESTED_DEADLINE_MISSED_STATUS
  | DDS_OFFERED_INCOMPATIBLE_QOS_STATUS
  | DDS_REQUESTED_INCOMPATIBLE_QOS_STATUS
  | DDS_SAMPLE_LOST_STATUS
  | DDS_LIVELINESS_LOST_STATUS
  | DDS_LIVELINESS_CHANGED_STATUS
  | DDS_PUBLICATION_MATCHED_STATUS
  | DDS_SUBSCRIPTION_MATCHED_STATUS

text \<open>The mapping of an event to its status; the two types that are none have no entry.\<close>

fun mask_map :: "rmw_event_type \<Rightarrow> dds_status option" where
  "mask_map RMW_EVENT_LIVELINESS_CHANGED = Some DDS_LIVELINESS_CHANGED_STATUS"
| "mask_map RMW_EVENT_REQUESTED_DEADLINE_MISSED = Some DDS_REQUESTED_DEADLINE_MISSED_STATUS"
| "mask_map RMW_EVENT_LIVELINESS_LOST = Some DDS_LIVELINESS_LOST_STATUS"
| "mask_map RMW_EVENT_OFFERED_DEADLINE_MISSED = Some DDS_OFFERED_DEADLINE_MISSED_STATUS"
| "mask_map RMW_EVENT_REQUESTED_QOS_INCOMPATIBLE = Some DDS_REQUESTED_INCOMPATIBLE_QOS_STATUS"
| "mask_map RMW_EVENT_OFFERED_QOS_INCOMPATIBLE = Some DDS_OFFERED_INCOMPATIBLE_QOS_STATUS"
| "mask_map RMW_EVENT_MESSAGE_LOST = Some DDS_SAMPLE_LOST_STATUS"
| "mask_map RMW_EVENT_PUBLISHER_INCOMPATIBLE_TYPE = Some DDS_INCONSISTENT_TOPIC_STATUS"
| "mask_map RMW_EVENT_SUBSCRIPTION_INCOMPATIBLE_TYPE = Some DDS_INCONSISTENT_TOPIC_STATUS"
| "mask_map RMW_EVENT_SUBSCRIPTION_MATCHED = Some DDS_SUBSCRIPTION_MATCHED_STATUS"
| "mask_map RMW_EVENT_PUBLICATION_MATCHED = Some DDS_PUBLICATION_MATCHED_STATUS"
| "mask_map _ = None"

definition is_event_supported :: "rmw_event_type \<Rightarrow> bool" where
  "is_event_supported event_t = (mask_map event_t \<noteq> None)"

section \<open>Objects behind the rmw handles\<close>

text \<open>
  Entity handles are \<open>int32_t\<close>, negative for an error code.  Addresses are numbers, 0 is null.  An
  object has the handles the code reads from it: a subscription its read condition and its reader, a
  service or client the read condition of its reader, a publisher its writer.
\<close>

type_synonym dds_entity = int
type_synonym ptr = nat

datatype cdds_object =
    CddsSubscription (rdcondh: dds_entity) (enth: dds_entity)
  | CddsGuardCondition (gcondh: dds_entity)
  | CddsService (rdcondh: dds_entity)
  | CddsClient (rdcondh: dds_entity)
  | CddsPublisher (enth: dds_entity)

type_synonym heap = "ptr \<Rightarrow> cdds_object option"

text \<open>Reading a handle through a pointer; a dangling pointer, or one to another kind of object, is undefined.\<close>

definition dangling :: "'a result" where
  "dangling = Inl (UB ''access through a dangling pointer'')"

definition sub_rdcondh :: "heap \<Rightarrow> ptr \<Rightarrow> dds_entity result" where
  "sub_rdcondh H p = (case H p of Some (CddsSubscription r e) \<Rightarrow> Inr r | _ \<Rightarrow> dangling)"

definition gc_gcondh :: "heap \<Rightarrow> ptr \<Rightarrow> dds_entity result" where
  "gc_gcondh H p = (case H p of Some (CddsGuardCondition g) \<Rightarrow> Inr g | _ \<Rightarrow> dangling)"

definition srv_rdcondh :: "heap \<Rightarrow> ptr \<Rightarrow> dds_entity result" where
  "srv_rdcondh H p = (case H p of Some (CddsService r) \<Rightarrow> Inr r | _ \<Rightarrow> dangling)"

definition cl_rdcondh :: "heap \<Rightarrow> ptr \<Rightarrow> dds_entity result" where
  "cl_rdcondh H p = (case H p of Some (CddsClient r) \<Rightarrow> Inr r | _ \<Rightarrow> dangling)"

definition entity_enth :: "heap \<Rightarrow> ptr \<Rightarrow> dds_entity result" where
  "entity_enth H p =
     (case H p of Some (CddsSubscription r e) \<Rightarrow> Inr e | Some (CddsPublisher e) \<Rightarrow> Inr e | _ \<Rightarrow> dangling)"

lemmas handle_defs = sub_rdcondh_def gc_gcondh_def srv_rdcondh_def cl_rdcondh_def entity_enth_def

fun object_handles :: "cdds_object \<Rightarrow> dds_entity list" where
  "object_handles (CddsSubscription r e) = [r, e]"
| "object_handles (CddsGuardCondition g) = [g]"
| "object_handles (CddsService r) = [r]"
| "object_handles (CddsClient r) = [r]"
| "object_handles (CddsPublisher e) = [e]"

lemma handle_of_object:
  "sub_rdcondh H p = Inr h \<or> gc_gcondh H p = Inr h \<or> srv_rdcondh H p = Inr h \<or> cl_rdcondh H p = Inr h \<or> entity_enth H p = Inr h
     \<Longrightarrow> \<exists>obj. H p = Some obj \<and> h \<in> set (object_handles obj)"
  by (auto simp: handle_defs dangling_def split: option.splits cdds_object.splits)

section \<open>Mapping a fallible function over a list\<close>

fun map_result :: "('a \<Rightarrow> 'b result) \<Rightarrow> 'a list \<Rightarrow> 'b list result" where
  "map_result f [] = Inr []"
| "map_result f (x # xs) = rbind (f x) (\<lambda>y. rbind (map_result f xs) (\<lambda>ys. Inr (y # ys)))"

lemma map_result_Inr:
  "map_result f xs = Inr ys \<longleftrightarrow> list_all2 (\<lambda>x y. f x = Inr y) xs ys"
  by (induction xs arbitrary: ys) (auto simp: rbind_eq_Inr list_all2_Cons1)

lemma map_result_length: "map_result f xs = Inr ys \<Longrightarrow> length ys = length xs"
  by (simp add: map_result_Inr list_all2_lengthD)

lemma map_result_ex: "(\<exists>ys. map_result f xs = Inr ys) \<longleftrightarrow> (\<forall>x \<in> set xs. \<exists>y. f x = Inr y)"
  by (induction xs) (auto simp: rbind_eq_Inr)

lemma map_result_in: "map_result f xs = Inr ys \<Longrightarrow> y \<in> set ys \<Longrightarrow> \<exists>x \<in> set xs. f x = Inr y"
  by (induction xs arbitrary: ys) (auto simp: rbind_eq_Inr)

lemma map_result_cong: "(\<And>x. x \<in> set xs \<Longrightarrow> f x = g x) \<Longrightarrow> map_result f xs = map_result g xs"
  by (induction xs) simp_all

lemma map_result_error: "x \<in> set xs \<Longrightarrow> f x = Inl e \<Longrightarrow> \<exists>e'. map_result f xs = Inl e'"
  using map_result_ex [of f xs] by (cases "map_result f xs") auto

section \<open>Cyclone DDS\<close>

text \<open>
  The calls of the wait sets and events on the library state \<open>'d\<close>.  The status getter gives \<open>None\<close> when
  it fails and leaves its output unset.  \<open>dds_waitset_wait\<close> gets the buffer and gives the number
  triggered and the buffer as it is then.  \<open>unordered\<close> is the order in which the hash containers of
  the C++ library are traversed.
\<close>

record 'd dds_api =
  status_bit :: "dds_status \<Rightarrow> u32"
  dds_set_status_mask :: "dds_entity \<Rightarrow> u32 \<Rightarrow> 'd \<Rightarrow> int \<times> 'd"
  dds_get_status_changes :: "dds_entity \<Rightarrow> 'd \<Rightarrow> u32 option"
  dds_create_guardcondition :: "'d \<Rightarrow> dds_entity \<times> 'd"
  dds_take_guardcondition :: "dds_entity \<Rightarrow> 'd \<Rightarrow> 'd"
  dds_create_waitset :: "'d \<Rightarrow> dds_entity \<times> 'd"
  dds_delete :: "dds_entity \<Rightarrow> 'd \<Rightarrow> int \<times> 'd"
  dds_waitset_attach :: "dds_entity \<Rightarrow> dds_entity \<Rightarrow> int \<Rightarrow> 'd \<Rightarrow> int \<times> 'd"
  dds_waitset_detach :: "dds_entity \<Rightarrow> dds_entity \<Rightarrow> 'd \<Rightarrow> int \<times> 'd"
  dds_waitset_wait :: "dds_entity \<Rightarrow> int list \<Rightarrow> int \<Rightarrow> 'd \<Rightarrow> int \<times> int list"
  unordered :: "dds_entity list \<Rightarrow> dds_entity list"

definition get_status_kind_from_rmw :: "'d dds_api \<Rightarrow> rmw_event_type \<Rightarrow> u32 result" where
  "get_status_kind_from_rmw D event_t =
     (case mask_map event_t of None \<Rightarrow> Inl (OutOfRange ''unordered_map::at'') | Some s \<Rightarrow> Inr (status_bit D s))"

text \<open>
  What can be observed of the library: the entities attached to a wait set with their tokens, the
  entities that exist and those that are triggered.  \<open>cyclone\<close> collects the documented laws: an entity
  is attached once, keeping its first token; deleting detaches; waiting stores the token of each
  triggered entity, if the buffer has room for all that are attached.
\<close>

record 'd dds_view =
  attached :: "'d \<Rightarrow> dds_entity \<Rightarrow> dds_entity \<Rightarrow> int option"
  live :: "'d \<Rightarrow> dds_entity \<Rightarrow> bool"
  triggered :: "'d \<Rightarrow> dds_entity \<Rightarrow> bool"

definition same_view :: "'d dds_view \<Rightarrow> 'd \<Rightarrow> 'd \<Rightarrow> bool" where
  "same_view V d d' \<longleftrightarrow> attached V d' = attached V d \<and> live V d' = live V d"

definition attach_law :: "'d dds_api \<Rightarrow> 'd dds_view \<Rightarrow> bool" where
  "attach_law D V \<longleftrightarrow> (\<forall>w e i d. let d' = snd (dds_waitset_attach D w e i d) in
     attached V d' = (if live V d e \<and> attached V d w e = None
        then (attached V d)(w := (attached V d w)(e := Some i)) else attached V d) \<and> live V d' = live V d)"

definition detach_law :: "'d dds_api \<Rightarrow> 'd dds_view \<Rightarrow> bool" where
  "detach_law D V \<longleftrightarrow> (\<forall>w e d. let d' = snd (dds_waitset_detach D w e d) in
     attached V d' = (attached V d)(w := (attached V d w)(e := None)) \<and> live V d' = live V d)"

definition delete_law :: "'d dds_api \<Rightarrow> 'd dds_view \<Rightarrow> bool" where
  "delete_law D V \<longleftrightarrow> (\<forall>e d. let d' = snd (dds_delete D e d) in
     attached V d' = (\<lambda>w. if w = e then (\<lambda>_. None) else (attached V d w)(e := None)) \<and> live V d' = (live V d)(e := False))"

definition wait_law :: "'d dds_api \<Rightarrow> 'd dds_view \<Rightarrow> bool" where
  "wait_law D V \<longleftrightarrow> (\<forall>w buf t d. finite (dom (attached V d w))
     \<and> (card (dom (attached V d w)) \<le> length buf \<longrightarrow>
        (case dds_waitset_wait D w buf t d of (n, buf') \<Rightarrow>
           length buf' = length buf \<and> (\<exists>es. distinct es \<and> n = int (length es) \<and> length es \<le> length buf
             \<and> set es = {e \<in> dom (attached V d w). triggered V d e}
             \<and> take (length es) buf' = map (\<lambda>e. the (attached V d w e)) es))))"

definition cyclone :: "'d dds_api \<Rightarrow> 'd dds_view \<Rightarrow> bool" where
  "cyclone D V \<longleftrightarrow> attach_law D V \<and> detach_law D V \<and> delete_law D V \<and> wait_law D V
     \<and> (\<forall>e m d. same_view V d (snd (dds_set_status_mask D e m d)))
     \<and> (\<forall>e d. same_view V d (dds_take_guardcondition D e d))
     \<and> (\<forall>w e d. attached V d w e \<noteq> None \<longrightarrow> live V d e)
     \<and> (\<forall>e d. live V d e \<longrightarrow> dds_get_status_changes D e d \<noteq> None)
     \<and> (\<forall>xs. mset (unordered D xs) = mset xs)"

lemma cyclone_attach:
  "cyclone D V \<Longrightarrow> attached V (snd (dds_waitset_attach D w e i d)) =
     (if live V d e \<and> attached V d w e = None then (attached V d)(w := (attached V d w)(e := Some i)) else attached V d)"
  "cyclone D V \<Longrightarrow> live V (snd (dds_waitset_attach D w e i d)) = live V d"
  by (simp_all add: cyclone_def attach_law_def Let_def)

lemma cyclone_detach:
  "cyclone D V \<Longrightarrow> attached V (snd (dds_waitset_detach D w e d)) = (attached V d)(w := (attached V d w)(e := None))"
  "cyclone D V \<Longrightarrow> live V (snd (dds_waitset_detach D w e d)) = live V d"
  by (simp_all add: cyclone_def detach_law_def Let_def)

lemma cyclone_delete:
  "cyclone D V \<Longrightarrow> attached V (snd (dds_delete D e d)) =
     (\<lambda>w. if w = e then (\<lambda>_. None) else (attached V d w)(e := None))"
  "cyclone D V \<Longrightarrow> live V (snd (dds_delete D e d)) = (live V d)(e := False)"
  by (simp_all add: cyclone_def delete_law_def Let_def)

lemma cyclone_same:
  "cyclone D V \<Longrightarrow> attached V (snd (dds_set_status_mask D e m d)) = attached V d"
  "cyclone D V \<Longrightarrow> live V (snd (dds_set_status_mask D e m d)) = live V d"
  "cyclone D V \<Longrightarrow> attached V (dds_take_guardcondition D e d) = attached V d"
  "cyclone D V \<Longrightarrow> live V (dds_take_guardcondition D e d) = live V d"
  by (simp_all add: cyclone_def same_view_def)

lemma cyclone_live: "cyclone D V \<Longrightarrow> \<not> live V d e \<Longrightarrow> attached V d w e = None"
  unfolding cyclone_def by metis

lemma cyclone_status: "cyclone D V \<Longrightarrow> live V d e \<Longrightarrow> \<exists>m. dds_get_status_changes D e d = Some m"
  unfolding cyclone_def by blast

lemma cyclone_unordered:
  assumes "cyclone D V"
  shows "set (unordered D xs) = set xs" "distinct (unordered D xs) = distinct xs" "length (unordered D xs) = length xs"
proof -
  have m: "mset (unordered D xs) = mset xs" using assms by (simp add: cyclone_def)
  show "set (unordered D xs) = set xs" using m by (rule mset_eq_setD)
  show "distinct (unordered D xs) = distinct xs" using m by (rule mset_eq_imp_distinct_iff)
  show "length (unordered D xs) = length xs" using m by (rule mset_eq_length)
qed

lemma cyclone_wait:
  assumes "cyclone D V" "card (dom (attached V d w)) \<le> length buf" "dds_waitset_wait D w buf t d = (n, buf')"
  obtains es where "distinct es" "n = int (length es)" "length es \<le> length buf" "length buf' = length buf"
    "set es = {e \<in> dom (attached V d w). triggered V d e}"
    "take (length es) buf' = map (\<lambda>e. the (attached V d w e)) es"
proof -
  have "case dds_waitset_wait D w buf t d of (n, buf') \<Rightarrow>
      length buf' = length buf \<and> (\<exists>es. distinct es \<and> n = int (length es) \<and> length es \<le> length buf
        \<and> set es = {e \<in> dom (attached V d w). triggered V d e}
        \<and> take (length es) buf' = map (\<lambda>e. the (attached V d w e)) es)"
    using assms(1,2) by (simp add: cyclone_def wait_law_def)
  then show ?thesis using that unfolding assms(3) prod.case by blast
qed

end
