(* ===== verification/WaitSet.thy ===== *)
theory WaitSet
  imports RmwBase
begin

text \<open>
  The wait sets of \<^verbatim>\<open>rmw_node.cpp\<close>: \<open>rmw_wait\<close> with its cache of attached objects, the functions that
  drop the caches when an object is destroyed, creation and destruction of wait sets.  The phases of
  \<open>rmw_wait\<close> are functions, composed in \<open>rmw_wait\<close> for one thread and by the steps of the theory
  \<open>WaitSteps\<close> for several.
\<close>

section \<open>State and arguments\<close>

record waitset =
  waitseth :: dds_entity
  trigs :: "int list"
  nelems :: nat
  inuse :: bool
  subs :: "ptr list"
  gcs :: "ptr list"
  srvs :: "ptr list"
  cls :: "ptr list"
  evs :: "(dds_entity \<times> rmw_event_type) list"

text \<open>
  The arrays the caller passes; \<open>None\<close> for a null structure.  An event is the address of its entity
  with its type.  On return an entry that is not ready is null: 0, and \<open>None\<close> for an event.
\<close>

type_synonym rmw_event = "ptr \<times> rmw_event_type"

record wait_args =
  a_subs :: "ptr list option"
  a_gcs :: "ptr list option"
  a_srvs :: "ptr list option"
  a_cls :: "ptr list option"
  a_evs :: "rmw_event option list option"

definition entries :: "'a list option \<Rightarrow> 'a list" where
  "entries ary = (case ary of None \<Rightarrow> [] | Some ps \<Rightarrow> ps)"

lemma entries_simps [simp]: "entries None = []" "entries (Some ps) = ps"
  by (simp_all add: entries_def)

section \<open>Is the cache still valid?\<close>

definition require_reattach :: "ptr list \<Rightarrow> ptr list option \<Rightarrow> bool" where
  "require_reattach cached ary =
     (if ary = None \<or> length (entries ary) = 0 then length cached \<noteq> 0
      else if length (entries ary) \<noteq> length cached then True
      else cached \<noteq> entries ary)"

text \<open>The loop over the events; the handle is read again from the entity.\<close>

definition event_key :: "heap \<Rightarrow> rmw_event option \<Rightarrow> (dds_entity \<times> rmw_event_type) result" where
  "event_key H ev = (case ev of None \<Rightarrow> dangling | Some (p, t) \<Rightarrow> rbind (entity_enth H p) (\<lambda>h. Inr (h, t)))"

fun events_differ :: "heap \<Rightarrow> (dds_entity \<times> rmw_event_type) list \<Rightarrow> rmw_event option list \<Rightarrow> bool result" where
  "events_differ H (c # cs) (ev # es) =
     rbind (event_key H ev) (\<lambda>k. if fst c \<noteq> fst k \<or> snd c \<noteq> snd k then Inr True else events_differ H cs es)"
| "events_differ H cs es = Inr False"

definition require_reattach_events ::
  "heap \<Rightarrow> (dds_entity \<times> rmw_event_type) list \<Rightarrow> rmw_event option list option \<Rightarrow> bool result" where
  "require_reattach_events H cached events =
     (if events = None \<or> length (entries events) = 0 then Inr (length cached \<noteq> 0)
      else if length (entries events) \<noteq> length cached then Inr True
      else events_differ H cached (entries events))"

definition needs_reattach :: "heap \<Rightarrow> waitset \<Rightarrow> wait_args \<Rightarrow> bool result" where
  "needs_reattach H ws a =
     (if require_reattach (subs ws) (a_subs a) \<or> require_reattach (gcs ws) (a_gcs a)
         \<or> require_reattach (srvs ws) (a_srvs a) \<or> require_reattach (cls ws) (a_cls a)
      then Inr True else require_reattach_events H (evs ws) (a_evs a))"

section \<open>Detaching\<close>

fun detach_list :: "'d dds_api \<Rightarrow> dds_entity \<Rightarrow> (ptr \<Rightarrow> dds_entity result) \<Rightarrow> ptr list \<Rightarrow> 'd \<Rightarrow> 'd result" where
  "detach_list D w handle [] d = Inr d"
| "detach_list D w handle (x # xs) d =
     rbind (handle x) (\<lambda>e. detach_list D w handle xs (snd (dds_waitset_detach D w e d)))"

fun detach_events ::
  "'d dds_api \<Rightarrow> dds_entity \<Rightarrow> dds_entity set \<Rightarrow> (dds_entity \<times> rmw_event_type) list \<Rightarrow> 'd \<Rightarrow> 'd" where
  "detach_events D w event_entities [] d = d"
| "detach_events D w event_entities (x # xs) d =
     (if fst x \<in> event_entities then detach_events D w event_entities xs d
      else detach_events D w (insert (fst x) event_entities) xs (snd (dds_waitset_detach D w (fst x) d)))"

definition waitset_detach :: "'d dds_api \<Rightarrow> heap \<Rightarrow> waitset \<Rightarrow> 'd \<Rightarrow> (waitset \<times> 'd) result" where
  "waitset_detach D H ws d =
     rbind (detach_list D (waitseth ws) (sub_rdcondh H) (subs ws) d) (\<lambda>d.
     rbind (detach_list D (waitseth ws) (gc_gcondh H) (gcs ws) d) (\<lambda>d.
     rbind (detach_list D (waitseth ws) (srv_rdcondh H) (srvs ws) d) (\<lambda>d.
     rbind (detach_list D (waitseth ws) (cl_rdcondh H) (cls ws) d) (\<lambda>d.
     Inr (ws\<lparr>subs := [], gcs := [], srvs := [], cls := [], evs := [], nelems := 0\<rparr>,
          detach_events D (waitseth ws) {} (evs ws) d)))))"

text \<open>The wait sets registered in \<open>gcdds()\<close> with their addresses, in the order they are traversed.\<close>

type_synonym registry = "(ptr \<times> waitset) list"

fun clean_waitset_caches :: "'d dds_api \<Rightarrow> heap \<Rightarrow> registry \<Rightarrow> 'd \<Rightarrow> (registry \<times> 'd) result" where
  "clean_waitset_caches D H [] d = Inr ([], d)"
| "clean_waitset_caches D H ((k, ws) # rest) d =
     rbind (if \<not> inuse ws then waitset_detach D H ws d else Inr (ws, d)) (\<lambda>(ws', d).
     rbind (clean_waitset_caches D H rest d) (\<lambda>(rest', d). Inr ((k, ws') # rest', d)))"

section \<open>Events\<close>

text \<open>The status masks by entity; a mask starts at 0 and collects the statuses but inconsistent topic.\<close>

definition add_status :: "'d dds_api \<Rightarrow> dds_entity \<Rightarrow> rmw_event_type \<Rightarrow> (dds_entity \<times> u32) list \<Rightarrow> (dds_entity \<times> u32) list result" where
  "add_status D h t status_mask_map =
     (if \<not> is_event_supported t then Inr status_mask_map
      else rbind (get_status_kind_from_rmw D t) (\<lambda>status_kind.
        let m = (case map_of status_mask_map h of None \<Rightarrow> AList.update h 0 status_mask_map | Some _ \<Rightarrow> status_mask_map) in
        if status_kind \<noteq> status_bit D DDS_INCONSISTENT_TOPIC_STATUS
        then Inr (AList.update h ((case map_of m h of Some b \<Rightarrow> b | None \<Rightarrow> 0) OR status_kind) m)
        else Inr m))"

text \<open>\<open>None\<close> when a handle is not valid, with the error message set.\<close>

fun collect_masks ::
  "'d dds_api \<Rightarrow> heap \<Rightarrow> rmw_event option list \<Rightarrow> (dds_entity \<times> u32) list \<Rightarrow> (dds_entity \<times> u32) list option result" where
  "collect_masks D H [] m = Inr (Some m)"
| "collect_masks D H (ev # es) m =
     rbind (event_key H ev) (\<lambda>(h, t).
     if h \<le> 0 then Inr None else rbind (add_status D h t m) (collect_masks D H es))"

fun set_masks :: "'d dds_api \<Rightarrow> (dds_entity \<times> u32) list \<Rightarrow> 'd \<Rightarrow> bool \<times> 'd" where
  "set_masks D [] d = (True, d)"
| "set_masks D ((e, m) # rest) d =
     (case dds_set_status_mask D e m d of (ret, d') \<Rightarrow> if ret \<noteq> 0 then (False, d') else set_masks D rest d')"

definition gather_event_entities ::
  "'d dds_api \<Rightarrow> heap \<Rightarrow> rmw_event option list \<Rightarrow> 'd \<Rightarrow> (dds_entity list option \<times> 'd) result" where
  "gather_event_entities D H events d =
     rbind (collect_masks D H events []) (\<lambda>r.
     case r of
       None \<Rightarrow> Inr (None, d)
     | Some m \<Rightarrow>
         (case set_masks D (map (\<lambda>e. (e, the (map_of m e))) (unordered D (map fst m))) d of
            (ok, d') \<Rightarrow> Inr (if ok then Some (unordered D (map fst m)) else None, d')))"

text \<open>Clears the events that are not active; stops at an invalid handle, leaving the rest as they are.\<close>

fun handle_active_events :: "'d dds_api \<Rightarrow> heap \<Rightarrow> rmw_event option list \<Rightarrow> 'd \<Rightarrow> rmw_event option list result" where
  "handle_active_events D H [] d = Inr []"
| "handle_active_events D H (ev # es) d =
     rbind (event_key H ev) (\<lambda>(h, t).
     if h \<le> 0 then Inr (ev # es)
     else
       (case dds_get_status_changes D h d of
          None \<Rightarrow> Inl (UB ''status_mask is read uninitialized'')
        | Some status_mask \<Rightarrow>
            rbind (if \<not> is_event_supported t then Inr True
                   else rbind (get_status_kind_from_rmw D t) (\<lambda>k. Inr ((status_mask AND k) = 0))) (\<lambda>inactive.
            rbind (handle_active_events D H es d) (\<lambda>es'.
            Inr ((if inactive then None else ev) # es')))))"

section \<open>The phases of rmw\_wait\<close>

text \<open>Entering: the flag is tested and set under the wait set's lock; \<open>None\<close> is the refusal.\<close>

definition wait_enter :: "waitset \<Rightarrow> waitset option" where
  "wait_enter ws = (if inuse ws then None else Some (ws\<lparr>inuse := True\<rparr>))"

fun attach_list ::
  "'d dds_api \<Rightarrow> dds_entity \<Rightarrow> (ptr \<Rightarrow> dds_entity result) \<Rightarrow> ptr list \<Rightarrow> nat \<Rightarrow> 'd \<Rightarrow> (nat \<times> 'd) result" where
  "attach_list D w handle [] n d = Inr (n, d)"
| "attach_list D w handle (x # xs) n d =
     rbind (handle x) (\<lambda>e. attach_list D w handle xs (n + 1) (snd (dds_waitset_attach D w e (int n) d)))"

fun attach_entities :: "'d dds_api \<Rightarrow> dds_entity \<Rightarrow> dds_entity list \<Rightarrow> nat \<Rightarrow> 'd \<Rightarrow> nat \<times> 'd" where
  "attach_entities D w [] n d = (n, d)"
| "attach_entities D w (e # es) n d = attach_entities D w es (n + 1) (snd (dds_waitset_attach D w e (int n) d))"

text \<open>
  Attaching the events: \<open>False\<close> for the early return of the code when they cannot be gathered.
\<close>

definition attach_events ::
  "'d dds_api \<Rightarrow> heap \<Rightarrow> rmw_event option list option \<Rightarrow> waitset \<Rightarrow> nat \<Rightarrow> 'd \<Rightarrow> (bool \<times> waitset \<times> 'd) result" where
  "attach_events D H a_events ws n d =
     (case a_events of
        None \<Rightarrow> Inr (True, ws\<lparr>evs := [], nelems := n\<rparr>, d)
      | Some events \<Rightarrow>
          rbind (gather_event_entities D H events d) (\<lambda>(r, d).
          case r of
            None \<Rightarrow> Inr (False, ws\<lparr>evs := []\<rparr>, d)
          | Some event_entities \<Rightarrow>
              (case attach_entities D (waitseth ws) (unordered D event_entities) n d of (n, d) \<Rightarrow>
               rbind (map_result (event_key H) events) (\<lambda>keys.
               Inr (True, ws\<lparr>evs := keys, nelems := n\<rparr>, d)))))"

definition wait_attach :: "'d dds_api \<Rightarrow> heap \<Rightarrow> wait_args \<Rightarrow> waitset \<Rightarrow> 'd \<Rightarrow> (bool \<times> waitset \<times> 'd) result" where
  "wait_attach D H a ws d =
     rbind (needs_reattach H ws a) (\<lambda>reattach.
     if \<not> reattach then Inr (True, ws, d)
     else
       rbind (waitset_detach D H ws d) (\<lambda>(ws, d).
       rbind (attach_list D (waitseth ws) (sub_rdcondh H) (entries (a_subs a)) 0 d) (\<lambda>(n, d).
       rbind (attach_list D (waitseth ws) (gc_gcondh H) (entries (a_gcs a)) n d) (\<lambda>(n, d).
       rbind (attach_list D (waitseth ws) (srv_rdcondh H) (entries (a_srvs a)) n d) (\<lambda>(n, d).
       rbind (attach_list D (waitseth ws) (cl_rdcondh H) (entries (a_cls a)) n d) (\<lambda>(n, d).
       attach_events D H (a_evs a)
         (ws\<lparr>subs := entries (a_subs a), gcs := entries (a_gcs a), srvs := entries (a_srvs a), cls := entries (a_cls a)\<rparr>)
         n d))))))"

text \<open>
  Waiting: the buffer has room for the attached entities and the dummy guard condition.  A negative
  count becomes a huge \<open>size_t\<close>, for which \<open>resize\<close> throws.
\<close>

definition resize_vec :: "nat \<Rightarrow> int list \<Rightarrow> int list" where
  "resize_vec n xs = take n xs @ replicate (n - length xs) 0"

definition wait_block :: "'d dds_api \<Rightarrow> int \<Rightarrow> waitset \<Rightarrow> 'd \<Rightarrow> waitset \<times> exn option" where
  "wait_block D timeout ws d =
     (let buf = resize_vec (nelems ws + 1) (trigs ws) in
      case dds_waitset_wait D (waitseth ws) buf timeout d of (ntrig, buf') \<Rightarrow>
        if ntrig < 0 then (ws\<lparr>trigs := buf'\<rparr>, Some (LengthError ''vector::_M_default_append''))
        else (ws\<lparr>trigs := sort (resize_vec (nat ntrig) buf') @ [-1]\<rparr>, None))"

text \<open>
  Reporting: the sorted tokens are consumed in step with the arrays.  A guard condition that is ready
  is reset.
\<close>

fun report_list :: "int list \<Rightarrow> ptr list \<Rightarrow> nat \<Rightarrow> nat \<Rightarrow> (ptr list \<times> nat \<times> nat) result" where
  "report_list tr [] trig_idx n = Inr ([], trig_idx, n)"
| "report_list tr (x # xs) trig_idx n =
     (if length tr \<le> trig_idx then Inl (UB ''index past the end of trigs'')
      else if tr ! trig_idx = int n
      then rbind (report_list tr xs (trig_idx + 1) (n + 1)) (\<lambda>(xs', r). Inr (x # xs', r))
      else rbind (report_list tr xs trig_idx (n + 1)) (\<lambda>(xs', r). Inr (0 # xs', r)))"

fun report_guards ::
  "'d dds_api \<Rightarrow> heap \<Rightarrow> int list \<Rightarrow> ptr list \<Rightarrow> nat \<Rightarrow> nat \<Rightarrow> 'd \<Rightarrow> (ptr list \<times> nat \<times> nat \<times> 'd) result" where
  "report_guards D H tr [] trig_idx n d = Inr ([], trig_idx, n, d)"
| "report_guards D H tr (x # xs) trig_idx n d =
     (if length tr \<le> trig_idx then Inl (UB ''index past the end of trigs'')
      else if tr ! trig_idx = int n
      then rbind (gc_gcondh H x) (\<lambda>g.
           rbind (report_guards D H tr xs (trig_idx + 1) (n + 1) (dds_take_guardcondition D g d)) (\<lambda>(xs', r).
           Inr (x # xs', r)))
      else rbind (report_guards D H tr xs trig_idx (n + 1) d) (\<lambda>(xs', r). Inr (0 # xs', r)))"

definition wait_report ::
  "'d dds_api \<Rightarrow> heap \<Rightarrow> wait_args \<Rightarrow> waitset \<Rightarrow> 'd \<Rightarrow> (wait_args \<times> 'd) result" where
  "wait_report D H a ws d =
     rbind (report_list (trigs ws) (entries (a_subs a)) 0 0) (\<lambda>(ss, i, n).
     rbind (report_guards D H (trigs ws) (entries (a_gcs a)) i n d) (\<lambda>(gs, i, n, d).
     rbind (report_list (trigs ws) (entries (a_srvs a)) i n) (\<lambda>(vs, i, n).
     rbind (report_list (trigs ws) (entries (a_cls a)) i n) (\<lambda>(cs, i, n).
     rbind (case a_evs a of None \<Rightarrow> Inr None | Some es \<Rightarrow> rbind (handle_active_events D H es d) (\<lambda>es'. Inr (Some es'))) (\<lambda>es.
     Inr (\<lparr>a_subs = map_option (\<lambda>_. ss) (a_subs a), a_gcs = map_option (\<lambda>_. gs) (a_gcs a),
           a_srvs = map_option (\<lambda>_. vs) (a_srvs a), a_cls = map_option (\<lambda>_. cs) (a_cls a), a_evs = es\<rparr>, d))))))"

definition wait_leave :: "waitset \<Rightarrow> rmw_ret \<times> waitset" where
  "wait_leave ws = (if length (trigs ws) = 1 then RMW_RET_TIMEOUT else RMW_RET_OK, ws\<lparr>inuse := False\<rparr>)"

text \<open>The whole call for one thread: how it ends, the arrays, the wait set and the library state.\<close>

datatype wait_end = Returned rmw_ret | Thrown exn

definition rmw_wait ::
  "'d dds_api \<Rightarrow> heap \<Rightarrow> wait_args \<Rightarrow> int \<Rightarrow> waitset \<Rightarrow> 'd \<Rightarrow> (wait_end \<times> wait_args \<times> waitset \<times> 'd) result" where
  "rmw_wait D H a timeout ws d =
     (case wait_enter ws of
        None \<Rightarrow> Inr (Returned RMW_RET_ERROR, a, ws, d)
      | Some ws \<Rightarrow>
          rbind (wait_attach D H a ws d) (\<lambda>(ok, ws, d).
          if \<not> ok then Inr (Returned RMW_RET_ERROR, a, ws, d)
          else
            (case wait_block D timeout ws d of
               (ws, Some e) \<Rightarrow> Inr (Thrown e, a, ws, d)
             | (ws, None) \<Rightarrow>
                 rbind (wait_report D H a ws d) (\<lambda>(a', d).
                 case wait_leave ws of (ret, ws) \<Rightarrow> Inr (Returned ret, a', ws, d)))))"

section \<open>Creating and destroying wait sets\<close>

text \<open>
  The dummy guard condition is created with the first wait set and deleted with the last.  Allocation
  cannot fail here; a failure of Cyclone DDS gives \<open>None\<close> for the wait set.
\<close>

record gcdds =
  gc_for_empty_waitset :: dds_entity
  waitsets :: registry

abbreviation INTPTR_MAX :: int where "INTPTR_MAX \<equiv> 9223372036854775807"

definition fresh_waitset :: "dds_entity \<Rightarrow> waitset" where
  "fresh_waitset h = \<lparr>waitseth = h, trigs = [], nelems = 0, inuse = False, subs = [], gcs = [], srvs = [], cls = [], evs = []\<rparr>"

definition rmw_create_wait_set :: "'d dds_api \<Rightarrow> ptr \<Rightarrow> gcdds \<Rightarrow> 'd \<Rightarrow> waitset option \<times> gcdds \<times> 'd" where
  "rmw_create_wait_set D k G d =
     (case dds_create_waitset D d of (h, d) \<Rightarrow>
        if h < 0 then (None, G, d)
        else
          (case (if length (waitsets G) = 0
                 then (case dds_create_guardcondition D d of (g, d) \<Rightarrow> (g, G\<lparr>gc_for_empty_waitset := g\<rparr>, d))
                 else (0, G, d)) of
             (g, G, d) \<Rightarrow>
               if g < 0 then (None, G, snd (dds_delete D h d))
               else
                 (case dds_waitset_attach D h (gc_for_empty_waitset G) INTPTR_MAX d of (ret, d) \<Rightarrow>
                    if ret < 0 then (None, G, snd (dds_delete D h d))
                    else (Some (fresh_waitset h), G\<lparr>waitsets := (k, fresh_waitset h) # waitsets G\<rparr>, d))))"

definition rmw_destroy_wait_set :: "'d dds_api \<Rightarrow> ptr \<Rightarrow> gcdds \<Rightarrow> 'd \<Rightarrow> gcdds \<times> 'd" where
  "rmw_destroy_wait_set D k G d =
     (case map_of (waitsets G) k of
        None \<Rightarrow> (G, d)
      | Some ws \<Rightarrow>
          let d = snd (dds_delete D (waitseth ws) d);
              G = G\<lparr>waitsets := AList.delete k (waitsets G)\<rparr> in
          if length (waitsets G) = 0
          then (G\<lparr>gc_for_empty_waitset := 0\<rparr>, snd (dds_delete D (gc_for_empty_waitset G) d))
          else (G, d))"

section \<open>Objects\<close>

definition create_guard_condition :: "'d dds_api \<Rightarrow> ptr \<Rightarrow> heap \<Rightarrow> 'd \<Rightarrow> heap option \<times> 'd" where
  "create_guard_condition D p H d =
     (case dds_create_guardcondition D d of (g, d) \<Rightarrow>
        if g < 0 then (None, d) else (Some (H(p \<mapsto> CddsGuardCondition g)), d))"

text \<open>
  Destroying an object: the caches are dropped, then its handles are deleted and its memory is freed.
  A publisher is never cached and skips the first step.
\<close>

fun delete_handles :: "'d dds_api \<Rightarrow> dds_entity list \<Rightarrow> 'd \<Rightarrow> 'd" where
  "delete_handles D [] d = d"
| "delete_handles D (e # es) d = delete_handles D es (snd (dds_delete D e d))"

definition destroy_object ::
  "'d dds_api \<Rightarrow> ptr \<Rightarrow> heap \<Rightarrow> registry \<Rightarrow> 'd \<Rightarrow> (heap \<times> registry \<times> 'd) result" where
  "destroy_object D p H R d =
     (case H p of
        None \<Rightarrow> dangling
      | Some (CddsPublisher e) \<Rightarrow> Inr (H(p := None), R, delete_handles D [e] d)
      | Some obj \<Rightarrow>
          rbind (clean_waitset_caches D H R d) (\<lambda>(R, d).
          Inr (H(p := None), R, delete_handles D (object_handles obj) d)))"

end
