(* ===== verification/WaitProps.thy ===== *)
theory WaitProps
  imports WaitSet
begin

text \<open>
  The phases of \<open>rmw_wait\<close> over the laws of Cyclone DDS: what attaching and detaching leave attached, that
  the cache is valid exactly when it is what the caller asks for, and that reporting keeps exactly the
  triggered objects.  The two overloads of \<open>require_reattach\<close> are interpretations of one contract.
\<close>

section \<open>The contract of a cache\<close>

text \<open>
  A cache holds the keys of the last arguments.  Its test may fail only where reading the keys does,
  and says whether the keys differ.
\<close>

locale keyed_cache =
  fixes differs :: "'h \<Rightarrow> 'k list \<Rightarrow> 'a \<Rightarrow> bool result"
    and keys :: "'h \<Rightarrow> 'a \<Rightarrow> 'k list result"
  assumes differs_keys: "keys h a = Inr ks \<Longrightarrow> differs h cached a = Inr (cached \<noteq> ks)"
begin

lemma refreshed: "keys h a = Inr ks \<Longrightarrow> differs h ks a = Inr False"
  by (simp add: differs_keys)

lemma unchanged: "keys h a = Inr ks \<Longrightarrow> differs h cached a = Inr False \<Longrightarrow> cached = ks"
  by (simp add: differs_keys)

lemma changed: "keys h a = Inr ks \<Longrightarrow> cached \<noteq> ks \<Longrightarrow> differs h cached a = Inr True"
  by (simp add: differs_keys)

end

lemma require_reattach_entries: "require_reattach cached ary \<longleftrightarrow> cached \<noteq> entries ary"
  by (auto simp: require_reattach_def entries_def split: option.splits)

lemma events_differ_keys:
  "map_result (event_key H) es = Inr ks \<Longrightarrow> length cs = length es \<Longrightarrow> events_differ H cs es = Inr (cs \<noteq> ks)"
proof (induction cs arbitrary: es ks)
  case (Cons c cs)
  then obtain ev es' k ks' where k: "es = ev # es'" "event_key H ev = Inr k" "map_result (event_key H) es' = Inr ks'"
    "ks = k # ks'" "length cs = length es'"
    by (cases es) (auto simp: rbind_eq_Inr)
  then show ?case using Cons.IH [OF k(3,5)] by (auto simp: prod_eq_iff)
qed simp

lemma require_reattach_events_keys:
  assumes "map_result (event_key H) (entries a) = Inr ks"
  shows "require_reattach_events H cached a = Inr (cached \<noteq> ks)"
  using map_result_length [OF assms] events_differ_keys [OF assms, of cached] assms
  by (auto simp: require_reattach_events_def entries_def split: option.splits)

interpretation pointers: keyed_cache "\<lambda>_ cached ary. Inr (require_reattach cached ary)" "\<lambda>_ ary. Inr (entries ary)"
  by unfold_locales (auto simp: require_reattach_entries)

interpretation event_keys: keyed_cache require_reattach_events "\<lambda>H ary. map_result (event_key H) (entries ary)"
  by unfold_locales (rule require_reattach_events_keys)

section \<open>Attaching and detaching lists of handles\<close>

fun detach_entities :: "'d dds_api \<Rightarrow> dds_entity \<Rightarrow> dds_entity list \<Rightarrow> 'd \<Rightarrow> 'd" where
  "detach_entities D w [] d = d"
| "detach_entities D w (e # es) d = detach_entities D w es (snd (dds_waitset_detach D w e d))"

lemma detach_list_entities:
  "detach_list D w handle xs d = rbind (map_result handle xs) (\<lambda>hs. Inr (detach_entities D w hs d))"
  by (induction xs arbitrary: d) (simp_all add: rbind_assoc)

lemma attach_list_entities:
  "attach_list D w handle xs n d = rbind (map_result handle xs) (\<lambda>hs. Inr (attach_entities D w hs n d))"
  by (induction xs arbitrary: n d) (simp_all add: rbind_assoc)

lemma detach_entities_append: "detach_entities D w (xs @ ys) d = detach_entities D w ys (detach_entities D w xs d)"
  by (induction xs arbitrary: d) simp_all

lemma attach_entities_append:
  "attach_entities D w (xs @ ys) n d = (case attach_entities D w xs n d of (n, d) \<Rightarrow> attach_entities D w ys n d)"
  by (induction xs arbitrary: n d) simp_all

lemma attach_entities_count: "fst (attach_entities D w es n d) = n + length es"
  by (induction es arbitrary: n d) simp_all

text \<open>The token of an entity: the place it was first attached at.\<close>

fun attach_map :: "dds_entity list \<Rightarrow> nat \<Rightarrow> dds_entity \<Rightarrow> int option" where
  "attach_map [] n = (\<lambda>_. None)"
| "attach_map (e # es) n = (attach_map es (n + 1))(e \<mapsto> int n)"

lemma attach_map_None: "attach_map es n e = None \<longleftrightarrow> e \<notin> set es"
  by (induction es arbitrary: n) auto

lemma dom_attach_map: "dom (attach_map es n) = set es"
  by (induction es arbitrary: n) auto

lemma dom_override: "dom (\<lambda>e. if e = g then Some c else m e) = insert g (dom m)"
  by (auto split: if_splits)

lemma attach_map_nth: "distinct es \<Longrightarrow> i < length es \<Longrightarrow> attach_map es n (es ! i) = Some (int (n + i))"
  by (induction es arbitrary: n i) (auto simp: nth_Cons' split: if_splits)

lemma attach_map_Some: "distinct es \<Longrightarrow> attach_map es n e = Some t \<longleftrightarrow> (\<exists>i < length es. e = es ! i \<and> t = int (n + i))"
proof
  assume d: "distinct es" and "attach_map es n e = Some t"
  then obtain i where "i < length es" "e = es ! i"
    using attach_map_None [of es n e] by (auto simp: in_set_conv_nth)
  then show "\<exists>i < length es. e = es ! i \<and> t = int (n + i)"
    using attach_map_nth [OF d, of i n] \<open>attach_map es n e = Some t\<close> by auto
qed (auto simp: attach_map_nth)

lemma attach_entities_view:
  assumes "cyclone D V"
  shows "live V (snd (attach_entities D w es n d)) = live V d"
    and "attached V (snd (attach_entities D w es n d)) = (attached V d)(w := (\<lambda>e. case attached V d w e of
           Some i \<Rightarrow> Some i | None \<Rightarrow> if live V d e then attach_map es n e else None))"
proof -
  have "live V (snd (attach_entities D w es n d)) = live V d \<and>
    attached V (snd (attach_entities D w es n d)) = (attached V d)(w := (\<lambda>e. case attached V d w e of
           Some i \<Rightarrow> Some i | None \<Rightarrow> if live V d e then attach_map es n e else None))"
  proof (induction es arbitrary: n d)
    case Nil
    then show ?case by (auto simp: fun_eq_iff split: option.splits)
  next
    case (Cons e es)
    then show ?case
      by (auto simp: cyclone_attach [OF assms] fun_eq_iff split: option.splits)
  qed
  then show "live V (snd (attach_entities D w es n d)) = live V d"
    and "attached V (snd (attach_entities D w es n d)) = (attached V d)(w := (\<lambda>e. case attached V d w e of
           Some i \<Rightarrow> Some i | None \<Rightarrow> if live V d e then attach_map es n e else None))" by blast+
qed

lemma detach_entities_view:
  assumes "cyclone D V"
  shows "live V (detach_entities D w es d) = live V d"
    and "attached V (detach_entities D w es d) = (attached V d)(w := (\<lambda>e. if e \<in> set es then None else attached V d w e))"
proof -
  have "live V (detach_entities D w es d) = live V d \<and>
    attached V (detach_entities D w es d) = (attached V d)(w := (\<lambda>e. if e \<in> set es then None else attached V d w e))"
    by (induction es arbitrary: d) (auto simp: cyclone_detach [OF assms] fun_eq_iff)
  then show "live V (detach_entities D w es d) = live V d"
    and "attached V (detach_entities D w es d) = (attached V d)(w := (\<lambda>e. if e \<in> set es then None else attached V d w e))"
    by blast+
qed

lemma detach_events_view:
  assumes "cyclone D V"
  shows "live V (detach_events D w seen es d) = live V d"
    and "attached V (detach_events D w seen es d)
      = (attached V d)(w := (\<lambda>e. if e \<in> fst ` set es - seen then None else attached V d w e))"
proof -
  have "live V (detach_events D w seen es d) = live V d \<and> attached V (detach_events D w seen es d)
      = (attached V d)(w := (\<lambda>e. if e \<in> fst ` set es - seen then None else attached V d w e))"
    by (induction es arbitrary: seen d) (auto simp: cyclone_detach [OF assms] fun_eq_iff)
  then show "live V (detach_events D w seen es d) = live V d"
    and "attached V (detach_events D w seen es d)
      = (attached V d)(w := (\<lambda>e. if e \<in> fst ` set es - seen then None else attached V d w e))" by blast+
qed

section \<open>The handles behind a cache and behind the arguments\<close>

definition cond_handles :: "heap \<Rightarrow> ptr list \<Rightarrow> ptr list \<Rightarrow> ptr list \<Rightarrow> ptr list \<Rightarrow> dds_entity list result" where
  "cond_handles H ss gs vs cs =
     rbind (map_result (sub_rdcondh H) ss) (\<lambda>a. rbind (map_result (gc_gcondh H) gs) (\<lambda>b.
     rbind (map_result (srv_rdcondh H) vs) (\<lambda>c. rbind (map_result (cl_rdcondh H) cs) (\<lambda>d. Inr (a @ b @ c @ d)))))"

definition cached_handles :: "heap \<Rightarrow> waitset \<Rightarrow> dds_entity list result" where
  "cached_handles H ws = cond_handles H (subs ws) (gcs ws) (srvs ws) (cls ws)"

definition arg_handles :: "heap \<Rightarrow> wait_args \<Rightarrow> dds_entity list result" where
  "arg_handles H a = cond_handles H (entries (a_subs a)) (entries (a_gcs a)) (entries (a_srvs a)) (entries (a_cls a))"

definition arg_keys :: "heap \<Rightarrow> wait_args \<Rightarrow> (dds_entity \<times> rmw_event_type) list result" where
  "arg_keys H a = map_result (event_key H) (entries (a_evs a))"

text \<open>The entities whose status conditions are attached: those with a supported event.\<close>

definition event_entities :: "(dds_entity \<times> rmw_event_type) list \<Rightarrow> dds_entity set" where
  "event_entities ks = fst ` {k \<in> set ks. is_event_supported (snd k)}"

definition cleared :: "waitset \<Rightarrow> waitset" where
  "cleared ws = ws\<lparr>subs := [], gcs := [], srvs := [], cls := [], evs := [], nelems := 0\<rparr>"

lemma waitset_detach_eq:
  "waitset_detach D H ws d = rbind (cached_handles H ws) (\<lambda>hs.
     Inr (cleared ws, detach_events D (waitseth ws) {} (evs ws) (detach_entities D (waitseth ws) hs d)))"
  by (simp add: waitset_detach_def cached_handles_def cond_handles_def detach_list_entities cleared_def rbind_assoc
      detach_entities_append)

lemma waitset_detach_ok:
  assumes "cyclone D V" "cached_handles H ws = Inr hs"
  obtains d' where "waitset_detach D H ws d = Inr (cleared ws, d')" "live V d' = live V d"
    "attached V d' = (attached V d)(waitseth ws := (\<lambda>e. if e \<in> set hs \<union> fst ` set (evs ws) then None
        else attached V d (waitseth ws) e))"
proof -
  let ?d = "detach_events D (waitseth ws) {} (evs ws) (detach_entities D (waitseth ws) hs d)"
  have "attached V ?d = (attached V d)(waitseth ws := (\<lambda>e. if e \<in> set hs \<union> fst ` set (evs ws) then None
        else attached V d (waitseth ws) e))"
    by (auto simp: detach_events_view [OF assms(1)] detach_entities_view [OF assms(1)] fun_eq_iff)
  moreover have "live V ?d = live V d"
    by (simp add: detach_events_view [OF assms(1)] detach_entities_view [OF assms(1)])
  ultimately show ?thesis using that assms(2) by (simp add: waitset_detach_eq)
qed

section \<open>Gathering the events\<close>

lemma add_status_keys:
  assumes "distinct (map fst m)"
  obtains m' where "add_status D h t m = Inr m'" "distinct (map fst m')"
    "set (map fst m') = set (map fst m) \<union> (if is_event_supported t then {h} else {})"
proof (cases "mask_map t")
  case None
  then show ?thesis using assms that by (simp add: add_status_def is_event_supported_def)
next
  case (Some s)
  let ?m = "case map_of m h of None \<Rightarrow> AList.update h 0 m | Some _ \<Rightarrow> m"
  have k: "distinct (map fst ?m)" "set (map fst ?m) = set (map fst m) \<union> {h}"
    using assms by (auto simp: distinct_update dom_update dest: map_of_SomeD split: option.splits)
      (metis image_eqI fst_conv map_of_SomeD)
  show ?thesis
    using that k Some
    by (cases "status_bit D s \<noteq> status_bit D DDS_INCONSISTENT_TOPIC_STATUS")
      (simp_all add: add_status_def is_event_supported_def get_status_kind_from_rmw_def Let_def distinct_update dom_update)
qed

lemma event_entities_simps [simp]:
  "event_entities [] = {}"
  "event_entities ((h, t) # ks) = (if is_event_supported t then {h} else {}) \<union> event_entities ks"
  by (force simp: event_entities_def)+

text \<open>Gathering fails at an invalid handle, otherwise it collects the entities.\<close>

definition masks_of :: "(dds_entity \<times> rmw_event_type) list \<Rightarrow> dds_entity set \<Rightarrow> (dds_entity \<times> u32) list option \<Rightarrow> bool" where
  "masks_of ks before r = (case r of None \<Rightarrow> (\<exists>k \<in> set ks. fst k \<le> 0)
     | Some m \<Rightarrow> (\<forall>k \<in> set ks. 0 < fst k) \<and> distinct (map fst m) \<and> set (map fst m) = before \<union> event_entities ks)"

lemma collect_masks_keys:
  assumes "map_result (event_key H) es = Inr ks" "distinct (map fst m)"
  shows "\<exists>r. collect_masks D H es m = Inr r \<and> masks_of ks (set (map fst m)) r"
  using assms
proof (induction es arbitrary: ks m)
  case Nil
  then show ?case by (simp add: masks_of_def)
next
  case (Cons ev es)
  then obtain h t ks' where k: "event_key H ev = Inr (h, t)" "map_result (event_key H) es = Inr ks'" "ks = (h, t) # ks'"
    by (auto simp: rbind_eq_Inr)
  obtain m' where m': "add_status D h t m = Inr m'" "distinct (map fst m')"
    "set (map fst m') = set (map fst m) \<union> (if is_event_supported t then {h} else {})"
    using add_status_keys [OF Cons.prems(2)] by blast
  obtain r where r: "collect_masks D H es m' = Inr r" "masks_of ks' (set (map fst m')) r"
    using Cons.IH [OF k(2) m'(2)] by blast
  show ?case
  proof (cases "h \<le> 0")
    case True
    then show ?thesis by (simp add: k masks_of_def)
  next
    case False
    then have "masks_of ks (set (map fst m)) r"
      using r(2) m'(3) by (cases r) (auto simp: k masks_of_def simp del: set_map)
    then show ?thesis using False r(1) m'(1) by (simp add: k)
  qed
qed

lemma set_masks_view:
  assumes "cyclone D V"
  shows "same_view V d (snd (set_masks D es d))"
proof (induction es arbitrary: d)
  case Nil
  then show ?case by (simp add: same_view_def)
next
  case (Cons p es)
  obtain e m where p: "p = (e, m)" by (cases p)
  obtain r d' where s: "dds_set_status_mask D e m d = (r, d')" by (cases "dds_set_status_mask D e m d")
  have v: "same_view V d d'" using cyclone_same(1,2) [OF assms, of e m d] s by (simp add: same_view_def)
  show ?case using v Cons.IH [of d'] by (simp add: p s same_view_def)
qed

lemma gather_ok:
  assumes "cyclone D V" "map_result (event_key H) es = Inr ks"
  obtains r d' where "gather_event_entities D H es d = Inr (r, d')" "same_view V d d'"
    "\<And>ents. r = Some ents \<Longrightarrow> distinct ents \<and> set ents = event_entities ks"
proof -
  have empty: "distinct (map fst ([] :: (dds_entity \<times> u32) list))" by simp
  obtain r where r: "collect_masks D H es [] = Inr r" "masks_of ks {} r"
    using collect_masks_keys [OF assms(2) empty, of D] by auto
  show ?thesis
  proof (cases r)
    case None
    show ?thesis by (rule that [of None d]) (simp_all add: gather_event_entities_def r(1) None same_view_def)
  next
    case (Some m)
    let ?o = "unordered D (map fst m)"
    let ?s = "set_masks D (map (\<lambda>e. (e, the (map_of m e))) ?o) d"
    have g: "gather_event_entities D H es d = Inr (if fst ?s then Some ?o else None, snd ?s)"
      by (simp add: gather_event_entities_def r(1) Some split: prod.splits)
    have o: "distinct ?o \<and> set ?o = event_entities ks"
      using r(2) by (simp add: Some masks_of_def cyclone_unordered [OF assms(1)])
    show ?thesis
      by (rule that [OF g set_masks_view [OF assms(1)]]) (use o in \<open>simp split: if_splits\<close>)
  qed
qed

section \<open>Attaching\<close>

text \<open>
  What should be attached to a wait set: the dummy guard condition \<open>g\<close>, and the entities of a list with
  their positions.  Entities that have been deleted are no longer attached.
\<close>

definition attachments :: "'d dds_view \<Rightarrow> 'd \<Rightarrow> dds_entity \<Rightarrow> dds_entity \<Rightarrow> dds_entity list \<Rightarrow> bool" where
  "attachments V d g w es \<longleftrightarrow> g \<notin> set es \<and> attached V d w g = Some INTPTR_MAX
     \<and> (\<forall>e. e \<noteq> g \<and> live V d e \<longrightarrow> attached V d w e = attach_map es 0 e)"

text \<open>A wait set whose attachments are those its cache says.\<close>

definition coherent :: "'d dds_view \<Rightarrow> heap \<Rightarrow> 'd \<Rightarrow> dds_entity \<Rightarrow> waitset \<Rightarrow> bool" where
  "coherent V H d g ws \<longleftrightarrow> (\<exists>hs es. cached_handles H ws = Inr hs \<and> distinct es \<and> set es = event_entities (evs ws)
     \<and> nelems ws = length (hs @ es) \<and> g \<notin> fst ` set (evs ws) \<and> attachments V d g (waitseth ws) (hs @ es))"

text \<open>A wait set whose cache is what the arguments ask for.\<close>

definition serves :: "heap \<Rightarrow> wait_args \<Rightarrow> waitset \<Rightarrow> bool" where
  "serves H a ws \<longleftrightarrow> subs ws = entries (a_subs a) \<and> gcs ws = entries (a_gcs a) \<and> srvs ws = entries (a_srvs a)
     \<and> cls ws = entries (a_cls a) \<and> arg_keys H a = Inr (evs ws)"

text \<open>Arguments that refer to objects whose handles exist.\<close>

definition args_valid :: "'d dds_view \<Rightarrow> heap \<Rightarrow> 'd \<Rightarrow> dds_entity \<Rightarrow> wait_args \<Rightarrow> bool" where
  "args_valid V H d g a \<longleftrightarrow> (\<exists>hs ks. arg_handles H a = Inr hs \<and> arg_keys H a = Inr ks
     \<and> (\<forall>e \<in> set hs \<union> fst ` set ks. live V d e \<and> e \<noteq> g))"

lemma needs_reattach_serves:
  assumes "arg_keys H a = Inr ks"
  shows "needs_reattach H ws a = Inr (\<not> serves H a ws)"
  using event_keys.differs_keys [of H "a_evs a" ks "evs ws"] assms
  by (auto simp: needs_reattach_def serves_def arg_keys_def require_reattach_entries)

lemma serves_handles: "serves H a ws \<Longrightarrow> cached_handles H ws = arg_handles H a"
  by (simp add: serves_def cached_handles_def arg_handles_def)

lemma event_entities_subset: "event_entities ks \<subseteq> fst ` set ks"
  by (auto simp: event_entities_def)

lemma attach_lists:
  "rbind (attach_list D w (sub_rdcondh H) (entries (a_subs a)) 0 d) (\<lambda>(n, d).
   rbind (attach_list D w (gc_gcondh H) (entries (a_gcs a)) n d) (\<lambda>(n, d).
   rbind (attach_list D w (srv_rdcondh H) (entries (a_srvs a)) n d) (\<lambda>(n, d).
   rbind (attach_list D w (cl_rdcondh H) (entries (a_cls a)) n d) (\<lambda>(n, d). k n d))))
   = rbind (arg_handles H a) (\<lambda>hs. k (fst (attach_entities D w hs 0 d)) (snd (attach_entities D w hs 0 d)))"
  by (simp add: attach_list_entities arg_handles_def cond_handles_def rbind_assoc attach_entities_append split_def)

lemma attachments_cleared:
  assumes "coherent V H d g ws" "cyclone D V" "waitset_detach D H ws d = Inr (ws', d')"
  shows "ws' = cleared ws" "live V d' = live V d" "attachments V d' g (waitseth ws) []"
    "w \<noteq> waitseth ws \<Longrightarrow> attached V d' w = attached V d w"
proof -
  obtain hs es where c: "cached_handles H ws = Inr hs" "set es = event_entities (evs ws)" "g \<notin> fst ` set (evs ws)"
    "attachments V d g (waitseth ws) (hs @ es)" using assms(1) by (auto simp: coherent_def)
  obtain d1 where d1: "waitset_detach D H ws d = Inr (cleared ws, d1)" "live V d1 = live V d"
    "attached V d1 = (attached V d)(waitseth ws := (\<lambda>e. if e \<in> set hs \<union> fst ` set (evs ws) then None
        else attached V d (waitseth ws) e))" using waitset_detach_ok [OF assms(2) c(1)] by blast
  show "ws' = cleared ws" "live V d' = live V d" "w \<noteq> waitseth ws \<Longrightarrow> attached V d' w = attached V d w"
    using d1 assms(3) by simp_all
  have "attached V d (waitseth ws) e = None" if "e \<noteq> g" "live V d e" "e \<notin> set hs" "e \<notin> fst ` set (evs ws)" for e
    using c(2,4) that event_entities_subset [of "evs ws"] attach_map_None [of "hs @ es" 0 e]
    by (auto simp: attachments_def)
  then show "attachments V d' g (waitseth ws) []"
    using d1 assms(3) c(3,4) by (auto simp: attachments_def)
qed

lemma attachments_attach:
  assumes "cyclone D V" "attachments V d g w []" "g \<notin> set es"
  shows "attachments V (snd (attach_entities D w es 0 d)) g w es"
  using assms(2,3) by (auto simp: attachments_def attach_entities_view [OF assms(1)] split: option.splits)

lemma attach_map_append:
  "attach_map (xs @ ys) n e = (case attach_map xs n e of Some i \<Rightarrow> Some i | None \<Rightarrow> attach_map ys (n + length xs) e)"
  by (induction xs arbitrary: n) (auto split: option.split)

lemma attachments_attach_more:
  assumes "cyclone D V" "attachments V d g w xs" "g \<notin> set ys"
  shows "attachments V (snd (attach_entities D w ys (length xs) d)) g w (xs @ ys)"
  using assms(2,3) by (auto simp: attachments_def attach_entities_view [OF assms(1)] attach_map_append split: option.splits)

lemma attachments_same: "same_view V d d' \<Longrightarrow> attachments V d' g w es = attachments V d g w es"
  by (simp add: attachments_def same_view_def)

lemma wait_attach_ok:
  assumes cy: "cyclone D V" and co: "coherent V H d g ws" and av: "args_valid V H d g a"
  shows "\<exists>ok ws' d'. wait_attach D H a ws d = Inr (ok, ws', d') \<and> waitseth ws' = waitseth ws \<and> inuse ws' = inuse ws
    \<and> live V d' = live V d \<and> (\<forall>w. w \<noteq> waitseth ws \<longrightarrow> attached V d' w = attached V d w)
    \<and> (ok \<longrightarrow> coherent V H d' g ws' \<and> serves H a ws')"
proof -
  obtain hs ks where h: "arg_handles H a = Inr hs" "arg_keys H a = Inr ks" "g \<notin> set hs" "g \<notin> fst ` set ks"
    using av by (auto simp: args_valid_def)
  show ?thesis
  proof (cases "serves H a ws")
    case True
    then show ?thesis using co by (auto simp: wait_attach_def needs_reattach_serves [OF h(2)])
  next
    case False
    let ?w = "waitseth ws"
    obtain hs0 where hs0: "cached_handles H ws = Inr hs0" using co by (auto simp: coherent_def)
    obtain d1 where d1: "waitset_detach D H ws d = Inr (cleared ws, d1)" using waitset_detach_ok [OF cy hs0] by blast
    note cl = attachments_cleared [OF co cy d1]
    let ?d2 = "snd (attach_entities D ?w hs 0 d1)"
    let ?ws2 = "(cleared ws)\<lparr>subs := entries (a_subs a), gcs := entries (a_gcs a), srvs := entries (a_srvs a), cls := entries (a_cls a)\<rparr>"
    have at2: "attachments V ?d2 g ?w hs" by (rule attachments_attach [OF cy cl(3) h(3)])
    have v2: "live V ?d2 = live V d" "\<And>w. w \<noteq> ?w \<Longrightarrow> attached V ?d2 w = attached V d w"
      using cl(2,4) by (simp_all add: attach_entities_view [OF cy])
    have e: "wait_attach D H a ws d = attach_events D H (a_evs a) ?ws2 (length hs) ?d2"
      by (simp add: wait_attach_def needs_reattach_serves [OF h(2)] False d1 attach_lists h(1) attach_entities_count)
        (simp add: cleared_def)
    have ch: "cond_handles H (entries (a_subs a)) (entries (a_gcs a)) (entries (a_srvs a)) (entries (a_cls a)) = Inr hs"
      using h(1) by (simp add: arg_handles_def)
    show ?thesis
    proof (cases "a_evs a")
      case None
      then have "ks = []" using h(2) by (simp add: arg_keys_def entries_def)
      then show ?thesis
        using at2 v2 ch h(2) by (auto simp: e None attach_events_def coherent_def serves_def cached_handles_def cleared_def)
    next
      case (Some events)
      then have k: "map_result (event_key H) events = Inr ks" using h(2) by (simp add: arg_keys_def entries_def)
      obtain r d3 where g: "gather_event_entities D H events ?d2 = Inr (r, d3)" "same_view V ?d2 d3"
        "\<And>ents. r = Some ents \<Longrightarrow> distinct ents \<and> set ents = event_entities ks"
        using gather_ok [OF cy k, of ?d2] by blast
      have v3: "live V d3 = live V d" "\<And>w. w \<noteq> ?w \<Longrightarrow> attached V d3 w = attached V d w"
        using v2 g(2) by (simp_all add: same_view_def)
      show ?thesis
      proof (cases r)
        case None
        then show ?thesis using v3 by (simp add: e Some attach_events_def g(1)) (auto simp: cleared_def)
      next
        case (Some ents)
        let ?es = "unordered D ents"
        let ?d4 = "snd (attach_entities D ?w ?es (length hs) d3)"
        have es: "distinct ?es" "set ?es = event_entities ks" "length ?es = length ents"
          using g(3) [OF Some] by (simp_all add: cyclone_unordered [OF cy])
        have ges: "g \<notin> set ?es" using es(2) h(4) event_entities_subset [of ks] by auto
        have at3: "attachments V d3 g ?w hs" using at2 by (simp add: attachments_same [OF g(2)])
        have at4: "attachments V ?d4 g ?w (hs @ ?es)" by (rule attachments_attach_more [OF cy at3 ges])
        have "wait_attach D H a ws d = Inr (True, ?ws2\<lparr>evs := ks, nelems := length hs + length ?es\<rparr>, ?d4)"
          using k by (simp add: e \<open>a_evs a = Some events\<close> attach_events_def g(1) Some split_def attach_entities_count)
            (simp add: cleared_def)
        moreover have "coherent V H ?d4 g (?ws2\<lparr>evs := ks, nelems := length hs + length ?es\<rparr>)"
          unfolding coherent_def using ch es(1,2) h(4) at4
          by (intro exI [of _ hs] exI [of _ ?es]) (simp add: cached_handles_def cleared_def)
        moreover have "serves H a (?ws2\<lparr>evs := ks, nelems := length hs + length ?es\<rparr>)"
          using h(2) by (simp add: serves_def)
        ultimately show ?thesis using v3 by (simp add: attach_entities_view [OF cy]) (auto simp: cleared_def)
      qed
    qed
  qed
qed

section \<open>Reporting\<close>

text \<open>
  The tokens before \<open>trig_idx\<close> have been consumed, those from it on are at least the current index; then
  the next object is kept exactly if its index is among the tokens.
\<close>

definition pending :: "int list \<Rightarrow> int list \<Rightarrow> nat \<Rightarrow> nat \<Rightarrow> bool" where
  "pending tr ts i n \<longleftrightarrow> tr = ts @ [- 1] \<and> sorted ts \<and> distinct ts \<and> i \<le> length ts
     \<and> (\<forall>t \<in> set (take i ts). t < int n) \<and> (\<forall>t \<in> set (drop i ts). int n \<le> t)"

lemma pending_index: "pending tr ts i n \<Longrightarrow> i < length tr"
  by (simp add: pending_def)

lemma pending_hit:
  assumes "pending tr ts i n"
  shows "tr ! i = int n \<longleftrightarrow> int n \<in> set ts"
    and "tr ! i = int n \<Longrightarrow> pending tr ts (i + 1) (n + 1)"
    and "tr ! i \<noteq> int n \<Longrightarrow> pending tr ts i (n + 1)"
proof -
  have tr: "tr = ts @ [- 1]" and st: "sorted ts" "distinct ts" "i \<le> length ts"
    and lo: "\<forall>t \<in> set (take i ts). t < int n" and hi: "\<forall>t \<in> set (drop i ts). int n \<le> t"
    using assms by (simp_all add: pending_def)
  have parts: "set ts = set (take i ts) \<union> set (drop i ts)" by (metis append_take_drop_id set_append)
  have "tr ! i = int n \<longleftrightarrow> i < length ts \<and> ts ! i = int n"
    using st(3) by (auto simp: tr nth_append)
  moreover have cons: "drop i ts = ts ! i # drop (Suc i) ts" if "i < length ts" using that by (simp add: Cons_nth_drop_Suc)
  moreover have above: "ts ! i < t" if "i < length ts" "t \<in> set (drop (Suc i) ts)" for t
  proof -
    have "sorted (drop i ts)" "distinct (drop i ts)" using st by (simp_all add: sorted_wrt_drop)
    then show ?thesis using that cons [OF that(1)] by (auto simp: less_le)
  qed
  moreover have "int n \<in> set (drop i ts) \<longleftrightarrow> i < length ts \<and> ts ! i = int n"
  proof (cases "i < length ts")
    case True
    then have "int n \<le> ts ! i" using hi cons by simp
    then show ?thesis using cons [OF True] above [OF True] True by (auto; force)
  qed simp
  ultimately show hit: "tr ! i = int n \<longleftrightarrow> int n \<in> set ts" using lo parts by auto
  show "pending tr ts (i + 1) (n + 1)" if "tr ! i = int n"
  proof -
    have i: "i < length ts" "ts ! i = int n" using that st(3) by (auto simp: tr nth_append split: if_splits)
    have "\<forall>t \<in> set (drop (Suc i) ts). int (n + 1) \<le> t" using above [OF i(1)] i(2) by force
    moreover have "take (Suc i) ts = take i ts @ [int n]" using i by (simp add: take_Suc_conv_app_nth)
    ultimately show ?thesis using tr st i(1) lo by (auto simp: pending_def)
  qed
  show "pending tr ts i (n + 1)" if "tr ! i \<noteq> int n"
  proof -
    have "int n \<notin> set (drop i ts)" using that hit parts by auto
    then have "int (n + 1) \<le> t" if "t \<in> set (drop i ts)" for t
      using hi that by (cases "t = int n") auto
    then show ?thesis using tr st lo by (auto simp: pending_def)
  qed
qed

text \<open>The array with the objects kept whose place is among the tokens.\<close>

fun kept :: "int list \<Rightarrow> ptr list \<Rightarrow> nat \<Rightarrow> ptr list" where
  "kept ts [] n = []"
| "kept ts (x # xs) n = (if int n \<in> set ts then x else 0) # kept ts xs (n + 1)"

lemma report_list_kept:
  "pending tr ts i n \<Longrightarrow> \<exists>j. report_list tr xs i n = Inr (kept ts xs n, j, n + length xs) \<and> pending tr ts j (n + length xs)"
proof (induction xs arbitrary: i n)
  case Nil
  then show ?case by simp
next
  case (Cons x xs)
  note p = pending_hit [OF Cons.prems] pending_index [OF Cons.prems]
  show ?case
  proof (cases "tr ! i = int n")
    case True
    then show ?thesis using Cons.IH [OF p(2) [OF True]] p(1,4) by auto
  next
    case False
    then show ?thesis using Cons.IH [OF p(3) [OF False]] p(1,4) by auto
  qed
qed

lemma report_guards_kept:
  assumes "cyclone D V"
  shows "pending tr ts i n \<Longrightarrow> map_result (gc_gcondh H) xs = Inr gs \<Longrightarrow>
    \<exists>j d'. report_guards D H tr xs i n d = Inr (kept ts xs n, j, n + length xs, d') \<and> pending tr ts j (n + length xs)
      \<and> same_view V d d'"
proof (induction xs arbitrary: i n gs d)
  case Nil
  then show ?case by (simp add: same_view_def)
next
  case (Cons x xs)
  obtain g gs' where g: "gc_gcondh H x = Inr g" "map_result (gc_gcondh H) xs = Inr gs'"
    using Cons.prems(2) by (auto simp: rbind_eq_Inr)
  note p = pending_hit [OF Cons.prems(1)] pending_index [OF Cons.prems(1)]
  show ?case
  proof (cases "tr ! i = int n")
    case True
    obtain j d' where r: "report_guards D H tr xs (i + 1) (n + 1) (dds_take_guardcondition D g d)
        = Inr (kept ts xs (n + 1), j, n + 1 + length xs, d')" "pending tr ts j (n + 1 + length xs)"
      "same_view V (dds_take_guardcondition D g d) d'"
      using Cons.IH [OF p(2) [OF True] g(2)] by blast
    have "same_view V d d'" using r(3) by (simp add: same_view_def cyclone_same [OF assms])
    then show ?thesis using r(1,2) True p(1,4) g(1) by auto
  next
    case False
    obtain j d' where r: "report_guards D H tr xs i (n + 1) d = Inr (kept ts xs (n + 1), j, n + 1 + length xs, d')"
      "pending tr ts j (n + 1 + length xs)" "same_view V d d'"
      using Cons.IH [OF p(3) [OF False] g(2)] by blast
    then show ?thesis using False p(1,4) by auto
  qed
qed

text \<open>The tokens of what is triggered are the positions of the triggered entities.\<close>

lemma kept_map:
  assumes "map_result handle xs = Inr hs" "\<And>i. i < length hs \<Longrightarrow> int (n + i) \<in> set ts \<longleftrightarrow> tg (hs ! i)"
  shows "kept ts xs n = map (\<lambda>x. case handle x of Inr h \<Rightarrow> if tg h then x else 0 | Inl _ \<Rightarrow> 0) xs"
  using assms
proof (induction xs arbitrary: n hs)
  case (Cons x xs)
  then obtain h hs' where h: "handle x = Inr h" "map_result handle xs = Inr hs'" "hs = h # hs'"
    by (auto simp: rbind_eq_Inr)
  have "int (n + 1 + i) \<in> set ts \<longleftrightarrow> tg (hs' ! i)" if "i < length hs'" for i
    using Cons.prems(2) [of "Suc i"] that h(3) by (simp add: add.commute add.left_commute)
  then have "kept ts xs (n + 1) = map (\<lambda>x. case handle x of Inr h \<Rightarrow> if tg h then x else 0 | Inl _ \<Rightarrow> 0) xs"
    using Cons.IH [OF h(2)] by blast
  then show ?case using Cons.prems(2) [of 0] h(1,3) by simp
qed simp

lemma handle_active_events_total:
  assumes "cyclone D V" "map_result (event_key H) es = Inr ks" "\<forall>k \<in> set ks. live V d (fst k)"
  shows "\<exists>es'. handle_active_events D H es d = Inr es' \<and> length es' = length es"
  using assms(2,3)
proof (induction es arbitrary: ks)
  case (Cons ev es)
  then obtain h t ks' where k: "event_key H ev = Inr (h, t)" "map_result (event_key H) es = Inr ks'" "ks = (h, t) # ks'"
    by (auto simp: rbind_eq_Inr)
  obtain es' where es': "handle_active_events D H es d = Inr es'" "length es' = length es"
    using Cons.IH [OF k(2)] Cons.prems(2) k(3) by auto
  obtain m where m: "dds_get_status_changes D h d = Some m"
    using cyclone_status [OF assms(1)] Cons.prems(2) k(3) by fastforce
  have "\<exists>b. (if \<not> is_event_supported t then Inr True
      else rbind (get_status_kind_from_rmw D t) (\<lambda>k. Inr ((m AND k) = 0))) = Inr b"
    by (cases "mask_map t") (auto simp: is_event_supported_def get_status_kind_from_rmw_def)
  then show ?case using k(1) es' m by auto
qed simp

text \<open>A wait set to which exactly the dummy and the given entities are attached.\<close>

definition waits_for :: "'d dds_view \<Rightarrow> 'd \<Rightarrow> dds_entity \<Rightarrow> waitset \<Rightarrow> dds_entity list \<Rightarrow> bool" where
  "waits_for V d g ws es \<longleftrightarrow> distinct es \<and> g \<notin> set es \<and> nelems ws = length es \<and> int (length es) < INTPTR_MAX
     \<and> attached V d (waitseth ws) = (\<lambda>e. if e = g then Some INTPTR_MAX else attach_map es 0 e)"

lemma waits_for_token:
  assumes "waits_for V d g ws es"
  shows "attached V d (waitseth ws) e = Some (int i) \<and> i < length es \<longleftrightarrow> i < length es \<and> e = es ! i"
  using assms attach_map_Some [of es 0 e "int i"] by (auto simp: waits_for_def)

lemma waits_for_inj:
  assumes "waits_for V d g ws es"
  shows "inj_on (\<lambda>e. the (attached V d (waitseth ws) e)) (dom (attached V d (waitseth ws)))"
    and "e \<in> dom (attached V d (waitseth ws)) \<Longrightarrow> 0 \<le> the (attached V d (waitseth ws) e)"
proof -
  have at: "attached V d (waitseth ws) = (\<lambda>e. if e = g then Some INTPTR_MAX else attach_map es 0 e)"
    and d: "distinct es" and n: "int (length es) < INTPTR_MAX" using assms by (auto simp: waits_for_def)
  have tok: "\<exists>i < length es. e = es ! i \<and> the (attach_map es 0 e) = int i" if "attach_map es 0 e \<noteq> None" for e
  proof -
    obtain t where "attach_map es 0 e = Some t" using \<open>attach_map es 0 e \<noteq> None\<close> by blast
    then show ?thesis using attach_map_Some [OF d, of 0 e t] by auto
  qed
  show "inj_on (\<lambda>e. the (attached V d (waitseth ws) e)) (dom (attached V d (waitseth ws)))"
  proof (rule inj_onI)
    fix x y
    assume "x \<in> dom (attached V d (waitseth ws))" "y \<in> dom (attached V d (waitseth ws))"
      "the (attached V d (waitseth ws) x) = the (attached V d (waitseth ws) y)"
    then show "x = y" using tok [of x] tok [of y] n by (auto simp: at split: if_splits)
  qed
  show "0 \<le> the (attached V d (waitseth ws) e)" if "e \<in> dom (attached V d (waitseth ws))"
    using that tok [of e] by (auto simp: at split: if_splits)
qed

lemma wait_block_tokens:
  assumes "cyclone D V" "waits_for V d g ws es"
  obtains ts where "wait_block D t ws d = (ws\<lparr>trigs := ts @ [- 1]\<rparr>, None)" "pending (ts @ [- 1]) ts 0 0"
    "\<And>i. i < length es \<Longrightarrow> int i \<in> set ts \<longleftrightarrow> triggered V d (es ! i)"
    "ts = [] \<longleftrightarrow> (\<forall>e \<in> insert g (set es). \<not> triggered V d e)"
proof -
  let ?at = "attached V d (waitseth ws)"
  let ?buf = "resize_vec (nelems ws + 1) (trigs ws)"
  have dm: "dom ?at = insert g (set es)" and n: "nelems ws = length es" and len: "int (length es) < INTPTR_MAX"
    using assms(2) by (simp_all add: waits_for_def dom_override dom_attach_map)
  have c: "card (dom ?at) \<le> length ?buf" using card_length [of "g # es"] by (simp add: dm n resize_vec_def)
  obtain ntrig buf where w: "dds_waitset_wait D (waitseth ws) ?buf t d = (ntrig, buf)"
    by (cases "dds_waitset_wait D (waitseth ws) ?buf t d")
  obtain xs where x: "distinct xs" "ntrig = int (length xs)" "length xs \<le> length ?buf" "length buf = length ?buf"
    "set xs = {e \<in> dom ?at. triggered V d e}" "take (length xs) buf = map (\<lambda>e. the (?at e)) xs"
    by (rule cyclone_wait [OF assms(1) c w])
  let ?ts = "sort (map (\<lambda>e. the (?at e)) xs)"
  have inj: "inj_on (\<lambda>e. the (?at e)) (set xs)"
    using waits_for_inj(1) [OF assms(2)] x(5) by (auto intro: inj_on_subset)
  have "resize_vec (length xs) buf = map (\<lambda>e. the (?at e)) xs"
    using x(3,4,6) by (simp add: resize_vec_def)
  then have b: "wait_block D t ws d = (ws\<lparr>trigs := ?ts @ [- 1]\<rparr>, None)"
    using x(2) w by (simp add: wait_block_def)
  have pos: "\<forall>t \<in> set ?ts. 0 \<le> t" using waits_for_inj(2) [OF assms(2)] x(5) by auto
  have p: "pending (?ts @ [- 1]) ?ts 0 0"
    using x(1) inj pos by (simp add: pending_def distinct_map)
  have m: "int i \<in> set ?ts \<longleftrightarrow> triggered V d (es ! i)" if "i < length es" for i
  proof -
    have som: "the (?at e) = int i \<longleftrightarrow> ?at e = Some (int i)" if "e \<in> set xs" for e
      using that x(5) by (cases "?at e") (simp_all add: domIff)
    have "int i \<in> set ?ts \<longleftrightarrow> (\<exists>e \<in> set xs. the (?at e) = int i)"
      unfolding set_sort set_map image_iff by (intro bex_cong refl) (rule eq_commute)
    also have "\<dots> \<longleftrightarrow> (\<exists>e \<in> set xs. ?at e = Some (int i))" by (intro bex_cong refl som)
    also have "\<dots> \<longleftrightarrow> (\<exists>e \<in> set xs. e = es ! i)"
      using waits_for_token [OF assms(2), of _ i] that by (intro bex_cong refl) simp
    also have "\<dots> \<longleftrightarrow> es ! i \<in> set xs" by blast
    also have "\<dots> \<longleftrightarrow> triggered V d (es ! i)" using x(5) that by (auto simp: dm)
    finally show ?thesis .
  qed
  have "?ts = [] \<longleftrightarrow> (\<forall>e \<in> insert g (set es). \<not> triggered V d e)"
  proof -
    have "?ts = [] \<longleftrightarrow> set ?ts = {}" by (simp only: set_empty)
    also have "\<dots> \<longleftrightarrow> set xs = {}" by (simp only: set_sort set_map image_is_empty)
    finally show ?thesis using x(5) by (auto simp: dm)
  qed
  with b p m show ?thesis by (rule that)
qed

text \<open>What the caller gets: an object is kept if its handle is triggered, otherwise it is nulled.\<close>

definition ready_or_null :: "'d dds_view \<Rightarrow> 'd \<Rightarrow> (ptr \<Rightarrow> dds_entity result) \<Rightarrow> ptr \<Rightarrow> ptr" where
  "ready_or_null V d handle x = (case handle x of Inr h \<Rightarrow> if triggered V d h then x else 0 | Inl _ \<Rightarrow> 0)"

definition ready_arrays :: "'d dds_view \<Rightarrow> 'd \<Rightarrow> heap \<Rightarrow> wait_args \<Rightarrow> wait_args \<Rightarrow> bool" where
  "ready_arrays V d H a a' \<longleftrightarrow>
     a_subs a' = map_option (map (ready_or_null V d (sub_rdcondh H))) (a_subs a)
     \<and> a_gcs a' = map_option (map (ready_or_null V d (gc_gcondh H))) (a_gcs a)
     \<and> a_srvs a' = map_option (map (ready_or_null V d (srv_rdcondh H))) (a_srvs a)
     \<and> a_cls a' = map_option (map (ready_or_null V d (cl_rdcondh H))) (a_cls a)"

lemma map_option_entries: "y = map f (entries x) \<Longrightarrow> map_option (\<lambda>_. y) x = map_option (map f) x"
  by (cases x) (simp_all add: entries_def)

lemma wait_report_ready:
  assumes "cyclone D V" "arg_handles H a = Inr hs" "arg_keys H a = Inr ks" "\<forall>k \<in> set ks. live V d (fst k)"
    and "pending (ts @ [- 1]) ts 0 0" "trigs ws = ts @ [- 1]"
    and "\<And>i. i < length hs \<Longrightarrow> int i \<in> set ts \<longleftrightarrow> triggered V d (hs ! i)"
  shows "\<exists>a' d'. wait_report D H a ws d = Inr (a', d') \<and> same_view V d d' \<and> ready_arrays V d H a a'"
proof -
  obtain h1 h2 h3 h4 where h: "map_result (sub_rdcondh H) (entries (a_subs a)) = Inr h1"
    "map_result (gc_gcondh H) (entries (a_gcs a)) = Inr h2" "map_result (srv_rdcondh H) (entries (a_srvs a)) = Inr h3"
    "map_result (cl_rdcondh H) (entries (a_cls a)) = Inr h4" "hs = h1 @ h2 @ h3 @ h4"
    using assms(2) by (auto simp: arg_handles_def cond_handles_def rbind_eq_Inr)
  note len = map_result_length [OF h(1), symmetric] map_result_length [OF h(2), symmetric]
    map_result_length [OF h(3), symmetric] map_result_length [OF h(4), symmetric]
  let ?n1 = "length h1" and ?n2 = "length h1 + length h2" and ?n3 = "length h1 + length h2 + length h3"
  obtain i1 where r1: "report_list (ts @ [- 1]) (entries (a_subs a)) 0 0 = Inr (kept ts (entries (a_subs a)) 0, i1, ?n1)"
    "pending (ts @ [- 1]) ts i1 ?n1"
    using report_list_kept [OF assms(5), of "entries (a_subs a)"] by (auto simp: len)
  obtain i2 d2 where r2: "report_guards D H (ts @ [- 1]) (entries (a_gcs a)) i1 ?n1 d
      = Inr (kept ts (entries (a_gcs a)) ?n1, i2, ?n2, d2)" "pending (ts @ [- 1]) ts i2 ?n2" "same_view V d d2"
    using report_guards_kept [OF assms(1) r1(2) h(2), of d] by (auto simp: len)
  obtain i3 where r3: "report_list (ts @ [- 1]) (entries (a_srvs a)) i2 ?n2 = Inr (kept ts (entries (a_srvs a)) ?n2, i3, ?n3)"
    "pending (ts @ [- 1]) ts i3 ?n3"
    using report_list_kept [OF r2(2), of "entries (a_srvs a)"] by (auto simp: len)
  obtain i4 where r4: "report_list (ts @ [- 1]) (entries (a_cls a)) i3 ?n3
      = Inr (kept ts (entries (a_cls a)) ?n3, i4, ?n3 + length h4)"
    using report_list_kept [OF r3(2), of "entries (a_cls a)"] by (auto simp: len)
  have kd: "\<forall>k \<in> set ks. live V d2 (fst k)" using assms(4) r2(3) by (simp add: same_view_def)
  obtain es where es: "(case a_evs a of None \<Rightarrow> Inr None
      | Some es \<Rightarrow> rbind (handle_active_events D H es d2) (\<lambda>es'. Inr (Some es'))) = Inr es"
  proof (cases "a_evs a")
    case (Some xs)
    then have "map_result (event_key H) xs = Inr ks" using assms(3) by (simp add: arg_keys_def entries_def)
    then show ?thesis using handle_active_events_total [OF assms(1) _ kd, of H xs] Some that by auto
  qed (use that in simp)
  have ix: "int (length xs + i) \<in> set ts \<longleftrightarrow> triggered V d (ys ! i)" if "hs = xs @ ys @ zs" "i < length ys" for xs ys zs i
    using assms(7) [of "length xs + i"] that by (simp add: nth_append)
  have k: "kept ts (entries (a_subs a)) 0 = map (ready_or_null V d (sub_rdcondh H)) (entries (a_subs a))"
    "kept ts (entries (a_gcs a)) ?n1 = map (ready_or_null V d (gc_gcondh H)) (entries (a_gcs a))"
    "kept ts (entries (a_srvs a)) ?n2 = map (ready_or_null V d (srv_rdcondh H)) (entries (a_srvs a))"
    "kept ts (entries (a_cls a)) ?n3 = map (ready_or_null V d (cl_rdcondh H)) (entries (a_cls a))"
    using kept_map [OF h(1), of 0 ts "triggered V d"] ix [of "[]" h1 "h2 @ h3 @ h4"]
      kept_map [OF h(2), of ?n1 ts "triggered V d"] ix [of h1 h2 "h3 @ h4"]
      kept_map [OF h(3), of ?n2 ts "triggered V d"] ix [of "h1 @ h2" h3 h4]
      kept_map [OF h(4), of ?n3 ts "triggered V d"] ix [of "h1 @ h2 @ h3" h4 "[]"]
    by (simp_all add: h(5) add.assoc ready_or_null_def [abs_def])
  show ?thesis
    by (simp add: wait_report_def assms(6) r1(1) r2(1) r3(1) r4 es r2(3) ready_arrays_def map_option_entries [OF k(1)]
        map_option_entries [OF k(2)] map_option_entries [OF k(3)] map_option_entries [OF k(4)])
qed

end
