(* ===== verification/WaitSteps.thy ===== *)
theory WaitSteps
  imports WaitProps
begin

text \<open>
  Several threads: a step relation on the objects, the registered wait sets and the state of Cyclone DDS.  A
  call to \<open>rmw_wait\<close> is three steps, entering, attaching and waking up, between which the other threads
  run; attaching and reporting are each one step, since no other operation touches a wait set in use.
  Cyclone DDS may change what is triggered at any time.  Handles are never issued twice, addresses may be.
\<close>

section \<open>The system\<close>

datatype call = Entered wait_args int | Blocked wait_args int

fun call_args :: "call \<Rightarrow> wait_args" where
  "call_args (Entered a t) = a"
| "call_args (Blocked a t) = a"

record 'd sys =
  s_heap :: heap
  s_gcdds :: gcdds
  s_dds :: 'd
  s_calls :: "ptr \<Rightarrow> call option"
  s_issued :: "dds_entity set"

text \<open>The addresses the arguments of a call, and the cache of a wait set, refer to.\<close>

definition mentions :: "wait_args \<Rightarrow> ptr set" where
  "mentions a = set (entries (a_subs a)) \<union> set (entries (a_gcs a)) \<union> set (entries (a_srvs a)) \<union> set (entries (a_cls a))
     \<union> {p. \<exists>t. Some (p, t) \<in> set (entries (a_evs a))}"

definition cached_ptrs :: "waitset \<Rightarrow> ptr set" where
  "cached_ptrs ws = set (subs ws) \<union> set (gcs ws) \<union> set (srvs ws) \<union> set (cls ws)"

definition args_ok :: "heap \<Rightarrow> wait_args \<Rightarrow> bool" where
  "args_ok H a \<longleftrightarrow> (\<exists>hs ks. arg_handles H a = Inr hs \<and> arg_keys H a = Inr ks)"

definition fresh_entity :: "'d dds_view \<Rightarrow> dds_entity set \<Rightarrow> 'd \<Rightarrow> dds_entity \<Rightarrow> 'd \<Rightarrow> bool" where
  "fresh_entity V I d e d' \<longleftrightarrow> 0 < e \<and> e \<notin> I \<and> attached V d' = (attached V d)(e := (\<lambda>_. None))
     \<and> live V d' = (live V d)(e := True)"

definition put_waitset :: "ptr \<Rightarrow> waitset \<Rightarrow> gcdds \<Rightarrow> gcdds" where
  "put_waitset k ws G = G\<lparr>waitsets := AList.update k ws (waitsets G)\<rparr>"

text \<open>
  What the users of the interface must respect when they destroy an object: no call in progress was given
  it.  With \<open>strict\<close> they must also wait for a call that has not attached its arguments yet if the object
  is still in the cache of its wait set.
\<close>

definition may_destroy :: "bool \<Rightarrow> 'd sys \<Rightarrow> ptr \<Rightarrow> bool" where
  "may_destroy strict s p \<longleftrightarrow>
     (\<forall>k c. s_calls s k = Some c \<longrightarrow> p \<notin> mentions (call_args c))
     \<and> (strict \<longrightarrow> (\<forall>k a t ws. s_calls s k = Some (Entered a t) \<longrightarrow> map_of (waitsets (s_gcdds s)) k = Some ws
          \<longrightarrow> p \<notin> cached_ptrs ws))"

inductive step :: "'d dds_api \<Rightarrow> 'd dds_view \<Rightarrow> bool \<Rightarrow> 'd sys \<Rightarrow> 'd sys \<Rightarrow> bool"
  for D :: "'d dds_api" and V :: "'d dds_view" and strict :: bool where
  environment: "same_view V (s_dds s) d' \<Longrightarrow> step D V strict s (s\<lparr>s_dds := d'\<rparr>)"
| create_object: "p \<noteq> 0 \<Longrightarrow> s_heap s p = None \<Longrightarrow> distinct (object_handles obj) \<Longrightarrow>
     set (object_handles obj) \<inter> s_issued s = {} \<Longrightarrow> attached V d' = attached V (s_dds s) \<Longrightarrow>
     live V d' = (\<lambda>e. live V (s_dds s) e \<or> e \<in> set (object_handles obj)) \<Longrightarrow>
     step D V strict s (s\<lparr>s_heap := (s_heap s)(p \<mapsto> obj), s_dds := d', s_issued := s_issued s \<union> set (object_handles obj)\<rparr>)"
| destroy: "may_destroy strict s p \<Longrightarrow>
     destroy_object D p (s_heap s) (waitsets (s_gcdds s)) (s_dds s) = Inr (H', R', d') \<Longrightarrow>
     step D V strict s (s\<lparr>s_heap := H', s_gcdds := (s_gcdds s)\<lparr>waitsets := R'\<rparr>, s_dds := d'\<rparr>)"
| create_first: "waitsets (s_gcdds s) = [] \<Longrightarrow> s_calls s k = None \<Longrightarrow>
     dds_create_waitset D (s_dds s) = (h, d1) \<Longrightarrow> fresh_entity V (s_issued s) (s_dds s) h d1 \<Longrightarrow>
     dds_create_guardcondition D d1 = (g, d2) \<Longrightarrow> fresh_entity V (insert h (s_issued s)) d1 g d2 \<Longrightarrow>
     rmw_create_wait_set D k (s_gcdds s) (s_dds s) = (Some ws, G', d') \<Longrightarrow>
     step D V strict s (s\<lparr>s_gcdds := G', s_dds := d', s_issued := insert g (insert h (s_issued s))\<rparr>)"
| create_more: "waitsets (s_gcdds s) \<noteq> [] \<Longrightarrow> map_of (waitsets (s_gcdds s)) k = None \<Longrightarrow> s_calls s k = None \<Longrightarrow>
     dds_create_waitset D (s_dds s) = (h, d1) \<Longrightarrow> fresh_entity V (s_issued s) (s_dds s) h d1 \<Longrightarrow>
     rmw_create_wait_set D k (s_gcdds s) (s_dds s) = (Some ws, G', d') \<Longrightarrow>
     step D V strict s (s\<lparr>s_gcdds := G', s_dds := d', s_issued := insert h (s_issued s)\<rparr>)"
| destroy_ws: "s_calls s k = None \<Longrightarrow> map_of (waitsets (s_gcdds s)) k = Some ws \<Longrightarrow>
     rmw_destroy_wait_set D k (s_gcdds s) (s_dds s) = (G', d') \<Longrightarrow>
     step D V strict s (s\<lparr>s_gcdds := G', s_dds := d'\<rparr>)"
| enter: "s_calls s k = None \<Longrightarrow> map_of (waitsets (s_gcdds s)) k = Some ws \<Longrightarrow> wait_enter ws = Some ws' \<Longrightarrow>
     args_ok (s_heap s) a \<Longrightarrow>
     step D V strict s (s\<lparr>s_gcdds := put_waitset k ws' (s_gcdds s), s_calls := (s_calls s)(k \<mapsto> Entered a t)\<rparr>)"
| attach: "s_calls s k = Some (Entered a t) \<Longrightarrow> map_of (waitsets (s_gcdds s)) k = Some ws \<Longrightarrow>
     wait_attach D (s_heap s) a ws (s_dds s) = Inr (True, ws', d') \<Longrightarrow>
     step D V strict s (s\<lparr>s_gcdds := put_waitset k ws' (s_gcdds s), s_dds := d', s_calls := (s_calls s)(k \<mapsto> Blocked a t)\<rparr>)"
| attach_failed: "s_calls s k = Some (Entered a t) \<Longrightarrow> map_of (waitsets (s_gcdds s)) k = Some ws \<Longrightarrow>
     wait_attach D (s_heap s) a ws (s_dds s) = Inr (False, ws', d') \<Longrightarrow>
     step D V strict s (s\<lparr>s_gcdds := put_waitset k ws' (s_gcdds s), s_dds := d', s_calls := (s_calls s)(k := None)\<rparr>)"
| return: "s_calls s k = Some (Blocked a t) \<Longrightarrow> map_of (waitsets (s_gcdds s)) k = Some ws \<Longrightarrow>
     wait_block D t ws (s_dds s) = (ws1, None) \<Longrightarrow> wait_report D (s_heap s) a ws1 (s_dds s) = Inr (a', d') \<Longrightarrow>
     wait_leave ws1 = (ret, ws') \<Longrightarrow>
     step D V strict s (s\<lparr>s_gcdds := put_waitset k ws' (s_gcdds s), s_dds := d', s_calls := (s_calls s)(k := None)\<rparr>)"
| throw: "s_calls s k = Some (Blocked a t) \<Longrightarrow> map_of (waitsets (s_gcdds s)) k = Some ws \<Longrightarrow>
     wait_block D t ws (s_dds s) = (ws', Some e) \<Longrightarrow>
     step D V strict s (s\<lparr>s_gcdds := put_waitset k ws' (s_gcdds s), s_calls := (s_calls s)(k := None)\<rparr>)"

inductive_cases stepE: "step D V strict s s'"

text \<open>Initially nothing exists.\<close>

definition initial :: "'d dds_view \<Rightarrow> 'd sys \<Rightarrow> bool" where
  "initial V s \<longleftrightarrow> s_heap s = (\<lambda>_. None) \<and> waitsets (s_gcdds s) = [] \<and> s_calls s = (\<lambda>_. None)
     \<and> (\<forall>e. live V (s_dds s) e \<longrightarrow> e \<in> s_issued s)"

inductive reachable :: "'d dds_api \<Rightarrow> 'd dds_view \<Rightarrow> bool \<Rightarrow> 'd sys \<Rightarrow> bool"
  for D :: "'d dds_api" and V :: "'d dds_view" and strict :: bool where
  start: "initial V s \<Longrightarrow> reachable D V strict s"
| further: "reachable D V strict s \<Longrightarrow> step D V strict s s' \<Longrightarrow> reachable D V strict s'"

section \<open>The invariant\<close>

text \<open>
  A wait set that no call is using is coherent, unless a call has left it marked as in use; during a
  call it is coherent until the arguments are attached and then serves them.
\<close>

definition call_ok :: "'d dds_view \<Rightarrow> heap \<Rightarrow> 'd \<Rightarrow> dds_entity set \<Rightarrow> dds_entity \<Rightarrow> call option \<Rightarrow> waitset \<Rightarrow> bool" where
  "call_ok V H d I g c ws \<longleftrightarrow>
     (case c of
        None \<Rightarrow> inuse ws \<or> coherent V H d g ws \<and> fst ` set (evs ws) \<subseteq> I
      | Some (Entered a t) \<Rightarrow> inuse ws \<and> coherent V H d g ws \<and> fst ` set (evs ws) \<subseteq> I \<and> args_ok H a
      | Some (Blocked a t) \<Rightarrow> inuse ws \<and> coherent V H d g ws \<and> fst ` set (evs ws) \<subseteq> I \<and> args_ok H a \<and> serves H a ws)"

definition objects_ok :: "'d dds_view \<Rightarrow> 'd sys \<Rightarrow> bool" where
  "objects_ok V s \<longleftrightarrow>
     (\<forall>p obj e. s_heap s p = Some obj \<longrightarrow> e \<in> set (object_handles obj) \<longrightarrow>
        live V (s_dds s) e \<and> e \<in> s_issued s \<and> e \<notin> waitseth ` snd ` set (waitsets (s_gcdds s))
        \<and> (waitsets (s_gcdds s) \<noteq> [] \<longrightarrow> e \<noteq> gc_for_empty_waitset (s_gcdds s)))
     \<and> (\<forall>p obj. s_heap s p = Some obj \<longrightarrow> distinct (object_handles obj))
     \<and> (\<forall>p q obj obj' e. s_heap s p = Some obj \<longrightarrow> s_heap s q = Some obj' \<longrightarrow> e \<in> set (object_handles obj) \<longrightarrow>
          e \<in> set (object_handles obj') \<longrightarrow> p = q)"

definition registry_ok :: "'d dds_view \<Rightarrow> 'd sys \<Rightarrow> bool" where
  "registry_ok V s \<longleftrightarrow>
     distinct (map fst (waitsets (s_gcdds s))) \<and> distinct (map (waitseth \<circ> snd) (waitsets (s_gcdds s)))
     \<and> waitseth ` snd ` set (waitsets (s_gcdds s)) \<subseteq> s_issued s
     \<and> gc_for_empty_waitset (s_gcdds s) \<notin> waitseth ` snd ` set (waitsets (s_gcdds s))
     \<and> (waitsets (s_gcdds s) \<noteq> [] \<longrightarrow> gc_for_empty_waitset (s_gcdds s) \<in> s_issued s \<and> live V (s_dds s) (gc_for_empty_waitset (s_gcdds s)))
     \<and> (\<forall>e. live V (s_dds s) e \<longrightarrow> e \<in> s_issued s)"

definition calls_ok :: "'d dds_view \<Rightarrow> 'd sys \<Rightarrow> bool" where
  "calls_ok V s \<longleftrightarrow>
     (\<forall>(k, ws) \<in> set (waitsets (s_gcdds s)).
        call_ok V (s_heap s) (s_dds s) (s_issued s) (gc_for_empty_waitset (s_gcdds s)) (s_calls s k) ws)
     \<and> (\<forall>k. s_calls s k \<noteq> None \<longrightarrow> k \<in> fst ` set (waitsets (s_gcdds s)))"

definition inv :: "'d dds_view \<Rightarrow> 'd sys \<Rightarrow> bool" where
  "inv V s \<longleftrightarrow> objects_ok V s \<and> registry_ok V s \<and> calls_ok V s"

section \<open>Carrying coherence over a step\<close>

lemma cond_handles_cong:
  assumes "\<And>p. p \<in> set ss \<union> set gs \<union> set vs \<union> set cs \<Longrightarrow> H' p = H p"
  shows "cond_handles H' ss gs vs cs = cond_handles H ss gs vs cs"
proof -
  have "map_result (sub_rdcondh H') ss = map_result (sub_rdcondh H) ss"
    "map_result (gc_gcondh H') gs = map_result (gc_gcondh H) gs"
    "map_result (srv_rdcondh H') vs = map_result (srv_rdcondh H) vs"
    "map_result (cl_rdcondh H') cs = map_result (cl_rdcondh H) cs"
    by (rule map_result_cong; simp add: handle_defs assms)+
  then show ?thesis by (simp add: cond_handles_def)
qed

lemma cached_handles_cong: "(\<And>p. p \<in> cached_ptrs ws \<Longrightarrow> H' p = H p) \<Longrightarrow> cached_handles H' ws = cached_handles H ws"
  unfolding cached_handles_def by (rule cond_handles_cong) (simp add: cached_ptrs_def)

lemma args_cong:
  assumes "\<And>p. p \<in> mentions a \<Longrightarrow> H' p = H p"
  shows "arg_handles H' a = arg_handles H a" "arg_keys H' a = arg_keys H a"
proof -
  show "arg_handles H' a = arg_handles H a"
    unfolding arg_handles_def by (rule cond_handles_cong) (use assms in \<open>auto simp: mentions_def\<close>)
  show "arg_keys H' a = arg_keys H a"
    unfolding arg_keys_def
  proof (rule map_result_cong)
    fix x assume x: "x \<in> set (entries (a_evs a))"
    have "H' p = H p" if "x = Some (p, t)" for p t using that x assms by (auto simp: mentions_def)
    then show "event_key H' x = event_key H x"
      by (simp add: event_key_def entity_enth_def split: option.split)
  qed
qed

lemma cond_handles_heap:
  assumes "cond_handles H ss gs vs cs = Inr hs" "e \<in> set hs"
  shows "\<exists>p obj. H p = Some obj \<and> e \<in> set (object_handles obj)"
proof -
  obtain h1 h2 h3 h4 where h: "map_result (sub_rdcondh H) ss = Inr h1" "map_result (gc_gcondh H) gs = Inr h2"
    "map_result (srv_rdcondh H) vs = Inr h3" "map_result (cl_rdcondh H) cs = Inr h4" "hs = h1 @ h2 @ h3 @ h4"
    using assms(1) by (auto simp: cond_handles_def rbind_eq_Inr)
  then consider "e \<in> set h1" | "e \<in> set h2" | "e \<in> set h3" | "e \<in> set h4" using assms(2) by auto
  then have "\<exists>p. sub_rdcondh H p = Inr e \<or> gc_gcondh H p = Inr e \<or> srv_rdcondh H p = Inr e \<or> cl_rdcondh H p = Inr e \<or> entity_enth H p = Inr e"
    by cases (auto dest: map_result_in [OF h(1)] map_result_in [OF h(2)] map_result_in [OF h(3)] map_result_in [OF h(4)])
  then obtain p where "sub_rdcondh H p = Inr e \<or> gc_gcondh H p = Inr e \<or> srv_rdcondh H p = Inr e \<or> cl_rdcondh H p = Inr e \<or> entity_enth H p = Inr e" ..
  then show ?thesis by (intro exI [of _ p] handle_of_object)
qed

lemma arg_keys_heap:
  assumes "arg_keys H a = Inr ks" "k \<in> set ks"
  shows "\<exists>p obj. H p = Some obj \<and> fst k \<in> set (object_handles obj)"
proof -
  obtain ev where "event_key H ev = Inr k"
    using map_result_in [OF assms(1) [unfolded arg_keys_def] assms(2)] by blast
  then obtain p where "entity_enth H p = Inr (fst k)"
    by (auto simp: event_key_def rbind_eq_Inr dangling_def split: option.splits prod.splits)
  then show ?thesis using handle_of_object by blast
qed

lemma coherent_transfer:
  assumes "coherent V H d g ws" "cyclone D V" "fst ` set (evs ws) \<subseteq> I"
    and "\<And>p. p \<in> cached_ptrs ws \<Longrightarrow> H' p = H p"
    and "\<And>p obj. H p = Some obj \<Longrightarrow> set (object_handles obj) \<subseteq> I"
    and "\<And>e. live V d' e \<Longrightarrow> attached V d' (waitseth ws) e = attached V d (waitseth ws) e"
    and "\<And>e. live V d' e \<Longrightarrow> live V d e \<or> e \<notin> I"
    and "live V d' g"
  shows "coherent V H' d' g ws"
proof -
  obtain hs es where c: "cached_handles H ws = Inr hs" "distinct es" "set es = event_entities (evs ws)"
    "nelems ws = length (hs @ es)" "g \<notin> fst ` set (evs ws)" "attachments V d g (waitseth ws) (hs @ es)"
    using assms(1) by (auto simp: coherent_def)
  have "set hs \<subseteq> I"
  proof
    fix e assume "e \<in> set hs"
    then obtain p obj where "H p = Some obj" "e \<in> set (object_handles obj)"
      using cond_handles_heap [OF c(1) [unfolded cached_handles_def]] by blast
    then show "e \<in> I" using assms(5) by (meson subsetD)
  qed
  moreover have "set es \<subseteq> I" using assms(3) c(3) event_entities_subset [of "evs ws"] by simp
  ultimately have sub: "set (hs @ es) \<subseteq> I" by simp
  have "attached V d' (waitseth ws) e = attach_map (hs @ es) 0 e" if e: "e \<noteq> g" "live V d' e" for e
  proof (cases "live V d e")
    case True
    then show ?thesis using c(6) assms(6) e by (simp add: attachments_def)
  next
    case False
    then have "e \<notin> I" using assms(7) e(2) by blast
    then have "attach_map (hs @ es) 0 e = None" using sub attach_map_None by blast
    then show ?thesis using assms(6) [OF e(2)] cyclone_live [OF assms(2) False] by simp
  qed
  moreover have "attached V d' (waitseth ws) g = Some INTPTR_MAX" using c(6) assms(6,8) by (simp add: attachments_def)
  ultimately have "attachments V d' g (waitseth ws) (hs @ es)" using c(6) by (simp add: attachments_def)
  then show ?thesis
    using c cached_handles_cong [OF assms(4)] by (auto simp: coherent_def intro: exI [of _ hs] exI [of _ es])
qed

lemma coherent_cleared: "attachments V d g (waitseth ws) [] \<Longrightarrow> coherent V H d g (cleared ws)"
  by (simp add: coherent_def cleared_def cached_handles_def cond_handles_def)

lemma call_ok_transfer:
  assumes "call_ok V H d I g c ws" "cyclone D V"
    and "\<And>p. p \<in> cached_ptrs ws \<Longrightarrow> c = None \<and> \<not> inuse ws \<or> (\<exists>a t. c = Some (Entered a t)) \<Longrightarrow> H' p = H p"
    and "\<And>x p. c = Some x \<Longrightarrow> p \<in> mentions (call_args x) \<Longrightarrow> H' p = H p"
    and "\<And>p obj. H p = Some obj \<Longrightarrow> set (object_handles obj) \<subseteq> I"
    and "\<And>e. live V d' e \<Longrightarrow> attached V d' (waitseth ws) e = attached V d (waitseth ws) e"
    and "\<And>e. live V d' e \<Longrightarrow> live V d e \<or> e \<notin> I"
    and "live V d' g" "I \<subseteq> I'"
  shows "call_ok V H' d' I' g c ws"
proof -
  have co: "coherent V H' d' g ws" if "coherent V H d g ws" "fst ` set (evs ws) \<subseteq> I" "\<And>p. p \<in> cached_ptrs ws \<Longrightarrow> H' p = H p"
    by (rule coherent_transfer [OF that(1) assms(2) that(2,3) assms(5-8)])
  show ?thesis
  proof (cases c)
    case None
    then show ?thesis using assms(1,3,9) co by (cases "inuse ws") (auto simp: call_ok_def)
  next
    case (Some x)
    have args: "arg_handles H' (call_args x) = arg_handles H (call_args x)" "arg_keys H' (call_args x) = arg_keys H (call_args x)"
      by (rule args_cong; use assms(4) [OF Some] in blast)+
    show ?thesis
    proof (cases x)
      case (Entered a t)
      have "\<And>p. p \<in> cached_ptrs ws \<Longrightarrow> H' p = H p" using assms(3) Some Entered by blast
      then show ?thesis using assms(1,9) Some Entered args co by (auto simp: call_ok_def args_ok_def)
    next
      case (Blocked a t)
      then have sv: "serves H a ws" using assms(1) Some by (simp add: call_ok_def)
      have "\<And>p. p \<in> cached_ptrs ws \<Longrightarrow> H' p = H p"
        using assms(4) [OF Some] Blocked sv by (auto simp: serves_def cached_ptrs_def mentions_def)
      then show ?thesis using assms(1,9) Some Blocked args co by (auto simp: call_ok_def args_ok_def serves_def)
    qed
  qed
qed

section \<open>Every step keeps the invariant\<close>

lemma update_entries:
  assumes "map_of R k = Some ws" "distinct (map fst R)"
  shows "set (AList.update k ws' R) = insert (k, ws') {x \<in> set R. fst x \<noteq> k}"
    and "map fst (AList.update k ws' R) = map fst R"
    and "f ws' = f ws \<Longrightarrow> map (f \<circ> snd) (AList.update k ws' R) = map (f \<circ> snd) R"
  using assms by (induction R) (force split: if_splits)+

lemma set_map_snd: "f ` snd ` set R = set (map (f \<circ> snd) R)"
  by (simp add: image_image)

lemma registered: "map_of R k = Some ws \<Longrightarrow> (k, ws) \<in> set R"
  by (rule map_of_SomeD)

lemma other_waitseth:
  assumes "distinct (map (waitseth \<circ> snd) R)" "(k, ws) \<in> set R" "(k', ws') \<in> set R" "k \<noteq> k'"
  shows "waitseth ws \<noteq> waitseth ws'"
proof
  assume "waitseth ws = waitseth ws'"
  then have "(k, ws) = (k', ws')"
    using assms(1) inj_onD [of "waitseth \<circ> snd" "set R" "(k, ws)" "(k', ws')"] assms(2,3) by (simp add: distinct_map)
  with assms(4) show False by simp
qed

lemma coherent_cong:
  assumes "attached V d' (waitseth ws) = attached V d (waitseth ws)" "live V d' = live V d"
    and "waitseth ws' = waitseth ws" "evs ws' = evs ws" "nelems ws' = nelems ws" "subs ws' = subs ws" "gcs ws' = gcs ws"
    "srvs ws' = srvs ws" "cls ws' = cls ws"
  shows "coherent V H d' g ws' = coherent V H d g ws"
  using assms by (simp add: coherent_def attachments_def cached_handles_def)

lemma inv_facts:
  assumes "inv V s" "map_of (waitsets (s_gcdds s)) k = Some ws"
  shows "call_ok V (s_heap s) (s_dds s) (s_issued s) (gc_for_empty_waitset (s_gcdds s)) (s_calls s k) ws"
    and "\<And>p obj. s_heap s p = Some obj \<Longrightarrow> set (object_handles obj) \<subseteq> s_issued s"
    and "live V (s_dds s) (gc_for_empty_waitset (s_gcdds s))"
    and "distinct (map fst (waitsets (s_gcdds s)))" "distinct (map (waitseth \<circ> snd) (waitsets (s_gcdds s)))"
  using assms registered [OF assms(2)]
  by (auto simp: inv_def calls_ok_def objects_ok_def registry_ok_def)

lemma args_ok_valid:
  assumes "inv V s" "waitsets (s_gcdds s) \<noteq> []" "args_ok (s_heap s) a"
  shows "args_valid V (s_heap s) (s_dds s) (gc_for_empty_waitset (s_gcdds s)) a"
    and "arg_keys (s_heap s) a = Inr ks \<Longrightarrow> fst ` set ks \<subseteq> s_issued s"
proof -
  have ob: "live V (s_dds s) e \<and> e \<noteq> gc_for_empty_waitset (s_gcdds s) \<and> e \<in> s_issued s"
    if "s_heap s p = Some obj" "e \<in> set (object_handles obj)" for p obj e
    using assms(1,2) that by (auto simp: inv_def objects_ok_def)
  obtain hs ks where h: "arg_handles (s_heap s) a = Inr hs" "arg_keys (s_heap s) a = Inr ks"
    using assms(3) by (auto simp: args_ok_def)
  have 1: "live V (s_dds s) e \<and> e \<noteq> gc_for_empty_waitset (s_gcdds s)" if "e \<in> set hs" for e
    using cond_handles_heap [OF h(1) [unfolded arg_handles_def] that] ob by blast
  have 2: "live V (s_dds s) (fst k) \<and> fst k \<noteq> gc_for_empty_waitset (s_gcdds s) \<and> fst k \<in> s_issued s" if "k \<in> set ks" for k
    using arg_keys_heap [OF h(2) that] ob by blast
  show "args_valid V (s_heap s) (s_dds s) (gc_for_empty_waitset (s_gcdds s)) a"
    using h 1 2 by (auto simp: args_valid_def)
  show "arg_keys (s_heap s) a = Inr ks \<Longrightarrow> fst ` set ks \<subseteq> s_issued s" for ks
    using h(2) 2 by auto
qed

text \<open>A step on one registered wait set.\<close>

lemma inv_put:
  assumes i: "inv V s" and r: "map_of (waitsets (s_gcdds s)) k = Some ws" and w: "waitseth ws' = waitseth ws"
    and cy: "cyclone D V" and lv: "live V d' = live V (s_dds s)"
    and at: "\<And>w. w \<noteq> waitseth ws \<Longrightarrow> attached V d' w = attached V (s_dds s) w"
    and c: "call_ok V (s_heap s) d' (s_issued s) (gc_for_empty_waitset (s_gcdds s)) c ws'"
  shows "inv V (s\<lparr>s_gcdds := put_waitset k ws' (s_gcdds s), s_dds := d', s_calls := (s_calls s)(k := c)\<rparr>)"
proof -
  let ?R = "waitsets (s_gcdds s)" and ?R' = "AList.update k ws' (waitsets (s_gcdds s))"
  note f = inv_facts [OF i r]
  note u = update_entries(1,2) [where ws' = ws', OF r f(4)] update_entries(3) [where f = waitseth, OF r f(4) w]
  have ws: "waitseth ` snd ` set ?R' = waitseth ` snd ` set ?R" by (simp only: set_map_snd u(3))
  have ne: "?R \<noteq> []" using r by auto
  have keys: "fst ` set ?R' = fst ` set ?R" using u(2) by (metis set_map)
  have "objects_ok V (s\<lparr>s_gcdds := put_waitset k ws' (s_gcdds s), s_dds := d', s_calls := (s_calls s)(k := c)\<rparr>)"
    using i unfolding inv_def objects_ok_def by (simp add: put_waitset_def ws ne lv)
  moreover have "registry_ok V (s\<lparr>s_gcdds := put_waitset k ws' (s_gcdds s), s_dds := d', s_calls := (s_calls s)(k := c)\<rparr>)"
    using i unfolding inv_def registry_ok_def by (simp add: put_waitset_def ws ne lv u(2,3))
  moreover have "call_ok V (s_heap s) d' (s_issued s) (gc_for_empty_waitset (s_gcdds s)) (s_calls s k') v"
    if "(k', v) \<in> set ?R" "k' \<noteq> k" for k' v
  proof -
    have "map_of ?R k' = Some v" using that(1) f(4) by simp
    then have "call_ok V (s_heap s) (s_dds s) (s_issued s) (gc_for_empty_waitset (s_gcdds s)) (s_calls s k') v"
      by (rule inv_facts(1) [OF i])
    then show ?thesis
    proof (rule call_ok_transfer [OF _ cy])
      show "attached V d' (waitseth v) e = attached V (s_dds s) (waitseth v) e" for e
        using at other_waitseth [OF f(5) that(1) registered [OF r] that(2)] by simp
    qed (use f(2,3) lv in auto)
  qed
  ultimately show ?thesis using i c keys
    by (auto simp: inv_def calls_ok_def put_waitset_def u(1) image_iff)
qed

lemma wait_block_fields: "wait_block D t ws d = (ws1, r) \<Longrightarrow> \<exists>x. ws1 = ws\<lparr>trigs := x\<rparr>"
  by (auto simp: wait_block_def Let_def split: prod.splits if_splits)

lemma report_guards_view:
  assumes "cyclone D V"
  shows "report_guards D H tr xs i n d = Inr (xs', j, m, d') \<Longrightarrow> same_view V d d'"
proof (induction xs arbitrary: i n d xs')
  case Nil
  then show ?case by (simp add: same_view_def)
next
  case (Cons x xs)
  show ?case
  proof (cases "tr ! i = int n")
    case True
    then obtain g xs'' where "report_guards D H tr xs (i + 1) (n + 1) (dds_take_guardcondition D g d) = Inr (xs'', j, m, d')"
      using Cons.prems by (auto simp: rbind_eq_Inr split: if_splits)
    from Cons.IH [OF this] show ?thesis by (simp add: same_view_def cyclone_same [OF assms])
  next
    case False
    then obtain xs'' where "report_guards D H tr xs i (n + 1) d = Inr (xs'', j, m, d')"
      using Cons.prems by (auto simp: rbind_eq_Inr split: if_splits)
    from Cons.IH [OF this] show ?thesis .
  qed
qed

lemma wait_report_view:
  assumes "cyclone D V" "wait_report D H a ws d = Inr (a', d')"
  shows "same_view V d d'"
  using assms(2) report_guards_view [OF assms(1)] by (auto simp: wait_report_def rbind_eq_Inr split: prod.splits)

lemma inv_enter:
  assumes "inv V s" "cyclone D V" "s_calls s k = None" "map_of (waitsets (s_gcdds s)) k = Some ws" "wait_enter ws = Some ws'"
    "args_ok (s_heap s) a"
  shows "inv V (s\<lparr>s_gcdds := put_waitset k ws' (s_gcdds s), s_calls := (s_calls s)(k \<mapsto> Entered a t)\<rparr>)"
proof -
  have w: "ws' = ws\<lparr>inuse := True\<rparr>" "\<not> inuse ws" using assms(5) by (auto simp: wait_enter_def split: if_splits)
  have "coherent V (s_heap s) (s_dds s) (gc_for_empty_waitset (s_gcdds s)) ws'
      = coherent V (s_heap s) (s_dds s) (gc_for_empty_waitset (s_gcdds s)) ws"
    by (rule coherent_cong) (simp_all add: w(1))
  then have c: "call_ok V (s_heap s) (s_dds s) (s_issued s) (gc_for_empty_waitset (s_gcdds s)) (Some (Entered a t)) ws'"
    using inv_facts(1) [OF assms(1,4)] assms(3,6) w by (simp add: call_ok_def)
  have "waitseth ws' = waitseth ws" by (simp add: w(1))
  from inv_put [OF assms(1,4) this assms(2) refl refl c] show ?thesis by simp
qed

lemma inv_attach:
  assumes "inv V s" "cyclone D V" "s_calls s k = Some (Entered a t)" "map_of (waitsets (s_gcdds s)) k = Some ws"
    "wait_attach D (s_heap s) a ws (s_dds s) = Inr (ok, ws', d')"
  shows "inv V (s\<lparr>s_gcdds := put_waitset k ws' (s_gcdds s), s_dds := d',
    s_calls := (s_calls s)(k := if ok then Some (Blocked a t) else None)\<rparr>)"
proof -
  let ?g = "gc_for_empty_waitset (s_gcdds s)"
  have c: "inuse ws" "coherent V (s_heap s) (s_dds s) ?g ws" "args_ok (s_heap s) a"
    using inv_facts(1) [OF assms(1,4)] assms(3) by (auto simp: call_ok_def)
  have ne: "waitsets (s_gcdds s) \<noteq> []" using assms(4) by auto
  note av = args_ok_valid [OF assms(1) ne c(3)]
  have r: "waitseth ws' = waitseth ws" "inuse ws'" "live V d' = live V (s_dds s)"
    "\<And>w. w \<noteq> waitseth ws \<Longrightarrow> attached V d' w = attached V (s_dds s) w"
    "ok \<Longrightarrow> coherent V (s_heap s) d' ?g ws'" "ok \<Longrightarrow> serves (s_heap s) a ws'"
    using wait_attach_ok [OF assms(2) c(2) av(1)] assms(5) c(1) by auto
  have "call_ok V (s_heap s) d' (s_issued s) ?g (if ok then Some (Blocked a t) else None) ws'"
    using r(2,5,6) c(3) av(2) by (auto simp: call_ok_def serves_def)
  from inv_put [OF assms(1,4) r(1) assms(2) r(3,4) this] show ?thesis .
qed

lemma inv_return:
  assumes "inv V s" "cyclone D V" "s_calls s k = Some (Blocked a t)" "map_of (waitsets (s_gcdds s)) k = Some ws"
    "wait_block D t ws (s_dds s) = (ws1, None)" "wait_report D (s_heap s) a ws1 (s_dds s) = Inr (a', d')"
    "wait_leave ws1 = (ret, ws')"
  shows "inv V (s\<lparr>s_gcdds := put_waitset k ws' (s_gcdds s), s_dds := d', s_calls := (s_calls s)(k := None)\<rparr>)"
proof -
  let ?g = "gc_for_empty_waitset (s_gcdds s)"
  obtain x where x: "ws' = ws\<lparr>trigs := x, inuse := False\<rparr>"
    using wait_block_fields [OF assms(5)] assms(7) by (auto simp: wait_leave_def)
  have v: "attached V d' = attached V (s_dds s)" "live V d' = live V (s_dds s)"
    using wait_report_view [OF assms(2,6)] by (simp_all add: same_view_def)
  have "coherent V (s_heap s) d' ?g ws' = coherent V (s_heap s) (s_dds s) ?g ws"
    by (rule coherent_cong) (simp_all add: x v)
  then have c: "call_ok V (s_heap s) d' (s_issued s) ?g None ws'"
    using inv_facts(1) [OF assms(1,4)] assms(3) x by (auto simp: call_ok_def)
  have w: "waitseth ws' = waitseth ws" by (simp add: x)
  have "attached V d' w = attached V (s_dds s) w" for w by (simp add: v)
  from inv_put [OF assms(1,4) w assms(2) v(2) this c] show ?thesis .
qed

lemma inv_throw:
  assumes "inv V s" "cyclone D V" "s_calls s k = Some (Blocked a t)" "map_of (waitsets (s_gcdds s)) k = Some ws"
    "wait_block D t ws (s_dds s) = (ws', Some e)"
  shows "inv V (s\<lparr>s_gcdds := put_waitset k ws' (s_gcdds s), s_calls := (s_calls s)(k := None)\<rparr>)"
proof -
  let ?g = "gc_for_empty_waitset (s_gcdds s)"
  obtain x where x: "ws' = ws\<lparr>trigs := x\<rparr>" using wait_block_fields [OF assms(5)] by blast
  have c: "call_ok V (s_heap s) (s_dds s) (s_issued s) ?g None ws'"
    using inv_facts(1) [OF assms(1,4)] assms(3) x by (auto simp: call_ok_def)
  have w: "waitseth ws' = waitseth ws" by (simp add: x)
  from inv_put [OF assms(1,4) w assms(2) refl refl c] show ?thesis by simp
qed

lemma handles_ok_live:
  "cond_handles H ss gs vs cs = Inr hs \<Longrightarrow> p \<in> set ss \<union> set gs \<union> set vs \<union> set cs \<Longrightarrow>
     H p \<noteq> None \<and> (\<forall>e. H p \<noteq> Some (CddsPublisher e))"
proof -
  assume "cond_handles H ss gs vs cs = Inr hs" and p: "p \<in> set ss \<union> set gs \<union> set vs \<union> set cs"
  then obtain h1 h2 h3 h4 where h: "map_result (sub_rdcondh H) ss = Inr h1" "map_result (gc_gcondh H) gs = Inr h2"
    "map_result (srv_rdcondh H) vs = Inr h3" "map_result (cl_rdcondh H) cs = Inr h4"
    by (auto simp: cond_handles_def rbind_eq_Inr)
  have "\<exists>y. f p = Inr y" if "map_result f xs = Inr ys" "p \<in> set xs" for f :: "ptr \<Rightarrow> dds_entity result" and xs ys
    using map_result_ex [of f xs] that by auto
  then have "\<exists>y. sub_rdcondh H p = Inr y \<or> gc_gcondh H p = Inr y \<or> srv_rdcondh H p = Inr y \<or> cl_rdcondh H p = Inr y"
    using p h by blast
  then show ?thesis by (cases "H p") (auto simp: handle_defs dangling_def split: cdds_object.splits)
qed

lemma coherent_ptrs: "coherent V H d g ws \<Longrightarrow> p \<in> cached_ptrs ws \<Longrightarrow> H p \<noteq> None \<and> (\<forall>e. H p \<noteq> Some (CddsPublisher e))"
  using handles_ok_live [of H "subs ws" "gcs ws" "srvs ws" "cls ws"]
  by (auto simp: coherent_def cached_handles_def cached_ptrs_def)

lemma args_ptrs:
  assumes "args_ok H a" "p \<in> mentions a"
  shows "H p \<noteq> None"
proof -
  obtain hs ks where h: "arg_handles H a = Inr hs" "arg_keys H a = Inr ks" using assms(1) by (auto simp: args_ok_def)
  show ?thesis
  proof (cases "\<exists>t. Some (p, t) \<in> set (entries (a_evs a))")
    case True
    then obtain t where t: "Some (p, t) \<in> set (entries (a_evs a))" ..
    then obtain y where "event_key H (Some (p, t)) = Inr y"
      using h(2) map_result_ex [of "event_key H" "entries (a_evs a)"] by (auto simp: arg_keys_def)
    then show ?thesis by (auto simp: event_key_def rbind_eq_Inr entity_enth_def dangling_def split: option.splits)
  next
    case False
    then show ?thesis
      using assms(2) handles_ok_live [OF h(1) [unfolded arg_handles_def]] by (auto simp: mentions_def)
  qed
qed

lemma call_ok_args: "call_ok V H d I g (Some x) ws \<Longrightarrow> args_ok H (call_args x)"
  by (cases x) (simp_all add: call_ok_def)

lemma inv_environment:
  assumes "inv V s" "same_view V (s_dds s) d'"
  shows "inv V (s\<lparr>s_dds := d'\<rparr>)"
proof -
  have v: "attached V d' = attached V (s_dds s)" "live V d' = live V (s_dds s)"
    using assms(2) by (simp_all add: same_view_def)
  have "coherent V H d' g ws = coherent V H (s_dds s) g ws" for H g ws by (rule coherent_cong) (simp_all add: v)
  then have "call_ok V H d' I g c ws = call_ok V H (s_dds s) I g c ws" for H I g c ws
    by (simp add: call_ok_def split: option.split call.split)
  then show ?thesis using assms(1) by (simp add: inv_def objects_ok_def registry_ok_def calls_ok_def v)
qed

lemma objects_okI:
  assumes "\<And>p obj e. s_heap s p = Some obj \<Longrightarrow> e \<in> set (object_handles obj) \<Longrightarrow>
       live V (s_dds s) e \<and> e \<in> s_issued s \<and> e \<notin> waitseth ` snd ` set (waitsets (s_gcdds s))
       \<and> (waitsets (s_gcdds s) \<noteq> [] \<longrightarrow> e \<noteq> gc_for_empty_waitset (s_gcdds s))"
    and "\<And>p obj. s_heap s p = Some obj \<Longrightarrow> distinct (object_handles obj)"
    and "\<And>p q obj obj' e. s_heap s p = Some obj \<Longrightarrow> s_heap s q = Some obj' \<Longrightarrow> e \<in> set (object_handles obj) \<Longrightarrow>
       e \<in> set (object_handles obj') \<Longrightarrow> p = q"
  shows "objects_ok V s"
  unfolding objects_ok_def by (intro conjI allI impI; (use assms in metis)?)

lemma inv_create_object:
  assumes i: "inv V s" and cy: "cyclone D V" and p: "s_heap s p = None" and di: "distinct (object_handles obj)"
    and fr: "set (object_handles obj) \<inter> s_issued s = {}" and at: "attached V d' = attached V (s_dds s)"
    and lv: "live V d' = (\<lambda>e. live V (s_dds s) e \<or> e \<in> set (object_handles obj))"
  shows "inv V (s\<lparr>s_heap := (s_heap s)(p \<mapsto> obj), s_dds := d', s_issued := s_issued s \<union> set (object_handles obj)\<rparr>)"
proof -
  let ?s = "s\<lparr>s_heap := (s_heap s)(p \<mapsto> obj), s_dds := d', s_issued := s_issued s \<union> set (object_handles obj)\<rparr>"
  have o: "objects_ok V s" and r: "registry_ok V s" and c: "calls_ok V s" using i by (simp_all add: inv_def)
  have new: "e \<notin> s_issued s" if "e \<in> set (object_handles obj)" for e using fr that by blast
  have old: "e \<in> s_issued s" if "s_heap s q = Some ob" "e \<in> set (object_handles ob)" for q ob e
    using o that by (auto simp: objects_ok_def)
  have o1: "live V (s_dds ?s) e \<and> e \<in> s_issued ?s \<and> e \<notin> waitseth ` snd ` set (waitsets (s_gcdds ?s))
      \<and> (waitsets (s_gcdds ?s) \<noteq> [] \<longrightarrow> e \<noteq> gc_for_empty_waitset (s_gcdds ?s))"
    if q: "s_heap ?s q = Some ob" "e \<in> set (object_handles ob)" for q ob e
  proof (cases "q = p")
    case True
    then show ?thesis using q new [of e] r by (auto simp: lv registry_ok_def)
  next
    case False
    then show ?thesis using q o by (auto simp: lv objects_ok_def)
  qed
  have o2: "distinct (object_handles ob)" if "s_heap ?s q = Some ob" for q ob
    using that o di by (cases "q = p") (auto simp: objects_ok_def)
  have o3: "q = q'" if "s_heap ?s q = Some ob" "s_heap ?s q' = Some ob'" "e \<in> set (object_handles ob)"
    "e \<in> set (object_handles ob')" for q q' ob ob' e
  proof (rule ccontr)
    assume "q \<noteq> q'"
    then consider "q = p" "q' \<noteq> p" | "q' = p" "q \<noteq> p" | "q \<noteq> p" "q' \<noteq> p" by blast
    then show False
    proof cases
      case 1
      then show ?thesis using that new [of e] old [of q' ob' e] by simp
    next
      case 2
      then show ?thesis using that new [of e] old [of q ob e] by simp
    next
      case 3
      then have "s_heap s q = Some ob" "s_heap s q' = Some ob'" using that by simp_all
      then show ?thesis using o that(3,4) \<open>q \<noteq> q'\<close> unfolding objects_ok_def by blast
    qed
  qed
  have "objects_ok V ?s" by (rule objects_okI [OF o1 o2 o3])
  moreover have "registry_ok V ?s" using r unfolding registry_ok_def by (auto simp: lv)
  moreover have "call_ok V (s_heap ?s) d' (s_issued ?s) (gc_for_empty_waitset (s_gcdds s)) (s_calls s k) ws"
    if kw: "(k, ws) \<in> set (waitsets (s_gcdds s))" for k ws
  proof -
    have k: "call_ok V (s_heap s) (s_dds s) (s_issued s) (gc_for_empty_waitset (s_gcdds s)) (s_calls s k) ws"
      using c kw by (auto simp: calls_ok_def)
    show ?thesis
    proof (rule call_ok_transfer [OF k cy])
      fix q assume q: "q \<in> cached_ptrs ws" and st: "s_calls s k = None \<and> \<not> inuse ws \<or> (\<exists>a t. s_calls s k = Some (Entered a t))"
      have "coherent V (s_heap s) (s_dds s) (gc_for_empty_waitset (s_gcdds s)) ws" using k st by (auto simp: call_ok_def)
      from coherent_ptrs [OF this q] show "s_heap ?s q = s_heap s q" using p by auto
    next
      fix x q assume x: "s_calls s k = Some x" and q: "q \<in> mentions (call_args x)"
      have "args_ok (s_heap s) (call_args x)" using k x call_ok_args by metis
      from args_ptrs [OF this q] show "s_heap ?s q = s_heap s q" using p by auto
    next
      show "live V d' (gc_for_empty_waitset (s_gcdds s))" using r kw by (auto simp: registry_ok_def lv)
    qed (use old new in \<open>auto simp: at lv\<close>)
  qed
  ultimately show ?thesis using c by (auto simp: inv_def calls_ok_def)
qed

text \<open>Dropping the caches: a wait set in use is left alone, any other one is cleared.\<close>

definition swept :: "waitset \<Rightarrow> waitset" where
  "swept ws = (if inuse ws then ws else cleared ws)"

lemma swept_simps [simp]: "waitseth (swept ws) = waitseth ws" "inuse (swept ws) = inuse ws"
  by (simp_all add: swept_def cleared_def)

lemma clean_caches:
  assumes "cyclone D V" "distinct (map (waitseth \<circ> snd) R)"
    and "\<And>k ws. (k, ws) \<in> set R \<Longrightarrow> \<not> inuse ws \<Longrightarrow> coherent V H d g ws"
  shows "\<exists>d'. clean_waitset_caches D H R d = Inr (map (\<lambda>(k, ws). (k, swept ws)) R, d') \<and> live V d' = live V d
    \<and> (\<forall>w. (\<forall>(k, ws) \<in> set R. inuse ws \<or> waitseth ws \<noteq> w) \<longrightarrow> attached V d' w = attached V d w)
    \<and> (\<forall>(k, ws) \<in> set R. \<not> inuse ws \<longrightarrow> attachments V d' g (waitseth ws) [])"
  using assms(2,3)
proof (induction R arbitrary: d)
  case Nil
  then show ?case by simp
next
  case (Cons x R)
  obtain k ws where x: "x = (k, ws)" by (cases x)
  have ne: "waitseth v \<noteq> waitseth ws" if "(l, v) \<in> set R" for l v
    using Cons.prems(1) that by (force simp: x)
  show ?case
  proof (cases "inuse ws")
    case True
    obtain d' where "clean_waitset_caches D H R d = Inr (map (\<lambda>(k, ws). (k, swept ws)) R, d')" "live V d' = live V d"
      "\<forall>w. (\<forall>(k, ws) \<in> set R. inuse ws \<or> waitseth ws \<noteq> w) \<longrightarrow> attached V d' w = attached V d w"
      "\<forall>(k, ws) \<in> set R. \<not> inuse ws \<longrightarrow> attachments V d' g (waitseth ws) []"
      using Cons.IH [of d] Cons.prems by (auto simp: x)
    then show ?thesis using True by (simp add: x swept_def)
  next
    case False
    have co: "coherent V H d g ws" using Cons.prems(2) [of k ws] False by (simp add: x)
    then obtain hs where "cached_handles H ws = Inr hs" by (auto simp: coherent_def)
    then obtain d1 where d1: "waitset_detach D H ws d = Inr (cleared ws, d1)" using waitset_detach_ok [OF assms(1)] by blast
    note cl = attachments_cleared [OF co assms(1) d1]
    have "coherent V H d1 g v" if "(l, v) \<in> set R" "\<not> inuse v" for l v
    proof -
      have "coherent V H d1 g v = coherent V H d g v" by (rule coherent_cong) (simp_all add: cl(2,4) ne [OF that(1)])
      then show ?thesis using Cons.prems(2) [of l v] that by (simp add: x)
    qed
    then obtain d' where d': "clean_waitset_caches D H R d1 = Inr (map (\<lambda>(k, ws). (k, swept ws)) R, d')" "live V d' = live V d1"
      "\<forall>w. (\<forall>(k, ws) \<in> set R. inuse ws \<or> waitseth ws \<noteq> w) \<longrightarrow> attached V d' w = attached V d1 w"
      "\<forall>(k, ws) \<in> set R. \<not> inuse ws \<longrightarrow> attachments V d' g (waitseth ws) []"
      using Cons.IH [of d1] Cons.prems(1) by (auto simp: x)
    have "\<forall>(l, v) \<in> set R. inuse v \<or> waitseth v \<noteq> waitseth ws" using ne by auto
    then have "attached V d' (waitseth ws) = attached V d1 (waitseth ws)" using d'(3) by blast
    then have "attachments V d' g (waitseth ws) []" using cl(3) d'(2) by (simp add: attachments_def)
    moreover have "attached V d' w = attached V d w" if "\<forall>(k, ws) \<in> set (x # R). inuse ws \<or> waitseth ws \<noteq> w" for w
      using that d'(3) cl(4) False by (auto simp: x)
    ultimately show ?thesis using False d1 d'(1,2,4) cl(2) by (auto simp: x swept_def)
  qed
qed

lemma delete_handles_view:
  assumes "cyclone D V"
  shows "live V (delete_handles D es d) = (\<lambda>e. live V d e \<and> e \<notin> set es)"
    and "attached V (delete_handles D es d) = (\<lambda>w. if w \<in> set es then (\<lambda>_. None)
          else (\<lambda>e. if e \<in> set es then None else attached V d w e))"
proof -
  have "live V (delete_handles D es d) = (\<lambda>e. live V d e \<and> e \<notin> set es) \<and>
    attached V (delete_handles D es d) = (\<lambda>w. if w \<in> set es then (\<lambda>_. None)
          else (\<lambda>e. if e \<in> set es then None else attached V d w e))"
    by (induction es arbitrary: d) (auto simp: cyclone_delete [OF assms] fun_eq_iff)
  then show "live V (delete_handles D es d) = (\<lambda>e. live V d e \<and> e \<notin> set es)"
    and "attached V (delete_handles D es d) = (\<lambda>w. if w \<in> set es then (\<lambda>_. None)
          else (\<lambda>e. if e \<in> set es then None else attached V d w e))" by blast+
qed

text \<open>What destroying an object does: to each wait set either nothing or a sweep.\<close>

definition unswept :: "'d dds_view \<Rightarrow> 'd \<Rightarrow> 'd \<Rightarrow> dds_entity \<Rightarrow> cdds_object \<Rightarrow> waitset \<Rightarrow> waitset \<Rightarrow> bool" where
  "unswept V d d1 g obj ws ws' \<longleftrightarrow>
     ws' = ws \<and> attached V d1 (waitseth ws) = attached V d (waitseth ws) \<and> (inuse ws \<or> (\<exists>e. obj = CddsPublisher e))
     \<or> \<not> inuse ws \<and> ws' = cleared ws \<and> attachments V d1 g (waitseth ws) []"

lemma destroy_object_effect:
  assumes "inv V s" "cyclone D V"
    and "destroy_object D p (s_heap s) (waitsets (s_gcdds s)) (s_dds s) = Inr (H', R', d')"
  obtains obj d1 sw where "s_heap s p = Some obj" "H' = (s_heap s)(p := None)"
    "R' = map (\<lambda>(k, ws). (k, sw ws)) (waitsets (s_gcdds s))" "\<And>ws. waitseth (sw ws) = waitseth ws"
    "d' = delete_handles D (object_handles obj) d1" "live V d1 = live V (s_dds s)"
    "\<And>k ws. (k, ws) \<in> set (waitsets (s_gcdds s)) \<Longrightarrow>
        unswept V (s_dds s) d1 (gc_for_empty_waitset (s_gcdds s)) obj ws (sw ws)"
proof -
  let ?R = "waitsets (s_gcdds s)" and ?g = "gc_for_empty_waitset (s_gcdds s)"
  obtain obj where obj: "s_heap s p = Some obj"
    using assms(3) by (cases "s_heap s p") (auto simp: destroy_object_def dangling_def)
  have ds: "distinct (map (waitseth \<circ> snd) ?R)" using assms(1) by (simp add: inv_def registry_ok_def)
  show ?thesis
  proof (cases "\<exists>e. obj = CddsPublisher e")
    case True
    then have "H' = (s_heap s)(p := None)" "R' = ?R" "d' = delete_handles D (object_handles obj) (s_dds s)"
      using assms(3) obj by (auto simp: destroy_object_def)
    then show ?thesis using that [of obj "\<lambda>ws. ws" "s_dds s"] obj True by (auto simp: unswept_def)
  next
    case False
    have co: "coherent V (s_heap s) (s_dds s) ?g ws" if "(k, ws) \<in> set ?R" "\<not> inuse ws" for k ws
    proof -
      have "call_ok V (s_heap s) (s_dds s) (s_issued s) ?g (s_calls s k) ws"
        using assms(1) that(1) by (auto simp: inv_def calls_ok_def)
      then show ?thesis using that(2) by (auto simp: call_ok_def split: option.splits call.splits)
    qed
    obtain d1 where d1: "clean_waitset_caches D (s_heap s) ?R (s_dds s) = Inr (map (\<lambda>(k, ws). (k, swept ws)) ?R, d1)"
      "live V d1 = live V (s_dds s)"
      "\<forall>w. (\<forall>(k, ws) \<in> set ?R. inuse ws \<or> waitseth ws \<noteq> w) \<longrightarrow> attached V d1 w = attached V (s_dds s) w"
      "\<forall>(k, ws) \<in> set ?R. \<not> inuse ws \<longrightarrow> attachments V d1 ?g (waitseth ws) []"
      using clean_caches [OF assms(2) ds, of "s_heap s" "s_dds s" ?g] co by blast
    have "unswept V (s_dds s) d1 ?g obj ws (swept ws)" if kw: "(k, ws) \<in> set ?R" for k ws
    proof (cases "inuse ws")
      case True
      have "inuse v \<or> waitseth v \<noteq> waitseth ws" if "(l, v) \<in> set ?R" for l v
        using other_waitseth [OF ds that kw] True kw that inv_facts(4) assms(1)
        by (cases "l = k") (auto simp: inv_def registry_ok_def dest: eq_key_imp_eq_value)
      then have "attached V d1 (waitseth ws) = attached V (s_dds s) (waitseth ws)" using d1(3) by blast
      then show ?thesis using True by (simp add: unswept_def swept_def)
    next
      case False
      then show ?thesis using d1(4) kw by (auto simp: unswept_def swept_def)
    qed
    moreover have "H' = (s_heap s)(p := None)" "R' = map (\<lambda>(k, ws). (k, swept ws)) ?R"
      "d' = delete_handles D (object_handles obj) d1"
      using assms(3) obj False d1(1) by (cases obj; auto simp: destroy_object_def)+
    ultimately show ?thesis using that [of obj swept d1] obj d1(2) by simp
  qed
qed

lemma inv_destroy:
  assumes i: "inv V s" and cy: "cyclone D V" and md: "may_destroy True s p"
    and de: "destroy_object D p (s_heap s) (waitsets (s_gcdds s)) (s_dds s) = Inr (H', R', d')"
  shows "inv V (s\<lparr>s_heap := H', s_gcdds := (s_gcdds s)\<lparr>waitsets := R'\<rparr>, s_dds := d'\<rparr>)"
proof -
  let ?R = "waitsets (s_gcdds s)" and ?g = "gc_for_empty_waitset (s_gcdds s)"
  let ?s = "s\<lparr>s_heap := H', s_gcdds := (s_gcdds s)\<lparr>waitsets := R'\<rparr>, s_dds := d'\<rparr>"
  obtain obj d1 sw where e: "s_heap s p = Some obj" "H' = (s_heap s)(p := None)"
    "R' = map (\<lambda>(k, ws). (k, sw ws)) ?R" "\<And>ws. waitseth (sw ws) = waitseth ws"
    "d' = delete_handles D (object_handles obj) d1" "live V d1 = live V (s_dds s)"
    "\<And>k ws. (k, ws) \<in> set ?R \<Longrightarrow> unswept V (s_dds s) d1 ?g obj ws (sw ws)"
    using destroy_object_effect [OF i cy de] by blast
  have o: "objects_ok V s" and r: "registry_ok V s" and c: "calls_ok V s" using i by (simp_all add: inv_def)
  note dv = delete_handles_view [OF cy, of "object_handles obj" d1]
  have wl: "map (waitseth \<circ> snd) R' = map (waitseth \<circ> snd) ?R" and keys: "map fst R' = map fst ?R"
    by (auto simp: e(3,4))
  have ws: "waitseth ` snd ` set R' = waitseth ` snd ` set ?R" by (simp only: set_map_snd wl)
  have ne: "R' = [] \<longleftrightarrow> ?R = []" by (simp add: e(3))
  have ob: "live V (s_dds s) x \<and> x \<notin> waitseth ` snd ` set ?R \<and> (?R \<noteq> [] \<longrightarrow> x \<noteq> ?g)" if "x \<in> set (object_handles obj)" for x
    using o e(1) that unfolding objects_ok_def by blast
  have uniq: "q = p" if "s_heap s q = Some ob'" "x \<in> set (object_handles ob')" "x \<in> set (object_handles obj)" for q ob' x
    using o e(1) that unfolding objects_ok_def by blast
  have o1: "live V (s_dds ?s) x \<and> x \<in> s_issued ?s \<and> x \<notin> waitseth ` snd ` set (waitsets (s_gcdds ?s))
      \<and> (waitsets (s_gcdds ?s) \<noteq> [] \<longrightarrow> x \<noteq> gc_for_empty_waitset (s_gcdds ?s))"
    if q: "s_heap ?s q = Some ob'" "x \<in> set (object_handles ob')" for q ob' x
  proof -
    have q': "s_heap s q = Some ob'" "q \<noteq> p" using q(1) e(2) by (auto split: if_splits)
    then have "x \<notin> set (object_handles obj)" using uniq q(2) by blast
    then show ?thesis using o q'(1) q(2) unfolding objects_ok_def by (simp add: e(5,6) dv ws ne)
  qed
  have o2: "distinct (object_handles ob')" if "s_heap ?s q = Some ob'" for q ob'
    using that o e(2) by (auto simp: objects_ok_def split: if_splits)
  have o3: "q = q'" if "s_heap ?s q = Some ob'" "s_heap ?s q' = Some ob''" "x \<in> set (object_handles ob')"
    "x \<in> set (object_handles ob'')" for q q' ob' ob'' x
  proof -
    have "s_heap s q = Some ob'" "s_heap s q' = Some ob''" using that(1,2) e(2) by (auto split: if_splits)
    then show ?thesis using o that(3,4) unfolding objects_ok_def by blast
  qed
  have "objects_ok V ?s" by (rule objects_okI [OF o1 o2 o3])
  moreover have "registry_ok V ?s"
    using r ob unfolding registry_ok_def by (auto simp: ws wl keys ne e(5,6) dv)
  moreover have "call_ok V H' d' (s_issued s) ?g (s_calls s k) (sw v)" if kw: "(k, v) \<in> set ?R" for k v
  proof -
    have k: "call_ok V (s_heap s) (s_dds s) (s_issued s) ?g (s_calls s k) v" using c kw by (auto simp: calls_ok_def)
    have mk: "map_of ?R k = Some v" using kw r by (simp add: registry_ok_def)
    have wn: "waitseth v \<notin> set (object_handles obj)" using ob kw by (force simp: image_iff)
    have gn: "?g \<notin> set (object_handles obj)" using ob kw by fastforce
    have gl: "live V (s_dds s) ?g" using r kw by (auto simp: registry_ok_def)
    consider (A) "sw v = v" "attached V d1 (waitseth v) = attached V (s_dds s) (waitseth v)" "inuse v \<or> (\<exists>x. obj = CddsPublisher x)"
      | (B) "\<not> inuse v" "sw v = cleared v" "attachments V d1 ?g (waitseth v) []"
      using e(7) [OF kw] unfolding unswept_def by blast
    then show ?thesis
    proof cases
      case A
      have "call_ok V H' d' (s_issued s) ?g (s_calls s k) v"
      proof (rule call_ok_transfer [OF k cy])
        fix q assume q: "q \<in> cached_ptrs v" and st: "s_calls s k = None \<and> \<not> inuse v \<or> (\<exists>a t. s_calls s k = Some (Entered a t))"
        have "q \<noteq> p"
        proof (cases "\<exists>a t. s_calls s k = Some (Entered a t)")
          case True
          then show ?thesis using md mk q unfolding may_destroy_def by blast
        next
          case False
          then have co: "coherent V (s_heap s) (s_dds s) ?g v" and "\<exists>x. obj = CddsPublisher x"
            using k st A(3) by (auto simp: call_ok_def)
          then show ?thesis using coherent_ptrs [OF co q] e(1) by auto
        qed
        then show "H' q = s_heap s q" by (simp add: e(2))
      next
        fix x q assume "s_calls s k = Some x" "q \<in> mentions (call_args x)"
        then have "q \<noteq> p" using md unfolding may_destroy_def by blast
        then show "H' q = s_heap s q" by (simp add: e(2))
      next
        show "set (object_handles ob') \<subseteq> s_issued s" if "s_heap s q = Some ob'" for q ob'
          by (rule inv_facts(2) [OF i mk that])
        show "live V d' ?g" using gl gn by (simp add: e(5,6) dv)
      qed (use A(2) wn in \<open>auto simp: e(5,6) dv\<close>)
      then show ?thesis by (simp add: A(1))
    next
      case B
      moreover have "s_calls s k = None" using k B(1) by (auto simp: call_ok_def split: option.splits call.splits)
      moreover have "attachments V d' ?g (waitseth v) []"
        using B(3) wn gn by (auto simp: attachments_def e(5) dv)
      ultimately show ?thesis using coherent_cleared by (simp add: call_ok_def) (simp add: cleared_def)
    qed
  qed
  moreover have "k \<in> fst ` set R'" if "s_calls s k \<noteq> None" for k
  proof -
    have "fst ` set R' = fst ` set ?R" using keys by (metis set_map)
    then show ?thesis using c that by (simp add: calls_ok_def)
  qed
  ultimately show ?thesis by (auto simp: inv_def calls_ok_def e(3))
qed

text \<open>Creating a wait set: the first one, with the dummy guard condition, and further ones.\<close>

lemma create_attached:
  assumes "cyclone D V" "fresh_entity V I d h d1" "g \<noteq> h" "live V d1 g" "dds_waitset_attach D h g i d1 = (r, d2)"
  shows "live V d2 = live V d1" "attached V d2 = (attached V d1)(h := [g \<mapsto> i])"
  using assms(2-5) cyclone_attach [OF assms(1), of h g i d1] by (auto simp: fresh_entity_def)

lemma inv_registered:
  assumes o: "objects_ok V s" and r: "registry_ok V s" and c: "calls_ok V s" and cy: "cyclone D V" and k: "s_calls s k = None"
    and kn: "k \<notin> fst ` set (waitsets (s_gcdds s))"
    and fr: "0 < h" "h \<notin> s_issued s" and g: "g \<noteq> h" "g \<in> I'" "live V d' g" "I' = insert g (insert h (s_issued s))"
    and gs: "waitsets (s_gcdds s) \<noteq> [] \<longrightarrow> g = gc_for_empty_waitset (s_gcdds s)" "waitsets (s_gcdds s) = [] \<longrightarrow> g \<notin> s_issued s"
    and at: "attached V d' h = [g \<mapsto> INTPTR_MAX]" "\<And>w. w \<noteq> h \<Longrightarrow> w \<noteq> g \<Longrightarrow> attached V d' w = attached V (s_dds s) w"
    and lv: "live V d' = (live V (s_dds s))(h := True, g := True)"
  shows "inv V (s\<lparr>s_gcdds := \<lparr>gc_for_empty_waitset = g, waitsets = (k, fresh_waitset h) # waitsets (s_gcdds s)\<rparr>,
    s_dds := d', s_issued := I'\<rparr>)"
proof -
  let ?R = "waitsets (s_gcdds s)"
  let ?s = "s\<lparr>s_gcdds := \<lparr>gc_for_empty_waitset = g, waitsets = (k, fresh_waitset h) # ?R\<rparr>, s_dds := d', s_issued := I'\<rparr>"
  have old: "x \<in> s_issued s \<and> live V (s_dds s) x \<and> x \<notin> waitseth ` snd ` set ?R \<and> (?R \<noteq> [] \<longrightarrow> x \<noteq> gc_for_empty_waitset (s_gcdds s))"
    if "s_heap s q = Some ob" "x \<in> set (object_handles ob)" for q ob x
    using o that unfolding objects_ok_def by blast
  have o1: "live V (s_dds ?s) x \<and> x \<in> s_issued ?s \<and> x \<notin> waitseth ` snd ` set (waitsets (s_gcdds ?s))
      \<and> (waitsets (s_gcdds ?s) \<noteq> [] \<longrightarrow> x \<noteq> gc_for_empty_waitset (s_gcdds ?s))"
    if q: "s_heap ?s q = Some ob" "x \<in> set (object_handles ob)" for q ob x
  proof -
    have "s_heap s q = Some ob" using q(1) by simp
    from old [OF this q(2)] show ?thesis using fr gs g(4) by (auto simp: lv fresh_waitset_def)
  qed
  have o2: "distinct (object_handles ob)" if "s_heap ?s q = Some ob" for q ob
    using that o by (simp add: objects_ok_def)
  have o3: "q = q'" if "s_heap ?s q = Some ob" "s_heap ?s q' = Some ob'" "x \<in> set (object_handles ob)" "x \<in> set (object_handles ob')"
    for q q' ob ob' x
  proof -
    have "s_heap s q = Some ob" "s_heap s q' = Some ob'" using that(1,2) by simp_all
    then show ?thesis using o that(3,4) unfolding objects_ok_def by blast
  qed
  have wi: "waitseth v \<in> s_issued s" "waitseth v \<noteq> h" "waitseth v \<noteq> g" if "(l, v) \<in> set ?R" for l v
  proof -
    show i: "waitseth v \<in> s_issued s" using r that by (force simp: registry_ok_def)
    show "waitseth v \<noteq> h" using i fr(2) by blast
    have "g = gc_for_empty_waitset (s_gcdds s)" using gs(1) that by fastforce
    then show "waitseth v \<noteq> g" using r that by (force simp: registry_ok_def image_iff)
  qed
  have "objects_ok V ?s" by (rule objects_okI [OF o1 o2 o3])
  moreover have "registry_ok V ?s"
  proof -
    have "h \<notin> waitseth ` snd ` set ?R" "g \<notin> waitseth ` snd ` set ?R" using wi by force+
    moreover have "waitseth ` snd ` set ?R \<subseteq> I'" using wi(1) g(4) by force
    ultimately show ?thesis using r kn g fr by (auto simp: registry_ok_def fresh_waitset_def lv image_iff)
  qed
  moreover have "call_ok V (s_heap s) d' I' g None (fresh_waitset h)"
    using at(1) g(1) cyclone_live [OF cy] by (auto simp: call_ok_def coherent_def fresh_waitset_def cached_handles_def cond_handles_def attachments_def)
  moreover have "call_ok V (s_heap s) d' I' g (s_calls s l) v" if lv': "(l, v) \<in> set ?R" for l v
  proof -
    have ne: "?R \<noteq> []" using lv' by auto
    have "call_ok V (s_heap s) (s_dds s) (s_issued s) g (s_calls s l) v" using c lv' gs(1) ne by (auto simp: calls_ok_def)
    then show ?thesis
    proof (rule call_ok_transfer [OF _ cy])
      show "set (object_handles ob) \<subseteq> s_issued s" if "s_heap s q = Some ob" for q ob using old [OF that] by blast
      show "live V (s_dds s) e \<or> e \<notin> s_issued s" if "live V d' e" for e
        using that fr(2) gs(1) ne r by (auto simp: lv registry_ok_def split: if_splits)
      show "attached V d' (waitseth v) e = attached V (s_dds s) (waitseth v) e" for e
        using at(2) wi(2,3) [OF lv'] by simp
    qed (use g in auto)
  qed
  ultimately show ?thesis using c k by (auto simp: inv_def calls_ok_def)
qed

lemma inv_create_first:
  assumes "inv V s" "cyclone D V" "waitsets (s_gcdds s) = []" "s_calls s k = None"
    and "dds_create_waitset D (s_dds s) = (h, d1)" "fresh_entity V (s_issued s) (s_dds s) h d1"
    and "dds_create_guardcondition D d1 = (g, d2)" "fresh_entity V (insert h (s_issued s)) d1 g d2"
    and "rmw_create_wait_set D k (s_gcdds s) (s_dds s) = (Some ws, G', d')"
  shows "inv V (s\<lparr>s_gcdds := G', s_dds := d', s_issued := insert g (insert h (s_issued s))\<rparr>)"
proof -
  obtain r where r: "dds_waitset_attach D h g INTPTR_MAX d2 = (r, d')" "G' = \<lparr>gc_for_empty_waitset = g, waitsets = [(k, fresh_waitset h)]\<rparr>"
    using assms(3,5-9) by (auto simp: rmw_create_wait_set_def fresh_entity_def split: prod.splits if_splits)
  have h: "0 < h" "h \<notin> s_issued s" "g \<notin> insert h (s_issued s)" using assms(6,8) by (auto simp: fresh_entity_def)
  have v: "attached V d2 = (attached V (s_dds s))(h := (\<lambda>_. None), g := (\<lambda>_. None))" "live V d2 = (live V (s_dds s))(h := True, g := True)"
    using assms(6,8) by (simp_all add: fresh_entity_def)
  have a: "live V d' = live V d2" "attached V d' = (attached V d2)(h := [g \<mapsto> INTPTR_MAX])"
    using r(1) cyclone_attach [OF assms(2), of h g INTPTR_MAX d2] v h(3) by auto
  have "inv V (s\<lparr>s_gcdds := \<lparr>gc_for_empty_waitset = g, waitsets = (k, fresh_waitset h) # waitsets (s_gcdds s)\<rparr>,
    s_dds := d', s_issued := insert g (insert h (s_issued s))\<rparr>)"
    by (rule inv_registered [where D = D]) (use assms(1-4) h in \<open>auto simp: inv_def a v\<close>)
  then show ?thesis by (simp add: r(2) assms(3))
qed

lemma inv_create_more:
  assumes "inv V s" "cyclone D V" "waitsets (s_gcdds s) \<noteq> []" "map_of (waitsets (s_gcdds s)) k = None" "s_calls s k = None"
    and "dds_create_waitset D (s_dds s) = (h, d1)" "fresh_entity V (s_issued s) (s_dds s) h d1"
    and "rmw_create_wait_set D k (s_gcdds s) (s_dds s) = (Some ws, G', d')"
  shows "inv V (s\<lparr>s_gcdds := G', s_dds := d', s_issued := insert h (s_issued s)\<rparr>)"
proof -
  let ?g = "gc_for_empty_waitset (s_gcdds s)"
  have g: "?g \<in> s_issued s" "live V (s_dds s) ?g" using assms(1,3) by (auto simp: inv_def registry_ok_def)
  have h: "0 < h" "h \<notin> s_issued s" using assms(7) by (auto simp: fresh_entity_def)
  obtain r where r: "dds_waitset_attach D h ?g INTPTR_MAX d1 = (r, d')"
    "G' = \<lparr>gc_for_empty_waitset = ?g, waitsets = (k, fresh_waitset h) # waitsets (s_gcdds s)\<rparr>"
    using assms(3,6,8) h by (cases "s_gcdds s") (auto simp: rmw_create_wait_set_def split: prod.splits if_splits)
  have v: "attached V d1 = (attached V (s_dds s))(h := (\<lambda>_. None))" "live V d1 = (live V (s_dds s))(h := True)"
    using assms(7) by (simp_all add: fresh_entity_def)
  have a: "live V d' = live V d1" "attached V d' = (attached V d1)(h := [?g \<mapsto> INTPTR_MAX])"
    using r(1) cyclone_attach [OF assms(2), of h ?g INTPTR_MAX d1] v g h by auto
  have lg: "live V d' = (live V (s_dds s))(h := True, ?g := True)" using g(2) by (auto simp: a v fun_eq_iff)
  have i: "insert h (s_issued s) = insert ?g (insert h (s_issued s))" using g(1) by auto
  have "inv V (s\<lparr>s_gcdds := \<lparr>gc_for_empty_waitset = ?g, waitsets = (k, fresh_waitset h) # waitsets (s_gcdds s)\<rparr>,
    s_dds := d', s_issued := insert h (s_issued s)\<rparr>)"
    by (rule inv_registered [OF _ _ _ assms(2,5) _ h _ _ _ i _ _ _ _ lg])
      (use assms(1,3,4) g h in \<open>auto simp: inv_def a v map_of_eq_None_iff\<close>)
  then show ?thesis by (simp add: r(2))
qed

lemma inv_destroy_ws:
  assumes i: "inv V s" and cy: "cyclone D V" and k: "s_calls s k = None" and m: "map_of (waitsets (s_gcdds s)) k = Some ws"
    and de: "rmw_destroy_wait_set D k (s_gcdds s) (s_dds s) = (G', d')"
  shows "inv V (s\<lparr>s_gcdds := G', s_dds := d'\<rparr>)"
proof -
  let ?R = "waitsets (s_gcdds s)" and ?g = "gc_for_empty_waitset (s_gcdds s)" and ?w = "waitseth ws"
  let ?R' = "AList.delete k ?R"
  let ?dead = "if ?R' = [] then [?w, ?g] else [?w]"
  have o: "objects_ok V s" and r: "registry_ok V s" and c: "calls_ok V s" using i by (simp_all add: inv_def)
  have G': "G' = \<lparr>gc_for_empty_waitset = (if ?R' = [] then 0 else ?g), waitsets = ?R'\<rparr>" "d' = delete_handles D ?dead (s_dds s)"
    using de m by (cases "s_gcdds s"; simp add: rmw_destroy_wait_set_def Let_def split: if_splits; fail)+
  note dv = delete_handles_view [OF cy, of ?dead "s_dds s"]
  have ld: "live V d' = (\<lambda>e. live V (s_dds s) e \<and> e \<notin> set ?dead)"
    and ad: "attached V d' = (\<lambda>w. if w \<in> set ?dead then (\<lambda>_. None)
        else (\<lambda>e. if e \<in> set ?dead then None else attached V (s_dds s) w e))" by (simp_all only: G'(2) dv)
  have kw: "(k, ws) \<in> set ?R" using m by (rule registered)
  have sub: "set ?R' = {x \<in> set ?R. fst x \<noteq> k}" by (auto simp: AList.delete_eq)
  have ds: "distinct (map fst ?R)" "distinct (map (waitseth \<circ> snd) ?R)" using r by (simp_all add: registry_ok_def)
  have ob: "x \<notin> set ?dead" if "s_heap s q = Some ob" "x \<in> set (object_handles ob)" for q ob x
  proof -
    have "x \<notin> waitseth ` snd ` set ?R" "?R \<noteq> [] \<longrightarrow> x \<noteq> ?g" using o that unfolding objects_ok_def by blast+
    moreover have "?w \<in> waitseth ` snd ` set ?R" using kw by (metis imageI snd_conv)
    ultimately show ?thesis using kw by auto
  qed
  let ?s = "s\<lparr>s_gcdds := G', s_dds := d'\<rparr>"
  have o1: "live V (s_dds ?s) x \<and> x \<in> s_issued ?s \<and> x \<notin> waitseth ` snd ` set (waitsets (s_gcdds ?s))
      \<and> (waitsets (s_gcdds ?s) \<noteq> [] \<longrightarrow> x \<noteq> gc_for_empty_waitset (s_gcdds ?s))"
    if q: "s_heap ?s q = Some ob" "x \<in> set (object_handles ob)" for q ob x
  proof -
    have q': "s_heap s q = Some ob" using q(1) by simp
    have "live V (s_dds s) x \<and> x \<in> s_issued s \<and> x \<notin> waitseth ` snd ` set ?R \<and> x \<noteq> ?g"
      using o q' q(2) kw unfolding objects_ok_def by (metis empty_iff list.set(1))
    then show ?thesis using ob [OF q' q(2)] by (auto simp: G' dv sub)
  qed
  have o2: "distinct (object_handles ob)" if "s_heap ?s q = Some ob" for q ob using that o by (simp add: objects_ok_def)
  have o3: "q = q'" if "s_heap ?s q = Some ob" "s_heap ?s q' = Some ob'" "x \<in> set (object_handles ob)" "x \<in> set (object_handles ob')"
    for q q' ob ob' x
  proof -
    have "s_heap s q = Some ob" "s_heap s q' = Some ob'" using that(1,2) by simp_all
    then show ?thesis using o that(3,4) unfolding objects_ok_def by blast
  qed
  have "objects_ok V ?s" by (rule objects_okI [OF o1 o2 o3])
  moreover have gw: "?g \<noteq> ?w" using r kw by (force simp: registry_ok_def image_iff)
  moreover have "registry_ok V ?s"
  proof -
    have "distinct (map fst ?R')" "distinct (map (waitseth \<circ> snd) ?R')"
      using ds by (auto simp: AList.delete_eq distinct_map_filter)
    note ds' = this
    show ?thesis
    proof (cases "?R' = []")
      case True
      then show ?thesis using r unfolding registry_ok_def by (simp add: G'(1) ld)
    next
      case False
      then show ?thesis using r gw kw ds' sub unfolding registry_ok_def by (auto simp: G'(1) ld)
    qed
  qed
  moreover have "call_ok V (s_heap s) d' (s_issued s) ?g (s_calls s l) v" if lv: "(l, v) \<in> set ?R'" for l v
  proof -
    have l: "(l, v) \<in> set ?R" "l \<noteq> k" using lv by (auto simp: sub)
    have dead: "?dead = [?w]" using lv by (auto split: if_splits)
    have wn: "waitseth v \<noteq> ?w" using other_waitseth [OF ds(2) l(1) kw l(2)] .
    have "call_ok V (s_heap s) (s_dds s) (s_issued s) ?g (s_calls s l) v" using c l(1) by (auto simp: calls_ok_def)
    then show ?thesis
    proof (rule call_ok_transfer [OF _ cy])
      show "set (object_handles ob) \<subseteq> s_issued s" if "s_heap s q = Some ob" for q ob by (rule inv_facts(2) [OF i m that])
      show "live V d' ?g" using inv_facts(3) [OF i m] gw by (simp add: ld dead)
    qed (use wn in \<open>auto simp: ld ad dead\<close>)
  qed
  moreover have "l \<in> fst ` set ?R'" if "s_calls s l \<noteq> None" for l
  proof -
    have "l \<in> fst ` set ?R" "l \<noteq> k" using c that k by (auto simp: calls_ok_def)
    then show ?thesis by (auto simp: sub)
  qed
  ultimately show ?thesis using c
    by (auto simp: inv_def calls_ok_def G'(1) split: if_splits)
qed

lemma step_inv:
  assumes "cyclone D V" "inv V s" "step D V True s s'"
  shows "inv V s'"
  using assms(3)
proof cases
  case (environment d')
  show ?thesis unfolding environment(1) by (rule inv_environment [OF assms(2) environment(2)])
next
  case (create_object p obj d')
  show ?thesis unfolding create_object(1) by (rule inv_create_object [OF assms(2,1) create_object(3-)])
next
  case (destroy p H' R' d')
  show ?thesis unfolding destroy(1) by (rule inv_destroy [OF assms(2,1) destroy(2-)])
next
  case (create_first k h d1 g d2 ws G' d')
  show ?thesis unfolding create_first(1) by (rule inv_create_first [OF assms(2,1) create_first(2-)])
next
  case (create_more k h d1 ws G' d')
  show ?thesis unfolding create_more(1) by (rule inv_create_more [OF assms(2,1) create_more(2-)])
next
  case (destroy_ws k ws G' d')
  show ?thesis unfolding destroy_ws(1) by (rule inv_destroy_ws [OF assms(2,1) destroy_ws(2-)])
next
  case (enter k ws ws' a t)
  show ?thesis unfolding enter(1) by (rule inv_enter [OF assms(2,1) enter(2-)])
next
  case (attach k a t ws ws' d')
  show ?thesis using inv_attach [OF assms(2,1) attach(2-)] by (simp add: attach(1))
next
  case (attach_failed k a t ws ws' d')
  show ?thesis using inv_attach [OF assms(2,1) attach_failed(2-)] by (simp add: attach_failed(1))
next
  case (return k a t ws ws1 a' d' ret ws')
  show ?thesis unfolding return(1) by (rule inv_return [OF assms(2,1) return(2-)])
next
  case (throw k a t ws ws' e)
  show ?thesis unfolding throw(1) by (rule inv_throw [OF assms(2,1) throw(2-)])
qed

lemma initial_inv: "initial V s \<Longrightarrow> inv V s"
  by (simp add: initial_def inv_def objects_ok_def registry_ok_def calls_ok_def)

lemma reachable_inv: "reachable D V True s \<Longrightarrow> cyclone D V \<Longrightarrow> inv V s"
  by (induction rule: reachable.induct) (auto intro: initial_inv step_inv)

end
