(* ===== verification/WaitClaims.thy ===== *)
theory WaitClaims
  imports WaitSteps
begin

text \<open>
  The properties of wait sets: in every reachable state a blocked call waits for exactly what it was
  given, reports exactly what is triggered and never reads through a dangling pointer, as long as the
  users keep to the contract of \<open>may_destroy\<close>; what an error leaves behind; and that the contract the
  code's comment states is too weak.  An instance of Cyclone DDS runs the concrete examples.
\<close>

section \<open>An instance of Cyclone DDS\<close>

text \<open>Attachments as an association list, the existing and the triggered entities as lists.\<close>

record ex_dds =
  x_att :: "((dds_entity \<times> dds_entity) \<times> int) list"
  x_live :: "dds_entity list"
  x_trig :: "dds_entity list"
  x_next :: dds_entity

definition ex_create :: "ex_dds \<Rightarrow> dds_entity \<times> ex_dds" where
  "ex_create d = (x_next d, d\<lparr>x_att := filter (\<lambda>x. fst (fst x) \<noteq> x_next d) (x_att d), x_live := x_next d # x_live d,
     x_next := x_next d + 1\<rparr>)"

definition ex_attach :: "dds_entity \<Rightarrow> dds_entity \<Rightarrow> int \<Rightarrow> ex_dds \<Rightarrow> int \<times> ex_dds" where
  "ex_attach w e i d = (if e \<in> set (x_live d) \<and> map_of (x_att d) (w, e) = None then (0, d\<lparr>x_att := ((w, e), i) # x_att d\<rparr>)
     else (- 1, d))"

definition ex_detach :: "dds_entity \<Rightarrow> dds_entity \<Rightarrow> ex_dds \<Rightarrow> int \<times> ex_dds" where
  "ex_detach w e d = (0, d\<lparr>x_att := filter (\<lambda>x. fst x \<noteq> (w, e)) (x_att d)\<rparr>)"

definition ex_delete :: "dds_entity \<Rightarrow> ex_dds \<Rightarrow> int \<times> ex_dds" where
  "ex_delete e d = (0, d\<lparr>x_att := filter (\<lambda>x. fst (fst x) \<noteq> e \<and> snd (fst x) \<noteq> e) (x_att d),
     x_live := filter (\<lambda>x. x \<noteq> e) (x_live d)\<rparr>)"

definition ex_wait :: "dds_entity \<Rightarrow> int list \<Rightarrow> int \<Rightarrow> ex_dds \<Rightarrow> int \<times> int list" where
  "ex_wait w buf t d =
     (let es = filter (\<lambda>e. e \<in> set (x_live d) \<and> e \<in> set (x_trig d))
                 (remdups (map (snd \<circ> fst) (filter (\<lambda>x. fst (fst x) = w) (x_att d))));
          ts = map (\<lambda>e. the (map_of (x_att d) (w, e))) es in
      (int (length ts), ts @ drop (length ts) buf))"

definition ex_api :: "ex_dds dds_api" where
  "ex_api = \<lparr>status_bit = (\<lambda>s. case s of
         DDS_INCONSISTENT_TOPIC_STATUS \<Rightarrow> 1 | DDS_OFFERED_DEADLINE_MISSED_STATUS \<Rightarrow> 2
       | DDS_REQUESTED_DEADLINE_MISSED_STATUS \<Rightarrow> 4 | DDS_OFFERED_INCOMPATIBLE_QOS_STATUS \<Rightarrow> 8
       | DDS_REQUESTED_INCOMPATIBLE_QOS_STATUS \<Rightarrow> 16 | DDS_SAMPLE_LOST_STATUS \<Rightarrow> 32
       | DDS_LIVELINESS_LOST_STATUS \<Rightarrow> 64 | DDS_LIVELINESS_CHANGED_STATUS \<Rightarrow> 128
       | DDS_PUBLICATION_MATCHED_STATUS \<Rightarrow> 256 | DDS_SUBSCRIPTION_MATCHED_STATUS \<Rightarrow> 512),
     dds_set_status_mask = (\<lambda>_ _ d. (0, d)),
     dds_get_status_changes = (\<lambda>e d. if e \<in> set (x_live d) then Some 0 else None),
     dds_create_guardcondition = ex_create,
     dds_take_guardcondition = (\<lambda>e d. d\<lparr>x_trig := filter (\<lambda>x. x \<noteq> e) (x_trig d)\<rparr>),
     dds_create_waitset = ex_create, dds_delete = ex_delete, dds_waitset_attach = ex_attach,
     dds_waitset_detach = ex_detach, dds_waitset_wait = ex_wait, unordered = (\<lambda>xs. xs)\<rparr>"

definition ex_view :: "ex_dds dds_view" where
  "ex_view = \<lparr>attached = (\<lambda>d w e. if e \<in> set (x_live d) then map_of (x_att d) (w, e) else None),
     live = (\<lambda>d e. e \<in> set (x_live d)), triggered = (\<lambda>d e. e \<in> set (x_trig d))\<rparr>"

lemma map_of_filter_key:
  "map_of (filter (\<lambda>x. P (fst x)) xs) k = (if P k then map_of xs k else None)"
  by (induction xs) auto

lemma ex_filter: "map_of (filter (\<lambda>x. fst x \<noteq> (w, e)) (x_att d)) k = (if k = (w, e) then None else map_of (x_att d) k)"
  using map_of_filter_key [of "\<lambda>k. k \<noteq> (w, e)" "x_att d" k] by simp

lemma ex_filter_both:
  "map_of (filter (\<lambda>x. fst (fst x) \<noteq> e \<and> snd (fst x) \<noteq> e) (x_att d)) k
     = (if fst k \<noteq> e \<and> snd k \<noteq> e then map_of (x_att d) k else None)"
  using map_of_filter_key [of "\<lambda>k. fst k \<noteq> e \<and> snd k \<noteq> e" "x_att d" k] by simp

lemma ex_dom: "dom (attached ex_view d w) = {e \<in> set (x_live d). \<exists>i. ((w, e), i) \<in> set (x_att d)}"
  by (auto simp: ex_view_def dom_def split: if_splits dest: map_of_SomeD weak_map_of_SomeI)

lemma ex_wait_law: "wait_law ex_api ex_view"
proof -
  have fin: "finite (dom (attached ex_view d w))" for d w by (simp add: ex_dom)
  have "case ex_wait w buf t d of (n, buf') \<Rightarrow>
     length buf' = length buf \<and> (\<exists>es. distinct es \<and> n = int (length es) \<and> length es \<le> length buf
       \<and> set es = {e \<in> dom (attached ex_view d w). triggered ex_view d e}
       \<and> take (length es) buf' = map (\<lambda>e. the (attached ex_view d w e)) es)"
    if le: "card (dom (attached ex_view d w)) \<le> length buf" for w buf t d
  proof -
    let ?es = "filter (\<lambda>e. e \<in> set (x_live d) \<and> e \<in> set (x_trig d))
        (remdups (map (snd \<circ> fst) (filter (\<lambda>x. fst (fst x) = w) (x_att d))))"
    have s: "set ?es = {e \<in> dom (attached ex_view d w). triggered ex_view d e}"
      by (auto simp: ex_dom image_iff) (simp_all add: ex_view_def; force)+
    have d: "distinct ?es" by simp
    have "length ?es = card (set ?es)" using distinct_card [OF d] by simp
    also have "\<dots> \<le> card (dom (attached ex_view d w))" unfolding s by (rule card_mono [OF fin]) blast
    finally have l: "length ?es \<le> length buf" using le by simp
    have m: "map (\<lambda>e. the (map_of (x_att d) (w, e))) ?es = map (\<lambda>e. the (attached ex_view d w e)) ?es"
      by (simp add: ex_view_def)
    show ?thesis
      unfolding ex_wait_def Let_def prod.case
      using s d l m by (intro conjI exI [of _ ?es]) (simp_all del: set_filter filter_filter)
  qed
  then show ?thesis using fin by (simp add: wait_law_def ex_api_def)
qed

lemma ex_cyclone: "cyclone ex_api ex_view"
proof -
  have "attach_law ex_api ex_view"
    by (auto simp: attach_law_def ex_api_def ex_view_def ex_attach_def Let_def fun_eq_iff)
  moreover have "detach_law ex_api ex_view"
    by (auto simp: detach_law_def ex_api_def ex_view_def ex_detach_def Let_def fun_eq_iff ex_filter)
  moreover have "delete_law ex_api ex_view"
    by (auto simp: delete_law_def ex_api_def ex_view_def ex_delete_def Let_def fun_eq_iff ex_filter_both)
  moreover have "(\<forall>e m d. same_view ex_view d (snd (dds_set_status_mask ex_api e m d)))
     \<and> (\<forall>e d. same_view ex_view d (dds_take_guardcondition ex_api e d))
     \<and> (\<forall>w e d. attached ex_view d w e \<noteq> None \<longrightarrow> live ex_view d e)
     \<and> (\<forall>e d. live ex_view d e \<longrightarrow> dds_get_status_changes ex_api e d \<noteq> None)
     \<and> (\<forall>xs. mset (unordered ex_api xs) = mset xs)"
    by (auto simp: same_view_def ex_api_def ex_view_def fun_eq_iff)
  ultimately show ?thesis using ex_wait_law unfolding cyclone_def by blast
qed

section \<open>Blocked calls\<close>

lemma blocked_facts:
  assumes "cyclone D V" "reachable D V True s" "s_calls s k = Some (Blocked a t)"
    and "map_of (waitsets (s_gcdds s)) k = Some ws"
  obtains hs ks es where "arg_handles (s_heap s) a = Inr hs" "arg_keys (s_heap s) a = Inr ks" "distinct es"
    "set es = event_entities ks" "nelems ws = length (hs @ es)" "gc_for_empty_waitset (s_gcdds s) \<notin> set (hs @ es)"
    "attached V (s_dds s) (waitseth ws) = (\<lambda>e. if e = gc_for_empty_waitset (s_gcdds s) then Some INTPTR_MAX
       else attach_map (hs @ es) 0 e)"
    "\<forall>k \<in> set ks. live V (s_dds s) (fst k)" "objects_ok V s"
proof -
  let ?g = "gc_for_empty_waitset (s_gcdds s)"
  have i: "inv V s" using reachable_inv assms(1,2) by blast
  have c: "coherent V (s_heap s) (s_dds s) ?g ws" "args_ok (s_heap s) a" "serves (s_heap s) a ws"
    using inv_facts(1) [OF i assms(4)] assms(3) by (auto simp: call_ok_def)
  obtain hs es where h: "cached_handles (s_heap s) ws = Inr hs" "distinct es" "set es = event_entities (evs ws)"
    "nelems ws = length (hs @ es)" "attachments V (s_dds s) ?g (waitseth ws) (hs @ es)"
    using c(1) by (auto simp: coherent_def)
  have a: "arg_handles (s_heap s) a = Inr hs" "arg_keys (s_heap s) a = Inr (evs ws)"
    using h(1) c(3) serves_handles [OF c(3)] by (simp_all add: serves_def)
  have "waitsets (s_gcdds s) \<noteq> []" using assms(4) by auto
  from args_ok_valid(1) [OF i this c(2)]
  have lv: "\<forall>e \<in> set hs \<union> fst ` set (evs ws). live V (s_dds s) e" using a by (simp add: args_valid_def)
  have "attached V (s_dds s) (waitseth ws) e = (if e = ?g then Some INTPTR_MAX else attach_map (hs @ es) 0 e)" for e
  proof (cases "live V (s_dds s) e")
    case True
    then show ?thesis using h(5) by (simp add: attachments_def)
  next
    case False
    then have "e \<notin> set (hs @ es)" using lv h(3) event_entities_subset [of "evs ws"] by auto
    then have "attach_map (hs @ es) 0 e = None" by (simp add: attach_map_None)
    moreover have "e \<noteq> ?g" using False inv_facts(3) [OF i assms(4)] by blast
    ultimately show ?thesis using cyclone_live [OF assms(1) False] by simp
  qed
  then have "attached V (s_dds s) (waitseth ws) = (\<lambda>e. if e = ?g then Some INTPTR_MAX else attach_map (hs @ es) 0 e)" ..
  then show ?thesis
    using that [OF a h(2,3,4)] h(5) lv i by (simp add: attachments_def inv_def)
qed

text \<open>Distinct objects have distinct handles.\<close>

lemma map_result_distinct:
  assumes "map_result f ps = Inr hs" "distinct ps" "\<And>p q h. f p = Inr h \<Longrightarrow> f q = Inr h \<Longrightarrow> p = q"
  shows "distinct hs"
  using assms(1,2)
proof (induction ps arbitrary: hs)
  case (Cons p ps)
  then obtain h hs' where h: "f p = Inr h" "map_result f ps = Inr hs'" "hs = h # hs'" by (auto simp: rbind_eq_Inr)
  have "h \<notin> set hs'" using map_result_in [OF h(2)] h(1) assms(3) Cons.prems(2) by fastforce
  then show ?case using Cons.IH [OF h(2)] Cons.prems(2) h(3) by simp
qed simp

lemma handles_objects:
  "sub_rdcondh H p = Inr h \<longleftrightarrow> (\<exists>e. H p = Some (CddsSubscription h e))"
  "gc_gcondh H p = Inr h \<longleftrightarrow> H p = Some (CddsGuardCondition h)"
  "srv_rdcondh H p = Inr h \<longleftrightarrow> H p = Some (CddsService h)"
  "cl_rdcondh H p = Inr h \<longleftrightarrow> H p = Some (CddsClient h)"
  "entity_enth H p = Inr h \<longleftrightarrow> (\<exists>r. H p = Some (CddsSubscription r h)) \<or> H p = Some (CddsPublisher h)"
  by (auto simp: handle_defs dangling_def split: option.splits cdds_object.splits)

lemma same_object:
  assumes "objects_ok V s" "s_heap s p = Some ob" "s_heap s q = Some ob'" "h \<in> set (object_handles ob)" "h \<in> set (object_handles ob')"
  shows "p = q \<and> ob = ob'"
proof -
  have "p = q" using assms unfolding objects_ok_def by blast
  then show ?thesis using assms(2,3) by simp
qed

lemma arg_handles_distinct:
  assumes o: "objects_ok V s" and hs: "arg_handles (s_heap s) a = Inr hs"
    and d: "distinct (entries (a_subs a))" "distinct (entries (a_gcs a))" "distinct (entries (a_srvs a))" "distinct (entries (a_cls a))"
  shows "distinct hs"
proof -
  let ?H = "s_heap s"
  obtain h1 h2 h3 h4 where h: "map_result (sub_rdcondh ?H) (entries (a_subs a)) = Inr h1"
    "map_result (gc_gcondh ?H) (entries (a_gcs a)) = Inr h2" "map_result (srv_rdcondh ?H) (entries (a_srvs a)) = Inr h3"
    "map_result (cl_rdcondh ?H) (entries (a_cls a)) = Inr h4" "hs = h1 @ h2 @ h3 @ h4"
    using hs by (auto simp: arg_handles_def cond_handles_def rbind_eq_Inr)
  have u: "p = q \<and> ob = ob'" if "?H p = Some ob" "?H q = Some ob'" "x \<in> set (object_handles ob)" "x \<in> set (object_handles ob')"
    for p q ob ob' x using same_object [OF o] that by blast
  have ds: "distinct h1" by (rule map_result_distinct [OF h(1) d(1)]) (auto simp: handles_objects dest: u)
  have dg: "distinct h2" by (rule map_result_distinct [OF h(2) d(2)]) (auto simp: handles_objects dest: u)
  have dv: "distinct h3" by (rule map_result_distinct [OF h(3) d(3)]) (auto simp: handles_objects dest: u)
  have dc: "distinct h4" by (rule map_result_distinct [OF h(4) d(4)]) (auto simp: handles_objects dest: u)
  have s: "\<exists>p e. ?H p = Some (CddsSubscription x e)" if "x \<in> set h1" for x
    using map_result_in [OF h(1) that] by (auto simp: handles_objects)
  have g: "\<exists>p. ?H p = Some (CddsGuardCondition x)" if "x \<in> set h2" for x
    using map_result_in [OF h(2) that] by (auto simp: handles_objects)
  have v: "\<exists>p. ?H p = Some (CddsService x)" if "x \<in> set h3" for x
    using map_result_in [OF h(3) that] by (auto simp: handles_objects)
  have c: "\<exists>p. ?H p = Some (CddsClient x)" if "x \<in> set h4" for x
    using map_result_in [OF h(4) that] by (auto simp: handles_objects)
  have "set h1 \<inter> set h2 = {}" "set h1 \<inter> set h3 = {}" "set h1 \<inter> set h4 = {}" "set h2 \<inter> set h3 = {}" "set h2 \<inter> set h4 = {}"
    "set h3 \<inter> set h4 = {}"
    by (intro equals0I; elim IntE; (drule s | drule g | drule v | drule c)+; elim exE; drule (1) u; simp)+
  then show ?thesis using ds dg dv dc h(5) by auto
qed

lemma arg_events_apart:
  assumes o: "objects_ok V s" and hs: "arg_handles (s_heap s) a = Inr hs" and ks: "arg_keys (s_heap s) a = Inr ks"
  shows "set hs \<inter> fst ` set ks = {}"
proof -
  have "False" if x: "x \<in> set hs" "x \<in> fst ` set ks" for x
  proof -
    obtain p ob where p: "s_heap s p = Some ob" "x \<in> set (object_handles ob)" "entity_enth (s_heap s) p = Inr x"
    proof -
      obtain k where k: "k \<in> set ks" "fst k = x" using x(2) by auto
      then obtain ev where "event_key (s_heap s) ev = Inr k" using map_result_in [OF ks [unfolded arg_keys_def]] by blast
      with k(2) obtain q where "entity_enth (s_heap s) q = Inr x"
        by (auto simp: event_key_def rbind_eq_Inr dangling_def split: option.splits prod.splits)
      then show ?thesis using that [of q] by (auto simp: handles_objects)
    qed
    obtain q where q: "sub_rdcondh (s_heap s) q = Inr x \<or> gc_gcondh (s_heap s) q = Inr x \<or> srv_rdcondh (s_heap s) q = Inr x
        \<or> cl_rdcondh (s_heap s) q = Inr x"
      using hs x(1) by (auto simp: arg_handles_def cond_handles_def rbind_eq_Inr dest!: map_result_in)
    then obtain ob' where q': "s_heap s q = Some ob'" "x \<in> set (object_handles ob')" by (auto simp: handles_objects)
    have "q = p" using same_object [OF o q'(1) p(1) q'(2) p(2)] by simp
    moreover have "distinct (object_handles ob)" using o p(1) by (simp add: objects_ok_def)
    ultimately show False using q p(1,3) by (auto simp: handles_objects)
  qed
  then show ?thesis by blast
qed

section \<open>A run of the instance\<close>

text \<open>
  A wait set, a subscription with the handles 10 and 11 at address 100, a call that waits for it and
  returns.  Then a second call, for nothing, enters and the subscription is destroyed.
\<close>

definition ex_args :: wait_args where
  "ex_args = \<lparr>a_subs = Some [100], a_gcs = None, a_srvs = None, a_cls = None, a_evs = None\<rparr>"

definition ex_no_args :: wait_args where
  "ex_no_args = \<lparr>a_subs = None, a_gcs = None, a_srvs = None, a_cls = None, a_evs = None\<rparr>"

definition ex_0 :: "ex_dds sys" where
  "ex_0 = \<lparr>s_heap = (\<lambda>_. None), s_gcdds = \<lparr>gc_for_empty_waitset = 0, waitsets = []\<rparr>,
     s_dds = \<lparr>x_att = [], x_live = [], x_trig = [], x_next = 1\<rparr>, s_calls = (\<lambda>_. None), s_issued = {}\<rparr>"

definition ex_ws :: waitset where
  "ex_ws = \<lparr>waitseth = 1, trigs = [], nelems = 0, inuse = False, subs = [], gcs = [], srvs = [], cls = [], evs = []\<rparr>"

definition ex_1 :: "ex_dds sys" where
  "ex_1 = \<lparr>s_heap = (\<lambda>_. None), s_gcdds = \<lparr>gc_for_empty_waitset = 2, waitsets = [(7, ex_ws)]\<rparr>,
     s_dds = \<lparr>x_att = [((1, 2), INTPTR_MAX)], x_live = [2, 1], x_trig = [], x_next = 3\<rparr>, s_calls = (\<lambda>_. None), s_issued = {2, 1}\<rparr>"

definition ex_heap :: heap where
  "ex_heap = [100 \<mapsto> CddsSubscription 10 11]"

definition ex_2 :: "ex_dds sys" where
  "ex_2 = \<lparr>s_heap = ex_heap, s_gcdds = \<lparr>gc_for_empty_waitset = 2, waitsets = [(7, ex_ws)]\<rparr>,
     s_dds = \<lparr>x_att = [((1, 2), INTPTR_MAX)], x_live = [10, 11, 2, 1], x_trig = [10], x_next = 12\<rparr>,
     s_calls = (\<lambda>_. None), s_issued = {2, 1} \<union> {10, 11}\<rparr>"

definition ex_3 :: "ex_dds sys" where
  "ex_3 = \<lparr>s_heap = ex_heap, s_gcdds = \<lparr>gc_for_empty_waitset = 2, waitsets = [(7, ex_ws\<lparr>inuse := True\<rparr>)]\<rparr>,
     s_dds = \<lparr>x_att = [((1, 2), INTPTR_MAX)], x_live = [10, 11, 2, 1], x_trig = [10], x_next = 12\<rparr>,
     s_calls = [7 \<mapsto> Entered ex_args 0], s_issued = {2, 1} \<union> {10, 11}\<rparr>"

definition ex_4 :: "ex_dds sys" where
  "ex_4 = \<lparr>s_heap = ex_heap, s_gcdds = \<lparr>gc_for_empty_waitset = 2, waitsets = [(7, ex_ws\<lparr>inuse := True, subs := [100], nelems := 1\<rparr>)]\<rparr>,
     s_dds = \<lparr>x_att = [((1, 10), 0), ((1, 2), INTPTR_MAX)], x_live = [10, 11, 2, 1], x_trig = [10], x_next = 12\<rparr>,
     s_calls = [7 \<mapsto> Blocked ex_args 0], s_issued = {2, 1} \<union> {10, 11}\<rparr>"

definition ex_5 :: "ex_dds sys" where
  "ex_5 = \<lparr>s_heap = ex_heap, s_gcdds = \<lparr>gc_for_empty_waitset = 2,
       waitsets = [(7, ex_ws\<lparr>subs := [100], nelems := 1, trigs := [0, - 1]\<rparr>)]\<rparr>,
     s_dds = \<lparr>x_att = [((1, 10), 0), ((1, 2), INTPTR_MAX)], x_live = [10, 11, 2, 1], x_trig = [10], x_next = 12\<rparr>,
     s_calls = Map.empty, s_issued = {2, 1} \<union> {10, 11}\<rparr>"

definition ex_6 :: "ex_dds sys" where
  "ex_6 = ex_5\<lparr>s_gcdds := \<lparr>gc_for_empty_waitset = 2,
       waitsets = [(7, ex_ws\<lparr>inuse := True, subs := [100], nelems := 1, trigs := [0, - 1]\<rparr>)]\<rparr>,
     s_calls := [7 \<mapsto> Entered ex_no_args 0]\<rparr>"

definition ex_7 :: "ex_dds sys" where
  "ex_7 = ex_6\<lparr>s_heap := Map.empty,
     s_dds := \<lparr>x_att = [((1, 2), INTPTR_MAX)], x_live = [2, 1], x_trig = [10], x_next = 12\<rparr>\<rparr>"

lemmas ex_api_simps = ex_api_def ex_create_def ex_attach_def ex_detach_def ex_delete_def ex_wait_def

lemma ex_step_1: "step ex_api ex_view strict ex_0 ex_1"
proof -
  let ?d1 = "\<lparr>x_att = [], x_live = [1], x_trig = [], x_next = 2\<rparr>" and ?d2 = "\<lparr>x_att = [], x_live = [2, 1], x_trig = [], x_next = 3\<rparr>"
  have "step ex_api ex_view strict ex_0 (ex_0\<lparr>s_gcdds := s_gcdds ex_1, s_dds := s_dds ex_1, s_issued := insert 2 (insert 1 (s_issued ex_0))\<rparr>)"
    by (rule step.create_first [where k = 7 and ws = ex_ws and ?d1.0 = ?d1 and ?d2.0 = ?d2])
      (simp_all add: ex_0_def ex_1_def ex_api_simps fresh_entity_def ex_view_def fun_eq_iff
        rmw_create_wait_set_def fresh_waitset_def ex_ws_def)
  then show ?thesis by (simp add: ex_0_def ex_1_def)
qed

lemma ex_step_2: "step ex_api ex_view strict ex_1 ex_2"
proof -
  let ?obj = "CddsSubscription 10 11"
  have "step ex_api ex_view strict ex_1 (ex_1\<lparr>s_heap := (s_heap ex_1)(100 \<mapsto> ?obj), s_dds := s_dds ex_2,
      s_issued := s_issued ex_1 \<union> set (object_handles ?obj)\<rparr>)"
    by (rule step.create_object) (auto simp: ex_1_def ex_2_def ex_view_def fun_eq_iff)
  then show ?thesis by (simp add: ex_1_def ex_2_def ex_heap_def)
qed

lemma ex_step_3: "step ex_api ex_view strict ex_2 ex_3"
proof -
  have "step ex_api ex_view strict ex_2 (ex_2\<lparr>s_gcdds := put_waitset 7 (ex_ws\<lparr>inuse := True\<rparr>) (s_gcdds ex_2),
      s_calls := (s_calls ex_2)(7 \<mapsto> Entered ex_args 0)\<rparr>)"
    by (rule step.enter [where ws = ex_ws])
      (simp_all add: ex_2_def wait_enter_def ex_ws_def args_ok_def arg_handles_def cond_handles_def arg_keys_def ex_args_def sub_rdcondh_def ex_heap_def)
  then show ?thesis by (simp add: ex_2_def ex_3_def put_waitset_def)
qed

lemma ex_step_4: "step ex_api ex_view strict ex_3 ex_4"
proof -
  let ?ws = "ex_ws\<lparr>inuse := True, subs := [100], nelems := 1\<rparr>"
  have "step ex_api ex_view strict ex_3 (ex_3\<lparr>s_gcdds := put_waitset 7 ?ws (s_gcdds ex_3), s_dds := s_dds ex_4,
      s_calls := (s_calls ex_3)(7 \<mapsto> Blocked ex_args 0)\<rparr>)"
    by (rule step.attach [where ws = "ex_ws\<lparr>inuse := True\<rparr>"])
      (simp_all add: ex_3_def ex_4_def wait_attach_def needs_reattach_def require_reattach_def waitset_detach_def ex_ws_def
        ex_args_def attach_events_def sub_rdcondh_def ex_heap_def ex_api_simps)
  then show ?thesis by (simp add: ex_3_def ex_4_def put_waitset_def)
qed

lemma ex_report: "wait_report ex_api ex_heap ex_args (ex_ws\<lparr>inuse := True, subs := [100], nelems := 1, trigs := [0, - 1]\<rparr>) d = Inr (ex_args, d)"
  unfolding wait_report_def ex_args_def by simp

lemma ex_step_5: "step ex_api ex_view strict ex_4 ex_5"
proof -
  let ?ws1 = "ex_ws\<lparr>inuse := True, subs := [100], nelems := 1, trigs := [0, - 1]\<rparr>"
  let ?ws = "ex_ws\<lparr>subs := [100], nelems := 1, trigs := [0, - 1]\<rparr>"
  have "step ex_api ex_view strict ex_4 (ex_4\<lparr>s_gcdds := put_waitset 7 ?ws (s_gcdds ex_4), s_dds := s_dds ex_5,
      s_calls := (s_calls ex_4)(7 := None)\<rparr>)"
  proof (rule step.return [where a = ex_args and t = 0])
    show "map_of (waitsets (s_gcdds ex_4)) 7 = Some (ex_ws\<lparr>inuse := True, subs := [100], nelems := 1\<rparr>)"
      by (simp add: ex_4_def)
    show "wait_block ex_api 0 (ex_ws\<lparr>inuse := True, subs := [100], nelems := 1\<rparr>) (s_dds ex_4) = (?ws1, None)"
      by (simp add: ex_4_def wait_block_def resize_vec_def ex_ws_def ex_api_simps)
    show "wait_report ex_api (s_heap ex_4) ex_args ?ws1 (s_dds ex_4) = Inr (ex_args, s_dds ex_5)"
      using ex_report by (simp add: ex_4_def ex_5_def)
    show "wait_leave ?ws1 = (RMW_RET_OK, ?ws)" by (simp add: wait_leave_def ex_ws_def)
  qed (simp add: ex_4_def)
  then show ?thesis by (simp add: ex_4_def ex_5_def put_waitset_def)
qed

lemma ex_step_6: "step ex_api ex_view strict ex_5 ex_6"
proof -
  let ?ws = "ex_ws\<lparr>inuse := True, subs := [100], nelems := 1, trigs := [0, - 1]\<rparr>"
  have "step ex_api ex_view strict ex_5 (ex_5\<lparr>s_gcdds := put_waitset 7 ?ws (s_gcdds ex_5),
      s_calls := (s_calls ex_5)(7 \<mapsto> Entered ex_no_args 0)\<rparr>)"
    by (rule step.enter [where ws = "ex_ws\<lparr>subs := [100], nelems := 1, trigs := [0, - 1]\<rparr>"])
      (simp_all add: ex_5_def wait_enter_def ex_ws_def args_ok_def arg_handles_def cond_handles_def arg_keys_def ex_no_args_def)
  then show ?thesis by (simp add: ex_5_def ex_6_def put_waitset_def)
qed

lemma ex_step_7: "step ex_api ex_view False ex_6 ex_7"
proof -
  have "step ex_api ex_view False ex_6 (ex_6\<lparr>s_heap := Map.empty, s_gcdds := (s_gcdds ex_6)\<lparr>waitsets := waitsets (s_gcdds ex_6)\<rparr>,
      s_dds := s_dds ex_7\<rparr>)"
    by (rule step.destroy [where p = 100])
      (simp_all add: ex_5_def ex_6_def ex_7_def may_destroy_def mentions_def ex_no_args_def destroy_object_def ex_heap_def
        ex_api_simps)
  moreover have "ex_6\<lparr>s_heap := Map.empty, s_gcdds := (s_gcdds ex_6)\<lparr>waitsets := waitsets (s_gcdds ex_6)\<rparr>,
      s_dds := s_dds ex_7\<rparr> = ex_7" by (simp add: ex_6_def ex_7_def)
  ultimately show ?thesis by simp
qed

lemma ex_reachable_4: "reachable ex_api ex_view strict ex_4"
proof -
  have "initial ex_view ex_0" by (simp add: initial_def ex_0_def ex_view_def)
  then show ?thesis
    by (intro reachable.further [OF _ ex_step_4] reachable.further [OF _ ex_step_3] reachable.further [OF _ ex_step_2]
        reachable.further [OF _ ex_step_1] reachable.start)
qed

lemma ex_reachable_7: "reachable ex_api ex_view False ex_7"
  by (intro reachable.further [OF _ ex_step_7] reachable.further [OF _ ex_step_6] reachable.further [OF _ ex_step_5] ex_reachable_4)

lemma attach_events_inuse: "attach_events D H es ws n d = Inr (ok, ws2, d2) \<Longrightarrow> inuse ws2 = inuse ws"
  by (auto simp: attach_events_def rbind_eq_Inr split_def split: option.splits)

lemma wait_attach_inuse: "wait_attach D H a ws d = Inr (ok, ws2, d2) \<Longrightarrow> inuse ws2 = inuse ws"
  by (auto simp: wait_attach_def rbind_eq_Inr waitset_detach_eq cleared_def split_def split: if_splits
      dest!: attach_events_inuse)

section \<open>Properties\<close>

text \<open>
  C14. Caching never changes what is waited for.  In every reachable state in which a call to \<open>rmw_wait\<close>
  is blocked, what is attached to its wait set is the dummy guard condition and exactly the handles of
  the objects the call was given, in the order of its arrays, followed by the entities of its supported
  events; although the cache is compared by address, addresses are reused and the call may not have
  attached anything itself.
\<close>

theorem blocked_call_waits_for_arguments:
  assumes "cyclone D V" "reachable D V True s" "s_calls s k = Some (Blocked a t)"
    and "map_of (waitsets (s_gcdds s)) k = Some ws"
  shows "\<exists>hs ks es. arg_handles (s_heap s) a = Inr hs \<and> arg_keys (s_heap s) a = Inr ks \<and> distinct es
    \<and> set es = event_entities ks
    \<and> attached V (s_dds s) (waitseth ws)
        = (\<lambda>e. if e = gc_for_empty_waitset (s_gcdds s) then Some INTPTR_MAX else attach_map (hs @ es) 0 e)"
  by (rule blocked_facts [OF assms]) blast

lemma blocked_call_waits_for_arguments_witness:
  "\<exists>hs. arg_handles ex_heap ex_args = Inr hs \<and>
    attached ex_view (s_dds ex_4) 1 = (\<lambda>e. if e = 2 then Some INTPTR_MAX else attach_map hs 0 e)"
proof -
  have "s_calls ex_4 7 = Some (Blocked ex_args 0)"
    "map_of (waitsets (s_gcdds ex_4)) 7 = Some (ex_ws\<lparr>inuse := True, subs := [100], nelems := 1\<rparr>)"
    by (simp_all add: ex_4_def)
  from blocked_call_waits_for_arguments [OF ex_cyclone ex_reachable_4 this] obtain hs ks es where
    "arg_handles (s_heap ex_4) ex_args = Inr hs" "arg_keys (s_heap ex_4) ex_args = Inr ks" "distinct es" "set es = event_entities ks"
    "attached ex_view (s_dds ex_4) (waitseth (ex_ws\<lparr>inuse := True, subs := [100], nelems := 1\<rparr>))
      = (\<lambda>e. if e = gc_for_empty_waitset (s_gcdds ex_4) then Some INTPTR_MAX else attach_map (hs @ es) 0 e)" by blast
  moreover have "ks = []" using calculation(2) by (simp add: arg_keys_def ex_args_def)
  moreover have "es = []" using calculation(4,6) by simp
  ultimately show ?thesis by (auto simp: ex_4_def ex_ws_def)
qed

text \<open>
  C15. A blocked call that wakes up returns without reading out of bounds or through a dangling pointer,
  keeps in each array exactly the objects whose handles are triggered and nulls the others, and reports
  a timeout exactly if nothing it waits for is triggered.  The arrays must not repeat an object.
\<close>

theorem wakeup_reports_triggered:
  assumes "cyclone D V" "reachable D V True s" "s_calls s k = Some (Blocked a t)"
    and "map_of (waitsets (s_gcdds s)) k = Some ws"
    and "distinct (entries (a_subs a))" "distinct (entries (a_gcs a))" "distinct (entries (a_srvs a))" "distinct (entries (a_cls a))"
    and "int (nelems ws) < INTPTR_MAX"
  shows "\<exists>ws1 a' d'. wait_block D t ws (s_dds s) = (ws1, None) \<and> wait_report D (s_heap s) a ws1 (s_dds s) = Inr (a', d')
    \<and> ready_arrays V (s_dds s) (s_heap s) a a'
    \<and> fst (wait_leave ws1) = (if \<exists>e. attached V (s_dds s) (waitseth ws) e \<noteq> None \<and> triggered V (s_dds s) e
         then RMW_RET_OK else RMW_RET_TIMEOUT)"
proof -
  let ?g = "gc_for_empty_waitset (s_gcdds s)"
  obtain hs ks es where b: "arg_handles (s_heap s) a = Inr hs" "arg_keys (s_heap s) a = Inr ks" "distinct es"
    "set es = event_entities ks" "nelems ws = length (hs @ es)" "?g \<notin> set (hs @ es)"
    "attached V (s_dds s) (waitseth ws) = (\<lambda>e. if e = ?g then Some INTPTR_MAX else attach_map (hs @ es) 0 e)"
    "\<forall>k \<in> set ks. live V (s_dds s) (fst k)" "objects_ok V s"
    by (rule blocked_facts [OF assms(1-4)])
  have "set hs \<inter> set es = {}"
    using arg_events_apart [OF b(9,1,2)] b(4) event_entities_subset [of ks] by blast
  then have "distinct (hs @ es)" using arg_handles_distinct [OF b(9,1) assms(5-8)] b(3) by simp
  then have w: "waits_for V (s_dds s) ?g ws (hs @ es)" using b(5,6,7) assms(9) by (simp add: waits_for_def)
  obtain ts where t: "wait_block D t ws (s_dds s) = (ws\<lparr>trigs := ts @ [- 1]\<rparr>, None)" "pending (ts @ [- 1]) ts 0 0"
    "\<And>i. i < length (hs @ es) \<Longrightarrow> int i \<in> set ts \<longleftrightarrow> triggered V (s_dds s) ((hs @ es) ! i)"
    "ts = [] \<longleftrightarrow> (\<forall>e \<in> insert ?g (set (hs @ es)). \<not> triggered V (s_dds s) e)"
    by (rule wait_block_tokens [OF assms(1) w, of t]) blast
  have "int i \<in> set ts \<longleftrightarrow> triggered V (s_dds s) (hs ! i)" if "i < length hs" for i
    using t(3) [of i] that by (simp add: nth_append)
  then obtain a' d' where r: "wait_report D (s_heap s) a (ws\<lparr>trigs := ts @ [- 1]\<rparr>) (s_dds s) = Inr (a', d')"
    "ready_arrays V (s_dds s) (s_heap s) a a'"
    using wait_report_ready [OF assms(1) b(1,2,8) t(2), of "ws\<lparr>trigs := ts @ [- 1]\<rparr>"] by auto
  have "dom (attached V (s_dds s) (waitseth ws)) = insert ?g (set (hs @ es))"
    by (simp only: b(7) dom_override dom_attach_map)
  then have "ts = [] \<longleftrightarrow> \<not> (\<exists>e. attached V (s_dds s) (waitseth ws) e \<noteq> None \<and> triggered V (s_dds s) e)"
    unfolding t(4) by (metis domIff)
  then show ?thesis using t(1) r by (auto simp: wait_leave_def)
qed

lemma wakeup_reports_triggered_witness:
  "\<exists>ws1 a' d'. wait_report ex_api ex_heap ex_args ws1 (s_dds ex_4) = Inr (a', d') \<and> a_subs a' = Some [100]
     \<and> fst (wait_leave ws1) = RMW_RET_OK"
proof -
  have "s_calls ex_4 7 = Some (Blocked ex_args 0)"
    "map_of (waitsets (s_gcdds ex_4)) 7 = Some (ex_ws\<lparr>inuse := True, subs := [100], nelems := 1\<rparr>)"
    by (simp_all add: ex_4_def)
  from wakeup_reports_triggered [OF ex_cyclone ex_reachable_4 this] obtain ws1 a' d' where
    w: "wait_report ex_api (s_heap ex_4) ex_args ws1 (s_dds ex_4) = Inr (a', d')"
    "ready_arrays ex_view (s_dds ex_4) (s_heap ex_4) ex_args a'"
    "fst (wait_leave ws1) = (if \<exists>e. attached ex_view (s_dds ex_4) 1 e \<noteq> None \<and> triggered ex_view (s_dds ex_4) e
       then RMW_RET_OK else RMW_RET_TIMEOUT)"
    by (auto simp: ex_args_def ex_ws_def)
  have "attached ex_view (s_dds ex_4) 1 10 \<noteq> None \<and> triggered ex_view (s_dds ex_4) 10"
    by (simp add: ex_view_def ex_4_def)
  then have "fst (wait_leave ws1) = RMW_RET_OK" unfolding w(3) by (metis (full_types))
  moreover have "a_subs a' = Some [100]"
    using w(2) by (simp add: ready_arrays_def ready_or_null_def ex_args_def ex_4_def ex_heap_def sub_rdcondh_def ex_view_def)
  ultimately show ?thesis using w(1) by (auto simp: ex_4_def)
qed

text \<open>
  C16. No operation on wait sets reads through a dangling pointer, in a system whose users keep to the
  strict contract: attaching after entering succeeds or reports an error, and so does dropping the
  caches when an object is destroyed.
\<close>

theorem wait_sets_never_dangle:
  assumes "cyclone D V" "reachable D V True s"
  shows "(\<forall>k a t. s_calls s k = Some (Entered a t) \<longrightarrow> (\<exists>ws ok ws' d'. map_of (waitsets (s_gcdds s)) k = Some ws
      \<and> wait_attach D (s_heap s) a ws (s_dds s) = Inr (ok, ws', d')))
    \<and> (\<exists>R' d'. clean_waitset_caches D (s_heap s) (waitsets (s_gcdds s)) (s_dds s) = Inr (R', d')
      \<and> (\<forall>(k, ws) \<in> set R'. inuse ws \<or> cached_ptrs ws = {}))"
proof -
  let ?R = "waitsets (s_gcdds s)" and ?g = "gc_for_empty_waitset (s_gcdds s)"
  have i: "inv V s" using reachable_inv assms by blast
  have attach: "\<exists>ws ok ws' d'. map_of ?R k = Some ws \<and> wait_attach D (s_heap s) a ws (s_dds s) = Inr (ok, ws', d')"
    if c: "s_calls s k = Some (Entered a t)" for k a t
  proof -
    have "k \<in> fst ` set ?R" using i c by (auto simp: inv_def calls_ok_def)
    then obtain ws where ws: "map_of ?R k = Some ws" by (metis map_of_eq_None_iff not_Some_eq)
    have co: "inuse ws" "coherent V (s_heap s) (s_dds s) ?g ws" "args_ok (s_heap s) a"
      using inv_facts(1) [OF i ws] c by (simp_all add: call_ok_def)
    have "?R \<noteq> []" using ws by auto
    from wait_attach_ok [OF assms(1) co(2) args_ok_valid(1) [OF i this co(3)]] show ?thesis
      using ws co(1) by auto
  qed
  have ds: "distinct (map (waitseth \<circ> snd) ?R)" using i by (simp add: inv_def registry_ok_def)
  have "coherent V (s_heap s) (s_dds s) ?g ws" if "(l, ws) \<in> set ?R" "\<not> inuse ws" for l ws
  proof -
    have "call_ok V (s_heap s) (s_dds s) (s_issued s) ?g (s_calls s l) ws" using i that(1) by (auto simp: inv_def calls_ok_def)
    then show ?thesis using that(2) by (auto simp: call_ok_def split: option.splits call.splits)
  qed
  then obtain d' where "clean_waitset_caches D (s_heap s) ?R (s_dds s) = Inr (map (\<lambda>(k, ws). (k, swept ws)) ?R, d')"
    using clean_caches [OF assms(1) ds, of "s_heap s" "s_dds s" ?g] by blast
  then have "\<exists>R' d'. clean_waitset_caches D (s_heap s) ?R (s_dds s) = Inr (R', d') \<and> (\<forall>(k, ws) \<in> set R'. inuse ws \<or> cached_ptrs ws = {})"
    by (auto simp: swept_def cleared_def cached_ptrs_def)
  then show ?thesis using attach by blast
qed

lemma wait_sets_never_dangle_witness:
  "\<exists>R' d'. clean_waitset_caches ex_api ex_heap (waitsets (s_gcdds ex_4)) (s_dds ex_4) = Inr (R', d')"
  using wait_sets_never_dangle [OF ex_cyclone ex_reachable_4] by (auto simp: ex_4_def)

text \<open>
  C17. A call to \<open>rmw_wait\<close> that ends with an error or an exception after it has entered leaves its wait
  set marked as in use, and from then on every call on that wait set is refused; a call that ends with
  success or a timeout releases it.
\<close>

theorem failed_wait_poisons_wait_set:
  assumes "rmw_wait D H a t ws d = Inr (r, a1, ws', d')" "\<not> inuse ws"
  shows "(inuse ws' \<longleftrightarrow> r \<notin> {Returned RMW_RET_OK, Returned RMW_RET_TIMEOUT})
    \<and> (inuse ws' \<longrightarrow> rmw_wait D' H' a' t' ws' d'' = Inr (Returned RMW_RET_ERROR, a', ws', d''))"
proof -
  obtain ok ws2 d2 where at: "wait_attach D H a (ws\<lparr>inuse := True\<rparr>) d = Inr (ok, ws2, d2)"
    using assms by (auto simp: rmw_wait_def wait_enter_def rbind_eq_Inr)
  have u: "inuse ws2" using wait_attach_inuse [OF at] by simp
  obtain ws3 ex where bl: "wait_block D t ws2 d2 = (ws3, ex)" by fastforce
  have u3: "inuse ws3" using wait_block_fields [OF bl] u by auto
  have "inuse ws' \<longleftrightarrow> r \<notin> {Returned RMW_RET_OK, Returned RMW_RET_TIMEOUT}"
    using assms at bl u u3
    by (auto simp: rmw_wait_def wait_enter_def wait_leave_def rbind_eq_Inr split: option.splits if_splits)
  then show ?thesis
    by (simp add: rmw_wait_def wait_enter_def)
qed

text \<open>An event on a publisher whose writer handle is an error code.\<close>

definition ex_bad_args :: wait_args where
  "ex_bad_args = \<lparr>a_subs = None, a_gcs = None, a_srvs = None, a_cls = None,
     a_evs = Some [Some (5, RMW_EVENT_LIVELINESS_LOST)]\<rparr>"

definition ex_bad_heap :: heap where
  "ex_bad_heap = [5 \<mapsto> CddsPublisher (- 3)]"

lemma ex_bad_wait:
  "rmw_wait ex_api ex_bad_heap ex_bad_args 0 ex_ws d
     = Inr (Returned RMW_RET_ERROR, ex_bad_args, ex_ws\<lparr>inuse := True\<rparr>, d)"
proof -
  have k: "event_key ex_bad_heap (Some (5, RMW_EVENT_LIVELINESS_LOST)) = Inr (- 3, RMW_EVENT_LIVELINESS_LOST)"
    by (simp add: event_key_def entity_enth_def ex_bad_heap_def)
  have "needs_reattach ex_bad_heap (ex_ws\<lparr>inuse := True\<rparr>) ex_bad_args = Inr True"
    by (simp add: needs_reattach_def require_reattach_def require_reattach_events_def ex_bad_args_def ex_ws_def)
  then have "wait_attach ex_api ex_bad_heap ex_bad_args (ex_ws\<lparr>inuse := True\<rparr>) d = Inr (False, ex_ws\<lparr>inuse := True\<rparr>, d)"
    by (simp add: wait_attach_def waitset_detach_def ex_bad_args_def ex_ws_def attach_events_def gather_event_entities_def k)
  then show ?thesis by (simp add: rmw_wait_def wait_enter_def ex_ws_def)
qed

lemma failed_wait_poisons_wait_set_witness:
  "rmw_wait ex_api ex_heap ex_no_args 0 (ex_ws\<lparr>inuse := True\<rparr>) (s_dds ex_4)
     = Inr (Returned RMW_RET_ERROR, ex_no_args, ex_ws\<lparr>inuse := True\<rparr>, s_dds ex_4)"
  using failed_wait_poisons_wait_set [OF ex_bad_wait [of "s_dds ex_4"]] by (simp add: ex_ws_def)

text \<open>
  C18. The contract the comment of \<open>clean_waitset_caches\<close> states, that an object is not destroyed while it
  is being used, is too weak.  A reachable state: a call has entered with no arguments, a subscription
  that is only in the cache of its wait set has been destroyed, and the cache was not dropped because
  the wait set is in use; attaching reads the freed subscription.
\<close>

theorem stale_cache_use_after_free:
  "\<exists>s a t ws. reachable ex_api ex_view False s \<and> s_calls s 7 = Some (Entered a t) \<and> mentions a = {}
     \<and> map_of (waitsets (s_gcdds s)) 7 = Some ws \<and> wait_attach ex_api (s_heap s) a ws (s_dds s) = dangling"
proof (intro exI conjI)
  let ?ws = "ex_ws\<lparr>inuse := True, subs := [100], nelems := 1, trigs := [0, - 1]\<rparr>"
  show "reachable ex_api ex_view False ex_7" by (rule ex_reachable_7)
  show "s_calls ex_7 7 = Some (Entered ex_no_args 0)" by (simp add: ex_7_def ex_6_def)
  show "mentions ex_no_args = {}" by (simp add: mentions_def ex_no_args_def)
  show "map_of (waitsets (s_gcdds ex_7)) 7 = Some ?ws" by (simp add: ex_7_def ex_6_def)
  show "wait_attach ex_api (s_heap ex_7) ex_no_args ?ws (s_dds ex_7) = dangling"
    by (simp add: wait_attach_def needs_reattach_def require_reattach_def ex_no_args_def ex_ws_def waitset_detach_def ex_7_def
        sub_rdcondh_def dangling_def)
qed

end
