(* ===== verification/Events.thy ===== *)
theory Events
  imports RmwBase Qos
begin

text \<open>
  Events and notifications of \<^verbatim>\<open>rmw_node.cpp\<close>: the listener callbacks that count what arrives while no user
  callback is set, the functions that set one and push the backlog, and \<open>rmw_take_event\<close>.  The theory
  proves that no notification is lost or counted twice, and that the three switches over the event types
  read and register the same DDS status.
\<close>

section \<open>Counting notifications\<close>

text \<open>
  \<open>user_callback_data_t\<close>.  A callback is an element of an arbitrary type; \<open>None\<close> is null.  Calling one is
  recorded as its identity, the user data and the number of events.
\<close>

record 'c user_callback_data =
  callback :: "'c option"
  user_data :: ptr
  unread_count :: nat
  event_callback :: "dds_status \<Rightarrow> 'c option"
  event_data :: "dds_status \<Rightarrow> ptr"
  event_unread_count :: "dds_status \<Rightarrow> nat"

type_synonym 'c invocation = "'c \<times> ptr \<times> nat"

definition no_callbacks :: "'c user_callback_data" where
  "no_callbacks = \<lparr>callback = None, user_data = 0, unread_count = 0, event_callback = (\<lambda>_. None),
     event_data = (\<lambda>_. 0), event_unread_count = (\<lambda>_. 0)\<rparr>"

definition dds_listener_callback :: "'c user_callback_data \<Rightarrow> 'c user_callback_data \<times> 'c invocation list" where
  "dds_listener_callback d =
     (case callback d of
        Some cb \<Rightarrow> (d, [(cb, user_data d, 1)])
      | None \<Rightarrow> (d\<lparr>unread_count := sz_add (unread_count d) 1\<rparr>, []))"

definition on_event_fn :: "dds_status \<Rightarrow> 'c user_callback_data \<Rightarrow> 'c user_callback_data \<times> 'c invocation list" where
  "on_event_fn st d =
     (case event_callback d st of
        Some cb \<Rightarrow> (d, [(cb, event_data d st, 1)])
      | None \<Rightarrow> (d\<lparr>event_unread_count := (event_unread_count d)(st := sz_add (event_unread_count d st) 1)\<rparr>, []))"

text \<open>
  Setting the callback of a subscription.  \<open>entity_qos\<close> is what \<open>dds_get_qos\<close> reports for its reader and
  \<open>p0\<close> the profile on the stack before it is filled.
\<close>

definition rmw_subscription_set_on_new_message_callback ::
  "rmw_lib \<Rightarrow> dds_qos option \<Rightarrow> rmw_qos_profile \<Rightarrow> 'c option \<Rightarrow> ptr \<Rightarrow> 'c user_callback_data \<Rightarrow>
   rmw_ret \<times> 'c user_callback_data \<times> 'c invocation list" where
  "rmw_subscription_set_on_new_message_callback L entity_qos p0 cb ud d =
     (let d = d\<lparr>callback := cb, user_data := ud\<rparr> in
      case cb of
        None \<Rightarrow> (RMW_RET_OK, d, [])
      | Some c \<Rightarrow>
          if unread_count d = 0 then (RMW_RET_OK, d, [])
          else
            (case get_readwrite_qos L entity_qos p0 of
               Inl e \<Rightarrow> (RMW_RET_ERROR, d, [])
             | Inr sub_qos \<Rightarrow>
                 let events = (if 0 < depth sub_qos then min (unread_count d) (depth sub_qos) else unread_count d) in
                 (RMW_RET_OK, d\<lparr>unread_count := 0\<rparr>, [(c, ud, events)])))"

definition push_unread ::
  "'c option \<Rightarrow> ptr \<Rightarrow> 'c user_callback_data \<Rightarrow> rmw_ret \<times> 'c user_callback_data \<times> 'c invocation list" where
  "push_unread cb ud d =
     (let d = d\<lparr>callback := cb, user_data := ud\<rparr> in
      case cb of
        None \<Rightarrow> (RMW_RET_OK, d, [])
      | Some c \<Rightarrow> if unread_count d = 0 then (RMW_RET_OK, d, [])
                  else (RMW_RET_OK, d\<lparr>unread_count := 0\<rparr>, [(c, ud, unread_count d)]))"

definition rmw_service_set_on_new_request_callback ::
  "'c option \<Rightarrow> ptr \<Rightarrow> 'c user_callback_data \<Rightarrow> rmw_ret \<times> 'c user_callback_data \<times> 'c invocation list" where
  "rmw_service_set_on_new_request_callback = push_unread"

definition rmw_client_set_on_new_response_callback ::
  "'c option \<Rightarrow> ptr \<Rightarrow> 'c user_callback_data \<Rightarrow> rmw_ret \<times> 'c user_callback_data \<times> 'c invocation list" where
  "rmw_client_set_on_new_response_callback = push_unread"

definition event_set_callback ::
  "dds_status \<Rightarrow> 'c option \<Rightarrow> ptr \<Rightarrow> 'c user_callback_data \<Rightarrow> 'c user_callback_data \<times> 'c invocation list" where
  "event_set_callback st cb ud d =
     (let d = d\<lparr>event_callback := (event_callback d)(st := cb), event_data := (event_data d)(st := ud)\<rparr> in
      case cb of
        None \<Rightarrow> (d, [])
      | Some c \<Rightarrow> if event_unread_count d st = 0 then (d, [])
                  else (d\<lparr>event_unread_count := (event_unread_count d)(st := 0)\<rparr>, [(c, ud, event_unread_count d st)]))"

fun rmw_event_set_callback ::
  "rmw_event_type \<Rightarrow> 'c option \<Rightarrow> ptr \<Rightarrow> 'c user_callback_data \<Rightarrow> rmw_ret \<times> 'c user_callback_data \<times> 'c invocation list" where
  "rmw_event_set_callback RMW_EVENT_LIVELINESS_CHANGED cb ud d =
     (RMW_RET_OK, event_set_callback DDS_LIVELINESS_CHANGED_STATUS cb ud d)"
| "rmw_event_set_callback RMW_EVENT_REQUESTED_DEADLINE_MISSED cb ud d =
     (RMW_RET_OK, event_set_callback DDS_REQUESTED_DEADLINE_MISSED_STATUS cb ud d)"
| "rmw_event_set_callback RMW_EVENT_REQUESTED_QOS_INCOMPATIBLE cb ud d =
     (RMW_RET_OK, event_set_callback DDS_REQUESTED_INCOMPATIBLE_QOS_STATUS cb ud d)"
| "rmw_event_set_callback RMW_EVENT_MESSAGE_LOST cb ud d =
     (RMW_RET_OK, event_set_callback DDS_SAMPLE_LOST_STATUS cb ud d)"
| "rmw_event_set_callback RMW_EVENT_SUBSCRIPTION_MATCHED cb ud d =
     (RMW_RET_OK, event_set_callback DDS_SUBSCRIPTION_MATCHED_STATUS cb ud d)"
| "rmw_event_set_callback RMW_EVENT_LIVELINESS_LOST cb ud d =
     (RMW_RET_OK, event_set_callback DDS_LIVELINESS_LOST_STATUS cb ud d)"
| "rmw_event_set_callback RMW_EVENT_OFFERED_DEADLINE_MISSED cb ud d =
     (RMW_RET_OK, event_set_callback DDS_OFFERED_DEADLINE_MISSED_STATUS cb ud d)"
| "rmw_event_set_callback RMW_EVENT_OFFERED_QOS_INCOMPATIBLE cb ud d =
     (RMW_RET_OK, event_set_callback DDS_OFFERED_INCOMPATIBLE_QOS_STATUS cb ud d)"
| "rmw_event_set_callback RMW_EVENT_PUBLISHER_INCOMPATIBLE_TYPE cb ud d =
     (RMW_RET_OK, event_set_callback DDS_INCONSISTENT_TOPIC_STATUS cb ud d)"
| "rmw_event_set_callback RMW_EVENT_SUBSCRIPTION_INCOMPATIBLE_TYPE cb ud d =
     (RMW_RET_OK, event_set_callback DDS_INCONSISTENT_TOPIC_STATUS cb ud d)"
| "rmw_event_set_callback RMW_EVENT_PUBLICATION_MATCHED cb ud d =
     (RMW_RET_OK, event_set_callback DDS_PUBLICATION_MATCHED_STATUS cb ud d)"
| "rmw_event_set_callback RMW_EVENT_INVALID cb ud d = (RMW_RET_INVALID_ARGUMENT, d, [])"
| "rmw_event_set_callback RMW_EVENT_TYPE_MAX cb ud d = (RMW_RET_INVALID_ARGUMENT, d, [])"

section \<open>Reading a status\<close>

text \<open>The identifiers of the DDS policies, those with an rmw counterpart named.\<close>

datatype dds_qos_policy_id =
    DDS_INVALID_QOS_POLICY_ID
  | DDS_DURABILITY_QOS_POLICY_ID
  | DDS_DEADLINE_QOS_POLICY_ID
  | DDS_LIVELINESS_QOS_POLICY_ID
  | DDS_RELIABILITY_QOS_POLICY_ID
  | DDS_HISTORY_QOS_POLICY_ID
  | DDS_LIFESPAN_QOS_POLICY_ID
  | DDS_OTHER_QOS_POLICY_ID nat

datatype rmw_qos_policy_kind =
    RMW_QOS_POLICY_INVALID
  | RMW_QOS_POLICY_DURABILITY
  | RMW_QOS_POLICY_DEADLINE
  | RMW_QOS_POLICY_LIVELINESS
  | RMW_QOS_POLICY_RELIABILITY
  | RMW_QOS_POLICY_HISTORY
  | RMW_QOS_POLICY_LIFESPAN

fun dds_qos_policy_to_rmw_qos_policy :: "dds_qos_policy_id \<Rightarrow> rmw_qos_policy_kind" where
  "dds_qos_policy_to_rmw_qos_policy DDS_DURABILITY_QOS_POLICY_ID = RMW_QOS_POLICY_DURABILITY"
| "dds_qos_policy_to_rmw_qos_policy DDS_DEADLINE_QOS_POLICY_ID = RMW_QOS_POLICY_DEADLINE"
| "dds_qos_policy_to_rmw_qos_policy DDS_LIVELINESS_QOS_POLICY_ID = RMW_QOS_POLICY_LIVELINESS"
| "dds_qos_policy_to_rmw_qos_policy DDS_RELIABILITY_QOS_POLICY_ID = RMW_QOS_POLICY_RELIABILITY"
| "dds_qos_policy_to_rmw_qos_policy DDS_HISTORY_QOS_POLICY_ID = RMW_QOS_POLICY_HISTORY"
| "dds_qos_policy_to_rmw_qos_policy DDS_LIFESPAN_QOS_POLICY_ID = RMW_QOS_POLICY_LIFESPAN"
| "dds_qos_policy_to_rmw_qos_policy DDS_INVALID_QOS_POLICY_ID = RMW_QOS_POLICY_INVALID"
| "dds_qos_policy_to_rmw_qos_policy (DDS_OTHER_QOS_POLICY_ID n) = RMW_QOS_POLICY_INVALID"

text \<open>
  The structures \<open>dds_get_<status>_status\<close> fills, as one record of which each status uses some fields; the
  getters are one parameter, indexed by the status, that gives \<open>None\<close> on an error.
\<close>

record dds_status_fields =
  total_count :: u32
  total_count_change :: u32
  current_count :: u32
  current_count_change :: u32
  alive_count :: u32
  not_alive_count :: u32
  alive_count_change :: u32
  not_alive_count_change :: u32
  last_policy_id :: dds_qos_policy_id

record status_api =
  get_status :: "dds_status \<Rightarrow> dds_entity \<Rightarrow> dds_status_fields option"
  dds_get_topic :: "dds_entity \<Rightarrow> dds_entity"

text \<open>What is stored in \<open>event_info\<close>.  32-bit counts keep their bits, \<open>size_t\<close> fields are extended.\<close>

datatype event_info =
    LivelinessChanged u32 u32 u32 u32
  | DeadlineMissed u32 u32
  | QosIncompatible u32 u32 rmw_qos_policy_kind
  | MessageLost u64 u64
  | Matched u64 u64 u64 u32
  | LivelinessLost u32 u32
  | IncompatibleType u32 u32

definition sub_enth :: "heap \<Rightarrow> ptr \<Rightarrow> dds_entity result" where
  "sub_enth H p = (case H p of Some (CddsSubscription r e) \<Rightarrow> Inr e | _ \<Rightarrow> dangling)"

definition pub_enth :: "heap \<Rightarrow> ptr \<Rightarrow> dds_entity result" where
  "pub_enth H p = (case H p of Some (CddsPublisher e) \<Rightarrow> Inr e | _ \<Rightarrow> dangling)"

definition store_status :: "dds_status_fields option \<Rightarrow> (dds_status_fields \<Rightarrow> event_info) \<Rightarrow> (rmw_ret \<times> bool \<times> event_info option) result" where
  "store_status st f = Inr (case st of None \<Rightarrow> (RMW_RET_ERROR, False, None) | Some s \<Rightarrow> (RMW_RET_OK, True, Some (f s)))"

definition matched_info :: "dds_status_fields \<Rightarrow> event_info" where
  "matched_info s = Matched (ucast (total_count s)) (scast (total_count_change s)) (ucast (current_count s)) (current_count_change s)"

fun rmw_take_event :: "status_api \<Rightarrow> heap \<Rightarrow> rmw_event_type \<Rightarrow> ptr \<Rightarrow> (rmw_ret \<times> bool \<times> event_info option) result" where
  "rmw_take_event A H RMW_EVENT_LIVELINESS_CHANGED p = rbind (sub_enth H p) (\<lambda>e.
     store_status (get_status A DDS_LIVELINESS_CHANGED_STATUS e)
       (\<lambda>s. LivelinessChanged (alive_count s) (not_alive_count s) (alive_count_change s) (not_alive_count_change s)))"
| "rmw_take_event A H RMW_EVENT_REQUESTED_DEADLINE_MISSED p = rbind (sub_enth H p) (\<lambda>e.
     store_status (get_status A DDS_REQUESTED_DEADLINE_MISSED_STATUS e) (\<lambda>s. DeadlineMissed (total_count s) (total_count_change s)))"
| "rmw_take_event A H RMW_EVENT_REQUESTED_QOS_INCOMPATIBLE p = rbind (sub_enth H p) (\<lambda>e.
     store_status (get_status A DDS_REQUESTED_INCOMPATIBLE_QOS_STATUS e)
       (\<lambda>s. QosIncompatible (total_count s) (total_count_change s) (dds_qos_policy_to_rmw_qos_policy (last_policy_id s))))"
| "rmw_take_event A H RMW_EVENT_MESSAGE_LOST p = rbind (sub_enth H p) (\<lambda>e.
     store_status (get_status A DDS_SAMPLE_LOST_STATUS e) (\<lambda>s. MessageLost (ucast (total_count s)) (scast (total_count_change s))))"
| "rmw_take_event A H RMW_EVENT_SUBSCRIPTION_MATCHED p = rbind (sub_enth H p) (\<lambda>e.
     store_status (get_status A DDS_SUBSCRIPTION_MATCHED_STATUS e) matched_info)"
| "rmw_take_event A H RMW_EVENT_LIVELINESS_LOST p = rbind (pub_enth H p) (\<lambda>e.
     store_status (get_status A DDS_LIVELINESS_LOST_STATUS e) (\<lambda>s. LivelinessLost (total_count s) (total_count_change s)))"
| "rmw_take_event A H RMW_EVENT_OFFERED_DEADLINE_MISSED p = rbind (pub_enth H p) (\<lambda>e.
     store_status (get_status A DDS_OFFERED_DEADLINE_MISSED_STATUS e) (\<lambda>s. DeadlineMissed (total_count s) (total_count_change s)))"
| "rmw_take_event A H RMW_EVENT_OFFERED_QOS_INCOMPATIBLE p = rbind (pub_enth H p) (\<lambda>e.
     store_status (get_status A DDS_OFFERED_INCOMPATIBLE_QOS_STATUS e)
       (\<lambda>s. QosIncompatible (total_count s) (total_count_change s) (dds_qos_policy_to_rmw_qos_policy (last_policy_id s))))"
| "rmw_take_event A H RMW_EVENT_PUBLISHER_INCOMPATIBLE_TYPE p = rbind (pub_enth H p) (\<lambda>e.
     store_status (get_status A DDS_INCONSISTENT_TOPIC_STATUS (dds_get_topic A e))
       (\<lambda>s. IncompatibleType (total_count s) (total_count_change s)))"
| "rmw_take_event A H RMW_EVENT_SUBSCRIPTION_INCOMPATIBLE_TYPE p = rbind (sub_enth H p) (\<lambda>e.
     store_status (get_status A DDS_INCONSISTENT_TOPIC_STATUS (dds_get_topic A e))
       (\<lambda>s. IncompatibleType (total_count s) (total_count_change s)))"
| "rmw_take_event A H RMW_EVENT_PUBLICATION_MATCHED p = rbind (pub_enth H p) (\<lambda>e.
     store_status (get_status A DDS_PUBLICATION_MATCHED_STATUS e) matched_info)"
| "rmw_take_event A H RMW_EVENT_INVALID p = Inr (RMW_RET_ERROR, False, None)"
| "rmw_take_event A H RMW_EVENT_TYPE_MAX p = Inr (RMW_RET_ERROR, False, None)"

text \<open>Initialising an event; pointers that are null are refused, and then unsupported types.\<close>

record event_handle =
  event_identifier :: ptr
  event_object :: ptr
  event_type :: rmw_event_type

definition init_rmw_event :: "ptr \<Rightarrow> ptr \<Rightarrow> ptr \<Rightarrow> rmw_event_type \<Rightarrow> rmw_ret \<times> event_handle option" where
  "init_rmw_event ev identifier dat t =
     (if ev = 0 then (RMW_RET_INVALID_ARGUMENT, None)
      else if identifier = 0 then (RMW_RET_INVALID_ARGUMENT, None)
      else if dat = 0 then (RMW_RET_INVALID_ARGUMENT, None)
      else if \<not> is_event_supported t then (RMW_RET_UNSUPPORTED, None)
      else (RMW_RET_OK, Some \<lparr>event_identifier = identifier, event_object = dat, event_type = t\<rparr>))"

section \<open>Runs\<close>

text \<open>What can happen to one user callback structure, each under its mutex, and what it concerns.\<close>

datatype 'c action =
    DataAvailable
  | StatusChanged dds_status
  | SetMessage "dds_qos option" "'c option" ptr
  | SetRequest "'c option" ptr
  | SetResponse "'c option" ptr
  | SetEvent rmw_event_type "'c option" ptr

datatype channel = Data | Status dds_status

fun perform :: "rmw_lib \<Rightarrow> rmw_qos_profile \<Rightarrow> 'c action \<Rightarrow> 'c user_callback_data \<Rightarrow> 'c user_callback_data \<times> 'c invocation list" where
  "perform L p0 DataAvailable d = dds_listener_callback d"
| "perform L p0 (StatusChanged st) d = on_event_fn st d"
| "perform L p0 (SetMessage q cb ud) d = snd (rmw_subscription_set_on_new_message_callback L q p0 cb ud d)"
| "perform L p0 (SetRequest cb ud) d = snd (rmw_service_set_on_new_request_callback cb ud d)"
| "perform L p0 (SetResponse cb ud) d = snd (rmw_client_set_on_new_response_callback cb ud d)"
| "perform L p0 (SetEvent t cb ud) d = snd (rmw_event_set_callback t cb ud d)"

fun concerns :: "'c action \<Rightarrow> channel option" where
  "concerns DataAvailable = Some Data"
| "concerns (StatusChanged st) = Some (Status st)"
| "concerns (SetMessage q cb ud) = Some Data"
| "concerns (SetRequest cb ud) = Some Data"
| "concerns (SetResponse cb ud) = Some Data"
| "concerns (SetEvent t cb ud) = map_option Status (mask_map t)"

fun run_actions :: "rmw_lib \<Rightarrow> rmw_qos_profile \<Rightarrow> 'c action list \<Rightarrow> 'c user_callback_data \<Rightarrow>
    'c user_callback_data \<times> (channel option \<times> 'c invocation) list" where
  "run_actions L p0 [] d = (d, [])"
| "run_actions L p0 (a # as) d =
     (case perform L p0 a d of (d, out) \<Rightarrow>
      case run_actions L p0 as d of (d, log) \<Rightarrow> (d, map (Pair (concerns a)) out @ log))"

definition delivered :: "channel \<Rightarrow> (channel option \<times> 'c invocation) list \<Rightarrow> nat" where
  "delivered ch log = (\<Sum>(c, cb, ud, n) \<leftarrow> log. if c = Some ch then n else 0)"

definition backlog :: "channel \<Rightarrow> 'c user_callback_data \<Rightarrow> nat" where
  "backlog ch d = (case ch of Data \<Rightarrow> unread_count d | Status st \<Rightarrow> event_unread_count d st)"

fun arrival :: "channel \<Rightarrow> 'c action \<Rightarrow> nat" where
  "arrival ch DataAvailable = (if ch = Data then 1 else 0)"
| "arrival ch (StatusChanged st) = (if ch = Status st then 1 else 0)"
| "arrival ch _ = 0"

definition arrivals :: "channel \<Rightarrow> 'c action list \<Rightarrow> nat" where
  "arrivals ch as = sum_list (map (arrival ch) as)"

text \<open>A subscription whose reader keeps only so many samples may cut its backlog.\<close>

fun cuts :: "rmw_lib \<Rightarrow> rmw_qos_profile \<Rightarrow> 'c action \<Rightarrow> bool" where
  "cuts L p0 (SetMessage q cb ud) = (case get_readwrite_qos L q p0 of Inl _ \<Rightarrow> False | Inr p \<Rightarrow> 0 < depth p)"
| "cuts L p0 _ = False"

lemma delivered_simps [simp]:
  "delivered ch [] = 0" "delivered ch (x @ y) = delivered ch x + delivered ch y"
  "delivered ch (map (Pair c) [(cb, ud, n)]) = (if c = Some ch then n else 0)"
  by (simp_all add: delivered_def)

lemma arrivals_simps [simp]: "arrivals ch [] = 0" "arrivals ch (a # as) = arrival ch a + arrivals ch as"
  by (simp_all add: arrivals_def)

lemmas callback_defs = dds_listener_callback_def on_event_fn_def rmw_subscription_set_on_new_message_callback_def
  rmw_service_set_on_new_request_callback_def rmw_client_set_on_new_response_callback_def push_unread_def
  event_set_callback_def Let_def

text \<open>The three switches over the event types agree on the status.\<close>

lemma event_set_callback_status:
  "rmw_event_set_callback t cb ud d =
     (case mask_map t of None \<Rightarrow> (RMW_RET_INVALID_ARGUMENT, d, []) | Some st \<Rightarrow> (RMW_RET_OK, event_set_callback st cb ud d))"
  by (cases t) simp_all

lemma perform_balance:
  assumes "perform L p0 a d = (d', out)" "backlog ch d + arrival ch a < SIZE_MOD"
  shows "delivered ch (map (Pair (concerns a)) out) + backlog ch d' \<le> backlog ch d + arrival ch a"
    and "\<not> cuts L p0 a \<or> ch \<noteq> Data \<Longrightarrow>
      delivered ch (map (Pair (concerns a)) out) + backlog ch d' = backlog ch d + arrival ch a"
proof -
  have "delivered ch (map (Pair (concerns a)) out) + backlog ch d' \<le> backlog ch d + arrival ch a \<and>
    (\<not> cuts L p0 a \<or> ch \<noteq> Data \<longrightarrow>
      delivered ch (map (Pair (concerns a)) out) + backlog ch d' = backlog ch d + arrival ch a)"
    using assms
    by (cases a; cases ch)
      (auto simp: callback_defs backlog_def event_set_callback_status delivered_def
        split: option.splits if_splits sum.splits)
  then show "delivered ch (map (Pair (concerns a)) out) + backlog ch d' \<le> backlog ch d + arrival ch a"
    and "\<not> cuts L p0 a \<or> ch \<noteq> Data \<Longrightarrow>
      delivered ch (map (Pair (concerns a)) out) + backlog ch d' = backlog ch d + arrival ch a" by blast+
qed

lemma run_balance:
  assumes "run_actions L p0 as d = (d', log)" "backlog ch d + arrivals ch as < SIZE_MOD"
  shows "delivered ch log + backlog ch d' \<le> backlog ch d + arrivals ch as \<and>
    ((\<forall>a \<in> set as. \<not> cuts L p0 a) \<or> ch \<noteq> Data \<longrightarrow> delivered ch log + backlog ch d' = backlog ch d + arrivals ch as)"
  using assms
proof (induction as arbitrary: d log)
  case (Cons a as)
  obtain d1 out where a: "perform L p0 a d = (d1, out)" by fastforce
  obtain log' where r: "run_actions L p0 as d1 = (d', log')" "log = map (Pair (concerns a)) out @ log'"
    using Cons.prems(1) a by (auto split: prod.splits)
  have b: "backlog ch d + arrival ch a < SIZE_MOD" using Cons.prems(2) by simp
  note p = perform_balance [OF a b]
  have "backlog ch d1 + arrivals ch as < SIZE_MOD" using p(1) Cons.prems(2) by simp
  note i = Cons.IH [OF r(1) this]
  show ?case
  proof
    show "delivered ch log + backlog ch d' \<le> backlog ch d + arrivals ch (a # as)"
      using conjunct1 [OF i] p(1) by (simp add: r(2))
    show "(\<forall>x \<in> set (a # as). \<not> cuts L p0 x) \<or> ch \<noteq> Data \<longrightarrow>
        delivered ch log + backlog ch d' = backlog ch d + arrivals ch (a # as)"
      using conjunct2 [OF i] p(2) by (auto simp: r(2))
  qed
qed simp

section \<open>Properties\<close>



text \<open>
  The functions on events agree: for every type, the status whose listener a callback is registered
  for, the status that is read when the event is taken and the status whose bit a wait set waits for
  are the same, and the types that are none are refused by all, as by the initialisation of an event.
\<close>

theorem event_functions_agree:
  assumes "sub_enth H p = Inr e \<or> pub_enth H p = Inr e"
    and "rmw_take_event A H t p = Inr (ret, taken, info)"
  shows "(fst (init_rmw_event (Suc a) (Suc b) (Suc c) t) = RMW_RET_OK) = (mask_map t \<noteq> None)
   \<and> rmw_event_set_callback t cb ud d =
       (case mask_map t of None \<Rightarrow> (RMW_RET_INVALID_ARGUMENT, d, []) | Some st \<Rightarrow> (RMW_RET_OK, event_set_callback st cb ud d))
   \<and> get_status_kind_from_rmw D t =
       (case mask_map t of None \<Rightarrow> Inl (OutOfRange ''unordered_map::at'') | Some st \<Rightarrow> Inr (status_bit D st))
   \<and> taken = (case mask_map t of None \<Rightarrow> False | Some st \<Rightarrow>
       get_status A st (if st = DDS_INCONSISTENT_TOPIC_STATUS then dds_get_topic A e else e) \<noteq> None)
   \<and> taken = (ret = RMW_RET_OK) \<and> taken = (info \<noteq> None)"
proof -
  have t: "taken = (case mask_map t of None \<Rightarrow> False | Some st \<Rightarrow>
       get_status A st (if st = DDS_INCONSISTENT_TOPIC_STATUS then dds_get_topic A e else e) \<noteq> None)
     \<and> taken = (ret = RMW_RET_OK) \<and> taken = (info \<noteq> None)"
    using assms
    by (cases t) (auto simp: store_status_def sub_enth_def pub_enth_def dangling_def
        split: option.splits cdds_object.splits)
  have i: "(fst (init_rmw_event (Suc a) (Suc b) (Suc c) t) = RMW_RET_OK) = (mask_map t \<noteq> None)"
    by (simp add: init_rmw_event_def is_event_supported_def)
  show ?thesis
    by (intro conjI i event_set_callback_status get_status_kind_from_rmw_def t [THEN conjunct1]
        t [THEN conjunct2, THEN conjunct1] t [THEN conjunct2, THEN conjunct2])
qed

lemma event_functions_agree_witness:
  "rmw_event_set_callback RMW_EVENT_MESSAGE_LOST (Some (1::nat)) 5 no_callbacks
     = (RMW_RET_OK, event_set_callback DDS_SAMPLE_LOST_STATUS (Some 1) 5 no_callbacks)"
proof -
  have e: "sub_enth [3 \<mapsto> CddsSubscription 1 2] 3 = Inr 2 \<or> pub_enth [3 \<mapsto> CddsSubscription 1 2] 3 = Inr 2"
    by (simp add: sub_enth_def)
  have r: "rmw_take_event \<lparr>get_status = (\<lambda>_ _. None), dds_get_topic = (\<lambda>e. e)\<rparr> [3 \<mapsto> CddsSubscription 1 2]
      RMW_EVENT_MESSAGE_LOST 3 = Inr (RMW_RET_ERROR, False, None)"
    by (simp add: sub_enth_def store_status_def)
  show ?thesis
    using event_functions_agree [OF e r, where cb = "Some (1::nat)" and ud = 5 and d = no_callbacks and D = undefined] by simp
qed

end
