(* ===== verification/Services.thy ===== *)
theory Services
  imports Bytewise RmwBase
begin

text \<open>
  Clients and services of \<^verbatim>\<open>rmw_node.cpp\<close>: sending and taking requests and responses, waiting for a client's
  reader before a response is sent, and whether a service is available.  Calls of Cyclone DDS and of
  the graph cache are fields of \<open>cs_api\<close>, functions on an abstract state \<open>'d\<close> that also stands for what other
  participants do.  Loops that ask the outside world are partial functions; \<open>None\<close> is not returning.
\<close>

section \<open>Requests\<close>

type_synonym handle = u64
type_synonym time = int

record cdds_request_header =
  guid :: u64
  seq :: u64

record 'm cdds_request_wrapper =
  header :: cdds_request_header
  data :: 'm

record 'm request_sample =
  wrap :: "'m cdds_request_wrapper"
  valid_data :: bool
  publication_handle :: handle
  source_timestamp :: time

record rmw_service_info =
  writer_guid :: "u8 list"
  sequence_number :: u64
  request_source_timestamp :: time
  received_timestamp :: time

text \<open>
  The endpoint data of the built-in topics: what the code reads is the user data in the QoS, if there
  is a QoS and it has user data.
\<close>

record endpoint =
  ep_qos :: "u8 list option option"

text \<open>\<open>CddsCS\<close> with what is read through its \<open>pub\<close> and \<open>sub\<close>.\<close>

record CddsCS =
  pub_enth :: dds_entity
  pubiid :: handle
  sub_enth :: dds_entity

text \<open>
  The interface.  A listing gets the buffer and gives its return value and the buffer as it is then;
  \<open>dds_take\<close> gives the one sample it took, if any; \<open>ret_value\<close> is the number of a return code.
\<close>

record ('m, 'd) cs_api =
  ret_value :: "rmw_ret \<Rightarrow> int"
  dds_take :: "dds_entity \<Rightarrow> 'd \<Rightarrow> 'm request_sample option \<times> 'd"
  dds_write_ts :: "dds_entity \<Rightarrow> 'm cdds_request_wrapper \<Rightarrow> time \<Rightarrow> 'd \<Rightarrow> int \<times> 'd"
  dds_get_matched_subscriptions :: "dds_entity \<Rightarrow> handle list \<Rightarrow> 'd \<Rightarrow> int \<times> handle list \<times> 'd"
  dds_get_matched_publications :: "dds_entity \<Rightarrow> handle list \<Rightarrow> 'd \<Rightarrow> int \<times> handle list \<times> 'd"
  dds_get_matched_subscription_data :: "dds_entity \<Rightarrow> handle \<Rightarrow> 'd \<Rightarrow> endpoint option \<times> 'd"
  dds_get_matched_publication_data :: "dds_entity \<Rightarrow> handle \<Rightarrow> 'd \<Rightarrow> endpoint option \<times> 'd"
  parse_key_value :: "u8 list \<Rightarrow> string \<Rightarrow> u8 list option"
  system_clock :: "'d \<Rightarrow> time \<times> 'd"
  dds_time :: "'d \<Rightarrow> time \<times> 'd"
  dds_sleepfor :: "time \<Rightarrow> 'd \<Rightarrow> 'd"
  dds_topic_name :: "dds_entity \<Rightarrow> string \<Rightarrow> 'd \<Rightarrow> int \<times> string \<times> 'd"
  get_reader_count :: "string \<Rightarrow> 'd \<Rightarrow> (rmw_ret \<times> nat) \<times> 'd"
  get_writer_count :: "string \<Rightarrow> 'd \<Rightarrow> (rmw_ret \<times> nat) \<times> 'd"

section \<open>Sending and taking\<close>

definition rmw_send_response_request ::
  "('m, 'd) cs_api \<Rightarrow> CddsCS \<Rightarrow> cdds_request_header \<Rightarrow> 'm \<Rightarrow> time \<Rightarrow> 'd \<Rightarrow> rmw_ret \<times> 'd" where
  "rmw_send_response_request A cs hdr ros_data timestamp d =
     (case dds_write_ts A (pub_enth cs) \<lparr>header = hdr, data = ros_data\<rparr> timestamp d of (n, d) \<Rightarrow>
        if 0 \<le> n then (RMW_RET_OK, d) else (RMW_RET_ERROR, d))"

text \<open>\<open>next_request_id\<close> is the static counter, unsigned; the identifier is also stored through \<open>sequence_id\<close>.\<close>

definition rmw_send_request ::
  "('m, 'd) cs_api \<Rightarrow> CddsCS \<Rightarrow> 'm \<Rightarrow> u32 \<Rightarrow> 'd \<Rightarrow> (rmw_ret \<times> u64 \<times> u32) \<times> 'd" where
  "rmw_send_request A client ros_request next_request_id d =
     (let next_request_id = next_request_id + 1; sequence_id = ucast next_request_id in
      case dds_time A d of (timestamp, d) \<Rightarrow>
      case rmw_send_response_request A client \<lparr>guid = pubiid client, seq = sequence_id\<rparr> ros_request timestamp d of
        (ret, d) \<Rightarrow> ((ret, sequence_id, next_request_id), d))"

text \<open>
  Taking.  \<open>request_header\<close> and \<open>ros_data\<close> are memory of the caller that every sample overwrites, also one
  that is then not reported; they are passed in and out.  \<open>E\<close> is the byte order of the machine.
\<close>

partial_function (option) rmw_take_response_request ::
  "('m, 'd) cs_api \<Rightarrow> endian \<Rightarrow> CddsCS \<Rightarrow> handle \<Rightarrow> rmw_service_info \<Rightarrow> 'm \<Rightarrow> 'd \<Rightarrow>
   ((rmw_ret \<times> bool \<times> rmw_service_info \<times> 'm) \<times> 'd) option" where
  "rmw_take_response_request A E cs srcfilter request_header ros_data d =
     (case dds_take A (sub_enth cs) d of
        (None, d) \<Rightarrow> Some ((RMW_RET_OK, False, request_header, ros_data), d)
      | (Some s, d) \<Rightarrow>
          if valid_data s then
            (case system_clock A d of (now, d) \<Rightarrow>
             let request_header =
               \<lparr>writer_guid = word_bytes E 8 (guid (header (wrap s))) @ word_bytes E 8 (publication_handle s),
                sequence_number = seq (header (wrap s)),
                request_source_timestamp = source_timestamp s,
                received_timestamp = now\<rparr> in
             if srcfilter = 0 \<or> srcfilter = guid (header (wrap s))
             then Some ((RMW_RET_OK, True, request_header, data (wrap s)), d)
             else rmw_take_response_request A E cs srcfilter request_header (data (wrap s)) d)
          else rmw_take_response_request A E cs srcfilter request_header (data (wrap s)) d)"

definition rmw_take_response ::
  "('m, 'd) cs_api \<Rightarrow> endian \<Rightarrow> CddsCS \<Rightarrow> rmw_service_info \<Rightarrow> 'm \<Rightarrow> 'd \<Rightarrow>
   ((rmw_ret \<times> bool \<times> rmw_service_info \<times> 'm) \<times> 'd) option" where
  "rmw_take_response A E client = rmw_take_response_request A E client (pubiid client)"

definition rmw_take_request ::
  "('m, 'd) cs_api \<Rightarrow> endian \<Rightarrow> CddsCS \<Rightarrow> rmw_service_info \<Rightarrow> 'm \<Rightarrow> 'd \<Rightarrow>
   ((rmw_ret \<times> bool \<times> rmw_service_info \<times> 'm) \<times> 'd) option" where
  "rmw_take_request A E service = rmw_take_response_request A E service 0"

section \<open>Matched endpoints\<close>

text \<open>A vector that is resized keeps its elements and is filled with zeros.\<close>

definition resized :: "nat \<Rightarrow> handle list \<Rightarrow> handle list" where
  "resized n res = take n res @ replicate (n - length res) 0"

partial_function (option) matched_loop ::
  "(handle list \<Rightarrow> 'd \<Rightarrow> int \<times> handle list \<times> 'd) \<Rightarrow> int \<Rightarrow> handle list \<Rightarrow> 'd \<Rightarrow> ((rmw_ret \<times> handle list) \<times> 'd) option" where
  "matched_loop fn ret res d =
     (if length res \<le> nat ret then
        (case fn (resized (nat ret + 128) res) d of (ret, res, d) \<Rightarrow>
           if ret < 0 then Some ((RMW_RET_ERROR, res), d) else matched_loop fn ret res d)
      else Some ((RMW_RET_OK, resized (nat ret) res), d))"

definition get_matched_endpoints ::
  "(handle list \<Rightarrow> 'd \<Rightarrow> int \<times> handle list \<times> 'd) \<Rightarrow> handle list \<Rightarrow> 'd \<Rightarrow> ((rmw_ret \<times> handle list) \<times> 'd) option" where
  "get_matched_endpoints fn res d =
     (case fn res d of (ret, res, d) \<Rightarrow>
        if ret < 0 then Some ((RMW_RET_ERROR, res), d) else matched_loop fn ret res d)"

definition parse_user_data :: "('m, 'd) cs_api \<Rightarrow> u8 list option \<Rightarrow> string \<Rightarrow> u8 list option" where
  "parse_user_data A qos = (case qos of None \<Rightarrow> Map.empty | Some ud \<Rightarrow> parse_key_value A ud)"

definition get_user_data_key :: "('m, 'd) cs_api \<Rightarrow> u8 list option option \<Rightarrow> string \<Rightarrow> u8 list option" where
  "get_user_data_key A qos key = (case qos of None \<Rightarrow> None | Some q \<Rightarrow> parse_user_data A q key)"

section \<open>Sending a response\<close>

datatype client_present_t = FAILURE | MAYBE | YES | GONE

text \<open>A key that is not found leaves the empty string.\<close>

definition check_client_service_endpoint :: "('m, 'd) cs_api \<Rightarrow> endpoint option \<Rightarrow> string \<Rightarrow> u8 list \<Rightarrow> bool" where
  "check_client_service_endpoint A ep key needle =
     (case ep of None \<Rightarrow> False
      | Some ep \<Rightarrow> (case get_user_data_key A (ep_qos ep) key of None \<Rightarrow> [] | Some v \<Rightarrow> v) = needle)"

fun find_reader :: "('m, 'd) cs_api \<Rightarrow> dds_entity \<Rightarrow> u8 list \<Rightarrow> handle list \<Rightarrow> 'd \<Rightarrow> client_present_t \<times> 'd" where
  "find_reader A e clientid [] d = (MAYBE, d)"
| "find_reader A e clientid (rdih # rds) d =
     (case dds_get_matched_subscription_data A e rdih d of (rd, d) \<Rightarrow>
        if check_client_service_endpoint A rd ''clientid'' clientid then (YES, d)
        else find_reader A e clientid rds d)"

definition check_for_response_reader ::
  "('m, 'd) cs_api \<Rightarrow> CddsCS \<Rightarrow> handle \<Rightarrow> 'd \<Rightarrow> (client_present_t \<times> 'd) option" where
  "check_for_response_reader A service reqwrih d =
     (case dds_get_matched_publication_data A (sub_enth service) reqwrih d of
        (None, d) \<Rightarrow> Some (GONE, d)
      | (Some reqwr, d) \<Rightarrow>
         (case get_user_data_key A (ep_qos reqwr) ''clientid'' of
            None \<Rightarrow> Some (YES, d)
          | Some clientid \<Rightarrow>
             (case get_matched_endpoints (dds_get_matched_subscriptions A (pub_enth service)) [] d of
                None \<Rightarrow> None
              | Some ((ret, rds), d) \<Rightarrow>
                  if ret_value A ret < 0 then Some (FAILURE, d)
                  else Some (find_reader A (pub_enth service) clientid rds d))))"

abbreviation msecs :: "int \<Rightarrow> time" where
  "msecs n \<equiv> n * 1000000"

partial_function (option) await_reader ::
  "('m, 'd) cs_api \<Rightarrow> CddsCS \<Rightarrow> handle \<Rightarrow> time \<Rightarrow> time \<Rightarrow> 'd \<Rightarrow> (client_present_t \<times> 'd) option" where
  "await_reader A service reqwrih tend tnow d =
     (case check_for_response_reader A service reqwrih d of
        None \<Rightarrow> None
      | Some (st, d) \<Rightarrow>
          if st = MAYBE \<and> tnow < tend then
            (case system_clock A (dds_sleepfor A (msecs 10) d) of (tnow, d) \<Rightarrow>
               await_reader A service reqwrih tend tnow d)
          else Some (st, d))"

definition rmw_send_response ::
  "('m, 'd) cs_api \<Rightarrow> endian \<Rightarrow> CddsCS \<Rightarrow> rmw_service_info \<Rightarrow> 'm \<Rightarrow> 'd \<Rightarrow> (rmw_ret \<times> 'd) option" where
  "rmw_send_response A E service request_header ros_response d =
     (let hdr = \<lparr>guid = bytes_word E (take 8 (writer_guid request_header)), seq = sequence_number request_header\<rparr>;
          reqwrih = bytes_word E (take 8 (drop 8 (writer_guid request_header))) in
      case system_clock A d of (tnow, d) \<Rightarrow>
      case await_reader A service reqwrih (tnow + msecs 100) tnow d of
        None \<Rightarrow> None
      | Some (st, d) \<Rightarrow>
         (case st of
            FAILURE \<Rightarrow> Some (RMW_RET_ERROR, d)
          | MAYBE \<Rightarrow> Some (RMW_RET_TIMEOUT, d)
          | YES \<Rightarrow> (case dds_time A d of (timestamp, d) \<Rightarrow>
              Some (rmw_send_response_request A service hdr ros_response timestamp d))
          | GONE \<Rightarrow> Some (RMW_RET_OK, d)))"

section \<open>Availability of a service\<close>

definition topic_buffer :: "string \<Rightarrow> nat \<Rightarrow> string" where
  "topic_buffer tmp n = take n tmp @ replicate (n - length tmp) (CHR 0x00)"

text \<open>The name is assigned only on success; \<open>None\<close> leaves it as it was.\<close>

definition get_topic_name :: "('m, 'd) cs_api \<Rightarrow> dds_entity \<Rightarrow> 'd \<Rightarrow> (rmw_ret \<times> string option) \<times> 'd" where
  "get_topic_name A endpoint_handle d =
     (case dds_topic_name A endpoint_handle (topic_buffer [] 128) d of (rc, tmp, d) \<Rightarrow>
      case (if 0 < rc \<and> length tmp \<le> nat rc
            then dds_topic_name A endpoint_handle (topic_buffer tmp (nat rc + 1)) d
            else (rc, tmp, d)) of (rc, tmp, d) \<Rightarrow>
        if rc < 0 then ((RMW_RET_ERROR, None), d)
        else if length tmp \<le> nat rc then ((RMW_RET_ERROR, None), d)
        else ((RMW_RET_OK, Some (take (nat rc) tmp)), d))"

fun collect_needles :: "('m, 'd) cs_api \<Rightarrow> dds_entity \<Rightarrow> handle list \<Rightarrow> u8 list list \<Rightarrow> 'd \<Rightarrow> u8 list list \<times> 'd" where
  "collect_needles A e [] needles d = (needles, d)"
| "collect_needles A e (rdih # rds) needles d =
     (case dds_get_matched_subscription_data A e rdih d of (rd, d) \<Rightarrow>
        collect_needles A e rds
          (case rd of None \<Rightarrow> needles
           | Some rd \<Rightarrow> (case get_user_data_key A (ep_qos rd) ''serviceid'' of
               None \<Rightarrow> needles | Some serviceid \<Rightarrow> List.insert serviceid needles)) d)"

fun scan_writers :: "('m, 'd) cs_api \<Rightarrow> dds_entity \<Rightarrow> u8 list list \<Rightarrow> handle list \<Rightarrow> 'd \<Rightarrow> bool \<times> 'd" where
  "scan_writers A e needles [] d = (False, d)"
| "scan_writers A e needles (wrih # wrs) d =
     (case dds_get_matched_publication_data A e wrih d of (wr, d) \<Rightarrow>
        if (case wr of None \<Rightarrow> False
            | Some wr \<Rightarrow> (case get_user_data_key A (ep_qos wr) ''serviceid'' of
                None \<Rightarrow> False | Some serviceid \<Rightarrow> serviceid \<in> set needles))
        then (True, d) else scan_writers A e needles wrs d)"

definition check_for_service_reader_writer ::
  "('m, 'd) cs_api \<Rightarrow> CddsCS \<Rightarrow> 'd \<Rightarrow> ((rmw_ret \<times> bool) \<times> 'd) option" where
  "check_for_service_reader_writer A client d =
     (case get_matched_endpoints (dds_get_matched_subscriptions A (pub_enth client)) [] d of
        None \<Rightarrow> None
      | Some ((ret, rds), d) \<Rightarrow>
          if ret_value A ret < 0 then Some ((RMW_RET_ERROR, False), d)
          else (case get_matched_endpoints (dds_get_matched_publications A (sub_enth client)) [] d of
              None \<Rightarrow> None
            | Some ((ret, wrs), d) \<Rightarrow>
                if ret_value A ret < 0 then Some ((RMW_RET_ERROR, False), d)
                else (case collect_needles A (pub_enth client) rds [] d of (needles, d) \<Rightarrow>
                  if needles = [] then Some ((RMW_RET_OK, rds \<noteq> [] \<and> wrs \<noteq> []), d)
                  else (case scan_writers A (sub_enth client) needles wrs d of (available, d) \<Rightarrow>
                    Some ((RMW_RET_OK, available), d)))))"

definition rmw_service_server_is_available ::
  "('m, 'd) cs_api \<Rightarrow> CddsCS \<Rightarrow> 'd \<Rightarrow> ((rmw_ret \<times> bool) \<times> 'd) option" where
  "rmw_service_server_is_available A client d =
     (case get_topic_name A (pub_enth client) d of ((ret, pub_topic_name), d) \<Rightarrow>
      if ret_value A ret < 0 then Some ((RMW_RET_ERROR, False), d)
      else (case get_topic_name A (sub_enth client) d of ((ret, sub_topic_name), d) \<Rightarrow>
        if ret_value A ret < 0 then Some ((RMW_RET_ERROR, False), d)
        else (case get_reader_count A (case pub_topic_name of None \<Rightarrow> [] | Some s \<Rightarrow> s) d of ((ret, n), d) \<Rightarrow>
          if ret \<noteq> RMW_RET_OK \<or> n = 0 then Some ((ret, False), d)
          else (case get_writer_count A (case sub_topic_name of None \<Rightarrow> [] | Some s \<Rightarrow> s) d of ((ret, n), d) \<Rightarrow>
            if ret \<noteq> RMW_RET_OK \<or> n = 0 then Some ((ret, False), d)
            else check_for_service_reader_writer A client d))))"

end
