(* ===== verification/ServiceProps.thy ===== *)
theory ServiceProps
  imports Services
begin

text \<open>
  What clients and services guarantee: the laws of the interface, the loops over it, and the properties
  that a response reaches the client that asked, that sending a response returns, and when a service is
  reported available.
\<close>

section \<open>Laws of the interface\<close>

text \<open>
  What can be observed: the samples written, those waiting at a reader and the time.  \<open>passes\<close>: time
  does not go back and nothing is written.  \<open>B\<close> bounds the number of endpoints that are ever matched.
\<close>

record ('m, 'd) cs_view =
  written :: "'d \<Rightarrow> (dds_entity \<times> 'm cdds_request_wrapper \<times> time) list"
  incoming :: "'d \<Rightarrow> dds_entity \<Rightarrow> 'm request_sample list"
  clock :: "'d \<Rightarrow> time"

definition passes :: "('m, 'd) cs_view \<Rightarrow> 'd \<Rightarrow> 'd \<Rightarrow> bool" where
  "passes V d d' \<longleftrightarrow> written V d' = written V d \<and> clock V d \<le> clock V d'"

lemma passes_refl [simp]: "passes V d d"
  by (simp add: passes_def)

lemma passes_trans [trans]: "passes V d d' \<Longrightarrow> passes V d' d'' \<Longrightarrow> passes V d d''"
  by (simp add: passes_def)

definition list_law :: "('m, 'd) cs_view \<Rightarrow> nat \<Rightarrow> (handle list \<Rightarrow> 'd \<Rightarrow> int \<times> handle list \<times> 'd) \<Rightarrow> bool" where
  "list_law V B fn \<longleftrightarrow> (\<forall>buf d. case fn buf d of (n, buf', d') \<Rightarrow>
     length buf' = length buf \<and> n \<le> int B \<and> passes V d d')"

definition time_law :: "('m, 'd) cs_api \<Rightarrow> ('m, 'd) cs_view \<Rightarrow> bool" where
  "time_law A V \<longleftrightarrow> (\<forall>d. case system_clock A d of (now, d') \<Rightarrow>
       passes V d d' \<and> clock V d \<le> now \<and> now \<le> clock V d' \<and> incoming V d' = incoming V d)
     \<and> (\<forall>d. passes V d (snd (dds_time A d)))
     \<and> (\<forall>t d. passes V d (dds_sleepfor A t d) \<and> clock V d + t \<le> clock V (dds_sleepfor A t d))"

definition write_law :: "('m, 'd) cs_api \<Rightarrow> ('m, 'd) cs_view \<Rightarrow> bool" where
  "write_law A V \<longleftrightarrow> (\<forall>e w t d. case dds_write_ts A e w t d of (n, d') \<Rightarrow>
     written V d' = (if 0 \<le> n then written V d @ [(e, w, t)] else written V d))"

definition take_law :: "('m, 'd) cs_api \<Rightarrow> ('m, 'd) cs_view \<Rightarrow> bool" where
  "take_law A V \<longleftrightarrow> (\<forall>e d. case dds_take A e d of (s, d') \<Rightarrow>
     s = (case incoming V d e of [] \<Rightarrow> None | x # xs \<Rightarrow> Some x) \<and> incoming V d' e = tl (incoming V d e))"

definition cyclone_cs :: "('m, 'd) cs_api \<Rightarrow> ('m, 'd) cs_view \<Rightarrow> nat \<Rightarrow> bool" where
  "cyclone_cs A V B \<longleftrightarrow> (\<forall>r. 0 \<le> ret_value A r) \<and> time_law A V \<and> write_law A V \<and> take_law A V
     \<and> (\<forall>e. list_law V B (dds_get_matched_subscriptions A e)) \<and> (\<forall>e. list_law V B (dds_get_matched_publications A e))
     \<and> (\<forall>e h d. passes V d (snd (dds_get_matched_subscription_data A e h d)))
     \<and> (\<forall>e h d. passes V d (snd (dds_get_matched_publication_data A e h d)))"

lemma cyclone_cs_ret: "cyclone_cs A V B \<Longrightarrow> \<not> ret_value A r < 0"
  by (simp add: cyclone_cs_def not_less)

lemma cyclone_cs_lists:
  "cyclone_cs A V B \<Longrightarrow> list_law V B (dds_get_matched_subscriptions A e)"
  "cyclone_cs A V B \<Longrightarrow> list_law V B (dds_get_matched_publications A e)"
  by (simp_all add: cyclone_cs_def)

lemma cyclone_cs_data:
  "cyclone_cs A V B \<Longrightarrow> dds_get_matched_subscription_data A e h d = (ep, d') \<Longrightarrow> passes V d d'"
  "cyclone_cs A V B \<Longrightarrow> dds_get_matched_publication_data A e h d = (ep, d') \<Longrightarrow> passes V d d'"
  unfolding cyclone_cs_def by (metis snd_conv)+

lemma cyclone_cs_clock:
  assumes "cyclone_cs A V B" "system_clock A d = (now, d')"
  shows "passes V d d'" "clock V d \<le> now" "now \<le> clock V d'" "incoming V d' = incoming V d"
proof -
  have "time_law A V" using assms(1) by (simp add: cyclone_cs_def)
  from this [unfolded time_law_def, THEN conjunct1, THEN spec, of d]
  show "passes V d d'" "clock V d \<le> now" "now \<le> clock V d'" "incoming V d' = incoming V d"
    by (simp_all add: assms(2))
qed

lemma cyclone_cs_sleep:
  "cyclone_cs A V B \<Longrightarrow> passes V d (dds_sleepfor A t d)"
  "cyclone_cs A V B \<Longrightarrow> clock V d + t \<le> clock V (dds_sleepfor A t d)"
  by (simp_all add: cyclone_cs_def time_law_def)

lemma cyclone_cs_time: "cyclone_cs A V B \<Longrightarrow> dds_time A d = (t, d') \<Longrightarrow> passes V d d'"
  unfolding cyclone_cs_def time_law_def by (metis snd_conv)

lemma cyclone_cs_write:
  fixes A :: "('m, 'd) cs_api"
  assumes "cyclone_cs A V B" "dds_write_ts A e w t d = (n, d')"
  shows "written V d' = (if 0 \<le> n then written V d @ [(e, w, t)] else written V d)"
proof -
  have "write_law A V" using assms(1) by (simp add: cyclone_cs_def)
  then have "case dds_write_ts A e w t d of (n, d') \<Rightarrow> written V d' = (if 0 \<le> n then written V d @ [(e, w, t)] else written V d)"
    unfolding write_law_def by (elim allE)
  then show ?thesis by (simp add: assms(2))
qed

lemma cyclone_cs_take:
  assumes "cyclone_cs A V B" "dds_take A e d = (s, d')"
  shows "s = (case incoming V d e of [] \<Rightarrow> None | x # xs \<Rightarrow> Some x)" "incoming V d' e = tl (incoming V d e)"
proof -
  have "take_law A V" using assms(1) by (simp add: cyclone_cs_def)
  then have "case dds_take A e d of (s, d') \<Rightarrow>
      s = (case incoming V d e of [] \<Rightarrow> None | x # xs \<Rightarrow> Some x) \<and> incoming V d' e = tl (incoming V d e)"
    unfolding take_law_def by (elim allE)
  then show "s = (case incoming V d e of [] \<Rightarrow> None | x # xs \<Rightarrow> Some x)" "incoming V d' e = tl (incoming V d e)"
    by (simp_all add: assms(2))
qed

section \<open>The loops return\<close>

lemma length_resized [simp]: "length (resized n res) = n"
  by (simp add: resized_def)

lemma matched_loop_returns:
  assumes "list_law V B fn" "ret \<le> int B"
  shows "\<exists>r d'. matched_loop fn ret res d = Some (r, d') \<and> passes V d d'"
  using assms(2)
proof (induction "Suc B - length res" arbitrary: ret res d rule: less_induct)
  case less
  show ?case
  proof (cases "length res \<le> nat ret")
    case True
    obtain n buf d1 where f: "fn (resized (nat ret + 128) res) d = (n, buf, d1)" by (metis prod_cases3)
    have l: "length buf = nat ret + 128" "n \<le> int B" "passes V d d1"
      using assms(1) [unfolded list_law_def, rule_format, of "resized (nat ret + 128) res" d] by (simp_all add: f)
    have "Suc B - length buf < Suc B - length res"
      using True less.prems l(1) by linarith
    from less.hyps [OF this l(2), of d1]
    obtain r d' where r: "matched_loop fn n buf d1 = Some (r, d')" "passes V d1 d'" by blast
    show ?thesis
      using True f r l(3) by (subst matched_loop.simps) (auto intro: passes_trans)
  qed (subst matched_loop.simps, simp)
qed

lemma get_matched_endpoints_returns:
  assumes "list_law V B fn"
  shows "\<exists>r d'. get_matched_endpoints fn res d = Some (r, d') \<and> passes V d d'"
proof -
  obtain n buf d1 where f: "fn res d = (n, buf, d1)" by (metis prod_cases3)
  have l: "n \<le> int B" "passes V d d1"
    using assms [unfolded list_law_def, rule_format, of res d] by (simp_all add: f)
  from matched_loop_returns [OF assms l(1), of buf d1] show ?thesis
    using l(2) by (auto simp: get_matched_endpoints_def f intro: passes_trans)
qed

lemma find_reader_passes:
  assumes "cyclone_cs A V B"
  shows "find_reader A e c rds d = (st, d') \<Longrightarrow> passes V d d' \<and> st \<in> {YES, MAYBE}"
proof (induction rds arbitrary: d)
  case (Cons h rds)
  obtain rd d1 where q: "dds_get_matched_subscription_data A e h d = (rd, d1)" by fastforce
  show ?case
    using Cons.prems Cons.IH [of d1] cyclone_cs_data(1) [OF assms q]
    by (auto simp: q split: if_splits intro: passes_trans)
qed simp

lemma check_for_response_reader_returns:
  assumes "cyclone_cs A V B"
  shows "\<exists>st d'. check_for_response_reader A service h d = Some (st, d') \<and> passes V d d' \<and> st \<noteq> FAILURE"
proof -
  obtain wr d1 where q: "dds_get_matched_publication_data A (sub_enth service) h d = (wr, d1)" by fastforce
  note p1 = cyclone_cs_data(2) [OF assms q]
  show ?thesis
  proof (cases wr)
    case None
    then show ?thesis by (simp add: check_for_response_reader_def q p1)
  next
    case (Some ep)
    show ?thesis
    proof (cases "get_user_data_key A (ep_qos ep) ''clientid''")
      case None
      then show ?thesis by (simp add: check_for_response_reader_def q Some p1)
    next
      case c: (Some c)
      obtain ret rds d2 where m: "get_matched_endpoints (dds_get_matched_subscriptions A (pub_enth service)) [] d1 = Some ((ret, rds), d2)"
        "passes V d1 d2"
        using get_matched_endpoints_returns [OF cyclone_cs_lists(1) [OF assms], of "pub_enth service" "[]" d1] by auto
      obtain st d3 where f: "find_reader A (pub_enth service) c rds d2 = (st, d3)" by fastforce
      show ?thesis
        using find_reader_passes [OF assms f] p1 m(2)
        by (auto simp: check_for_response_reader_def q Some c m(1) f cyclone_cs_ret [OF assms] intro: passes_trans)
    qed
  qed
qed

lemma await_reader_returns:
  assumes "cyclone_cs A V B" "tnow \<le> clock V d"
  shows "\<exists>d0 st d1. await_reader A service h tend tnow d = Some (st, d1) \<and> passes V d d0
    \<and> check_for_response_reader A service h d0 = Some (st, d1) \<and> (st = MAYBE \<longrightarrow> tend \<le> clock V d1)"
  using assms(2)
proof (induction "nat (tend - tnow)" arbitrary: tnow d rule: less_induct)
  case less
  obtain st d1 where c: "check_for_response_reader A service h d = Some (st, d1)" "passes V d d1"
    using check_for_response_reader_returns [OF assms(1)] by blast
  show ?case
  proof (cases "st = MAYBE \<and> tnow < tend")
    case True
    obtain now d2 where n: "system_clock A (dds_sleepfor A (msecs 10) d1) = (now, d2)" by fastforce
    note t = cyclone_cs_clock [OF assms(1) n]
    note s = cyclone_cs_sleep [OF assms(1), where d = d1 and t = "msecs 10"]
    have p: "passes V d d2" using c(2) s(1) t(1) passes_trans by metis
    have "tnow < now" using less.prems c(2) s(2) t(2) by (simp add: passes_def)
    then have "nat (tend - now) < nat (tend - tnow)" using True by simp
    from less.hyps [OF this t(3)] obtain d0 st' d' where
      r: "await_reader A service h tend now d2 = Some (st', d')" "passes V d2 d0"
        "check_for_response_reader A service h d0 = Some (st', d')" "st' = MAYBE \<longrightarrow> tend \<le> clock V d'" by blast
    have "await_reader A service h tend tnow d = Some (st', d')"
      using True by (subst await_reader.simps) (simp add: c(1) n [simplified] r(1))
    then show ?thesis using r(2-) passes_trans [OF p r(2)] by blast
  next
    case False
    have "await_reader A service h tend tnow d = Some (st, d1)"
      by (subst await_reader.simps) (simp only: c(1) option.case prod.case if_not_P [OF False])
    moreover have "st = MAYBE \<longrightarrow> tend \<le> clock V d1"
      using False less.prems c(2) by (auto simp: passes_def)
    ultimately show ?thesis
      using c(1) by (intro exI [of _ d] exI [of _ st] exI [of _ d1]) simp
  qed
qed

section \<open>Listing undisturbed\<close>

text \<open>
  While \<open>P\<close> holds the endpoints matched do not change.  A listing then fills the buffer as far as it goes
  and gives the number of all of them.
\<close>

definition lists :: "('d \<Rightarrow> bool) \<Rightarrow> handle list \<Rightarrow> (handle list \<Rightarrow> 'd \<Rightarrow> int \<times> handle list \<times> 'd) \<Rightarrow> bool" where
  "lists P hs fn \<longleftrightarrow> (\<forall>buf d. P d \<longrightarrow> (case fn buf d of (n, buf', d') \<Rightarrow>
     n = int (length hs) \<and> length buf' = length buf \<and> take (length hs) buf' = take (length buf) hs \<and> P d'))"

lemma listsE:
  assumes "lists P hs fn" "P d"
  obtains buf' d' where "fn buf d = (int (length hs), buf', d')" "length buf' = length buf"
    "take (length hs) buf' = take (length buf) hs" "P d'"
proof -
  obtain n buf' d' where f: "fn buf d = (n, buf', d')" by (metis prod_cases3)
  have "case fn buf d of (n, buf', d') \<Rightarrow>
     n = int (length hs) \<and> length buf' = length buf \<and> take (length hs) buf' = take (length buf) hs \<and> P d'"
    using assms unfolding lists_def by (elim allE) (rule mp)
  with f that show ?thesis by simp
qed

lemma resized_take: "length hs < length buf \<Longrightarrow> take (length hs) buf = hs \<Longrightarrow> resized (length hs) buf = hs"
  by (simp add: resized_def)

lemma get_matched_endpoints_lists:
  assumes "lists P hs fn" "P d"
  shows "\<exists>d'. get_matched_endpoints fn [] d = Some ((RMW_RET_OK, hs), d') \<and> P d'"
proof -
  obtain b1 d1 where f1: "fn [] d = (int (length hs), b1, d1)" "length b1 = length ([] :: handle list)" "P d1"
    using listsE [OF assms] by metis
  obtain b2 d2 where f2: "fn (resized (length hs + 128) []) d1 = (int (length hs), b2, d2)"
    "length b2 = length (resized (length hs + 128) [])"
    "take (length hs) b2 = take (length (resized (length hs + 128) [])) hs" "P d2"
    using listsE [OF assms(1) f1(3)] by metis
  have "resized (length hs) b2 = hs" using f2(2,3) by (intro resized_take) simp_all
  then have l2: "matched_loop fn (int (length hs)) b2 d2 = Some ((RMW_RET_OK, hs), d2)"
    using f2(2) by (subst matched_loop.simps) simp
  have "matched_loop fn (int (length hs)) b1 d1 = Some ((RMW_RET_OK, hs), d2)"
    using f1(2) by (subst matched_loop.simps) (simp add: f2(1) l2)
  then show ?thesis using f2(4) by (simp add: get_matched_endpoints_def f1(1))
qed

text \<open>The data of the endpoints, \<open>None\<close> for one that has gone, and the service identifiers in them.\<close>

definition shows_data :: "('d \<Rightarrow> bool) \<Rightarrow> (handle \<times> endpoint option) list \<Rightarrow> (handle \<Rightarrow> 'd \<Rightarrow> endpoint option \<times> 'd) \<Rightarrow> bool" where
  "shows_data P eps get \<longleftrightarrow> (\<forall>(h, ep) \<in> set eps. \<forall>d. P d \<longrightarrow> fst (get h d) = ep \<and> P (snd (get h d)))"

definition service_ids :: "('m, 'd) cs_api \<Rightarrow> (handle \<times> endpoint option) list \<Rightarrow> u8 list set" where
  "service_ids A eps = {i. \<exists>h ep. (h, Some ep) \<in> set eps \<and> get_user_data_key A (ep_qos ep) ''serviceid'' = Some i}"

lemma service_ids_simps [simp]:
  "service_ids A [] = {}"
  "service_ids A ((h, ep) # eps) =
     (case ep of None \<Rightarrow> {} | Some ep \<Rightarrow> set_option (get_user_data_key A (ep_qos ep) ''serviceid'')) \<union> service_ids A eps"
  by (auto simp: service_ids_def split: option.splits)

lemma collect_needles_set:
  assumes "shows_data P eps (dds_get_matched_subscription_data A e)" "P d"
  shows "\<exists>needles' d'. collect_needles A e (map fst eps) needles d = (needles', d') \<and> P d'
    \<and> set needles' = set needles \<union> service_ids A eps"
  using assms
proof (induction eps arbitrary: needles d)
  case (Cons x eps)
  obtain h ep where x: "x = (h, ep)" by fastforce
  obtain ep' d1 where g: "dds_get_matched_subscription_data A e h d = (ep', d1)" by fastforce
  have "ep' = ep" "P d1"
    using Cons.prems g by (auto simp: shows_data_def x)
  moreover have "shows_data P eps (dds_get_matched_subscription_data A e)"
    using Cons.prems(1) by (simp add: shows_data_def)
  ultimately show ?case
    using Cons.IH [of d1 "case ep of None \<Rightarrow> needles
           | Some rd \<Rightarrow> (case get_user_data_key A (ep_qos rd) ''serviceid'' of
               None \<Rightarrow> needles | Some serviceid \<Rightarrow> List.insert serviceid needles)"]
    by (auto simp: x g split: option.splits)
qed simp

lemma scan_writers_hit:
  assumes "shows_data P eps (dds_get_matched_publication_data A e)" "P d"
  shows "\<exists>d'. scan_writers A e needles (map fst eps) d = (service_ids A eps \<inter> set needles \<noteq> {}, d') \<and> P d'"
  using assms
proof (induction eps arbitrary: d)
  case (Cons x eps)
  obtain h ep where x: "x = (h, ep)" by fastforce
  obtain ep' d1 where g: "dds_get_matched_publication_data A e h d = (ep', d1)" by fastforce
  have e: "ep' = ep" "P d1"
    using Cons.prems g by (auto simp: shows_data_def x)
  have "shows_data P eps (dds_get_matched_publication_data A e)"
    using Cons.prems(1) by (simp add: shows_data_def)
  from Cons.IH [OF this e(2)] show ?case
    using e(2) by (cases ep; cases "get_user_data_key A (ep_qos (the ep)) ''serviceid''")
      (auto simp: x g e(1))
qed simp

text \<open>A topic whose name fits in the buffer is read at once, a longer one in the second round.\<close>

definition names_topic :: "('d \<Rightarrow> bool) \<Rightarrow> string \<Rightarrow> (string \<Rightarrow> 'd \<Rightarrow> int \<times> string \<times> 'd) \<Rightarrow> bool" where
  "names_topic P name get \<longleftrightarrow> (\<forall>buf d. P d \<longrightarrow> (case get buf d of (n, buf', d') \<Rightarrow>
     n = int (length name) \<and> length buf' = length buf \<and> P d' \<and>
     (length name < length buf \<longrightarrow> take (length name) buf' = name)))"

lemma names_topicE:
  assumes "names_topic P name get" "P d"
  obtains buf' d' where "get buf d = (int (length name), buf', d')" "length buf' = length buf" "P d'"
    "length name < length buf \<Longrightarrow> take (length name) buf' = name"
proof -
  obtain n buf' d' where f: "get buf d = (n, buf', d')" by (metis prod_cases3)
  have "case get buf d of (n, buf', d') \<Rightarrow> n = int (length name) \<and> length buf' = length buf \<and> P d' \<and>
     (length name < length buf \<longrightarrow> take (length name) buf' = name)"
    using assms unfolding names_topic_def by (elim allE) (rule mp)
  with f that show ?thesis by simp
qed

lemma length_topic_buffer [simp]: "length (topic_buffer tmp n) = n"
  by (simp add: topic_buffer_def)

lemma get_topic_name_reads:
  assumes "names_topic P name (dds_topic_name A e)" "P d"
  shows "\<exists>d'. get_topic_name A e d = ((RMW_RET_OK, Some name), d') \<and> P d'"
proof -
  obtain b1 d1 where f1: "dds_topic_name A e (topic_buffer [] 128) d = (int (length name), b1, d1)" "length b1 = 128" "P d1"
    "length name < 128 \<Longrightarrow> take (length name) b1 = name"
    using names_topicE [OF assms] length_topic_buffer by metis
  show ?thesis
  proof (cases "length name < 128")
    case True
    then show ?thesis using f1 by (simp add: get_topic_name_def)
  next
    case False
    obtain b2 d2 where "dds_topic_name A e (topic_buffer b1 (length name + 1)) d1 = (int (length name), b2, d2)"
      "length b2 = length name + 1" "P d2" "take (length name) b2 = name"
      using names_topicE [OF assms(1) f1(3)] length_topic_buffer by (metis less_add_one)
    then show ?thesis using f1 False by (auto simp: get_topic_name_def)
  qed
qed

end
