(* ===== verification/ServiceClaims.thy ===== *)
theory ServiceClaims
  imports ServiceProps
begin

text \<open>
  The properties of clients and services, and a small instance of the interface on which their
  hypotheses hold.
\<close>

section \<open>Taking\<close>

definition accepts :: "handle \<Rightarrow> 'm request_sample \<Rightarrow> bool" where
  "accepts srcfilter s \<longleftrightarrow> valid_data s \<and> (srcfilter = 0 \<or> srcfilter = guid (header (wrap s)))"

definition describes_request :: "endian \<Rightarrow> 'm request_sample \<Rightarrow> rmw_service_info \<Rightarrow> bool" where
  "describes_request E s info \<longleftrightarrow>
     writer_guid info = word_bytes E 8 (guid (header (wrap s))) @ word_bytes E 8 (publication_handle s)
     \<and> sequence_number info = seq (header (wrap s)) \<and> request_source_timestamp info = source_timestamp s"

text \<open>The loop returns, with the first sample accepted, if there is one; what precedes it is consumed.\<close>

lemma rmw_take_response_request_first:
  assumes "cyclone_cs A V B" "incoming V d (sub_enth cs) = xs"
  shows "\<exists>info m' d'. rmw_take_response_request A E cs f hdr m d = Some ((RMW_RET_OK, \<exists>s \<in> set xs. accepts f s, info, m'), d')
    \<and> incoming V d' (sub_enth cs) = tl (dropWhile (\<lambda>s. \<not> accepts f s) xs)
    \<and> (case dropWhile (\<lambda>s. \<not> accepts f s) xs of [] \<Rightarrow> True | s # _ \<Rightarrow> describes_request E s info \<and> m' = data (wrap s))"
  using assms(2)
proof (induction xs arbitrary: hdr m d)
  case Nil
  obtain s d1 where t: "dds_take A (sub_enth cs) d = (s, d1)" by fastforce
  then show ?case
    using cyclone_cs_take [OF assms(1) t] Nil by (subst rmw_take_response_request.simps) simp
next
  case (Cons x xs)
  obtain s d1 where t: "dds_take A (sub_enth cs) d = (s, d1)" by fastforce
  have s: "s = Some x" "incoming V d1 (sub_enth cs) = xs"
    using cyclone_cs_take [OF assms(1) t] Cons.prems by simp_all
  obtain now d2 where n: "system_clock A d1 = (now, d2)" by fastforce
  have i: "incoming V d2 (sub_enth cs) = xs"
    using cyclone_cs_clock(4) [OF assms(1) n] s(2) by simp
  show ?case
  proof (cases "accepts f x")
    case True
    then show ?thesis
      using i by (subst rmw_take_response_request.simps) (auto simp: t s(1) n accepts_def describes_request_def Let_def)
  next
    case False
    let ?hdr = "\<lparr>writer_guid = word_bytes E 8 (guid (header (wrap x))) @ word_bytes E 8 (publication_handle x),
      sequence_number = seq (header (wrap x)), request_source_timestamp = source_timestamp x, received_timestamp = now\<rparr>"
    have "rmw_take_response_request A E cs f hdr m d =
        (if valid_data x then rmw_take_response_request A E cs f ?hdr (data (wrap x)) d2
         else rmw_take_response_request A E cs f hdr (data (wrap x)) d1)"
      using False by (subst rmw_take_response_request.simps) (simp add: t s(1) n accepts_def Let_def)
    then show ?thesis
      using False Cons.IH [OF i, of ?hdr "data (wrap x)"] Cons.IH [OF s(2), of hdr "data (wrap x)"] by simp
  qed
qed

section \<open>What is written\<close>

lemma send_written:
  assumes "cyclone_cs A V B" "rmw_send_response_request A cs hdr m t d = (ret, d')"
  shows "written V d' = (if ret = RMW_RET_OK then written V d @ [(pub_enth cs, \<lparr>header = hdr, data = m\<rparr>, t)] else written V d)"
    and "ret \<noteq> RMW_RET_OK \<Longrightarrow> ret = RMW_RET_ERROR"
proof -
  obtain n d1 where w: "dds_write_ts A (pub_enth cs) \<lparr>header = hdr, data = m\<rparr> t d = (n, d1)" by fastforce
  show "written V d' = (if ret = RMW_RET_OK then written V d @ [(pub_enth cs, \<lparr>header = hdr, data = m\<rparr>, t)] else written V d)"
    and "ret \<noteq> RMW_RET_OK \<Longrightarrow> ret = RMW_RET_ERROR"
    using assms(2) cyclone_cs_write [OF assms(1) w] by (auto simp: rmw_send_response_request_def w split: if_splits)
qed

lemma send_request_written:
  assumes "cyclone_cs A V B" "rmw_send_request A client q n d = ((RMW_RET_OK, sid, n'), d')"
  shows "\<exists>t. written V d' = written V d @ [(pub_enth client, \<lparr>header = \<lparr>guid = pubiid client, seq = sid\<rparr>, data = q\<rparr>, t)]"
    and "n' = n + 1" "sid = ucast (n + 1)"
proof -
  obtain t d1 where t: "dds_time A d = (t, d1)" by fastforce
  obtain ret d2 where s: "rmw_send_response_request A client \<lparr>guid = pubiid client, seq = ucast (n + 1)\<rparr> q t d1 = (ret, d2)"
    by fastforce
  have "written V d1 = written V d" using cyclone_cs_time [OF assms(1) t] by (simp add: passes_def)
  then show "\<exists>t. written V d' = written V d @ [(pub_enth client, \<lparr>header = \<lparr>guid = pubiid client, seq = sid\<rparr>, data = q\<rparr>, t)]"
    and "n' = n + 1" "sid = ucast (n + 1)"
    using assms(2) send_written(1) [OF assms(1) s] by (auto simp: rmw_send_request_def Let_def t s)
qed

text \<open>The header a response is sent with, as it is read from the identifier of the request.\<close>

definition response_header :: "endian \<Rightarrow> rmw_service_info \<Rightarrow> cdds_request_header" where
  "response_header E info = \<lparr>guid = bytes_word E (take 8 (writer_guid info)), seq = sequence_number info\<rparr>"

definition requester :: "endian \<Rightarrow> rmw_service_info \<Rightarrow> handle" where
  "requester E info = bytes_word E (take 8 (drop 8 (writer_guid info)))"

lemma response_header_describes:
  assumes "describes_request E s info"
  shows "response_header E info = header (wrap s)" "requester E info = publication_handle s"
  using assms by (simp_all add: describes_request_def response_header_def requester_def bytes_word_word_bytes)

lemma rmw_send_response_cases:
  assumes "cyclone_cs A V B"
  shows "\<exists>d0 st d1 ret d'. rmw_send_response A E service info m d = Some (ret, d') \<and> passes V d d0 \<and> passes V d0 d1
    \<and> check_for_response_reader A service (requester E info) d0 = Some (st, d1)
    \<and> (case st of
         FAILURE \<Rightarrow> False
       | MAYBE \<Rightarrow> ret = RMW_RET_TIMEOUT \<and> d' = d1 \<and> clock V d + msecs 100 \<le> clock V d1
       | YES \<Rightarrow> (\<exists>t d2. dds_time A d1 = (t, d2) \<and> (ret, d') = rmw_send_response_request A service (response_header E info) m t d2)
       | GONE \<Rightarrow> ret = RMW_RET_OK \<and> d' = d1)"
proof -
  obtain now dn where n: "system_clock A d = (now, dn)" by fastforce
  note c = cyclone_cs_clock [OF assms n]
  obtain d0 st d1 where w: "await_reader A service (requester E info) (now + msecs 100) now dn = Some (st, d1)" "passes V dn d0"
    "check_for_response_reader A service (requester E info) d0 = Some (st, d1)" "st = MAYBE \<longrightarrow> now + msecs 100 \<le> clock V d1"
    using await_reader_returns [OF assms c(3), of service "requester E info" "now + msecs 100"] by blast
  have p: "passes V d d0" "passes V d0 d1" "st \<noteq> FAILURE"
    using passes_trans [OF c(1) w(2)] check_for_response_reader_returns [OF assms, of service "requester E info" d0] w(3) by auto
  obtain t d2 where t: "dds_time A d1 = (t, d2)" by fastforce
  obtain ret d' where r: "rmw_send_response_request A service (response_header E info) m t d2 = (ret, d')" by fastforce
  note e = rmw_send_response_def Let_def requester_def [symmetric] response_header_def [symmetric]
  show ?thesis
  proof (cases st)
    case YES
    then have "rmw_send_response A E service info m d = Some (ret, d')"
      by (simp add: e n w(1) [simplified] t r)
    then show ?thesis using p w(3) YES t r
      by (intro exI [of _ d0] exI [of _ st] exI [of _ d1] exI [of _ ret] exI [of _ d']) simp
  next
    case MAYBE
    then have "rmw_send_response A E service info m d = Some (RMW_RET_TIMEOUT, d1)" by (simp add: e n w(1) [simplified])
    then show ?thesis using p w(3,4) MAYBE c(2)
      by (intro exI [of _ d0] exI [of _ st] exI [of _ d1] exI [of _ RMW_RET_TIMEOUT] exI [of _ d1]) simp
  next
    case GONE
    then have "rmw_send_response A E service info m d = Some (RMW_RET_OK, d1)" by (simp add: e n w(1) [simplified])
    then show ?thesis using p w(3) GONE
      by (intro exI [of _ d0] exI [of _ st] exI [of _ d1] exI [of _ RMW_RET_OK] exI [of _ d1]) simp
  qed (use p in simp)
qed

lemma rmw_send_response_written:
  assumes "cyclone_cs A V B" "rmw_send_response A E service info m d = Some (ret, d')"
  shows "written V d' = written V d \<or>
    (\<exists>t. written V d' = written V d @ [(pub_enth service, \<lparr>header = response_header E info, data = m\<rparr>, t)])"
proof -
  obtain d0 st d1 where c: "passes V d d0" "passes V d0 d1"
    "case st of FAILURE \<Rightarrow> False
       | MAYBE \<Rightarrow> ret = RMW_RET_TIMEOUT \<and> d' = d1 \<and> clock V d + msecs 100 \<le> clock V d1
       | YES \<Rightarrow> (\<exists>t d2. dds_time A d1 = (t, d2) \<and> (ret, d') = rmw_send_response_request A service (response_header E info) m t d2)
       | GONE \<Rightarrow> ret = RMW_RET_OK \<and> d' = d1"
    using rmw_send_response_cases [OF assms(1), of E service info m d] assms(2) by auto
  have w: "written V d1 = written V d" using c(1,2) by (simp add: passes_def)
  show ?thesis
  proof (cases st)
    case YES
    then obtain t d2 where t: "dds_time A d1 = (t, d2)"
      "rmw_send_response_request A service (response_header E info) m t d2 = (ret, d')" using c(3) by auto
    have "written V d2 = written V d" using cyclone_cs_time [OF assms(1) t(1)] w by (simp add: passes_def)
    then show ?thesis using send_written(1) [OF assms(1) t(2)] by auto
  qed (use c(3) w in simp_all)
qed

section \<open>An instance of the interface\<close>

text \<open>
  Time passes only by sleeping, samples written are recorded, entity 20 is matched with reader 21 and
  entity 30 with writer 31, both of the service with the identifier of one byte.
\<close>

record 'm ex_world =
  now_w :: time
  out_w :: "(dds_entity \<times> 'm cdds_request_wrapper \<times> time) list"
  queue_w :: "dds_entity \<Rightarrow> 'm request_sample list"

definition ex_list :: "handle list \<Rightarrow> handle list \<Rightarrow> 'd \<Rightarrow> int \<times> handle list \<times> 'd" where
  "ex_list hs buf d = (int (length hs), take (length buf) hs @ drop (length hs) buf, d)"

definition ex_name :: "string \<Rightarrow> string \<Rightarrow> 'd \<Rightarrow> int \<times> string \<times> 'd" where
  "ex_name nm buf d = (int (length nm), take (length buf) nm @ drop (length nm) buf, d)"

definition ex_cs_api :: "(nat, nat ex_world) cs_api" where
  "ex_cs_api = \<lparr>
     ret_value = (\<lambda>r. if r = RMW_RET_OK then 0 else 1),
     dds_take = (\<lambda>e d. case queue_w d e of [] \<Rightarrow> (None, d) | x # xs \<Rightarrow> (Some x, d\<lparr>queue_w := (queue_w d)(e := xs)\<rparr>)),
     dds_write_ts = (\<lambda>e w t d. (0, d\<lparr>out_w := out_w d @ [(e, w, t)]\<rparr>)),
     dds_get_matched_subscriptions = (\<lambda>e. ex_list (if e = 20 then [21] else [])),
     dds_get_matched_publications = (\<lambda>e. ex_list (if e = 30 then [31] else [])),
     dds_get_matched_subscription_data = (\<lambda>e h d. (if h = 21 then Some \<lparr>ep_qos = Some (Some [7])\<rparr> else None, d)),
     dds_get_matched_publication_data = (\<lambda>e h d. (if h = 31 then Some \<lparr>ep_qos = Some (Some [7])\<rparr> else None, d)),
     parse_key_value = (\<lambda>bs key. if key = ''serviceid'' then Some bs else None),
     system_clock = (\<lambda>d. (now_w d, d)),
     dds_time = (\<lambda>d. (now_w d, d)),
     dds_sleepfor = (\<lambda>t d. d\<lparr>now_w := now_w d + max 0 t\<rparr>),
     dds_topic_name = (\<lambda>e. ex_name (if e = 20 then ''rq/addRequest'' else ''rr/addReply'')),
     get_reader_count = (\<lambda>s d. ((RMW_RET_OK, 1), d)),
     get_writer_count = (\<lambda>s d. ((RMW_RET_OK, 1), d))\<rparr>"

definition ex_cs_view :: "(nat, nat ex_world) cs_view" where
  "ex_cs_view = \<lparr>written = out_w, incoming = queue_w, clock = now_w\<rparr>"

lemma min_plus_rest [simp]: "min a b + (b - a) = (b :: nat)"
  by (simp add: min_def)

lemma ex_list_lists: "lists P hs (ex_list hs)"
  by (simp add: lists_def ex_list_def min_def)

lemma ex_name_names: "names_topic P nm (ex_name nm)"
  by (simp add: names_topic_def ex_name_def)

lemma ex_cyclone_cs: "cyclone_cs ex_cs_api ex_cs_view 1"
  by (simp add: cyclone_cs_def time_law_def write_law_def take_law_def list_law_def passes_def ex_cs_api_def ex_cs_view_def
      ex_list_def split: list.splits)

section \<open>Properties\<close>

text \<open>
  C20. A response reaches the client that asked, and only that one: if a service takes the request a
  client wrote and sends a response with the identifier it was given, then a client whose reader has
  that response first takes it, with the sequence number of the request, if it is the client that
  wrote the request, and passes it over if it is another.
\<close>

theorem request_response_correlation:
  assumes "cyclone_cs A V B"
    and "rmw_send_request A client q n d0 = ((RMW_RET_OK, sid, n'), d1)" "last (written V d1) = (w, wrap s, t)"
    and "incoming V d2 (sub_enth service) = s # ss" "valid_data s"
    and "rmw_take_request A E service hdr m d2 = Some ((ret, taken, rid, q'), d3)"
    and "rmw_send_response A E service rid r d4 = Some (ret', d5)" "written V d5 \<noteq> written V d4"
    and "last (written V d5) = (w', wrap s', t')"
    and "incoming V d6 (sub_enth client') = s' # ss'" "valid_data s'" "pubiid client' \<noteq> 0"
    and "rmw_take_response A E client' hdr' m' d6 = Some ((ret'', taken', info, r'), d7)"
  shows "taken \<and> q' = q
    \<and> (pubiid client' = pubiid client \<longrightarrow>
        taken' \<and> r' = r \<and> sequence_number info = sid \<and> incoming V d7 (sub_enth client') = ss')
    \<and> (pubiid client' \<noteq> pubiid client \<longrightarrow> taken' = (\<exists>x \<in> set ss'. accepts (pubiid client') x))"
proof -
  have "wrap s = \<lparr>header = \<lparr>guid = pubiid client, seq = sid\<rparr>, data = q\<rparr>"
    using send_request_written(1) [OF assms(1,2)] assms(3) by auto
  then have s: "header (wrap s) = \<lparr>guid = pubiid client, seq = sid\<rparr>" "data (wrap s) = q" by simp_all
  have "accepts 0 s" using assms(5) by (simp add: accepts_def)
  then have req: "taken" "q' = q" "describes_request E s rid"
    using rmw_take_response_request_first [OF assms(1,4), of E 0 hdr m] assms(6) s(2)
    by (auto simp: rmw_take_request_def)
  have "wrap s' = \<lparr>header = \<lparr>guid = pubiid client, seq = sid\<rparr>, data = r\<rparr>"
    using rmw_send_response_written [OF assms(1,7)] assms(8,9) response_header_describes(1) [OF req(3)] s(1) by auto
  then have s': "header (wrap s') = \<lparr>guid = pubiid client, seq = sid\<rparr>" "data (wrap s') = r" by simp_all
  have acc: "accepts (pubiid client') s' = (pubiid client' = pubiid client)"
    using assms(11,12) s'(1) by (auto simp: accepts_def)
  show ?thesis
    using rmw_take_response_request_first [OF assms(1,10), of E "pubiid client'" hdr' m'] assms(13) acc s' req(1,2)
    by (auto simp: rmw_take_response_def describes_request_def)
qed

lemma ex_bytes_word: "bytes_word E (word_bytes E 8 (x :: u64)) = x"
  by (rule bytes_word_word_bytes) simp

lemma request_response_correlation_witness:
  "\<exists>info d7. rmw_take_response ex_cs_api little \<lparr>pub_enth = 20, pubiid = 5, sub_enth = 30\<rparr>
      \<lparr>writer_guid = [], sequence_number = 0, request_source_timestamp = 0, received_timestamp = 0\<rparr> 0
      \<lparr>now_w = 0, out_w = [], queue_w = (\<lambda>_. [])(30 := [\<lparr>wrap = \<lparr>header = \<lparr>guid = 5, seq = 1\<rparr>, data = 4\<rparr>, valid_data = True,
         publication_handle = 8, source_timestamp = 0\<rparr>])\<rparr>
    = Some ((RMW_RET_OK, True, info, 4), d7) \<and> sequence_number info = 1"
proof -
  let ?client = "\<lparr>pub_enth = 20, pubiid = 5, sub_enth = 30\<rparr>" and ?service = "\<lparr>pub_enth = 40, pubiid = 6, sub_enth = 50\<rparr>"
  let ?w = "\<lambda>out q. \<lparr>now_w = 0, out_w = out, queue_w = q\<rparr> :: nat ex_world"
  let ?info = "\<lparr>writer_guid = [], sequence_number = 0, request_source_timestamp = 0, received_timestamp = 0\<rparr>"
  let ?sample = "\<lambda>h m. \<lparr>wrap = \<lparr>header = \<lparr>guid = 5, seq = 1\<rparr>, data = m\<rparr>, valid_data = True, publication_handle = h,
    source_timestamp = 0\<rparr> :: nat request_sample"
  let ?rid = "\<lparr>writer_guid = word_bytes little 8 (5 :: u64) @ word_bytes little 8 (31 :: u64), sequence_number = 1,
    request_source_timestamp = 0, received_timestamp = 0\<rparr>"
  have a: "rmw_send_request ex_cs_api ?client 3 0 (?w [] (\<lambda>_. []))
      = ((RMW_RET_OK, 1, 1), ?w [(20, \<lparr>header = \<lparr>guid = 5, seq = 1\<rparr>, data = 3\<rparr>, 0)] (\<lambda>_. []))"
    by (simp add: rmw_send_request_def rmw_send_response_request_def ex_cs_api_def)
  have b: "last (written ex_cs_view (?w [(20, \<lparr>header = \<lparr>guid = 5, seq = 1\<rparr>, data = 3\<rparr>, 0)] (\<lambda>_. []))) = (20, wrap (?sample 31 3), 0)"
    by (simp add: ex_cs_view_def)
  have c: "incoming ex_cs_view (?w [] ((\<lambda>_. [])(50 := [?sample 31 3]))) (sub_enth ?service) = ?sample 31 3 # []"
    by (simp add: ex_cs_view_def)
  have v: "valid_data (?sample h m)" for h m by simp
  have e: "rmw_take_request ex_cs_api little ?service ?info 0 (?w [] ((\<lambda>_. [])(50 := [?sample 31 3])))
      = Some ((RMW_RET_OK, True, ?rid, 3), ?w [] (\<lambda>_. []))"
    by (simp add: rmw_take_request_def rmw_take_response_request.simps ex_cs_api_def Let_def) (simp add: fun_eq_iff)
  have r: "requester little ?rid = 31" "response_header little ?rid = \<lparr>guid = 5, seq = 1\<rparr>"
    by (simp_all add: requester_def response_header_def ex_bytes_word)
  have y: "check_for_response_reader ex_cs_api ?service 31 d = Some (YES, d)" for d
    by (simp add: check_for_response_reader_def ex_cs_api_def get_user_data_key_def parse_user_data_def)
  have f: "rmw_send_response ex_cs_api little ?service ?rid 4 (?w [] (\<lambda>_. []))
      = Some (RMW_RET_OK, ?w [(40, \<lparr>header = \<lparr>guid = 5, seq = 1\<rparr>, data = 4\<rparr>, 0)] (\<lambda>_. []))"
    by (simp add: rmw_send_response_def await_reader.simps y ex_bytes_word Let_def)
      (simp add: rmw_send_response_request_def ex_cs_api_def)
  have g: "written ex_cs_view (?w [(40, \<lparr>header = \<lparr>guid = 5, seq = 1\<rparr>, data = 4\<rparr>, 0)] (\<lambda>_. [])) \<noteq> written ex_cs_view (?w [] (\<lambda>_. []))"
    "last (written ex_cs_view (?w [(40, \<lparr>header = \<lparr>guid = 5, seq = 1\<rparr>, data = 4\<rparr>, 0)] (\<lambda>_. []))) = (40, wrap (?sample 8 4), 0)"
    by (simp_all add: ex_cs_view_def)
  have h: "incoming ex_cs_view (?w [] ((\<lambda>_. [])(30 := [?sample 8 4]))) (sub_enth ?client) = ?sample 8 4 # []"
    by (simp add: ex_cs_view_def)
  have p: "pubiid ?client \<noteq> 0" by simp
  obtain ret taken info m d7 where
    t: "rmw_take_response ex_cs_api little ?client ?info 0 (?w [] ((\<lambda>_. [])(30 := [?sample 8 4]))) = Some ((ret, taken, info, m), d7)"
      "ret = RMW_RET_OK"
    using rmw_take_response_request_first [OF ex_cyclone_cs h, of little "pubiid ?client" ?info 0]
    by (auto simp: rmw_take_response_def)
  show ?thesis
    using request_response_correlation [OF ex_cyclone_cs a b c v e f g h v p t(1)] t by simp
qed



text \<open>
  C22. While the matched endpoints do not change, a service is reported available exactly if the graph
  knows a reader of the request topic and a writer of the response topic and the client has matched a
  request reader and a response writer of one and the same service, or, where no request reader tells
  its service, any of each.
\<close>

theorem availability_exact:
  assumes "\<And>r. 0 \<le> ret_value A r" "P d"
    and "names_topic P request_topic (dds_topic_name A (pub_enth client))"
    and "names_topic P response_topic (dds_topic_name A (sub_enth client))"
    and "\<And>d. P d \<Longrightarrow> \<exists>d'. get_reader_count A request_topic d = ((RMW_RET_OK, nr), d') \<and> P d'"
    and "\<And>d. P d \<Longrightarrow> \<exists>d'. get_writer_count A response_topic d = ((RMW_RET_OK, nw), d') \<and> P d'"
    and "lists P (map fst rds) (dds_get_matched_subscriptions A (pub_enth client))"
    and "lists P (map fst wrs) (dds_get_matched_publications A (sub_enth client))"
    and "shows_data P rds (dds_get_matched_subscription_data A (pub_enth client))"
    and "shows_data P wrs (dds_get_matched_publication_data A (sub_enth client))"
  shows "\<exists>d'. rmw_service_server_is_available A client d = Some ((RMW_RET_OK, nr \<noteq> 0 \<and> nw \<noteq> 0 \<and>
    (if service_ids A rds = {} then rds \<noteq> [] \<and> wrs \<noteq> [] else service_ids A rds \<inter> service_ids A wrs \<noteq> {})), d')"
proof -
  note ret = assms(1) [THEN leD]
  obtain d1 where d1: "get_topic_name A (pub_enth client) d = ((RMW_RET_OK, Some request_topic), d1)" "P d1"
    using get_topic_name_reads [OF assms(3,2)] by blast
  obtain d2 where d2: "get_topic_name A (sub_enth client) d1 = ((RMW_RET_OK, Some response_topic), d2)" "P d2"
    using get_topic_name_reads [OF assms(4) d1(2)] by blast
  obtain d3 where d3: "get_reader_count A request_topic d2 = ((RMW_RET_OK, nr), d3)" "P d3" using assms(5) [OF d2(2)] by blast
  obtain d4 where d4: "get_writer_count A response_topic d3 = ((RMW_RET_OK, nw), d4)" "P d4" using assms(6) [OF d3(2)] by blast
  obtain d5 where d5: "get_matched_endpoints (dds_get_matched_subscriptions A (pub_enth client)) [] d4 = Some ((RMW_RET_OK, map fst rds), d5)" "P d5"
    using get_matched_endpoints_lists [OF assms(7) d4(2)] by blast
  obtain d6 where d6: "get_matched_endpoints (dds_get_matched_publications A (sub_enth client)) [] d5 = Some ((RMW_RET_OK, map fst wrs), d6)" "P d6"
    using get_matched_endpoints_lists [OF assms(8) d5(2)] by blast
  obtain needles d7 where d7: "collect_needles A (pub_enth client) (map fst rds) [] d6 = (needles, d7)" "P d7" "set needles = service_ids A rds"
    using collect_needles_set [OF assms(9) d6(2), of "[]"] by auto
  obtain d8 where d8: "scan_writers A (sub_enth client) needles (map fst wrs) d7 = (service_ids A wrs \<inter> set needles \<noteq> {}, d8)"
    using scan_writers_hit [OF assms(10) d7(2)] by blast
  have e: "(needles = []) = (service_ids A rds = {})" using d7(3) by auto
  show ?thesis
    by (simp add: rmw_service_server_is_available_def check_for_service_reader_writer_def d1(1) d2(1) d3(1) d4(1) d5(1) d6(1)
        d7(1) d8 ret e d7(3) Int_commute)
qed

lemma availability_exact_witness:
  "\<exists>d'. rmw_service_server_is_available ex_cs_api \<lparr>pub_enth = 20, pubiid = 5, sub_enth = 30\<rparr>
     \<lparr>now_w = 0, out_w = [], queue_w = (\<lambda>_. [])\<rparr> = Some ((RMW_RET_OK, True), d')"
proof -
  let ?c = "\<lparr>pub_enth = 20, pubiid = 5, sub_enth = 30\<rparr>"
  let ?ep = "\<lparr>ep_qos = Some (Some [7])\<rparr>"
  have r: "\<And>r. 0 \<le> ret_value ex_cs_api r" by (simp add: ex_cs_api_def)
  have n: "names_topic (\<lambda>_. True) ''rq/addRequest'' (dds_topic_name ex_cs_api (pub_enth ?c))"
    "names_topic (\<lambda>_. True) ''rr/addReply'' (dds_topic_name ex_cs_api (sub_enth ?c))"
    by (simp_all add: ex_cs_api_def ex_name_names)
  have c: "\<And>d. True \<Longrightarrow> \<exists>d'. get_reader_count ex_cs_api ''rq/addRequest'' d = ((RMW_RET_OK, 1), d') \<and> True"
    "\<And>d. True \<Longrightarrow> \<exists>d'. get_writer_count ex_cs_api ''rr/addReply'' d = ((RMW_RET_OK, 1), d') \<and> True"
    by (simp_all add: ex_cs_api_def)
  have l: "lists (\<lambda>_. True) (map fst [(21, Some ?ep)]) (dds_get_matched_subscriptions ex_cs_api (pub_enth ?c))"
    "lists (\<lambda>_. True) (map fst [(31, Some ?ep)]) (dds_get_matched_publications ex_cs_api (sub_enth ?c))"
    using ex_list_lists by (simp_all add: ex_cs_api_def)
  have s: "shows_data (\<lambda>_. True) [(21, Some ?ep)] (dds_get_matched_subscription_data ex_cs_api (pub_enth ?c))"
    "shows_data (\<lambda>_. True) [(31, Some ?ep)] (dds_get_matched_publication_data ex_cs_api (sub_enth ?c))"
    by (simp_all add: ex_cs_api_def shows_data_def)
  have k: "get_user_data_key ex_cs_api (ep_qos ?ep) ''serviceid'' = Some [7]"
    by (simp add: get_user_data_key_def parse_user_data_def ex_cs_api_def)
  show ?thesis
    using availability_exact [where P = "\<lambda>_. True", OF r TrueI n c l s, of "\<lparr>now_w = 0, out_w = [], queue_w = (\<lambda>_. [])\<rparr>"]
    by (simp add: k [simplified])
qed

text \<open>
  The number of a return code is never negative, so a failure to list the matched endpoints goes
  unnoticed: if the second, larger listing fails, the handles left in the vector count as matches, and
  a service of which nothing could be read is reported available, without an error.
\<close>

theorem listing_failure_reported_available:
  assumes "\<And>r. 0 \<le> ret_value A r"
    and "\<And>buf d. dds_get_matched_subscriptions A (pub_enth client) buf d = (if buf = [] then 0 else - 1, buf, d)"
    and "\<And>buf d. dds_get_matched_publications A (sub_enth client) buf d = (if buf = [] then 0 else - 1, buf, d)"
    and "\<And>d. dds_get_matched_subscription_data A (pub_enth client) 0 d = (None, d)"
  shows "check_for_service_reader_writer A client d = Some ((RMW_RET_OK, True), d)"
proof -
  have m: "get_matched_endpoints fn [] d = Some ((RMW_RET_ERROR, replicate 128 0), d)"
    if "\<And>buf d. fn buf d = (if buf = [] then 0 else - 1, buf, d)" for fn and d :: 'b
    by (simp add: get_matched_endpoints_def that matched_loop.simps resized_def)
  have n: "collect_needles A (pub_enth client) (replicate k 0) ns d = (ns, d)" for k ns d
    by (induction k) (simp_all add: assms(4))
  show ?thesis
    by (simp add: check_for_service_reader_writer_def m [OF assms(2)] m [OF assms(3)] assms(1) [THEN leD] n)
qed

lemma listing_failure_reported_available_witness:
  "check_for_service_reader_writer (ex_cs_api\<lparr>dds_get_matched_subscriptions := (\<lambda>e buf d. (if buf = [] then 0 else - 1, buf, d)),
     dds_get_matched_publications := (\<lambda>e buf d. (if buf = [] then 0 else - 1, buf, d))\<rparr>)
     \<lparr>pub_enth = 20, pubiid = 5, sub_enth = 30\<rparr> \<lparr>now_w = 0, out_w = [], queue_w = (\<lambda>_. [])\<rparr>
   = Some ((RMW_RET_OK, True), \<lparr>now_w = 0, out_w = [], queue_w = (\<lambda>_. [])\<rparr>)"
  by (rule listing_failure_reported_available) (simp_all add: ex_cs_api_def)

end
