(* ===== verification/Endpoints.thy ===== *)
theory Endpoints
  imports Names Qos RmwBase
begin

text \<open>
  Creating and destroying publishers and subscriptions in \<^verbatim>\<open>rmw_node.cpp\<close>.  The code owns DDS entities,
  listeners, QoS objects, references to serialized types, heap objects and strings, and releases them
  by hand along \<open>goto\<close> labels and scope guards.  What is owned is a multiset, part of the state; the
  calls of Cyclone DDS, of the allocator and of the graph are fields of \<open>ep_api\<close> on an abstract state.
  Type supports are assumed to be well formed, so that building a value type does not throw.
\<close>

section \<open>Ownership\<close>

datatype resource =
    Topic dds_entity
  | Writer dds_entity
  | Reader dds_entity
  | ReadCondition dds_entity
  | QosObject
  | Listener
  | SertypeRef
  | PublisherStruct
  | SubscriptionStruct
  | ClientServiceStruct
  | RmwHandle
  | NameString
  | Domain dds_entity
  | Participant dds_entity
  | GuardCondition dds_entity
  | Thread
  | NodeStruct
  | SerdataRef
  | Loan ptr
  | DiscoveryWaitset dds_entity

text \<open>\<open>next_csid\<close> is the counter \<open>client_service_id\<close> of the context.\<close>

record 'd world =
  lib :: 'd
  owned :: "resource multiset"
  next_csid :: u32

definition own :: "resource \<Rightarrow> 'd world \<Rightarrow> 'd world" where
  "own r w = w\<lparr>owned := add_mset r (owned w)\<rparr>"

definition disown :: "resource \<Rightarrow> 'd world \<Rightarrow> 'd world" where
  "disown r w = w\<lparr>owned := owned w - {#r#}\<rparr>"

type_synonym gid = "u8 list"

datatype graph_op =
    AddPublisher gid | RemovePublisher gid | AddSubscriber gid | RemoveSubscriber gid
  | AddClient gid gid | RemoveClient gid gid | AddService gid gid | RemoveService gid gid

text \<open>
  The interface: an entity is its handle, negative for an error.  \<open>allocates\<close> says whether the next
  allocation succeeds.  A serialized type is told apart by its name and whether it has a request header.
\<close>

record 'd ep_api =
  dds_create_topic_sertype :: "dds_entity \<Rightarrow> string \<Rightarrow> string \<times> bool \<Rightarrow> 'd \<Rightarrow> int \<times> 'd"
  dds_create_writer :: "dds_entity \<Rightarrow> dds_entity \<Rightarrow> dds_qos \<Rightarrow> 'd \<Rightarrow> int \<times> 'd"
  dds_create_reader :: "dds_entity \<Rightarrow> dds_entity \<Rightarrow> dds_qos \<Rightarrow> 'd \<Rightarrow> int \<times> 'd"
  dds_create_readcondition :: "dds_entity \<Rightarrow> 'd \<Rightarrow> int \<times> 'd"
  dds_get_instance_handle :: "dds_entity \<Rightarrow> 'd \<Rightarrow> int \<times> u64"
  dds_get_guid :: "dds_entity \<Rightarrow> 'd \<Rightarrow> gid"
  dds_delete_call :: "dds_entity \<Rightarrow> 'd \<Rightarrow> int \<times> 'd"
  allocates :: "'d \<Rightarrow> bool \<times> 'd"
  rmw_validate_full_topic_name :: "string \<Rightarrow> rmw_ret \<times> bool"
  best_available_publisher :: "string \<Rightarrow> rmw_qos_profile \<Rightarrow> 'd \<Rightarrow> rmw_ret \<times> rmw_qos_profile"
  best_available_subscription :: "string \<Rightarrow> rmw_qos_profile \<Rightarrow> 'd \<Rightarrow> rmw_ret \<times> rmw_qos_profile"
  best_available_services :: "rmw_qos_profile \<Rightarrow> rmw_qos_profile"
  graph_update :: "graph_op \<Rightarrow> 'd \<Rightarrow> rmw_ret \<times> 'd"

definition create_entity :: "('d \<Rightarrow> int \<times> 'd) \<Rightarrow> (dds_entity \<Rightarrow> resource) \<Rightarrow> 'd world \<Rightarrow> int \<times> 'd world" where
  "create_entity f k w = (case f (lib w) of (h, d) \<Rightarrow>
     (h, w\<lparr>lib := d, owned := (if 0 \<le> h then add_mset (k h) (owned w) else owned w)\<rparr>))"

definition delete_entity :: "'d ep_api \<Rightarrow> dds_entity \<Rightarrow> resource \<Rightarrow> 'd world \<Rightarrow> int \<times> 'd world" where
  "delete_entity A h r w = (case dds_delete_call A h (lib w) of (n, d) \<Rightarrow> (n, disown r (w\<lparr>lib := d\<rparr>)))"

definition allocate :: "'d ep_api \<Rightarrow> resource \<Rightarrow> 'd world \<Rightarrow> bool \<times> 'd world" where
  "allocate A r w = (case allocates A (lib w) of (ok, d) \<Rightarrow>
     (ok, if ok then own r (w\<lparr>lib := d\<rparr>) else w\<lparr>lib := d\<rparr>))"

definition update_graph :: "'d ep_api \<Rightarrow> graph_op \<Rightarrow> 'd world \<Rightarrow> rmw_ret \<times> 'd world" where
  "update_graph A g w = (case graph_update A g (lib w) of (r, d) \<Rightarrow> (r, w\<lparr>lib := d\<rparr>))"

text \<open>The QoS object that \<open>create_readwrite_qos\<close> creates, also when it is lost on an error.\<close>

definition create_qos :: "rmw_lib \<Rightarrow> rmw_qos_profile \<Rightarrow> string option \<Rightarrow> bool \<Rightarrow> string \<Rightarrow> 'd world \<Rightarrow> dds_qos option \<times> 'd world" where
  "create_qos L p type_hash ignore_local_publications extra_user_data w =
     (case create_readwrite_qos L p type_hash ignore_local_publications extra_user_data 0 of (q, n, _) \<Rightarrow>
        (q, w\<lparr>owned := owned w + replicate_mset n QosObject\<rparr>))"

section \<open>Type supports and topics\<close>

text \<open>
  A type support handle gives, for the identifier asked for, the handle of that introspection library
  or nothing.  Of a handle the code reads the identifier, the names in its table and its type hash.
\<close>

record message_ts =
  ts_identifier :: typesupport_identifier
  ts_namespace :: string
  ts_name :: string
  ts_hash :: "string option"

definition get_typesupport :: "(typesupport_identifier \<Rightarrow> message_ts option) \<Rightarrow> message_ts option" where
  "get_typesupport type_supports =
     (case type_supports IntrospectionC of Some ts \<Rightarrow> Some ts | None \<Rightarrow> type_supports IntrospectionCpp)"

text \<open>The reference to the serialized type passes to the topic, or is dropped when there is none.\<close>

definition create_topic :: "'d ep_api \<Rightarrow> dds_entity \<Rightarrow> string \<Rightarrow> string \<times> bool \<Rightarrow> 'd world \<Rightarrow> int \<times> 'd world" where
  "create_topic A pp name sertype w =
     (case create_entity (dds_create_topic_sertype A pp name sertype) Topic w of (tp, w) \<Rightarrow>
        (tp, disown SertypeRef w))"

section \<open>Publishers\<close>

record pub_data =
  enth :: dds_entity
  pubiid :: u64
  pub_gid :: gid

text \<open>The labels that \<open>create_cdds_publisher\<close> jumps to, each going on with the next.\<close>

definition pub_fail_topic :: "'d world \<Rightarrow> 'd world" where
  "pub_fail_topic w = disown PublisherStruct w"

definition pub_fail_qos :: "'d ep_api \<Rightarrow> dds_entity \<Rightarrow> 'd world \<Rightarrow> 'd world" where
  "pub_fail_qos A topic w = pub_fail_topic (snd (delete_entity A topic (Topic topic) w))"

definition pub_fail_writer :: "'d ep_api \<Rightarrow> dds_entity \<Rightarrow> 'd world \<Rightarrow> 'd world" where
  "pub_fail_writer A topic w = pub_fail_qos A topic (disown QosObject w)"

definition pub_fail_instance_handle :: "'d ep_api \<Rightarrow> dds_entity \<Rightarrow> dds_entity \<Rightarrow> 'd world \<Rightarrow> 'd world" where
  "pub_fail_instance_handle A writer topic w = pub_fail_writer A topic (snd (delete_entity A writer (Writer writer) w))"

definition create_cdds_publisher ::
  "'d ep_api \<Rightarrow> rmw_lib \<Rightarrow> dds_entity \<Rightarrow> dds_entity \<Rightarrow> (typesupport_identifier \<Rightarrow> message_ts option) \<Rightarrow> string \<Rightarrow>
   rmw_qos_profile \<Rightarrow> 'd world \<Rightarrow> pub_data option \<times> 'd world" where
  "create_cdds_publisher A L participant publisher type_supports topic_name qos_policies w =
     (if topic_name = [] then (None, w)
      else case get_typesupport type_supports of
        None \<Rightarrow> (None, w)
      | Some ts \<Rightarrow>
        let type_name = fst (get_message_type_name (ts_identifier ts) (ts_namespace ts) (ts_name ts)) in
        if type_name = [] then (None, w)
        else
          let w = own PublisherStruct w;
              fqtopic_name = make_fqtopic ROS_TOPIC_PREFIX topic_name [] (avoid_ros_namespace_conventions qos_policies);
              w = own SertypeRef w in
          case create_topic A participant fqtopic_name (type_name, False) w of (topic, w) \<Rightarrow>
          let w = own Listener w in
          if topic < 0 then (None, pub_fail_topic w)
          else case create_qos L qos_policies (ts_hash ts) False [] w of
            (None, w) \<Rightarrow> (None, pub_fail_qos A topic w)
          | (Some qos, w) \<Rightarrow>
            (case create_entity (dds_create_writer A publisher topic qos) Writer w of (writer, w) \<Rightarrow>
             if writer < 0 then (None, pub_fail_writer A topic w)
             else (case dds_get_instance_handle A writer (lib w) of (n, iid) \<Rightarrow>
               if n < 0 then (None, pub_fail_instance_handle A writer topic w)
               else
                 let pub = \<lparr>enth = writer, pubiid = iid, pub_gid = dds_get_guid A writer (lib w)\<rparr>;
                     w = disown Listener w;
                     w = disown QosObject w;
                     w = snd (delete_entity A topic (Topic topic) w) in
                 (Some pub, w))))"

definition create_publisher ::
  "'d ep_api \<Rightarrow> rmw_lib \<Rightarrow> dds_entity \<Rightarrow> dds_entity \<Rightarrow> (typesupport_identifier \<Rightarrow> message_ts option) \<Rightarrow> string \<Rightarrow>
   rmw_qos_profile \<Rightarrow> 'd world \<Rightarrow> pub_data option \<times> 'd world" where
  "create_publisher A L participant publisher type_supports topic_name qos_policies w =
     (case create_cdds_publisher A L participant publisher type_supports topic_name qos_policies w of
        (None, w) \<Rightarrow> (None, w)
      | (Some pub, w) \<Rightarrow>
        let cleanup_cdds_publisher = (\<lambda>w. disown PublisherStruct (snd (delete_entity A (enth pub) (Writer (enth pub)) w))) in
        (case allocate A RmwHandle w of (ok, w) \<Rightarrow>
         if \<not> ok then (None, cleanup_cdds_publisher w)
         else (case allocate A NameString w of (ok, w) \<Rightarrow>
           if \<not> ok then (None, cleanup_cdds_publisher (disown RmwHandle w))
           else (Some pub, w))))"

definition destroy_publisher :: "'d ep_api \<Rightarrow> pub_data \<Rightarrow> 'd world \<Rightarrow> rmw_ret \<times> 'd world" where
  "destroy_publisher A pub w =
     (case delete_entity A (enth pub) (Writer (enth pub)) w of (n, w) \<Rightarrow>
        let ret = (if n < 0 then RMW_RET_ERROR else RMW_RET_OK) in
        (ret, disown RmwHandle (disown NameString (disown PublisherStruct w))))"

text \<open>
  The node gives the participant and the DDS publisher and subscriber of its context.  The option asked
  for that is refused is unique network flow endpoints, strictly required.
\<close>

record node =
  ppant :: dds_entity
  dds_pub :: dds_entity
  dds_sub :: dds_entity
  ppant_gid :: gid

definition valid_name :: "'d ep_api \<Rightarrow> string \<Rightarrow> rmw_qos_profile \<Rightarrow> bool" where
  "valid_name A name qos_policies =
     (if \<not> avoid_ros_namespace_conventions qos_policies
      then (case rmw_validate_full_topic_name A name of (ret, valid) \<Rightarrow> ret = RMW_RET_OK \<and> valid)
      else True)"

definition rmw_create_publisher ::
  "'d ep_api \<Rightarrow> rmw_lib \<Rightarrow> node \<Rightarrow> (typesupport_identifier \<Rightarrow> message_ts option) \<Rightarrow> string \<Rightarrow>
   rmw_qos_profile \<Rightarrow> bool \<Rightarrow> 'd world \<Rightarrow> pub_data option \<times> 'd world" where
  "rmw_create_publisher A L nd type_supports topic_name qos_policies strictly_unique w =
     (if topic_name = [] then (None, w)
      else if \<not> valid_name A topic_name qos_policies then (None, w)
      else case best_available_publisher A topic_name qos_policies (lib w) of (ret, adapted_qos_policies) \<Rightarrow>
        if ret \<noteq> RMW_RET_OK then (None, w)
        else if strictly_unique then (None, w)
        else (case create_publisher A L (ppant nd) (dds_pub nd) type_supports topic_name adapted_qos_policies w of
            (None, w) \<Rightarrow> (None, w)
          | (Some pub, w) \<Rightarrow>
             (case update_graph A (AddPublisher (pub_gid pub)) w of (ret, w) \<Rightarrow>
                if ret \<noteq> RMW_RET_OK then (None, snd (destroy_publisher A pub w))
                else (Some pub, w))))"

definition rmw_destroy_publisher :: "'d ep_api \<Rightarrow> pub_data \<Rightarrow> 'd world \<Rightarrow> rmw_ret \<times> 'd world" where
  "rmw_destroy_publisher A pub w =
     (case update_graph A (RemovePublisher (pub_gid pub)) w of (publish_ret, w) \<Rightarrow>
      case destroy_publisher A pub w of (inner_ret, w) \<Rightarrow>
        (if publish_ret \<noteq> RMW_RET_OK then publish_ret else inner_ret, w))"

section \<open>Subscriptions\<close>

record sub_data =
  sub_enth :: dds_entity
  rdcondh :: dds_entity
  sub_gid :: gid

definition sub_fail_topic :: "'d world \<Rightarrow> 'd world" where
  "sub_fail_topic w = disown SubscriptionStruct w"

definition sub_fail_qos :: "'d ep_api \<Rightarrow> dds_entity \<Rightarrow> 'd world \<Rightarrow> 'd world" where
  "sub_fail_qos A topic w = sub_fail_topic (snd (delete_entity A topic (Topic topic) w))"

definition sub_fail_reader :: "'d ep_api \<Rightarrow> dds_entity \<Rightarrow> 'd world \<Rightarrow> 'd world" where
  "sub_fail_reader A topic w = sub_fail_qos A topic (disown QosObject w)"

definition sub_fail_readcond :: "'d ep_api \<Rightarrow> dds_entity \<Rightarrow> dds_entity \<Rightarrow> 'd world \<Rightarrow> 'd world" where
  "sub_fail_readcond A reader topic w = sub_fail_reader A topic (snd (delete_entity A reader (Reader reader) w))"

definition create_cdds_subscription ::
  "'d ep_api \<Rightarrow> rmw_lib \<Rightarrow> dds_entity \<Rightarrow> dds_entity \<Rightarrow> (typesupport_identifier \<Rightarrow> message_ts option) \<Rightarrow> string \<Rightarrow>
   rmw_qos_profile \<Rightarrow> bool \<Rightarrow> 'd world \<Rightarrow> sub_data option \<times> 'd world" where
  "create_cdds_subscription A L participant subscriber type_supports topic_name qos_policies ignore_local_publications w =
     (if topic_name = [] then (None, w)
      else case get_typesupport type_supports of
        None \<Rightarrow> (None, w)
      | Some ts \<Rightarrow>
        let type_name = fst (get_message_type_name (ts_identifier ts) (ts_namespace ts) (ts_name ts)) in
        if type_name = [] then (None, w)
        else
          let w = own SubscriptionStruct w;
              fqtopic_name = make_fqtopic ROS_TOPIC_PREFIX topic_name [] (avoid_ros_namespace_conventions qos_policies);
              w = own SertypeRef w in
          case create_topic A participant fqtopic_name (type_name, False) w of (topic, w) \<Rightarrow>
          let w = own Listener w in
          if topic < 0 then (None, sub_fail_topic w)
          else case create_qos L qos_policies (ts_hash ts) ignore_local_publications [] w of
            (None, w) \<Rightarrow> (None, sub_fail_qos A topic w)
          | (Some qos, w) \<Rightarrow>
            (case create_entity (dds_create_reader A subscriber topic qos) Reader w of (reader, w) \<Rightarrow>
             if reader < 0 then (None, sub_fail_reader A topic w)
             else
               let reader_gid = dds_get_guid A reader (lib w) in
               (case create_entity (dds_create_readcondition A reader) ReadCondition w of (cond, w) \<Rightarrow>
                if cond < 0 then (None, sub_fail_readcond A reader topic w)
                else
                  let w = disown Listener w;
                      w = disown QosObject w;
                      w = snd (delete_entity A topic (Topic topic) w) in
                  (Some \<lparr>sub_enth = reader, rdcondh = cond, sub_gid = reader_gid\<rparr>, w))))"

definition delete_reader :: "'d ep_api \<Rightarrow> sub_data \<Rightarrow> 'd world \<Rightarrow> bool \<times> 'd world" where
  "delete_reader A sub w =
     (case delete_entity A (rdcondh sub) (ReadCondition (rdcondh sub)) w of (n, w) \<Rightarrow>
      case delete_entity A (sub_enth sub) (Reader (sub_enth sub)) w of (m, w) \<Rightarrow> (0 \<le> n \<and> 0 \<le> m, w))"

definition create_subscription ::
  "'d ep_api \<Rightarrow> rmw_lib \<Rightarrow> dds_entity \<Rightarrow> dds_entity \<Rightarrow> (typesupport_identifier \<Rightarrow> message_ts option) \<Rightarrow> string \<Rightarrow>
   rmw_qos_profile \<Rightarrow> bool \<Rightarrow> 'd world \<Rightarrow> sub_data option \<times> 'd world" where
  "create_subscription A L participant subscriber type_supports topic_name qos_policies ignore_local_publications w =
     (case create_cdds_subscription A L participant subscriber type_supports topic_name qos_policies ignore_local_publications w of
        (None, w) \<Rightarrow> (None, w)
      | (Some sub, w) \<Rightarrow>
        let cleanup_subscription = (\<lambda>w. disown SubscriptionStruct (snd (delete_reader A sub w))) in
        (case allocate A RmwHandle w of (ok, w) \<Rightarrow>
         if \<not> ok then (None, cleanup_subscription w)
         else (case allocate A NameString w of (ok, w) \<Rightarrow>
           if \<not> ok then (None, cleanup_subscription (disown RmwHandle w))
           else (Some sub, w))))"

definition destroy_subscription :: "'d ep_api \<Rightarrow> sub_data \<Rightarrow> 'd world \<Rightarrow> rmw_ret \<times> 'd world" where
  "destroy_subscription A sub w =
     (case delete_reader A sub w of (ok, w) \<Rightarrow>
        (if ok then RMW_RET_OK else RMW_RET_ERROR,
         disown RmwHandle (disown NameString (disown SubscriptionStruct w))))"

definition rmw_create_subscription ::
  "'d ep_api \<Rightarrow> rmw_lib \<Rightarrow> node \<Rightarrow> (typesupport_identifier \<Rightarrow> message_ts option) \<Rightarrow> string \<Rightarrow>
   rmw_qos_profile \<Rightarrow> bool \<Rightarrow> bool \<Rightarrow> 'd world \<Rightarrow> sub_data option \<times> 'd world" where
  "rmw_create_subscription A L nd type_supports topic_name qos_policies ignore_local_publications strictly_unique w =
     (if topic_name = [] then (None, w)
      else if \<not> valid_name A topic_name qos_policies then (None, w)
      else case best_available_subscription A topic_name qos_policies (lib w) of (ret, adapted_qos_policies) \<Rightarrow>
        if ret \<noteq> RMW_RET_OK then (None, w)
        else if strictly_unique then (None, w)
        else (case create_subscription A L (ppant nd) (dds_sub nd) type_supports topic_name adapted_qos_policies
                 ignore_local_publications w of
            (None, w) \<Rightarrow> (None, w)
          | (Some sub, w) \<Rightarrow>
             (case update_graph A (AddSubscriber (sub_gid sub)) w of (ret, w) \<Rightarrow>
                if ret \<noteq> RMW_RET_OK then (None, snd (destroy_subscription A sub w))
                else (Some sub, w))))"

definition rmw_destroy_subscription :: "'d ep_api \<Rightarrow> sub_data \<Rightarrow> 'd world \<Rightarrow> rmw_ret \<times> 'd world" where
  "rmw_destroy_subscription A sub w =
     (case update_graph A (RemoveSubscriber (sub_gid sub)) w of (ret, w) \<Rightarrow>
      case destroy_subscription A sub w of (local_ret, w) \<Rightarrow>
        (if local_ret \<noteq> RMW_RET_OK then local_ret else ret, w))"

section \<open>What is owned afterwards\<close>

text \<open>\<open>gains w w' M\<close>: between the two states the resources \<open>M\<close> have been gained and nothing else.\<close>

definition gains :: "'d world \<Rightarrow> 'd world \<Rightarrow> resource multiset \<Rightarrow> bool" where
  "gains w w' M \<longleftrightarrow> owned w' = owned w + M"

lemma owned_simps [simp]:
  "owned (own r w) = add_mset r (owned w)" "owned (disown r w) = owned w - {#r#}"
  "lib (own r w) = lib w" "lib (disown r w) = lib w"
  by (simp_all add: own_def disown_def)

lemma owned_delete [simp]: "owned (snd (delete_entity A h r w)) = owned w - {#r#}"
  by (simp add: delete_entity_def split: prod.splits)

lemma owned_update_graph [simp]: "owned (snd (update_graph A g w)) = owned w"
  by (simp add: update_graph_def split: prod.splits)

lemma owned_create_entity [ledger]:
  "create_entity f k w = (h, w') \<Longrightarrow> owned w' = (if 0 \<le> h then add_mset (k h) (owned w) else owned w)"
  by (auto simp: create_entity_def split: prod.splits)

lemma owned_allocate [ledger]: "allocate A r w = (ok, w') \<Longrightarrow> owned w' = (if ok then add_mset r (owned w) else owned w)"
  by (auto simp: allocate_def split: prod.splits)

lemma owned_delete_reader [simp]:
  "owned (snd (delete_reader A sub w)) = owned w - {#ReadCondition (rdcondh sub)#} - {#Reader (sub_enth sub)#}"
  by (simp add: delete_reader_def delete_entity_def split: prod.splits)

lemma owned_create_topic [ledger]:
  "create_topic A pp name st w = (tp, w') \<Longrightarrow>
     owned w' = (if 0 \<le> tp then add_mset (Topic tp) (owned w) else owned w) - {#SertypeRef#}"
  by (auto simp: create_topic_def dest!: owned_create_entity split: prod.splits)

text \<open>The QoS object is lost for a profile with an unknown policy.\<close>

definition lost_qos :: "rmw_lib \<Rightarrow> rmw_qos_profile \<Rightarrow> string option \<Rightarrow> bool \<Rightarrow> string \<Rightarrow> resource multiset" where
  "lost_qos L p th ign extra = (case readwrite_qos_settings L p th ign extra of Inl False \<Rightarrow> {#QosObject#} | _ \<Rightarrow> {#})"

lemma owned_create_qos [ledger]:
  "create_qos L p th ign extra w = (q, w') \<Longrightarrow>
     owned w' = owned w + (case q of None \<Rightarrow> lost_qos L p th ign extra | Some _ \<Rightarrow> {#QosObject#})"
  by (auto simp: create_qos_def create_readwrite_qos_def lost_qos_def split: sum.splits bool.splits)

end
