(* ===== verification/EndpointProps.thy ===== *)
theory EndpointProps
  imports Endpoints
begin

text \<open>Every creation gains what it should or leaks what is named, and destroying releases it.\<close>

definition leaks :: "'d world \<Rightarrow> 'd world \<Rightarrow> resource multiset \<Rightarrow> bool" where
  "leaks w w' M \<longleftrightarrow> owned w \<subseteq># owned w' \<and> owned w' \<subseteq># owned w + M"

lemma leaks_refl [simp]: "leaks w w M"
  by (simp add: leaks_def)

lemma leaks_owned: "owned w' = owned w + K \<Longrightarrow> K \<subseteq># M \<Longrightarrow> leaks w w' M"
  by (simp add: leaks_def)

lemmas pub_fail_defs = pub_fail_topic_def pub_fail_qos_def pub_fail_writer_def pub_fail_instance_handle_def

lemma leaks_some:
  "owned w' = owned w \<Longrightarrow> leaks w w' M"
  "owned w' = add_mset Listener (owned w) \<Longrightarrow> leaks w w' (add_mset Listener M)"
  "owned w' = add_mset Listener (owned w + M) \<Longrightarrow> leaks w w' (add_mset Listener M)"
  by (simp_all add: leaks_def)

text \<open>What a failure may leave behind: the listener, and the QoS object of an unknown policy.\<close>

definition abandoned :: "rmw_lib \<Rightarrow> rmw_qos_profile \<Rightarrow> (typesupport_identifier \<Rightarrow> message_ts option) \<Rightarrow> bool \<Rightarrow> resource multiset" where
  "abandoned L q ts ign = {#Listener#} + lost_qos L q (case get_typesupport ts of None \<Rightarrow> None | Some t \<Rightarrow> ts_hash t) ign []"

lemma create_cdds_publisher_owned:
  assumes "create_cdds_publisher A L pp p ts name q w = (r, w')"
  shows "case r of
      Some pub \<Rightarrow> owned w' = owned w + {#Writer (enth pub), PublisherStruct#}
    | None \<Rightarrow> leaks w w' (abandoned L q ts False)"
  using assms unfolding abandoned_def create_cdds_publisher_def Let_def
  by (simp only: split: if_splits option.splits prod.splits)
    (auto dest!: ledger simp: pub_fail_defs leaks_some)


lemma owned_updated [ledger]: "update_graph A g w = (r, w') \<Longrightarrow> owned w' = owned w"
  by (auto simp: update_graph_def split: prod.splits)

lemma leaks_trans_owned: "owned w1 = owned w2 \<Longrightarrow> leaks w w2 M \<Longrightarrow> leaks w w1 M"
  by (simp add: leaks_def)

lemma destroy_publisher_owned [simp]:
  "owned (snd (destroy_publisher A pub w)) =
     owned w - {#Writer (enth pub)#} - {#PublisherStruct#} - {#NameString#} - {#RmwHandle#}"
  by (simp add: destroy_publisher_def delete_entity_def split: prod.splits)

lemma create_publisher_owned:
  assumes "create_publisher A L pp p ts name q w = (r, w')"
  shows "case r of
      Some pub \<Rightarrow> owned w' = owned w + {#Writer (enth pub), PublisherStruct, RmwHandle, NameString#}
    | None \<Rightarrow> leaks w w' (abandoned L q ts False)"
proof -
  obtain c w1 where c: "create_cdds_publisher A L pp p ts name q w = (c, w1)" by fastforce
  show ?thesis
    using assms create_cdds_publisher_owned [OF c] unfolding create_publisher_def Let_def c prod.case
    by (simp only: split: if_splits option.splits prod.splits)
      (auto dest!: ledger intro: leaks_trans_owned simp: leaks_some)
qed

lemma rmw_create_publisher_owned:
  assumes "rmw_create_publisher A L nd ts name q u w = (r, w')"
  shows "case r of
      Some pub \<Rightarrow> owned w' = owned w + {#Writer (enth pub), PublisherStruct, RmwHandle, NameString#}
    | None \<Rightarrow> leaks w w' (abandoned L (snd (best_available_publisher A name q (lib w))) ts False)"
proof -
  obtain ret q' where b: "best_available_publisher A name q (lib w) = (ret, q')" by fastforce
  obtain c w1 where c: "create_publisher A L (ppant nd) (dds_pub nd) ts name q' w = (c, w1)" by fastforce
  show ?thesis
    using assms create_publisher_owned [OF c] unfolding rmw_create_publisher_def b prod.case c
    by (simp only: split: if_splits option.splits prod.splits)
      (auto dest!: ledger simp: leaks_some)
qed

lemma rmw_destroy_publisher_owned [simp]:
  "owned (snd (rmw_destroy_publisher A pub w)) =
     owned w - {#Writer (enth pub)#} - {#PublisherStruct#} - {#NameString#} - {#RmwHandle#}"
  by (auto simp: rmw_destroy_publisher_def dest!: owned_updated arg_cong [where f = "\<lambda>x. owned (snd x)", of "destroy_publisher A pub _"]
      split: prod.splits)

lemmas sub_fail_defs = sub_fail_topic_def sub_fail_qos_def sub_fail_reader_def sub_fail_readcond_def

lemma create_cdds_subscription_owned:
  assumes "create_cdds_subscription A L pp p ts name q ign w = (r, w')"
  shows "case r of
      Some sub \<Rightarrow> owned w' = owned w + {#Reader (sub_enth sub), ReadCondition (rdcondh sub), SubscriptionStruct#}
    | None \<Rightarrow> leaks w w' (abandoned L q ts ign)"
  using assms unfolding abandoned_def create_cdds_subscription_def Let_def
  by (simp only: split: if_splits option.splits prod.splits)
    (auto dest!: ledger simp: sub_fail_defs leaks_some)

lemma destroy_subscription_owned [simp]:
  "owned (snd (destroy_subscription A sub w)) =
     owned w - {#ReadCondition (rdcondh sub)#} - {#Reader (sub_enth sub)#} - {#SubscriptionStruct#} - {#NameString#} - {#RmwHandle#}"
  using owned_delete_reader [of A sub w] by (cases "delete_reader A sub w") (simp add: destroy_subscription_def)

lemma create_subscription_owned:
  assumes "create_subscription A L pp p ts name q ign w = (r, w')"
  shows "case r of
      Some sub \<Rightarrow> owned w' = owned w + {#Reader (sub_enth sub), ReadCondition (rdcondh sub), SubscriptionStruct, RmwHandle, NameString#}
    | None \<Rightarrow> leaks w w' (abandoned L q ts ign)"
proof -
  obtain c w1 where c: "create_cdds_subscription A L pp p ts name q ign w = (c, w1)" by fastforce
  show ?thesis
    using assms create_cdds_subscription_owned [OF c] unfolding create_subscription_def Let_def c prod.case
    by (simp only: split: if_splits option.splits prod.splits)
      (auto dest!: ledger intro: leaks_trans_owned simp: leaks_some)
qed

lemma rmw_create_subscription_owned:
  assumes "rmw_create_subscription A L nd ts name q ign u w = (r, w')"
  shows "case r of
      Some sub \<Rightarrow> owned w' = owned w + {#Reader (sub_enth sub), ReadCondition (rdcondh sub), SubscriptionStruct, RmwHandle, NameString#}
    | None \<Rightarrow> leaks w w' (abandoned L (snd (best_available_subscription A name q (lib w))) ts ign)"
proof -
  obtain ret q' where b: "best_available_subscription A name q (lib w) = (ret, q')" by fastforce
  obtain c w1 where c: "create_subscription A L (ppant nd) (dds_sub nd) ts name q' ign w = (c, w1)" by fastforce
  show ?thesis
    using assms create_subscription_owned [OF c] unfolding rmw_create_subscription_def b prod.case c
    by (simp only: split: if_splits option.splits prod.splits)
      (auto dest!: ledger simp: leaks_some)
qed

lemma rmw_destroy_subscription_owned [simp]:
  "owned (snd (rmw_destroy_subscription A sub w)) =
     owned w - {#ReadCondition (rdcondh sub)#} - {#Reader (sub_enth sub)#} - {#SubscriptionStruct#} - {#NameString#} - {#RmwHandle#}"
  by (auto simp: rmw_destroy_subscription_def dest!: owned_updated arg_cong [where f = "\<lambda>x. owned (snd x)", of "destroy_subscription A sub _"]
      split: prod.splits)

end
