(* ===== verification/ClientService.thy ===== *)
theory ClientService
  imports EndpointProps
begin

text \<open>
  Creating and destroying clients and services in \<^verbatim>\<open>rmw_node.cpp\<close>: \<open>rmw_init_cs\<close> with its labels, the
  unique identifiers, and the functions around it.
\<close>

section \<open>Identifiers\<close>

definition get_unique_csid :: "gid \<Rightarrow> 'd world \<Rightarrow> u8 list \<times> 'd world" where
  "get_unique_csid gid w =
     (let x = next_csid w + 1 in
      (take 12 gid @ map (\<lambda>s. ucast (drop_bit s x)) [24, 16, 8, 0], w\<lparr>next_csid := x\<rparr>))"

text \<open>Numbers in hexadecimal; the field width of two, padded with a blank, is for the first only.\<close>

definition hex_char :: "nat \<Rightarrow> char" where
  "hex_char n = (if n < 10 then char_of (48 + n) else char_of (87 + n))"

definition show_hex :: "nat \<Rightarrow> string" where
  "show_hex n = (if n < 16 then [hex_char n] else [hex_char (n div 16), hex_char (n mod 16)])"

definition csid_to_string :: "u8 list \<Rightarrow> string" where
  "csid_to_string csid =
     (let first = show_hex (unat (hd csid)) in
      (if length first < 2 then CHR '' '' # first else first)
      @ concat (map (\<lambda>b. CHR ''.'' # show_hex (unat b)) (tl csid)))"

section \<open>Service type supports\<close>

record service_ts =
  sts_identifier :: typesupport_identifier
  sts_namespace :: string
  sts_name :: string
  request_hash :: "string option"
  response_hash :: "string option"
  service_hash :: "string option"

definition get_service_typesupport :: "(typesupport_identifier \<Rightarrow> service_ts option) \<Rightarrow> service_ts option" where
  "get_service_typesupport type_supports =
     (case type_supports IntrospectionC of Some ts \<Rightarrow> Some ts | None \<Rightarrow> type_supports IntrospectionCpp)"

text \<open>The topics and types an end writes and reads.\<close>

record cs_names =
  pubtopic_name :: string
  subtopic_name :: string
  pub_type_name :: string
  sub_type_name :: string

definition choose_names :: "bool \<Rightarrow> string \<Rightarrow> bool \<Rightarrow> string \<Rightarrow> string \<Rightarrow> cs_names" where
  "choose_names is_service service_name avoid request_type_name response_type_name =
     (if is_service then
        \<lparr>pubtopic_name = make_fqtopic ROS_SERVICE_RESPONSE_PREFIX service_name ''Reply'' avoid,
         subtopic_name = make_fqtopic ROS_SERVICE_REQUESTER_PREFIX service_name ''Request'' avoid,
         pub_type_name = response_type_name, sub_type_name = request_type_name\<rparr>
      else
        \<lparr>pubtopic_name = make_fqtopic ROS_SERVICE_REQUESTER_PREFIX service_name ''Request'' avoid,
         subtopic_name = make_fqtopic ROS_SERVICE_RESPONSE_PREFIX service_name ''Reply'' avoid,
         pub_type_name = request_type_name, sub_type_name = response_type_name\<rparr>)"

section \<open>Initialising one end\<close>

record cs =
  cs_pub :: pub_data
  cs_sub :: sub_data
  cs_id :: "u8 list"

text \<open>The labels; past the last one the objects held by \<open>pub\<close> and \<open>sub\<close> are freed with the pointers.\<close>

definition cs_fail_pubtopic :: "'d world \<Rightarrow> 'd world" where
  "cs_fail_pubtopic w = disown PublisherStruct (disown SubscriptionStruct w)"

definition cs_fail_subtopic :: "'d ep_api \<Rightarrow> dds_entity \<Rightarrow> 'd world \<Rightarrow> 'd world" where
  "cs_fail_subtopic A pubtopic w = cs_fail_pubtopic (snd (delete_entity A pubtopic (Topic pubtopic) w))"

definition cs_fail_pub_qos :: "'d ep_api \<Rightarrow> dds_entity \<Rightarrow> dds_entity \<Rightarrow> 'd world \<Rightarrow> 'd world" where
  "cs_fail_pub_qos A pubtopic subtopic w = cs_fail_subtopic A pubtopic (snd (delete_entity A subtopic (Topic subtopic) w))"

definition cs_fail_sub_qos :: "'d ep_api \<Rightarrow> dds_entity \<Rightarrow> dds_entity \<Rightarrow> 'd world \<Rightarrow> 'd world" where
  "cs_fail_sub_qos A pubtopic subtopic w = cs_fail_pub_qos A pubtopic subtopic (disown QosObject w)"

definition cs_fail_writer :: "'d ep_api \<Rightarrow> dds_entity \<Rightarrow> dds_entity \<Rightarrow> 'd world \<Rightarrow> 'd world" where
  "cs_fail_writer A pubtopic subtopic w = cs_fail_sub_qos A pubtopic subtopic (disown QosObject w)"

definition cs_fail_reader :: "'d ep_api \<Rightarrow> dds_entity \<Rightarrow> dds_entity \<Rightarrow> dds_entity \<Rightarrow> 'd world \<Rightarrow> 'd world" where
  "cs_fail_reader A pubtopic subtopic writer w =
     cs_fail_writer A pubtopic subtopic (snd (delete_entity A writer (Writer writer) w))"

definition cs_fail_readcond :: "'d ep_api \<Rightarrow> dds_entity \<Rightarrow> dds_entity \<Rightarrow> dds_entity \<Rightarrow> dds_entity \<Rightarrow> 'd world \<Rightarrow> 'd world" where
  "cs_fail_readcond A pubtopic subtopic writer reader w =
     cs_fail_reader A pubtopic subtopic writer (snd (delete_entity A reader (Reader reader) w))"

definition cs_fail_instance_handle ::
  "'d ep_api \<Rightarrow> dds_entity \<Rightarrow> dds_entity \<Rightarrow> dds_entity \<Rightarrow> dds_entity \<Rightarrow> dds_entity \<Rightarrow> 'd world \<Rightarrow> 'd world" where
  "cs_fail_instance_handle A pubtopic subtopic writer reader cond w =
     cs_fail_readcond A pubtopic subtopic writer reader (snd (delete_entity A cond (ReadCondition cond) w))"

text \<open>The checks of the arguments, and the type names; an error code, or the handle and both names.\<close>

definition check_cs_arguments ::
  "'d ep_api \<Rightarrow> (typesupport_identifier \<Rightarrow> service_ts option) \<Rightarrow> string \<Rightarrow> rmw_qos_profile \<Rightarrow> rmw_ret + service_ts \<times> string \<times> string" where
  "check_cs_arguments A type_supports service_name qos_policies =
     (if service_name = [] then Inl RMW_RET_INVALID_ARGUMENT
      else case (if avoid_ros_namespace_conventions qos_policies then (RMW_RET_OK, True)
                 else rmw_validate_full_topic_name A service_name) of (ret, valid) \<Rightarrow>
        if ret \<noteq> RMW_RET_OK then Inl ret
        else if \<not> valid then Inl RMW_RET_INVALID_ARGUMENT
        else case get_service_typesupport type_supports of
          None \<Rightarrow> Inl RMW_RET_ERROR
        | Some ts \<Rightarrow>
          let request_type_name = fst (get_request_type_name (sts_identifier ts) (sts_namespace ts) (sts_name ts)) in
          if request_type_name = [] then Inl RMW_RET_ERROR
          else
            let response_type_name = fst (get_response_type_name (sts_identifier ts) (sts_namespace ts) (sts_name ts)) in
            if response_type_name = [] then Inl RMW_RET_ERROR
            else Inr (ts, request_type_name, response_type_name))"

text \<open>The reader, the writer and the read condition, once topics and QoS are there.\<close>

definition create_cs_entities ::
  "'d ep_api \<Rightarrow> node \<Rightarrow> dds_entity \<Rightarrow> dds_entity \<Rightarrow> dds_qos \<Rightarrow> dds_qos \<Rightarrow> u8 list \<Rightarrow> 'd world \<Rightarrow> (rmw_ret \<times> cs option) \<times> 'd world" where
  "create_cs_entities A nd pubtopic subtopic pub_qos sub_qos csid w =
     (case create_entity (dds_create_writer A (dds_pub nd) pubtopic pub_qos) Writer w of (writer, w) \<Rightarrow>
      if writer < 0 then ((RMW_RET_ERROR, None), cs_fail_writer A pubtopic subtopic w)
      else case create_entity (dds_create_reader A (dds_sub nd) subtopic sub_qos) Reader w of (reader, w) \<Rightarrow>
      if reader < 0 then ((RMW_RET_ERROR, None), cs_fail_reader A pubtopic subtopic writer w)
      else case create_entity (dds_create_readcondition A reader) ReadCondition w of (cond, w) \<Rightarrow>
      if cond < 0 then ((RMW_RET_ERROR, None), cs_fail_readcond A pubtopic subtopic writer reader w)
      else case dds_get_instance_handle A writer (lib w) of (n, iid) \<Rightarrow>
      if n < 0 then ((RMW_RET_ERROR, None), cs_fail_instance_handle A pubtopic subtopic writer reader cond w)
      else
        let pub = \<lparr>enth = writer, pubiid = iid, pub_gid = dds_get_guid A writer (lib w)\<rparr>;
            sub = \<lparr>sub_enth = reader, rdcondh = cond, sub_gid = dds_get_guid A reader (lib w)\<rparr>;
            w = disown Listener w;
            w = disown QosObject w;
            w = disown QosObject w;
            w = snd (delete_entity A subtopic (Topic subtopic) w);
            w = snd (delete_entity A pubtopic (Topic pubtopic) w) in
        ((RMW_RET_OK, Some \<lparr>cs_pub = pub, cs_sub = sub, cs_id = csid\<rparr>), w))"

definition cs_user_data :: "bool \<Rightarrow> u8 list \<Rightarrow> string option \<Rightarrow> string" where
  "cs_user_data is_service csid type_hash =
     (if is_service then ''serviceid='' else ''clientid='') @ csid_to_string csid @ '';''
     @ (case type_hash of None \<Rightarrow> [] | Some s \<Rightarrow> s)"

definition rmw_init_cs ::
  "'d ep_api \<Rightarrow> rmw_lib \<Rightarrow> node \<Rightarrow> (typesupport_identifier \<Rightarrow> service_ts option) \<Rightarrow> string \<Rightarrow> rmw_qos_profile \<Rightarrow> bool \<Rightarrow>
   'd world \<Rightarrow> (rmw_ret \<times> cs option) \<times> 'd world" where
  "rmw_init_cs A L nd type_supports service_name qos_policies is_service w =
     (case check_cs_arguments A type_supports service_name qos_policies of
        Inl ret \<Rightarrow> ((ret, None), w)
      | Inr (ts, request_type_name, response_type_name) \<Rightarrow>
        let w = own PublisherStruct w;
            w = own SubscriptionStruct w;
            w = own Listener w;
            (pub_type_hash, sub_type_hash) =
              (if is_service then (response_hash ts, request_hash ts) else (request_hash ts, response_hash ts));
            names = choose_names is_service service_name (avoid_ros_namespace_conventions qos_policies) request_type_name response_type_name;
            w = own SertypeRef w;
            w = own SertypeRef w in
        case create_topic A (ppant nd) (pubtopic_name names) (pub_type_name names, True) w of (pubtopic, w) \<Rightarrow>
        if pubtopic < 0 then ((RMW_RET_ERROR, None), cs_fail_pubtopic w)
        else case create_topic A (ppant nd) (subtopic_name names) (sub_type_name names, True) w of (subtopic, w) \<Rightarrow>
        if subtopic < 0 then ((RMW_RET_ERROR, None), cs_fail_subtopic A pubtopic w)
        else case get_unique_csid (ppant_gid nd) w of (csid, w) \<Rightarrow>
        let user_data = cs_user_data is_service csid (service_hash ts) in
        case create_qos L qos_policies pub_type_hash False user_data w of
          (None, w) \<Rightarrow> ((RMW_RET_ERROR, None), cs_fail_pub_qos A pubtopic subtopic w)
        | (Some pub_qos, w) \<Rightarrow>
          (case create_qos L qos_policies sub_type_hash False user_data w of
             (None, w) \<Rightarrow> ((RMW_RET_ERROR, None), cs_fail_sub_qos A pubtopic subtopic w)
           | (Some sub_qos, w) \<Rightarrow> create_cs_entities A nd pubtopic subtopic pub_qos sub_qos csid w))"

definition rmw_fini_cs :: "'d ep_api \<Rightarrow> cs \<Rightarrow> 'd world \<Rightarrow> 'd world" where
  "rmw_fini_cs A cs w =
     (let w = snd (delete_entity A (rdcondh (cs_sub cs)) (ReadCondition (rdcondh (cs_sub cs))) w);
          w = snd (delete_entity A (sub_enth (cs_sub cs)) (Reader (sub_enth (cs_sub cs))) w) in
      snd (delete_entity A (enth (cs_pub cs)) (Writer (enth (cs_pub cs))) w))"

section \<open>Clients and services\<close>

text \<open>Deleting the object frees the publisher and the subscription it holds.\<close>

definition delete_cs :: "'d world \<Rightarrow> 'd world" where
  "delete_cs w = disown ClientServiceStruct (disown PublisherStruct (disown SubscriptionStruct w))"

definition graph_add :: "bool \<Rightarrow> cs \<Rightarrow> graph_op" where
  "graph_add is_service cs =
     (if is_service then AddService (sub_gid (cs_sub cs)) (pub_gid (cs_pub cs))
      else AddClient (pub_gid (cs_pub cs)) (sub_gid (cs_sub cs)))"

definition graph_remove :: "bool \<Rightarrow> cs \<Rightarrow> graph_op" where
  "graph_remove is_service cs =
     (if is_service then RemoveService (sub_gid (cs_sub cs)) (pub_gid (cs_pub cs))
      else RemoveClient (pub_gid (cs_pub cs)) (sub_gid (cs_sub cs)))"

definition create_cs ::
  "bool \<Rightarrow> 'd ep_api \<Rightarrow> rmw_lib \<Rightarrow> node \<Rightarrow> (typesupport_identifier \<Rightarrow> service_ts option) \<Rightarrow> string \<Rightarrow> rmw_qos_profile \<Rightarrow>
   'd world \<Rightarrow> cs option \<times> 'd world" where
  "create_cs is_service A L nd type_supports service_name qos_policies w =
     (let w = own ClientServiceStruct w in
      case rmw_init_cs A L nd type_supports service_name (best_available_services A qos_policies) is_service w of
        ((ret, None), w) \<Rightarrow> (None, disown ClientServiceStruct w)
      | ((ret, Some cs), w) \<Rightarrow>
        (case allocate A RmwHandle w of (ok, w) \<Rightarrow>
         if \<not> ok then (None, delete_cs (rmw_fini_cs A cs w))
         else (case allocate A NameString w of (ok, w) \<Rightarrow>
           if \<not> ok then (None, delete_cs (rmw_fini_cs A cs (disown RmwHandle w)))
           else (case update_graph A (graph_add is_service cs) w of (ret, w) \<Rightarrow>
             if ret \<noteq> RMW_RET_OK then (None, delete_cs (rmw_fini_cs A cs (disown RmwHandle (disown NameString w))))
             else (Some cs, w)))))"

definition destroy_cs :: "bool \<Rightarrow> 'd ep_api \<Rightarrow> cs \<Rightarrow> 'd world \<Rightarrow> rmw_ret \<times> 'd world" where
  "destroy_cs is_service A cs w =
     (case update_graph A (graph_remove is_service cs) w of (_, w) \<Rightarrow>
        (RMW_RET_OK, disown RmwHandle (disown NameString (delete_cs (rmw_fini_cs A cs w)))))"

definition rmw_create_client ::
  "'d ep_api \<Rightarrow> rmw_lib \<Rightarrow> node \<Rightarrow> (typesupport_identifier \<Rightarrow> service_ts option) \<Rightarrow> string \<Rightarrow> rmw_qos_profile \<Rightarrow>
   'd world \<Rightarrow> cs option \<times> 'd world" where
  "rmw_create_client = create_cs False"

definition rmw_create_service ::
  "'d ep_api \<Rightarrow> rmw_lib \<Rightarrow> node \<Rightarrow> (typesupport_identifier \<Rightarrow> service_ts option) \<Rightarrow> string \<Rightarrow> rmw_qos_profile \<Rightarrow>
   'd world \<Rightarrow> cs option \<times> 'd world" where
  "rmw_create_service = create_cs True"

definition rmw_destroy_client :: "'d ep_api \<Rightarrow> cs \<Rightarrow> 'd world \<Rightarrow> rmw_ret \<times> 'd world" where
  "rmw_destroy_client = destroy_cs False"

definition rmw_destroy_service :: "'d ep_api \<Rightarrow> cs \<Rightarrow> 'd world \<Rightarrow> rmw_ret \<times> 'd world" where
  "rmw_destroy_service = destroy_cs True"

section \<open>What is owned afterwards\<close>

lemmas cs_fail_defs = cs_fail_pubtopic_def cs_fail_subtopic_def cs_fail_pub_qos_def cs_fail_sub_qos_def cs_fail_writer_def
  cs_fail_reader_def cs_fail_readcond_def cs_fail_instance_handle_def

definition cs_resources :: "cs \<Rightarrow> resource multiset" where
  "cs_resources cs = {#Writer (enth (cs_pub cs)), Reader (sub_enth (cs_sub cs)), ReadCondition (rdcondh (cs_sub cs)),
     PublisherStruct, SubscriptionStruct#}"

lemma create_cs_entities_owned:
  assumes "create_cs_entities A nd pt st pq sq i w = ((ret, r), w')"
    and "owned w = owned w0 + {#Listener, QosObject, QosObject, Topic st, Topic pt, PublisherStruct, SubscriptionStruct#}"
  shows "case r of Some cs \<Rightarrow> owned w' = owned w0 + cs_resources cs | None \<Rightarrow> owned w' = owned w0 + {#Listener#}"
  using assms unfolding create_cs_entities_def Let_def
  by (simp only: split: if_splits option.splits prod.splits)
    (auto dest!: ledger simp: cs_fail_defs cs_resources_def)

lemma owned_get_unique_csid: "get_unique_csid g w = (i, w') \<Longrightarrow> owned w' = owned w"
  by (auto simp: get_unique_csid_def Let_def)

lemma leaks_listener:
  "owned w' = add_mset Listener (owned w) \<Longrightarrow> leaks w w' {#Listener, SertypeRef, QosObject#}"
  "owned w' = add_mset Listener (add_mset SertypeRef (owned w)) \<Longrightarrow> leaks w w' {#Listener, SertypeRef, QosObject#}"
  "owned w' = add_mset Listener (add_mset QosObject (owned w)) \<Longrightarrow> leaks w w' {#Listener, SertypeRef, QosObject#}"
  by (simp_all add: leaks_def)

lemma lost_qos_cases: "lost_qos L p th ign extra = {#} \<or> lost_qos L p th ign extra = {#QosObject#}"
  by (simp add: lost_qos_def split: sum.splits bool.splits)

lemma rmw_init_cs_owned:
  assumes "rmw_init_cs A L nd ts name q is w = ((ret, r), w')"
  shows "case r of Some cs \<Rightarrow> owned w' = owned w + cs_resources cs | None \<Rightarrow> leaks w w' {#Listener, SertypeRef, QosObject#}"
proof (cases "check_cs_arguments A ts name q")
  case (Inl e)
  then show ?thesis using assms by (auto simp: rmw_init_cs_def)
next
  case (Inr x)
  obtain t rq rs where x: "x = (t, rq, rs)" by (metis prod_cases3)
  let ?names = "choose_names is name (avoid_ros_namespace_conventions q) rq rs"
  let ?w = "own SertypeRef (own SertypeRef (own Listener (own SubscriptionStruct (own PublisherStruct w))))"
  obtain ph sh where h: "(if is then (response_hash t, request_hash t) else (request_hash t, response_hash t)) = (ph, sh)" by fastforce
  obtain pt w1 where p: "create_topic A (ppant nd) (pubtopic_name ?names) (pub_type_name ?names, True) ?w = (pt, w1)" by fastforce
  obtain st w2 where s: "create_topic A (ppant nd) (subtopic_name ?names) (sub_type_name ?names, True) w1 = (st, w2)" by fastforce
  obtain i w3 where i: "get_unique_csid (ppant_gid nd) w2 = (i, w3)" by fastforce
  let ?ud = "cs_user_data is i (service_hash t)"
  obtain pq w4 where pq: "create_qos L q ph False ?ud w3 = (pq, w4)" by fastforce
  obtain sq w5 where sq: "create_qos L q sh False ?ud w4 = (sq, w5)" by fastforce
  note o = owned_create_topic [OF p] owned_create_topic [OF s] owned_get_unique_csid [OF i] owned_create_qos [OF pq] owned_create_qos [OF sq]
  note e = assms [unfolded rmw_init_cs_def Inr x, simplified Let_def sum.case prod.case h p s i pq sq]
  consider "pt < 0" | "\<not> pt < 0" "st < 0" | "\<not> pt < 0" "\<not> st < 0" "pq = None"
    | pq' where "\<not> pt < 0" "\<not> st < 0" "pq = Some pq'" "sq = None"
    | pq' sq' where "\<not> pt < 0" "\<not> st < 0" "pq = Some pq'" "sq = Some sq'"
    by (cases pq; cases sq) auto
  then show ?thesis
  proof cases
    case 1
    then show ?thesis using e o by (auto simp: cs_fail_defs leaks_listener)
  next
    case 2
    then show ?thesis using e o by (auto simp: cs_fail_defs leaks_listener)
  next
    case 3
    then show ?thesis using e o lost_qos_cases [of L q ph False ?ud] by (auto simp: cs_fail_defs leaks_listener)
  next
    case 4
    then show ?thesis using e o lost_qos_cases [of L q sh False ?ud] by (auto simp: cs_fail_defs leaks_listener)
  next
    case 5
    then have "create_cs_entities A nd pt st pq' sq' i w5 = ((ret, r), w')" using e by simp
    moreover have "owned w5 = owned w + {#Listener, QosObject, QosObject, Topic st, Topic pt, PublisherStruct, SubscriptionStruct#}"
      using 5 o by simp
    ultimately show ?thesis
      using create_cs_entities_owned by (fastforce split: option.splits simp: leaks_listener)
  qed
qed

lemma rmw_fini_cs_owned [simp]:
  "owned (rmw_fini_cs A cs w) =
     owned w - {#ReadCondition (rdcondh (cs_sub cs))#} - {#Reader (sub_enth (cs_sub cs))#} - {#Writer (enth (cs_pub cs))#}"
  by (simp add: rmw_fini_cs_def Let_def)

lemma leaks_disown:
  assumes "leaks (own R w) w' M"
  shows "leaks w (disown R w') M"
proof -
  obtain K where k: "owned w' = add_mset R (owned w) + K"
    using assms by (auto simp: leaks_def mset_subset_eq_exists_conv)
  then have "K \<subseteq># M" using assms by (simp add: leaks_def)
  then show ?thesis by (simp add: leaks_def k)
qed

lemma create_cs_owned:
  assumes "create_cs is A L nd ts name q w = (r, w')"
  shows "case r of
      Some cs \<Rightarrow> owned w' = owned w + cs_resources cs + {#ClientServiceStruct, RmwHandle, NameString#}
    | None \<Rightarrow> leaks w w' {#Listener, SertypeRef, QosObject#}"
proof -
  obtain ret c w1 where i: "rmw_init_cs A L nd ts name (best_available_services A q) is (own ClientServiceStruct w) = ((ret, c), w1)"
    by (metis prod.collapse)
  note o = rmw_init_cs_owned [OF i]
  show ?thesis
  proof (cases c)
    case None
    then have "leaks (own ClientServiceStruct w) w1 {#Listener, SertypeRef, QosObject#}" using o by simp
    then have "leaks w (disown ClientServiceStruct w1) {#Listener, SertypeRef, QosObject#}"
      by (rule leaks_disown)
    then show ?thesis using assms None by (simp add: create_cs_def Let_def i)
  next
    case (Some cs)
    then show ?thesis
      using assms o unfolding create_cs_def Let_def i prod.case option.case
      by (simp only: split: if_splits option.splits prod.splits)
        (auto dest!: ledger simp: cs_resources_def delete_cs_def leaks_some)
  qed
qed

lemma destroy_cs_owned [simp]:
  "owned (snd (destroy_cs is A cs w)) =
     owned w - (cs_resources cs + {#ClientServiceStruct, RmwHandle, NameString#})"
  by (auto simp: destroy_cs_def delete_cs_def cs_resources_def dest!: ledger split: prod.splits)
    (simp add: add_mset_commute)

end
