(* ===== verification/EndpointClaims.thy ===== *)
theory EndpointClaims
  imports ClientService Bytewise
begin

text \<open>
  The properties of creating and destroying publishers, subscriptions, clients and services, and the
  lemmas on identifiers they need.
\<close>

section \<open>Reading identifiers back\<close>

lemma hex_char_inj: "n < 16 \<Longrightarrow> m < 16 \<Longrightarrow> hex_char n = hex_char m \<longleftrightarrow> n = m"
  by (auto simp: hex_char_def split: if_splits dest!: arg_cong [where f = "of_char :: char \<Rightarrow> nat"])

lemma hex_char_dot: "n < 16 \<Longrightarrow> hex_char n \<noteq> CHR ''.'' \<and> hex_char n \<noteq> CHR '' ''"
  by (auto simp: hex_char_def dest!: arg_cong [where f = "of_char :: char \<Rightarrow> nat"])

lemma show_hex_inj: "n < 256 \<Longrightarrow> m < 256 \<Longrightarrow> show_hex n = show_hex m \<longleftrightarrow> n = m"
  by (auto simp: show_hex_def hex_char_inj split: if_splits) (metis div_mult_mod_eq)

lemma show_hex_chars: "n < 256 \<Longrightarrow> c \<in> set (show_hex n) \<Longrightarrow> c \<noteq> CHR ''.'' \<and> c \<noteq> CHR '' ''"
  using hex_char_dot by (auto simp: show_hex_def split: if_splits)

lemma unat_byte: "unat (b :: u8) < 256"
  using unsigned_less [of b] by simp

lemma show_byte_inj: "show_hex (unat (a :: u8)) = show_hex (unat b) \<longleftrightarrow> a = b"
  using show_hex_inj [OF unat_byte unat_byte] by (simp add: word_unat_eq_iff)

definition dotted :: "u8 list \<Rightarrow> string" where
  "dotted bs = concat (map (\<lambda>b. CHR ''.'' # show_hex (unat b)) bs)"

lemma dotted_start: "dotted bs = [] \<or> hd (dotted bs) = CHR ''.''"
  by (cases bs) (simp_all add: dotted_def)

lemma take_show_hex: "takeWhile (\<lambda>c. c \<noteq> CHR ''.'') (show_hex (unat (b :: u8)) @ dotted bs) = show_hex (unat b)"
proof -
  have "takeWhile (\<lambda>c. c \<noteq> CHR ''.'') (dotted bs) = []"
    using dotted_start [of bs] by (cases "dotted bs") auto
  moreover have "c \<noteq> CHR ''.''" if "c \<in> set (show_hex (unat b))" for c
    using show_hex_chars [OF unat_byte that] by simp
  ultimately show ?thesis by (subst takeWhile_append2) auto
qed

lemma dotted_inj: "dotted as = dotted bs \<longleftrightarrow> as = bs"
proof (induction as arbitrary: bs)
  case Nil
  then show ?case by (cases bs) (simp_all add: dotted_def)
next
  case (Cons a as)
  show ?case
  proof (cases bs)
    case Nil
    then show ?thesis by (simp add: dotted_def)
  next
    case (Cons b bs')
    have "dotted (a # as) = dotted (b # bs') \<longleftrightarrow> show_hex (unat a) @ dotted as = show_hex (unat b) @ dotted bs'"
      by (simp add: dotted_def)
    also have "\<dots> \<longleftrightarrow> show_hex (unat a) = show_hex (unat b) \<and> dotted as = dotted bs'"
      by (metis append_eq_append_conv take_show_hex)
    finally show ?thesis using Cons.IH Cons by (simp add: show_byte_inj)
  qed
qed

lemma csid_to_string_dotted:
  "csid_to_string (b # bs) = (if length (show_hex (unat b)) < 2 then '' '' else []) @ show_hex (unat b) @ dotted bs"
  by (simp add: csid_to_string_def dotted_def Let_def)

lemma csid_to_string_inj:
  assumes "as \<noteq> []" "bs \<noteq> []"
  shows "csid_to_string as = csid_to_string bs \<longleftrightarrow> as = bs"
proof -
  obtain a as' b bs' where e: "as = a # as'" "bs = b # bs'" using assms by (meson neq_Nil_conv)
  let ?strip = "dropWhile (\<lambda>c. c = CHR '' '')"
  have s: "?strip (csid_to_string (c # cs)) = show_hex (unat c) @ dotted cs" for c cs
  proof -
    obtain x xs where x: "show_hex (unat c) = x # xs" by (cases "show_hex (unat c)") (simp_all add: show_hex_def split: if_splits)
    then have "x \<noteq> CHR '' ''" using show_hex_chars [OF unat_byte [of c], of x] by simp
    then show ?thesis by (simp add: csid_to_string_dotted x)
  qed
  have "as = bs" if "csid_to_string as = csid_to_string bs"
  proof -
    have "show_hex (unat a) @ dotted as' = show_hex (unat b) @ dotted bs'" using arg_cong [OF that, of ?strip] by (simp only: e s)
    then have "show_hex (unat a) = show_hex (unat b) \<and> dotted as' = dotted bs'"
      by (metis append_eq_append_conv take_show_hex)
    then show ?thesis by (simp add: e show_byte_inj dotted_inj)
  qed
  then show ?thesis by blast
qed

lemma be_bytes_inj:
  "map (\<lambda>s. ucast (drop_bit s x) :: u8) [24, 16, 8, 0] = map (\<lambda>s. ucast (drop_bit s (y :: u32))) [24, 16, 8, 0] \<longleftrightarrow> x = y"
proof
  assume "map (\<lambda>s. ucast (drop_bit s x) :: u8) [24, 16, 8, 0] = map (\<lambda>s. ucast (drop_bit s y)) [24, 16, 8, 0]"
  then have "word_bytes little 4 x = word_bytes little 4 y"
    by (simp add: word_bytes_def le_bytes_def upt_rec numeral_eq_Suc)
  from arg_cong [OF this, of "bytes_word little :: u8 list \<Rightarrow> u32"] show "x = y"
    by (simp add: bytes_word_word_bytes)
qed simp

section \<open>Properties\<close>

text \<open>
  C23. Publishers, subscriptions, clients and services that are created are released by destroying them,
  completely and nothing else.  A creation that fails releases what it had acquired, up to the listener,
  the QoS object of an unknown policy, and a reference to a serialized type.
\<close>

theorem endpoints_balanced:
  "(case rmw_create_publisher A L nd ts name q u w of
      (None, w') \<Rightarrow> leaks w w' (abandoned L (snd (best_available_publisher A name q (lib w))) ts False)
    | (Some pub, w') \<Rightarrow> owned w \<subseteq># owned w' \<and>
        (\<forall>v. owned (snd (rmw_destroy_publisher A pub v)) = owned v - (owned w' - owned w)))
   \<and> (case rmw_create_subscription A L nd ts name q ign u w of
      (None, w') \<Rightarrow> leaks w w' (abandoned L (snd (best_available_subscription A name q (lib w))) ts ign)
    | (Some sub, w') \<Rightarrow> owned w \<subseteq># owned w' \<and>
        (\<forall>v. owned (snd (rmw_destroy_subscription A sub v)) = owned v - (owned w' - owned w)))
   \<and> (case rmw_create_client A L nd sts name q w of
      (None, w') \<Rightarrow> leaks w w' {#Listener, SertypeRef, QosObject#}
    | (Some cs, w') \<Rightarrow> owned w \<subseteq># owned w' \<and>
        (\<forall>v. owned (snd (rmw_destroy_client A cs v)) = owned v - (owned w' - owned w)))
   \<and> (case rmw_create_service A L nd sts name q w of
      (None, w') \<Rightarrow> leaks w w' {#Listener, SertypeRef, QosObject#}
    | (Some cs, w') \<Rightarrow> owned w \<subseteq># owned w' \<and>
        (\<forall>v. owned (snd (rmw_destroy_service A cs v)) = owned v - (owned w' - owned w)))"
proof (intro conjI)
  note r [simp] = rmw_create_client_def rmw_create_service_def rmw_destroy_client_def rmw_destroy_service_def
  show "case rmw_create_publisher A L nd ts name q u w of
      (None, w') \<Rightarrow> leaks w w' (abandoned L (snd (best_available_publisher A name q (lib w))) ts False)
    | (Some pub, w') \<Rightarrow> owned w \<subseteq># owned w' \<and>
        (\<forall>v. owned (snd (rmw_destroy_publisher A pub v)) = owned v - (owned w' - owned w))"
    using rmw_create_publisher_owned [of A L nd ts name q u w]
    by (auto split: prod.splits option.splits simp: add_mset_commute)
  show "case rmw_create_subscription A L nd ts name q ign u w of
      (None, w') \<Rightarrow> leaks w w' (abandoned L (snd (best_available_subscription A name q (lib w))) ts ign)
    | (Some sub, w') \<Rightarrow> owned w \<subseteq># owned w' \<and>
        (\<forall>v. owned (snd (rmw_destroy_subscription A sub v)) = owned v - (owned w' - owned w))"
    using rmw_create_subscription_owned [of A L nd ts name q ign u w]
    by (auto split: prod.splits option.splits simp: add_mset_commute)
  show "case rmw_create_client A L nd sts name q w of
      (None, w') \<Rightarrow> leaks w w' {#Listener, SertypeRef, QosObject#}
    | (Some cs, w') \<Rightarrow> owned w \<subseteq># owned w' \<and>
        (\<forall>v. owned (snd (rmw_destroy_client A cs v)) = owned v - (owned w' - owned w))"
    using create_cs_owned [of False A L nd sts name q w]
    by (auto split: prod.splits option.splits simp: add_mset_commute)
  show "case rmw_create_service A L nd sts name q w of
      (None, w') \<Rightarrow> leaks w w' {#Listener, SertypeRef, QosObject#}
    | (Some cs, w') \<Rightarrow> owned w \<subseteq># owned w' \<and>
        (\<forall>v. owned (snd (rmw_destroy_service A cs v)) = owned v - (owned w' - owned w))"
    using create_cs_owned [of True A L nd sts name q w]
    by (auto split: prod.splits option.splits simp: add_mset_commute)
qed

text \<open>
  C24. What the failure of creating a topic leaves behind: the listener is never deleted, for none of
  the four kinds, and a client or service also loses its reference to the serialized type of the
  topic it did not get to create.
\<close>

theorem failed_topic_abandons_listener:
  assumes "\<And>pp n st d. fst (dds_create_topic_sertype A pp n st d) < 0"
    and "name \<noteq> []" "get_typesupport ts = Some t" "fst (get_message_type_name (ts_identifier t) (ts_namespace t) (ts_name t)) \<noteq> []"
    and "check_cs_arguments A sts name q = Inr x"
  shows "owned (snd (create_publisher A L pp p ts name q w)) = owned w + {#Listener#}
    \<and> owned (snd (create_subscription A L pp p ts name q ign w)) = owned w + {#Listener#}
    \<and> owned (snd (rmw_init_cs A L nd sts name q is_service w)) = owned w + {#Listener, SertypeRef#}"
proof -
  have c: "\<exists>tp v'. create_topic A pp n st v = (tp, v') \<and> tp < 0 \<and> owned v' = owned v - {#SertypeRef#}" for pp n st and v :: "'a world"
  proof -
    obtain tp v' where t: "create_topic A pp n st v = (tp, v')" by fastforce
    then have "tp < 0"
      using assms(1) [of pp n st "lib v"] by (auto simp: create_topic_def create_entity_def split: prod.splits)
    then show ?thesis using t owned_create_topic [OF t] by auto
  qed
  let ?tn = "fst (get_message_type_name (ts_identifier t) (ts_namespace t) (ts_name t))"
  let ?n = "make_fqtopic ROS_TOPIC_PREFIX name [] (avoid_ros_namespace_conventions q)"
  obtain tp v where tv: "create_topic A pp ?n (?tn, False) (own SertypeRef (own PublisherStruct w)) = (tp, v)" "tp < 0"
    "owned v = owned (own SertypeRef (own PublisherStruct w)) - {#SertypeRef#}" using c by blast
  obtain tq u where tu: "create_topic A pp ?n (?tn, False) (own SertypeRef (own SubscriptionStruct w)) = (tq, u)" "tq < 0"
    "owned u = owned (own SertypeRef (own SubscriptionStruct w)) - {#SertypeRef#}" using c by blast
  obtain h rq rs where x: "x = (h, rq, rs)" by (metis prod_cases3)
  let ?names = "choose_names is_service name (avoid_ros_namespace_conventions q) rq rs"
  let ?w = "own SertypeRef (own SertypeRef (own Listener (own SubscriptionStruct (own PublisherStruct w))))"
  obtain tr y where ty: "create_topic A (ppant nd) (pubtopic_name ?names) (pub_type_name ?names, True) ?w = (tr, y)" "tr < 0"
    "owned y = owned ?w - {#SertypeRef#}" using c by blast
  show ?thesis
    using tv tu ty assms(2-5)
    by (simp add: create_publisher_def create_cdds_publisher_def create_subscription_def create_cdds_subscription_def
        rmw_init_cs_def x Let_def pub_fail_topic_def sub_fail_topic_def cs_fail_pubtopic_def split: prod.splits)
qed

text \<open>An interface on which no topic can be created.\<close>

definition ex_ep_api :: "unit ep_api" where
  "ex_ep_api = \<lparr>
     dds_create_topic_sertype = (\<lambda>_ _ _ d. (- 1, d)),
     dds_create_writer = (\<lambda>_ _ _ d. (1, d)),
     dds_create_reader = (\<lambda>_ _ _ d. (2, d)),
     dds_create_readcondition = (\<lambda>_ d. (3, d)),
     dds_get_instance_handle = (\<lambda>_ _. (0, 4)),
     dds_get_guid = (\<lambda>_ _. replicate 16 0),
     dds_delete_call = (\<lambda>_ d. (0, d)),
     allocates = (\<lambda>d. (True, d)),
     rmw_validate_full_topic_name = (\<lambda>_. (RMW_RET_OK, True)),
     best_available_publisher = (\<lambda>_ q _. (RMW_RET_OK, q)),
     best_available_subscription = (\<lambda>_ q _. (RMW_RET_OK, q)),
     best_available_services = (\<lambda>q. q),
     graph_update = (\<lambda>_ d. (RMW_RET_OK, d))\<rparr>"

lemma failed_topic_abandons_listener_witness:
  "owned (snd (rmw_init_cs ex_ep_api ex_rmw_lib \<lparr>ppant = 1, dds_pub = 2, dds_sub = 3, ppant_gid = replicate 16 0\<rparr>
     (\<lambda>_. Some \<lparr>sts_identifier = IntrospectionC, sts_namespace = ''std_srvs__srv'', sts_name = ''Empty'', request_hash = None,
        response_hash = None, service_hash = None\<rparr>) ''/empty'' ex_profile True \<lparr>lib = (), owned = {#}, next_csid = 0\<rparr>))
   = {#Listener, SertypeRef#}"
proof -
  let ?sts = "\<lparr>sts_identifier = IntrospectionC, sts_namespace = ''std_srvs__srv'', sts_name = ''Empty'', request_hash = None,
    response_hash = None, service_hash = None\<rparr>"
  let ?t = "\<lparr>ts_identifier = IntrospectionC, ts_namespace = ''std_msgs__msg'', ts_name = ''String'', ts_hash = None\<rparr>"
  have a: "fst (dds_create_topic_sertype ex_ep_api pp n st d) < 0" for pp n st d by (simp add: ex_ep_api_def)
  have t: "get_typesupport (\<lambda>_. Some ?t) = Some ?t" by (simp add: get_typesupport_def)
  have n: "fst (get_message_type_name (ts_identifier ?t) (ts_namespace ?t) (ts_name ?t)) \<noteq> []"
    by (simp add: get_message_type_name_def get_type_name_def get_type_name_impl_def)
  have c: "\<exists>x. check_cs_arguments ex_ep_api (\<lambda>_. Some ?sts) ''/empty'' ex_profile = Inr x"
    by (simp add: check_cs_arguments_def ex_ep_api_def get_service_typesupport_def get_request_type_name_def
        get_response_type_name_def get_type_name_def get_type_name_impl_def Let_def)
  then obtain x where x: "check_cs_arguments ex_ep_api (\<lambda>_. Some ?sts) ''/empty'' ex_profile = Inr x" by blast
  show ?thesis
    using failed_topic_abandons_listener [OF a _ t n x, of ex_rmw_lib 1 2 "\<lparr>lib = (), owned = {#}, next_csid = 0\<rparr>" False
        "\<lparr>ppant = 1, dds_pub = 2, dds_sub = 3, ppant_gid = replicate 16 0\<rparr>" True] by simp
qed

text \<open>
  C25. The two ends of a service meet: what a client writes its service reads and the other way round,
  under the same names of topics and types, and the identifiers they advertise tell apart every two
  counter values and every two participants.
\<close>

theorem client_service_ends_match:
  assumes "12 \<le> length g" "12 \<le> length h"
  shows "pubtopic_name (choose_names True name avoid rq rs) = subtopic_name (choose_names False name avoid rq rs)
    \<and> subtopic_name (choose_names True name avoid rq rs) = pubtopic_name (choose_names False name avoid rq rs)
    \<and> pub_type_name (choose_names True name avoid rq rs) = sub_type_name (choose_names False name avoid rq rs)
    \<and> sub_type_name (choose_names True name avoid rq rs) = pub_type_name (choose_names False name avoid rq rs)
    \<and> (csid_to_string (fst (get_unique_csid g v)) = csid_to_string (fst (get_unique_csid h w))
        \<longleftrightarrow> next_csid v = next_csid w \<and> take 12 g = take 12 h)
    \<and> next_csid (snd (get_unique_csid g v)) = next_csid v + 1"
proof -
  have l: "length (take 12 g) = length (take 12 h)" using assms by simp
  have "csid_to_string (fst (get_unique_csid g v)) = csid_to_string (fst (get_unique_csid h w))
      \<longleftrightarrow> fst (get_unique_csid g v) = fst (get_unique_csid h w)"
    by (rule csid_to_string_inj) (simp_all add: get_unique_csid_def Let_def)
  also have "\<dots> \<longleftrightarrow> take 12 g = take 12 h \<and> next_csid v + 1 = next_csid w + 1"
    using be_bytes_inj [of "next_csid v + 1" "next_csid w + 1"] append_eq_append_conv [OF disjI1 [OF l]]
    by (simp only: get_unique_csid_def Let_def fst_conv)
  finally show ?thesis
    by (auto simp: choose_names_def get_unique_csid_def Let_def)
qed

lemma client_service_ends_match_witness:
  "csid_to_string (fst (get_unique_csid (replicate 16 1) \<lparr>lib = (), owned = {#}, next_csid = 0\<rparr>))
    \<noteq> csid_to_string (fst (get_unique_csid (replicate 16 1) \<lparr>lib = (), owned = {#}, next_csid = 7\<rparr>))"
  using client_service_ends_match [of "replicate 16 1" "replicate 16 1" _ _ _ _ "\<lparr>lib = (), owned = {#}, next_csid = 0\<rparr>"
      "\<lparr>lib = (), owned = {#}, next_csid = 7\<rparr>"] by simp

end
