(* ===== verification/Contexts.thy ===== *)
theory Contexts
  imports EndpointProps Bytewise
begin

text \<open>
  Contexts, domains and nodes of \<^verbatim>\<open>rmw_node.cpp\<close>: \<open>rmw_context_impl_s\<close> with \<open>init\<close>, \<open>clean_up\<close> and \<open>fini\<close>, the
  reference counted domains of the process, the discovery thread, and the functions on contexts and
  nodes around them.  Entities below a participant go with it and are not counted separately.
\<close>

section \<open>Domains\<close>

datatype discovery_range =
    RANGE_NOT_SET | RANGE_OFF | RANGE_LOCALHOST | RANGE_SUBNET | RANGE_SYSTEM_DEFAULT

record discovery_options =
  automatic_discovery_range :: discovery_range
  static_peers :: "string list"

record CddsDomain =
  dom_options :: discovery_options
  refcount :: u32
  domain_handle :: dds_entity

definition default_domain :: CddsDomain where
  "default_domain = \<lparr>dom_options = \<lparr>automatic_discovery_range = RANGE_NOT_SET, static_peers = []\<rparr>, refcount = 0, domain_handle = 0\<rparr>"

record security_options =
  enforce_security :: bool
  security_root_path :: "string option"

text \<open>
  The interface of this part: what it calls beside the functions on endpoints.  \<open>security_support\<close> is the
  macro \<open>RMW_SUPPORT_SECURITY\<close>, \<open>string_map_init\<close> the success of \<open>rcutils_string_map_init\<close>, \<open>starts_thread\<close>
  and \<open>joins\<close> whether \<open>std::thread\<close> throws.
\<close>

record 'd ctx_api =
  endpoints :: "'d ep_api"
  rmw_discovery_options_equal :: "discovery_options \<Rightarrow> discovery_options \<Rightarrow> rmw_ret \<times> bool"
  show_pid :: string
  get_env_uri :: "'d \<Rightarrow> string option"
  dds_create_domain :: "u32 \<Rightarrow> string \<Rightarrow> 'd \<Rightarrow> int \<times> 'd"
  qos_allocates :: "'d \<Rightarrow> bool"
  security_support :: bool
  string_map_init :: "'d \<Rightarrow> bool"
  get_security_files :: "string \<Rightarrow> string \<Rightarrow> 'd \<Rightarrow> (string \<Rightarrow> string option) option"
  dds_create_participant :: "u32 \<Rightarrow> string \<Rightarrow> (string \<times> string) list \<Rightarrow> 'd \<Rightarrow> int \<times> 'd"
  dds_create_builtin_reader :: "dds_entity \<Rightarrow> string \<Rightarrow> 'd \<Rightarrow> int \<times> 'd"
  dds_create_publisher :: "dds_entity \<Rightarrow> 'd \<Rightarrow> int \<times> 'd"
  dds_create_subscriber :: "dds_entity \<Rightarrow> 'd \<Rightarrow> int \<times> 'd"
  dds_create_guardcondition :: "'d \<Rightarrow> int \<times> 'd"
  dds_set_guardcondition :: "dds_entity \<Rightarrow> 'd \<Rightarrow> 'd"
  starts_thread :: "'d \<Rightarrow> bool"
  joins :: "'d \<Rightarrow> bool"
  info_type_support :: "typesupport_identifier \<Rightarrow> message_ts option"
  rmw_qos_profile_default :: rmw_qos_profile
  graph_add_node :: "string \<Rightarrow> string \<Rightarrow> 'd \<Rightarrow> rmw_ret \<times> 'd"
  graph_remove_node :: "string \<Rightarrow> string \<Rightarrow> 'd \<Rightarrow> rmw_ret \<times> 'd"
  rmw_validate_node_name :: "string \<Rightarrow> rmw_ret \<times> bool"
  rmw_validate_namespace :: "string \<Rightarrow> rmw_ret \<times> bool"

record 'd process =
  wd :: "'d world"
  domains :: "u32 \<Rightarrow> CddsDomain option"

abbreviation UINT32_MAX_id :: u32 where
  "UINT32_MAX_id \<equiv> 4294967295"

text \<open>The three flags each range sets; \<open>None\<close> for the range that is not set.\<close>

fun discovery_flags :: "discovery_range \<Rightarrow> (bool \<times> bool \<times> bool) option" where
  "discovery_flags RANGE_NOT_SET = None"
| "discovery_flags RANGE_SUBNET = Some (False, True, False)"
| "discovery_flags RANGE_SYSTEM_DEFAULT = Some (False, False, False)"
| "discovery_flags RANGE_LOCALHOST = Some (True, True, True)"
| "discovery_flags RANGE_OFF = Some (False, False, True)"

definition quoted :: "string \<Rightarrow> string" where
  "quoted s = CHR 0x22 # s @ [CHR 0x22]"

definition domain_config :: "string \<Rightarrow> bool \<Rightarrow> bool \<Rightarrow> bool \<Rightarrow> string list \<Rightarrow> string" where
  "domain_config pid add_localhost_as_static_peer add_static_peers disable_multicast peers =
     (if add_localhost_as_static_peer \<or> add_static_peers \<or> disable_multicast then
        ''<CycloneDDS><Domain>''
        @ (if disable_multicast then ''<General><AllowMulticast>false</AllowMulticast></General>'' else [])
        @ (if disable_multicast \<and> \<not> add_localhost_as_static_peer \<and> \<not> add_static_peers
           then ''<Discovery><ParticipantIndex>none</ParticipantIndex>'' @ ''<Tag>ros_discovery_off_'' @ pid @ ''</Tag>''
           else ''<Discovery><ParticipantIndex>auto</ParticipantIndex>'' @ ''<MaxAutoParticipantIndex>32</MaxAutoParticipantIndex>'')
        @ (if (add_static_peers \<and> 0 < length peers) \<or> add_localhost_as_static_peer
           then ''<Peers>'' @ (if add_localhost_as_static_peer then ''<Peer address='' @ quoted ''localhost'' @ ''/>'' else [])
                @ concat (map (\<lambda>p. ''<Peer address='' @ quoted p @ ''/>'') peers) @ ''</Peers>''
           else [])
        @ ''</Discovery></Domain></CycloneDDS>,''
      else [])"

text \<open>The first use of a domain: the table has the entry before the discovery range is looked at.\<close>

definition create_domain :: "'d ctx_api \<Rightarrow> u32 \<Rightarrow> discovery_options \<Rightarrow> CddsDomain \<Rightarrow> 'd process \<Rightarrow> bool \<times> 'd process" where
  "create_domain A did options dm s =
     (let dm = dm\<lparr>refcount := 1, dom_options := options\<rparr>; s = s\<lparr>domains := (domains s)(did \<mapsto> dm)\<rparr> in
      case discovery_flags (automatic_discovery_range options) of
        None \<Rightarrow> (False, s)
      | Some (add_localhost_as_static_peer, add_static_peers, disable_multicast) \<Rightarrow>
        let config = domain_config (show_pid A) add_localhost_as_static_peer add_static_peers disable_multicast
              (static_peers options) in
        (case get_env_uri A (lib (wd s)) of
           None \<Rightarrow> (False, s\<lparr>domains := (domains s)(did := None)\<rparr>)
         | Some config_from_env \<Rightarrow>
           (case create_entity (dds_create_domain A did (config @ config_from_env)) Domain (wd s) of (h, w) \<Rightarrow>
              if h < 0 then (False, s\<lparr>wd := w, domains := (domains s)(did := None)\<rparr>)
              else (True, s\<lparr>wd := w, domains := (domains s)(did \<mapsto> dm\<lparr>domain_handle := h\<rparr>)\<rparr>))))"

definition check_create_domain :: "'d ctx_api \<Rightarrow> u32 \<Rightarrow> discovery_options \<Rightarrow> 'd process \<Rightarrow> bool \<times> 'd process" where
  "check_create_domain A did options s =
     (let dm = (case domains s did of None \<Rightarrow> default_domain | Some dm \<Rightarrow> dm) in
      if refcount dm \<noteq> 0 then
        (case rmw_discovery_options_equal A options (dom_options dm) of (rc, options_equal) \<Rightarrow>
           if rc \<noteq> RMW_RET_OK then (False, s)
           else if options_equal
           then (True, s\<lparr>domains := (domains s)(did \<mapsto> dm\<lparr>refcount := refcount dm + 1\<rparr>)\<rparr>)
           else (False, s))
      else create_domain A did options dm s)"

definition check_destroy_domain :: "'d ctx_api \<Rightarrow> u32 \<Rightarrow> 'd process \<Rightarrow> 'd process" where
  "check_destroy_domain A did s =
     (if did \<noteq> UINT32_MAX_id then
        let dm = (case domains s did of None \<Rightarrow> default_domain | Some dm \<Rightarrow> dm);
            dm = dm\<lparr>refcount := refcount dm - 1\<rparr> in
        if refcount dm = 0
        then s\<lparr>wd := snd (delete_entity (endpoints A) (domain_handle dm) (Domain (domain_handle dm)) (wd s)),
               domains := (domains s)(did := None)\<rparr>
        else s\<lparr>domains := (domains s)(did \<mapsto> dm)\<rparr>
      else s)"

section \<open>Guard conditions and the discovery thread\<close>

text \<open>The entity of the guard condition stands for the two objects that come and go with it.\<close>

definition new_guard_condition :: "'d ctx_api \<Rightarrow> 'd world \<Rightarrow> dds_entity option \<times> 'd world" where
  "new_guard_condition A w =
     (case create_entity (dds_create_guardcondition A) GuardCondition w of (g, w) \<Rightarrow>
        if g < 0 then (None, w) else (Some g, w))"

definition free_guard_condition :: "'d ctx_api \<Rightarrow> dds_entity option \<Rightarrow> 'd world \<Rightarrow> rmw_ret \<times> 'd world" where
  "free_guard_condition A gc w =
     (case gc of None \<Rightarrow> (RMW_RET_ERROR, w)
      | Some g \<Rightarrow> (RMW_RET_OK, snd (delete_entity (endpoints A) g (GuardCondition g) w)))"

definition rmw_trigger_guard_condition :: "'d ctx_api \<Rightarrow> dds_entity option \<Rightarrow> 'd world \<Rightarrow> rmw_ret \<times> 'd world" where
  "rmw_trigger_guard_condition A gc w =
     (case gc of None \<Rightarrow> (RMW_RET_ERROR, w) | Some g \<Rightarrow> (RMW_RET_OK, w\<lparr>lib := dds_set_guardcondition A g (lib w)\<rparr>))"

text \<open>\<open>rmw_context_impl_s\<close> with the members of \<open>common\<close> that the code manages.\<close>

record ctx_impl =
  domain_id :: u32
  participant :: dds_entity
  common_pub :: "pub_data option"
  common_sub :: "sub_data option"
  graph_guard_condition :: "dds_entity option"
  listener_thread_gc :: "dds_entity option"
  thread_is_running :: bool
  node_count :: nat
  is_shutdown :: bool

definition fresh_impl :: ctx_impl where
  "fresh_impl = \<lparr>domain_id = UINT32_MAX_id, participant = 0, common_pub = None, common_sub = None, graph_guard_condition = None,
     listener_thread_gc = None, thread_is_running = False, node_count = 0, is_shutdown = False\<rparr>"

definition discovery_thread_start :: "'d ctx_api \<Rightarrow> ctx_impl \<Rightarrow> 'd world \<Rightarrow> (rmw_ret \<times> ctx_impl) \<times> 'd world" where
  "discovery_thread_start A c w =
     (let c = c\<lparr>thread_is_running := True\<rparr> in
      case new_guard_condition A w of (gc, w) \<Rightarrow>
      let c = c\<lparr>listener_thread_gc := gc\<rparr> in
      if gc \<noteq> None \<and> starts_thread A (lib w) then ((RMW_RET_OK, c), own Thread w)
      else
        let c = c\<lparr>thread_is_running := False\<rparr>;
            w = (if gc \<noteq> None then snd (free_guard_condition A gc w) else w) in
        ((RMW_RET_ERROR, c), w))"

definition discovery_thread_stop :: "'d ctx_api \<Rightarrow> ctx_impl \<Rightarrow> 'd world \<Rightarrow> (rmw_ret \<times> ctx_impl) \<times> 'd world" where
  "discovery_thread_stop A c w =
     (if thread_is_running c then
        let c = c\<lparr>thread_is_running := False\<rparr> in
        case rmw_trigger_guard_condition A (listener_thread_gc c) w of (ret, w) \<Rightarrow>
        if ret \<noteq> RMW_RET_OK then ((ret, c), w)
        else if \<not> joins A (lib w) then ((RMW_RET_ERROR, c), w)
        else case free_guard_condition A (listener_thread_gc c) (disown Thread w) of (ret, w) \<Rightarrow>
          if ret \<noteq> RMW_RET_OK then ((ret, c), w) else ((RMW_RET_OK, c), w)
      else ((RMW_RET_OK, c), w))"

section \<open>Contexts\<close>

definition clean_up :: "'d ctx_api \<Rightarrow> ctx_impl \<Rightarrow> 'd process \<Rightarrow> ctx_impl \<times> 'd process" where
  "clean_up A c s =
     (case discovery_thread_stop A c (wd s) of ((_, c), w) \<Rightarrow>
      let w = (if graph_guard_condition c \<noteq> None then snd (free_guard_condition A (graph_guard_condition c) w) else w);
          c = c\<lparr>graph_guard_condition := None\<rparr>;
          w = (case common_pub c of None \<Rightarrow> w | Some pub \<Rightarrow> snd (destroy_publisher (endpoints A) pub w));
          c = c\<lparr>common_pub := None\<rparr>;
          w = (case common_sub c of None \<Rightarrow> w | Some sub \<Rightarrow> snd (destroy_subscription (endpoints A) sub w));
          c = c\<lparr>common_sub := None\<rparr>;
          w = (if 0 < participant c
               then snd (delete_entity (endpoints A) (participant c) (Participant (participant c)) w) else w);
          c = c\<lparr>participant := 0\<rparr> in
      (c, check_destroy_domain A (domain_id c) (s\<lparr>wd := w\<rparr>)))"

text \<open>The properties set for security, from the files found.\<close>

definition security_properties :: "(string \<Rightarrow> string option) \<Rightarrow> (string \<times> string) list" where
  "security_properties files =
     [(''dds.sec.auth.identity_ca'', the (files ''IDENTITY_CA'')),
      (''dds.sec.auth.identity_certificate'', the (files ''CERTIFICATE'')),
      (''dds.sec.auth.private_key'', the (files ''PRIVATE_KEY'')),
      (''dds.sec.access.permissions_ca'', the (files ''PERMISSIONS_CA'')),
      (''dds.sec.access.governance'', the (files ''GOVERNANCE'')),
      (''dds.sec.access.permissions'', the (files ''PERMISSIONS'')),
      (''dds.sec.auth.library.path'', ''dds_security_auth''),
      (''dds.sec.auth.library.init'', ''init_authentication''),
      (''dds.sec.auth.library.finalize'', ''finalize_authentication''),
      (''dds.sec.crypto.library.path'', ''dds_security_crypto''),
      (''dds.sec.crypto.library.init'', ''init_crypto''),
      (''dds.sec.crypto.library.finalize'', ''finalize_crypto''),
      (''dds.sec.access.library.path'', ''dds_security_ac''),
      (''dds.sec.access.library.init'', ''init_access_control''),
      (''dds.sec.access.library.finalize'', ''finalize_access_control'')]
     @ (case files ''CRL'' of None \<Rightarrow> [] | Some crl \<Rightarrow> [(''org.eclipse.cyclonedds.sec.auth.crl'', crl)])"

definition configure_qos_for_security :: "'d ctx_api \<Rightarrow> security_options \<Rightarrow> 'd \<Rightarrow> rmw_ret \<times> (string \<times> string) list" where
  "configure_qos_for_security A options d =
     (if security_support A then
        if \<not> string_map_init A d then (RMW_RET_ERROR, [])
        else case security_root_path options of
          None \<Rightarrow> (RMW_RET_UNSUPPORTED, [])
        | Some root \<Rightarrow>
          (case get_security_files A ''file:'' root d of
             None \<Rightarrow> (RMW_RET_UNSUPPORTED, [])
           | Some files \<Rightarrow> (RMW_RET_OK, security_properties files))
      else (RMW_RET_UNSUPPORTED, []))"

text \<open>Options and identifier of a context beside its implementation.\<close>

record init_options =
  discovery :: discovery_options
  security :: security_options
  enclave :: string

definition discovery_qos :: "'d ctx_api \<Rightarrow> rmw_qos_profile" where
  "discovery_qos A = (rmw_qos_profile_default A)\<lparr>avoid_ros_namespace_conventions := True, history := H_KEEP_LAST, depth := 1,
     durability := D_TRANSIENT_LOCAL, reliability := R_RELIABLE\<rparr>"

text \<open>
  The last part of \<open>init\<close>: publisher, subscription and guard condition of the graph, and the thread.  What
  it tells the graph cache is not modelled.
\<close>

definition init_common ::
  "'d ctx_api \<Rightarrow> rmw_lib \<Rightarrow> dds_entity \<Rightarrow> dds_entity \<Rightarrow> ctx_impl \<Rightarrow> 'd process \<Rightarrow> (rmw_ret \<times> ctx_impl) \<times> 'd process" where
  "init_common A L publisher subscriber c s =
     (let fail = (\<lambda>ret c w. case clean_up A c (s\<lparr>wd := w\<rparr>) of (c, s) \<Rightarrow> ((ret, c), s)) in
      case create_publisher (endpoints A) L (participant c) publisher (info_type_support A) ''ros_discovery_info'' (discovery_qos A) (wd s) of
        (pub, w) \<Rightarrow>
      let c = c\<lparr>common_pub := pub\<rparr> in
      if pub = None then fail RMW_RET_ERROR c w
      else case create_subscription (endpoints A) L (participant c) subscriber (info_type_support A) ''ros_discovery_info''
          ((discovery_qos A)\<lparr>history := H_KEEP_ALL\<rparr>) True w of
        (sub, w) \<Rightarrow>
      let c = c\<lparr>common_sub := sub\<rparr> in
      if sub = None then fail RMW_RET_ERROR c w
      else case new_guard_condition A w of
        (gc, w) \<Rightarrow>
      let c = c\<lparr>graph_guard_condition := gc\<rparr> in
      if gc = None then fail RMW_RET_BAD_ALLOC c w
      else case discovery_thread_start A c w of
        ((ret, c), w) \<Rightarrow>
      if ret \<noteq> RMW_RET_OK then fail ret c w
      else ((RMW_RET_OK, c\<lparr>node_count := node_count c + 1\<rparr>), s\<lparr>wd := w\<rparr>))"

text \<open>The entities below the participant, in the order they are made; negative if one fails.\<close>

definition create_builtin ::
  "'d ctx_api \<Rightarrow> dds_entity \<Rightarrow> 'd \<Rightarrow> (dds_entity \<times> dds_entity) option \<times> 'd" where
  "create_builtin A pp d =
     (case dds_create_builtin_reader A pp ''DCPSParticipant'' d of (rd_participant, d) \<Rightarrow>
      if rd_participant < 0 then (None, d)
      else case dds_create_builtin_reader A pp ''DCPSSubscription'' d of (rd_subscription, d) \<Rightarrow>
      if rd_subscription < 0 then (None, d)
      else case dds_create_builtin_reader A pp ''DCPSPublication'' d of (rd_publication, d) \<Rightarrow>
      if rd_publication < 0 then (None, d)
      else case dds_create_publisher A pp d of (publisher, d) \<Rightarrow>
      if publisher < 0 then (None, d)
      else case dds_create_subscriber A pp d of (subscriber, d) \<Rightarrow>
      if subscriber < 0 then (None, d) else (Some (publisher, subscriber), d))"

definition context_init ::
  "'d ctx_api \<Rightarrow> rmw_lib \<Rightarrow> ctx_impl \<Rightarrow> init_options \<Rightarrow> nat \<Rightarrow> 'd process \<Rightarrow> (rmw_ret \<times> ctx_impl) \<times> 'd process" where
  "context_init A L c options did s =
     (if node_count c \<noteq> 0 then ((RMW_RET_OK, c\<lparr>node_count := node_count c + 1\<rparr>), s)
      else
        let c = c\<lparr>domain_id := of_nat did\<rparr>;
            fail = (\<lambda>ret c s. case clean_up A c s of (c, s) \<Rightarrow> ((ret, c), s)) in
        case check_create_domain A (domain_id c) (discovery options) s of (ok, s) \<Rightarrow>
        if \<not> ok then ((RMW_RET_ERROR, c), s)
        else if \<not> qos_allocates A (lib (wd s)) then fail RMW_RET_BAD_ALLOC c s
        else case configure_qos_for_security A (security options) (lib (wd s)) of (sec_ret, props) \<Rightarrow>
        if sec_ret \<noteq> RMW_RET_OK \<and> enforce_security (security options) then fail RMW_RET_ERROR c s
        else case create_entity (dds_create_participant A (domain_id c) (''enclave='' @ enclave options @ '';'') props) Participant (wd s) of
          (pp, w) \<Rightarrow>
        let c = c\<lparr>participant := pp\<rparr>; s = s\<lparr>wd := w\<rparr> in
        if pp < 0 then fail RMW_RET_ERROR c s
        else case create_builtin A pp (lib (wd s)) of (r, d) \<Rightarrow>
        let s = s\<lparr>wd := (wd s)\<lparr>lib := d\<rparr>\<rparr> in
        (case r of None \<Rightarrow> fail RMW_RET_ERROR c s
         | Some (publisher, subscriber) \<Rightarrow> init_common A L publisher subscriber c s))"

definition context_fini :: "'d ctx_api \<Rightarrow> ctx_impl \<Rightarrow> 'd process \<Rightarrow> ctx_impl \<times> 'd process" where
  "context_fini A c s =
     (let c = c\<lparr>node_count := sz_sub (node_count c) 1\<rparr> in
      if node_count c \<noteq> 0 then (c, s) else clean_up A c s)"

text \<open>
  A context; \<open>None\<close> is the zero-initialised one.  \<open>rmw_init\<close> gets the default domain identifier, a constant of
  rmw, whether copying the options succeeds, and whether the implementation can be allocated.
\<close>

record rmw_context =
  options :: init_options
  actual_domain_id :: nat
  impl :: ctx_impl

definition rmw_init :: "nat \<Rightarrow> nat \<Rightarrow> init_options \<Rightarrow> bool \<Rightarrow> rmw_ret \<Rightarrow> rmw_context option \<Rightarrow> rmw_ret \<times> rmw_context option" where
  "rmw_init RMW_DEFAULT_DOMAIN_ID did opts allocated copied ctx =
     (if ctx \<noteq> None then (RMW_RET_INVALID_ARGUMENT, ctx)
      else if 4294967295 \<le> did \<and> did \<noteq> RMW_DEFAULT_DOMAIN_ID then (RMW_RET_INVALID_ARGUMENT, ctx)
      else if \<not> allocated then (RMW_RET_BAD_ALLOC, None)
      else if copied \<noteq> RMW_RET_OK then (copied, None)
      else (RMW_RET_OK, Some \<lparr>options = opts, actual_domain_id = (if did \<noteq> RMW_DEFAULT_DOMAIN_ID then did else 0), impl = fresh_impl\<rparr>))"

definition rmw_shutdown :: "rmw_context option \<Rightarrow> rmw_ret \<times> rmw_context option" where
  "rmw_shutdown ctx =
     (case ctx of None \<Rightarrow> (RMW_RET_INVALID_ARGUMENT, None)
      | Some x \<Rightarrow> (RMW_RET_OK, Some (x\<lparr>impl := (impl x)\<lparr>is_shutdown := True\<rparr>\<rparr>)))"

definition rmw_context_fini :: "rmw_ret \<Rightarrow> rmw_context option \<Rightarrow> rmw_ret \<times> rmw_context option" where
  "rmw_context_fini options_fini ctx =
     (case ctx of None \<Rightarrow> (RMW_RET_INVALID_ARGUMENT, None)
      | Some x \<Rightarrow> if \<not> is_shutdown (impl x) then (RMW_RET_INVALID_ARGUMENT, ctx) else (options_fini, None))"

section \<open>Nodes\<close>

definition rmw_create_node ::
  "'d ctx_api \<Rightarrow> rmw_lib \<Rightarrow> rmw_context \<Rightarrow> string \<Rightarrow> string \<Rightarrow> 'd process \<Rightarrow> (bool \<times> rmw_context) \<times> 'd process" where
  "rmw_create_node A L x name ns s =
     (if is_shutdown (impl x) then ((False, x), s)
      else if rmw_validate_node_name A name \<noteq> (RMW_RET_OK, True) then ((False, x), s)
      else if rmw_validate_namespace A ns \<noteq> (RMW_RET_OK, True) then ((False, x), s)
      else case context_init A L (impl x) (options x) (actual_domain_id x) s of ((ret, c), s) \<Rightarrow>
        let x = x\<lparr>impl := c\<rparr>;
            finalize_context = (\<lambda>w. case context_fini A c (s\<lparr>wd := w\<rparr>) of (c, s) \<Rightarrow> ((False, x\<lparr>impl := c\<rparr>), s)) in
        if ret \<noteq> RMW_RET_OK then ((False, x), s)
        else case allocate (endpoints A) NodeStruct (wd s) of (ok, w) \<Rightarrow>
        if \<not> ok then finalize_context w
        else case allocate (endpoints A) RmwHandle w of (ok, w) \<Rightarrow>
        if \<not> ok then finalize_context (disown NodeStruct w)
        else case allocate (endpoints A) NameString w of (ok, w) \<Rightarrow>
        if \<not> ok then finalize_context (disown NodeStruct (disown RmwHandle w))
        else case allocate (endpoints A) NameString w of (ok, w) \<Rightarrow>
        if \<not> ok then finalize_context (disown NodeStruct (disown RmwHandle (disown NameString w)))
        else case graph_add_node A name ns (lib w) of (ret, d) \<Rightarrow>
        let w = w\<lparr>lib := d\<rparr> in
        if ret \<noteq> RMW_RET_OK
        then finalize_context (disown NodeStruct (disown RmwHandle (disown NameString (disown NameString w))))
        else ((True, x), s\<lparr>wd := w\<rparr>))"

definition rmw_destroy_node ::
  "'d ctx_api \<Rightarrow> rmw_context \<Rightarrow> string \<Rightarrow> string \<Rightarrow> 'd process \<Rightarrow> (rmw_ret \<times> rmw_context) \<times> 'd process" where
  "rmw_destroy_node A x name ns s =
     (case graph_remove_node A name ns (lib (wd s)) of (ret, d) \<Rightarrow>
      let w = disown NodeStruct (disown RmwHandle (disown NameString (disown NameString ((wd s)\<lparr>lib := d\<rparr>)))) in
      case context_fini A (impl x) (s\<lparr>wd := w\<rparr>) of (c, s) \<Rightarrow> ((ret, x\<lparr>impl := c\<rparr>), s))"

end
