(* ===== verification/ContextProps.thy ===== *)
theory ContextProps
  imports Contexts
begin

text \<open>
  Contexts in use hold their domain: what each operation does to the table of domains, the steps of a
  process that creates and destroys contexts and nodes, and the invariant of the reference counts.
\<close>

section \<open>The effect on the domains\<close>

definition release :: "u32 \<Rightarrow> (u32 \<Rightarrow> CddsDomain option) \<Rightarrow> u32 \<Rightarrow> CddsDomain option" where
  "release did D =
     (if did = UINT32_MAX_id then D
      else let dm = (case D did of None \<Rightarrow> default_domain | Some dm \<Rightarrow> dm) in
        if refcount dm = 1 then D(did := None) else D(did \<mapsto> dm\<lparr>refcount := refcount dm - 1\<rparr>))"

definition acquired :: "u32 \<Rightarrow> (u32 \<Rightarrow> CddsDomain option) \<Rightarrow> (u32 \<Rightarrow> CddsDomain option) \<Rightarrow> bool" where
  "acquired did D D' \<longleftrightarrow> (case D did of
       None \<Rightarrow> \<exists>dm. D' = D(did \<mapsto> dm) \<and> refcount dm = 1 \<and> 0 \<le> domain_handle dm
     | Some dm \<Rightarrow> D' = D(did \<mapsto> dm\<lparr>refcount := refcount dm + 1\<rparr>))"

text \<open>No domain is in the table without being referred to.\<close>

definition counted :: "(u32 \<Rightarrow> CddsDomain option) \<Rightarrow> bool" where
  "counted D \<longleftrightarrow> (\<forall>did dm. D did = Some dm \<longrightarrow> refcount dm \<noteq> 0)"

lemma check_destroy_domain_domains: "domains (check_destroy_domain A did s) = release did (domains s)"
  by (simp add: check_destroy_domain_def release_def Let_def)

lemma domain_eqI: "dom_options a = dom_options b \<Longrightarrow> refcount a = refcount b \<Longrightarrow> domain_handle a = domain_handle b \<Longrightarrow> a = (b :: CddsDomain)"
  by simp

lemma release_acquired:
  assumes "acquired did D D'" "counted D" "did \<noteq> UINT32_MAX_id"
  shows "release did D' = D"
proof (cases "D did")
  case None
  then show ?thesis using assms by (auto simp: acquired_def release_def fun_eq_iff)
next
  case (Some dm)
  then have "refcount dm + 1 \<noteq> 1" using assms(2) by (auto simp: counted_def)
  then show ?thesis using Some assms by (auto simp: acquired_def release_def fun_eq_iff)
qed

lemma check_create_domain_cases:
  assumes "check_create_domain A did opts s = (ok, s')" "counted (domains s)"
    and "discovery_flags (automatic_discovery_range opts) \<noteq> None"
  shows "if ok then acquired did (domains s) (domains s') else domains s' = domains s"
proof (cases "domains s did")
  case None
  then have "(domains s)(did := None) = domains s" by auto
  then show ?thesis
    using assms None
    by (auto simp: check_create_domain_def create_domain_def Let_def default_domain_def acquired_def split: option.splits prod.splits if_splits)
next
  case (Some dm)
  then have "refcount dm \<noteq> 0" using assms(2) by (auto simp: counted_def)
  then show ?thesis
    using assms(1) Some
    by (auto simp: check_create_domain_def create_domain_def Let_def acquired_def split: prod.splits if_splits)
qed

text \<open>What clean-up and the thread leave of the implementation.\<close>

definition same_use :: "ctx_impl \<Rightarrow> ctx_impl \<Rightarrow> bool" where
  "same_use c c' \<longleftrightarrow> node_count c' = node_count c \<and> domain_id c' = domain_id c \<and> is_shutdown c' = is_shutdown c"

lemma same_use_refl [simp]: "same_use c c"
  by (simp add: same_use_def)

lemma discovery_thread_stop_use: "discovery_thread_stop A c w = ((ret, c'), w') \<Longrightarrow> same_use c c'"
  by (auto simp: discovery_thread_stop_def same_use_def Let_def split: if_splits prod.splits)

lemma discovery_thread_start_use: "discovery_thread_start A c w = ((ret, c'), w') \<Longrightarrow> same_use c c'"
  by (auto simp: discovery_thread_start_def same_use_def Let_def split: if_splits prod.splits)

lemma clean_up_use:
  assumes "clean_up A c s = (c', s')"
  shows "same_use c c' \<and> domains s' = release (domain_id c) (domains s)"
proof -
  obtain ret c1 w1 where t: "discovery_thread_stop A c (wd s) = ((ret, c1), w1)" by (metis prod.collapse)
  have "same_use c c1" by (rule discovery_thread_stop_use [OF t])
  then show ?thesis
    using assms by (auto simp: clean_up_def t Let_def same_use_def check_destroy_domain_domains)
qed

lemma init_common_use:
  assumes "init_common A L p q c s = ((ret, c'), s')"
  shows "if ret = RMW_RET_OK then node_count c' = node_count c + 1 \<and> domain_id c' = domain_id c
           \<and> is_shutdown c' = is_shutdown c \<and> domains s' = domains s
         else same_use c c' \<and> domains s' = release (domain_id c) (domains s)"
  using assms unfolding init_common_def Let_def
  by (auto split: prod.splits if_splits dest!: clean_up_use discovery_thread_start_use simp: same_use_def)

lemma of_nat_domain: "n < 4294967295 \<Longrightarrow> (of_nat n :: u32) \<noteq> UINT32_MAX_id"
proof
  assume "n < 4294967295" "(of_nat n :: u32) = UINT32_MAX_id"
  then have "unat (of_nat n :: u32) = 4294967295" by simp
  then show False using \<open>n < 4294967295\<close> by (simp add: unat_of_nat)
qed

lemma context_init_use:
  assumes "context_init A L c opts did s = ((ret, c'), s')" "counted (domains s)"
    and "discovery_flags (automatic_discovery_range (discovery opts)) \<noteq> None" "did < 4294967295"
  shows "is_shutdown c' = is_shutdown c \<and>
    (if node_count c \<noteq> 0 then ret = RMW_RET_OK \<and> domains s' = domains s \<and> node_count c' = node_count c + 1 \<and> domain_id c' = domain_id c
     else if ret = RMW_RET_OK then node_count c' = 1 \<and> domain_id c' = of_nat did \<and> acquired (of_nat did) (domains s) (domains s')
     else node_count c' = 0 \<and> domains s' = domains s)"
proof (cases "node_count c = 0")
  case False
  then show ?thesis using assms(1) by (auto simp: context_init_def)
next
  case True
  note m = of_nat_domain [OF assms(4)]
  obtain ok s1 where k: "check_create_domain A (of_nat did) (discovery opts) s = (ok, s1)" by fastforce
  note d = check_create_domain_cases [OF k assms(2,3)]
  show ?thesis
  proof (cases ok)
    case False
    then show ?thesis using assms(1) True d by (auto simp: context_init_def k Let_def)
  next
    case is_ok: True
    then have a: "acquired (of_nat did) (domains s) (domains s1)" using d by simp
    note undo = release_acquired [OF a assms(2) m]
    show ?thesis
      using assms(1) True is_ok a undo unfolding context_init_def Let_def
      by (auto simp: k same_use_def split: prod.splits if_splits option.splits dest!: clean_up_use init_common_use)
  qed
qed

lemma context_fini_use:
  assumes "context_fini A c s = (c', s')" "node_count c \<noteq> 0" "node_count c < SIZE_MOD"
  shows "node_count c' = node_count c - 1 \<and> domain_id c' = domain_id c \<and> is_shutdown c' = is_shutdown c
    \<and> domains s' = (if node_count c = 1 then release (domain_id c) (domains s) else domains s)"
proof -
  have "sz_sub (node_count c) 1 = node_count c - 1" using assms(2,3) by (simp add: sz_sub_small)
  then show ?thesis
    using assms(1,2) by (auto simp: context_fini_def Let_def same_use_def split: if_splits dest!: clean_up_use)
qed

text \<open>What a context holds of its domain, before and after.\<close>

definition gains_use :: "rmw_context \<Rightarrow> rmw_context \<Rightarrow> (u32 \<Rightarrow> CddsDomain option) \<Rightarrow> (u32 \<Rightarrow> CddsDomain option) \<Rightarrow> bool" where
  "gains_use x x' D D' \<longleftrightarrow> node_count (impl x') = node_count (impl x) + 1
     \<and> (if node_count (impl x) \<noteq> 0 then D' = D \<and> domain_id (impl x') = domain_id (impl x)
        else domain_id (impl x') = of_nat (actual_domain_id x) \<and> acquired (of_nat (actual_domain_id x)) D D')"

definition same_context :: "rmw_context \<Rightarrow> rmw_context \<Rightarrow> bool" where
  "same_context x x' \<longleftrightarrow> options x' = options x \<and> actual_domain_id x' = actual_domain_id x \<and> is_shutdown (impl x') = is_shutdown (impl x)"

definition usable :: "rmw_context \<Rightarrow> bool" where
  "usable x \<longleftrightarrow> discovery_flags (automatic_discovery_range (discovery (options x))) \<noteq> None
     \<and> actual_domain_id x < 4294967295 \<and> node_count (impl x) + 1 < SIZE_MOD
     \<and> (node_count (impl x) \<noteq> 0 \<longrightarrow> domain_id (impl x) = of_nat (actual_domain_id x))"

lemma rmw_create_node_use:
  assumes "rmw_create_node A L x name ns s = ((ok, x'), s')" "counted (domains s)" "usable x"
  shows "same_context x x' \<and>
    (if ok then gains_use x x' (domains s) (domains s')
     else node_count (impl x') = node_count (impl x) \<and> domains s' = domains s
       \<and> (node_count (impl x) \<noteq> 0 \<longrightarrow> domain_id (impl x') = domain_id (impl x)))"
proof -
  have u: "discovery_flags (automatic_discovery_range (discovery (options x))) \<noteq> None" "actual_domain_id x < 4294967295"
    "node_count (impl x) + 1 < SIZE_MOD" using assms(3) by (simp_all add: usable_def)
  obtain ret c s1 where i: "context_init A L (impl x) (options x) (actual_domain_id x) s = ((ret, c), s1)" by (metis prod.collapse)
  note init = context_init_use [OF i assms(2) u(1,2)]
  define P where "P r \<longleftrightarrow> (case r of ((ok, x'), s') \<Rightarrow> same_context x x' \<and>
    (if ok then gains_use x x' (domains s) (domains s')
     else node_count (impl x') = node_count (impl x) \<and> domains s' = domains s
       \<and> (node_count (impl x) \<noteq> 0 \<longrightarrow> domain_id (impl x') = domain_id (impl x))))" for r :: "(bool \<times> rmw_context) \<times> 'a process"
  have fini: "P ((False, x\<lparr>impl := c'\<rparr>), t')"
    if "ret = RMW_RET_OK" "context_fini A c (s1\<lparr>wd := w\<rparr>) = (c', t')" for w c' t'
    using context_fini_use [OF that(2)] init that(1) u(3)
      release_acquired [OF _ assms(2) of_nat_domain [OF u(2)], of "domains s1"]
    by (auto simp: P_def same_context_def split: if_splits)
  have refused: "P ((False, x), s)" by (simp add: P_def same_context_def)
  have failed: "P ((False, x\<lparr>impl := c\<rparr>), s1)" if "ret \<noteq> RMW_RET_OK"
    using init that by (simp add: P_def same_context_def split: if_splits)
  have made: "P ((True, x\<lparr>impl := c\<rparr>), s1\<lparr>wd := w\<rparr>)" if "ret = RMW_RET_OK" for w
    using init that by (simp add: P_def same_context_def gains_use_def split: if_splits)
  have "P (rmw_create_node A L x name ns s)"
    unfolding rmw_create_node_def i prod.case Let_def
    by (simp only: split: if_split prod.split) (auto intro: fini refused failed made)
  then show ?thesis using assms(1) by (simp add: P_def)
qed

lemma rmw_destroy_node_use:
  assumes "rmw_destroy_node A x name ns s = ((ret, x'), s')" "node_count (impl x) \<noteq> 0" "usable x"
  shows "same_context x x' \<and> node_count (impl x') = node_count (impl x) - 1 \<and> domain_id (impl x') = domain_id (impl x)
    \<and> domains s' = (if node_count (impl x) = 1 then release (domain_id (impl x)) (domains s) else domains s)"
  using assms unfolding rmw_destroy_node_def Let_def
  by (auto simp: same_context_def usable_def split: prod.splits dest!: context_fini_use)

section \<open>A process\<close>

text \<open>
  The contexts of a process by address, and its steps.  The callers keep to the rules of rmw: a context is
  finalised when all its nodes are destroyed, discovery options have a range, and there are fewer
  than \<open>2 ^ 32\<close> contexts.  Whatever else the process does may change the rest of the state.
\<close>

type_synonym 'd config = "(nat \<Rightarrow> rmw_context option) \<times> 'd process"

inductive ctx_step :: "'d ctx_api \<Rightarrow> rmw_lib \<Rightarrow> nat \<Rightarrow> 'd config \<Rightarrow> 'd config \<Rightarrow> bool" for A L default_id where
  init: "ctxs i = None \<Longrightarrow> rmw_init default_id did opts allocated copied None = (RMW_RET_OK, Some x) \<Longrightarrow>
    discovery_flags (automatic_discovery_range (discovery opts)) \<noteq> None \<Longrightarrow> card (dom ctxs) + 1 < 4294967296 \<Longrightarrow>
    ctx_step A L default_id (ctxs, s) (ctxs(i \<mapsto> x), s)"
| shutdown: "ctxs i = Some x \<Longrightarrow> rmw_shutdown (Some x) = (ret, Some x') \<Longrightarrow> ctx_step A L default_id (ctxs, s) (ctxs(i \<mapsto> x'), s)"
| fini: "ctxs i = Some x \<Longrightarrow> node_count (impl x) = 0 \<Longrightarrow> rmw_context_fini options_fini (Some x) = (ret, None) \<Longrightarrow>
    ctx_step A L default_id (ctxs, s) (ctxs(i := None), s)"
| create_node: "ctxs i = Some x \<Longrightarrow> node_count (impl x) + 1 < SIZE_MOD - 1 \<Longrightarrow> rmw_create_node A L x name ns s = ((ok, x'), s') \<Longrightarrow>
    ctx_step A L default_id (ctxs, s) (ctxs(i \<mapsto> x'), s')"
| destroy_node: "ctxs i = Some x \<Longrightarrow> node_count (impl x) \<noteq> 0 \<Longrightarrow> rmw_destroy_node A x name ns s = ((ret, x'), s') \<Longrightarrow>
    ctx_step A L default_id (ctxs, s) (ctxs(i \<mapsto> x'), s')"
| environment: "ctx_step A L default_id (ctxs, s) (ctxs, s\<lparr>wd := w\<rparr>)"

inductive ctx_reachable :: "'d ctx_api \<Rightarrow> rmw_lib \<Rightarrow> nat \<Rightarrow> 'd config \<Rightarrow> bool" for A L default_id where
  start: "ctx_reachable A L default_id (Map.empty, \<lparr>wd = w, domains = Map.empty\<rparr>)"
| continue: "ctx_reachable A L default_id C \<Longrightarrow> ctx_step A L default_id C C' \<Longrightarrow> ctx_reachable A L default_id C'"

definition users :: "(nat \<Rightarrow> rmw_context option) \<Rightarrow> u32 \<Rightarrow> nat set" where
  "users ctxs did = {i. \<exists>x. ctxs i = Some x \<and> node_count (impl x) \<noteq> 0 \<and> domain_id (impl x) = did}"

definition use_inv :: "'d config \<Rightarrow> bool" where
  "use_inv C \<longleftrightarrow> (case C of (ctxs, s) \<Rightarrow> finite (dom ctxs) \<and> card (dom ctxs) < 4294967296 \<and> (\<forall>x \<in> ran ctxs. usable x) \<and>
     (\<forall>did. case domains s did of
        None \<Rightarrow> users ctxs did = {}
      | Some dm \<Rightarrow> users ctxs did \<noteq> {} \<and> refcount dm = of_nat (card (users ctxs did)) \<and> 0 \<le> domain_handle dm))"

inductive_simps ctx_step_simps: "ctx_step A L default_id (ctxs, s) C'"

definition holds :: "rmw_context \<Rightarrow> u32 option" where
  "holds x = (if node_count (impl x) \<noteq> 0 then Some (domain_id (impl x)) else None)"

lemma users_holds: "users ctxs did = {i. \<exists>x. ctxs i = Some x \<and> holds x = Some did}"
  by (auto simp: users_def holds_def)

lemma users_update:
  "users (ctxs(i \<mapsto> x)) did = (if holds x = Some did then insert i (users ctxs did) else users ctxs did - {i})"
  "users (ctxs(i := None)) did = users ctxs did - {i}"
  by (auto simp: users_holds)

lemma users_dom: "users ctxs did \<subseteq> dom ctxs"
  by (auto simp: users_holds)

definition domain_ok :: "(nat \<Rightarrow> rmw_context option) \<Rightarrow> u32 \<Rightarrow> CddsDomain option \<Rightarrow> bool" where
  "domain_ok ctxs did entry \<longleftrightarrow> (case entry of
        None \<Rightarrow> users ctxs did = {}
      | Some dm \<Rightarrow> users ctxs did \<noteq> {} \<and> refcount dm = of_nat (card (users ctxs did)) \<and> 0 \<le> domain_handle dm)"

lemma domain_ok_cong: "users ctxs' did = users ctxs did \<Longrightarrow> domain_ok ctxs' did entry = domain_ok ctxs did entry"
  by (cases entry) (simp_all add: domain_ok_def)

lemma inv_domain_ok:
  "use_inv (ctxs, s) \<longleftrightarrow> finite (dom ctxs) \<and> card (dom ctxs) < 4294967296 \<and> (\<forall>x \<in> ran ctxs. usable x)
     \<and> (\<forall>did. domain_ok ctxs did (domains s did))"
  by (simp add: use_inv_def domain_ok_def)

lemma of_nat_u32_inj: "a < 4294967296 \<Longrightarrow> b < 4294967296 \<Longrightarrow> (of_nat a :: u32) = of_nat b \<longleftrightarrow> a = b"
  by (auto simp: unat_of_nat dest!: arg_cong [where f = "unat :: u32 \<Rightarrow> nat"])

lemma inv_users:
  assumes "use_inv (ctxs, s)"
  shows "finite (users ctxs did)" "card (users ctxs did) < 4294967296"
proof -
  have f: "finite (dom ctxs)" "card (dom ctxs) < 4294967296" using assms by (simp_all add: inv_domain_ok)
  then show "finite (users ctxs did)" "card (users ctxs did) < 4294967296"
    using users_dom [of ctxs did] card_mono [OF f(1) users_dom [of ctxs did]] by (auto intro: finite_subset)
qed

lemma inv_counted:
  assumes "use_inv (ctxs, s)"
  shows "counted (domains s)"
  unfolding counted_def
proof (intro allI impI notI)
  fix did dm
  assume "domains s did = Some dm" "refcount dm = 0"
  moreover have "domain_ok ctxs did (domains s did)" using assms by (simp add: inv_domain_ok)
  ultimately have "users ctxs did \<noteq> {}" "(of_nat (card (users ctxs did)) :: u32) = of_nat 0"
    by (simp_all add: domain_ok_def)
  then show False
    using inv_users [OF assms, of did] of_nat_u32_inj [of "card (users ctxs did)" 0] by simp
qed

lemma ran_update: "usable x \<Longrightarrow> \<forall>y \<in> ran ctxs. usable y \<Longrightarrow> y \<in> ran (ctxs(i \<mapsto> x)) \<Longrightarrow> usable y"
  by (auto simp: ran_def split: if_splits)

text \<open>The four ways a context changes what it holds.\<close>

lemma inv_same:
  assumes "use_inv (ctxs, s)" "ctxs i = Some x" "usable x'" "holds x' = holds x" "domains s' = domains s"
  shows "use_inv (ctxs(i \<mapsto> x'), s')"
proof -
  have "i \<in> users ctxs did \<longleftrightarrow> holds x = Some did" for did using assms(2) by (simp add: users_holds)
  then have u: "users (ctxs(i \<mapsto> x')) did = users ctxs did" for did
    using assms(4) by (auto simp: users_update)
  have "dom (ctxs(i \<mapsto> x')) = dom ctxs" using assms(2) by auto
  then show ?thesis
    using assms(1,5) ran_update [OF assms(3), of ctxs] by (simp add: inv_domain_ok domain_ok_cong [OF u])
qed

lemma inv_none:
  assumes "use_inv (ctxs, s)" "ctxs i = None \<or> (\<exists>x. ctxs i = Some x \<and> holds x = None)"
  shows "use_inv (ctxs(i := None), s)"
    and "usable x' \<Longrightarrow> holds x' = None \<Longrightarrow> card (dom ctxs) + 1 < 4294967296 \<Longrightarrow> use_inv (ctxs(i \<mapsto> x'), s)"
proof -
  have i: "i \<notin> users ctxs did" for did using assms(2) by (auto simp: users_holds)
  have f: "finite (dom ctxs)" using assms(1) by (simp add: inv_domain_ok)
  have c: "card (dom ctxs - {i}) \<le> card (dom ctxs)" using f by (simp add: card_Diff1_le)
  have r: "ran (ctxs(i := None)) \<subseteq> ran ctxs" by (auto simp: ran_def split: if_splits)
  have u: "users (ctxs(i := None)) did = users ctxs did" for did using i by (simp add: users_update)
  show "use_inv (ctxs(i := None), s)"
    using assms(1) c subsetD [OF r] by (simp add: inv_domain_ok domain_ok_cong [OF u])
  assume new: "usable x'" "holds x' = None" "card (dom ctxs) + 1 < 4294967296"
  have "card (insert i (dom ctxs)) \<le> card (dom ctxs) + 1" using f by (simp add: card_insert_if)
  moreover have u: "users (ctxs(i \<mapsto> x')) did = users ctxs did" for did using i new(2) by (simp add: users_update)
  ultimately show "use_inv (ctxs(i \<mapsto> x'), s)"
    using assms(1) new(3) ran_update [OF new(1), of ctxs] by (simp add: inv_domain_ok domain_ok_cong [OF u])
qed

lemma inv_gain:
  assumes "use_inv (ctxs, s)" "ctxs i = Some x" "holds x = None" "usable x'" "holds x' = Some did"
    and "acquired did (domains s) (domains s')"
  shows "use_inv (ctxs(i \<mapsto> x'), s')"
proof -
  have m: "i \<in> users ctxs e \<longleftrightarrow> holds x = Some e" for e using assms(2) by (simp add: users_holds)
  have u: "users (ctxs(i \<mapsto> x')) e = (if e = did then insert i (users ctxs did) else users ctxs e)" for e
    using m [of e] assms(3,5) by (auto simp: users_update)
  have i: "i \<notin> users ctxs did" using m [of did] assms(3) by simp
  note f = inv_users [OF assms(1), of did]
  have ok: "domain_ok ctxs e (domains s e)" for e using assms(1) by (simp add: inv_domain_ok)
  have "domain_ok (ctxs(i \<mapsto> x')) e (domains s' e)" for e
  proof (cases "e = did")
    case True
    then show ?thesis
      using assms(6) ok [of did] f(1) i
      by (cases "domains s did") (auto simp: domain_ok_def acquired_def u)
  next
    case False
    then have "domains s' e = domains s e" using assms(6) by (auto simp: acquired_def split: option.splits)
    then show ?thesis using ok [of e] domain_ok_cong [of "ctxs(i \<mapsto> x')" e ctxs] u [of e] False by simp
  qed
  moreover have "dom (ctxs(i \<mapsto> x')) = dom ctxs" using assms(2) by auto
  ultimately show ?thesis
    using assms(1) ran_update [OF assms(4), of ctxs] by (simp add: inv_domain_ok)
qed

lemma inv_loss:
  assumes "use_inv (ctxs, s)" "ctxs i = Some x" "holds x = Some did" "usable x'" "holds x' = None"
    and "domains s' = release did (domains s)" "did \<noteq> UINT32_MAX_id"
  shows "use_inv (ctxs(i \<mapsto> x'), s')"
proof -
  have m: "i \<in> users ctxs e \<longleftrightarrow> holds x = Some e" for e using assms(2) by (simp add: users_holds)
  have u: "users (ctxs(i \<mapsto> x')) e = (if e = did then users ctxs did - {i} else users ctxs e)" for e
    using m [of e] assms(3,5) by (auto simp: users_update)
  have i: "i \<in> users ctxs did" using m [of did] assms(3) by simp
  note f = inv_users [OF assms(1), of did]
  have ok: "domain_ok ctxs e (domains s e)" for e using assms(1) by (simp add: inv_domain_ok)
  obtain dm where dm: "domains s did = Some dm" "refcount dm = of_nat (card (users ctxs did))" "0 \<le> domain_handle dm"
    using ok [of did] i by (auto simp: domain_ok_def split: option.splits)
  have c: "0 < card (users ctxs did)" using f(1) i by (auto simp: card_gt_0_iff)
  have one: "refcount dm = 1 \<longleftrightarrow> card (users ctxs did) = 1"
    using of_nat_u32_inj [OF f(2), of 1] by (simp add: dm(2))
  have "domain_ok (ctxs(i \<mapsto> x')) e (domains s' e)" for e
  proof (cases "e = did")
    case True
    show ?thesis
    proof (cases "card (users ctxs did) = 1")
      case one': True
      then have "users ctxs did = {i}" using i by (auto simp: card_1_singleton_iff)
      then show ?thesis
        using True assms(6,7) dm(1) one one' by (simp add: domain_ok_def u release_def)
    next
      case False
      have "(of_nat (card (users ctxs did)) :: u32) - 1 = of_nat (card (users ctxs did - {i}))"
        using c i f(1) by (simp add: card_Diff_singleton of_nat_diff)
      moreover have "users ctxs did - {i} \<noteq> {}" using False i by (auto simp: card_1_singleton_iff)
      ultimately show ?thesis
        using True assms(6,7) dm one False by (simp add: domain_ok_def u release_def)
    qed
  next
    case False
    then have "domains s' e = domains s e" using assms(6) by (simp add: release_def Let_def)
    then show ?thesis using ok [of e] domain_ok_cong [of "ctxs(i \<mapsto> x')" e ctxs] u [of e] False by simp
  qed
  moreover have "dom (ctxs(i \<mapsto> x')) = dom ctxs" using assms(2) by auto
  ultimately show ?thesis
    using assms(1) ran_update [OF assms(4), of ctxs] by (simp add: inv_domain_ok)
qed

text \<open>Every step keeps the invariant.\<close>

lemma holds_simps:
  "node_count (impl x) = 0 \<Longrightarrow> holds x = None"
  "node_count (impl x) \<noteq> 0 \<Longrightarrow> holds x = Some (domain_id (impl x))"
  by (simp_all add: holds_def)

lemma inv_usable: "use_inv (ctxs, s) \<Longrightarrow> ctxs i = Some x \<Longrightarrow> usable x"
  by (auto simp: inv_domain_ok ran_def)

lemma inv_lookup: "use_inv (ctxs, s) \<Longrightarrow> domain_ok ctxs did (domains s did)"
  by (simp add: inv_domain_ok)

lemma inv_start: "use_inv (Map.empty, \<lparr>wd = w, domains = Map.empty\<rparr>)"
  by (simp add: inv_domain_ok domain_ok_def users_def)

lemma inv_init:
  assumes "use_inv (ctxs, s)" "ctxs i = None" "rmw_init default_id did opts allocated copied None = (RMW_RET_OK, Some x)"
    and "discovery_flags (automatic_discovery_range (discovery opts)) \<noteq> None" "card (dom ctxs) + 1 < 4294967296"
  shows "use_inv (ctxs(i \<mapsto> x), s)"
proof (rule inv_none(2) [OF assms(1)])
  have "x = \<lparr>options = opts, actual_domain_id = (if did \<noteq> default_id then did else 0), impl = fresh_impl\<rparr>"
    "\<not> (4294967295 \<le> did \<and> did \<noteq> default_id)"
    using assms(3) by (auto simp: rmw_init_def split: if_splits)
  then show "usable x" "holds x = None" using assms(4) by (auto simp: usable_def holds_def fresh_impl_def)
qed (use assms in simp_all)

lemma inv_shutdown:
  assumes "use_inv (ctxs, s)" "ctxs i = Some x" "rmw_shutdown (Some x) = (ret, Some x')"
  shows "use_inv (ctxs(i \<mapsto> x'), s)"
proof -
  have "x' = x\<lparr>impl := (impl x)\<lparr>is_shutdown := True\<rparr>\<rparr>" using assms(3) by (simp add: rmw_shutdown_def)
  then have "usable x'" "holds x' = holds x" using inv_usable [OF assms(1,2)] by (simp_all add: usable_def holds_def)
  then show ?thesis by (rule inv_same [OF assms(1,2)]) simp
qed

lemma inv_create_node:
  assumes "use_inv (ctxs, s)" "ctxs i = Some x" "rmw_create_node A L x name ns s = ((ok, x'), s')"
    and "node_count (impl x) + 1 < SIZE_MOD - 1"
  shows "use_inv (ctxs(i \<mapsto> x'), s')"
proof -
  note u = inv_usable [OF assms(1,2)]
  note e = rmw_create_node_use [OF assms(3) inv_counted [OF assms(1)] u]
  have u': "usable x'"
    using e u assms(4) by (cases ok; cases "node_count (impl x) = 0") (simp_all add: usable_def same_context_def gains_use_def)
  show ?thesis
  proof (cases "ok \<and> node_count (impl x) = 0")
    case True
    then have g: "node_count (impl x') \<noteq> 0" "acquired (domain_id (impl x')) (domains s) (domains s')" "node_count (impl x) = 0"
      using e by (simp_all add: gains_use_def)
    show ?thesis
      by (rule inv_gain [OF assms(1,2) holds_simps(1) [OF g(3)] u' holds_simps(2) [OF g(1)] g(2)])
  next
    case False
    then have "holds x' = holds x" "domains s' = domains s"
      using e by (cases ok; simp add: holds_def gains_use_def)+
    then show ?thesis by (rule inv_same [OF assms(1,2) u'])
  qed
qed

lemma inv_destroy_node:
  assumes "use_inv (ctxs, s)" "ctxs i = Some x" "rmw_destroy_node A x name ns s = ((ret, x'), s')" "node_count (impl x) \<noteq> 0"
  shows "use_inv (ctxs(i \<mapsto> x'), s')"
proof -
  note u = inv_usable [OF assms(1,2)]
  note e = rmw_destroy_node_use [OF assms(3,4) u]
  have u': "usable x'" using e u assms(4) by (simp add: usable_def same_context_def)
  show ?thesis
  proof (cases "node_count (impl x) = 1")
    case True
    then have "holds x' = None" using e by (simp add: holds_def)
    moreover have "domains s' = release (domain_id (impl x)) (domains s)" using e True by simp
    moreover have "domain_id (impl x) \<noteq> UINT32_MAX_id"
      using u assms(4) of_nat_domain by (simp add: usable_def)
    ultimately show ?thesis by (rule inv_loss [OF assms(1,2) holds_simps(2) [OF assms(4)] u'])
  next
    case False
    then have "holds x' = holds x" "domains s' = domains s" using e assms(4) by (simp_all add: holds_def)
    then show ?thesis by (rule inv_same [OF assms(1,2) u'])
  qed
qed

lemma ctx_step_inv: "ctx_step A L default_id C C' \<Longrightarrow> use_inv C \<Longrightarrow> use_inv C'"
proof (induction rule: ctx_step.induct)
  case init
  then show ?case by (intro inv_init)
next
  case shutdown
  then show ?case by (intro inv_shutdown)
next
  case (fini ctxs i x options_fini ret s)
  then show ?case using inv_none(1) [of ctxs s i] holds_simps(1) [of x] by simp
next
  case create_node
  then show ?case by (intro inv_create_node)
next
  case destroy_node
  then show ?case by (intro inv_destroy_node)
next
  case environment
  then show ?case by (simp add: inv_domain_ok)
qed

lemma ctx_reachable_inv:
  assumes "ctx_reachable A L default_id C"
  shows "use_inv C"
  using assms
proof induction
  case (start w)
  then show ?case by (rule inv_start)
next
  case (continue C C')
  then show ?case by (blast intro: ctx_step_inv)
qed

end
