(* ===== verification/ContextLedger.thy ===== *)
theory ContextLedger
  imports ContextProps
begin

text \<open>What a context owns, and that cleaning up releases it.\<close>

definition pub_held :: "pub_data option \<Rightarrow> resource multiset" where
  "pub_held p = (case p of None \<Rightarrow> {#} | Some pub \<Rightarrow> {#Writer (enth pub), PublisherStruct, NameString, RmwHandle#})"

definition sub_held :: "sub_data option \<Rightarrow> resource multiset" where
  "sub_held p = (case p of None \<Rightarrow> {#} | Some sub \<Rightarrow>
     {#ReadCondition (rdcondh sub), Reader (sub_enth sub), SubscriptionStruct, NameString, RmwHandle#})"

definition gc_held :: "dds_entity option \<Rightarrow> resource multiset" where
  "gc_held g = (case g of None \<Rightarrow> {#} | Some g \<Rightarrow> {#GuardCondition g#})"

definition thread_held :: "ctx_impl \<Rightarrow> resource multiset" where
  "thread_held c = (if thread_is_running c then add_mset Thread (gc_held (listener_thread_gc c)) else {#})"

definition held :: "ctx_impl \<Rightarrow> resource multiset" where
  "held c = thread_held c + gc_held (graph_guard_condition c) + pub_held (common_pub c) + sub_held (common_sub c)
     + (if 0 < participant c then {#Participant (participant c)#} else {#})"

text \<open>The last reference to a domain holds its entity.\<close>

definition domain_held :: "u32 \<Rightarrow> (u32 \<Rightarrow> CddsDomain option) \<Rightarrow> resource multiset" where
  "domain_held did D = (case D did of None \<Rightarrow> {#}
     | Some dm \<Rightarrow> if did \<noteq> UINT32_MAX_id \<and> refcount dm = 1 then {#Domain (domain_handle dm)#} else {#})"

definition idle :: "ctx_impl \<Rightarrow> bool" where
  "idle c \<longleftrightarrow> common_pub c = None \<and> common_sub c = None \<and> graph_guard_condition c = None \<and> \<not> thread_is_running c \<and> participant c = 0"

lemma nothing_held [simp]: "gc_held None = {#}" "pub_held None = {#}" "sub_held None = {#}"
  by (simp_all add: gc_held_def pub_held_def sub_held_def)

lemma idle_held: "idle c \<Longrightarrow> held c = {#}"
  by (simp add: idle_def held_def thread_held_def)

lemma free_guard_condition_owned [simp]:
  "owned (snd (free_guard_condition A gc w)) = owned w - gc_held gc"
  by (simp add: free_guard_condition_def gc_held_def split: option.splits)

lemma trigger_owned [simp]: "owned (snd (rmw_trigger_guard_condition A gc w)) = owned w"
  by (simp add: rmw_trigger_guard_condition_def split: option.splits)

lemma discovery_thread_stop_owned:
  assumes "discovery_thread_stop A c w = ((ret, c'), w')" "\<And>d. joins A d" "thread_is_running c \<Longrightarrow> listener_thread_gc c \<noteq> None"
  shows "owned w' = owned w - thread_held c \<and> c' = c\<lparr>thread_is_running := False\<rparr>"
proof (cases "thread_is_running c")
  case False
  then show ?thesis using assms(1) by (simp add: discovery_thread_stop_def thread_held_def)
next
  case True
  then obtain g where "listener_thread_gc c = Some g" using assms(3) by blast
  then show ?thesis
    using assms(1,2) True
    by (auto simp: discovery_thread_stop_def thread_held_def gc_held_def rmw_trigger_guard_condition_def free_guard_condition_def Let_def
        delete_entity_def add_mset_commute split: prod.splits)
qed

lemma check_destroy_domain_owned:
  assumes "domains s did \<noteq> None \<or> did = UINT32_MAX_id"
  shows "owned (wd (check_destroy_domain A did s)) = owned (wd s) - domain_held did (domains s)"
  using assms by (auto simp: check_destroy_domain_def domain_held_def Let_def split: option.splits)

lemma held_released:
  "owned (case p of None \<Rightarrow> w | Some pub \<Rightarrow> snd (destroy_publisher E pub w)) = owned w - pub_held p"
  "owned (case q of None \<Rightarrow> w | Some sub \<Rightarrow> snd (destroy_subscription E sub w)) = owned w - sub_held q"
  "owned (if gc \<noteq> None then snd (free_guard_condition A gc w) else w) = owned w - gc_held gc"
  "owned (if 0 < h then snd (delete_entity E h (Participant h) w) else w) = owned w - (if 0 < h then {#Participant h#} else {#})"
  by (simp_all add: pub_held_def sub_held_def gc_held_def add_mset_commute split: option.split)

lemma clean_up_owned:
  assumes "clean_up A c s = (c', s')" "\<And>d. joins A d" "thread_is_running c \<Longrightarrow> listener_thread_gc c \<noteq> None"
    and "domains s (domain_id c) \<noteq> None"
  shows "owned (wd s') = owned (wd s) - (held c + domain_held (domain_id c) (domains s)) \<and> idle c'"
proof -
  obtain ret c1 w1 where t: "discovery_thread_stop A c (wd s) = ((ret, c1), w1)" by (metis prod.collapse)
  note o = discovery_thread_stop_owned [OF t assms(2,3)]
  have "owned (wd s') = owned w1 - gc_held (graph_guard_condition c) - pub_held (common_pub c) - sub_held (common_sub c)
      - (if 0 < participant c then {#Participant (participant c)#} else {#}) - domain_held (domain_id c) (domains s)"
    using assms(1,4) o
    by (simp only: clean_up_def t Let_def prod.case prod.inject ctx_impl.simps)
       (erule conjE, hypsubst_thin, simp add: check_destroy_domain_owned held_released add.assoc)
  moreover have "idle c'" using assms(1) o by (auto simp: clean_up_def t Let_def idle_def)
  ultimately show ?thesis using o by (simp add: held_def add.assoc)
qed


lemma check_create_domain_owned:
  assumes "check_create_domain A did opts s = (True, s')" "counted (domains s)" "did \<noteq> UINT32_MAX_id"
  shows "owned (wd s') = owned (wd s) + domain_held did (domains s') \<and> domains s' did \<noteq> None"
proof (cases "domains s did")
  case None
  then show ?thesis
    using assms(1,3)
    by (auto simp: check_create_domain_def create_domain_def Let_def default_domain_def domain_held_def
        dest!: owned_create_entity split: option.splits prod.splits if_splits)
next
  case (Some dm)
  then have "refcount dm \<noteq> 0" "refcount dm + 1 \<noteq> 1" using assms(2) by (auto simp: counted_def)
  then show ?thesis
    using assms(1) Some
    by (auto simp: check_create_domain_def Let_def domain_held_def split: prod.splits if_splits)
qed

lemma discovery_thread_start_owned:
  assumes "discovery_thread_start A c w = ((ret, c'), w')" "\<not> thread_is_running c"
  shows "if ret = RMW_RET_OK then owned w' = owned w + thread_held c' \<and> listener_thread_gc c' \<noteq> None
           \<and> c' = c\<lparr>thread_is_running := True, listener_thread_gc := listener_thread_gc c'\<rparr>
         else owned w' = owned w \<and> c' = c\<lparr>listener_thread_gc := listener_thread_gc c'\<rparr>"
  using assms by (auto simp: discovery_thread_start_def new_guard_condition_def thread_held_def gc_held_def Let_def
      dest!: owned_create_entity split: prod.splits if_splits)


lemma leaks_release:
  assumes "leaks w1 w2 M" "owned w1 = R + K"
  shows "R \<subseteq># owned w2 - K" "owned w2 - K \<subseteq># R + M"
proof -
  obtain Z where Z: "owned w2 = (R + K) + Z" using assms by (auto simp: leaks_def mset_subset_eq_exists_conv)
  then show "R \<subseteq># owned w2 - K" by (simp add: add.assoc add.commute add.left_commute)
  show "owned w2 - K \<subseteq># R + M" using assms by (simp add: leaks_def subset_eq_diff_conv ac_simps)
qed

text \<open>What the creation of the two endpoints of the graph may abandon.\<close>

definition graph_abandoned :: "'d ctx_api \<Rightarrow> rmw_lib \<Rightarrow> resource multiset" where
  "graph_abandoned A L = abandoned L (discovery_qos A) (info_type_support A) False
     + abandoned L ((discovery_qos A)\<lparr>history := H_KEEP_ALL\<rparr>) (info_type_support A) True"

definition undone :: "'d ctx_api \<Rightarrow> rmw_lib \<Rightarrow> resource multiset \<Rightarrow> ctx_impl \<Rightarrow> 'd process \<Rightarrow> bool" where
  "undone A L R c s \<longleftrightarrow> R \<subseteq># owned (wd s) \<and> owned (wd s) \<subseteq># R + graph_abandoned A L \<and> idle c"

lemma clean_up_undone:
  assumes "clean_up A c (s\<lparr>wd := w\<rparr>) = (c', s')" "\<And>d. joins A d" "\<not> thread_is_running c" "domains s (domain_id c) \<noteq> None"
    and "leaks v w M" "owned v = R + (held c + domain_held (domain_id c) (domains s))" "M \<subseteq># graph_abandoned A L"
  shows "undone A L R c' s'"
proof -
  have o: "owned (wd s') = owned w - (held c + domain_held (domain_id c) (domains s))" "idle c'"
    using clean_up_owned [OF assms(1,2)] assms(3,4) by simp_all
  show ?thesis
    using leaks_release [OF assms(5,6)] o assms(7) unfolding undone_def
    by (metis subset_mset.add_left_mono subset_mset.order_trans)
qed

lemma init_common_owned:
  assumes "init_common A L p q c s = ((ret, c'), s')" "\<And>d. joins A d" "domains s (domain_id c) \<noteq> None"
    and "common_pub c = None" "common_sub c = None" "graph_guard_condition c = None" "\<not> thread_is_running c"
    and "owned (wd s) = R + (held c + domain_held (domain_id c) (domains s))"
  shows "if ret = RMW_RET_OK
    then owned (wd s') = R + (held c' + domain_held (domain_id c') (domains s')) \<and> listener_thread_gc c' \<noteq> None
      \<and> domains s' (domain_id c') \<noteq> None
    else undone A L R c' s'"
proof -
  let ?D = "domain_held (domain_id c) (domains s)"
  obtain pub w1 where p: "create_publisher (endpoints A) L (participant c) p (info_type_support A) ''ros_discovery_info''
    (discovery_qos A) (wd s) = (pub, w1)" by fastforce
  obtain sub w2 where q: "create_subscription (endpoints A) L (participant c) q (info_type_support A) ''ros_discovery_info''
    ((discovery_qos A)\<lparr>history := H_KEEP_ALL\<rparr>) True w1 = (sub, w2)" by fastforce
  obtain gc w3 where g: "new_guard_condition A w2 = (gc, w3)" by fastforce
  let ?c1 = "c\<lparr>common_pub := pub\<rparr>"
  let ?c2 = "?c1\<lparr>common_sub := sub\<rparr>"
  let ?c3 = "?c2\<lparr>graph_guard_condition := gc\<rparr>"
  obtain r c4 w4 where t: "discovery_thread_start A ?c3 w3 = ((r, c4), w4)" by (metis prod.collapse)
  note po = create_publisher_owned [OF p]
  note qo = create_subscription_owned [OF q]
  note to = discovery_thread_start_owned [OF t]
  have go: "owned w3 = owned w2 + gc_held gc"
    using g by (auto simp: new_guard_condition_def gc_held_def dest!: owned_create_entity split: prod.splits if_splits)
  have a: "{#} \<subseteq># graph_abandoned A L" "abandoned L (discovery_qos A) (info_type_support A) False \<subseteq># graph_abandoned A L"
    "abandoned L ((discovery_qos A)\<lparr>history := H_KEEP_ALL\<rparr>) (info_type_support A) True \<subseteq># graph_abandoned A L"
    by (simp_all add: graph_abandoned_def)
  have h1: "held ?c1 = held c + pub_held pub" and h2: "held ?c2 = held ?c1 + sub_held sub"
    and h3: "held ?c3 = held ?c2 + gc_held gc"
    using assms(4-7) by (simp_all add: held_def thread_held_def ac_simps)
  show ?thesis
  proof (cases "pub = None")
    case True
    obtain c5 s5 where c: "clean_up A ?c1 (s\<lparr>wd := w1\<rparr>) = (c5, s5)" by fastforce
    have "undone A L R c5 s5"
      by (rule clean_up_undone [OF c assms(2) _ _ _ _ a(2), where v = "wd s"])
         (use po True assms h1 in simp_all)
    then show ?thesis using assms(1) True c by (auto simp: init_common_def p Let_def)
  next
    case pub: False
    then have o1: "owned w1 = R + (held ?c1 + ?D)"
      using po assms(8) h1 by (auto simp: pub_held_def add_mset_commute)
    show ?thesis
    proof (cases "sub = None")
      case True
      obtain c5 s5 where c: "clean_up A ?c2 (s\<lparr>wd := w2\<rparr>) = (c5, s5)" by fastforce
      have "undone A L R c5 s5"
        by (rule clean_up_undone [OF c assms(2) _ _ _ _ a(3), where v = w1])
           (use qo o1 True assms h2 in simp_all)
      then show ?thesis using assms(1) pub True c by (auto simp: init_common_def p q Let_def)
    next
      case sub: False
      then have o2: "owned w2 = R + (held ?c2 + ?D)" using qo o1 h2 by (auto simp: sub_held_def add_mset_commute)
      then have o3: "owned w3 = R + (held ?c3 + ?D)" using go h3 by (simp add: ac_simps)
      obtain c5 s5 where c: "clean_up A ?c3 (s\<lparr>wd := w3\<rparr>) = (c5, s5)" by fastforce
      obtain c6 s6 where d: "clean_up A c4 (s\<lparr>wd := w4\<rparr>) = (c6, s6)" by fastforce
      have u5: "undone A L R c5 s5"
        by (rule clean_up_undone [OF c assms(2) _ _ _ _ a(1), where v = w3]) (use o3 assms in simp_all)
      have u6: "undone A L R c6 s6" if "r \<noteq> RMW_RET_OK"
      proof -
        have c4: "c4 = ?c3\<lparr>listener_thread_gc := listener_thread_gc c4\<rparr>" "owned w4 = owned w3" using to that assms(7) by simp_all
        have h4: "held c4 = held ?c3" by (subst c4(1)) (simp add: held_def thread_held_def assms(7))
        have "domain_id c4 = domain_id c" "\<not> thread_is_running c4" by (subst c4(1), simp add: assms(7))+
        then show ?thesis
          by (intro clean_up_undone [OF d assms(2) _ _ _ _ a(1), where v = w4]) (use o3 c4(2) h4 assms in simp_all)
      qed
      obtain y z where e: "pub = Some y" "sub = Some z" using pub sub by blast
      note m = init_common_def p [unfolded e] q [unfolded e, simplified] g [unfolded e]
      have i: "init_common A L p q c s = (if gc = None then ((RMW_RET_BAD_ALLOC, c5), s5)
          else if r \<noteq> RMW_RET_OK then ((r, c6), s6) else ((RMW_RET_OK, c4\<lparr>node_count := node_count c4 + 1\<rparr>), s\<lparr>wd := w4\<rparr>))"
      proof (cases gc)
        case None
        then show ?thesis by (simp add: m Let_def c [unfolded e None])
      next
        case (Some x)
        then show ?thesis by (simp add: m Let_def t [unfolded e Some] d)
      qed
      show ?thesis
      proof (cases "gc = None \<or> r \<noteq> RMW_RET_OK")
        case True
        then show ?thesis using assms(1) [unfolded i] u5 u6 by (auto split: if_splits)
      next
        case False
        then have c4: "c4 = ?c3\<lparr>thread_is_running := True, listener_thread_gc := listener_thread_gc c4\<rparr>"
          "owned w4 = owned w3 + thread_held c4" "listener_thread_gc c4 \<noteq> None" using to assms(7) by simp_all
        have "held c4 = held ?c3 + thread_held c4"
          by (subst (1) c4(1)) (simp add: held_def thread_held_def assms(7) ac_simps, subst c4(1), simp)
        moreover have "domain_id c4 = domain_id c" by (subst c4(1)) simp
        moreover have "held (c4\<lparr>node_count := n\<rparr>) = held c4" for n by (simp add: held_def thread_held_def)
        ultimately show ?thesis
          using assms(1) [unfolded i] assms(3) False o3 c4(2,3) by (auto simp: ac_simps)
      qed
    qed
  qed
qed

text \<open>A participant that is created has a positive handle.\<close>

lemma context_init_owned:
  assumes "context_init A L c opts did s = ((ret, c'), s')" "\<And>d. joins A d" "counted (domains s)" "did < 4294967295"
    and "discovery_flags (automatic_discovery_range (discovery opts)) \<noteq> None"
    and "node_count c = 0" "idle c" "\<And>e q d. fst (dds_create_participant A (of_nat did) e q d) \<noteq> 0"
  shows "if ret = RMW_RET_OK
    then owned (wd s') = owned (wd s) + (held c' + domain_held (domain_id c') (domains s'))
      \<and> domains s' (domain_id c') \<noteq> None \<and> listener_thread_gc c' \<noteq> None
    else undone A L (owned (wd s)) c' s'"
proof -
  let ?c0 = "c\<lparr>domain_id := of_nat did\<rparr>"
  have idle: "held ?c0 = {#}" "\<not> thread_is_running c" "common_pub c = None" "common_sub c = None"
    "graph_guard_condition c = None" "participant c = 0"
    using assms(7) idle_held [of ?c0] by (simp_all add: idle_def)
  have z: "{#} \<subseteq># graph_abandoned A L" by simp
  obtain ok s1 where k: "check_create_domain A (of_nat did) (discovery opts) s = (ok, s1)" by fastforce
  show ?thesis
  proof (cases ok)
    case False
    have "owned (wd s1) = owned (wd s)"
      using k False assms(5) by (auto simp: check_create_domain_def create_domain_def Let_def dest!: ledger split: prod.splits if_splits option.splits)
    then show ?thesis using assms(1,6,7) False
      by (auto simp: context_init_def k Let_def undone_def idle_def)
  next
    case True
    have o1: "owned (wd s1) = owned (wd s) + domain_held (of_nat did) (domains s1)" "domains s1 (of_nat did) \<noteq> None"
      using check_create_domain_owned [OF _ assms(3) of_nat_domain [OF assms(4)]] k True by simp_all
    obtain c2 s2 where f: "clean_up A ?c0 s1 = (c2, s2)" by fastforce
    have u: "undone A L (owned (wd s)) c2 s2"
      by (rule clean_up_undone [where c = ?c0 and s = s1 and w = "wd s1", OF _ assms(2) _ _ leaks_refl _ z])
         (use f o1 idle in simp_all)
    obtain sec props where sec: "configure_qos_for_security A (security opts) (lib (wd s1)) = (sec, props)" by fastforce
    obtain pp w3 where p: "create_entity (dds_create_participant A (of_nat did) (''enclave='' @ enclave opts @ '';'') props) Participant (wd s1)
        = (pp, w3)" by fastforce
    let ?c3 = "?c0\<lparr>participant := pp\<rparr>"
    have "pp \<noteq> 0" using p assms(8) by (auto simp: create_entity_def split: prod.splits) (metis fst_conv)
    then have o3: "owned w3 = owned (wd s) + (held ?c3 + domain_held (of_nat did) (domains s1))"
      using owned_create_entity [OF p] o1 idle by (auto simp: held_def thread_held_def)
    obtain r d where b: "create_builtin A pp (lib w3) = (r, d)" by fastforce
    let ?s4 = "s1\<lparr>wd := w3\<lparr>lib := d\<rparr>\<rparr>"
    have u3: "undone A L (owned (wd s)) c5 s5" if "clean_up A ?c3 (s1\<lparr>wd := w\<rparr>) = (c5, s5)" "owned w = owned w3" for w c5 s5
      by (rule clean_up_undone [OF that(1) assms(2) _ _ leaks_refl _ z]) (use o1 o3 idle that(2) in simp_all)
    have u4: "if ret' = RMW_RET_OK
        then owned (wd s6) = owned (wd s) + (held c6 + domain_held (domain_id c6) (domains s6)) \<and> listener_thread_gc c6 \<noteq> None
          \<and> domains s6 (domain_id c6) \<noteq> None
        else undone A L (owned (wd s)) c6 s6"
      if "init_common A L publisher subscriber ?c3 ?s4 = ((ret', c6), s6)" for publisher subscriber ret' c6 s6
      by (rule init_common_owned [OF that assms(2)]) (use o1 o3 idle in simp_all)
    obtain c5 s5 where g: "clean_up A ?c3 (s1\<lparr>wd := w3\<rparr>) = (c5, s5)" by fastforce
    obtain c7 s7 where h: "clean_up A ?c3 ?s4 = (c7, s7)" by fastforce
    have u5: "undone A L (owned (wd s)) c5 s5" by (rule u3 [OF g]) simp
    have u7: "undone A L (owned (wd s)) c7 s7" by (rule u3 [OF h]) simp
    have e: "context_init A L c opts did s =
       (if \<not> qos_allocates A (lib (wd s1)) then ((RMW_RET_BAD_ALLOC, c2), s2)
        else if sec \<noteq> RMW_RET_OK \<and> enforce_security (security opts) then ((RMW_RET_ERROR, c2), s2)
        else if pp < 0 then ((RMW_RET_ERROR, c5), s5)
        else case r of None \<Rightarrow> ((RMW_RET_ERROR, c7), s7)
          | Some (publisher, subscriber) \<Rightarrow> init_common A L publisher subscriber ?c3 ?s4)"
      using assms(6) True f g h p by (simp add: context_init_def k sec b Let_def split: option.split)
    show ?thesis using assms(1) [unfolded e] u u5 u7 by (cases r) (auto split: if_splits dest!: u4)
  qed
qed

text \<open>The last node of a context gives back what it holds.\<close>

lemma context_fini_owned:
  assumes "node_count c = 1" "\<And>d. joins A d" "listener_thread_gc c \<noteq> None" "domains s (domain_id c) \<noteq> None"
  shows "owned (wd (snd (context_fini A c s))) = owned (wd s) - (held c + domain_held (domain_id c) (domains s))"
proof -
  let ?c = "c\<lparr>node_count := 0\<rparr>"
  obtain c' s' where k: "clean_up A ?c s = (c', s')" by fastforce
  have "held ?c = held c" by (simp add: held_def thread_held_def)
  then show ?thesis
    using clean_up_owned [OF k assms(2)] assms by (simp add: context_fini_def Let_def k)
qed

end
