(* ===== verification/ContextClaims.thy ===== *)
theory ContextClaims
  imports ContextLedger EndpointClaims
begin

text \<open>The properties of contexts, domains and nodes.\<close>


definition ex_endpoints :: "unit ep_api" where
  "ex_endpoints = ex_ep_api\<lparr>dds_create_topic_sertype := \<lambda>_ _ _ d. (5, d)\<rparr>"

definition ex_graph_ts :: message_ts where
  "ex_graph_ts = \<lparr>ts_identifier = IntrospectionCpp, ts_namespace = ''rmw_dds_common::msg'', ts_name = ''ParticipantEntitiesInfo'',
     ts_hash = None\<rparr>"

definition ex_ctx_api :: "unit ctx_api" where
  "ex_ctx_api = \<lparr>
     endpoints = ex_endpoints,
     rmw_discovery_options_equal = (\<lambda>a b. (RMW_RET_OK, a = b)),
     show_pid = ''1'',
     get_env_uri = (\<lambda>_. Some []),
     dds_create_domain = (\<lambda>_ _ d. (6, d)),
     qos_allocates = (\<lambda>_. True),
     security_support = False,
     string_map_init = (\<lambda>_. True),
     get_security_files = (\<lambda>_ _ _. None),
     dds_create_participant = (\<lambda>_ _ _ d. (7, d)),
     dds_create_builtin_reader = (\<lambda>_ _ d. (8, d)),
     dds_create_publisher = (\<lambda>_ d. (9, d)),
     dds_create_subscriber = (\<lambda>_ d. (10, d)),
     dds_create_guardcondition = (\<lambda>d. (11, d)),
     dds_set_guardcondition = (\<lambda>_ d. d),
     starts_thread = (\<lambda>_. True),
     joins = (\<lambda>_. True),
     info_type_support = (\<lambda>_. Some ex_graph_ts),
     rmw_qos_profile_default = ex_profile,
     graph_add_node = (\<lambda>_ _ d. (RMW_RET_OK, d)),
     graph_remove_node = (\<lambda>_ _ d. (RMW_RET_OK, d)),
     rmw_validate_node_name = (\<lambda>_. (RMW_RET_OK, True)),
     rmw_validate_namespace = (\<lambda>_. (RMW_RET_OK, True))\<rparr>"

definition ex_options :: init_options where
  "ex_options = \<lparr>discovery = \<lparr>automatic_discovery_range = RANGE_LOCALHOST, static_peers = []\<rparr>,
     security = \<lparr>enforce_security = False, security_root_path = None\<rparr>, enclave = ''/''\<rparr>"

definition ex_context :: rmw_context where
  "ex_context = \<lparr>options = ex_options, actual_domain_id = 0, impl = fresh_impl\<rparr>"

abbreviation ex_process :: "unit process" where
  "ex_process \<equiv> \<lparr>wd = \<lparr>lib = (), owned = {#}, next_csid = 0\<rparr>, domains = Map.empty\<rparr>"

lemma ex_endpoints_simps [simp]:
  "dds_create_topic_sertype ex_endpoints pp n st d = (5, d)" "dds_create_writer ex_endpoints p t q d = (1, d)"
  "dds_create_reader ex_endpoints p t q d = (2, d)" "dds_create_readcondition ex_endpoints r d = (3, d)"
  "dds_get_instance_handle ex_endpoints h d = (0, 4)" "allocates ex_endpoints d = (True, d)"
  by (simp_all add: ex_endpoints_def ex_ep_api_def)

lemma ex_ctx_simps [simp]:
  "endpoints ex_ctx_api = ex_endpoints" "get_env_uri ex_ctx_api d = Some []" "dds_create_domain ex_ctx_api did cfg d = (6, d)"
  "qos_allocates ex_ctx_api d = True" "security_support ex_ctx_api = False" "dds_create_participant ex_ctx_api did e q d = (7, d)"
  "dds_create_builtin_reader ex_ctx_api pp n d = (8, d)" "dds_create_publisher ex_ctx_api pp d = (9, d)"
  "dds_create_subscriber ex_ctx_api pp d = (10, d)" "dds_create_guardcondition ex_ctx_api d = (11, d)"
  "starts_thread ex_ctx_api d = True" "info_type_support ex_ctx_api i = Some ex_graph_ts"
  "graph_add_node ex_ctx_api n ns d = (RMW_RET_OK, d)" "rmw_validate_node_name ex_ctx_api n = (RMW_RET_OK, True)"
  "rmw_validate_namespace ex_ctx_api n = (RMW_RET_OK, True)"
  by (simp_all add: ex_ctx_api_def)

lemma ex_graph_typesupport:
  "get_typesupport (info_type_support ex_ctx_api) = Some ex_graph_ts"
  "fst (get_message_type_name (ts_identifier ex_graph_ts) (ts_namespace ex_graph_ts) (ts_name ex_graph_ts)) \<noteq> []"
  by (simp_all add: get_typesupport_def ex_graph_ts_def get_message_type_name_def get_type_name_def get_type_name_impl_def)

lemma ex_qos: "\<exists>q. \<forall>w. create_qos ex_rmw_lib ((discovery_qos ex_ctx_api)\<lparr>history := h\<rparr>) th ign e w
    = (Some q, w\<lparr>owned := add_mset QosObject (owned w)\<rparr>)" if "h = H_KEEP_LAST \<or> h = H_KEEP_ALL"
proof -
  have "supported_profile ((discovery_qos ex_ctx_api)\<lparr>history := h\<rparr>)"
    using that by (auto simp: supported_profile_def discovery_qos_def ex_ctx_api_def ex_profile_def)
  then obtain q where "readwrite_qos_settings ex_rmw_lib ((discovery_qos ex_ctx_api)\<lparr>history := h\<rparr>) th ign e = Inr q"
    using settings_total by blast
  then show ?thesis by (simp add: create_qos_def create_readwrite_qos_def)
qed

lemma ex_qos_pub:
  "\<exists>q. \<forall>w. create_qos ex_rmw_lib (discovery_qos ex_ctx_api) th ign e w = (Some q, w\<lparr>owned := add_mset QosObject (owned w)\<rparr>)"
proof -
  have "(discovery_qos ex_ctx_api)\<lparr>history := H_KEEP_LAST\<rparr> = discovery_qos ex_ctx_api"
    by (intro rmw_qos_profile.equality) (simp_all add: discovery_qos_def)
  then show ?thesis using ex_qos [of H_KEEP_LAST th ign e] by simp
qed

lemma ex_pub: "\<exists>pub w'. create_publisher ex_endpoints ex_rmw_lib 7 9 (info_type_support ex_ctx_api) ''ros_discovery_info''
    (discovery_qos ex_ctx_api) w = (Some pub, w')"
proof -
  obtain q where q: "\<And>v :: unit world. create_qos ex_rmw_lib (discovery_qos ex_ctx_api) (ts_hash ex_graph_ts) False [] v
     = (Some q, v\<lparr>owned := add_mset QosObject (owned v)\<rparr>)" using ex_qos_pub by blast
  show ?thesis
    by (simp add: q ex_graph_typesupport create_publisher_def create_cdds_publisher_def create_topic_def create_entity_def
        allocate_def Let_def)
qed

lemma ex_sub_created: "\<exists>sub w'. create_subscription ex_endpoints ex_rmw_lib 7 10 (info_type_support ex_ctx_api) ''ros_discovery_info''
    ((discovery_qos ex_ctx_api)\<lparr>history := H_KEEP_ALL\<rparr>) True w = (Some sub, w')"
proof -
  obtain q where q: "\<And>v :: unit world. create_qos ex_rmw_lib ((discovery_qos ex_ctx_api)\<lparr>history := H_KEEP_ALL\<rparr>)
     (ts_hash ex_graph_ts) True [] v = (Some q, v\<lparr>owned := add_mset QosObject (owned v)\<rparr>)" using ex_qos [of H_KEEP_ALL] by blast
  show ?thesis
    by (simp add: q ex_graph_typesupport create_subscription_def create_cdds_subscription_def create_topic_def create_entity_def
        allocate_def Let_def)
qed

lemma ex_init: "\<exists>c s'. context_init ex_ctx_api ex_rmw_lib fresh_impl ex_options 0 ex_process = ((RMW_RET_OK, c), s')"
proof -
  obtain P W where p: "\<And>w. create_publisher ex_endpoints ex_rmw_lib 7 9 (info_type_support ex_ctx_api) ''ros_discovery_info''
    (discovery_qos ex_ctx_api) w = (Some (P w), W w)" using ex_pub by metis
  obtain S V where s: "\<And>w. create_subscription ex_endpoints ex_rmw_lib 7 10 (info_type_support ex_ctx_api) ''ros_discovery_info''
    ((discovery_qos ex_ctx_api)\<lparr>history := H_KEEP_ALL\<rparr>) True w = (Some (S w), V w)" using ex_sub_created by metis
  show ?thesis
    using p s by (simp add: context_init_def check_create_domain_def create_domain_def default_domain_def ex_options_def fresh_impl_def create_entity_def
        Let_def configure_qos_for_security_def create_builtin_def init_common_def new_guard_condition_def discovery_thread_start_def)
qed

lemma ex_created: "\<exists>x s'. rmw_create_node ex_ctx_api ex_rmw_lib ex_context n ns ex_process = ((True, x), s')"
  using ex_init by (auto simp: rmw_create_node_def ex_context_def fresh_impl_def Let_def allocate_def)


text \<open>
  C27. A context whose discovery range is not set leaves its domain behind: the context is refused, but the
  domain stays in the table with a reference that no context releases, without having been created.  From then
  on a context with other discovery options is refused the domain, and one with the same options gets
  it although nothing has created it.
\<close>

theorem not_set_range_blocks_domain:
  assumes "automatic_discovery_range (discovery opts) = RANGE_NOT_SET" "domains s (of_nat did) = None" "node_count c = 0"
    and "context_init A L c opts did s = ((ret, c'), s')"
  shows "ret = RMW_RET_ERROR \<and> node_count c' = 0 \<and> wd s' = wd s
    \<and> domains s' = (domains s)(of_nat did \<mapsto> \<lparr>dom_options = discovery opts, refcount = 1, domain_handle = 0\<rparr>)
    \<and> (case rmw_discovery_options_equal A (discovery opts2) (discovery opts) of (rc, eq) \<Rightarrow>
         if rc = RMW_RET_OK \<and> eq
         then fst (check_create_domain A (of_nat did) (discovery opts2) s') \<and> wd (snd (check_create_domain A (of_nat did) (discovery opts2) s')) = wd s
         else (node_count c2 = 0 \<longrightarrow> context_init A L c2 opts2 did s' = ((RMW_RET_ERROR, c2\<lparr>domain_id := of_nat did\<rparr>), s')))"
proof -
  have s': "ret = RMW_RET_ERROR" "c' = c\<lparr>domain_id := of_nat did\<rparr>"
    "s' = s\<lparr>domains := (domains s)(of_nat did \<mapsto> \<lparr>dom_options = discovery opts, refcount = 1, domain_handle = 0\<rparr>)\<rparr>"
    using assms by (simp_all add: context_init_def check_create_domain_def create_domain_def default_domain_def Let_def)
  obtain rc eq where e: "rmw_discovery_options_equal A (discovery opts2) (discovery opts) = (rc, eq)" by fastforce
  show ?thesis
    using assms(3) by (simp add: s' e) (simp add: context_init_def check_create_domain_def create_domain_def e Let_def)
qed

lemma not_set_range_blocks_domain_witness:
  "let s' = snd (context_init ex_ctx_api ex_rmw_lib fresh_impl
       (ex_options\<lparr>discovery := \<lparr>automatic_discovery_range = RANGE_NOT_SET, static_peers = []\<rparr>\<rparr>) 0 ex_process)
   in context_init ex_ctx_api ex_rmw_lib fresh_impl ex_options 0 s' = ((RMW_RET_ERROR, fresh_impl\<lparr>domain_id := 0\<rparr>), s')"
proof -
  let ?o = "ex_options\<lparr>discovery := \<lparr>automatic_discovery_range = RANGE_NOT_SET, static_peers = []\<rparr>\<rparr>"
  obtain ret c' s' where i: "context_init ex_ctx_api ex_rmw_lib fresh_impl ?o 0 ex_process = ((ret, c'), s')"
    by (metis prod.collapse)
  have "rmw_discovery_options_equal ex_ctx_api (discovery ex_options) (discovery ?o) = (RMW_RET_OK, False)"
    by (simp add: ex_ctx_api_def ex_options_def)
  moreover have "node_count fresh_impl = 0" by (simp add: fresh_impl_def)
  ultimately show ?thesis
    using not_set_range_blocks_domain [OF _ _ _ i, of ex_options fresh_impl] by (simp add: i)
qed



end
