(* ===== verification/Messages.thy ===== *)
theory Messages
  imports EndpointProps SerdataProps
begin

text \<open>
  Publishing and taking messages in \<^verbatim>\<open>rmw_node.cpp\<close>: as messages, as serialized messages, in sequences and as
  loans, and serialization by itself.  Of the conditional compilation the model follows the branch for
  versions after 0.10.  Loops that take samples are partial functions: \<open>None\<close> is not returning.
\<close>

section \<open>Samples and the interface\<close>

record sample_info =
  si_valid :: bool
  si_alive :: bool
  si_publication :: u64
  si_source :: int

record message_info =
  mi_publisher :: gid
  mi_source :: int
  mi_received :: int
  mi_publication_sequence :: u64
  mi_reception_sequence :: u64

text \<open>\<open>DDS_RETCODE_OTHER\<close> stands for the return codes no branch tells apart.\<close>

datatype dds_retcode =
    DDS_RETCODE_OK | DDS_RETCODE_BAD_PARAMETER | DDS_RETCODE_TIMEOUT | DDS_RETCODE_UNSUPPORTED | DDS_RETCODE_OTHER

text \<open>
  What these functions call.  A message lives at an address, and what is there is part of the state
  of the outside world, except where a serialized message is handed over as bytes; address 0 is null.
\<close>

record 'd msg_api =
  dds_clock :: "'d \<Rightarrow> int"
  system_clock_now :: "'d \<Rightarrow> int"
  RMW_MESSAGE_INFO_SEQUENCE_NUMBER_UNSUPPORTED :: u64
  dds_write_at :: "dds_entity \<Rightarrow> ptr \<Rightarrow> int \<Rightarrow> 'd \<Rightarrow> int \<times> 'd"
  dds_forwardcdr :: "dds_entity \<Rightarrow> serdata_rmw \<Rightarrow> 'd \<Rightarrow> int \<times> 'd"
  dds_take_into :: "dds_entity \<Rightarrow> ptr list \<Rightarrow> nat \<Rightarrow> 'd \<Rightarrow> (int \<times> sample_info list) \<times> 'd"
  dds_take_loan :: "dds_entity \<Rightarrow> ptr \<Rightarrow> 'd \<Rightarrow> (int \<times> sample_info \<times> ptr) \<times> 'd"
  dds_takecdr :: "dds_entity \<Rightarrow> 'd \<Rightarrow> (int \<times> sample_info \<times> serdata_rmw) \<times> 'd"
  rmw_serialized_message_resize :: "nat \<Rightarrow> u8 list \<Rightarrow> rmw_ret \<times> u8 list"
  dds_request_loan_of_size :: "dds_entity \<Rightarrow> u32 \<Rightarrow> 'd \<Rightarrow> ptr option \<times> 'd"
  dds_return_loan :: "dds_entity \<Rightarrow> ptr \<Rightarrow> 'd \<Rightarrow> bool \<times> 'd"
  fini_function :: "message_ts \<Rightarrow> ptr \<Rightarrow> 'd \<Rightarrow> 'd"
  dds_assert_liveliness :: "dds_entity \<Rightarrow> 'd \<Rightarrow> int \<times> 'd"
  dds_wait_for_acks :: "dds_entity \<Rightarrow> int \<Rightarrow> 'd \<Rightarrow> dds_retcode \<times> 'd"
  dds_count_matched :: "dds_entity \<Rightarrow> 'd \<Rightarrow> int"

section \<open>Publishing\<close>

definition rmw_publish :: "'d msg_api \<Rightarrow> pub_data \<Rightarrow> ptr \<Rightarrow> 'd world \<Rightarrow> rmw_ret \<times> 'd world" where
  "rmw_publish A pub ros_message w =
     (if ros_message = 0 then (RMW_RET_INVALID_ARGUMENT, w)
      else case dds_write_at A (enth pub) ros_message (dds_clock A (lib w)) (lib w) of (n, d) \<Rightarrow>
        (if 0 \<le> n then RMW_RET_OK else RMW_RET_ERROR, w\<lparr>lib := d\<rparr>))"

text \<open>The serialized sample has one reference, which \<open>dds_forwardcdr\<close> takes over.\<close>

definition rmw_publish_serialized_message ::
  "env \<Rightarrow> sertype_rmw \<Rightarrow> 'd msg_api \<Rightarrow> pub_data \<Rightarrow> u8 list \<Rightarrow> 'd world \<Rightarrow> (rmw_ret \<times> 'd world) result" where
  "rmw_publish_serialized_message V tp A pub raw w =
     (let tstamp = dds_clock A (lib w) in
      rbind (serdata_rmw_from_serialized_message V tp SDK_DATA raw) (\<lambda>(d, err).
      case d of
        None \<Rightarrow> Inl (UB ''null pointer'')
      | Some d \<Rightarrow>
          let w = own SerdataRef w; d = d\<lparr>timestamp := tstamp, statusinfo := 0\<rparr> in
          (case dds_forwardcdr A (enth pub) d (lib w) of (n, l) \<Rightarrow>
             Inr (if 0 \<le> n then RMW_RET_OK else RMW_RET_ERROR, disown SerdataRef (w\<lparr>lib := l\<rparr>)))))"

definition rmw_publish_loaned_message :: "'d msg_api \<Rightarrow> bool \<Rightarrow> pub_data \<Rightarrow> ptr \<Rightarrow> 'd world \<Rightarrow> rmw_ret \<times> 'd world" where
  "rmw_publish_loaned_message A can_loan_messages pub ros_message w =
     (if \<not> can_loan_messages then (RMW_RET_UNSUPPORTED, w)
      else case rmw_publish A pub ros_message w of (ret, w) \<Rightarrow>
        (ret, if ret = RMW_RET_OK then disown (Loan ros_message) w else w))"

definition rmw_publisher_assert_liveliness :: "'d msg_api \<Rightarrow> pub_data \<Rightarrow> 'd world \<Rightarrow> rmw_ret \<times> 'd world" where
  "rmw_publisher_assert_liveliness A pub w =
     (case dds_assert_liveliness A (enth pub) (lib w) of (n, d) \<Rightarrow>
        (if n < 0 then RMW_RET_ERROR else RMW_RET_OK, w\<lparr>lib := d\<rparr>))"

definition rmw_publisher_wait_for_all_acked ::
  "rmw_lib \<Rightarrow> 'd msg_api \<Rightarrow> pub_data option \<Rightarrow> rmw_time \<Rightarrow> 'd world \<Rightarrow> rmw_ret \<times> 'd world" where
  "rmw_publisher_wait_for_all_acked L A pub wait_timeout w =
     (case pub of
        None \<Rightarrow> (RMW_RET_INVALID_ARGUMENT, w)
      | Some pub \<Rightarrow>
          (case dds_wait_for_acks A (enth pub) (rmw_duration_to_dds L wait_timeout) (lib w) of (rc, d) \<Rightarrow>
             (case rc of
                DDS_RETCODE_OK \<Rightarrow> RMW_RET_OK
              | DDS_RETCODE_BAD_PARAMETER \<Rightarrow> RMW_RET_INVALID_ARGUMENT
              | DDS_RETCODE_TIMEOUT \<Rightarrow> RMW_RET_TIMEOUT
              | DDS_RETCODE_UNSUPPORTED \<Rightarrow> RMW_RET_UNSUPPORTED
              | DDS_RETCODE_OTHER \<Rightarrow> RMW_RET_ERROR, w\<lparr>lib := d\<rparr>)))"

text \<open>The number of matched endpoints, for publishers and subscriptions alike.\<close>

definition count_matched :: "'d msg_api \<Rightarrow> dds_entity \<Rightarrow> 'd \<Rightarrow> rmw_ret \<times> nat option" where
  "count_matched A e d =
     (let count = dds_count_matched A e d in
      if count < 0 then (RMW_RET_ERROR, None) else (RMW_RET_OK, Some (nat count)))"

definition rmw_publisher_count_matched_subscriptions :: "'d msg_api \<Rightarrow> pub_data \<Rightarrow> 'd \<Rightarrow> rmw_ret \<times> nat option" where
  "rmw_publisher_count_matched_subscriptions A pub d = count_matched A (enth pub) d"

definition rmw_subscription_count_matched_publishers :: "'d msg_api \<Rightarrow> sub_data \<Rightarrow> 'd \<Rightarrow> rmw_ret \<times> nat option" where
  "rmw_subscription_count_matched_publishers A sub d = count_matched A (sub_enth sub) d"

section \<open>Identifiers\<close>

definition gid_of_handle :: "endian \<Rightarrow> u64 \<Rightarrow> gid" where
  "gid_of_handle E h = word_bytes E 8 h @ replicate 8 0"

definition rmw_get_gid_for_publisher :: "endian \<Rightarrow> pub_data \<Rightarrow> gid" where
  "rmw_get_gid_for_publisher E pub = gid_of_handle E (pubiid pub)"

definition rmw_compare_gids_equal :: "gid \<Rightarrow> gid \<Rightarrow> bool" where
  "rmw_compare_gids_equal gid1 gid2 \<longleftrightarrow> gid1 = gid2"

definition message_info_from_sample_info :: "endian \<Rightarrow> 'd msg_api \<Rightarrow> sample_info \<Rightarrow> 'd \<Rightarrow> message_info" where
  "message_info_from_sample_info E A info d =
     \<lparr>mi_publisher = gid_of_handle E (si_publication info), mi_source = si_source info,
      mi_received = system_clock_now A d,
      mi_publication_sequence = RMW_MESSAGE_INFO_SEQUENCE_NUMBER_UNSUPPORTED A,
      mi_reception_sequence = RMW_MESSAGE_INFO_SEQUENCE_NUMBER_UNSUPPORTED A\<rparr>"

section \<open>Taking\<close>

partial_function (option) take_loop ::
  "'d msg_api \<Rightarrow> dds_entity \<Rightarrow> ptr \<Rightarrow> 'd \<Rightarrow> (sample_info option \<times> 'd) option" where
  "take_loop A rd ros_message d =
     (case dds_take_into A rd [ros_message] 1 d of ((n, infos), d) \<Rightarrow>
        if n = 1 then
          (if si_valid (hd infos) then Some (Some (hd infos), d) else take_loop A rd ros_message d)
        else Some (None, d))"

text \<open>The result is the return code, whether a message was taken, and the information if it is asked for.\<close>

type_synonym taken = "rmw_ret \<times> bool \<times> message_info option"

definition rmw_take_int ::
  "endian \<Rightarrow> 'd msg_api \<Rightarrow> sub_data \<Rightarrow> ptr \<Rightarrow> bool \<Rightarrow> 'd world \<Rightarrow> (taken \<times> 'd world) option" where
  "rmw_take_int E A sub ros_message with_info w =
     (if ros_message = 0 then Some ((RMW_RET_INVALID_ARGUMENT, False, None), w)
      else case take_loop A (sub_enth sub) ros_message (lib w) of
        None \<Rightarrow> None
      | Some (Some info, d) \<Rightarrow>
          Some ((RMW_RET_OK, True, if with_info then Some (message_info_from_sample_info E A info d) else None), w\<lparr>lib := d\<rparr>)
      | Some (None, d) \<Rightarrow> Some ((RMW_RET_OK, False, None), w\<lparr>lib := d\<rparr>))"

definition rmw_take :: "endian \<Rightarrow> 'd msg_api \<Rightarrow> sub_data \<Rightarrow> ptr \<Rightarrow> 'd world \<Rightarrow> (taken \<times> 'd world) option" where
  "rmw_take E A sub ros_message w = rmw_take_int E A sub ros_message False w"

definition rmw_take_with_info :: "endian \<Rightarrow> 'd msg_api \<Rightarrow> sub_data \<Rightarrow> ptr \<Rightarrow> 'd world \<Rightarrow> (taken \<times> 'd world) option" where
  "rmw_take_with_info E A sub ros_message w = rmw_take_int E A sub ros_message True w"

text \<open>
  A sequence of messages is an array of pointers at an address, with the number in use and the capacity.
  \<open>slot\<close> is the address of an element of the array.
\<close>

record message_sequence =
  sequence_base :: ptr
  sequence_data :: "ptr list"
  sequence_size :: nat
  sequence_capacity :: nat

record info_sequence =
  infos_data :: "message_info list"
  infos_size :: nat
  infos_capacity :: nat

definition slot :: "message_sequence \<Rightarrow> nat \<Rightarrow> ptr" where
  "slot ms ii = sequence_base ms + 8 * ii"

text \<open>The pointers of valid and of invalid samples, and the information on the valid ones.\<close>

fun sort_samples ::
  "endian \<Rightarrow> 'd msg_api \<Rightarrow> 'd \<Rightarrow> message_sequence \<Rightarrow> nat \<Rightarrow> sample_info list \<Rightarrow> message_info list \<Rightarrow> nat \<Rightarrow>
   ptr list \<times> ptr list \<times> message_info list \<times> nat" where
  "sort_samples E A d ms ii [] mis taken = ([], [], mis, taken)"
| "sort_samples E A d ms ii (info # infos) mis taken =
     (let message = slot ms ii in
      if si_valid info then
        (case sort_samples E A d ms (Suc ii) infos (mis[taken := message_info_from_sample_info E A info d]) (Suc taken) of
           (ts, ns, mis, taken) \<Rightarrow> (message # ts, ns, mis, taken))
      else
        (case sort_samples E A d ms (Suc ii) infos mis taken of
           (ts, ns, mis, taken) \<Rightarrow> (ts, message # ns, mis, taken)))"

definition store_at :: "nat \<Rightarrow> ptr list \<Rightarrow> ptr list \<Rightarrow> ptr list" where
  "store_at i ps dat = take i dat @ ps @ drop (i + length ps) dat"

definition rmw_take_seq ::
  "endian \<Rightarrow> 'd msg_api \<Rightarrow> sub_data \<Rightarrow> nat \<Rightarrow> message_sequence \<Rightarrow> info_sequence \<Rightarrow> 'd world \<Rightarrow>
   (rmw_ret \<times> nat option \<times> message_sequence \<times> info_sequence) \<times> 'd world" where
  "rmw_take_seq E A sub max_count ms mis w =
     (if max_count = 0 then ((RMW_RET_INVALID_ARGUMENT, None, ms, mis), w)
      else if sequence_capacity ms < max_count then ((RMW_RET_INVALID_ARGUMENT, None, ms, mis), w)
      else if infos_capacity mis < max_count then ((RMW_RET_INVALID_ARGUMENT, None, ms, mis), w)
      else if UINT32_MAX < max_count then ((RMW_RET_ERROR, None, ms, mis), w)
      else case dds_take_into A (sub_enth sub) (sequence_data ms) max_count (lib w) of ((ret, infos), d) \<Rightarrow>
        let w = w\<lparr>lib := d\<rparr> in
        if ret < 0 then ((RMW_RET_ERROR, None, ms, mis), w)
        else case sort_samples E A d ms 0 (take (nat ret) infos) (infos_data mis) 0 of
          (taken_msg, not_taken_msg, info_data, taken) \<Rightarrow>
          let dat = store_at 0 taken_msg (sequence_data ms);
              dat = store_at (length taken_msg) not_taken_msg dat in
          ((RMW_RET_OK, Some taken, ms\<lparr>sequence_data := dat, sequence_size := taken\<rparr>,
            mis\<lparr>infos_data := info_data, infos_size := taken\<rparr>), w))"

section \<open>Taking serialized messages\<close>

definition rmw_take_ser_int_from_shm :: "'d msg_api \<Rightarrow> serdata_rmw \<Rightarrow> u8 list \<Rightarrow> bool \<times> u8 list" where
  "rmw_take_ser_int_from_shm A d serialized_message =
     (case loan d of
        None \<Rightarrow> (False, serialized_message)
      | Some l \<Rightarrow>
          if sample_state l \<noteq> SERIALIZED_DATA then (False, serialized_message)
          else (case rmw_serialized_message_resize A (length (sample_bytes l)) serialized_message of (ret, buffer) \<Rightarrow>
            if ret \<noteq> RMW_RET_OK then (False, buffer) else (True, sample_bytes l)))"

partial_function (option) take_cdr_loop ::
  "'d msg_api \<Rightarrow> dds_entity \<Rightarrow> 'd world \<Rightarrow> ((sample_info \<times> serdata_rmw) option \<times> 'd world) option" where
  "take_cdr_loop A rd w =
     (case dds_takecdr A rd (lib w) of ((n, info, d), l) \<Rightarrow>
      let w = w\<lparr>lib := l\<rparr> in
      if n = 1 then
        let w = own SerdataRef w in
        if \<not> si_valid info then take_cdr_loop A rd (disown SerdataRef w)
        else Some (Some (info, d), w)
      else Some (None, w))"

text \<open>What is done with the sample taken; its reference is dropped on every path.\<close>

definition take_serdata ::
  "env \<Rightarrow> sertype_rmw \<Rightarrow> memory \<Rightarrow> 'd msg_api \<Rightarrow> serdata_rmw \<Rightarrow> u8 list \<Rightarrow> 'd world \<Rightarrow> ((rmw_ret \<times> bool \<times> u8 list) \<times> 'd world) result" where
  "take_serdata V tp m A d serialized_message w =
     (case rmw_take_ser_int_from_shm A d serialized_message of (done, serialized_message) \<Rightarrow>
      if done then Inr ((RMW_RET_OK, True, serialized_message), disown SerdataRef w)
      else
        rbind (serdata_rmw_size V tp m d) (\<lambda>(size, d, err).
        case rmw_serialized_message_resize A (unat size) serialized_message of (ret, buffer) \<Rightarrow>
        if ret \<noteq> RMW_RET_OK then Inr ((RMW_RET_ERROR, False, buffer), disown SerdataRef w)
        else rbind (serdata_rmw_to_ser V tp m d 0 (unat size)) (\<lambda>(bytes, d, err).
          Inr ((RMW_RET_OK, True, bytes), disown SerdataRef w))))"

definition rmw_take_ser_int ::
  "env \<Rightarrow> sertype_rmw \<Rightarrow> memory \<Rightarrow> 'd msg_api \<Rightarrow> sub_data \<Rightarrow> u8 list \<Rightarrow> bool \<Rightarrow> 'd world \<Rightarrow>
   ((taken \<times> u8 list) \<times> 'd world) result option" where
  "rmw_take_ser_int V tp m A sub serialized_message with_info w =
     (case take_cdr_loop A (sub_enth sub) w of
        None \<Rightarrow> None
      | Some (None, w) \<Rightarrow> Some (Inr (((RMW_RET_OK, False, None), serialized_message), w))
      | Some (Some (info, d), w) \<Rightarrow>
          let mi = (if with_info then Some (message_info_from_sample_info (machine V) A info (lib w)) else None) in
          Some (rbind (take_serdata V tp m A d serialized_message w) (\<lambda>((ret, taken, bytes), w).
            Inr (((ret, taken, mi), bytes), w))))"

definition rmw_take_serialized_message ::
  "env \<Rightarrow> sertype_rmw \<Rightarrow> memory \<Rightarrow> 'd msg_api \<Rightarrow> sub_data \<Rightarrow> u8 list \<Rightarrow> 'd world \<Rightarrow> ((taken \<times> u8 list) \<times> 'd world) result option" where
  "rmw_take_serialized_message V tp m A sub serialized_message w =
     rmw_take_ser_int V tp m A sub serialized_message False w"

definition rmw_take_serialized_message_with_info ::
  "env \<Rightarrow> sertype_rmw \<Rightarrow> memory \<Rightarrow> 'd msg_api \<Rightarrow> sub_data \<Rightarrow> u8 list \<Rightarrow> 'd world \<Rightarrow> ((taken \<times> u8 list) \<times> 'd world) result option" where
  "rmw_take_serialized_message_with_info V tp m A sub serialized_message w =
     rmw_take_ser_int V tp m A sub serialized_message True w"

section \<open>Loans\<close>

text \<open>Finalising a message needs one of the two introspection libraries.\<close>

definition init_and_alloc_sample :: "'d msg_api \<Rightarrow> dds_entity \<Rightarrow> u32 \<Rightarrow> 'd world \<Rightarrow> ptr option \<times> 'd world" where
  "init_and_alloc_sample A e sample_size w =
     (case dds_request_loan_of_size A e sample_size (lib w) of (p, d) \<Rightarrow>
        (p, case p of None \<Rightarrow> w\<lparr>lib := d\<rparr> | Some p \<Rightarrow> own (Loan p) (w\<lparr>lib := d\<rparr>)))"

definition fini_and_free_sample ::
  "'d msg_api \<Rightarrow> dds_entity \<Rightarrow> (typesupport_identifier \<Rightarrow> message_ts option) \<Rightarrow> ptr \<Rightarrow> 'd world \<Rightarrow> (rmw_ret \<times> 'd world) result" where
  "fini_and_free_sample A e type_supports loaned_message w =
     rbind (case type_supports IntrospectionCpp of
              Some ts \<Rightarrow> Inr (fini_function A ts loaned_message (lib w))
            | None \<Rightarrow> (case type_supports IntrospectionC of
                Some ts \<Rightarrow> Inr (fini_function A ts loaned_message (lib w))
              | None \<Rightarrow> Inl (RuntimeError ''fini_message, unsupported typesupport''))) (\<lambda>d.
     case dds_return_loan A e loaned_message d of (ok, d) \<Rightarrow>
       Inr (if ok then (RMW_RET_OK, disown (Loan loaned_message) (w\<lparr>lib := d\<rparr>)) else (RMW_RET_ERROR, w\<lparr>lib := d\<rparr>)))"

text \<open>The loaned message is returned through a pointer that must be null on input.\<close>

definition rmw_borrow_loaned_message ::
  "'d msg_api \<Rightarrow> bool \<Rightarrow> bool \<Rightarrow> u32 \<Rightarrow> pub_data \<Rightarrow> ptr \<Rightarrow> 'd world \<Rightarrow> (rmw_ret \<times> ptr) \<times> 'd world" where
  "rmw_borrow_loaned_message A can_loan_messages is_loaning_available sample_size pub ros_message w =
     (if \<not> can_loan_messages then ((RMW_RET_UNSUPPORTED, ros_message), w)
      else if ros_message \<noteq> 0 then ((RMW_RET_INVALID_ARGUMENT, ros_message), w)
      else if is_loaning_available then
        (case init_and_alloc_sample A (enth pub) sample_size w of
           (None, w) \<Rightarrow> ((RMW_RET_ERROR, ros_message), w)
         | (Some p, w) \<Rightarrow> ((RMW_RET_OK, p), w))
      else ((RMW_RET_ERROR, ros_message), w))"

definition return_loaned_message ::
  "'d msg_api \<Rightarrow> bool \<Rightarrow> bool \<Rightarrow> dds_entity \<Rightarrow> (typesupport_identifier \<Rightarrow> message_ts option) \<Rightarrow> ptr \<Rightarrow> 'd world \<Rightarrow>
   (rmw_ret \<times> 'd world) result" where
  "return_loaned_message A can_loan_messages is_loaning_available e type_supports loaned_message w =
     (if \<not> can_loan_messages then Inr (RMW_RET_UNSUPPORTED, w)
      else if loaned_message = 0 then Inr (RMW_RET_INVALID_ARGUMENT, w)
      else if is_loaning_available then fini_and_free_sample A e type_supports loaned_message w
      else Inr (RMW_RET_ERROR, w))"

text \<open>The pointer that is passed holds what the previous round left in it.\<close>

partial_function (option) take_loan_loop ::
  "'d msg_api \<Rightarrow> dds_entity \<Rightarrow> ptr \<Rightarrow> 'd \<Rightarrow> ((int \<times> sample_info option \<times> ptr) \<times> 'd) option" where
  "take_loan_loop A rd p d =
     (case dds_take_loan A rd p d of ((nread, info, p), d) \<Rightarrow>
        if nread = 1 then
          (if \<not> si_valid info then take_loan_loop A rd p d else Some ((nread, Some info, p), d))
        else Some ((nread, None, p), d))"

definition rmw_take_loan_int ::
  "endian \<Rightarrow> 'd msg_api \<Rightarrow> bool \<Rightarrow> sub_data \<Rightarrow> ptr \<Rightarrow> bool \<Rightarrow> 'd world \<Rightarrow> ((taken \<times> ptr) \<times> 'd world) option" where
  "rmw_take_loan_int E A can_loan_messages sub loaned_message with_info w =
     (if \<not> can_loan_messages then Some (((RMW_RET_UNSUPPORTED, False, None), loaned_message), w)
      else if loaned_message \<noteq> 0 then Some (((RMW_RET_INVALID_ARGUMENT, False, None), loaned_message), w)
      else case take_loan_loop A (sub_enth sub) loaned_message (lib w) of
        None \<Rightarrow> None
      | Some ((nread, info, p), d) \<Rightarrow>
          let w = (if info \<noteq> None then own (Loan p) (w\<lparr>lib := d\<rparr>) else w\<lparr>lib := d\<rparr>);
              mi = (case info of None \<Rightarrow> None
                | Some info \<Rightarrow> if with_info then Some (message_info_from_sample_info E A info d) else None) in
          Some (((if nread < 0 then RMW_RET_ERROR else RMW_RET_OK, info \<noteq> None, mi), p), w))"

definition rmw_take_loaned_message ::
  "endian \<Rightarrow> 'd msg_api \<Rightarrow> bool \<Rightarrow> sub_data \<Rightarrow> ptr \<Rightarrow> 'd world \<Rightarrow> ((taken \<times> ptr) \<times> 'd world) option" where
  "rmw_take_loaned_message E A can_loan_messages sub loaned_message w =
     rmw_take_loan_int E A can_loan_messages sub loaned_message False w"

definition rmw_take_loaned_message_with_info ::
  "endian \<Rightarrow> 'd msg_api \<Rightarrow> bool \<Rightarrow> sub_data \<Rightarrow> ptr \<Rightarrow> 'd world \<Rightarrow> ((taken \<times> ptr) \<times> 'd world) option" where
  "rmw_take_loaned_message_with_info E A can_loan_messages sub loaned_message w =
     rmw_take_loan_int E A can_loan_messages sub loaned_message True w"

definition rmw_return_loaned_message_from_publisher ::
  "'d msg_api \<Rightarrow> bool \<Rightarrow> bool \<Rightarrow> pub_data \<Rightarrow> (typesupport_identifier \<Rightarrow> message_ts option) \<Rightarrow> ptr \<Rightarrow> 'd world \<Rightarrow>
   (rmw_ret \<times> 'd world) result" where
  "rmw_return_loaned_message_from_publisher A can_loan_messages is_loaning_available pub =
     return_loaned_message A can_loan_messages is_loaning_available (enth pub)"

definition rmw_return_loaned_message_from_subscription ::
  "'d msg_api \<Rightarrow> bool \<Rightarrow> bool \<Rightarrow> sub_data \<Rightarrow> (typesupport_identifier \<Rightarrow> message_ts option) \<Rightarrow> ptr \<Rightarrow> 'd world \<Rightarrow>
   (rmw_ret \<times> 'd world) result" where
  "rmw_return_loaned_message_from_subscription A can_loan_messages is_loaning_available sub =
     return_loaned_message A can_loan_messages is_loaning_available (sub_enth sub)"

section \<open>Serialization by itself\<close>

text \<open>
  When an exception is caught, the buffer and the message are unspecified; the model leaves them as they
  were.  A serialized message is its buffer, whose length is the size after resizing; the value type comes
  from the type support, whose construction may throw.
\<close>

definition rmw_serialize ::
  "endian \<Rightarrow> 'd msg_api \<Rightarrow> abi \<Rightarrow> memory \<Rightarrow> nat \<Rightarrow> type_support \<Rightarrow> u8 list \<Rightarrow> (rmw_ret \<times> u8 list) result" where
  "rmw_serialize E A abi m ros_message ts serialized_message =
     rbind (try_catch
       (rbind (make_message_value_type abi ts) (\<lambda>vt.
        rbind (make_cdr_writer E vt SRSample) (\<lambda>writer.
        rbind (get_serialized_size E writer m ros_message Sample) (\<lambda>size.
        case rmw_serialized_message_resize A size serialized_message of (ret, buffer) \<Rightarrow>
        if ret \<noteq> RMW_RET_OK then Inr (ret, buffer)
        else rbind (writer_serialize E writer m buffer ros_message Sample) (\<lambda>bytes.
          Inr (RMW_RET_OK, take size bytes))))))
       (RMW_RET_ERROR, serialized_message)) (\<lambda>(r, err). Inr r)"

definition rmw_deserialize ::
  "endian \<Rightarrow> runtime \<Rightarrow> abi \<Rightarrow> u8 list \<Rightarrow> type_support \<Rightarrow> top_object \<Rightarrow> (rmw_ret \<times> top_object) result" where
  "rmw_deserialize E rt abi serialized_message ts ros_message =
     rbind (try_catch
       (rbind (make_message_value_type abi ts) (\<lambda>vt.
        rbind (make_cdr_reader vt SRSample) (\<lambda>reader.
        rbind (reader_deserialize E rt reader ros_message serialized_message Sample) (\<lambda>msg.
        Inr (RMW_RET_OK, msg)))))
       (RMW_RET_ERROR, ros_message)) (\<lambda>(r, err). Inr r)"

end
