(* ===== verification/MessageClaims.thy ===== *)
theory MessageClaims
  imports Messages Examples EndpointClaims
begin

text \<open>The properties of publishing and taking messages.\<close>

section \<open>Serialized messages\<close>

lemma serialize_into_exact:
  assumes "env_ok V" "memory_available V" "built (machine V) tp" "sendable (machine V) tp m src (cdrmode (kind d))"
    and "msg = message_of (machine V) tp m src (cdrmode (kind d))"
    and "get_serialized_size (machine V) (cdr_writer_of tp) m src (cdrmode (kind d)) = Inr (length msg)"
  shows "serdata_rmw_serialize_into V tp m src d = Inr (d\<lparr>m_size := length msg + padding 4 (length msg),
    m_data := Some (msg @ zeros (padding 4 (length msg)))\<rparr>, None)"
proof -
  let ?n = "length msg"
  have "?n \<le> UINT32_MAX" using assms(4,5) by (simp add: sendable_def Let_def)
  then have lt: "?n + 3 < SIZE_MOD" by linarith
  have pos: "0 < ?n" using assms(5) by (simp add: length_cdr_message)
  obtain block where block: "alloc V (?n + padding 4 ?n) = Some block" using assms(2) by (auto simp: memory_available_def)
  let ?d = "d\<lparr>m_data := Some (take ?n block @ zeros (padding 4 ?n)), m_size := ?n + padding 4 ?n\<rparr>"
  have rs: "resize V ?n d = Inr ?d" by (rule resize_block [OF assms(1) pos lt block])
  note shape = resize_shape [OF assms(1) lt rs]
  have len: "?n \<le> length (data_bytes ?d)" using shape(2,4) by simp
  have "drop ?n (data_bytes ?d) = zeros (padding 4 ?n)" using shape(5) by simp
  then have wr: "writer_serialize (machine V) (cdr_writer_of tp) m (data_bytes ?d) src (cdrmode (kind d)) = Inr (msg @ zeros (padding 4 ?n))"
    using writer_message [OF assms(3,4), of "data_bytes ?d"] len assms(5) by simp
  show ?thesis unfolding serdata_rmw_serialize_into_def Let_def assms(6) rbind_Inr rs by (simp add: try_catch_def wr)
qed

text \<open>The resizing of a serialized message, as rcutils documents it.\<close>

definition resizes :: "'d msg_api \<Rightarrow> bool" where
  "resizes A \<longleftrightarrow> (\<forall>n buf. 0 < n \<longrightarrow> (\<exists>b. rmw_serialized_message_resize A n buf = (RMW_RET_OK, b) \<and> length b = n))"

lemma rmw_serialize_message:
  assumes "resizes A" "make_message_value_type abi ts = Inr (message_type tp)" "built E tp" "\<not> is_request_header tp"
    and "sendable E tp m src Sample"
    and "get_serialized_size E (cdr_writer_of tp) m src Sample = Inr (length (message_of E tp m src Sample))"
  shows "rmw_serialize E A abi m src ts buf = Inr (RMW_RET_OK, message_of E tp m src Sample)"
proof -
  let ?n = "length (message_of E tp m src Sample)"
  have pos: "0 < ?n" by (simp add: length_cdr_message)
  then obtain b where b: "rmw_serialized_message_resize A ?n buf = (RMW_RET_OK, b)" "length b = ?n"
    using assms(1) by (auto simp: resizes_def)
  have w: "make_cdr_writer E (message_type tp) SRSample = Inr (cdr_writer_of tp)"
    using built_facts(1) [OF assms(3)] assms(4) by simp
  have "writer_serialize E (cdr_writer_of tp) m b src Sample = Inr (message_of E tp m src Sample)"
    using writer_message [OF assms(3,5), of b] b(2) by simp
  then show ?thesis by (simp add: rmw_serialize_def assms(2,6) w b(1) try_catch_def)
qed

lemma from_sample_exact:
  assumes "env_ok V" "memory_available V" "built (machine V) tp"
    and "sendable (machine V) tp m src Sample" "contains_key tp \<Longrightarrow> sendable (machine V) tp m src Key"
    and "get_serialized_size (machine V) (cdr_writer_of tp) m src Sample = Inr (length (message_of (machine V) tp m src Sample))"
    and "serdata_rmw_from_sample V tp SDK_DATA m src = Inr (Some d, None)"
  shows "data_bytes d = message_of (machine V) tp m src Sample
    @ zeros (padding 4 (length (message_of (machine V) tp m src Sample)))"
proof -
  have "\<exists>d0. serdata_rmw_set_key_from_sample V tp m src (serdata_rmw_new tp SDK_DATA) = Inr d0 \<and> kind d0 = SDK_DATA"
  proof (cases "contains_key tp")
    case True
    have "sd_type (serdata_rmw_new tp SDK_DATA) = Some tp" by (simp add: serdata_rmw_new_def)
    then obtain bs k h where "serdata_rmw_set_key_from_sample V tp m src (serdata_rmw_new tp SDK_DATA)
        = Inr ((serdata_rmw_new tp SDK_DATA)\<lparr>m_key := Some bs, m_keysize := k, sd_hash := h\<rparr>)"
      using set_key_from_sample_message [OF assms(1-3) True assms(5) [OF True]] by metis
    then show ?thesis by (simp add: serdata_rmw_new_def)
  next
    case False
    then show ?thesis by (simp add: serdata_rmw_set_key_from_sample_def serdata_rmw_new_def)
  qed
  then obtain d0 where d0: "serdata_rmw_set_key_from_sample V tp m src (serdata_rmw_new tp SDK_DATA) = Inr d0" "kind d0 = SDK_DATA"
    by blast
  have mode: "cdrmode (kind d0) = Sample" using d0(2) by (simp add: cdrmode_def)
  let ?msg = "message_of (machine V) tp m src Sample"
  obtain n bs where into: "serdata_rmw_serialize_into V tp m src d0 = Inr (d0\<lparr>m_size := n, m_data := Some bs\<rparr>, None)"
    and n: "n = length ?msg + padding 4 (length ?msg)" "bs = ?msg @ zeros (padding 4 (length ?msg))"
    using serialize_into_exact [OF assms(1-3), of m src d0, unfolded mode, OF assms(4) refl assms(6)] by blast
  have "serdata_rmw_from_sample V tp SDK_DATA m src = Inr (Some (d0\<lparr>m_size := n, m_data := Some bs\<rparr>), None)"
    unfolding serdata_rmw_from_sample_def serdata_rmw_from_sample_unique_def d0(1) by (simp add: try_catch_def into)
  then have "d = d0\<lparr>m_size := n, m_data := Some bs\<rparr>" using assms(7) by simp
  moreover have "length bs = n" by (simp add: n)
  ultimately have "data_bytes d = bs" by (simp add: data_bytes_def)
  then show ?thesis by (simp only: n(2))
qed


definition ex_msg_api :: "nat msg_api" where
  "ex_msg_api = \<lparr>dds_clock = int, system_clock_now = int, RMW_MESSAGE_INFO_SEQUENCE_NUMBER_UNSUPPORTED = - 1,
     dds_write_at = (\<lambda>_ _ _ d. (0, d)), dds_forwardcdr = (\<lambda>_ _ d. (0, Suc d)),
     dds_take_into = (\<lambda>_ ps n d. ((int n, map (\<lambda>i. \<lparr>si_valid = odd i, si_alive = True, si_publication = 5, si_source = 2\<rparr>) [0..<n]), d)),
     dds_take_loan = (\<lambda>_ p d. ((0, \<lparr>si_valid = False, si_alive = True, si_publication = 0, si_source = 0\<rparr>, p), d)),
     dds_takecdr = (\<lambda>_ d. ((0, \<lparr>si_valid = False, si_alive = True, si_publication = 0, si_source = 0\<rparr>, ex_key_serdata), d)),
     rmw_serialized_message_resize = (\<lambda>n buf. (RMW_RET_OK, take n (buf @ zeros n))),
     dds_request_loan_of_size = (\<lambda>_ _ d. (None, d)), dds_return_loan = (\<lambda>_ _ d. (True, d)), fini_function = (\<lambda>_ _ d. d),
     dds_assert_liveliness = (\<lambda>_ d. (0, d)), dds_wait_for_acks = (\<lambda>_ _ d. (DDS_RETCODE_OK, d)), dds_count_matched = (\<lambda>_ _. 0)\<rparr>"

definition ex_msg_abi :: abi where
  "ex_msg_abi = \<lparr>sizeof_rosidl_String = 24, sizeof_rosidl_U16String = 24, sizeof_std_string = 32, sizeof_std_u16string = 32,
     sizeof_vector_bool = 40, sizeof_SequenceObject = 24, uninitialized_bool = False\<rparr>"

definition ex_ts :: type_support where
  "ex_ts = TypeSupport None (Some (MetaMessage (Some ''pkg__msg'') ''Id'' 4 [MetaMember ''id'' UINT32 (TypeSupport None None) False 0 False 0 True False 0]))"

definition ex_id :: value_type where
  "ex_id = StructValueType \<lparr>size_of = 4, m_has_keys = True, m_is_self_contained = True, m_type_generator = ROSIDL_Cpp\<rparr>
     [Member ''id'' (PrimitiveValueType UINT32) 0 True]"

lemma ex_id_made: "make_message_value_type ex_msg_abi ex_ts = Inr ex_id"
  by (simp add: ex_ts_def ex_id_def rosidlcpp_member_type_def)

lemma ex_id_ok:
  "wf_type ex_id" "inhabited ex_id" "has_keys ex_id" "wf_struct ex_id" "single_arrays w ex_id" "plain_mode w ex_id"
  by (simp_all add: ex_id_def wf_struct_def is_primitive_kind_def plain_mode_def)

lemma ex_id_bounds:
  "compute_serialized_size_bound E ex_id SRSample Sample Min = Inr 8"
  "compute_serialized_size_bound E ex_id SRSample Key Min = Inr 8"
  by (simp_all add: ex_id_def compute_serialized_size_bound_def serialize_size_bound_top_level_def
      put_rtps_header_def checking_ops_def checking_advance_def CheckingSizeCursor_def w_align_def sz_sub_diff_def
      prim_cdralignof_def serialize_u32_def)

lemma ex_id_sendable: "sendable little (ex_sertype little False ex_id) ex_memory 64 what"
proof -
  have "compute_serialized_size_bound little ex_id SRSample what Min = Inr 8" by (cases what) (simp_all add: ex_id_bounds)
  then have "get_min_serialized_size (ex_writer little ex_id SRSample) what = 8"
    using make_cdr_writer_min [OF ex_writer_made, of ex_id little SRSample what] ex_id_ok by simp
  moreover have "fits ex_id (read_obj little ex_memory 64 ex_id)" by (simp add: ex_id_def)
  moreover have "length (cdr_message little ex_memory ex_id SRSample what 64) \<le> 40"
    by (simp add: length_cdr_message cdr_body_def ex_id_def Let_def prim_cdralignof_def padding_def)
  ultimately show ?thesis using ex_id_ok by (simp add: sendable_def top_value_def)
qed


section \<open>Taking\<close>

text \<open>
  What can be observed of a reader: the samples waiting in it, and the message stored at an address.  A
  call that takes one sample takes the first one, stores a valid one at the address given, and leaves
  the others, behind which more may have arrived.
\<close>

record ('x, 'd) msg_view =
  waiting :: "dds_entity \<Rightarrow> 'd \<Rightarrow> (sample_info \<times> 'x) list"
  stored :: "ptr \<Rightarrow> 'd \<Rightarrow> 'x option"

definition takes_first :: "('x, 'd) msg_view \<Rightarrow> 'd msg_api \<Rightarrow> dds_entity \<Rightarrow> bool" where
  "takes_first V A rd \<longleftrightarrow> (\<forall>p d i x q. waiting V rd d = (i, x) # q \<longrightarrow>
     (\<exists>d' new. dds_take_into A rd [p] 1 d = ((1, [i]), d') \<and> waiting V rd d' = q @ new \<and> (si_valid i \<longrightarrow> stored V p d' = Some x)))"

lemma take_loop_first:
  assumes "takes_first V A rd" "waiting V rd d = skipped @ (i, x) # rest" "\<forall>(j, y) \<in> set skipped. \<not> si_valid j" "si_valid i"
  shows "\<exists>d' new. take_loop A rd p d = Some (Some i, d') \<and> waiting V rd d' = rest @ new \<and> stored V p d' = Some x"
  using assms(2,3)
proof (induction skipped arbitrary: d rest)
  case Nil
  then obtain d' new where "dds_take_into A rd [p] 1 d = ((1, [i]), d')" "waiting V rd d' = rest @ new" "stored V p d' = Some x"
    using assms(1,4) unfolding takes_first_def by (metis append_Nil)
  then have "take_loop A rd p d = Some (Some i, d')" by (subst take_loop.simps) (simp add: assms(4))
  then show ?case using \<open>waiting V rd d' = _\<close> \<open>stored V p d' = _\<close> by blast
next
  case (Cons jy skipped)
  obtain j y where jy: "jy = (j, y)" by fastforce
  then obtain d1 new where t: "dds_take_into A rd [p] 1 d = ((1, [j]), d1)" "waiting V rd d1 = (skipped @ (i, x) # rest) @ new"
    using assms(1) Cons.prems(1) unfolding takes_first_def by (metis append_Cons)
  have "\<not> si_valid j" using Cons.prems(2) jy by simp
  moreover obtain d' new' where "take_loop A rd p d1 = Some (Some i, d')" "waiting V rd d' = (rest @ new) @ new'" "stored V p d' = Some x"
    using Cons.IH [of d1 "rest @ new"] t(2) Cons.prems(2) by auto
  ultimately have "take_loop A rd p d = Some (Some i, d')" by (subst take_loop.simps) (simp add: t(1) [simplified])
  then show ?case using \<open>waiting V rd d' = _\<close> \<open>stored V p d' = _\<close> by (intro exI [of _ d'] exI [of _ "new @ new'"]) simp
qed

text \<open>The serialized samples waiting, and that taking one leaves the rest.\<close>

definition takes_first_cdr :: "(dds_entity \<Rightarrow> 'd \<Rightarrow> (sample_info \<times> serdata_rmw) list) \<Rightarrow> 'd msg_api \<Rightarrow> dds_entity \<Rightarrow> bool" where
  "takes_first_cdr W A rd \<longleftrightarrow> (\<forall>d i x q. W rd d = (i, x) # q \<longrightarrow> (\<exists>d' new. dds_takecdr A rd d = ((1, i, x), d') \<and> W rd d' = q @ new))"

lemma take_cdr_loop_first:
  assumes "takes_first_cdr W A rd" "W rd (lib w) = skipped @ (i, x) # rest" "\<forall>(j, y) \<in> set skipped. \<not> si_valid j" "si_valid i"
  shows "\<exists>d' new. take_cdr_loop A rd w = Some (Some (i, x), own SerdataRef (w\<lparr>lib := d'\<rparr>)) \<and> W rd d' = rest @ new"
  using assms(2,3)
proof (induction skipped arbitrary: w rest)
  case Nil
  then obtain d' new where "dds_takecdr A rd (lib w) = ((1, i, x), d')" "W rd d' = rest @ new"
    using assms(1) unfolding takes_first_cdr_def by (metis append_Nil)
  then have "take_cdr_loop A rd w = Some (Some (i, x), own SerdataRef (w\<lparr>lib := d'\<rparr>))"
    by (subst take_cdr_loop.simps) (simp add: assms(4))
  then show ?case using \<open>W rd d' = _\<close> by blast
next
  case (Cons jy skipped)
  obtain j y where jy: "jy = (j, y)" by fastforce
  then obtain d1 new where t: "dds_takecdr A rd (lib w) = ((1, j, y), d1)" "W rd d1 = (skipped @ (i, x) # rest) @ new"
    using assms(1) Cons.prems(1) unfolding takes_first_cdr_def by (metis append_Cons)
  have "\<not> si_valid j" using Cons.prems(2) jy by simp
  moreover obtain d' new' where "take_cdr_loop A rd (w\<lparr>lib := d1\<rparr>) = Some (Some (i, x), own SerdataRef (w\<lparr>lib := d'\<rparr>))"
    "W rd d' = (rest @ new) @ new'"
    using Cons.IH [of "w\<lparr>lib := d1\<rparr>" "rest @ new"] t(2) Cons.prems(2) by auto
  moreover have "disown SerdataRef (own SerdataRef (w\<lparr>lib := d1\<rparr>)) = w\<lparr>lib := d1\<rparr>" by (simp add: own_def disown_def)
  ultimately have "take_cdr_loop A rd w = Some (Some (i, x), own SerdataRef (w\<lparr>lib := d'\<rparr>))"
    by (subst take_cdr_loop.simps) (simp add: t(1))
  then show ?case using \<open>W rd d' = _\<close> by (intro exI [of _ d'] exI [of _ "new @ new'"]) simp
qed

text \<open>
  C30. Taking gives the first valid sample that waits in the reader, whatever invalid ones are before it, and
  they are discarded: \<open>rmw_take_with_info\<close> stores the message at the address given and describes it, and
  \<open>rmw_take_serialized_message\<close> gives the bytes of a sample that is not a loan, padding included, and drops every
  reference to a serialized sample it took.
\<close>

theorem take_first_valid:
  assumes "takes_first V A (sub_enth sub)" "takes_first_cdr W A (sub_enth sub)" "resizes A" "ros_message \<noteq> 0"
    and "waiting V (sub_enth sub) (lib w) = skipped @ (i, x) # rest" "W (sub_enth sub) (lib w) = skipped' @ (i, y) # rest'"
    and "si_valid i" "\<forall>(j, z) \<in> set skipped. \<not> si_valid j" "\<forall>(j, z) \<in> set skipped'. \<not> si_valid j"
    and "loan y = None" "length (data_bytes y) = m_size y" "0 < m_size y" "m_size y \<le> UINT32_MAX"
  shows "(\<exists>d new. rmw_take_with_info E A sub ros_message w
         = Some ((RMW_RET_OK, True, Some (message_info_from_sample_info E A i d)), w\<lparr>lib := d\<rparr>)
       \<and> stored V ros_message d = Some x \<and> waiting V (sub_enth sub) d = rest @ new)
    \<and> (\<exists>d new. rmw_take_serialized_message N tp m A sub buf w
         = Some (Inr (((RMW_RET_OK, True, None), data_bytes y), w\<lparr>lib := d\<rparr>)) \<and> W (sub_enth sub) d = rest' @ new)"
proof
  show "\<exists>d new. rmw_take_with_info E A sub ros_message w
         = Some ((RMW_RET_OK, True, Some (message_info_from_sample_info E A i d)), w\<lparr>lib := d\<rparr>)
       \<and> stored V ros_message d = Some x \<and> waiting V (sub_enth sub) d = rest @ new"
    using take_loop_first [OF assms(1,5,8,7), of ros_message] assms(4)
    by (auto simp: rmw_take_with_info_def rmw_take_int_def)
  obtain d new where t: "take_cdr_loop A (sub_enth sub) w = Some (Some (i, y), own SerdataRef (w\<lparr>lib := d\<rparr>))"
    "W (sub_enth sub) d = rest' @ new" using take_cdr_loop_first [OF assms(2,6,9,7)] by blast
  have u: "unat (of_nat (m_size y) :: u32) = m_size y" using assms(13) by (simp add: unat_of_nat)
  obtain b where b: "rmw_serialized_message_resize A (m_size y) buf = (RMW_RET_OK, b)"
    using assms(3,12) by (auto simp: resizes_def)
  have "take_serdata N tp m A y buf (own SerdataRef (w\<lparr>lib := d\<rparr>))
      = Inr ((RMW_RET_OK, True, data_bytes y), disown SerdataRef (own SerdataRef (w\<lparr>lib := d\<rparr>)))"
    using to_ser_whole [OF assms(10,11), of N tp m] u b assms(10)
    by (simp add: take_serdata_def rmw_take_ser_int_from_shm_def serdata_rmw_size_def serdata_rmw_serialize_into_on_demand_def)
  then have "rmw_take_serialized_message N tp m A sub buf w = Some (Inr (((RMW_RET_OK, True, None), data_bytes y), w\<lparr>lib := d\<rparr>))"
    by (simp add: rmw_take_serialized_message_def rmw_take_ser_int_def t(1) own_def disown_def)
  then show "\<exists>d new. rmw_take_serialized_message N tp m A sub buf w
         = Some (Inr (((RMW_RET_OK, True, None), data_bytes y), w\<lparr>lib := d\<rparr>)) \<and> W (sub_enth sub) d = rest' @ new"
    using t(2) by blast
qed

text \<open>A reader as a pair of queues and a store, for the examples.\<close>

type_synonym ex_queue_state = "(sample_info \<times> nat) list \<times> (ptr \<Rightarrow> nat option) \<times> (sample_info \<times> serdata_rmw) list"

fun ex_take_into :: "dds_entity \<Rightarrow> ptr list \<Rightarrow> nat \<Rightarrow> ex_queue_state \<Rightarrow> (int \<times> sample_info list) \<times> ex_queue_state" where
  "ex_take_into e ps n (q, s, c) =
     ((int (length (take n q)), map fst (take n q)), drop n q, fold (\<lambda>(p, x) s. s(p \<mapsto> x)) (zip ps (map snd (take n q))) s, c)"

definition ex_sample_info :: "bool \<Rightarrow> sample_info" where
  "ex_sample_info valid = \<lparr>si_valid = valid, si_alive = True, si_publication = 5, si_source = 2\<rparr>"

definition ex_sample :: serdata_rmw where
  "ex_sample = (serdata_rmw_new (ex_sertype little False ex_keyed) SDK_DATA)\<lparr>m_size := 8, m_data := Some (rtps_header little @ [1, 2, 3, 4])\<rparr>"

fun ex_takecdr :: "dds_entity \<Rightarrow> ex_queue_state \<Rightarrow> (int \<times> sample_info \<times> serdata_rmw) \<times> ex_queue_state" where
  "ex_takecdr e (q, s, []) = ((0, ex_sample_info False, ex_sample), q, s, [])"
| "ex_takecdr e (q, s, (i, y) # c) = ((1, i, y), q, s, c)"

definition ex_queue_api :: "ex_queue_state msg_api" where
  "ex_queue_api = \<lparr>dds_clock = (\<lambda>_. 0), system_clock_now = (\<lambda>_. 9), RMW_MESSAGE_INFO_SEQUENCE_NUMBER_UNSUPPORTED = - 1,
     dds_write_at = (\<lambda>_ _ _ d. (0, d)), dds_forwardcdr = (\<lambda>_ _ d. (0, d)),
     dds_take_into = ex_take_into, dds_take_loan = (\<lambda>_ p d. ((0, ex_sample_info False, p), d)), dds_takecdr = ex_takecdr,
     rmw_serialized_message_resize = (\<lambda>n buf. (RMW_RET_OK, take n (buf @ zeros n))),
     dds_request_loan_of_size = (\<lambda>_ _ d. (None, d)), dds_return_loan = (\<lambda>_ _ d. (True, d)), fini_function = (\<lambda>_ _ d. d),
     dds_assert_liveliness = (\<lambda>_ d. (0, d)), dds_wait_for_acks = (\<lambda>_ _ d. (DDS_RETCODE_OK, d)), dds_count_matched = (\<lambda>_ _. 0)\<rparr>"

lemma ex_queue_api_simps [simp]:
  "dds_take_into ex_queue_api = ex_take_into" "dds_takecdr ex_queue_api = ex_takecdr" "system_clock_now ex_queue_api d = 9"
  "rmw_serialized_message_resize ex_queue_api n buf = (RMW_RET_OK, take n (buf @ zeros n))"
  "RMW_MESSAGE_INFO_SEQUENCE_NUMBER_UNSUPPORTED ex_queue_api = - 1"
  by (simp_all add: ex_queue_api_def)

definition ex_msg_view :: "(nat, ex_queue_state) msg_view" where
  "ex_msg_view = \<lparr>waiting = (\<lambda>_. fst), stored = (\<lambda>p d. fst (snd d) p)\<rparr>"

lemma ex_queue_laws:
  "takes_first ex_msg_view ex_queue_api e" "takes_first_cdr (\<lambda>_ d. snd (snd d)) ex_queue_api e" "resizes ex_queue_api"
  by (auto simp: takes_first_def takes_first_cdr_def resizes_def ex_msg_view_def min_def)

definition ex_sub :: sub_data where
  "ex_sub = \<lparr>sub_enth = 1, rdcondh = 2, sub_gid = []\<rparr>"

lemma take_first_valid_witness:
  "(\<exists>d mi. rmw_take_with_info little ex_queue_api ex_sub 64
       \<lparr>lib = ([(ex_sample_info False, 3), (ex_sample_info True, 7)], Map.empty, [(ex_sample_info False, ex_key_serdata), (ex_sample_info True, ex_sample)]),
        owned = {#}, next_csid = 0\<rparr> = Some ((RMW_RET_OK, True, Some mi), \<lparr>lib = d, owned = {#}, next_csid = 0\<rparr>)
       \<and> stored ex_msg_view 64 d = Some 7)
   \<and> (\<exists>d. rmw_take_serialized_message (ex_env little) (ex_sertype little False ex_keyed) ex_memory ex_queue_api ex_sub []
       \<lparr>lib = ([(ex_sample_info False, 3), (ex_sample_info True, 7)], Map.empty, [(ex_sample_info False, ex_key_serdata), (ex_sample_info True, ex_sample)]),
        owned = {#}, next_csid = 0\<rparr>
         = Some (Inr (((RMW_RET_OK, True, None), rtps_header little @ [1, 2, 3, 4]), \<lparr>lib = d, owned = {#}, next_csid = 0\<rparr>)))"
proof -
  let ?c = "[(ex_sample_info False, ex_key_serdata), (ex_sample_info True, ex_sample)]"
  let ?w = "\<lparr>lib = ([(ex_sample_info False, 3), (ex_sample_info True, 7)], Map.empty, ?c), owned = {#}, next_csid = 0\<rparr> :: ex_queue_state world"
  have y: "loan ex_sample = None" "data_bytes ex_sample = rtps_header little @ [1, 2, 3, 4]" "m_size ex_sample = 8"
    by (simp_all add: ex_sample_def serdata_rmw_new_def data_bytes_def rtps_header_def)
  have v: "waiting ex_msg_view e (lib ?w) = [(ex_sample_info False, 3)] @ (ex_sample_info True, 7) # []"
    "(\<lambda>_ d. snd (snd d)) e (lib ?w) = [(ex_sample_info False, ex_key_serdata)] @ (ex_sample_info True, ex_sample) # []" for e :: dds_entity
    by (simp_all add: ex_msg_view_def)
  have i: "si_valid (ex_sample_info b) = b" for b by (simp add: ex_sample_info_def)
  have p: "(64::ptr) \<noteq> 0" "si_valid (ex_sample_info True)" "\<forall>(j, z) \<in> set [(ex_sample_info False, 3::nat)]. \<not> si_valid j"
    "\<forall>(j, z) \<in> set [(ex_sample_info False, ex_key_serdata)]. \<not> si_valid j" "loan ex_sample = None"
    "length (data_bytes ex_sample) = m_size ex_sample" "0 < m_size ex_sample" "m_size ex_sample \<le> UINT32_MAX"
    by (simp_all add: y i rtps_header_def)
  note t = take_first_valid [OF ex_queue_laws(1,2,3) p(1) v p(2-8), where E = little
    and N = "ex_env little" and tp = "ex_sertype little False ex_keyed" and m = ex_memory and buf = "[]", unfolded y(2)]
  obtain d d' where
    "rmw_take_with_info little ex_queue_api ex_sub 64 ?w
       = Some ((RMW_RET_OK, True, Some (message_info_from_sample_info little ex_queue_api (ex_sample_info True) d)), ?w\<lparr>lib := d\<rparr>)"
    "stored ex_msg_view 64 d = Some 7"
    "rmw_take_serialized_message (ex_env little) (ex_sertype little False ex_keyed) ex_memory ex_queue_api ex_sub [] ?w
       = Some (Inr (((RMW_RET_OK, True, None), rtps_header little @ [1, 2, 3, 4]), ?w\<lparr>lib := d'\<rparr>))"
    using t [of ex_sub] by (elim conjE exE) blast
  then show ?thesis by (intro conjI exI) simp_all
qed

section \<open>Taking a sequence\<close>

text \<open>The positions at which a list of samples has a valid one, or an invalid one, counted from \<open>ii\<close>.\<close>

definition positions :: "bool \<Rightarrow> nat \<Rightarrow> sample_info list \<Rightarrow> nat list" where
  "positions valid ii infos = map fst (filter (\<lambda>(_, info). si_valid info = valid) (zip [ii..<ii + length infos] infos))"

lemma positions_Nil [simp]: "positions v ii [] = []"
  by (simp add: positions_def)

lemma positions_Cons [simp]:
  "positions v ii (info # infos) = (if si_valid info = v then ii # positions v (Suc ii) infos else positions v (Suc ii) infos)"
proof -
  have "[ii..<ii + length (info # infos)] = ii # [Suc ii..<Suc ii + length infos]" by (subst upt_conv_Cons) simp_all
  then show ?thesis by (simp only: positions_def zip_Cons_Cons) simp
qed

lemma positions_bound: "i \<in> set (positions v ii infos) \<Longrightarrow> ii \<le> i \<and> i < ii + length infos"
  by (induction infos arbitrary: ii) (fastforce split: if_splits)+

lemma length_positions:
  "length (positions True ii infos) = length (filter si_valid infos)"
  "length (positions True ii infos) + length (positions False ii infos) = length infos"
  by (induction infos arbitrary: ii) auto

lemma sort_samples_positions:
  assumes "taken + length (filter si_valid infos) \<le> length mis"
  shows "sort_samples E A d ms ii infos mis taken =
    (map (slot ms) (positions True ii infos), map (slot ms) (positions False ii infos),
     take taken mis @ map (\<lambda>info. message_info_from_sample_info E A info d) (filter si_valid infos)
       @ drop (taken + length (filter si_valid infos)) mis,
     taken + length (filter si_valid infos))"
  using assms
proof (induction infos arbitrary: ii mis taken)
  case (Cons info infos)
  show ?case
  proof (cases "si_valid info")
    case True
    then have "taken < length mis" using Cons.prems by simp
    then show ?thesis using True Cons.prems
      by (simp add: Let_def Cons.IH take_Suc_conv_app_nth [of taken] drop_update_cancel)
  next
    case False
    then show ?thesis using Cons.prems by (simp add: Let_def Cons.IH)
  qed
qed simp

text \<open>
  C31. Taking a sequence loses the messages.  When the arguments are right and Cyclone DDS takes \<open>k\<close> samples, the
  number taken and the information on each are right, those of the valid samples first and in order, and what
  is behind the \<open>k\<close> samples is unchanged; but the pointers to the messages are replaced by the addresses of the
  elements of the array they are in, so that none of the taken messages can be reached through the sequence.
\<close>

theorem take_sequence_loses_messages:
  assumes "0 < n" "n \<le> sequence_capacity ms" "n \<le> infos_capacity mis" "n \<le> UINT32_MAX"
    and "length (sequence_data ms) = sequence_capacity ms" "length (infos_data mis) = infos_capacity mis"
    and "dds_take_into A (sub_enth sub) (sequence_data ms) n (lib w) = ((int k, infos), d)" "length infos = k" "k \<le> n"
  shows "\<exists>ms' mis'. rmw_take_seq E A sub n ms mis w = ((RMW_RET_OK, Some (length (filter si_valid infos)), ms', mis'), w\<lparr>lib := d\<rparr>)
    \<and> infos_data mis' = map (\<lambda>info. message_info_from_sample_info E A info d) (filter si_valid infos)
        @ drop (length (filter si_valid infos)) (infos_data mis)
    \<and> sequence_size ms' = length (filter si_valid infos) \<and> infos_size mis' = sequence_size ms'
    \<and> drop k (sequence_data ms') = drop k (sequence_data ms)
    \<and> take k (sequence_data ms') = map (slot ms) (positions True 0 infos @ positions False 0 infos)
    \<and> (\<forall>i < k. sequence_base ms \<le> sequence_data ms' ! i \<and> sequence_data ms' ! i < sequence_base ms + 8 * sequence_capacity ms)"
proof -
  let ?v = "filter si_valid infos" and ?ps = "positions True 0 infos @ positions False 0 infos"
  let ?mi = "\<lambda>info. message_info_from_sample_info E A info d"
  have kc: "k \<le> length (sequence_data ms)" using assms(2,5,9) by simp
  have "length ?v \<le> k" using assms(8) length_filter_le by blast
  then have "0 + length ?v \<le> length (infos_data mis)" using assms(3,6,9) by simp
  note sorted = sort_samples_positions [OF this, of E A d ms 0]
  have len: "length ?ps = k" using length_positions(2) [of 0 infos] assms(8) by simp
  let ?dat = "store_at (length (positions True 0 infos)) (map (slot ms) (positions False 0 infos))
    (store_at 0 (map (slot ms) (positions True 0 infos)) (sequence_data ms))"
  have dat: "?dat = map (slot ms) ?ps @ drop k (sequence_data ms)"
    using len kc by (simp add: store_at_def add.commute)
  have run: "rmw_take_seq E A sub n ms mis w = ((RMW_RET_OK, Some (length ?v), ms\<lparr>sequence_data := ?dat, sequence_size := length ?v\<rparr>,
      mis\<lparr>infos_data := map ?mi ?v @ drop (length ?v) (infos_data mis), infos_size := length ?v\<rparr>), w\<lparr>lib := d\<rparr>)"
    using assms(1-4,8) by (simp add: rmw_take_seq_def Let_def assms(7) sorted)
  have "sequence_base ms \<le> ?dat ! i \<and> ?dat ! i < sequence_base ms + 8 * sequence_capacity ms" if "i < k" for i
  proof -
    have "?dat ! i = slot ms (?ps ! i)" using that len unfolding dat by (simp add: nth_append del: map_append)
    moreover have "?ps ! i \<in> set ?ps" using that len by (metis nth_mem)
    then have "?ps ! i < k" using positions_bound [of "?ps ! i" _ 0 infos] assms(8) by auto
    ultimately show ?thesis using assms(2,9) by (simp add: slot_def)
  qed
  then show ?thesis unfolding run using dat len by (intro exI conjI) (rule refl | simp)+
qed

lemma take_sequence_loses_messages_witness:
  "\<exists>ms' mis' d. rmw_take_seq little ex_queue_api ex_sub 2 \<lparr>sequence_base = 4096, sequence_data = [64, 72, 80], sequence_size = 0, sequence_capacity = 3\<rparr>
       \<lparr>infos_data = replicate 3 (message_info_from_sample_info little ex_queue_api (ex_sample_info False) ([], Map.empty, [])), infos_size = 0, infos_capacity = 3\<rparr>
       \<lparr>lib = ([(ex_sample_info False, 3), (ex_sample_info True, 7)], Map.empty, []), owned = {#}, next_csid = 0\<rparr>
     = ((RMW_RET_OK, Some 1, ms', mis'), \<lparr>lib = d, owned = {#}, next_csid = 0\<rparr>)
   \<and> stored ex_msg_view 72 d = Some 7 \<and> take 2 (sequence_data ms') = [4104, 4096]"
proof -
  let ?ms = "\<lparr>sequence_base = 4096, sequence_data = [64, 72, 80], sequence_size = 0, sequence_capacity = 3\<rparr>"
  let ?mi = "message_info_from_sample_info little ex_queue_api (ex_sample_info False) ([], Map.empty, [])"
  let ?mis = "\<lparr>infos_data = replicate 3 ?mi, infos_size = 0, infos_capacity = 3\<rparr>"
  let ?w = "\<lparr>lib = ([(ex_sample_info False, 3), (ex_sample_info True, 7)], Map.empty, []), owned = {#}, next_csid = 0\<rparr> :: ex_queue_state world"
  let ?d = "([], Map.empty(64 \<mapsto> 3, 72 \<mapsto> 7), []) :: ex_queue_state"
  have t: "dds_take_into ex_queue_api (sub_enth ex_sub) (sequence_data ?ms) 2 (lib ?w) = ((int 2, [ex_sample_info False, ex_sample_info True]), ?d)"
    by simp
  have "si_valid (ex_sample_info v) = v" for v by (simp add: ex_sample_info_def)
  then show ?thesis
    using take_sequence_loses_messages [of 2 ?ms ?mis ex_queue_api ex_sub ?w 2 "[ex_sample_info False, ex_sample_info True]" ?d little] t
    by (auto simp: slot_def ex_msg_view_def)
qed

section \<open>Loans\<close>

lemma take_loan_loop_valid:
  assumes "take_loan_loop A rd p d = Some ((nread, info, q), d')"
  shows "info \<noteq> None \<longrightarrow> nread = 1"
proof -
  have "case r of ((nread, info, q), d) \<Rightarrow> info \<noteq> None \<longrightarrow> nread = (1::int)" if "take_loan_loop A rd p d = Some r" for r
    using that by (rule take_loan_loop.raw_induct [rotated]) (fastforce split: prod.splits if_splits)
  then show ?thesis using assms by fastforce
qed


definition ex_loan_api :: "nat msg_api" where
  "ex_loan_api = ex_msg_api\<lparr>dds_request_loan_of_size := (\<lambda>_ _ d. (Some 128, d))\<rparr>"

lemma ex_loan_api_simps [simp]:
  "dds_request_loan_of_size ex_loan_api e n d = (Some 128, d)" "dds_write_at ex_loan_api e p t d = (0, d)"
  by (simp_all add: ex_loan_api_def ex_msg_api_def)


end
