(* ===== verification/Discovery.thy ===== *)
theory Discovery
  imports Messages
begin

text \<open>
  The discovery thread of \<^verbatim>\<open>rmw_node.cpp\<close>: it takes the samples of the built-in topics of Cyclone DDS and of
  the topic on which participants announce their nodes, and keeps the graph cache of rmw_dds_common up
  to date.  The graph cache and Cyclone DDS are functions on an abstract state.
\<close>

section \<open>Samples of the built-in topics\<close>

record builtin_participant =
  bp_key :: gid
  bp_qos :: "dds_qos option"

record builtin_endpoint =
  be_key :: gid
  be_participant_key :: gid
  be_topic_name :: string
  be_type_name :: string
  be_endpoint_qos :: dds_qos

text \<open>What the graph cache is told of an endpoint.\<close>

record entity_info =
  ei_topic :: string
  ei_type :: string
  ei_type_hash :: string
  ei_participant :: gid
  ei_qos :: rmw_qos_profile
  ei_ser_type_hash :: "string option"

text \<open>
  A call that takes a sample gives its return value, the sample information, the loan and what is in it.
  A hash that cannot be parsed is \<open>None\<close>.
\<close>

record 'd disc_api =
  take_builtin_participant :: "dds_entity \<Rightarrow> 'd \<Rightarrow> (int \<times> sample_info \<times> ptr \<times> builtin_participant) \<times> 'd"
  take_builtin_endpoint :: "dds_entity \<Rightarrow> 'd \<Rightarrow> (int \<times> sample_info \<times> ptr \<times> builtin_endpoint) \<times> 'd"
  return_builtin_loan :: "dds_entity \<Rightarrow> ptr \<Rightarrow> 'd \<Rightarrow> 'd"
  key_values :: "string \<Rightarrow> string \<Rightarrow> string option"
  parse_type_hash :: "string \<Rightarrow> string option"
  parse_sertype_hash :: "string \<Rightarrow> string option"
  zero_type_hash :: string
  rmw_qos_profile_unknown :: rmw_qos_profile
  update_participant_entities :: "ptr \<Rightarrow> 'd \<Rightarrow> 'd"
  add_participant :: "gid \<Rightarrow> string \<Rightarrow> 'd \<Rightarrow> 'd"
  remove_participant :: "gid \<Rightarrow> 'd \<Rightarrow> 'd"
  add_entity :: "gid \<Rightarrow> entity_info \<Rightarrow> bool \<Rightarrow> 'd \<Rightarrow> 'd"
  remove_entity :: "gid \<Rightarrow> bool \<Rightarrow> 'd \<Rightarrow> 'd"
  create_disc_waitset :: "'d \<Rightarrow> int \<times> 'd"
  delete_disc_waitset :: "dds_entity \<Rightarrow> 'd \<Rightarrow> 'd"
  set_data_available_mask :: "dds_entity \<Rightarrow> 'd \<Rightarrow> int \<times> 'd"
  attach_to_waitset :: "dds_entity \<Rightarrow> dds_entity \<Rightarrow> nat \<Rightarrow> 'd \<Rightarrow> int \<times> 'd"
  wait_on_waitset :: "dds_entity \<Rightarrow> nat \<Rightarrow> 'd \<Rightarrow> (int \<times> nat list) \<times> 'd"
  keeps_running :: "'d \<Rightarrow> bool"

section \<open>Identifiers and user data\<close>

definition convert_guid_to_gid :: "u8 list \<Rightarrow> gid" where
  "convert_guid_to_gid v = v @ replicate (16 - length v) 0"

definition discovered_user_data :: "'d disc_api \<Rightarrow> dds_qos \<Rightarrow> string \<Rightarrow> string option" where
  "discovered_user_data A qos = (case q_userdata qos of None \<Rightarrow> Map.empty | Some ud \<Rightarrow> key_values A ud)"

definition discovered_user_data_key :: "'d disc_api \<Rightarrow> dds_qos option \<Rightarrow> string \<Rightarrow> string option" where
  "discovered_user_data_key A qos key = (case qos of None \<Rightarrow> None | Some q \<Rightarrow> discovered_user_data A q key)"

section \<open>The handlers\<close>

text \<open>\<open>msg\<close> is the address of the local message.\<close>

partial_function (option) handle_ParticipantEntitiesInfo ::
  "endian \<Rightarrow> 'd msg_api \<Rightarrow> 'd disc_api \<Rightarrow> sub_data \<Rightarrow> ptr \<Rightarrow> 'd world \<Rightarrow> 'd world option" where
  "handle_ParticipantEntitiesInfo E M A sub msg w =
     (case rmw_take E M sub msg w of
        None \<Rightarrow> None
      | Some ((ret, taken, _), w) \<Rightarrow>
          if ret = RMW_RET_OK \<and> taken
          then handle_ParticipantEntitiesInfo E M A sub msg (w\<lparr>lib := update_participant_entities A msg (lib w)\<rparr>)
          else Some w)"

definition participant_sample :: "'d disc_api \<Rightarrow> gid \<Rightarrow> sample_info \<Rightarrow> builtin_participant \<Rightarrow> 'd \<Rightarrow> 'd" where
  "participant_sample A common_gid si s d =
     (let gid = convert_guid_to_gid (bp_key s) in
      if gid = common_gid then d
      else if \<not> si_alive si then remove_participant A gid d
      else if si_valid si then
        (case discovered_user_data_key A (bp_qos s) ''enclave'' of
           None \<Rightarrow> d
         | Some enclave \<Rightarrow> add_participant A gid enclave d)
      else d)"

partial_function (option) handle_DCPSParticipant ::
  "'d disc_api \<Rightarrow> gid \<Rightarrow> dds_entity \<Rightarrow> 'd world \<Rightarrow> 'd world option" where
  "handle_DCPSParticipant A common_gid reader w =
     (case take_builtin_participant A reader (lib w) of ((n, si, raw, s), d) \<Rightarrow>
      let w = w\<lparr>lib := d\<rparr> in
      if n = 1 then
        (let w = own (Loan raw) w;
             w = w\<lparr>lib := participant_sample A common_gid si s (lib w)\<rparr>;
             w = disown (Loan raw) (w\<lparr>lib := return_builtin_loan A reader raw (lib w)\<rparr>) in
         handle_DCPSParticipant A common_gid reader w)
      else Some w)"

text \<open>The result of \<open>dds_qos_to_rmw_qos\<close> is not looked at: on an error the profile is what it had become.\<close>

definition discovered_qos :: "'d disc_api \<Rightarrow> rmw_lib \<Rightarrow> dds_qos \<Rightarrow> rmw_qos_profile" where
  "discovered_qos A L qos =
     (case dds_qos_to_rmw_qos L qos (rmw_qos_profile_unknown A) of Inl (_, p) \<Rightarrow> p | Inr p \<Rightarrow> p)"

definition discovered_hashes :: "'d disc_api \<Rightarrow> dds_qos \<Rightarrow> string \<times> string option" where
  "discovered_hashes A qos =
     (case q_userdata qos of
        None \<Rightarrow> (zero_type_hash A, None)
      | Some userdata \<Rightarrow>
          ((case parse_type_hash A userdata of None \<Rightarrow> zero_type_hash A | Some h \<Rightarrow> h), parse_sertype_hash A userdata))"

definition endpoint_sample :: "'d disc_api \<Rightarrow> rmw_lib \<Rightarrow> bool \<Rightarrow> sample_info \<Rightarrow> builtin_endpoint \<Rightarrow> 'd \<Rightarrow> 'd" where
  "endpoint_sample A L is_reader si s d =
     (let gid = convert_guid_to_gid (be_key s) in
      if \<not> si_alive si then remove_entity A gid is_reader d
      else if si_valid si \<and> \<not> prefix ''DCPS'' (be_topic_name s) then
        (case discovered_hashes A (be_endpoint_qos s) of (type_hash, ser_type_hash) \<Rightarrow>
         add_entity A gid
           \<lparr>ei_topic = be_topic_name s, ei_type = be_type_name s, ei_type_hash = type_hash,
            ei_participant = convert_guid_to_gid (be_participant_key s), ei_qos = discovered_qos A L (be_endpoint_qos s),
            ei_ser_type_hash = ser_type_hash\<rparr> is_reader d)
      else d)"

partial_function (option) handle_builtintopic_endpoint ::
  "'d disc_api \<Rightarrow> rmw_lib \<Rightarrow> dds_entity \<Rightarrow> bool \<Rightarrow> 'd world \<Rightarrow> 'd world option" where
  "handle_builtintopic_endpoint A L reader is_reader w =
     (case take_builtin_endpoint A reader (lib w) of ((n, si, raw, s), d) \<Rightarrow>
      let w = w\<lparr>lib := d\<rparr> in
      if n = 1 then
        (let w = own (Loan raw) w;
             w = w\<lparr>lib := endpoint_sample A L is_reader si s (lib w)\<rparr>;
             w = disown (Loan raw) (w\<lparr>lib := return_builtin_loan A reader raw (lib w)\<rparr>) in
         handle_builtintopic_endpoint A L reader is_reader w)
      else Some w)"

definition handle_DCPSSubscription :: "'d disc_api \<Rightarrow> rmw_lib \<Rightarrow> dds_entity \<Rightarrow> 'd world \<Rightarrow> 'd world option" where
  "handle_DCPSSubscription A L reader w = handle_builtintopic_endpoint A L reader True w"

definition handle_DCPSPublication :: "'d disc_api \<Rightarrow> rmw_lib \<Rightarrow> dds_entity \<Rightarrow> 'd world \<Rightarrow> 'd world option" where
  "handle_DCPSPublication A L reader w = handle_builtintopic_endpoint A L reader False w"

section \<open>The thread\<close>

text \<open>
  The entities the thread waits for, each with its handler; the guard condition that wakes the thread up
  to end has none.
\<close>

record disc_context =
  dc_guard :: dds_entity
  dc_sub :: sub_data
  dc_gid :: gid
  rd_participant :: dds_entity
  rd_subscription :: dds_entity
  rd_publication :: dds_entity

type_synonym 'd disc_entry = "dds_entity \<times> ('d world \<Rightarrow> 'd world option) option"

definition disc_entries ::
  "endian \<Rightarrow> 'd msg_api \<Rightarrow> 'd disc_api \<Rightarrow> rmw_lib \<Rightarrow> ptr \<Rightarrow> disc_context \<Rightarrow> 'd disc_entry list" where
  "disc_entries E M A L msg impl =
     [(dc_guard impl, None),
      (sub_enth (dc_sub impl), Some (handle_ParticipantEntitiesInfo E M A (dc_sub impl) msg)),
      (rd_participant impl, Some (handle_DCPSParticipant A (dc_gid impl) (rd_participant impl))),
      (rd_subscription impl, Some (handle_DCPSSubscription A L (rd_subscription impl))),
      (rd_publication impl, Some (handle_DCPSPublication A L (rd_publication impl)))]"

text \<open>Attaching the entries, from number \<open>i\<close> on; the flag says whether the thread goes on.\<close>

fun attach_entries :: "'d disc_api \<Rightarrow> dds_entity \<Rightarrow> nat \<Rightarrow> 'd disc_entry list \<Rightarrow> 'd world \<Rightarrow> bool \<times> 'd world" where
  "attach_entries A ws i [] w = (True, w)"
| "attach_entries A ws i ((e, h) # entries) w =
     (case (if h \<noteq> None then set_data_available_mask A e (lib w) else (0, lib w)) of (n, d) \<Rightarrow>
      let w = w\<lparr>lib := d\<rparr> in
      if n < 0 then (False, w)
      else case attach_to_waitset A ws e i (lib w) of (n, d) \<Rightarrow>
        let w = w\<lparr>lib := d\<rparr> in
        if n < 0 then (False, disown (DiscoveryWaitset ws) (w\<lparr>lib := delete_disc_waitset A ws (lib w)\<rparr>))
        else attach_entries A ws (Suc i) entries w)"

text \<open>The handlers of the entries that were triggered.\<close>

fun run_handlers :: "'d disc_entry list \<Rightarrow> nat list \<Rightarrow> 'd world \<Rightarrow> 'd world option" where
  "run_handlers entries [] w = Some w"
| "run_handlers entries (x # xs) w =
     (case snd (entries ! x) of
        None \<Rightarrow> run_handlers entries xs w
      | Some h \<Rightarrow> (case h w of None \<Rightarrow> None | Some w \<Rightarrow> run_handlers entries xs w))"

partial_function (option) discovery_loop :: "'d disc_api \<Rightarrow> 'd disc_entry list \<Rightarrow> dds_entity \<Rightarrow> 'd world \<Rightarrow> 'd world option" where
  "discovery_loop A entries ws w =
     (if keeps_running A (lib w) then
        (case wait_on_waitset A ws 5 (lib w) of ((n, xs), d) \<Rightarrow>
         let w = w\<lparr>lib := d\<rparr> in
         if n < 0 then Some w
         else (case run_handlers entries (take (nat n) xs) w of
                 None \<Rightarrow> None
               | Some w \<Rightarrow> discovery_loop A entries ws w))
      else Some (disown (DiscoveryWaitset ws) (w\<lparr>lib := delete_disc_waitset A ws (lib w)\<rparr>)))"

definition discovery_thread ::
  "endian \<Rightarrow> 'd msg_api \<Rightarrow> 'd disc_api \<Rightarrow> rmw_lib \<Rightarrow> ptr \<Rightarrow> disc_context \<Rightarrow> 'd world \<Rightarrow> 'd world option" where
  "discovery_thread E M A L msg impl w =
     (case create_disc_waitset A (lib w) of (ws, d) \<Rightarrow>
      let w = w\<lparr>lib := d\<rparr> in
      if ws < 0 then Some w
      else
        let entries = disc_entries E M A L msg impl in
        (case attach_entries A ws 0 entries (own (DiscoveryWaitset ws) w) of (ok, w) \<Rightarrow>
         if ok then discovery_loop A entries ws w else Some w))"

end
