(* ===== verification/DiscoveryClaims.thy ===== *)
theory DiscoveryClaims
  imports Discovery MessageClaims
begin

text \<open>
  What discovery achieves: the graph cache follows the samples, and the thread ends when it is told to and
  gives back what it took.
\<close>

section \<open>What is relied on\<close>

text \<open>
  What can be observed: the samples still to be taken from a reader of a built-in topic, those of the
  topic of announcements, what the graph cache knows, and how often the thread will still be woken up
  before it is told to end.
\<close>

record 'd disc_view =
  participants_due :: "dds_entity \<Rightarrow> 'd \<Rightarrow> (sample_info \<times> ptr \<times> builtin_participant) list"
  endpoints_due :: "dds_entity \<Rightarrow> 'd \<Rightarrow> (sample_info \<times> ptr \<times> builtin_endpoint) list"
  announcements_due :: "'d \<Rightarrow> sample_info list"
  known_entity :: "bool \<Rightarrow> 'd \<Rightarrow> gid \<Rightarrow> entity_info option"
  known_enclave :: "'d \<Rightarrow> gid \<Rightarrow> string option"
  wakeups :: "'d \<Rightarrow> nat"

definition same_known :: "'d disc_view \<Rightarrow> 'd \<Rightarrow> 'd \<Rightarrow> bool" where
  "same_known V d d' \<longleftrightarrow> (\<forall>r. known_entity V r d' = known_entity V r d) \<and> known_enclave V d' = known_enclave V d"

definition same_due :: "'d disc_view \<Rightarrow> 'd \<Rightarrow> 'd \<Rightarrow> bool" where
  "same_due V d d' \<longleftrightarrow> (\<forall>e. participants_due V e d' = participants_due V e d \<and> endpoints_due V e d' = endpoints_due V e d)"

text \<open>Samples are given one after the other, and then another number than one is returned.\<close>

definition gives_next :: "(dds_entity \<Rightarrow> 'd \<Rightarrow> (sample_info \<times> ptr \<times> 's) list) \<Rightarrow>
    (dds_entity \<Rightarrow> 'd \<Rightarrow> (int \<times> sample_info \<times> ptr \<times> 's) \<times> 'd) \<Rightarrow> 'd disc_view \<Rightarrow> bool" where
  "gives_next due tk V \<longleftrightarrow> (\<forall>e d. same_known V d (snd (tk e d)) \<and>
     (due e d = [] \<longrightarrow> fst (fst (tk e d)) \<noteq> 1 \<and> due e (snd (tk e d)) = []) \<and>
     (\<forall>x q. due e d = x # q \<longrightarrow> fst (tk e d) = (1, x) \<and> due e (snd (tk e d)) = q))"

definition disc_samples :: "'d disc_view \<Rightarrow> 'd disc_api \<Rightarrow> bool" where
  "disc_samples V A \<longleftrightarrow> gives_next (endpoints_due V) (take_builtin_endpoint A) V
     \<and> gives_next (participants_due V) (take_builtin_participant A) V
     \<and> (\<forall>e p d. same_due V d (return_builtin_loan A e p d) \<and> same_known V d (return_builtin_loan A e p d))"

text \<open>
  The graph cache: adding an endpoint that is known changes nothing, as rmw_dds_common documents; readers
  and writers are kept apart.
\<close>

definition cache_spec :: "'d disc_view \<Rightarrow> 'd disc_api \<Rightarrow> bool" where
  "cache_spec V A \<longleftrightarrow> (\<forall>g d.
     (\<forall>enclave. same_due V d (add_participant A g enclave d)
        \<and> known_enclave V (add_participant A g enclave d) = (known_enclave V d)(g \<mapsto> enclave)
        \<and> (\<forall>r. known_entity V r (add_participant A g enclave d) = known_entity V r d))
     \<and> same_due V d (remove_participant A g d)
     \<and> known_enclave V (remove_participant A g d) = (known_enclave V d)(g := None)
     \<and> (\<forall>r. known_entity V r (remove_participant A g d) = known_entity V r d)
     \<and> (\<forall>i r. same_due V d (add_entity A g i r d)
        \<and> known_enclave V (add_entity A g i r d) = known_enclave V d
        \<and> known_entity V r (add_entity A g i r d) = (if known_entity V r d g = None then (known_entity V r d)(g \<mapsto> i) else known_entity V r d)
        \<and> known_entity V (\<not> r) (add_entity A g i r d) = known_entity V (\<not> r) d)
     \<and> (\<forall>r. same_due V d (remove_entity A g r d)
        \<and> known_enclave V (remove_entity A g r d) = known_enclave V d
        \<and> known_entity V r (remove_entity A g r d) = (known_entity V r d)(g := None)
        \<and> known_entity V (\<not> r) (remove_entity A g r d) = known_entity V (\<not> r) d))"

text \<open>
  Announcements run out like other samples; a wait returns as long as the thread is to run, with numbers that were
  attached, and there are only so many wake-ups before the thread is told to end.
\<close>

definition announcements_spec :: "'d disc_view \<Rightarrow> 'd msg_api \<Rightarrow> 'd disc_api \<Rightarrow> dds_entity \<Rightarrow> bool" where
  "announcements_spec V M A e \<longleftrightarrow> (\<forall>p d.
     (announcements_due V d = [] \<longrightarrow> fst (fst (dds_take_into M e [p] 1 d)) \<noteq> 1)
     \<and> (\<forall>i q. announcements_due V d = i # q \<longrightarrow>
          fst (dds_take_into M e [p] 1 d) = (1, [i]) \<and> announcements_due V (snd (dds_take_into M e [p] 1 d)) = q)
     \<and> announcements_due V (update_participant_entities A p d) = announcements_due V d
     \<and> wakeups V (snd (dds_take_into M e [p] 1 d)) = wakeups V d
     \<and> wakeups V (update_participant_entities A p d) = wakeups V d)"

definition wakeups_spec :: "'d disc_view \<Rightarrow> 'd disc_api \<Rightarrow> bool" where
  "wakeups_spec V A \<longleftrightarrow>
     (\<forall>e d. wakeups V (snd (take_builtin_endpoint A e d)) = wakeups V d
        \<and> wakeups V (snd (take_builtin_participant A e d)) = wakeups V d)
     \<and> (\<forall>e p d. wakeups V (return_builtin_loan A e p d) = wakeups V d)
     \<and> (\<forall>g x d. wakeups V (add_participant A g x d) = wakeups V d \<and> wakeups V (remove_participant A g d) = wakeups V d)
     \<and> (\<forall>g i r d. wakeups V (add_entity A g i r d) = wakeups V d \<and> wakeups V (remove_entity A g r d) = wakeups V d)
     \<and> (\<forall>ws d. keeps_running A d \<longrightarrow> (\<exists>n xs d'. wait_on_waitset A ws 5 d = ((n, xs), d')
          \<and> 0 \<le> n \<and> set xs \<subseteq> {..<5} \<and> wakeups V d' < wakeups V d))"

lemma gives_nextD:
  assumes "gives_next due tk V"
  shows "due e d = [] \<Longrightarrow> fst (fst (tk e d)) \<noteq> 1 \<and> due e (snd (tk e d)) = []"
    and "due e d = x # q \<Longrightarrow> fst (tk e d) = (1, x) \<and> due e (snd (tk e d)) = q"
    and "same_known V d (snd (tk e d))"
  using assms unfolding gives_next_def by blast+

lemma disc_samplesD:
  assumes "disc_samples V A"
  shows "gives_next (endpoints_due V) (take_builtin_endpoint A) V" "gives_next (participants_due V) (take_builtin_participant A) V"
    and "same_due V d (return_builtin_loan A e p d)" "same_known V d (return_builtin_loan A e p d)"
  using assms unfolding disc_samples_def by blast+

section \<open>A small instance\<close>

text \<open>Queues of samples, a cache as maps, and a number of wake-ups, for the examples.\<close>

record ex_discovered =
  part_q :: "dds_entity \<Rightarrow> (sample_info \<times> ptr \<times> builtin_participant) list"
  end_q :: "dds_entity \<Rightarrow> (sample_info \<times> ptr \<times> builtin_endpoint) list"
  ann_q :: "sample_info list"
  ents :: "bool \<Rightarrow> gid \<Rightarrow> entity_info option"
  encl :: "gid \<Rightarrow> string option"
  ticks :: nat

definition ex_participant :: "u8 \<Rightarrow> string option \<Rightarrow> builtin_participant" where
  "ex_participant k ud = \<lparr>bp_key = [k], bp_qos = Some (dds_create_qos\<lparr>q_userdata := ud\<rparr>)\<rparr>"

definition ex_endpoint :: "u8 \<Rightarrow> string \<Rightarrow> builtin_endpoint" where
  "ex_endpoint k topic = \<lparr>be_key = [k], be_participant_key = [1], be_topic_name = topic, be_type_name = ''std_msgs::msg::dds_::String_'',
     be_endpoint_qos = dds_create_qos\<rparr>"

definition ex_gone :: sample_info where
  "ex_gone = \<lparr>si_valid = False, si_alive = False, si_publication = 5, si_source = 2\<rparr>"

definition ex_disc_api :: "ex_discovered disc_api" where
  "ex_disc_api =
     \<lparr>take_builtin_participant = (\<lambda>e d. case part_q d e of [] \<Rightarrow> ((0, ex_gone, 0, ex_participant 0 None), d)
        | x # q \<Rightarrow> ((1, x), d\<lparr>part_q := (part_q d)(e := q)\<rparr>)),
      take_builtin_endpoint = (\<lambda>e d. case end_q d e of [] \<Rightarrow> ((0, ex_gone, 0, ex_endpoint 0 []), d)
        | x # q \<Rightarrow> ((1, x), d\<lparr>end_q := (end_q d)(e := q)\<rparr>)),
      return_builtin_loan = (\<lambda>_ _ d. d),
      key_values = (\<lambda>ud key. if ud = ''enclave=/home;'' \<and> key = ''enclave'' then Some ''/home'' else None),
      parse_type_hash = (\<lambda>_. None), parse_sertype_hash = (\<lambda>_. None), zero_type_hash = [],
      rmw_qos_profile_unknown = ex_profile,
      update_participant_entities = (\<lambda>_ d. d),
      add_participant = (\<lambda>g x d. d\<lparr>encl := (encl d)(g \<mapsto> x)\<rparr>),
      remove_participant = (\<lambda>g d. d\<lparr>encl := (encl d)(g := None)\<rparr>),
      add_entity = (\<lambda>g i r d. if ents d r g = None then d\<lparr>ents := (ents d)(r := (ents d r)(g \<mapsto> i))\<rparr> else d),
      remove_entity = (\<lambda>g r d. d\<lparr>ents := (ents d)(r := (ents d r)(g := None))\<rparr>),
      create_disc_waitset = (\<lambda>d. (4, d)), delete_disc_waitset = (\<lambda>_ d. d),
      set_data_available_mask = (\<lambda>_ d. (0, d)), attach_to_waitset = (\<lambda>_ _ _ d. (0, d)),
      wait_on_waitset = (\<lambda>_ _ d. ((2, [1, 3, 0, 0, 0]), d\<lparr>ticks := ticks d - 1\<rparr>)), keeps_running = (\<lambda>d. 0 < ticks d)\<rparr>"

definition ex_disc_view :: "ex_discovered disc_view" where
  "ex_disc_view = \<lparr>participants_due = (\<lambda>e d. part_q d e), endpoints_due = (\<lambda>e d. end_q d e), announcements_due = ann_q,
     known_entity = (\<lambda>r d. ents d r), known_enclave = encl, wakeups = ticks\<rparr>"

definition ex_disc_msg_api :: "ex_discovered msg_api" where
  "ex_disc_msg_api = \<lparr>dds_clock = (\<lambda>_. 0), system_clock_now = (\<lambda>_. 9), RMW_MESSAGE_INFO_SEQUENCE_NUMBER_UNSUPPORTED = - 1,
     dds_write_at = (\<lambda>_ _ _ d. (0, d)), dds_forwardcdr = (\<lambda>_ _ d. (0, d)),
     dds_take_into = (\<lambda>_ _ _ d. case ann_q d of [] \<Rightarrow> ((0, []), d) | i # q \<Rightarrow> ((1, [i]), d\<lparr>ann_q := q\<rparr>)),
     dds_take_loan = (\<lambda>_ p d. ((0, ex_gone, p), d)), dds_takecdr = (\<lambda>_ d. ((0, ex_gone, ex_sample), d)),
     rmw_serialized_message_resize = (\<lambda>n buf. (RMW_RET_OK, take n (buf @ zeros n))),
     dds_request_loan_of_size = (\<lambda>_ _ d. (None, d)), dds_return_loan = (\<lambda>_ _ d. (True, d)), fini_function = (\<lambda>_ _ d. d),
     dds_assert_liveliness = (\<lambda>_ d. (0, d)), dds_wait_for_acks = (\<lambda>_ _ d. (DDS_RETCODE_OK, d)), dds_count_matched = (\<lambda>_ _. 0)\<rparr>"

lemma ex_disc_laws:
  "disc_samples ex_disc_view ex_disc_api" "cache_spec ex_disc_view ex_disc_api" "wakeups_spec ex_disc_view ex_disc_api"
  "announcements_spec ex_disc_view ex_disc_msg_api ex_disc_api e"
  by (auto simp: disc_samples_def gives_next_def same_known_def same_due_def cache_spec_def wakeups_spec_def announcements_spec_def
      ex_disc_view_def ex_disc_api_def ex_disc_msg_api_def split: list.splits)

definition ex_start :: "ex_discovered world" where
  "ex_start = \<lparr>lib = \<lparr>part_q = (\<lambda>_. [(ex_sample_info True, 8, ex_participant 3 (Some ''enclave=/home;'')), (ex_sample_info True, 8, ex_participant 5 None),
       (ex_gone, 8, ex_participant 2 None)]),
     end_q = (\<lambda>_. [(ex_sample_info True, 8, ex_endpoint 7 ''rt/chatter''), (ex_sample_info True, 8, ex_endpoint 9 ''rt/chatter''),
       (ex_sample_info True, 8, ex_endpoint 11 ''DCPSTopic''), (ex_gone, 8, ex_endpoint 9 [])]),
     ann_q = [ex_sample_info True, ex_sample_info False], ents = (\<lambda>_ _. None), encl = (\<lambda>g. if hd g = 2 then Some [] else None), ticks = 3\<rparr>,
     owned = {#}, next_csid = 0\<rparr>"

definition ex_gid :: "u8 \<Rightarrow> gid" where
  "ex_gid k = convert_guid_to_gid [k]"

lemma ex_gid_eq: "(convert_guid_to_gid [j] = ex_gid k) = (j = k)" "hd (ex_gid k) = k" "(ex_gid j = ex_gid k) = (j = k)"
  by (simp_all add: ex_gid_def convert_guid_to_gid_def)

section \<open>Endpoints\<close>

text \<open>
  What a sample says: that the endpoint is gone (\<open>None\<close>), what it is, or nothing that matters.
\<close>

definition entity_of :: "'d disc_api \<Rightarrow> rmw_lib \<Rightarrow> builtin_endpoint \<Rightarrow> entity_info" where
  "entity_of A L s =
     \<lparr>ei_topic = be_topic_name s, ei_type = be_type_name s, ei_type_hash = fst (discovered_hashes A (be_endpoint_qos s)),
      ei_participant = convert_guid_to_gid (be_participant_key s), ei_qos = discovered_qos A L (be_endpoint_qos s),
      ei_ser_type_hash = snd (discovered_hashes A (be_endpoint_qos s))\<rparr>"

definition endpoint_news :: "'d disc_api \<Rightarrow> rmw_lib \<Rightarrow> gid \<Rightarrow> sample_info \<times> ptr \<times> builtin_endpoint \<Rightarrow> entity_info option option" where
  "endpoint_news A L g x =
     (case x of (si, _, s) \<Rightarrow>
        if convert_guid_to_gid (be_key s) \<noteq> g then None
        else if \<not> si_alive si then Some None
        else if si_valid si \<and> \<not> prefix ''DCPS'' (be_topic_name s) then Some (Some (entity_of A L s))
        else None)"

text \<open>
  What is known after some news of an entity: what is known before, if it is never gone; otherwise the
  first it is said to be since it was last gone, if anything.
\<close>

definition current :: "'i option \<Rightarrow> 'i option list \<Rightarrow> 'i option" where
  "current k news =
     (let alive = takeWhile (\<lambda>n. n \<noteq> None) (rev news) in
      if None \<notin> set news \<and> k \<noteq> None then k else if alive = [] then None else last alive)"

lemma current_snoc:
  "current k (news @ [n]) = (case n of None \<Rightarrow> None | Some i \<Rightarrow> if current k news = None then Some i else current k news)"
proof (cases n)
  case (Some i)
  have "last (takeWhile (\<lambda>n. n \<noteq> None) (rev news)) \<noteq> None" if "takeWhile (\<lambda>n. n \<noteq> None) (rev news) \<noteq> []"
    using last_in_set [OF that] by (auto dest: set_takeWhileD)
  then show ?thesis using Some by (auto simp: current_def Let_def)
qed (simp add: current_def)

lemma current_Nil [simp]: "current k [] = k"
  by (simp add: current_def)

lemma current_Cons:
  "current k (n # news) = current (case n of None \<Rightarrow> None | Some i \<Rightarrow> if k = None then Some i else k) news"
proof (induction news rule: rev_induct)
  case Nil
  show ?case by (cases n) (auto simp: current_def Let_def)
next
  case (snoc m news)
  show ?case unfolding append_Cons [symmetric] current_snoc snoc.IH ..
qed

lemma endpoint_sample_news:
  assumes "cache_spec V A"
  shows "known_entity V r (endpoint_sample A L r si s d) g =
      (case endpoint_news A L g (si, p, s) of None \<Rightarrow> known_entity V r d g | Some n \<Rightarrow> current (known_entity V r d g) [n])"
    and "known_entity V (\<not> r) (endpoint_sample A L r si s d) = known_entity V (\<not> r) d"
    and "known_enclave V (endpoint_sample A L r si s d) = known_enclave V d"
    and "same_due V d (endpoint_sample A L r si s d)"
  using assms
  by (auto simp: cache_spec_def endpoint_sample_def endpoint_news_def entity_of_def current_Cons Let_def same_due_def split: prod.splits)

section \<open>Taking everything there is\<close>

text \<open>
  Both handlers take a sample, process it and return its loan, until there is none.  The locale is that loop;
  an observation of the state that taking and returning do not change is updated once for each sample.
\<close>

locale sample_loop =
  fixes handle :: "'d world \<Rightarrow> 'd world option"
    and tk :: "'d \<Rightarrow> (int \<times> sample_info \<times> ptr \<times> 's) \<times> 'd"
    and process :: "sample_info \<Rightarrow> 's \<Rightarrow> 'd \<Rightarrow> 'd"
    and giveback :: "ptr \<Rightarrow> 'd \<Rightarrow> 'd"
  assumes handle_step: "tk (lib w) = ((n, si, raw, s), d) \<Longrightarrow>
    handle w = (if n = 1 then handle (w\<lparr>lib := giveback raw (process si s d)\<rparr>) else Some (w\<lparr>lib := d\<rparr>))"
begin

lemma drained:
  assumes "\<And>d. due d = [] \<Longrightarrow> fst (fst (tk d)) \<noteq> 1 \<and> due (snd (tk d)) = []"
    and "\<And>d x q. due d = x # q \<Longrightarrow> fst (tk d) = (1, x) \<and> due (snd (tk d)) = q"
    and "\<And>d. obs (snd (tk d)) = obs d"
    and "\<And>p d. due (giveback p d) = due d \<and> obs (giveback p d) = obs d"
    and "\<And>si p s d. due (process si s d) = due d \<and> obs (process si s d) = upd (si, p, s) (obs d)"
  shows "\<exists>d. handle w = Some (w\<lparr>lib := d\<rparr>) \<and> due d = [] \<and> obs d = fold upd (due (lib w)) (obs (lib w))"
proof (induction "due (lib w)" arbitrary: w)
  case Nil
  obtain n si raw s d where t: "tk (lib w) = ((n, si, raw, s), d)" by (metis prod.exhaust)
  then have "n \<noteq> 1" "due d = []" "obs d = obs (lib w)" using assms(1,3) [of "lib w"] Nil by auto
  then show ?case using handle_step [OF t] Nil by (intro exI [of _ d]) (simp add: Nil [symmetric])
next
  case (Cons x q)
  obtain si raw s where x: "x = (si, raw, s)" by (metis prod.exhaust)
  obtain d where t: "tk (lib w) = ((1, si, raw, s), d)" "due d = q" "obs d = obs (lib w)"
    using assms(2,3) [of "lib w"] Cons(2) [symmetric] x by (cases "tk (lib w)") auto
  have "\<exists>d'. handle (w\<lparr>lib := giveback raw (process si s d)\<rparr>) = Some (w\<lparr>lib := d'\<rparr>) \<and> due d' = []
      \<and> obs d' = fold upd q (upd x (obs (lib w)))"
    using Cons(1) [of "w\<lparr>lib := giveback raw (process si s d)\<rparr>"] t assms(4) [of raw] assms(5) [of si s d raw] x by simp
  then show ?case using handle_step [OF t(1)] Cons(2) by (metis fold_simps(2))
qed

end

interpretation endpoint_loop: sample_loop
  "handle_builtintopic_endpoint A L reader r" "take_builtin_endpoint A reader" "endpoint_sample A L r" "return_builtin_loan A reader"
  for A :: "'d disc_api" and L :: rmw_lib and reader :: dds_entity and r :: bool
  by unfold_locales (subst handle_builtintopic_endpoint.simps, simp add: own_def disown_def)

interpretation participant_loop: sample_loop
  "handle_DCPSParticipant A g reader" "take_builtin_participant A reader" "participant_sample A g" "return_builtin_loan A reader"
  for A :: "'d disc_api" and g :: gid and reader :: dds_entity
  by unfold_locales (subst handle_DCPSParticipant.simps, simp add: own_def disown_def)

lemma fold_news:
  "fold (\<lambda>x (f, rest). (\<lambda>g. case news g x of None \<Rightarrow> f g | Some n \<Rightarrow> current (f g) [n], rest)) xs (f, rest)
     = (\<lambda>g. current (f g) (List.map_filter (news g) xs), rest)"
  by (induction xs arbitrary: f) (auto simp: map_filter_simps current_Cons fun_eq_iff split: option.splits)

text \<open>
  C33. Discovery follows the samples.  When the handler of a built-in topic of endpoints is called, it returns,
  having taken all samples and returned every loan; and then the graph cache knows of each endpoint what
  the samples say in their order: one that is gone is forgotten, one that is alive is known by the first
  sample since, samples without data and the built-in topics themselves do not count.  The endpoints of the other
  kind and the participants are unaffected.
\<close>

theorem discovery_follows_endpoints:
  assumes "disc_samples V A" "cache_spec V A"
  shows "\<exists>d. handle_builtintopic_endpoint A L reader r w = Some (w\<lparr>lib := d\<rparr>)
    \<and> endpoints_due V reader d = []
    \<and> (\<forall>g. known_entity V r d g =
         current (known_entity V r (lib w) g) (List.map_filter (endpoint_news A L g) (endpoints_due V reader (lib w))))
    \<and> known_entity V (\<not> r) d = known_entity V (\<not> r) (lib w)
    \<and> known_enclave V d = known_enclave V (lib w)"
proof -
  let ?obs = "\<lambda>d. (known_entity V r d, known_entity V (\<not> r) d, known_enclave V d)"
  let ?upd = "\<lambda>x (f, rest). (\<lambda>g. case endpoint_news A L g x of None \<Rightarrow> f g | Some n \<Rightarrow> current (f g) [n], rest)"
  note s = endpoint_sample_news [OF assms(2)]
  have step: "endpoints_due V reader (endpoint_sample A L r si s d) = endpoints_due V reader d
      \<and> ?obs (endpoint_sample A L r si s d) = ?upd (si, p, s) (?obs d)" for si p s d
    using s(4) [of d L r si s] by (simp add: fun_eq_iff s(1) [where p = p] s(2,3) same_due_def)
  note taking = gives_nextD [OF disc_samplesD(1) [OF assms(1)], where e = reader]
    and giveback = disc_samplesD(3,4) [OF assms(1)]
  have "\<exists>d. handle_builtintopic_endpoint A L reader r w = Some (w\<lparr>lib := d\<rparr>) \<and> endpoints_due V reader d = [] \<and> ?obs d = fold ?upd (endpoints_due V reader (lib w)) (?obs (lib w))"
    by (rule endpoint_loop.drained [where due = "endpoints_due V reader" and obs = ?obs and upd = ?upd, OF taking(1,2) _ _ step])
       (use taking(3) giveback in \<open>simp_all add: same_known_def same_due_def\<close>)
  then obtain d where "handle_builtintopic_endpoint A L reader r w = Some (w\<lparr>lib := d\<rparr>)" "endpoints_due V reader d = []" "?obs d = fold ?upd (endpoints_due V reader (lib w)) (?obs (lib w))"
    by blast
  then show ?thesis by (intro exI [of _ d]) (simp add: fold_news)
qed

lemma discovery_follows_endpoints_witness:
  "\<exists>d. handle_DCPSSubscription ex_disc_api ex_rmw_lib 1 ex_start = Some (ex_start\<lparr>lib := d\<rparr>)
    \<and> map_option ei_topic (ents d True (ex_gid 7)) = Some ''rt/chatter'' \<and> ents d True (ex_gid 9) = None \<and> ents d True (ex_gid 11) = None"
proof -
  obtain d where d: "handle_builtintopic_endpoint ex_disc_api ex_rmw_lib 1 True ex_start = Some (ex_start\<lparr>lib := d\<rparr>)"
    "\<And>g. known_entity ex_disc_view True d g = current (known_entity ex_disc_view True (lib ex_start) g)
      (List.map_filter (endpoint_news ex_disc_api ex_rmw_lib g) (endpoints_due ex_disc_view 1 (lib ex_start)))"
    using discovery_follows_endpoints [OF ex_disc_laws(1,2), of ex_rmw_lib 1 True ex_start] by blast
  have "map_option ei_topic (ents d True (ex_gid 7)) = Some ''rt/chatter'' \<and> ents d True (ex_gid 9) = None \<and> ents d True (ex_gid 11) = None"
    using d(2) [of "ex_gid 7"] d(2) [of "ex_gid 9"] d(2) [of "ex_gid 11"]
    by (simp add: ex_disc_view_def ex_start_def map_filter_simps endpoint_news_def ex_endpoint_def ex_gone_def ex_sample_info_def
        ex_gid_eq entity_of_def current_def)
  then show ?thesis using d(1) by (auto simp: handle_DCPSSubscription_def)
qed

section \<open>Participants\<close>

definition participant_news :: "'d disc_api \<Rightarrow> gid \<Rightarrow> sample_info \<times> ptr \<times> builtin_participant \<Rightarrow> string option option" where
  "participant_news A g x =
     (case x of (si, _, s) \<Rightarrow>
        if convert_guid_to_gid (bp_key s) \<noteq> g then None
        else if \<not> si_alive si then Some None
        else if si_valid si then map_option Some (discovered_user_data_key A (bp_qos s) ''enclave'')
        else None)"

lemma participant_sample_news:
  assumes "cache_spec V A"
  shows "known_enclave V (participant_sample A self si s d) g =
      (if g = self then known_enclave V d g else case participant_news A g (si, p, s) of None \<Rightarrow> known_enclave V d g | Some n \<Rightarrow> n)"
    and "known_entity V r (participant_sample A self si s d) = known_entity V r d"
    and "same_due V d (participant_sample A self si s d)"
  using assms
  by (auto simp: cache_spec_def participant_sample_def participant_news_def Let_def same_due_def split: option.splits)

definition latest :: "'i option \<Rightarrow> 'i option list \<Rightarrow> 'i option" where
  "latest k news = (if news = [] then k else last news)"

lemma fold_latest:
  "fold (\<lambda>x (f, rest). (\<lambda>g. if g = self then f g else case news g x of None \<Rightarrow> f g | Some n \<Rightarrow> n, rest)) xs (f, rest)
     = (\<lambda>g. if g = self then f g else latest (f g) (List.map_filter (news g) xs), rest)"
  by (induction xs arbitrary: f) (auto simp: map_filter_simps latest_def fun_eq_iff split: option.splits)

text \<open>
  The handler of the built-in topic of participants returns, having taken all samples and returned every loan, and
  then the graph cache knows each other participant by the enclave its last sample names, or not at all if that says
  it is gone; the participant of this process is never added or removed, and endpoints are unaffected.
\<close>

theorem discovery_follows_participants:
  assumes "disc_samples V A" "cache_spec V A"
  shows "\<exists>d. handle_DCPSParticipant A self reader w = Some (w\<lparr>lib := d\<rparr>)
    \<and> participants_due V reader d = []
    \<and> (\<forall>g. known_enclave V d g = (if g = self then known_enclave V (lib w) g
         else latest (known_enclave V (lib w) g) (List.map_filter (participant_news A g) (participants_due V reader (lib w)))))
    \<and> (\<forall>r. known_entity V r d = known_entity V r (lib w))"
proof -
  let ?obs = "\<lambda>d. (known_enclave V d, \<lambda>r. known_entity V r d)"
  let ?upd = "\<lambda>x (f, rest). (\<lambda>g. if g = self then f g else case participant_news A g x of None \<Rightarrow> f g | Some n \<Rightarrow> n, rest)"
  note s = participant_sample_news [OF assms(2)]
  have step: "participants_due V reader (participant_sample A self si s d) = participants_due V reader d
      \<and> ?obs (participant_sample A self si s d) = ?upd (si, p, s) (?obs d)" for si p s d
    using s(3) [of d self si s] by (simp add: fun_eq_iff s(1) [where p = p] s(2) same_due_def)
  note taking = gives_nextD [OF disc_samplesD(2) [OF assms(1)], where e = reader]
    and giveback = disc_samplesD(3,4) [OF assms(1)]
  have "\<exists>d. handle_DCPSParticipant A self reader w = Some (w\<lparr>lib := d\<rparr>) \<and> participants_due V reader d = [] \<and> ?obs d = fold ?upd (participants_due V reader (lib w)) (?obs (lib w))"
    by (rule participant_loop.drained [where due = "participants_due V reader" and obs = ?obs and upd = ?upd, OF taking(1,2) _ _ step])
       (use taking(3) giveback in \<open>simp_all add: same_known_def same_due_def\<close>)
  then obtain d where "handle_DCPSParticipant A self reader w = Some (w\<lparr>lib := d\<rparr>)" "participants_due V reader d = []" "?obs d = fold ?upd (participants_due V reader (lib w)) (?obs (lib w))"
    by blast
  then show ?thesis by (intro exI [of _ d]) (simp add: fold_latest fun_eq_iff)
qed

lemma discovery_follows_participants_witness:
  "\<exists>d. handle_DCPSParticipant ex_disc_api (ex_gid 1) 1 ex_start = Some (ex_start\<lparr>lib := d\<rparr>)
    \<and> encl d (ex_gid 3) = Some ''/home'' \<and> encl d (ex_gid 5) = None \<and> encl d (ex_gid 2) = None"
proof -
  obtain d where d: "handle_DCPSParticipant ex_disc_api (ex_gid 1) 1 ex_start = Some (ex_start\<lparr>lib := d\<rparr>)"
    "\<And>g. known_enclave ex_disc_view d g = (if g = ex_gid 1 then known_enclave ex_disc_view (lib ex_start) g
      else latest (known_enclave ex_disc_view (lib ex_start) g)
        (List.map_filter (participant_news ex_disc_api g) (participants_due ex_disc_view 1 (lib ex_start))))"
    using discovery_follows_participants [OF ex_disc_laws(1,2), of "ex_gid 1" 1 ex_start] by blast
  have "encl d (ex_gid 3) = Some ''/home'' \<and> encl d (ex_gid 5) = None \<and> encl d (ex_gid 2) = None"
    using d(2) [of "ex_gid 3"] d(2) [of "ex_gid 5"] d(2) [of "ex_gid 2"]
    by (simp add: ex_disc_view_def ex_start_def map_filter_simps participant_news_def ex_participant_def ex_gone_def ex_sample_info_def
        ex_gid_eq latest_def discovered_user_data_key_def discovered_user_data_def ex_disc_api_def)
  then show ?thesis using d(1) by blast
qed

section \<open>The thread\<close>

lemma wakeups_specD:
  assumes "wakeups_spec V A"
  shows "wakeups V (snd (take_builtin_endpoint A e d)) = wakeups V d" "wakeups V (snd (take_builtin_participant A e d)) = wakeups V d"
    "wakeups V (return_builtin_loan A e p d) = wakeups V d"
    "wakeups V (endpoint_sample A L r si s d) = wakeups V d" "wakeups V (participant_sample A g si t d) = wakeups V d"
    "keeps_running A d \<Longrightarrow> \<exists>n xs d'. wait_on_waitset A ws 5 d = ((n, xs), d') \<and> 0 \<le> n \<and> set xs \<subseteq> {..<5} \<and> wakeups V d' < wakeups V d"
  using assms
  by (auto simp: wakeups_spec_def endpoint_sample_def participant_sample_def Let_def split: prod.splits option.splits)

text \<open>A handler that returns, owing nothing and not waiting.\<close>

definition returns :: "'d disc_view \<Rightarrow> ('d world \<Rightarrow> 'd world option) \<Rightarrow> bool" where
  "returns V h \<longleftrightarrow> (\<forall>w. \<exists>d. h w = Some (w\<lparr>lib := d\<rparr>) \<and> wakeups V d = wakeups V (lib w))"

lemma fold_const [simp]: "fold (\<lambda>_ n. n) xs n = n"
  by (induction xs) simp_all

lemma endpoint_handler_returns:
  assumes "disc_samples V A" "cache_spec V A" "wakeups_spec V A"
  shows "returns V (handle_builtintopic_endpoint A L reader r)"
proof -
  note taking = gives_nextD [OF disc_samplesD(1) [OF assms(1)], where e = reader] and giveback = disc_samplesD(3) [OF assms(1)]
  have "\<exists>d. handle_builtintopic_endpoint A L reader r w = Some (w\<lparr>lib := d\<rparr>) \<and> endpoints_due V reader d = []
      \<and> wakeups V d = fold (\<lambda>_ n. n) (endpoints_due V reader (lib w)) (wakeups V (lib w))" for w
    by (rule endpoint_loop.drained [where due = "endpoints_due V reader" and obs = "wakeups V", OF taking(1,2)])
       (use giveback endpoint_sample_news(4) [OF assms(2)] in \<open>simp_all add: same_due_def wakeups_specD [OF assms(3)]\<close>)
  then show ?thesis unfolding returns_def fold_const by blast
qed

lemma participant_handler_returns:
  assumes "disc_samples V A" "cache_spec V A" "wakeups_spec V A"
  shows "returns V (handle_DCPSParticipant A g reader)"
proof -
  note taking = gives_nextD [OF disc_samplesD(2) [OF assms(1)], where e = reader] and giveback = disc_samplesD(3) [OF assms(1)]
  have "\<exists>d. handle_DCPSParticipant A g reader w = Some (w\<lparr>lib := d\<rparr>) \<and> participants_due V reader d = []
      \<and> wakeups V d = fold (\<lambda>_ n. n) (participants_due V reader (lib w)) (wakeups V (lib w))" for w
    by (rule participant_loop.drained [where due = "participants_due V reader" and obs = "wakeups V", OF taking(1,2)])
       (use giveback participant_sample_news(3) [OF assms(2)] in \<open>simp_all add: same_due_def wakeups_specD [OF assms(3)]\<close>)
  then show ?thesis unfolding returns_def fold_const by blast
qed

lemma take_loop_runs_out:
  assumes "announcements_spec V M A e"
  shows "\<exists>r d'. take_loop M e p d = Some (r, d') \<and> wakeups V d' = wakeups V d
    \<and> (r \<noteq> None \<longrightarrow> length (announcements_due V d') < length (announcements_due V d))"
proof (induction "announcements_due V d" arbitrary: d)
  case Nil
  obtain n infos d' where t: "dds_take_into M e [p] 1 d = ((n, infos), d')" by (metis prod.exhaust)
  then have "n \<noteq> 1" "wakeups V d' = wakeups V d" using assms Nil by (auto simp: announcements_spec_def dest!: spec [of _ p] spec [of _ d])
  then show ?case by (subst take_loop.simps) (simp add: t [simplified])
next
  case (Cons i q)
  then have "fst (dds_take_into M e [p] 1 d) = (1, [i])" "announcements_due V (snd (dds_take_into M e [p] 1 d)) = q"
    "wakeups V (snd (dds_take_into M e [p] 1 d)) = wakeups V d"
    using assms unfolding announcements_spec_def by metis+
  then obtain d' where t: "dds_take_into M e [p] 1 d = ((1, [i]), d')" "announcements_due V d' = q" "wakeups V d' = wakeups V d"
    by (cases "dds_take_into M e [p] 1 d") auto
  show ?case
  proof (cases "si_valid i")
    case True
    then show ?thesis using t Cons(2) [symmetric] by (subst take_loop.simps) (simp add: t(1) [simplified])
  next
    case False
    then show ?thesis using t Cons(2) [symmetric] Cons(1) [of d'] by (subst take_loop.simps) (fastforce simp: t(1) [simplified])
  qed
qed

lemma announcement_handler_returns:
  assumes "announcements_spec V M A (sub_enth sub)" "msg \<noteq> 0"
  shows "returns V (handle_ParticipantEntitiesInfo E M A sub msg)"
  unfolding returns_def
proof
  fix w
  show "\<exists>d. handle_ParticipantEntitiesInfo E M A sub msg w = Some (w\<lparr>lib := d\<rparr>) \<and> wakeups V d = wakeups V (lib w)"
  proof (induction "length (announcements_due V (lib w))" arbitrary: w rule: less_induct)
    case less
    obtain r d where t: "take_loop M (sub_enth sub) msg (lib w) = Some (r, d)" "wakeups V d = wakeups V (lib w)"
      "r \<noteq> None \<Longrightarrow> length (announcements_due V d) < length (announcements_due V (lib w))"
      using take_loop_runs_out [OF assms(1), of msg "lib w"] by blast
    have u: "announcements_due V (update_participant_entities A msg d) = announcements_due V d"
      "wakeups V (update_participant_entities A msg d) = wakeups V d"
      using assms(1) unfolding announcements_spec_def by blast+
    show ?case
    proof (cases r)
      case None
      then show ?thesis using t assms(2)
        by (subst handle_ParticipantEntitiesInfo.simps) (auto simp: rmw_take_def rmw_take_int_def)
    next
      case (Some i)
      then obtain d' where "handle_ParticipantEntitiesInfo E M A sub msg (w\<lparr>lib := update_participant_entities A msg d\<rparr>) = Some (w\<lparr>lib := d'\<rparr>)"
        "wakeups V d' = wakeups V d" using less [of "w\<lparr>lib := update_participant_entities A msg d\<rparr>"] t u by auto
      then show ?thesis using Some t assms(2)
        by (subst handle_ParticipantEntitiesInfo.simps) (auto simp: rmw_take_def rmw_take_int_def)
    qed
  qed
qed

lemma run_handlers_return:
  assumes "\<forall>(e, h) \<in> set entries. \<forall>f. h = Some f \<longrightarrow> returns V f" "set xs \<subseteq> {..<length entries}"
  shows "\<exists>d. run_handlers entries xs w = Some (w\<lparr>lib := d\<rparr>) \<and> wakeups V d = wakeups V (lib w)"
  using assms(2)
proof (induction xs arbitrary: w)
  case Nil
  show ?case by (intro exI [of _ "lib w"]) simp
next
  case (Cons x xs)
  have "entries ! x \<in> set entries" using Cons.prems by simp
  from bspec [OF assms(1) this] have h: "snd (entries ! x) = Some f \<Longrightarrow> returns V f" for f by (simp add: case_prod_beta)
  show ?case
  proof (cases "snd (entries ! x)")
    case None
    then show ?thesis using Cons by simp
  next
    case (Some f)
    obtain d where d: "f w = Some (w\<lparr>lib := d\<rparr>)" "wakeups V d = wakeups V (lib w)" using h [OF Some] by (auto simp: returns_def)
    then show ?thesis using Some Cons.IH [of "w\<lparr>lib := d\<rparr>"] Cons.prems by auto
  qed
qed

lemma discovery_loop_ends:
  assumes "wakeups_spec V A" "\<forall>(e, h) \<in> set entries. \<forall>f. h = Some f \<longrightarrow> returns V f" "length entries = 5"
  shows "\<exists>d. discovery_loop A entries ws w = Some (disown (DiscoveryWaitset ws) (w\<lparr>lib := d\<rparr>))"
proof (induction "wakeups V (lib w)" arbitrary: w rule: less_induct)
  case less
  show ?case
  proof (cases "keeps_running A (lib w)")
    case True
    obtain n xs d where wt: "wait_on_waitset A ws 5 (lib w) = ((n, xs), d)" "0 \<le> n" "set xs \<subseteq> {..<5}" "wakeups V d < wakeups V (lib w)"
      using wakeups_specD(6) [OF assms(1) True] by blast
    have "set (take (nat n) xs) \<subseteq> {..<length entries}" using wt(3) set_take_subset assms(3) by fastforce
    then obtain d' where "run_handlers entries (take (nat n) xs) (w\<lparr>lib := d\<rparr>) = Some (w\<lparr>lib := d'\<rparr>)" "wakeups V d' = wakeups V d"
      using run_handlers_return [OF assms(2), of "take (nat n) xs" "w\<lparr>lib := d\<rparr>"] by auto
    then show ?thesis using True wt less [of "w\<lparr>lib := d'\<rparr>"] by (subst discovery_loop.simps) auto
  qed (subst discovery_loop.simps, auto)
qed

lemma attach_entries_ok:
  assumes "\<And>e d. 0 \<le> fst (set_data_available_mask A e d)" "\<And>ws e i d. 0 \<le> fst (attach_to_waitset A ws e i d)"
  shows "\<exists>d. attach_entries A ws i entries w = (True, w\<lparr>lib := d\<rparr>)"
proof (induction entries arbitrary: i w)
  case Nil
  show ?case by (intro exI [of _ "lib w"]) simp
next
  case (Cons x entries)
  obtain e h where x: "x = (e, h)" by (cases x)
  obtain n d where m: "(if h \<noteq> None then set_data_available_mask A e (lib w) else (0, lib w)) = (n, d)" by (metis prod.exhaust)
  then have n: "0 \<le> n" using assms(1) [of e "lib w"] by (auto split: if_splits)
  obtain n' d' where a: "attach_to_waitset A ws e i d = (n', d')" "0 \<le> n'"
    using assms(2) [of ws e i d] by (cases "attach_to_waitset A ws e i d") auto
  show ?case using n a Cons [of "Suc i" "w\<lparr>lib := d'\<rparr>"] unfolding x attach_entries.simps m by (simp add: Let_def)
qed


definition ex_disc_context :: disc_context where
  "ex_disc_context = \<lparr>dc_guard = 1, dc_sub = ex_sub, dc_gid = ex_gid 1, rd_participant = 2, rd_subscription = 3, rd_publication = 5\<rparr>"


text \<open>
  A status mask that cannot be set ends the thread without deleting the wait set, unlike a failure to attach.
\<close>

lemma mask_error_loses_wait_set:
  assumes "create_disc_waitset A (lib w) = (ws, d)" "0 \<le> ws" "attach_to_waitset A ws (dc_guard impl) 0 d = (n, d1)" "0 \<le> n"
    and "set_data_available_mask A (sub_enth (dc_sub impl)) d1 = (m, d2)" "m < 0"
  shows "discovery_thread E M A L msg impl w = Some (own (DiscoveryWaitset ws) (w\<lparr>lib := d2\<rparr>))"
  using assms by (simp add: discovery_thread_def disc_entries_def own_def)

end
