(* ===== verification/GraphQueries.thy ===== *)
theory GraphQueries
  imports Names Qos ClientService
begin

text \<open>
  The queries of the graph in \<^verbatim>\<open>rmw_node.cpp\<close>.  They check their arguments, mangle the names they are given,
  choose how names found are demangled, and leave the search to the graph cache of rmw_dds_common, which
  is a parameter.  A demangling function may throw, and so may a query that uses it.
\<close>

section \<open>The interface\<close>

type_synonym demangle = "string \<Rightarrow> string result"
type_synonym names_and_types = "(string \<times> string list) list"

text \<open>
  \<open>'i\<close> and \<open>'s\<close> are the descriptions of endpoints and of ends of services.  Validation gives a return code and
  whether the name is valid.
\<close>

record ('i, 's, 'd) graph_api =
  validate_full_topic_name :: "string \<Rightarrow> rmw_ret \<times> bool"
  validate_node_name :: "string \<Rightarrow> rmw_ret \<times> bool"
  validate_namespace :: "string \<Rightarrow> rmw_ret \<times> bool"
  gc_get_node_names :: "bool \<Rightarrow> 'd \<Rightarrow> rmw_ret \<times> (string \<times> string \<times> string) list"
  gc_get_reader_count :: "string \<Rightarrow> 'd \<Rightarrow> rmw_ret \<times> nat"
  gc_get_writer_count :: "string \<Rightarrow> 'd \<Rightarrow> rmw_ret \<times> nat"
  gc_get_names_and_types :: "demangle \<Rightarrow> demangle \<Rightarrow> 'd \<Rightarrow> (rmw_ret \<times> names_and_types) result"
  gc_get_reader_names_and_types_by_node :: "string \<Rightarrow> string \<Rightarrow> demangle \<Rightarrow> demangle \<Rightarrow> 'd \<Rightarrow> (rmw_ret \<times> names_and_types) result"
  gc_get_writer_names_and_types_by_node :: "string \<Rightarrow> string \<Rightarrow> demangle \<Rightarrow> demangle \<Rightarrow> 'd \<Rightarrow> (rmw_ret \<times> names_and_types) result"
  gc_get_writers_info_by_topic :: "string \<Rightarrow> demangle \<Rightarrow> 'd \<Rightarrow> (rmw_ret \<times> 'i list) result"
  gc_get_readers_info_by_topic :: "string \<Rightarrow> demangle \<Rightarrow> 'd \<Rightarrow> (rmw_ret \<times> 'i list) result"
  gc_get_clients_info_by_service :: "'i list \<Rightarrow> 'i list \<Rightarrow> rmw_ret \<times> 's list"
  gc_get_servers_info_by_service :: "'i list \<Rightarrow> 'i list \<Rightarrow> rmw_ret \<times> 's list"

text \<open>A query gives its return code and what it stores, if it stores anything.\<close>

type_synonym 'a reply = "rmw_ret \<times> 'a option"

abbreviation replied :: "rmw_ret \<times> 'a \<Rightarrow> 'a reply" where
  "replied r \<equiv> (fst r, Some (snd r))"

section \<open>Nodes, topics and services\<close>

text \<open>\<open>zero\<close> says whether the arrays passed for the results are zero-initialised.\<close>

definition rmw_get_node_names :: "('i, 's, 'd) graph_api \<Rightarrow> bool \<Rightarrow> bool \<Rightarrow> 'd \<Rightarrow> (string \<times> string) list reply" where
  "rmw_get_node_names G zero_names zero_namespaces d =
     (if \<not> zero_names then (RMW_RET_INVALID_ARGUMENT, None)
      else if \<not> zero_namespaces then (RMW_RET_INVALID_ARGUMENT, None)
      else case gc_get_node_names G False d of (ret, ns) \<Rightarrow> (ret, Some (map (\<lambda>(n, s, _). (n, s)) ns)))"

definition rmw_get_node_names_with_enclaves ::
  "('i, 's, 'd) graph_api \<Rightarrow> bool \<Rightarrow> bool \<Rightarrow> bool \<Rightarrow> 'd \<Rightarrow> (string \<times> string \<times> string) list reply" where
  "rmw_get_node_names_with_enclaves G zero_names zero_namespaces zero_enclaves d =
     (if \<not> zero_names then (RMW_RET_INVALID_ARGUMENT, None)
      else if \<not> zero_namespaces then (RMW_RET_INVALID_ARGUMENT, None)
      else if \<not> zero_enclaves then (RMW_RET_INVALID_ARGUMENT, None)
      else replied (gc_get_node_names G True d))"

definition rmw_get_topic_names_and_types ::
  "('i, 's, 'd) graph_api \<Rightarrow> find_and_replace \<Rightarrow> bool \<Rightarrow> bool \<Rightarrow> 'd \<Rightarrow> names_and_types reply result" where
  "rmw_get_topic_names_and_types G far no_demangle zero d =
     (if \<not> zero then Inr (RMW_RET_INVALID_ARGUMENT, None)
      else
        let demangle_topic = (if no_demangle then Inr \<circ> identity_demangle else demangle_ros_topic_from_topic);
            demangle_type = (if no_demangle then Inr \<circ> identity_demangle else demangle_if_ros_type far) in
        rbind (gc_get_names_and_types G demangle_topic demangle_type d) (Inr \<circ> replied))"

definition rmw_get_service_names_and_types ::
  "('i, 's, 'd) graph_api \<Rightarrow> find_and_replace \<Rightarrow> bool \<Rightarrow> 'd \<Rightarrow> names_and_types reply result" where
  "rmw_get_service_names_and_types G far zero d =
     (if \<not> zero then Inr (RMW_RET_INVALID_ARGUMENT, None)
      else rbind (gc_get_names_and_types G demangle_service_from_topic (demangle_service_type_only far) d) (Inr \<circ> replied))"

section \<open>Counting\<close>

definition count_valid :: "('i, 's, 'd) graph_api \<Rightarrow> string \<Rightarrow> rmw_ret \<times> nat \<Rightarrow> nat reply" where
  "count_valid G name c =
     (case validate_full_topic_name G name of (ret, valid) \<Rightarrow>
        if ret \<noteq> RMW_RET_OK then (ret, None)
        else if \<not> valid then (RMW_RET_INVALID_ARGUMENT, None)
        else replied c)"

definition rmw_count_publishers :: "('i, 's, 'd) graph_api \<Rightarrow> string \<Rightarrow> 'd \<Rightarrow> nat reply" where
  "rmw_count_publishers G topic_name d =
     count_valid G topic_name (gc_get_writer_count G (make_fqtopic ROS_TOPIC_PREFIX topic_name [] False) d)"

definition rmw_count_subscribers :: "('i, 's, 'd) graph_api \<Rightarrow> string \<Rightarrow> 'd \<Rightarrow> nat reply" where
  "rmw_count_subscribers G topic_name d =
     count_valid G topic_name (gc_get_reader_count G (make_fqtopic ROS_TOPIC_PREFIX topic_name [] False) d)"

definition rmw_count_clients :: "('i, 's, 'd) graph_api \<Rightarrow> string \<Rightarrow> 'd \<Rightarrow> nat reply" where
  "rmw_count_clients G service_name d =
     count_valid G service_name (gc_get_reader_count G (make_fqtopic ROS_SERVICE_RESPONSE_PREFIX service_name ''Reply'' False) d)"

definition rmw_count_services :: "('i, 's, 'd) graph_api \<Rightarrow> string \<Rightarrow> 'd \<Rightarrow> nat reply" where
  "rmw_count_services G service_name d =
     count_valid G service_name (gc_get_reader_count G (make_fqtopic ROS_SERVICE_REQUESTER_PREFIX service_name ''Request'' False) d)"

section \<open>By node\<close>

definition get_topic_names_and_types_by_node ::
  "('i, 's, 'd) graph_api \<Rightarrow> string \<Rightarrow> string \<Rightarrow> demangle \<Rightarrow> demangle \<Rightarrow> bool \<Rightarrow>
   (string \<Rightarrow> string \<Rightarrow> demangle \<Rightarrow> demangle \<Rightarrow> 'd \<Rightarrow> (rmw_ret \<times> names_and_types) result) \<Rightarrow> bool \<Rightarrow> 'd \<Rightarrow> names_and_types reply result" where
  "get_topic_names_and_types_by_node G node_name node_namespace demangle_topic demangle_type no_demangle get_names_and_types_by_node zero d =
     (case validate_node_name G node_name of (ret, valid) \<Rightarrow>
      if ret \<noteq> RMW_RET_OK then Inr (ret, None)
      else if \<not> valid then Inr (RMW_RET_INVALID_ARGUMENT, None)
      else case validate_namespace G node_namespace of (ret, valid) \<Rightarrow>
      if ret \<noteq> RMW_RET_OK then Inr (ret, None)
      else if \<not> valid then Inr (RMW_RET_INVALID_ARGUMENT, None)
      else if \<not> zero then Inr (RMW_RET_INVALID_ARGUMENT, None)
      else
        let demangle_topic = (if no_demangle then Inr \<circ> identity_demangle else demangle_topic);
            demangle_type = (if no_demangle then Inr \<circ> identity_demangle else demangle_type) in
        rbind (get_names_and_types_by_node node_name node_namespace demangle_topic demangle_type d) (Inr \<circ> replied))"

definition get_reader_names_and_types_by_node ::
  "('i, 's, 'd) graph_api \<Rightarrow> string \<Rightarrow> string \<Rightarrow> demangle \<Rightarrow> demangle \<Rightarrow> 'd \<Rightarrow> (rmw_ret \<times> names_and_types) result" where
  "get_reader_names_and_types_by_node G = gc_get_reader_names_and_types_by_node G"

definition get_writer_names_and_types_by_node ::
  "('i, 's, 'd) graph_api \<Rightarrow> string \<Rightarrow> string \<Rightarrow> demangle \<Rightarrow> demangle \<Rightarrow> 'd \<Rightarrow> (rmw_ret \<times> names_and_types) result" where
  "get_writer_names_and_types_by_node G = gc_get_writer_names_and_types_by_node G"

definition rmw_get_subscriber_names_and_types_by_node ::
  "('i, 's, 'd) graph_api \<Rightarrow> find_and_replace \<Rightarrow> string \<Rightarrow> string \<Rightarrow> bool \<Rightarrow> bool \<Rightarrow> 'd \<Rightarrow> names_and_types reply result" where
  "rmw_get_subscriber_names_and_types_by_node G far node_name node_namespace no_demangle zero d =
     get_topic_names_and_types_by_node G node_name node_namespace demangle_ros_topic_from_topic (demangle_if_ros_type far)
       no_demangle (get_reader_names_and_types_by_node G) zero d"

definition rmw_get_publisher_names_and_types_by_node ::
  "('i, 's, 'd) graph_api \<Rightarrow> find_and_replace \<Rightarrow> string \<Rightarrow> string \<Rightarrow> bool \<Rightarrow> bool \<Rightarrow> 'd \<Rightarrow> names_and_types reply result" where
  "rmw_get_publisher_names_and_types_by_node G far node_name node_namespace no_demangle zero d =
     get_topic_names_and_types_by_node G node_name node_namespace demangle_ros_topic_from_topic (demangle_if_ros_type far)
       no_demangle (get_writer_names_and_types_by_node G) zero d"

definition rmw_get_service_names_and_types_by_node ::
  "('i, 's, 'd) graph_api \<Rightarrow> find_and_replace \<Rightarrow> string \<Rightarrow> string \<Rightarrow> bool \<Rightarrow> 'd \<Rightarrow> names_and_types reply result" where
  "rmw_get_service_names_and_types_by_node G far node_name node_namespace zero d =
     get_topic_names_and_types_by_node G node_name node_namespace demangle_service_request_from_topic (demangle_service_type_only far)
       False (get_reader_names_and_types_by_node G) zero d"

definition rmw_get_client_names_and_types_by_node ::
  "('i, 's, 'd) graph_api \<Rightarrow> find_and_replace \<Rightarrow> string \<Rightarrow> string \<Rightarrow> bool \<Rightarrow> 'd \<Rightarrow> names_and_types reply result" where
  "rmw_get_client_names_and_types_by_node G far node_name node_namespace zero d =
     get_topic_names_and_types_by_node G node_name node_namespace demangle_service_reply_from_topic (demangle_service_type_only far)
       False (get_reader_names_and_types_by_node G) zero d"

section \<open>By topic and by service\<close>

definition rmw_get_publishers_info_by_topic ::
  "('i, 's, 'd) graph_api \<Rightarrow> find_and_replace \<Rightarrow> string \<Rightarrow> bool \<Rightarrow> bool \<Rightarrow> 'd \<Rightarrow> 'i list reply result" where
  "rmw_get_publishers_info_by_topic G far topic_name no_mangle zero d =
     (if \<not> zero then Inr (RMW_RET_INVALID_ARGUMENT, None)
      else
        let mangled_topic_name = (if no_mangle then topic_name else make_fqtopic ROS_TOPIC_PREFIX topic_name [] False);
            demangle_type = (if no_mangle then Inr \<circ> identity_demangle else demangle_if_ros_type far) in
        rbind (gc_get_writers_info_by_topic G mangled_topic_name demangle_type d) (Inr \<circ> replied))"

definition rmw_get_subscriptions_info_by_topic ::
  "('i, 's, 'd) graph_api \<Rightarrow> find_and_replace \<Rightarrow> string \<Rightarrow> bool \<Rightarrow> bool \<Rightarrow> 'd \<Rightarrow> 'i list reply result" where
  "rmw_get_subscriptions_info_by_topic G far topic_name no_mangle zero d =
     (if \<not> zero then Inr (RMW_RET_INVALID_ARGUMENT, None)
      else
        let mangled_topic_name = (if no_mangle then topic_name else make_fqtopic ROS_TOPIC_PREFIX topic_name [] False);
            demangle_type = (if no_mangle then Inr \<circ> identity_demangle else demangle_if_ros_type far) in
        rbind (gc_get_readers_info_by_topic G mangled_topic_name demangle_type d) (Inr \<circ> replied))"

text \<open>The arrays of endpoints in between are local and released on every path.\<close>

definition rmw_get_clients_info_by_service ::
  "('i, 's, 'd) graph_api \<Rightarrow> find_and_replace \<Rightarrow> string \<Rightarrow> bool \<Rightarrow> bool \<Rightarrow> 'd \<Rightarrow> 's list reply result" where
  "rmw_get_clients_info_by_service G far service_name no_mangle zero d =
     (if \<not> zero then Inr (RMW_RET_INVALID_ARGUMENT, None)
      else if no_mangle then Inr (RMW_RET_INVALID_ARGUMENT, None)
      else
        let mangled_rq_topic_name = make_fqtopic ROS_SERVICE_REQUESTER_PREFIX service_name ''Request'' False;
            mangled_rp_topic_name = make_fqtopic ROS_SERVICE_RESPONSE_PREFIX service_name ''Reply'' False in
        rbind (gc_get_readers_info_by_topic G mangled_rp_topic_name (demangle_service_type_only far) d) (\<lambda>(ret, subscriptions_info).
        if ret \<noteq> RMW_RET_OK then Inr (ret, None)
        else rbind (gc_get_writers_info_by_topic G mangled_rq_topic_name (demangle_service_type_only far) d) (\<lambda>(ret, publishers_info).
        if ret \<noteq> RMW_RET_OK then Inr (ret, None)
        else Inr (replied (gc_get_clients_info_by_service G subscriptions_info publishers_info)))))"

definition rmw_get_servers_info_by_service ::
  "('i, 's, 'd) graph_api \<Rightarrow> find_and_replace \<Rightarrow> string \<Rightarrow> bool \<Rightarrow> bool \<Rightarrow> 'd \<Rightarrow> 's list reply result" where
  "rmw_get_servers_info_by_service G far service_name no_mangle zero d =
     (if \<not> zero then Inr (RMW_RET_INVALID_ARGUMENT, None)
      else if no_mangle then Inr (RMW_RET_INVALID_ARGUMENT, None)
      else
        let mangled_rq_topic_name = make_fqtopic ROS_SERVICE_REQUESTER_PREFIX service_name ''Request'' False;
            mangled_rp_topic_name = make_fqtopic ROS_SERVICE_RESPONSE_PREFIX service_name ''Reply'' False in
        rbind (gc_get_readers_info_by_topic G mangled_rq_topic_name (demangle_service_type_only far) d) (\<lambda>(ret, subscriptions_info).
        if ret \<noteq> RMW_RET_OK then Inr (ret, None)
        else rbind (gc_get_writers_info_by_topic G mangled_rp_topic_name (demangle_service_type_only far) d) (\<lambda>(ret, publishers_info).
        if ret \<noteq> RMW_RET_OK then Inr (ret, None)
        else Inr (replied (gc_get_servers_info_by_service G subscriptions_info publishers_info)))))"

section \<open>The QoS an endpoint has\<close>

text \<open>\<open>qos_of\<close> is \<open>dds_get_qos\<close>; on an error the profile is what it had become.\<close>

definition actual_qos :: "rmw_lib \<Rightarrow> (dds_entity \<Rightarrow> dds_qos option) \<Rightarrow> dds_entity \<Rightarrow> rmw_qos_profile \<Rightarrow> rmw_ret \<times> rmw_qos_profile" where
  "actual_qos L qos_of e qos =
     (case get_readwrite_qos L (qos_of e) qos of Inl (_, qos) \<Rightarrow> (RMW_RET_ERROR, qos) | Inr qos \<Rightarrow> (RMW_RET_OK, qos))"

definition rmw_publisher_get_actual_qos ::
  "rmw_lib \<Rightarrow> (dds_entity \<Rightarrow> dds_qos option) \<Rightarrow> pub_data \<Rightarrow> rmw_qos_profile \<Rightarrow> rmw_ret \<times> rmw_qos_profile" where
  "rmw_publisher_get_actual_qos L qos_of pub qos = actual_qos L qos_of (enth pub) qos"

definition rmw_subscription_get_actual_qos ::
  "rmw_lib \<Rightarrow> (dds_entity \<Rightarrow> dds_qos option) \<Rightarrow> sub_data \<Rightarrow> rmw_qos_profile \<Rightarrow> rmw_ret \<times> rmw_qos_profile" where
  "rmw_subscription_get_actual_qos L qos_of sub qos = actual_qos L qos_of (sub_enth sub) qos"

definition rmw_client_request_publisher_get_actual_qos ::
  "rmw_lib \<Rightarrow> (dds_entity \<Rightarrow> dds_qos option) \<Rightarrow> cs \<Rightarrow> rmw_qos_profile \<Rightarrow> rmw_ret \<times> rmw_qos_profile" where
  "rmw_client_request_publisher_get_actual_qos L qos_of cli qos = actual_qos L qos_of (enth (cs_pub cli)) qos"

definition rmw_client_response_subscription_get_actual_qos ::
  "rmw_lib \<Rightarrow> (dds_entity \<Rightarrow> dds_qos option) \<Rightarrow> cs \<Rightarrow> rmw_qos_profile \<Rightarrow> rmw_ret \<times> rmw_qos_profile" where
  "rmw_client_response_subscription_get_actual_qos L qos_of cli qos = actual_qos L qos_of (sub_enth (cs_sub cli)) qos"

definition rmw_service_response_publisher_get_actual_qos ::
  "rmw_lib \<Rightarrow> (dds_entity \<Rightarrow> dds_qos option) \<Rightarrow> cs \<Rightarrow> rmw_qos_profile \<Rightarrow> rmw_ret \<times> rmw_qos_profile" where
  "rmw_service_response_publisher_get_actual_qos L qos_of srv qos = actual_qos L qos_of (enth (cs_pub srv)) qos"

definition rmw_service_request_subscription_get_actual_qos ::
  "rmw_lib \<Rightarrow> (dds_entity \<Rightarrow> dds_qos option) \<Rightarrow> cs \<Rightarrow> rmw_qos_profile \<Rightarrow> rmw_ret \<times> rmw_qos_profile" where
  "rmw_service_request_subscription_get_actual_qos L qos_of srv qos = actual_qos L qos_of (sub_enth (cs_sub srv)) qos"

end
