(* ===== verification/GraphClaims.thy ===== *)
theory GraphClaims
  imports GraphQueries DiscoveryClaims
begin

text \<open>What the queries of the graph report of the endpoints that were created.\<close>

section \<open>What is relied on\<close>

text \<open>
  The graph cache counts the endpoints with a topic, and lists the names of the endpoints asked for, with
  both demangling functions applied; an endpoint whose topic is demangled to nothing is skipped, and what the
  functions throw is thrown.
\<close>

definition listed :: "names_and_types \<Rightarrow> (string \<times> string) set" where
  "listed ns = {(n, t). \<exists>ts. (n, ts) \<in> set ns \<and> t \<in> set ts}"

definition demangle_throws :: "entity_info set \<Rightarrow> demangle \<Rightarrow> demangle \<Rightarrow> exn set" where
  "demangle_throws I dt dty = {e. \<exists>i \<in> I. dt (ei_topic i) = Inl e \<or> (\<exists>n. dt (ei_topic i) = Inr n \<and> n \<noteq> [] \<and> dty (ei_type i) = Inl e)}"

definition lists_names :: "entity_info set \<Rightarrow> demangle \<Rightarrow> demangle \<Rightarrow> (rmw_ret \<times> names_and_types) result \<Rightarrow> bool" where
  "lists_names I dt dty res \<longleftrightarrow>
     (if demangle_throws I dt dty = {} then
        (\<exists>ns. res = Inr (RMW_RET_OK, ns)
           \<and> listed ns = {(n, t). \<exists>i \<in> I. dt (ei_topic i) = Inr n \<and> n \<noteq> [] \<and> dty (ei_type i) = Inr t})
      else \<exists>e \<in> demangle_throws I dt dty. res = Inl e)"

text \<open>\<open>ends_of_node\<close> gives the endpoints of a node by its name and namespace, if there is such a node.\<close>

definition graph_spec ::
  "'d disc_view \<Rightarrow> (bool \<Rightarrow> string \<Rightarrow> string \<Rightarrow> 'd \<Rightarrow> gid set option) \<Rightarrow> ('i, 's, 'd) graph_api \<Rightarrow> bool" where
  "graph_spec V ends_of_node G \<longleftrightarrow> (\<forall>d.
     (\<forall>topic. gc_get_reader_count G topic d = (RMW_RET_OK, card {g. \<exists>i. known_entity V True d g = Some i \<and> ei_topic i = topic})
        \<and> gc_get_writer_count G topic d = (RMW_RET_OK, card {g. \<exists>i. known_entity V False d g = Some i \<and> ei_topic i = topic}))
     \<and> (\<forall>dt dty. lists_names (\<Union>r. ran (known_entity V r d)) dt dty (gc_get_names_and_types G dt dty d))
     \<and> (\<forall>n s gs dt dty. ends_of_node True n s d = Some gs \<longrightarrow>
          lists_names {i. \<exists>g \<in> gs. known_entity V True d g = Some i} dt dty (gc_get_reader_names_and_types_by_node G n s dt dty d))
     \<and> (\<forall>n s gs dt dty. ends_of_node False n s d = Some gs \<longrightarrow>
          lists_names {i. \<exists>g \<in> gs. known_entity V False d g = Some i} dt dty (gc_get_writer_names_and_types_by_node G n s dt dty d)))"

section \<open>A small graph cache\<close>

text \<open>The endpoints as an association list; the first entry of a key counts.\<close>

type_synonym ex_graph = "((bool \<times> gid) \<times> entity_info) list"

fun ex_listing :: "demangle \<Rightarrow> demangle \<Rightarrow> entity_info list \<Rightarrow> (rmw_ret \<times> names_and_types) result" where
  "ex_listing dt dty [] = Inr (RMW_RET_OK, [])"
| "ex_listing dt dty (i # is) =
     rbind (dt (ei_topic i)) (\<lambda>n.
     if n = [] then ex_listing dt dty is
     else rbind (dty (ei_type i)) (\<lambda>t. rbind (ex_listing dt dty is) (\<lambda>(ret, ns). Inr (ret, (n, [t]) # ns))))"

lemma listed_simps [simp]: "listed [] = {}" "listed ((n, [t]) # ns) = insert (n, t) (listed ns)"
  by (auto simp: listed_def)

lemma demangle_throws_insert:
  "demangle_throws (insert i I) dt dty = demangle_throws I dt dty \<union> demangle_throws {i} dt dty"
  by (auto simp: demangle_throws_def)

lemma ex_listing_lists: "lists_names (set is) dt dty (ex_listing dt dty is)"
proof (induction "is")
  case Nil
  show ?case by (simp add: lists_names_def demangle_throws_def)
next
  case (Cons i "is")
  show ?case
  proof (cases "demangle_throws {i} dt dty = {}")
    case True
    then have fine: "\<And>e. dt (ei_topic i) \<noteq> Inl e" "\<And>e n. dt (ei_topic i) = Inr n \<Longrightarrow> n \<noteq> [] \<Longrightarrow> dty (ei_type i) \<noteq> Inl e"
      by (auto simp: demangle_throws_def)
    obtain n where n: "dt (ei_topic i) = Inr n" using fine(1) by (cases "dt (ei_topic i)") auto
    show ?thesis
    proof (cases "n = []")
      case True
      then show ?thesis using Cons n \<open>demangle_throws {i} dt dty = {}\<close>
        by (auto simp: lists_names_def demangle_throws_insert [of i "set is"])
    next
      case False
      then obtain t where "dty (ei_type i) = Inr t" using fine(2) [OF n] by (cases "dty (ei_type i)") auto
      then show ?thesis using Cons n False \<open>demangle_throws {i} dt dty = {}\<close>
        by (auto simp: lists_names_def demangle_throws_insert [of i "set is"] split: if_splits)
    qed
  next
    case False
    then show ?thesis using Cons
      by (auto simp: lists_names_def demangle_throws_insert [of i "set is"] demangle_throws_def rbind_def split: sum.splits if_splits)
  qed
qed

definition ex_known :: "bool \<Rightarrow> ex_graph \<Rightarrow> gid \<Rightarrow> entity_info option" where
  "ex_known r d g = map_of d (r, g)"

definition ex_ends :: "(bool \<Rightarrow> bool) \<Rightarrow> ex_graph \<Rightarrow> (gid \<times> entity_info) list" where
  "ex_ends P d = map (\<lambda>((r, g), i). (g, i)) (filter (\<lambda>((r, g), i). P r \<and> ex_known r d g = Some i) d)"

lemma ex_ends: "(g, i) \<in> set (ex_ends P d) \<longleftrightarrow> (\<exists>r. P r \<and> ex_known r d g = Some i)"
  by (force simp: ex_ends_def ex_known_def dest: map_of_SomeD)

definition ex_count :: "bool \<Rightarrow> string \<Rightarrow> ex_graph \<Rightarrow> nat" where
  "ex_count r topic d = length (remdups (map fst (filter (\<lambda>(_, i). ei_topic i = topic) (ex_ends (\<lambda>x. x = r) d))))"

lemma ex_count: "ex_count r topic d = card {g. \<exists>i. ex_known r d g = Some i \<and> ei_topic i = topic}"
proof -
  have "set (map fst (filter (\<lambda>(_, i). ei_topic i = topic) (ex_ends (\<lambda>x. x = r) d))) = {g. \<exists>i. ex_known r d g = Some i \<and> ei_topic i = topic}"
    using ex_ends [of _ _ "\<lambda>x. x = r" d] by (auto simp: image_iff)
  then show ?thesis by (simp only: ex_count_def length_remdups_card_conv)
qed

definition ex_graph_view :: "ex_graph disc_view" where
  "ex_graph_view = \<lparr>participants_due = (\<lambda>_ _. []), endpoints_due = (\<lambda>_ _. []), announcements_due = (\<lambda>_. []),
     known_entity = ex_known, known_enclave = (\<lambda>_ _. None), wakeups = (\<lambda>_. 0)\<rparr>"

text \<open>The only node is the one all endpoints belong to.\<close>

definition ex_ends_of_node :: "bool \<Rightarrow> string \<Rightarrow> string \<Rightarrow> ex_graph \<Rightarrow> gid set option" where
  "ex_ends_of_node r n s d = (if n = ''talker'' \<and> s = ''/'' then Some UNIV else None)"

definition ex_by_node :: "bool \<Rightarrow> string \<Rightarrow> string \<Rightarrow> demangle \<Rightarrow> demangle \<Rightarrow> ex_graph \<Rightarrow> (rmw_ret \<times> names_and_types) result" where
  "ex_by_node r n s dt dty d = ex_listing dt dty (map snd (ex_ends (\<lambda>x. x = r) d))"

definition ex_graph_api :: "(unit, unit, ex_graph) graph_api" where
  "ex_graph_api = \<lparr>validate_full_topic_name = (\<lambda>_. (RMW_RET_OK, True)), validate_node_name = (\<lambda>_. (RMW_RET_OK, True)),
     validate_namespace = (\<lambda>_. (RMW_RET_OK, True)), gc_get_node_names = (\<lambda>_ _. (RMW_RET_OK, [(''talker'', ''/'', ''/'')])),
     gc_get_reader_count = (\<lambda>t d. (RMW_RET_OK, ex_count True t d)), gc_get_writer_count = (\<lambda>t d. (RMW_RET_OK, ex_count False t d)),
     gc_get_names_and_types = (\<lambda>dt dty d. ex_listing dt dty (map snd (ex_ends (\<lambda>_. True) d))),
     gc_get_reader_names_and_types_by_node = ex_by_node True, gc_get_writer_names_and_types_by_node = ex_by_node False,
     gc_get_writers_info_by_topic = (\<lambda>_ _ _. Inr (RMW_RET_OK, [])), gc_get_readers_info_by_topic = (\<lambda>_ _ _. Inr (RMW_RET_OK, [])),
     gc_get_clients_info_by_service = (\<lambda>_ _. (RMW_RET_OK, [])), gc_get_servers_info_by_service = (\<lambda>_ _. (RMW_RET_OK, []))\<rparr>"

lemma ex_lists:
  "lists_names (\<Union>r. ran (ex_known r d)) dt dty (ex_listing dt dty (map snd (ex_ends (\<lambda>_. True) d)))"
  "lists_names {i. \<exists>g. ex_known r d g = Some i} dt dty (ex_by_node r n s dt dty d)"
proof -
  have "set (map snd (ex_ends (\<lambda>_. True) d)) = (\<Union>r. ran (ex_known r d))"
    using ex_ends [of _ _ "\<lambda>_. True" d] by (force simp: ran_def)
  then show "lists_names (\<Union>r. ran (ex_known r d)) dt dty (ex_listing dt dty (map snd (ex_ends (\<lambda>_. True) d)))"
    using ex_listing_lists by metis
  have "set (map snd (ex_ends (\<lambda>x. x = r) d)) = {i. \<exists>g. ex_known r d g = Some i}"
    using ex_ends [of _ _ "\<lambda>x. x = r" d] by force
  then show "lists_names {i. \<exists>g. ex_known r d g = Some i} dt dty (ex_by_node r n s dt dty d)"
    unfolding ex_by_node_def using ex_listing_lists by metis
qed

lemma ex_graph_spec: "graph_spec ex_graph_view ex_ends_of_node ex_graph_api"
  by (simp add: graph_spec_def ex_graph_view_def ex_graph_api_def ex_ends_of_node_def ex_count ex_lists)

section \<open>What was created\<close>

text \<open>
  The ends of publishers and subscriptions, of clients and of services, by the name they were created
  with after its slash and by the type support.  Their topics and types are those the functions that
  create them choose.
\<close>

datatype end_kind = TopicEnd | ClientEnd | ServiceEnd

record made_end =
  me_kind :: end_kind
  me_name :: string
  me_identifier :: typesupport_identifier
  me_namespace :: "string list"
  me_type :: string

definition me_support_namespace :: "made_end \<Rightarrow> string" where
  "me_support_namespace m = join (if me_identifier m = IntrospectionC then ''__'' else ''::'') (me_namespace m)"

definition end_names :: "bool \<Rightarrow> made_end \<Rightarrow> string \<times> string" where
  "end_names is_reader m =
     (case me_kind m of
        TopicEnd \<Rightarrow> (make_fqtopic ROS_TOPIC_PREFIX (CHR ''/'' # me_name m) [] False,
          fst (get_message_type_name (me_identifier m) (me_support_namespace m) (me_type m)))
      | k \<Rightarrow>
        let c = choose_names (k = ServiceEnd) (CHR ''/'' # me_name m) False
              (fst (get_request_type_name (me_identifier m) (me_support_namespace m) (me_type m)))
              (fst (get_response_type_name (me_identifier m) (me_support_namespace m) (me_type m))) in
        if is_reader then (subtopic_name c, sub_type_name c) else (pubtopic_name c, pub_type_name c))"

definition ros_name :: "made_end \<Rightarrow> string" where
  "ros_name m = CHR ''/'' # me_name m"

definition ros_type :: "made_end \<Rightarrow> string" where
  "ros_type m = qualify ''/'' (me_namespace m) @ me_type m"

text \<open>\<open>M\<close> says what each endpoint was made as.\<close>

definition graph_of :: "'d disc_view \<Rightarrow> 'd \<Rightarrow> (bool \<Rightarrow> gid \<Rightarrow> made_end option) \<Rightarrow> bool" where
  "graph_of V d M \<longleftrightarrow> (\<forall>r g.
     map_option (\<lambda>i. (ei_topic i, ei_type i)) (known_entity V r d g) = map_option (end_names r) (M r g)
     \<and> (\<forall>m. M r g = Some m \<longrightarrow> me_identifier m \<noteq> OtherIdentifier \<and> (\<forall>p \<in> set (me_namespace m). namespace_part p)))"

lemma made_of_known:
  assumes "graph_of V d M" "known_entity V r d g = Some i"
  obtains m where "M r g = Some m" "ei_topic i = fst (end_names r m)" "ei_type i = snd (end_names r m)"
  using assms spec [OF spec [OF assms(1) [unfolded graph_of_def], of r], of g] by (cases "M r g") (auto simp: prod_eq_iff)

lemma known_of_made:
  assumes "graph_of V d M" "M r g = Some m"
  obtains i where "known_entity V r d g = Some i" "ei_topic i = fst (end_names r m)" "ei_type i = snd (end_names r m)"
  using assms spec [OF spec [OF assms(1) [unfolded graph_of_def], of r], of g] by (cases "known_entity V r d g") (auto simp: prod_eq_iff)

lemma made_well_formed:
  assumes "graph_of V d M" "M r g = Some m"
  shows "me_identifier m \<noteq> OtherIdentifier" "\<forall>p \<in> set (me_namespace m). namespace_part p"
  using assms unfolding graph_of_def by blast+

section \<open>How the names are read\<close>

lemma demangled_topic:
  "demangle_ros_topic_from_topic (fst (end_names r m)) = Inr (if me_kind m = TopicEnd then ros_name m else [])"
  "demangle_service_from_topic (fst (end_names r m)) = Inr (if me_kind m = TopicEnd then [] else ros_name m)"
  using topic_name_roundtrip [of "me_name m"]
  by (cases "me_kind m"; simp add: end_names_def choose_names_def Let_def ros_name_def)+

lemma demangled_reader_topic:
  "demangle_service_request_from_topic (fst (end_names True m)) = Inr (if me_kind m = ServiceEnd then ros_name m else [])"
  "demangle_service_reply_from_topic (fst (end_names True m)) = Inr (if me_kind m = ClientEnd then ros_name m else [])"
  using topic_name_roundtrip [of "me_name m"]
  by (cases "me_kind m"; simp add: end_names_def choose_names_def Let_def ros_name_def affix_defs make_fqtopic_def demangle_other_prefix)+

lemma demangled_type:
  assumes "me_identifier m \<noteq> OtherIdentifier" "\<forall>p \<in> set (me_namespace m). namespace_part p" "replaces_all far"
  shows "me_kind m = TopicEnd \<Longrightarrow> demangle_if_ros_type far (snd (end_names r m)) = Inr (ros_type m)"
    and "me_kind m \<noteq> TopicEnd \<Longrightarrow> demangle_service_type_only far (snd (end_names r m)) = Inr (ros_type m)"
proof -
  have ns: "me_support_namespace m = join ''__'' (me_namespace m) \<or> me_support_namespace m = join ''::'' (me_namespace m)"
    by (simp add: me_support_namespace_def)
  show "me_kind m = TopicEnd \<Longrightarrow> demangle_if_ros_type far (snd (end_names r m)) = Inr (ros_type m)"
    using message_type_name_roundtrip [OF assms(2) ns assms(3,1), of "me_type m"] by (simp add: end_names_def ros_type_def)
  show "me_kind m \<noteq> TopicEnd \<Longrightarrow> demangle_service_type_only far (snd (end_names r m)) = Inr (ros_type m)"
    using service_type_name_roundtrip [OF assms(2) ns assms(3,1), of "me_type m"]
    by (cases "me_kind m") (simp_all add: end_names_def choose_names_def Let_def ros_type_def)
qed

lemma end_topic_eq:
  "fst (end_names r m) = make_fqtopic ROS_TOPIC_PREFIX (CHR ''/'' # t) [] False \<longleftrightarrow> me_kind m = TopicEnd \<and> me_name m = t"
  "fst (end_names True m) = make_fqtopic ROS_SERVICE_RESPONSE_PREFIX (CHR ''/'' # t) ''Reply'' False \<longleftrightarrow> me_kind m = ClientEnd \<and> me_name m = t"
  "fst (end_names True m) = make_fqtopic ROS_SERVICE_REQUESTER_PREFIX (CHR ''/'' # t) ''Request'' False \<longleftrightarrow> me_kind m = ServiceEnd \<and> me_name m = t"
  by (cases "me_kind m"; auto simp: end_names_def choose_names_def Let_def make_fqtopic_def affix_defs)+

section \<open>Listings\<close>

text \<open>The descriptions are those of certain ends, each with the side it is read from.\<close>

definition describes_made :: "entity_info set \<Rightarrow> (bool \<times> made_end) set \<Rightarrow> bool" where
  "describes_made I S \<longleftrightarrow> (\<forall>i \<in> I. \<exists>r m. (r, m) \<in> S \<and> ei_topic i = fst (end_names r m) \<and> ei_type i = snd (end_names r m))
     \<and> (\<forall>r m. (r, m) \<in> S \<longrightarrow> (\<exists>i \<in> I. ei_topic i = fst (end_names r m) \<and> ei_type i = snd (end_names r m)))"

lemma lists_names_exact:
  assumes "lists_names I dt dty res" "describes_made I S"
    and "\<And>r m. (r, m) \<in> S \<Longrightarrow> dt (fst (end_names r m)) = Inr (if sel m then ros_name m else [])"
    and "\<And>r m. (r, m) \<in> S \<Longrightarrow> sel m \<Longrightarrow> dty (snd (end_names r m)) = Inr (ros_type m)"
  shows "\<exists>ns. res = Inr (RMW_RET_OK, ns) \<and> listed ns = {(ros_name m, ros_type m) |r m. (r, m) \<in> S \<and> sel m}"
proof -
  note made = assms(2) [unfolded describes_made_def, THEN conjunct1, rule_format]
    and known = assms(2) [unfolded describes_made_def, THEN conjunct2, rule_format]
  have one: "\<exists>r m. (r, m) \<in> S \<and> dt (ei_topic i) = Inr (if sel m then ros_name m else []) \<and> (sel m \<longrightarrow> dty (ei_type i) = Inr (ros_type m))"
    if "i \<in> I" for i
    using made [OF that] assms(3,4) by metis
  have "e \<notin> demangle_throws I dt dty" for e
  proof
    assume "e \<in> demangle_throws I dt dty"
    then obtain i where i: "i \<in> I" "dt (ei_topic i) = Inl e \<or> (\<exists>n. dt (ei_topic i) = Inr n \<and> n \<noteq> [] \<and> dty (ei_type i) = Inl e)"
      by (auto simp: demangle_throws_def)
    show False using one [OF i(1)] i(2) by (auto split: if_splits)
  qed
  then have "demangle_throws I dt dty = {}" by blast
  then obtain ns where "res = Inr (RMW_RET_OK, ns)"
    and ns: "listed ns = {(n, t). \<exists>i \<in> I. dt (ei_topic i) = Inr n \<and> n \<noteq> [] \<and> dty (ei_type i) = Inr t}"
    using assms(1) by (auto simp: lists_names_def)
  moreover have "{(n, t). \<exists>i \<in> I. dt (ei_topic i) = Inr n \<and> n \<noteq> [] \<and> dty (ei_type i) = Inr t}
      = {(ros_name m, ros_type m) |r m. (r, m) \<in> S \<and> sel m}" (is "?L = ?R")
  proof
    show "?L \<subseteq> ?R"
    proof
      fix x assume "x \<in> ?L"
      then obtain n t i where x: "x = (n, t)" "i \<in> I" "dt (ei_topic i) = Inr n" "n \<noteq> []" "dty (ei_type i) = Inr t" by blast
      obtain r m where "(r, m) \<in> S" "dt (ei_topic i) = Inr (if sel m then ros_name m else [])" "sel m \<longrightarrow> dty (ei_type i) = Inr (ros_type m)"
        using one [OF x(2)] by blast
      then have "x = (ros_name m, ros_type m) \<and> (r, m) \<in> S \<and> sel m" using x by (cases "sel m") simp_all
      then show "x \<in> ?R" by blast
    qed
    show "?R \<subseteq> ?L"
    proof
      fix x assume "x \<in> ?R"
      then obtain r m where m: "x = (ros_name m, ros_type m)" "(r, m) \<in> S" "sel m" by blast
      obtain i where "i \<in> I" "ei_topic i = fst (end_names r m)" "ei_type i = snd (end_names r m)" using known [OF m(2)] by blast
      then show "x \<in> ?L" using m(1,3) assms(3,4) [OF m(2)] by (auto simp: ros_name_def intro!: bexI [of _ i])
    qed
  qed
  ultimately show ?thesis by simp
qed

definition all_made :: "(bool \<Rightarrow> gid \<Rightarrow> made_end option) \<Rightarrow> (bool \<times> made_end) set" where
  "all_made M = {(r, m). \<exists>g. M r g = Some m}"

lemma describes_all:
  assumes "graph_of V d M"
  shows "describes_made (\<Union>r. ran (known_entity V r d)) (all_made M)"
  unfolding describes_made_def
proof (intro conjI ballI allI impI)
  fix i assume "i \<in> (\<Union>r. ran (known_entity V r d))"
  then obtain r g where i: "known_entity V r d g = Some i" by (auto simp: ran_def)
  obtain m where "M r g = Some m" "ei_topic i = fst (end_names r m)" "ei_type i = snd (end_names r m)"
    by (rule made_of_known [OF assms i])
  then show "\<exists>r m. (r, m) \<in> all_made M \<and> ei_topic i = fst (end_names r m) \<and> ei_type i = snd (end_names r m)"
    unfolding all_made_def by blast
next
  fix r m assume "(r, m) \<in> all_made M"
  then obtain g where m: "M r g = Some m" by (auto simp: all_made_def)
  obtain i where "known_entity V r d g = Some i" "ei_topic i = fst (end_names r m)" "ei_type i = snd (end_names r m)"
    by (rule known_of_made [OF assms m])
  then show "\<exists>i \<in> \<Union>r. ran (known_entity V r d). ei_topic i = fst (end_names r m) \<and> ei_type i = snd (end_names r m)"
    unfolding ran_def by blast
qed

lemma describes_node:
  assumes "graph_of V d M"
  shows "describes_made {i. \<exists>g \<in> gs. known_entity V r d g = Some i} {(r', m). r' = r \<and> (\<exists>g \<in> gs. M r g = Some m)}"
  unfolding describes_made_def
proof (intro conjI ballI allI impI)
  fix i assume "i \<in> {i. \<exists>g \<in> gs. known_entity V r d g = Some i}"
  then obtain g where i: "g \<in> gs" "known_entity V r d g = Some i" by blast
  obtain m where "M r g = Some m" "ei_topic i = fst (end_names r m)" "ei_type i = snd (end_names r m)"
    by (rule made_of_known [OF assms i(2)])
  then show "\<exists>r' m. (r', m) \<in> {(r', m). r' = r \<and> (\<exists>g \<in> gs. M r g = Some m)}
      \<and> ei_topic i = fst (end_names r' m) \<and> ei_type i = snd (end_names r' m)" using i(1) by blast
next
  fix r' m assume "(r', m) \<in> {(r', m). r' = r \<and> (\<exists>g \<in> gs. M r g = Some m)}"
  then obtain g where m: "r' = r" "g \<in> gs" "M r g = Some m" by blast
  obtain i where "known_entity V r d g = Some i" "ei_topic i = fst (end_names r m)" "ei_type i = snd (end_names r m)"
    by (rule known_of_made [OF assms m(3)])
  then show "\<exists>i \<in> {i. \<exists>g \<in> gs. known_entity V r d g = Some i}. ei_topic i = fst (end_names r' m) \<and> ei_type i = snd (end_names r' m)"
    using m(1,2) by blast
qed

lemma lists_names_node:
  assumes "lists_names {i. \<exists>g \<in> gs. known_entity V r d g = Some i} dt dty res" "graph_of V d M"
    and "\<And>g m. M r g = Some m \<Longrightarrow> dt (fst (end_names r m)) = Inr (if sel m then ros_name m else [])"
    and "\<And>g m. M r g = Some m \<Longrightarrow> sel m \<Longrightarrow> dty (snd (end_names r m)) = Inr (ros_type m)"
  shows "\<exists>ns. res = Inr (RMW_RET_OK, ns) \<and> listed ns = {(ros_name m, ros_type m) |m. (\<exists>g \<in> gs. M r g = Some m) \<and> sel m}"
proof -
  let ?S = "{(r', m). r' = r \<and> (\<exists>g \<in> gs. M r g = Some m)}"
  have eq: "{(ros_name m, ros_type m) |m. (\<exists>g \<in> gs. M r g = Some m) \<and> sel m} = {(ros_name m, ros_type m) |r m. (r, m) \<in> ?S \<and> sel m}"
    by blast
  show ?thesis unfolding eq by (rule lists_names_exact [OF assms(1) describes_node [OF assms(2)]]) (use assms(3,4) in blast)+
qed

text \<open>A graph for the examples: a publisher, a service and a client of another one.\<close>

definition ex_made :: "((bool \<times> gid) \<times> made_end) list" where
  "ex_made =
     [((False, ex_gid 1), \<lparr>me_kind = TopicEnd, me_name = ''chatter'', me_identifier = IntrospectionCpp, me_namespace = [''std_msgs'', ''msg''], me_type = ''String''\<rparr>),
      ((True, ex_gid 2), \<lparr>me_kind = ServiceEnd, me_name = ''add'', me_identifier = IntrospectionC, me_namespace = [''pkg'', ''srv''], me_type = ''Add''\<rparr>),
      ((False, ex_gid 3), \<lparr>me_kind = ServiceEnd, me_name = ''add'', me_identifier = IntrospectionC, me_namespace = [''pkg'', ''srv''], me_type = ''Add''\<rparr>),
      ((True, ex_gid 4), \<lparr>me_kind = ClientEnd, me_name = ''sub'', me_identifier = IntrospectionC, me_namespace = [''pkg'', ''srv''], me_type = ''Add''\<rparr>)]"

definition ex_described :: "bool \<Rightarrow> made_end \<Rightarrow> entity_info" where
  "ex_described r m = \<lparr>ei_topic = fst (end_names r m), ei_type = snd (end_names r m), ei_type_hash = [], ei_participant = ex_gid 1,
     ei_qos = ex_profile, ei_ser_type_hash = None\<rparr>"

definition ex_graph_state :: ex_graph where
  "ex_graph_state = map (\<lambda>(k, m). (k, ex_described (fst k) m)) ex_made"

definition ex_made_as :: "bool \<Rightarrow> gid \<Rightarrow> made_end option" where
  "ex_made_as r g = map_of ex_made (r, g)"

lemma ex_graph_of: "graph_of ex_graph_view ex_graph_state ex_made_as"
proof -
  have "map_of (map (\<lambda>(k, m). (k, ex_described (fst k) m)) ms) (r, g) = map_option (ex_described r) (map_of ms (r, g))" for ms r g
    by (induction ms) auto
  then have "ex_known r ex_graph_state g = map_option (ex_described r) (ex_made_as r g)" for r g
    by (simp add: ex_known_def ex_graph_state_def ex_made_as_def)
  then have "map_option (\<lambda>i. (ei_topic i, ei_type i)) (ex_known r ex_graph_state g) = map_option (end_names r) (ex_made_as r g)" for r g
    by (cases "ex_made_as r g") (simp_all add: ex_described_def)
  moreover have "me_identifier m \<noteq> OtherIdentifier \<and> (\<forall>p \<in> set (me_namespace m). namespace_part p)" if "ex_made_as r g = Some m" for r g m
    using that by (auto simp: ex_made_as_def ex_made_def namespace_part_def split: if_splits)
  ultimately show ?thesis by (simp add: graph_of_def ex_graph_view_def)
qed

lemma replaces_slashes: "replaces_all (\<lambda>s _ _. slashes s)"
  by (simp add: replaces_all_def)

lemma ex_made_simps:
  "ex_made_as True (ex_gid 2) = Some (snd (ex_made ! 1))" "ex_made_as False (ex_gid 1) = Some (snd (ex_made ! 0))"
  "ros_name (snd (ex_made ! 0)) = ''/chatter''" "ros_type (snd (ex_made ! 0)) = ''std_msgs/msg/String''" "me_kind (snd (ex_made ! 0)) = TopicEnd"
  "ros_name (snd (ex_made ! 1)) = ''/add''" "ros_type (snd (ex_made ! 1)) = ''pkg/srv/Add''" "me_kind (snd (ex_made ! 1)) = ServiceEnd"
  by (simp_all add: ex_made_as_def ex_made_def ex_gid_eq ros_name_def ros_type_def)



text \<open>
  The queries for a node tell its ends apart: subscriptions, publishers, services and clients of a node are
  each listed by the query for them, under their ROS names and types, and by no other.
\<close>

theorem node_queries_list_its_ends:
  assumes "graph_spec V N G" "graph_of V d M" "replaces_all far"
    and "validate_node_name G n = (RMW_RET_OK, True)" "validate_namespace G s = (RMW_RET_OK, True)"
    and "N True n s d = Some rs" "N False n s d = Some ws"
  shows "\<exists>subs pubs srvs clis.
      rmw_get_subscriber_names_and_types_by_node G far n s False True d = Inr (RMW_RET_OK, Some subs)
    \<and> listed subs = {(ros_name m, ros_type m) |m. (\<exists>g \<in> rs. M True g = Some m) \<and> me_kind m = TopicEnd}
    \<and> rmw_get_publisher_names_and_types_by_node G far n s False True d = Inr (RMW_RET_OK, Some pubs)
    \<and> listed pubs = {(ros_name m, ros_type m) |m. (\<exists>g \<in> ws. M False g = Some m) \<and> me_kind m = TopicEnd}
    \<and> rmw_get_service_names_and_types_by_node G far n s True d = Inr (RMW_RET_OK, Some srvs)
    \<and> listed srvs = {(ros_name m, ros_type m) |m. (\<exists>g \<in> rs. M True g = Some m) \<and> me_kind m = ServiceEnd}
    \<and> rmw_get_client_names_and_types_by_node G far n s True d = Inr (RMW_RET_OK, Some clis)
    \<and> listed clis = {(ros_name m, ros_type m) |m. (\<exists>g \<in> rs. M True g = Some m) \<and> me_kind m = ClientEnd}"
proof -
  have spec: "lists_names {i. \<exists>g \<in> rs. known_entity V True d g = Some i} dt dty (gc_get_reader_names_and_types_by_node G n s dt dty d)"
    "lists_names {i. \<exists>g \<in> ws. known_entity V False d g = Some i} dt dty (gc_get_writer_names_and_types_by_node G n s dt dty d)" for dt dty
    using assms(1,6,7) unfolding graph_spec_def by blast+
  note readers = lists_names_node [OF spec(1) assms(2)]
    and writers = lists_names_node [OF spec(2) assms(2)]
    and types = demangled_type [OF _ _ assms(3)]
  have "\<exists>ns. gc_get_reader_names_and_types_by_node G n s demangle_ros_topic_from_topic (demangle_if_ros_type far) d = Inr (RMW_RET_OK, ns)
      \<and> listed ns = {(ros_name m, ros_type m) |m. (\<exists>g \<in> rs. M True g = Some m) \<and> me_kind m = TopicEnd}"
    by (intro readers [where sel = "\<lambda>m. me_kind m = TopicEnd"]) (auto simp: demangled_topic intro!: types dest: made_well_formed [OF assms(2)])
  moreover have "\<exists>ns. gc_get_writer_names_and_types_by_node G n s demangle_ros_topic_from_topic (demangle_if_ros_type far) d = Inr (RMW_RET_OK, ns)
      \<and> listed ns = {(ros_name m, ros_type m) |m. (\<exists>g \<in> ws. M False g = Some m) \<and> me_kind m = TopicEnd}"
    by (intro writers [where sel = "\<lambda>m. me_kind m = TopicEnd"]) (auto simp: demangled_topic intro!: types dest: made_well_formed [OF assms(2)])
  moreover have "\<exists>ns. gc_get_reader_names_and_types_by_node G n s demangle_service_request_from_topic (demangle_service_type_only far) d
        = Inr (RMW_RET_OK, ns)
      \<and> listed ns = {(ros_name m, ros_type m) |m. (\<exists>g \<in> rs. M True g = Some m) \<and> me_kind m = ServiceEnd}"
    by (intro readers [where sel = "\<lambda>m. me_kind m = ServiceEnd"]) (auto simp: demangled_reader_topic intro!: types dest: made_well_formed [OF assms(2)])
  moreover have "\<exists>ns. gc_get_reader_names_and_types_by_node G n s demangle_service_reply_from_topic (demangle_service_type_only far) d
        = Inr (RMW_RET_OK, ns)
      \<and> listed ns = {(ros_name m, ros_type m) |m. (\<exists>g \<in> rs. M True g = Some m) \<and> me_kind m = ClientEnd}"
    by (intro readers [where sel = "\<lambda>m. me_kind m = ClientEnd"]) (auto simp: demangled_reader_topic intro!: types dest: made_well_formed [OF assms(2)])
  ultimately show ?thesis
    by (auto simp: rmw_get_subscriber_names_and_types_by_node_def rmw_get_publisher_names_and_types_by_node_def
        rmw_get_service_names_and_types_by_node_def rmw_get_client_names_and_types_by_node_def
        get_topic_names_and_types_by_node_def get_reader_names_and_types_by_node_def get_writer_names_and_types_by_node_def assms(4,5))
qed

lemma node_queries_list_its_ends_witness:
  "\<exists>srvs clis. rmw_get_service_names_and_types_by_node ex_graph_api (\<lambda>s _ _. slashes s) ''talker'' ''/'' True ex_graph_state = Inr (RMW_RET_OK, Some srvs)
    \<and> (''/add'', ''pkg/srv/Add'') \<in> listed srvs
    \<and> rmw_get_client_names_and_types_by_node ex_graph_api (\<lambda>s _ _. slashes s) ''talker'' ''/'' True ex_graph_state = Inr (RMW_RET_OK, Some clis)
    \<and> (''/add'', ''pkg/srv/Add'') \<notin> listed clis"
proof -
  have v: "validate_node_name ex_graph_api n = (RMW_RET_OK, True)" "validate_namespace ex_graph_api n = (RMW_RET_OK, True)" for n
    by (simp_all add: ex_graph_api_def)
  have u: "ex_ends_of_node r ''talker'' ''/'' ex_graph_state = Some UNIV" for r by (simp add: ex_ends_of_node_def)
  note queries = node_queries_list_its_ends [where n = "''talker''" and s = "''/''" and rs = UNIV and ws = UNIV,
      OF ex_graph_spec ex_graph_of, OF replaces_slashes, OF v, OF u, OF u]
  obtain srvs clis where s: "rmw_get_service_names_and_types_by_node ex_graph_api (\<lambda>s _ _. slashes s) ''talker'' ''/'' True ex_graph_state
        = Inr (RMW_RET_OK, Some srvs)"
    "listed srvs = {(ros_name m, ros_type m) |m. (\<exists>g \<in> UNIV. ex_made_as True g = Some m) \<and> me_kind m = ServiceEnd}"
    and c: "rmw_get_client_names_and_types_by_node ex_graph_api (\<lambda>s _ _. slashes s) ''talker'' ''/'' True ex_graph_state
        = Inr (RMW_RET_OK, Some clis)"
    "listed clis = {(ros_name m, ros_type m) |m. (\<exists>g \<in> UNIV. ex_made_as True g = Some m) \<and> me_kind m = ClientEnd}"
    using queries by (elim exE conjE) (rule that)
  have "(''/add'', ''pkg/srv/Add'') \<in> listed srvs"
    unfolding s(2) using ex_made_simps(1,6-8) by force
  moreover have "(''/add'', ''pkg/srv/Add'') \<notin> listed clis"
  proof -
    have "me_name m = ''sub''" if "ex_made_as True g = Some m" "me_kind m = ClientEnd" for g m
      using that by (auto simp: ex_made_as_def ex_made_def split: if_splits)
    then show ?thesis unfolding c(2) by (auto simp: ros_name_def)
  qed
  ultimately show ?thesis using s(1) c(1) by blast
qed

section \<open>Counts\<close>

lemma ends_with_topic:
  assumes "graph_of V d M"
  shows "{g. \<exists>i. known_entity V r d g = Some i \<and> ei_topic i = t} = {g. \<exists>m. M r g = Some m \<and> fst (end_names r m) = t}"
  using made_of_known [OF assms, of r] known_of_made [OF assms, of r] by (metis (no_types, lifting))

text \<open>
  The counts are exact: of the endpoints created under ROS names, \<open>rmw_count_publishers\<close> and \<open>rmw_count_subscribers\<close>
  count the publishers and the subscriptions of the name asked for, \<open>rmw_count_clients\<close> and \<open>rmw_count_services\<close> the clients
  and the services, and none counts an end of another kind or name.
\<close>

theorem counts_exact:
  assumes "graph_spec V N G" "graph_of V d M" "validate_full_topic_name G (CHR ''/'' # t) = (RMW_RET_OK, True)"
  shows "rmw_count_publishers G (CHR ''/'' # t) d
        = (RMW_RET_OK, Some (card {g. \<exists>m. M False g = Some m \<and> me_kind m = TopicEnd \<and> me_name m = t}))
    \<and> rmw_count_subscribers G (CHR ''/'' # t) d
        = (RMW_RET_OK, Some (card {g. \<exists>m. M True g = Some m \<and> me_kind m = TopicEnd \<and> me_name m = t}))
    \<and> rmw_count_clients G (CHR ''/'' # t) d
        = (RMW_RET_OK, Some (card {g. \<exists>m. M True g = Some m \<and> me_kind m = ClientEnd \<and> me_name m = t}))
    \<and> rmw_count_services G (CHR ''/'' # t) d
        = (RMW_RET_OK, Some (card {g. \<exists>m. M True g = Some m \<and> me_kind m = ServiceEnd \<and> me_name m = t}))"
proof -
  have "gc_get_reader_count G x d = (RMW_RET_OK, card {g. \<exists>i. known_entity V True d g = Some i \<and> ei_topic i = x})"
    "gc_get_writer_count G x d = (RMW_RET_OK, card {g. \<exists>i. known_entity V False d g = Some i \<and> ei_topic i = x})" for x
    using assms(1) unfolding graph_spec_def by blast+
  then show ?thesis
    by (simp add: rmw_count_publishers_def rmw_count_subscribers_def rmw_count_clients_def rmw_count_services_def count_valid_def
        assms(3) ends_with_topic [OF assms(2)] end_topic_eq)
qed

lemma counts_exact_witness:
  "rmw_count_services ex_graph_api ''/add'' ex_graph_state = (RMW_RET_OK, Some 1)
    \<and> rmw_count_clients ex_graph_api ''/add'' ex_graph_state = (RMW_RET_OK, Some 0)"
proof -
  have v: "validate_full_topic_name ex_graph_api n = (RMW_RET_OK, True)" for n by (simp add: ex_graph_api_def)
  have ends: "{g. \<exists>m. ex_made_as True g = Some m \<and> me_kind m = ServiceEnd \<and> me_name m = ''add''} = {ex_gid 2}"
    "{g. \<exists>m. ex_made_as True g = Some m \<and> me_kind m = ClientEnd \<and> me_name m = ''add''} = {}"
    by (auto simp: ex_made_as_def ex_made_def split: if_splits)
  show ?thesis using counts_exact [OF ex_graph_spec ex_graph_of v, of "''add''", unfolded ends] by simp
qed

section \<open>A foreign topic\<close>

text \<open>
  C36. One endpoint of any DDS participant, on a topic named exactly \<open>rt\<close>, makes \<open>rmw_get_topic_names_and_types\<close> throw, out of a
  function with C linkage, whatever else is in the graph; without demangling it answers.
\<close>

theorem bare_prefix_topic_breaks_listing:
  assumes "graph_spec V N G" "known_entity V r d g = Some i" "ei_topic i = ''rt''"
  shows "(\<exists>e. rmw_get_topic_names_and_types G far False True d = Inl e)
    \<and> (\<exists>ns. rmw_get_topic_names_and_types G far True True d = Inr (RMW_RET_OK, Some ns))"
proof -
  let ?I = "\<Union>r. ran (known_entity V r d)"
  have spec: "lists_names ?I dt dty (gc_get_names_and_types G dt dty d)" for dt dty
    using assms(1) unfolding graph_spec_def by blast
  have "i \<in> ?I" using assms(2) by (auto simp: ran_def)
  moreover have "demangle_ros_topic_from_topic ''rt'' = Inl (OutOfRange ''basic_string::at'')"
    using demangling_throws_on_bare_prefix by simp
  ultimately have "demangle_throws ?I demangle_ros_topic_from_topic (demangle_if_ros_type far) \<noteq> {}"
    using assms(3) unfolding demangle_throws_def by fastforce
  then have "\<exists>e. gc_get_names_and_types G demangle_ros_topic_from_topic (demangle_if_ros_type far) d = Inl e"
    using spec unfolding lists_names_def by metis
  moreover have "demangle_throws ?I (Inr \<circ> identity_demangle) (Inr \<circ> identity_demangle) = {}" by (simp add: demangle_throws_def)
  then have "\<exists>ns. gc_get_names_and_types G (Inr \<circ> identity_demangle) (Inr \<circ> identity_demangle) d = Inr (RMW_RET_OK, ns)"
    using spec unfolding lists_names_def by metis
  ultimately show ?thesis by (auto simp: rmw_get_topic_names_and_types_def)
qed

lemma bare_prefix_topic_breaks_listing_witness:
  "\<exists>e. rmw_get_topic_names_and_types ex_graph_api (\<lambda>s _ _. slashes s) False True
     (((True, ex_gid 9), (ex_described True (snd (ex_made ! 1)))\<lparr>ei_topic := ''rt''\<rparr>) # ex_graph_state) = Inl e"
  using bare_prefix_topic_breaks_listing [OF ex_graph_spec, where r = True and g = "ex_gid 9"
      and d = "((True, ex_gid 9), (ex_described True (snd (ex_made ! 1)))\<lparr>ei_topic := ''rt''\<rparr>) # ex_graph_state"
      and i = "(ex_described True (snd (ex_made ! 1)))\<lparr>ei_topic := ''rt''\<rparr>"]
  by (simp add: ex_graph_view_def ex_known_def)

end
