(* ===== verification/DynType.thy ===== *)
theory DynType
  imports SerdataProps Names
begin

text \<open>
  \<^verbatim>\<open>dyntype.cpp\<close> and the type library hooks of \<^verbatim>\<open>serdata.cpp\<close>: next to the value type a message is
  serialized with, a topic gets a description of its type in the terms of Cyclone DDS's dynamic
  types, which discovery hands to other participants.  Both are built from the introspection tables.
  The construction interface of Cyclone DDS is the record \<open>dyn_api\<close>; the state behind it and what a
  type handle, a type information and a topic descriptor are is up to it.
\<close>

section \<open>Descriptors\<close>

datatype dyn_kind =
    DDS_DYNAMIC_BOOLEAN | DDS_DYNAMIC_UINT8 | DDS_DYNAMIC_INT8 | DDS_DYNAMIC_CHAR16
  | DDS_DYNAMIC_FLOAT32 | DDS_DYNAMIC_FLOAT64 | DDS_DYNAMIC_INT16 | DDS_DYNAMIC_UINT16
  | DDS_DYNAMIC_INT32 | DDS_DYNAMIC_UINT32 | DDS_DYNAMIC_INT64 | DDS_DYNAMIC_UINT64
  | DDS_DYNAMIC_STRING8 | DDS_DYNAMIC_STRING16 | DDS_DYNAMIC_ARRAY | DDS_DYNAMIC_SEQUENCE
  | DDS_DYNAMIC_STRUCTURE

text \<open>\<open>DDS_DYNAMIC_TYPE_SPEC\<close> of a type, of no type (\<open>{}\<close>), and \<open>DDS_DYNAMIC_TYPE_SPEC_PRIM\<close>.\<close>

datatype 't type_spec = SpecType 't | SpecNone | SpecPrim dyn_kind

record 't type_descriptor =
  td_kind :: dyn_kind
  td_name :: "string option"
  td_bounds :: "u32 list"
  td_element :: "'t type_spec"

record 't member_descriptor =
  md_type :: "'t type_spec"
  md_name :: string

definition get_dynamic_type_descriptor_prim ::
  "dyn_kind \<Rightarrow> string option \<Rightarrow> u32 list \<Rightarrow> dyn_kind \<Rightarrow> 't type_descriptor" where
  "get_dynamic_type_descriptor_prim k name bounds type =
     \<lparr>td_kind = k, td_name = name, td_bounds = bounds, td_element = SpecPrim type\<rparr>"

definition get_dynamic_type_descriptor ::
  "dyn_kind \<Rightarrow> string option \<Rightarrow> u32 list \<Rightarrow> 't option \<Rightarrow> 't type_descriptor" where
  "get_dynamic_type_descriptor k name bounds type =
     \<lparr>td_kind = k, td_name = name, td_bounds = bounds,
      td_element = (case type of Some t \<Rightarrow> SpecType t | None \<Rightarrow> SpecNone)\<rparr>"

definition get_dynamic_member_descriptor_prim :: "dyn_kind \<Rightarrow> string \<Rightarrow> 't member_descriptor" where
  "get_dynamic_member_descriptor_prim type name = \<lparr>md_type = SpecPrim type, md_name = name\<rparr>"

definition get_dynamic_member_descriptor :: "'t \<Rightarrow> string \<Rightarrow> 't member_descriptor" where
  "get_dynamic_member_descriptor ddt name = \<lparr>md_type = SpecType ddt, md_name = name\<rparr>"

section \<open>What the code calls\<close>

text \<open>
  A call that changes the type it is given returns it changed.  \<open>ndebug\<close> says whether the build
  leaves assertions out.
\<close>

record ('t, 'i, 'c, 'd) dyn_api =
  ndebug :: bool
  dds_dynamic_type_create :: "'t type_descriptor \<Rightarrow> 'd \<Rightarrow> 't \<times> 'd"
  dds_dynamic_type_add_member :: "'t \<Rightarrow> 't member_descriptor \<Rightarrow> 'd \<Rightarrow> int \<times> 't \<times> 'd"
  dds_dynamic_type_set_extensibility_final :: "'t \<Rightarrow> 'd \<Rightarrow> 't \<times> 'd"
  dds_dynamic_member_set_key :: "'t \<Rightarrow> nat \<Rightarrow> 'd \<Rightarrow> 't \<times> 'd"
  dds_dynamic_type_register :: "'t \<Rightarrow> 'd \<Rightarrow> int \<times> 'i \<times> 't \<times> 'd"
  dds_dynamic_type_unref :: "'t \<Rightarrow> 'd \<Rightarrow> 'd"
  dds_create_topic_descriptor :: "'i \<Rightarrow> 'd \<Rightarrow> int \<times> 'c \<times> 'd"
  desc_type_information :: "'c \<Rightarrow> u8 list"
  desc_type_mapping :: "'c \<Rightarrow> u8 list"
  dds_delete_topic_descriptor :: "'c \<Rightarrow> 'd \<Rightarrow> 'd"
  dds_free_typeinfo :: "'i \<Rightarrow> 'd \<Rightarrow> 'd"

text \<open>\<open>assert(ret == DDS_RETCODE_OK)\<close> after a member has been added.\<close>

definition add_member_checked ::
  "('t, 'i, 'c, 'd) dyn_api \<Rightarrow> 't \<Rightarrow> 't member_descriptor \<Rightarrow> 'd \<Rightarrow> ('t \<times> 'd) result" where
  "add_member_checked A dstruct md d =
     (case dds_dynamic_type_add_member A dstruct md d of (ret, dstruct, d) \<Rightarrow>
        if ret \<noteq> 0 \<and> \<not> ndebug A then Inl (UB ''assertion failed: ret == DDS_RETCODE_OK'')
        else Inr (dstruct, d))"

section \<open>Members\<close>

definition dynamic_type_add_array_prim ::
  "('t, 'i, 'c, 'd) dyn_api \<Rightarrow> 't \<Rightarrow> meta_member \<Rightarrow> dyn_kind \<Rightarrow> 'd \<Rightarrow> ('t \<times> 'd) result" where
  "dynamic_type_add_array_prim A dstruct mem type d =
     (case (if array_size mem \<noteq> 0 then
              let n = of_nat (array_size mem) :: u32 in
              if \<not> is_upper_bound mem
              then dds_dynamic_type_create A
                     (get_dynamic_type_descriptor_prim DDS_DYNAMIC_ARRAY (Some (mm_name mem)) [n] type) d
              else dds_dynamic_type_create A
                     (get_dynamic_type_descriptor_prim DDS_DYNAMIC_SEQUENCE (Some (mm_name mem)) [n] type) d
            else dds_dynamic_type_create A
                   (get_dynamic_type_descriptor_prim DDS_DYNAMIC_SEQUENCE (Some (mm_name mem)) [] type) d) of
        (ddt, d) \<Rightarrow> add_member_checked A dstruct (get_dynamic_member_descriptor ddt (mm_name mem)) d)"

definition dynamic_type_add_array ::
  "('t, 'i, 'c, 'd) dyn_api \<Rightarrow> 't \<Rightarrow> meta_member \<Rightarrow> 't \<Rightarrow> 'd \<Rightarrow> ('t \<times> 'd) result" where
  "dynamic_type_add_array A dstruct mem ddt d =
     (case (if array_size mem \<noteq> 0 then
              let n = of_nat (array_size mem) :: u32 in
              if \<not> is_upper_bound mem
              then dds_dynamic_type_create A
                     (get_dynamic_type_descriptor DDS_DYNAMIC_ARRAY (Some (mm_name mem)) [n] (Some ddt)) d
              else dds_dynamic_type_create A
                     (get_dynamic_type_descriptor DDS_DYNAMIC_SEQUENCE (Some (mm_name mem)) [n] (Some ddt)) d
            else dds_dynamic_type_create A
                   (get_dynamic_type_descriptor DDS_DYNAMIC_SEQUENCE (Some (mm_name mem)) [] (Some ddt)) d) of
        (dseq, d) \<Rightarrow> add_member_checked A dstruct (get_dynamic_member_descriptor dseq (mm_name mem)) d)"

definition dynamic_type_add_member ::
  "('t, 'i, 'c, 'd) dyn_api \<Rightarrow> 't \<Rightarrow> meta_member \<Rightarrow> dyn_kind \<Rightarrow> 'd \<Rightarrow> ('t \<times> 'd) result" where
  "dynamic_type_add_member A dstruct mem type d =
     (if \<not> is_array mem
      then add_member_checked A dstruct (get_dynamic_member_descriptor_prim type (mm_name mem)) d
      else dynamic_type_add_array_prim A dstruct mem type d)"

text \<open>A member whose type has been made, the end of the cases for strings and messages.\<close>

definition dynamic_type_add_typed ::
  "('t, 'i, 'c, 'd) dyn_api \<Rightarrow> 't \<Rightarrow> meta_member \<Rightarrow> 't \<Rightarrow> 'd \<Rightarrow> ('t \<times> 'd) result" where
  "dynamic_type_add_typed A dstruct mem ddt d =
     (if \<not> is_array mem
      then add_member_checked A dstruct (get_dynamic_member_descriptor ddt (mm_name mem)) d
      else dynamic_type_add_array A dstruct mem ddt d)"

definition dynamic_string_type ::
  "('t, 'i, 'c, 'd) dyn_api \<Rightarrow> dyn_kind \<Rightarrow> meta_member \<Rightarrow> 'd \<Rightarrow> 't \<times> 'd" where
  "dynamic_string_type A k mem d =
     (if string_upper_bound mem \<noteq> 0
      then dds_dynamic_type_create A
             (get_dynamic_type_descriptor k None [of_nat (string_upper_bound mem)] None) d
      else dds_dynamic_type_create A (get_dynamic_type_descriptor k None [] None) d)"

fun prim_dynamic_kind :: "type_kind \<Rightarrow> dyn_kind option" where
  "prim_dynamic_kind BOOLEAN = Some DDS_DYNAMIC_BOOLEAN"
| "prim_dynamic_kind OCTET = Some DDS_DYNAMIC_UINT8"
| "prim_dynamic_kind UINT8 = Some DDS_DYNAMIC_UINT8"
| "prim_dynamic_kind CHAR_T = Some DDS_DYNAMIC_UINT8"
| "prim_dynamic_kind WCHAR = Some DDS_DYNAMIC_CHAR16"
| "prim_dynamic_kind INT8 = Some DDS_DYNAMIC_INT8"
| "prim_dynamic_kind FLOAT = Some DDS_DYNAMIC_FLOAT32"
| "prim_dynamic_kind DOUBLE = Some DDS_DYNAMIC_FLOAT64"
| "prim_dynamic_kind INT16 = Some DDS_DYNAMIC_INT16"
| "prim_dynamic_kind UINT16 = Some DDS_DYNAMIC_UINT16"
| "prim_dynamic_kind INT32 = Some DDS_DYNAMIC_INT32"
| "prim_dynamic_kind UINT32 = Some DDS_DYNAMIC_UINT32"
| "prim_dynamic_kind INT64 = Some DDS_DYNAMIC_INT64"
| "prim_dynamic_kind UINT64 = Some DDS_DYNAMIC_UINT64"
| "prim_dynamic_kind STRING = None"
| "prim_dynamic_kind WSTRING = None"
| "prim_dynamic_kind MESSAGE = None"

text \<open>
  \<open>member->members_->data\<close> taken for a table of the language of the table it is in.  The handles in
  introspection tables are those of the introspection libraries, each of one language: a null handle
  has no table, and the data of any other handle are no table of this language.
\<close>

definition members_data :: "type_generator \<Rightarrow> type_support \<Rightarrow> meta_message option result" where
  "members_data g ts =
     (case (ts_c ts, ts_cpp ts) of
        (None, None) \<Rightarrow> Inr None
      | (Some m, None) \<Rightarrow> if g = ROSIDL_C then Inr (Some m) else Inl (UB ''members of another type support'')
      | (None, Some m) \<Rightarrow> if g = ROSIDL_Cpp then Inr (Some m) else Inl (UB ''members of another type support'')
      | (Some _, Some _) \<Rightarrow> Inl (UB ''data of a dispatching type support''))"

lemma members_data_size [termination_simp]: "members_data g ts = Inr (Some m) \<Longrightarrow> size m < size ts"
  by (cases ts) (auto simp: members_data_def split: option.splits if_splits)

definition create_type_name :: "string option \<Rightarrow> string \<Rightarrow> string" where
  "create_type_name ns name = get_type_name_impl (case ns of Some s \<Rightarrow> s | None \<Rightarrow> []) name []"

section \<open>Messages\<close>

text \<open>
  \<open>construct_dds_dynamic_type\<close> returns \<open>true\<close> (no error message) or \<open>false\<close> with an error message set;
  the type it fills is changed either way.
\<close>

function construct_dds_dynamic_type ::
    "('t, 'i, 'c, 'd) dyn_api \<Rightarrow> type_generator \<Rightarrow> 't \<Rightarrow> meta_message \<Rightarrow> 'd \<Rightarrow> (string option \<times> 't \<times> 'd) result"
  and construct_members ::
    "('t, 'i, 'c, 'd) dyn_api \<Rightarrow> type_generator \<Rightarrow> 't \<Rightarrow> nat \<Rightarrow> meta_member list \<Rightarrow> 'd
      \<Rightarrow> (string option \<times> 't \<times> 'd) result"
  and construct_member ::
    "('t, 'i, 'c, 'd) dyn_api \<Rightarrow> type_generator \<Rightarrow> 't \<Rightarrow> meta_member \<Rightarrow> 'd \<Rightarrow> (string option \<times> 't \<times> 'd) result"
where
  "construct_dds_dynamic_type A g dstruct (MetaMessage ns name sz ms) d =
     construct_members A g dstruct 0 ms d"
| "construct_members A g dstruct i [] d = Inr (None, dstruct, d)"
| "construct_members A g dstruct i (mem # ms) d =
     rbind (construct_member A g dstruct mem d) (\<lambda>(err, dstruct, d).
       if err \<noteq> None then Inr (err, dstruct, d)
       else (case (if mm_is_key mem then dds_dynamic_member_set_key A dstruct i d else (dstruct, d)) of
               (dstruct, d) \<Rightarrow> construct_members A g dstruct (Suc i) ms d))"
| "construct_member A g dstruct (MetaMember nm tid sub arr asz ub off key szf sb) d =
     (let mem = MetaMember nm tid sub arr asz ub off key szf sb in
      if tid = STRING then
        (case dynamic_string_type A DDS_DYNAMIC_STRING8 mem d of (ddt, d) \<Rightarrow>
           rbind (dynamic_type_add_typed A dstruct mem ddt d) (\<lambda>r. Inr (None, r)))
      else if tid = WSTRING then
        (case dynamic_string_type A DDS_DYNAMIC_STRING16 mem d of (ddt, d) \<Rightarrow>
           rbind (dynamic_type_add_typed A dstruct mem ddt d) (\<lambda>r. Inr (None, r)))
      else if tid = MESSAGE then
        (case members_data g sub of
           Inl e \<Rightarrow> Inl e
         | Inr None \<Rightarrow> Inr (Some ''no members value'', dstruct, d)
         | Inr (Some sub_members) \<Rightarrow>
             (case dds_dynamic_type_create A (get_dynamic_type_descriptor DDS_DYNAMIC_STRUCTURE
                     (Some (create_type_name (mm_namespace sub_members) (mm_message_name sub_members))) [] None) d of
                (ddt, d) \<Rightarrow>
             (case dds_dynamic_type_set_extensibility_final A ddt d of (ddt, d) \<Rightarrow>
              rbind (construct_dds_dynamic_type A g ddt sub_members d) (\<lambda>(err, ddt, d).
                if err \<noteq> None then Inr (Some ''construct_dds_dynamic_type error'', dstruct, d)
                else rbind (dynamic_type_add_typed A dstruct mem ddt d) (\<lambda>r. Inr (None, r))))))
      else
        (case prim_dynamic_kind tid of
           Some k \<Rightarrow> rbind (dynamic_type_add_member A dstruct mem k d) (\<lambda>r. Inr (None, r))
         | None \<Rightarrow> Inr (Some ''unknown type id'', dstruct, d)))"
  by pat_completeness auto
termination
  by (relation "measure (\<lambda>x. case x of Inl (A, g, t, m, d) \<Rightarrow> size m
       | Inr (Inl (A, g, t, i, ms, d)) \<Rightarrow> size_list size ms
       | Inr (Inr (A, g, t, m, d)) \<Rightarrow> size m)")
    (auto dest: members_data_size)

section \<open>Types with a description\<close>

text \<open>
  The members \<open>type_information\<close> and \<open>type_mapping\<close> of \<open>sertype_rmw\<close>, which it has when Cyclone DDS has
  its type library.  \<open>create_sertype\<close> initialises neither (\<open>new struct sertype_rmw\<close> does not, and what
  it sets are the other members): \<open>None\<close> is a member that holds whatever the memory held.
\<close>

record sertype_typelib = sertype_rmw +
  type_information :: "u8 list option"
  type_mapping :: "u8 list option"

definition with_typelib :: "sertype_rmw \<Rightarrow> sertype_typelib" where
  "with_typelib tp = sertype_rmw.extend tp \<lparr>type_information = None, type_mapping = None\<rparr>"

definition dynamic_type_register ::
  "('t, 'i, 'c, 'd) dyn_api \<Rightarrow> sertype_typelib \<Rightarrow> 't \<Rightarrow> 'd \<Rightarrow> sertype_typelib \<times> string option \<times> 'd" where
  "dynamic_type_register A st dt d =
     (case dds_dynamic_type_register A dt d of (rc, type_info, dt, d) \<Rightarrow>
        if rc \<noteq> 0
        then (st, Some ''dds_dynamic_type_register failed to register type'', dds_dynamic_type_unref A dt d)
        else
          (case dds_create_topic_descriptor A type_info d of (rc, desc, d) \<Rightarrow>
             if rc \<noteq> 0
             then (st, Some ''dds_create_topic_descriptor failed to create descriptor'',
                   dds_dynamic_type_unref A dt (dds_free_typeinfo A type_info d))
             else
               (st\<lparr>type_information := Some (desc_type_information A desc),
                   type_mapping := Some (desc_type_mapping A desc)\<rparr>, None,
                dds_dynamic_type_unref A dt (dds_free_typeinfo A type_info (dds_delete_topic_descriptor A desc d)))))"

text \<open>
  The body the six branches of \<open>create_msg_dds_dynamic_type\<close>, \<open>create_req_dds_dynamic_type\<close> and
  \<open>create_res_dds_dynamic_type\<close> share, with \<open>THROW_ON_DYNAMIC_TYPE_ERROR\<close> being 0: a structure of the
  given name, its members, and its registration when they could be made.
\<close>

definition create_dds_dynamic_type ::
  "('t, 'i, 'c, 'd) dyn_api \<Rightarrow> type_generator \<Rightarrow> string \<Rightarrow> meta_message \<Rightarrow> sertype_typelib \<Rightarrow> 'd
    \<Rightarrow> (sertype_typelib \<times> string option \<times> 'd) result" where
  "create_dds_dynamic_type A g name members st d =
     (case dds_dynamic_type_create A (get_dynamic_type_descriptor DDS_DYNAMIC_STRUCTURE (Some name) [] None) d of
        (dstruct, d) \<Rightarrow>
     (case dds_dynamic_type_set_extensibility_final A dstruct d of (dstruct, d) \<Rightarrow>
      rbind (construct_dds_dynamic_type A g dstruct members d) (\<lambda>(err, dstruct, d).
        if err = None then Inr (dynamic_type_register A st dstruct d) else Inr (st, err, d))))"

fun language_of :: "typesupport_identifier \<Rightarrow> type_generator result" where
  "language_of IntrospectionC = Inr ROSIDL_C"
| "language_of IntrospectionCpp = Inr ROSIDL_Cpp"
| "language_of OtherIdentifier = Inl (RuntimeError ''create_dds_dynamic_type, unsupported typesupport'')"

definition create_msg_dds_dynamic_type ::
  "('t, 'i, 'c, 'd) dyn_api \<Rightarrow> typesupport_identifier \<Rightarrow> meta_message \<Rightarrow> sertype_typelib \<Rightarrow> 'd
    \<Rightarrow> (sertype_typelib \<times> string option \<times> 'd) result" where
  "create_msg_dds_dynamic_type A ident members st d =
     rbind (language_of ident) (\<lambda>g.
       create_dds_dynamic_type A g (create_type_name (mm_namespace members) (mm_message_name members)) members st d)"

text \<open>
  For a service \<open>create_type_name\<close> is given the table of the service and reads it as that of a message:
  what it finds at the place of the message's namespace and name are the service's.
\<close>

definition create_req_dds_dynamic_type ::
  "('t, 'i, 'c, 'd) dyn_api \<Rightarrow> typesupport_identifier \<Rightarrow> service_members \<Rightarrow> sertype_typelib \<Rightarrow> 'd
    \<Rightarrow> (sertype_typelib \<times> string option \<times> 'd) result" where
  "create_req_dds_dynamic_type A ident svc st d =
     rbind (language_of ident) (\<lambda>g.
       create_dds_dynamic_type A g (create_type_name (sv_namespace svc) (sv_name svc)) (request_members svc) st d)"

definition create_res_dds_dynamic_type ::
  "('t, 'i, 'c, 'd) dyn_api \<Rightarrow> typesupport_identifier \<Rightarrow> service_members \<Rightarrow> sertype_typelib \<Rightarrow> 'd
    \<Rightarrow> (sertype_typelib \<times> string option \<times> 'd) result" where
  "create_res_dds_dynamic_type A ident svc st d =
     rbind (language_of ident) (\<lambda>g.
       create_dds_dynamic_type A g (create_type_name (sv_namespace svc) (sv_name svc)) (response_members svc) st d)"

section \<open>Hooks of \<open>sertype_rmw_ops\<close>\<close>

text \<open>What a release frees: the two blobs, on the heap of Cyclone DDS, and the type itself.\<close>

datatype sertype_block = TypeInformation "u8 list" | TypeMapping "u8 list" | SertypeObject

definition sertype_rmw_free :: "sertype_typelib \<Rightarrow> sertype_block list result" where
  "sertype_rmw_free tp =
     (case type_information tp of
        None \<Rightarrow> Inl (UB ''free of an uninitialised pointer'')
      | Some info \<Rightarrow>
         (case type_mapping tp of
            None \<Rightarrow> Inl (UB ''free of an uninitialised pointer'')
          | Some mapping \<Rightarrow> Inr [TypeInformation info, TypeMapping mapping, SertypeObject]))"

definition sertype_rmw_zero_samples :: "sertype_typelib \<Rightarrow> u8 list \<Rightarrow> nat \<Rightarrow> u8 list" where
  "sertype_rmw_zero_samples tp samples count = samples"

definition sertype_rmw_realloc_samples :: "sertype_typelib \<Rightarrow> nat \<Rightarrow> nat \<Rightarrow> unit result" where
  "sertype_rmw_realloc_samples tp oldcount count = Inl (LogicError ''not implemented'')"

definition sertype_rmw_free_samples :: "sertype_typelib \<Rightarrow> nat \<Rightarrow> bool \<Rightarrow> unit result" where
  "sertype_rmw_free_samples tp count free_all_bit =
     (if free_all_bit then Inl (UB ''assertion failed: !(op & DDS_FREE_ALL_BIT)'') else Inr ())"

text \<open>The deserializers of Cyclone DDS, and what they make.\<close>

record ('i, 'm, 'k, 'h) typelib =
  ddsi_typeinfo_deser :: "u8 list \<Rightarrow> 'i option"
  ddsi_typeinfo_typeid :: "'i \<Rightarrow> 'k \<Rightarrow> 'h"
  ddsi_typemap_deser :: "u8 list \<Rightarrow> 'm option"

definition sertype_rmw_typeinfo :: "('i, 'm, 'k, 'h) typelib \<Rightarrow> sertype_typelib \<Rightarrow> 'i option result" where
  "sertype_rmw_typeinfo L tp =
     (case type_information tp of
        None \<Rightarrow> Inl (UB ''read through an uninitialised pointer'')
      | Some info \<Rightarrow> Inr (ddsi_typeinfo_deser L info))"

definition sertype_rmw_typemap :: "('i, 'm, 'k, 'h) typelib \<Rightarrow> sertype_typelib \<Rightarrow> 'm option result" where
  "sertype_rmw_typemap L tp =
     (case type_mapping tp of
        None \<Rightarrow> Inl (UB ''read through an uninitialised pointer'')
      | Some mapping \<Rightarrow> Inr (ddsi_typemap_deser L mapping))"

definition sertype_rmw_typeid :: "('i, 'm, 'k, 'h) typelib \<Rightarrow> sertype_typelib \<Rightarrow> 'k \<Rightarrow> 'h option result" where
  "sertype_rmw_typeid L tp k =
     (case type_information tp of
        None \<Rightarrow> Inl (UB ''read through an uninitialised pointer'')
      | Some info \<Rightarrow>
         (case ddsi_typeinfo_deser L info of
            None \<Rightarrow> Inr None
          | Some type_info \<Rightarrow> Inr (Some (ddsi_typeinfo_typeid L type_info k))))"

definition sertype_rmw_derive_sertype :: "sertype_typelib \<Rightarrow> nat \<Rightarrow> sertype_typelib option" where
  "sertype_rmw_derive_sertype base data_representation = None"

end
