(* ===== verification/DynTypeProps.thy ===== *)
theory DynTypeProps
  imports DynType
begin

text \<open>
  What a dynamic type describes, and that it describes what the serializer writes: the documented
  effect of Cyclone DDS's construction calls on a view of its type handles, the encoding of a value of
  a dynamic type, and the relation between a value type and the dynamic type made from the same table.
\<close>

section \<open>Dynamic types\<close>

datatype dyn_type =
    DPrim dyn_kind
  | DString "nat option"
  | DArray dyn_type nat
  | DSequence dyn_type "nat option"
  | DStruct string bool "dyn_member list"
and dyn_member = DynMember (dm_name: string) (dm_type: dyn_type) (dm_key: bool)

fun set_member_key :: "dyn_member \<Rightarrow> dyn_member" where
  "set_member_key (DynMember nm t k) = DynMember nm t True"

fun spec_type :: "('t \<Rightarrow> dyn_type) \<Rightarrow> 't type_spec \<Rightarrow> dyn_type option" where
  "spec_type view (SpecType t) = Some (view t)"
| "spec_type view (SpecPrim k) = Some (DPrim k)"
| "spec_type view SpecNone = None"

fun dyn_bound :: "u32 list \<Rightarrow> nat option" where
  "dyn_bound [] = None"
| "dyn_bound (n # ns) = Some (unat n)"

text \<open>
  The documented calls, for types other than wide strings, which Cyclone DDS has no dynamic type for:
  a description gives the type it dyn_describes; a member of a new name goes to the end of a structure and
  is not a key; \<open>dds_dynamic_member_set_key\<close> makes it one; the extensibility is set.
\<close>

definition dyn_api_documented :: "('t, 'i, 'c, 'd) dyn_api \<Rightarrow> ('t \<Rightarrow> dyn_type) \<Rightarrow> bool" where
  "dyn_api_documented A view \<longleftrightarrow>
     (\<forall>td d. case td_kind td of
         DDS_DYNAMIC_STRUCTURE \<Rightarrow>
           (\<forall>name. td_name td = Some name \<longrightarrow> view (fst (dds_dynamic_type_create A td d)) = DStruct name False [])
       | DDS_DYNAMIC_STRING8 \<Rightarrow> view (fst (dds_dynamic_type_create A td d)) = DString (dyn_bound (td_bounds td))
       | DDS_DYNAMIC_ARRAY \<Rightarrow>
           (\<forall>e n. spec_type view (td_element td) = Some e \<and> td_bounds td = [n] \<and> n \<noteq> 0 \<longrightarrow>
              view (fst (dds_dynamic_type_create A td d)) = DArray e (unat n))
       | DDS_DYNAMIC_SEQUENCE \<Rightarrow>
           (\<forall>e. spec_type view (td_element td) = Some e \<longrightarrow>
              view (fst (dds_dynamic_type_create A td d)) = DSequence e (dyn_bound (td_bounds td)))
       | _ \<Rightarrow> True)
   \<and> (\<forall>t md d nm fin ms e. view t = DStruct nm fin ms \<and> spec_type view (md_type md) = Some e
        \<and> md_name md \<notin> set (map dm_name ms) \<longrightarrow>
        (\<exists>t' d'. dds_dynamic_type_add_member A t md d = (0, t', d')
           \<and> view t' = DStruct nm fin (ms @ [DynMember (md_name md) e False])))
   \<and> (\<forall>t d nm fin ms. view t = DStruct nm fin ms \<longrightarrow>
        view (fst (dds_dynamic_type_set_extensibility_final A t d)) = DStruct nm True ms)
   \<and> (\<forall>t d nm fin ms i. view t = DStruct nm fin ms \<and> i < length ms \<longrightarrow>
        view (fst (dds_dynamic_member_set_key A t i d)) = DStruct nm fin (ms[i := set_member_key (ms ! i)]))"

section \<open>The encoding a dynamic type stands for\<close>

text \<open>
  The XCDR1 encoding of a value of a final type, and of its key: a structure without key members
  is its own key.  A sequence of booleans may be given as its bits.
\<close>

fun dyn_size :: "dyn_kind \<Rightarrow> nat" where
  "dyn_size DDS_DYNAMIC_BOOLEAN = 1"
| "dyn_size DDS_DYNAMIC_UINT8 = 1"
| "dyn_size DDS_DYNAMIC_INT8 = 1"
| "dyn_size DDS_DYNAMIC_CHAR16 = 2"
| "dyn_size DDS_DYNAMIC_INT16 = 2"
| "dyn_size DDS_DYNAMIC_UINT16 = 2"
| "dyn_size DDS_DYNAMIC_INT32 = 4"
| "dyn_size DDS_DYNAMIC_UINT32 = 4"
| "dyn_size DDS_DYNAMIC_FLOAT32 = 4"
| "dyn_size DDS_DYNAMIC_INT64 = 8"
| "dyn_size DDS_DYNAMIC_UINT64 = 8"
| "dyn_size DDS_DYNAMIC_FLOAT64 = 8"
| "dyn_size _ = 0"

fun dyn_cdr :: "endian \<Rightarrow> sample_or_key \<Rightarrow> dyn_type \<Rightarrow> lobj \<Rightarrow> nat \<Rightarrow> u8 list"
  and dyn_cdr_members :: "endian \<Rightarrow> sample_or_key \<Rightarrow> bool \<Rightarrow> dyn_member list \<Rightarrow> lobj list \<Rightarrow> nat \<Rightarrow> u8 list"
where
  "dyn_cdr T w (DPrim k) (LPrim bs) off = zeros (padding (dyn_size k) off) @ in_order T bs"
| "dyn_cdr T w (DString b) (LStr s) off = cdr_u32 T (length s + 1) off @ s @ [0]"
| "dyn_cdr T w (DArray e n) (LArr os) off = cdr_list (dyn_cdr T w e) os off"
| "dyn_cdr T w (DSequence e b) (LSeq os) off =
     cdr_u32 T (length os) off @ cdr_list (dyn_cdr T w e) os (off + length (cdr_u32 T (length os) off))"
| "dyn_cdr T w (DSequence e b) (LBools bs) off = cdr_u32 T (length bs) off @ map bool_byte bs"
| "dyn_cdr T w (DStruct nm fin ms) (LStruct os) off =
     dyn_cdr_members T w (w \<noteq> Key \<or> \<not> list_ex dm_key ms) ms os off"
| "dyn_cdr T w t obj off = []"
| "dyn_cdr_members T w all_fields (DynMember nm t key # ms) (obj # objs) off =
     (let bs = (if all_fields \<or> key then dyn_cdr T w t obj off else [])
      in bs @ dyn_cdr_members T w all_fields ms objs (off + length bs))"
| "dyn_cdr_members T w all_fields ms objs off = []"

section \<open>A value type and its dynamic type\<close>

definition same_bound :: "nat \<Rightarrow> nat option \<Rightarrow> bool" where
  "same_bound b ob \<longleftrightarrow> b = (case ob of Some n \<Rightarrow> n | None \<Rightarrow> UINT32_MAX)"

fun dyn_describes :: "dyn_type \<Rightarrow> value_type \<Rightarrow> bool"
  and dyn_describes_members :: "dyn_member list \<Rightarrow> member list \<Rightarrow> bool"
where
  "dyn_describes (DPrim k) (PrimitiveValueType k') = (prim_dynamic_kind k' = Some k)"
| "dyn_describes (DString ob) (U8StringValueType b sz) = True"
| "dyn_describes (DArray e n) (ArrayValueType e' n' sc) = (n = n' \<and> dyn_describes e e')"
| "dyn_describes (DSequence e ob) (SpanSequenceValueType k e' b) = (same_bound b ob \<and> dyn_describes e e')"
| "dyn_describes (DSequence e ob) (BoolVectorValueType b sz) = (same_bound b ob \<and> e = DPrim DDS_DYNAMIC_BOOLEAN)"
| "dyn_describes (DStruct nm fin ds) (StructValueType si ms) = (fin \<and> dyn_describes_members ds ms)"
| "dyn_describes _ _ = False"
| "dyn_describes_members [] [] = True"
| "dyn_describes_members (DynMember nm t key # ds) (Member nm' vt off key' # ms) =
     (nm = nm' \<and> key = key' \<and> dyn_describes t vt \<and> dyn_describes_members ds ms)"
| "dyn_describes_members _ _ = False"

lemma describes_members_keys: "dyn_describes_members ds ms \<Longrightarrow> list_ex is_key ms = list_ex dm_key ds"
  by (induction ds ms rule: dyn_describes_dyn_describes_members.induct(2) [where P = "\<lambda>_ _. True"]) simp_all

lemma describes_members_names: "dyn_describes_members ds ms \<Longrightarrow> map dm_name ds = map member_name ms"
  by (induction ds ms rule: dyn_describes_dyn_describes_members.induct(2) [where P = "\<lambda>_ _. True"]) simp_all

lemma describes_members_snoc:
  "dyn_describes_members ds ms \<Longrightarrow> dyn_describes t vt \<Longrightarrow>
     dyn_describes_members (ds @ [DynMember nm t key]) (ms @ [Member nm vt off key])"
  by (induction ds ms rule: dyn_describes_dyn_describes_members.induct(2) [where P = "\<lambda>_ _. True"]) simp_all

lemma prim_dynamic_size: "prim_dynamic_kind k' = Some k \<Longrightarrow> dyn_size k = prim_cdralignof k'"
  by (cases k') (auto simp: prim_cdralignof_def)

text \<open>Both are encoded alike.\<close>

lemma described_cdr:
  "dyn_describes t vt \<Longrightarrow> wf_type vt \<Longrightarrow> fits vt obj \<Longrightarrow> cdr T w vt obj off = dyn_cdr T w t obj off"
  "dyn_describes_members ds ms \<Longrightarrow> \<forall>m \<in> set ms. wf_type (member_type m) \<Longrightarrow>
     list_all2 (\<lambda>m. fits (member_type m)) ms objs \<Longrightarrow>
     cdr_members T w all_fields ms objs off = dyn_cdr_members T w all_fields ds objs off"
proof (induction t vt and ds ms arbitrary: obj off and objs off all_fields rule: dyn_describes_dyn_describes_members.induct)
  case (3 e n e' n' sc)
  then obtain os where os: "obj = LArr os" "list_all (fits e') os" by (cases obj) auto
  have "cdr T w e' o' a = dyn_cdr T w e o' a" if "o' \<in> set os" for o' a
    using 3 os that by (auto simp: list_all_iff)
  then have "cdr_list (cdr T w e') os off = cdr_list (dyn_cdr T w e) os off"
    by (intro cdr_list_cong refl) auto
  then show ?case using os by simp
next
  case (4 e ob k e' b)
  then obtain os where os: "obj = LSeq os" "list_all (fits e') os" by (cases obj) auto
  have "cdr T w e' o' a = dyn_cdr T w e o' a" if "o' \<in> set os" for o' a
    using 4 os that by (auto simp: list_all_iff)
  then have "cdr_list (cdr T w e') os a = cdr_list (dyn_cdr T w e) os a" for a
    by (intro cdr_list_cong refl) auto
  then show ?case using os by simp
next
  case (6 nm fin ds si ms)
  then obtain os where "obj = LStruct os" by (cases obj) auto
  then show ?case using 6 describes_members_keys [of ds ms] by simp
next
  case (9 nm t key ds nm' vt off' key' ms)
  then obtain ob os where "objs = ob # os" by (cases objs) auto
  then show ?case using 9 by (simp add: Let_def)
qed (auto simp: prim_dynamic_size fits.simps elim!: fits.elims)

section \<open>The calls\<close>

lemma create_view:
  assumes "dyn_api_documented A view"
  shows "view (fst (dds_dynamic_type_create A (get_dynamic_type_descriptor DDS_DYNAMIC_STRUCTURE (Some name) bs el) d))
      = DStruct name False []"
    and "view (fst (dds_dynamic_type_create A (get_dynamic_type_descriptor DDS_DYNAMIC_STRING8 nm bs el) d))
      = DString (dyn_bound bs)"
    and "n \<noteq> 0 \<Longrightarrow> view (fst (dds_dynamic_type_create A (get_dynamic_type_descriptor DDS_DYNAMIC_ARRAY nm [n] (Some t)) d))
      = DArray (view t) (unat n)"
    and "n \<noteq> 0 \<Longrightarrow> view (fst (dds_dynamic_type_create A (get_dynamic_type_descriptor_prim DDS_DYNAMIC_ARRAY nm [n] k) d))
      = DArray (DPrim k) (unat n)"
    and "view (fst (dds_dynamic_type_create A (get_dynamic_type_descriptor DDS_DYNAMIC_SEQUENCE nm bs (Some t)) d))
      = DSequence (view t) (dyn_bound bs)"
    and "view (fst (dds_dynamic_type_create A (get_dynamic_type_descriptor_prim DDS_DYNAMIC_SEQUENCE nm bs k) d))
      = DSequence (DPrim k) (dyn_bound bs)"
proof -
  have c: "\<And>td d. case td_kind td of
         DDS_DYNAMIC_STRUCTURE \<Rightarrow>
           (\<forall>name. td_name td = Some name \<longrightarrow> view (fst (dds_dynamic_type_create A td d)) = DStruct name False [])
       | DDS_DYNAMIC_STRING8 \<Rightarrow> view (fst (dds_dynamic_type_create A td d)) = DString (dyn_bound (td_bounds td))
       | DDS_DYNAMIC_ARRAY \<Rightarrow>
           (\<forall>e n. spec_type view (td_element td) = Some e \<and> td_bounds td = [n] \<and> n \<noteq> 0 \<longrightarrow>
              view (fst (dds_dynamic_type_create A td d)) = DArray e (unat n))
       | DDS_DYNAMIC_SEQUENCE \<Rightarrow>
           (\<forall>e. spec_type view (td_element td) = Some e \<longrightarrow>
              view (fst (dds_dynamic_type_create A td d)) = DSequence e (dyn_bound (td_bounds td)))
       | _ \<Rightarrow> True"
    using assms unfolding dyn_api_documented_def by blast
  note g = get_dynamic_type_descriptor_def get_dynamic_type_descriptor_prim_def
  show "view (fst (dds_dynamic_type_create A (get_dynamic_type_descriptor DDS_DYNAMIC_STRUCTURE (Some name) bs el) d))
      = DStruct name False []" using c [of "get_dynamic_type_descriptor DDS_DYNAMIC_STRUCTURE (Some name) bs el" d] by (simp add: g)
  show "view (fst (dds_dynamic_type_create A (get_dynamic_type_descriptor DDS_DYNAMIC_STRING8 nm bs el) d))
      = DString (dyn_bound bs)" using c [of "get_dynamic_type_descriptor DDS_DYNAMIC_STRING8 nm bs el" d] by (simp add: g)
  show "n \<noteq> 0 \<Longrightarrow> view (fst (dds_dynamic_type_create A (get_dynamic_type_descriptor DDS_DYNAMIC_ARRAY nm [n] (Some t)) d))
      = DArray (view t) (unat n)" using c [of "get_dynamic_type_descriptor DDS_DYNAMIC_ARRAY nm [n] (Some t)" d] by (simp add: g)
  show "n \<noteq> 0 \<Longrightarrow> view (fst (dds_dynamic_type_create A (get_dynamic_type_descriptor_prim DDS_DYNAMIC_ARRAY nm [n] k) d))
      = DArray (DPrim k) (unat n)" using c [of "get_dynamic_type_descriptor_prim DDS_DYNAMIC_ARRAY nm [n] k" d] by (simp add: g)
  show "view (fst (dds_dynamic_type_create A (get_dynamic_type_descriptor DDS_DYNAMIC_SEQUENCE nm bs (Some t)) d))
      = DSequence (view t) (dyn_bound bs)"
    using c [of "get_dynamic_type_descriptor DDS_DYNAMIC_SEQUENCE nm bs (Some t)" d] by (simp add: g)
  show "view (fst (dds_dynamic_type_create A (get_dynamic_type_descriptor_prim DDS_DYNAMIC_SEQUENCE nm bs k) d))
      = DSequence (DPrim k) (dyn_bound bs)"
    using c [of "get_dynamic_type_descriptor_prim DDS_DYNAMIC_SEQUENCE nm bs k" d] by (simp add: g)
qed

lemma add_member_view:
  assumes "dyn_api_documented A view" "view t = DStruct nm fin ds" "name \<notin> set (map dm_name ds)"
  shows "\<exists>t' d'. add_member_checked A t (get_dynamic_member_descriptor ddt name) d = Inr (t', d')
      \<and> view t' = DStruct nm fin (ds @ [DynMember name (view ddt) False])"
    and "\<exists>t' d'. add_member_checked A t (get_dynamic_member_descriptor_prim k name) d = Inr (t', d')
      \<and> view t' = DStruct nm fin (ds @ [DynMember name (DPrim k) False])"
proof -
  have a: "\<And>t md d nm fin ms e. view t = DStruct nm fin ms \<Longrightarrow> spec_type view (md_type md) = Some e \<Longrightarrow>
        md_name md \<notin> set (map dm_name ms) \<Longrightarrow>
        \<exists>t' d'. dds_dynamic_type_add_member A t md d = (0, t', d')
           \<and> view t' = DStruct nm fin (ms @ [DynMember (md_name md) e False])"
    using assms(1) unfolding dyn_api_documented_def by blast
  show "\<exists>t' d'. add_member_checked A t (get_dynamic_member_descriptor ddt name) d = Inr (t', d')
      \<and> view t' = DStruct nm fin (ds @ [DynMember name (view ddt) False])"
    using a [OF assms(2), of "get_dynamic_member_descriptor ddt name" "view ddt" d] assms(3)
    by (auto simp: get_dynamic_member_descriptor_def add_member_checked_def)
  show "\<exists>t' d'. add_member_checked A t (get_dynamic_member_descriptor_prim k name) d = Inr (t', d')
      \<and> view t' = DStruct nm fin (ds @ [DynMember name (DPrim k) False])"
    using a [OF assms(2), of "get_dynamic_member_descriptor_prim k name" "DPrim k" d] assms(3)
    by (auto simp: get_dynamic_member_descriptor_prim_def add_member_checked_def)
qed

lemma set_key_view:
  "dyn_api_documented A view \<Longrightarrow> view t = DStruct nm fin ms \<Longrightarrow> i < length ms \<Longrightarrow>
     view (fst (dds_dynamic_member_set_key A t i d)) = DStruct nm fin (ms[i := set_member_key (ms ! i)])"
  unfolding dyn_api_documented_def by blast

lemma set_final_view:
  "dyn_api_documented A view \<Longrightarrow> view t = DStruct nm fin ms \<Longrightarrow>
     view (fst (dds_dynamic_type_set_extensibility_final A t d)) = DStruct nm True ms"
  unfolding dyn_api_documented_def by blast

section \<open>Members\<close>

text \<open>The type of a member whose elements have type \<open>e\<close>.\<close>

fun shape_of_member :: "bool \<Rightarrow> nat \<Rightarrow> bool \<Rightarrow> dyn_type \<Rightarrow> dyn_type" where
  "shape_of_member arr asz ub e =
     (if \<not> arr then e else if asz \<noteq> 0 \<and> \<not> ub then DArray e asz
      else DSequence e (if asz \<noteq> 0 then Some asz else None))"

lemma unat_array_size: "n \<le> UINT32_MAX \<Longrightarrow> unat (of_nat n :: u32) = n"
  by (simp add: unat_of_nat)

lemma array_size_nonzero: "n \<le> UINT32_MAX \<Longrightarrow> n \<noteq> 0 \<Longrightarrow> (of_nat n :: u32) \<noteq> 0"
  using unat_array_size by (metis unat_0)

lemma add_typed_view:
  assumes "dyn_api_documented A view" "view t = DStruct nm fin ds" "mm_name mem \<notin> set (map dm_name ds)"
    and "is_array mem \<Longrightarrow> array_size mem \<le> UINT32_MAX"
  shows "\<exists>t' d'. dynamic_type_add_typed A t mem ddt d = Inr (t', d') \<and> view t' = DStruct nm fin
      (ds @ [DynMember (mm_name mem) (shape_of_member (is_array mem) (array_size mem) (is_upper_bound mem) (view ddt)) False])"
proof (cases "is_array mem")
  case False
  then show ?thesis using add_member_view(1) [OF assms(1-3)] by (simp add: dynamic_type_add_typed_def)
next
  case True
  note n = unat_array_size [OF assms(4) [OF True]] array_size_nonzero [OF assms(4) [OF True]]
  note c = create_view(3,5) [OF assms(1)]
  let ?p = "(if array_size mem \<noteq> 0 then
              let n = of_nat (array_size mem) :: u32 in
              if \<not> is_upper_bound mem
              then dds_dynamic_type_create A
                     (get_dynamic_type_descriptor DDS_DYNAMIC_ARRAY (Some (mm_name mem)) [n] (Some ddt)) d
              else dds_dynamic_type_create A
                     (get_dynamic_type_descriptor DDS_DYNAMIC_SEQUENCE (Some (mm_name mem)) [n] (Some ddt)) d
            else dds_dynamic_type_create A
                   (get_dynamic_type_descriptor DDS_DYNAMIC_SEQUENCE (Some (mm_name mem)) [] (Some ddt)) d)"
  obtain p where p: "dynamic_type_add_typed A t mem ddt d
      = add_member_checked A t (get_dynamic_member_descriptor (fst p) (mm_name mem)) (snd p)"
    "view (fst p) = shape_of_member (is_array mem) (array_size mem) (is_upper_bound mem) (view ddt)"
  proof -
    have e: "dynamic_type_add_typed A t mem ddt d = (case ?p of (ddt, d) \<Rightarrow>
        add_member_checked A t (get_dynamic_member_descriptor ddt (mm_name mem)) d)"
      by (simp add: dynamic_type_add_typed_def dynamic_type_add_array_def True)
    show thesis
    proof (rule that [of ?p])
      show "dynamic_type_add_typed A t mem ddt d = add_member_checked A t (get_dynamic_member_descriptor (fst ?p) (mm_name mem)) (snd ?p)" unfolding e by (simp only: case_prod_beta)
    qed (use True n c in \<open>simp add: Let_def\<close>)
  qed
  show ?thesis unfolding p(1) p(2) [symmetric] by (rule add_member_view(1) [OF assms(1-3)])
qed

lemma add_prim_view:
  assumes "dyn_api_documented A view" "view t = DStruct nm fin ds" "mm_name mem \<notin> set (map dm_name ds)"
    and "is_array mem \<Longrightarrow> array_size mem \<le> UINT32_MAX"
  shows "\<exists>t' d'. dynamic_type_add_member A t mem k d = Inr (t', d') \<and> view t' = DStruct nm fin
      (ds @ [DynMember (mm_name mem) (shape_of_member (is_array mem) (array_size mem) (is_upper_bound mem) (DPrim k)) False])"
proof (cases "is_array mem")
  case False
  then show ?thesis using add_member_view(2) [OF assms(1-3)] by (simp add: dynamic_type_add_member_def)
next
  case True
  note n = unat_array_size [OF assms(4) [OF True]] array_size_nonzero [OF assms(4) [OF True]]
  note c = create_view(4,6) [OF assms(1)]
  let ?p = "(if array_size mem \<noteq> 0 then
              let n = of_nat (array_size mem) :: u32 in
              if \<not> is_upper_bound mem
              then dds_dynamic_type_create A
                     (get_dynamic_type_descriptor_prim DDS_DYNAMIC_ARRAY (Some (mm_name mem)) [n] k) d
              else dds_dynamic_type_create A
                     (get_dynamic_type_descriptor_prim DDS_DYNAMIC_SEQUENCE (Some (mm_name mem)) [n] k) d
            else dds_dynamic_type_create A
                   (get_dynamic_type_descriptor_prim DDS_DYNAMIC_SEQUENCE (Some (mm_name mem)) [] k) d)"
  obtain p where p: "dynamic_type_add_member A t mem k d
      = add_member_checked A t (get_dynamic_member_descriptor (fst p) (mm_name mem)) (snd p)"
    "view (fst p) = shape_of_member (is_array mem) (array_size mem) (is_upper_bound mem) (DPrim k)"
  proof -
    have e: "dynamic_type_add_member A t mem k d = (case ?p of (ddt, d) \<Rightarrow>
        add_member_checked A t (get_dynamic_member_descriptor ddt (mm_name mem)) d)"
      by (simp add: dynamic_type_add_member_def dynamic_type_add_array_prim_def True)
    show thesis
    proof (rule that [of ?p])
      show "dynamic_type_add_member A t mem k d = add_member_checked A t (get_dynamic_member_descriptor (fst ?p) (mm_name mem)) (snd ?p)" unfolding e by (simp only: case_prod_beta)
    qed (use True n c in \<open>simp add: Let_def\<close>)
  qed
  show ?thesis unfolding p(1) p(2) [symmetric] by (rule add_member_view(1) [OF assms(1-3)])
qed

section \<open>Tables\<close>

text \<open>
  A table as the generators make it: a message has members, of different names, and a member that is
  a message has a table of the same language.  There are no wide strings in it.
\<close>

fun plain_table :: "type_generator \<Rightarrow> meta_message \<Rightarrow> bool"
  and plain_member :: "type_generator \<Rightarrow> meta_member \<Rightarrow> bool"
where
  "plain_table g (MetaMessage ns name sz ms) =
     (ms \<noteq> [] \<and> distinct (map mm_name ms) \<and> (\<forall>m \<in> set ms. plain_member g m))"
| "plain_member g (MetaMember nm tid sub arr asz ub off key szf sb) =
     (tid \<noteq> WSTRING \<and> (tid = MESSAGE \<longrightarrow>
        (case members_data g sub of Inr (Some m) \<Rightarrow> plain_table g m | _ \<Rightarrow> False)))"

text \<open>The value type of a message, and of a member, by the language of the table.\<close>

definition make_struct :: "abi \<Rightarrow> type_generator \<Rightarrow> meta_message \<Rightarrow> value_type result" where
  "make_struct B g = (if g = ROSIDL_C then make_rosidlc_struct B else make_rosidlcpp_struct B)"

definition struct_members ::
  "abi \<Rightarrow> type_generator \<Rightarrow> meta_member list \<Rightarrow> member list \<Rightarrow> bool \<Rightarrow> bool \<Rightarrow> (member list \<times> bool \<times> bool) result" where
  "struct_members B g = (if g = ROSIDL_C then rosidlc_members B else rosidlcpp_members B)"

definition element_type :: "abi \<Rightarrow> type_generator \<Rightarrow> type_kind \<Rightarrow> type_support \<Rightarrow> value_type result" where
  "element_type B g tid sub =
     (if tid = MESSAGE then make_message_value_type B sub
      else if tid = STRING
        then make_U8String (UINT32_MAX - 1) (if g = ROSIDL_C then sizeof_rosidl_String B else sizeof_std_string B)
      else if tid = WSTRING
        then make_U16String (UINT32_MAX div 2) (if g = ROSIDL_C then sizeof_rosidl_U16String B else sizeof_std_u16string B)
      else Inr (PrimitiveValueType tid))"

definition array_type ::
  "abi \<Rightarrow> type_generator \<Rightarrow> type_kind \<Rightarrow> value_type \<Rightarrow> bool \<Rightarrow> nat \<Rightarrow> bool \<Rightarrow> bool \<Rightarrow> value_type result" where
  "array_type B g tid elt arr asz ub szf =
     (if g = ROSIDL_C then rosidlc_member_type B elt arr asz ub szf
      else rosidlcpp_member_type B tid elt arr asz ub)"

fun value_type_of_member :: "abi \<Rightarrow> type_generator \<Rightarrow> meta_member \<Rightarrow> value_type result" where
  "value_type_of_member B g (MetaMember nm tid sub arr asz ub off key szf sb) =
     rbind (element_type B g tid sub) (\<lambda>elt. array_type B g tid elt arr asz ub szf)"

lemma struct_members_Nil: "struct_members B g [] acc hk sc = Inr (acc, hk, sc)"
  by (simp add: struct_members_def)

lemma struct_members_Cons:
  "struct_members B g (mem # ms) acc hk sc = rbind (value_type_of_member B g mem) (\<lambda>vt.
     struct_members B g ms (acc @ [Member (mm_name mem) vt (mm_offset mem) (mm_is_key mem)])
       (if mm_is_key mem then True else hk) (if \<not> is_self_contained vt then False else sc))"
  by (cases mem) (simp add: struct_members_def element_type_def array_type_def rbind_assoc)

lemma make_struct_members:
  assumes "make_struct B g (MetaMessage ns name sz ms) = Inr vt"
  obtains mems hk sc si where "struct_members B g ms [] False True = Inr (mems, hk, sc)"
    "vt = StructValueType si mems"
  using assms by (auto simp: make_struct_def struct_members_def rbind_eq_Inr split: if_splits)

lemma make_message_of_data:
  assumes "members_data g sub = Inr (Some m)"
  shows "make_message_value_type B sub = make_struct B g m"
  using assms by (cases sub; cases g) (auto simp: members_data_def make_struct_def split: option.splits if_splits)

lemma member_shape:
  assumes "array_type B g tid elt arr asz ub szf = Inr vt"
    and "dyn_describes e elt" "tid = BOOLEAN \<Longrightarrow> e = DPrim DDS_DYNAMIC_BOOLEAN"
  shows "dyn_describes (shape_of_member arr asz ub e) vt" and "arr \<Longrightarrow> asz \<le> UINT32_MAX"
  using assms
  by (auto simp: array_type_def rosidlc_member_type_def rosidlcpp_member_type_def make_Array_def member_bound_def same_bound_def
      split: if_splits)

section \<open>The dynamic type describes the value type\<close>

definition struct_made :: "('t \<Rightarrow> dyn_type) \<Rightarrow> string \<Rightarrow> (string option \<times> 't \<times> 'd) result \<Rightarrow> (dyn_member list \<Rightarrow> bool) \<Rightarrow> bool" where
  "struct_made view nm r P \<longleftrightarrow> (\<exists>t d ds. r = Inr (None, t, d) \<and> view t = DStruct nm True ds \<and> P ds)"

lemma string_member:
  assumes "dyn_api_documented A view" "view t = DStruct snm True ds"
    and "value_type_of_member B g (MetaMember nm STRING sub arr asz ub off key szf sb) = Inr vt" "nm \<notin> set (map dm_name ds)"
  shows "struct_made view snm (construct_member A g t (MetaMember nm STRING sub arr asz ub off key szf sb) d)
    (\<lambda>ds'. \<exists>e. ds' = ds @ [DynMember nm e False] \<and> dyn_describes e vt)"
proof -
  let ?mem = "MetaMember nm STRING sub arr asz ub off key szf sb"
  let ?elt = "U8StringValueType (UINT32_MAX - 1) (if g = ROSIDL_C then sizeof_rosidl_String B else sizeof_std_string B)"
  have m: "array_type B g STRING ?elt arr asz ub szf = Inr vt"
    using assms(3) by (auto simp: rbind_eq_Inr element_type_def make_U8String_def)
  obtain ddt d1 where c: "dynamic_string_type A DDS_DYNAMIC_STRING8 ?mem d = (ddt, d1)" by force
  have "\<exists>b. view ddt = DString b"
    using c create_view(2) [OF assms(1)] by (auto simp: dynamic_string_type_def split: if_splits) (metis fst_conv)+
  then obtain b where b: "view ddt = DString b" by blast
  note sh = member_shape [OF m, of "DString b"]
  obtain t' d' where a: "dynamic_type_add_typed A t ?mem ddt d1 = Inr (t', d')"
    "view t' = DStruct snm True (ds @ [DynMember nm (shape_of_member arr asz ub (DString b)) False])"
    using add_typed_view [OF assms(1,2), of ?mem ddt d1] assms(4) sh(2) b by auto
  then show ?thesis using c a sh(1) by (auto simp: struct_made_def Let_def simp del: shape_of_member.simps)
qed

lemma prim_member:
  assumes "dyn_api_documented A view" "view t = DStruct snm True ds" "is_primitive_kind tid"
    and "value_type_of_member B g (MetaMember nm tid sub arr asz ub off key szf sb) = Inr vt" "nm \<notin> set (map dm_name ds)"
  shows "struct_made view snm (construct_member A g t (MetaMember nm tid sub arr asz ub off key szf sb) d)
    (\<lambda>ds'. \<exists>e. ds' = ds @ [DynMember nm e False] \<and> dyn_describes e vt)"
proof -
  let ?mem = "MetaMember nm tid sub arr asz ub off key szf sb"
  have np: "tid \<noteq> STRING" "tid \<noteq> WSTRING" "tid \<noteq> MESSAGE" using assms(3) by (auto simp: is_primitive_kind_def)
  obtain k where k: "prim_dynamic_kind tid = Some k" using np by (cases tid) auto
  have m: "array_type B g tid (PrimitiveValueType tid) arr asz ub szf = Inr vt"
    using assms(4) np by (simp add: element_type_def)
  note sh = member_shape [OF m, of "DPrim k"]
  have e: "dyn_describes (DPrim k) (PrimitiveValueType tid)" "tid = BOOLEAN \<Longrightarrow> DPrim k = DPrim DDS_DYNAMIC_BOOLEAN"
    using k by auto
  obtain t' d' where a: "dynamic_type_add_member A t ?mem k d = Inr (t', d')"
    "view t' = DStruct snm True (ds @ [DynMember nm (shape_of_member arr asz ub (DPrim k)) False])"
    using add_prim_view [OF assms(1,2), of ?mem k d] assms(5) sh(2) [OF e] by auto
  then show ?thesis using a np k sh(1) [OF e]
    by (auto simp: struct_made_def Let_def simp del: shape_of_member.simps)
qed

lemma message_member:
  assumes "dyn_api_documented A view" "view t = DStruct snm True ds"
    and "value_type_of_member B g (MetaMember nm MESSAGE sub arr asz ub off key szf sb) = Inr vt" "nm \<notin> set (map dm_name ds)"
    and "members_data g sub = Inr (Some sm)"
    and IH: "\<And>ddt d1 ddt2 d2 vt name. dds_dynamic_type_create A (get_dynamic_type_descriptor DDS_DYNAMIC_STRUCTURE
          (Some (create_type_name (mm_namespace sm) (mm_message_name sm))) [] None) d = (ddt, d1) \<Longrightarrow>
      dds_dynamic_type_set_extensibility_final A ddt d1 = (ddt2, d2) \<Longrightarrow>
      make_struct B g sm = Inr vt \<Longrightarrow> view ddt2 = DStruct name True [] \<Longrightarrow>
      struct_made view name (construct_dds_dynamic_type A g ddt2 sm d2) (\<lambda>ds. dyn_describes (DStruct name True ds) vt)"
  shows "struct_made view snm (construct_member A g t (MetaMember nm MESSAGE sub arr asz ub off key szf sb) d)
    (\<lambda>ds'. \<exists>e. ds' = ds @ [DynMember nm e False] \<and> dyn_describes e vt)"
proof -
  let ?mem = "MetaMember nm MESSAGE sub arr asz ub off key szf sb"
  let ?name = "create_type_name (mm_namespace sm) (mm_message_name sm)"
  obtain elt where elt: "make_struct B g sm = Inr elt" "array_type B g MESSAGE elt arr asz ub szf = Inr vt"
    using assms(3) make_message_of_data [OF assms(5)] by (auto simp: rbind_eq_Inr element_type_def)
  obtain ddt d1 where c: "dds_dynamic_type_create A
      (get_dynamic_type_descriptor DDS_DYNAMIC_STRUCTURE (Some ?name) [] None) d = (ddt, d1)" by force
  obtain ddt2 d2 where f: "dds_dynamic_type_set_extensibility_final A ddt d1 = (ddt2, d2)" by force
  have "view ddt = DStruct ?name False []" using create_view(1) [OF assms(1)] c by (metis fst_conv)
  then have "view ddt2 = DStruct ?name True []" using set_final_view [OF assms(1)] f by (metis fst_conv)
  from IH [OF c f elt(1) this] obtain ddt3 d3 sub_ds where s:
    "construct_dds_dynamic_type A g ddt2 sm d2 = Inr (None, ddt3, d3)"
    "view ddt3 = DStruct ?name True sub_ds" "dyn_describes (DStruct ?name True sub_ds) elt"
    by (auto simp: struct_made_def)
  note sh = member_shape [OF elt(2) s(3)]
  obtain t' d' where a: "dynamic_type_add_typed A t ?mem ddt3 d3 = Inr (t', d')"
    "view t' = DStruct snm True (ds @ [DynMember nm (shape_of_member arr asz ub (DStruct ?name True sub_ds)) False])"
    using add_typed_view [OF assms(1,2), of ?mem ddt3 d3] assms(4) sh(2) s(2) by auto
  then show ?thesis using c f s a assms(5) sh(1)
    by (auto simp: struct_made_def Let_def simp del: shape_of_member.simps dyn_describes.simps)
qed

lemma construct_describes:
  "dyn_api_documented A view \<Longrightarrow> plain_table g mm \<Longrightarrow> make_struct B g mm = Inr vt \<Longrightarrow> view t = DStruct nm True [] \<Longrightarrow>
     struct_made view nm (construct_dds_dynamic_type A g t mm d) (\<lambda>ds. dyn_describes (DStruct nm True ds) vt)"
  "dyn_api_documented A view \<Longrightarrow> \<forall>m \<in> set ms. plain_member g m \<Longrightarrow> struct_members B g ms acc hk sc = Inr (mems, hk', sc') \<Longrightarrow>
     view t = DStruct nm True ds \<Longrightarrow> dyn_describes_members ds acc \<Longrightarrow> i = length ds \<Longrightarrow>
     distinct (map dm_name ds @ map mm_name ms) \<Longrightarrow>
     struct_made view nm (construct_members A g t i ms d) (\<lambda>ds. dyn_describes_members ds mems)"
  "dyn_api_documented A view \<Longrightarrow> plain_member g mem \<Longrightarrow> value_type_of_member B g mem = Inr vt \<Longrightarrow>
     view t = DStruct nm True ds \<Longrightarrow> mm_name mem \<notin> set (map dm_name ds) \<Longrightarrow>
     struct_made view nm (construct_member A g t mem d) (\<lambda>ds'. \<exists>e. ds' = ds @ [DynMember (mm_name mem) e False] \<and> dyn_describes e vt)"
proof (induction A g t mm d and A g t i ms d and A g t mem d
    arbitrary: vt nm and acc hk sc mems hk' sc' nm ds and vt nm ds
    rule: construct_dds_dynamic_type_construct_members_construct_member.induct)
  case (1 A g t ns name sz ms d)
  obtain mems hk sc si where m: "struct_members B g ms [] False True = Inr (mems, hk, sc)" "vt = StructValueType si mems"
    by (rule make_struct_members [OF "1.prems"(3)])
  show ?case using "1.IH" [OF "1.prems"(1) _ m(1) "1.prems"(4)] "1.prems"(2) m(2) by simp
next
  case (2 A g t i d)
  then show ?case by (simp add: struct_made_def struct_members_Nil)
next
  case (3 A g t i mem ms d)
  obtain vt where vt: "value_type_of_member B g mem = Inr vt"
    "struct_members B g ms (acc @ [Member (mm_name mem) vt (mm_offset mem) (mm_is_key mem)])
       (if mm_is_key mem then True else hk) (if \<not> is_self_contained vt then False else sc) = Inr (mems, hk', sc')"
    using "3.prems"(3) by (auto simp: struct_members_Cons rbind_eq_Inr)
  obtain t1 d1 e where c: "construct_member A g t mem d = Inr (None, t1, d1)"
    "view t1 = DStruct nm True (ds @ [DynMember (mm_name mem) e False])" "dyn_describes e vt"
    using "3.IH"(1) [OF "3.prems"(1) _ vt(1) "3.prems"(4)] "3.prems"(2,7) by (auto simp: struct_made_def)
  obtain t2 d2 where k: "(if mm_is_key mem then dds_dynamic_member_set_key A t1 i d1 else (t1, d1)) = (t2, d2)" by force
  let ?ds = "ds @ [DynMember (mm_name mem) e (mm_is_key mem)]"
  have v2: "view t2 = DStruct nm True ?ds"
    using set_key_view [OF "3.prems"(1) c(2), of i d1] c(2) k "3.prems"(6) by (auto split: if_splits)
  have "struct_made view nm (construct_members A g t2 (Suc i) ms d2) (\<lambda>ds. dyn_describes_members ds mems)"
  proof (rule "3.IH"(2) [OF c(1) refl refl _ k [symmetric] "3.prems"(1) _ vt(2) v2])
    show "dyn_describes_members ?ds (acc @ [Member (mm_name mem) vt (mm_offset mem) (mm_is_key mem)])"
      by (rule describes_members_snoc [OF "3.prems"(5) c(3)])
  qed (use "3.prems"(2,6,7) in auto)
  then show ?case using c(1) k by simp
next
  case (4 A g t fnm tid sub arr asz ub off key szf sb d)
  consider "tid = MESSAGE" | "tid = STRING" | "is_primitive_kind tid"
    using "4.prems"(2) by (auto simp: is_primitive_kind_def)
  then show ?case
  proof cases
    case 1
    obtain sm where sm: "members_data g sub = Inr (Some sm)" "plain_table g sm"
      using "4.prems"(2) 1 by (auto split: sum.splits option.splits)
    have "struct_made view nm (construct_member A g t (MetaMember fnm MESSAGE sub arr asz ub off key szf sb) d)
      (\<lambda>ds'. \<exists>e. ds' = ds @ [DynMember fnm e False] \<and> dyn_describes e vt)"
    proof (rule message_member [OF "4.prems"(1,4) _ _ sm(1)])
      show "value_type_of_member B g (MetaMember fnm MESSAGE sub arr asz ub off key szf sb) = Inr vt"
        using "4.prems"(3) 1 by simp
      show "fnm \<notin> set (map dm_name ds)" using "4.prems"(5) by simp
      fix ddt d1 ddt2 d2 vt name
      assume c: "dds_dynamic_type_create A (get_dynamic_type_descriptor DDS_DYNAMIC_STRUCTURE
          (Some (create_type_name (mm_namespace sm) (mm_message_name sm))) [] None) d = (ddt, d1)"
        "dds_dynamic_type_set_extensibility_final A ddt d1 = (ddt2, d2)"
        "make_struct B g sm = Inr vt" "view ddt2 = DStruct name True []"
      show "struct_made view name (construct_dds_dynamic_type A g ddt2 sm d2) (\<lambda>ds. dyn_describes (DStruct name True ds) vt)"
        by (rule "4.IH" [OF refl _ _ 1 sm(1) refl c(1) [symmetric] c(2) [symmetric] "4.prems"(1) sm(2) c(3,4)])
          (use 1 in simp_all)
    qed
    then show ?thesis using 1 by simp
  next
    case 2
    show ?thesis using string_member [of A view t nm ds B g fnm sub arr asz ub off key szf sb vt d] "4.prems" 2 by simp
  next
    case 3
    show ?thesis using prim_member [of A view t nm ds tid B g fnm sub arr asz ub off key szf sb vt d] "4.prems" 3 by simp
  qed
qed

end
