(* ===== verification/DynTypeClaims.thy ===== *)
theory DynTypeClaims
  imports DynTypeProps Examples
begin

text \<open>
  What the dynamic types of a message and of a service describe, and what happens to a type whose
  description could not be made.
\<close>

section \<open>Registration\<close>

text \<open>
  Registering a final structure with members works, and what the topic descriptor then holds is
  determined by the type.
\<close>

definition register_documented ::
  "('t, 'i, 'c, 'd) dyn_api \<Rightarrow> ('t \<Rightarrow> dyn_type) \<Rightarrow> (dyn_type \<Rightarrow> u8 list \<times> u8 list) \<Rightarrow> bool" where
  "register_documented A view blobs \<longleftrightarrow>
     (\<forall>t d nm ds. view t = DStruct nm True ds \<and> ds \<noteq> [] \<longrightarrow>
        (\<exists>i t' d'. dds_dynamic_type_register A t d = (0, i, t', d') \<and>
          (\<forall>d. \<exists>c d'. dds_create_topic_descriptor A i d = (0, c, d') \<and>
             blobs (DStruct nm True ds) = (desc_type_information A c, desc_type_mapping A c))))"

definition described_by :: "sertype_typelib \<Rightarrow> u8 list \<times> u8 list \<Rightarrow> sertype_typelib" where
  "described_by st b = st\<lparr>type_information := Some (fst b), type_mapping := Some (snd b)\<rparr>"

lemma register_blobs:
  assumes "register_documented A view blobs" "view t = DStruct nm True ds" "ds \<noteq> []"
  obtains d' where "dynamic_type_register A st t d = (described_by st (blobs (DStruct nm True ds)), None, d')"
proof -
  obtain i t' d1 c d2 where r: "dds_dynamic_type_register A t d = (0, i, t', d1)"
    "dds_create_topic_descriptor A i d1 = (0, c, d2)"
    "blobs (DStruct nm True ds) = (desc_type_information A c, desc_type_mapping A c)"
    using assms unfolding register_documented_def by metis
  then show thesis using that by (simp add: dynamic_type_register_def described_by_def)
qed

lemma describes_nonempty: "dyn_describes (DStruct nm True ds) vt \<Longrightarrow> vt = StructValueType si ms \<Longrightarrow> ms \<noteq> [] \<Longrightarrow> ds \<noteq> []"
  by (cases ms; cases ds) auto

lemma struct_members_grow: "struct_members B g ms acc hk sc = Inr (mems, hk', sc') \<Longrightarrow> length mems = length acc + length ms"
  by (induction ms arbitrary: acc hk sc) (auto simp: struct_members_Nil struct_members_Cons rbind_eq_Inr)

lemma make_struct_nonempty:
  assumes "plain_table g mm" "make_struct B g mm = Inr vt"
  obtains si mems where "vt = StructValueType si mems" "mems \<noteq> []"
proof -
  obtain ns name sz ms where mm: "mm = MetaMessage ns name sz ms" by (cases mm)
  obtain mems hk sc si where m: "struct_members B g ms [] False True = Inr (mems, hk, sc)" "vt = StructValueType si mems"
    using make_struct_members [of B g ns name sz ms vt] assms(2) mm by blast
  then show thesis using that struct_members_grow [OF m(1)] assms(1) mm by fastforce
qed

lemma make_struct_wf: "make_struct B g mm = Inr vt \<Longrightarrow> wf_type vt"
  using make_value_types_wf(2,3) by (auto simp: make_struct_def wf_struct_def split: if_splits)

text \<open>The type of a message is made, described and registered.\<close>

lemma create_dds_dynamic_type_describes:
  assumes "dyn_api_documented A view" "register_documented A view blobs" "plain_table g mm" "make_struct B g mm = Inr root"
  obtains ds d' where "create_dds_dynamic_type A g name mm st d = Inr (described_by st (blobs (DStruct name True ds)), None, d')"
    "dyn_describes (DStruct name True ds) root"
proof -
  obtain t1 d1 where c: "dds_dynamic_type_create A
      (get_dynamic_type_descriptor DDS_DYNAMIC_STRUCTURE (Some name) [] None) d = (t1, d1)" by force
  obtain t2 d2 where f: "dds_dynamic_type_set_extensibility_final A t1 d1 = (t2, d2)" by force
  have "view t1 = DStruct name False []" using create_view(1) [OF assms(1)] c by (metis fst_conv)
  then have v: "view t2 = DStruct name True []" using set_final_view [OF assms(1)] f by (metis fst_conv)
  from construct_describes(1) [OF assms(1,3,4) v, of d2] obtain t3 d3 ds where s:
    "construct_dds_dynamic_type A g t2 mm d2 = Inr (None, t3, d3)"
    "view t3 = DStruct name True ds" "dyn_describes (DStruct name True ds) root"
    by (auto simp: struct_made_def)
  obtain si mems where "root = StructValueType si mems" "mems \<noteq> []" by (rule make_struct_nonempty [OF assms(3,4)])
  then have "ds \<noteq> []" using describes_nonempty [OF s(3)] by blast
  then obtain d4 where "dynamic_type_register A st t3 d3 = (described_by st (blobs (DStruct name True ds)), None, d4)"
    by (rule register_blobs [OF assms(2) s(2)])
  then show thesis using that [of ds d4] c f s by (simp add: create_dds_dynamic_type_def)
qed

lemma described_names:
  assumes "make_struct B g mm = Inr vt" "dyn_describes (DStruct nm True ds) vt"
  shows "map dm_name ds = map mm_name (mm_members mm)"
proof -
  obtain ns name sz ms where mm: "mm = MetaMessage ns name sz ms" by (cases mm)
  obtain mems hk sc si where m: "struct_members B g ms [] False True = Inr (mems, hk, sc)" "vt = StructValueType si mems"
    using make_struct_members [of B g ns name sz ms vt] assms(1) mm by blast
  have "struct_members B g ms acc hk sc = Inr (mems, hk', sc') \<Longrightarrow> map member_name mems = map member_name acc @ map mm_name ms"
    for acc hk sc hk' sc'
    by (induction ms arbitrary: acc hk sc) (auto simp: struct_members_Nil struct_members_Cons rbind_eq_Inr)
  from this [OF m(1)] show ?thesis using describes_members_names [of ds mems] assms(2) m(2) mm by simp
qed

lemma truncate_blobs:
  "sertype_rmw.truncate (st\<lparr>type_information := i, type_mapping := m\<rparr>) = sertype_rmw.truncate st"
  by (simp add: sertype_rmw.defs)

text \<open>Either the description is stored and there is no error, or there is one and the type is as it was.\<close>

lemma create_dds_dynamic_type_outcome:
  assumes "create_dds_dynamic_type A g name mm st d = Inr (st', err, d')"
  shows "(err = None \<and> (\<exists>b. st' = described_by st b)) \<or> (err \<noteq> None \<and> st' = st)"
  using assms
  by (auto simp: create_dds_dynamic_type_def dynamic_type_register_def rbind_eq_Inr described_by_def
      split: prod.splits if_splits)

section \<open>An implementation of dynamic types\<close>

text \<open>Type handles that are the types; the state counts the calls.\<close>

fun ex_dyn_add :: "dyn_type \<Rightarrow> dyn_type member_descriptor \<Rightarrow> nat \<Rightarrow> int \<times> dyn_type \<times> nat" where
  "ex_dyn_add (DStruct nm fin ms) md d =
     (case spec_type id (md_type md) of
        Some e \<Rightarrow> (if md_name md \<in> set (map dm_name ms) then (-3, DStruct nm fin ms, Suc d)
                  else (0, DStruct nm fin (ms @ [DynMember (md_name md) e False]), Suc d))
      | None \<Rightarrow> (-3, DStruct nm fin ms, Suc d))"
| "ex_dyn_add t md d = (-3, t, Suc d)"

definition ex_dyn_create :: "dyn_type type_descriptor \<Rightarrow> nat \<Rightarrow> dyn_type \<times> nat" where
  "ex_dyn_create td d =
     ((case td_kind td of
         DDS_DYNAMIC_STRUCTURE \<Rightarrow> DStruct (case td_name td of Some n \<Rightarrow> n | None \<Rightarrow> []) False []
       | DDS_DYNAMIC_STRING8 \<Rightarrow> DString (dyn_bound (td_bounds td))
       | DDS_DYNAMIC_ARRAY \<Rightarrow> DArray (case spec_type id (td_element td) of Some e \<Rightarrow> e | None \<Rightarrow> DPrim DDS_DYNAMIC_UINT8)
             (case dyn_bound (td_bounds td) of Some n \<Rightarrow> n | None \<Rightarrow> 0)
       | DDS_DYNAMIC_SEQUENCE \<Rightarrow> DSequence (case spec_type id (td_element td) of Some e \<Rightarrow> e | None \<Rightarrow> DPrim DDS_DYNAMIC_UINT8)
             (dyn_bound (td_bounds td))
       | k \<Rightarrow> DPrim k), Suc d)"

fun ex_dyn_final :: "dyn_type \<Rightarrow> nat \<Rightarrow> dyn_type \<times> nat" where
  "ex_dyn_final (DStruct nm fin ms) d = (DStruct nm True ms, Suc d)"
| "ex_dyn_final t d = (t, Suc d)"

fun ex_dyn_key :: "dyn_type \<Rightarrow> nat \<Rightarrow> nat \<Rightarrow> dyn_type \<times> nat" where
  "ex_dyn_key (DStruct nm fin ms) i d = (DStruct nm fin (ms[i := set_member_key (ms ! i)]), Suc d)"
| "ex_dyn_key t i d = (t, Suc d)"

fun ex_dyn_blob :: "dyn_type \<Rightarrow> u8 list" where
  "ex_dyn_blob (DStruct nm fin ms) = [of_nat (length nm), of_nat (length ms)]"
| "ex_dyn_blob t = []"

definition ex_dyn_api :: "int \<Rightarrow> (dyn_type, dyn_type, dyn_type, nat) dyn_api" where
  "ex_dyn_api rc = \<lparr>ndebug = True, dds_dynamic_type_create = ex_dyn_create, dds_dynamic_type_add_member = ex_dyn_add,
     dds_dynamic_type_set_extensibility_final = ex_dyn_final, dds_dynamic_member_set_key = ex_dyn_key,
     dds_dynamic_type_register = (\<lambda>t d. (rc, t, t, Suc d)), dds_dynamic_type_unref = (\<lambda>_ d. Suc d),
     dds_create_topic_descriptor = (\<lambda>t d. (0, t, Suc d)),
     desc_type_information = ex_dyn_blob, desc_type_mapping = ex_dyn_blob,
     dds_delete_topic_descriptor = (\<lambda>_ d. Suc d), dds_free_typeinfo = (\<lambda>_ d. Suc d)\<rparr>"

lemma spec_type_id: "spec_type id = spec_type (\<lambda>t. t)"
  by (simp add: id_def)

lemma ex_dyn_api_documented: "dyn_api_documented (ex_dyn_api rc) id"
  by (auto simp: dyn_api_documented_def ex_dyn_api_def ex_dyn_create_def split: dyn_kind.splits)

lemma ex_register_documented: "register_documented (ex_dyn_api 0) id (\<lambda>t. (ex_dyn_blob t, ex_dyn_blob t))"
  by (simp add: register_documented_def ex_dyn_api_def)

definition ex_pose :: meta_message where
  "ex_pose = MetaMessage (Some ''geo__msg'') ''Pose'' 40
     [MetaMember ''id'' CHAR_T (TypeSupport None None) False 0 False 0 True False 0,
      MetaMember ''frame'' STRING (TypeSupport None None) False 0 False 8 False False 16,
      MetaMember ''flags'' BOOLEAN (TypeSupport None None) True 4 True 16 False True 0,
      MetaMember ''xyz'' DOUBLE (TypeSupport None None) True 3 False 56 False False 0]"

definition ex_path :: meta_message where
  "ex_path = MetaMessage (Some ''geo__msg'') ''Path'' 24
     [MetaMember ''poses'' MESSAGE (TypeSupport None (Some ex_pose)) True 0 False 0 False True 0]"

lemma ex_path_plain: "plain_table ROSIDL_Cpp ex_path" "members_data ROSIDL_Cpp (TypeSupport None (Some ex_path)) = Inr (Some ex_path)"
  by (simp_all add: ex_path_def ex_pose_def members_data_def)

definition ex_path_type :: value_type where
  "ex_path_type = (case make_message_value_type ex_abi (TypeSupport None (Some ex_path)) of Inr vt \<Rightarrow> vt | Inl _ \<Rightarrow> PrimitiveValueType UINT8)"

lemma ex_path_made: "make_message_value_type ex_abi (TypeSupport None (Some ex_path)) = Inr ex_path_type"
  by (simp add: ex_path_type_def ex_path_def ex_pose_def rosidlcpp_member_type_def make_U8String_def)

lemmas ex_dyn_simps = create_msg_dds_dynamic_type_def create_dds_dynamic_type_def dynamic_type_register_def ex_dyn_api_def
  ex_dyn_create_def get_dynamic_type_descriptor_def get_dynamic_type_descriptor_prim_def get_dynamic_member_descriptor_def
  get_dynamic_member_descriptor_prim_def add_member_checked_def dynamic_type_add_typed_def dynamic_type_add_array_def
  dynamic_type_add_array_prim_def dynamic_type_add_member_def dynamic_string_type_def members_data_def

section \<open>Messages\<close>



section \<open>Services\<close>

text \<open>
  C38. The dynamic types of a service's request and response both have the name of the service, because
  \<open>create_type_name\<close> is given the service's table, while the topics advertise two types with names of
  their own; and what is sent is not a value of the dynamic type: the request header comes first.
\<close>

theorem service_dynamic_types_miss_header:
  assumes "dyn_api_documented A view" "register_documented A view blobs"
    and "language_of ident = Inr g" "plain_table g (request_members svc)" "plain_table g (response_members svc)"
    and "make_struct B g (request_members svc) = Inr rq" "make_struct B g (response_members svc) = Inr rp"
  shows "\<exists>name qs rs d1 d2.
      create_req_dds_dynamic_type A ident svc qst d = Inr (described_by qst (blobs (DStruct name True qs)), None, d1)
    \<and> create_res_dds_dynamic_type A ident svc rst d' = Inr (described_by rst (blobs (DStruct name True rs)), None, d2)
    \<and> name \<noteq> fst (get_request_type_name ident (case sv_namespace svc of Some s \<Rightarrow> s | None \<Rightarrow> []) (sv_name svc))
    \<and> name \<noteq> fst (get_response_type_name ident (case sv_namespace svc of Some s \<Rightarrow> s | None \<Rightarrow> []) (sv_name svc))
    \<and> (\<forall>E m src. fits rq (top_value E m rq SRRequest Sample src) \<longrightarrow>
         cdr_message E m rq SRRequest Sample src = rtps_header E @ mem_read m src 16
           @ dyn_cdr E Sample (DStruct name True qs) (top_value E m rq SRRequest Sample src) 16)
    \<and> (\<forall>E m src. fits rp (top_value E m rp SRRequest Sample src) \<longrightarrow>
         cdr_message E m rp SRRequest Sample src = rtps_header E @ mem_read m src 16
           @ dyn_cdr E Sample (DStruct name True rs) (top_value E m rp SRRequest Sample src) 16)"
proof -
  let ?name = "create_type_name (sv_namespace svc) (sv_name svc)"
  obtain qs d1 where q: "create_dds_dynamic_type A g ?name (request_members svc) qst d
      = Inr (described_by qst (blobs (DStruct ?name True qs)), None, d1)" "dyn_describes (DStruct ?name True qs) rq"
    by (rule create_dds_dynamic_type_describes [OF assms(1,2,4,6)])
  obtain rs d2 where r: "create_dds_dynamic_type A g ?name (response_members svc) rst d'
      = Inr (described_by rst (blobs (DStruct ?name True rs)), None, d2)" "dyn_describes (DStruct ?name True rs) rp"
    by (rule create_dds_dynamic_type_describes [OF assms(1,2,5,7)])
  note cdr = described_cdr(1) [OF q(2) make_struct_wf [OF assms(6)]] described_cdr(1) [OF r(2) make_struct_wf [OF assms(7)]]
  have msg: "cdr_message E m vt SRRequest Sample src = rtps_header E @ mem_read m src 16
      @ cdr E Sample vt (top_value E m vt SRRequest Sample src) 16" for E m vt src
    by (simp add: cdr_message_def cdr_body_def top_value_def)
  show ?thesis
    by (intro exI [of _ ?name] exI [of _ qs] exI [of _ rs] exI [of _ d1] exI [of _ d2] conjI)
      (use q(1) r(1) assms(3) in \<open>auto simp: create_req_dds_dynamic_type_def create_res_dds_dynamic_type_def msg cdr
         create_type_name_def get_request_type_name_def get_response_type_name_def get_type_name_def get_type_name_impl_def\<close>)
qed

definition ex_plan :: service_members where
  "ex_plan = ServiceMembers (Some ''geo__srv'') ''Plan'' ex_path ex_pose"

definition ex_pose_type :: value_type where
  "ex_pose_type = (case make_struct ex_abi ROSIDL_Cpp ex_pose of Inr vt \<Rightarrow> vt | Inl _ \<Rightarrow> PrimitiveValueType UINT8)"

lemma ex_plan_made:
  "make_struct ex_abi ROSIDL_Cpp ex_pose = Inr ex_pose_type" "make_struct ex_abi ROSIDL_Cpp ex_path = Inr ex_path_type"
  "plain_table ROSIDL_Cpp ex_pose"
  using ex_path_made make_message_of_data [OF ex_path_plain(2), of ex_abi]
  by (simp_all add: ex_pose_type_def make_struct_def ex_pose_def rosidlcpp_member_type_def make_U8String_def)

lemma service_dynamic_types_miss_header_witness:
  "\<exists>name qs rs d1 d2 b b'.
      create_req_dds_dynamic_type (ex_dyn_api 0) IntrospectionCpp ex_plan (with_typelib (ex_sertype little True ex_path_type)) 0
        = Inr (described_by (with_typelib (ex_sertype little True ex_path_type)) b, None, d1)
    \<and> create_res_dds_dynamic_type (ex_dyn_api 0) IntrospectionCpp ex_plan (with_typelib (ex_sertype little True ex_pose_type)) 0
        = Inr (described_by (with_typelib (ex_sertype little True ex_pose_type)) b', None, d2)
    \<and> b = (ex_dyn_blob (DStruct name True qs), ex_dyn_blob (DStruct name True qs))
    \<and> b' = (ex_dyn_blob (DStruct name True rs), ex_dyn_blob (DStruct name True rs))
    \<and> name \<noteq> ''geo::srv::dds_::Plan_Request_'' \<and> name \<noteq> ''geo::srv::dds_::Plan_Response_''"
  using service_dynamic_types_miss_header [OF ex_dyn_api_documented ex_register_documented, of IntrospectionCpp ROSIDL_Cpp
      ex_plan ex_abi ex_path_type ex_pose_type "with_typelib (ex_sertype little True ex_path_type)" 0
      "with_typelib (ex_sertype little True ex_pose_type)" 0] ex_plan_made ex_path_plain(1)
  by (simp add: ex_plan_def get_request_type_name_def get_response_type_name_def get_type_name_def get_type_name_impl_def
      del: ex_dyn_blob.simps) blast

section \<open>When a description cannot be made\<close>

text \<open>
  C39. Whether a serialized type can be released is decided by whether its description could be made:
  when construction or registration fails, with an error message, the members that hold the description
  stay uninitialised, and releasing the type or asking for its type information reads them; when there
  is no error, a release frees the two blobs and the type.
\<close>

theorem failed_description_poisons_type:
  assumes "create_msg_dds_dynamic_type A ident mm (with_typelib tp) d = Inr (st, err, d')"
  shows "(err = None \<longleftrightarrow> (\<exists>i m. sertype_rmw_free st = Inr [TypeInformation i, TypeMapping m, SertypeObject]))
    \<and> (err \<noteq> None \<longrightarrow> sertype_rmw_free st = Inl (UB ''free of an uninitialised pointer'')
         \<and> sertype_rmw_typeinfo L st = Inl (UB ''read through an uninitialised pointer'')
         \<and> sertype_rmw_typemap L st = Inl (UB ''read through an uninitialised pointer''))
    \<and> sertype_rmw.truncate st = tp"
proof -
  obtain g where g: "create_dds_dynamic_type A g (create_type_name (mm_namespace mm) (mm_message_name mm)) mm (with_typelib tp) d
      = Inr (st, err, d')"
    using assms by (auto simp: create_msg_dds_dynamic_type_def rbind_eq_Inr)
  have tr: "sertype_rmw.truncate (with_typelib tp) = tp" by (simp add: with_typelib_def sertype_rmw.defs)
  have un: "type_information (with_typelib tp) = None" "type_mapping (with_typelib tp) = None"
    by (simp_all add: with_typelib_def sertype_rmw.defs)
  show ?thesis
    by (rule create_dds_dynamic_type_outcome [OF g, THEN disjE])
      (auto simp: sertype_rmw_free_def sertype_rmw_typeinfo_def sertype_rmw_typemap_def un tr described_by_def truncate_blobs)
qed

lemma failed_description_poisons_type_witness:
  "\<exists>st d'. create_msg_dds_dynamic_type (ex_dyn_api (-1)) IntrospectionCpp ex_path (with_typelib (ex_sertype little False ex_path_type)) (0 :: nat)
      = Inr (st, Some ''dds_dynamic_type_register failed to register type'', d')
    \<and> sertype_rmw_free st = Inl (UB ''free of an uninitialised pointer'')"
proof -
  obtain st d' where c: "create_msg_dds_dynamic_type (ex_dyn_api (-1)) IntrospectionCpp ex_path
      (with_typelib (ex_sertype little False ex_path_type)) (0 :: nat)
      = Inr (st, Some ''dds_dynamic_type_register failed to register type'', d')"
    by (simp add: ex_path_def ex_pose_def ex_dyn_simps)
  then show ?thesis using failed_description_poisons_type [OF c] by blast
qed

end
