(* ===== verification/InitOptions.thy ===== *)
theory InitOptions
  imports Contexts
begin

text \<open>
  Init options of \<^verbatim>\<open>rmw_node.cpp\<close>: \<open>rmw_init_options_init\<close>, \<open>rmw_init_options_copy\<close> and \<open>rmw_init_options_fini\<close>.
  What an options object owns is in memory blocks on a heap, reached by address, so that sharing and
  releasing can be told; the functions of rmw on the parts of the options are the record \<open>options_api\<close>.
\<close>

section \<open>The heap and the options\<close>

datatype heap_block = StringBlock string | PeersBlock "string list"

type_synonym opt_heap = "nat \<Rightarrow> heap_block option"

record discovery_object =
  discovery_range_of :: discovery_range
  peers_at :: "nat option"
  static_peers_count :: nat

record security_object =
  enforce :: bool
  root_path_at :: "nat option"

record rmw_init_options =
  implementation_identifier :: "string option"
  instance_id :: u64
  allocator_valid :: bool
  discovery_of :: discovery_object
  domain_id_of :: nat
  enclave_at :: "nat option"
  security_of :: security_object

definition eclipse_cyclonedds_identifier :: string where
  "eclipse_cyclonedds_identifier = ''rmw_cyclonedds_cpp''"

record options_api =
  RMW_DEFAULT_DOMAIN_ID :: nat
  rmw_get_zero_initialized_discovery_options :: discovery_object
  rmw_get_zero_initialized_security_options :: security_object
  rmw_discovery_options_init :: "discovery_object \<Rightarrow> nat \<Rightarrow> opt_heap \<Rightarrow> rmw_ret \<times> discovery_object \<times> opt_heap"
  rmw_enclave_options_copy :: "nat \<Rightarrow> opt_heap \<Rightarrow> rmw_ret \<times> nat option \<times> opt_heap"
  rmw_enclave_options_fini :: "nat option \<Rightarrow> opt_heap \<Rightarrow> rmw_ret \<times> opt_heap"
  rmw_security_options_copy :: "security_object \<Rightarrow> security_object \<Rightarrow> opt_heap \<Rightarrow> rmw_ret \<times> security_object \<times> opt_heap"
  rmw_security_options_fini :: "security_object \<Rightarrow> opt_heap \<Rightarrow> rmw_ret \<times> security_object \<times> opt_heap"

definition zero_init_options :: "options_api \<Rightarrow> rmw_init_options" where
  "zero_init_options A =
     \<lparr>implementation_identifier = None, instance_id = 0, allocator_valid = False,
      discovery_of = rmw_get_zero_initialized_discovery_options A, domain_id_of = RMW_DEFAULT_DOMAIN_ID A,
      enclave_at = None, security_of = rmw_get_zero_initialized_security_options A\<rparr>"

section \<open>Operations\<close>

definition rmw_init_options_init ::
  "options_api \<Rightarrow> rmw_init_options \<Rightarrow> bool \<Rightarrow> opt_heap \<Rightarrow> rmw_ret \<times> rmw_init_options \<times> opt_heap" where
  "rmw_init_options_init A init_options allocator_is_valid h =
     (if \<not> allocator_is_valid then (RMW_RET_INVALID_ARGUMENT, init_options, h)
      else if implementation_identifier init_options \<noteq> None then (RMW_RET_INVALID_ARGUMENT, init_options, h)
      else
        (case rmw_discovery_options_init A (rmw_get_zero_initialized_discovery_options A) 0 h of (ret, disc, h) \<Rightarrow>
           (ret,
            \<lparr>implementation_identifier = Some eclipse_cyclonedds_identifier, instance_id = 0,
             allocator_valid = allocator_is_valid, discovery_of = disc, domain_id_of = RMW_DEFAULT_DOMAIN_ID A,
             enclave_at = None, security_of = rmw_get_zero_initialized_security_options A\<rparr>, h)))"

text \<open>
  \<open>tmp\<close> starts as a copy of the structure, whose pointers are those of \<open>src\<close>.
\<close>

definition rmw_init_options_copy ::
  "options_api \<Rightarrow> rmw_init_options \<Rightarrow> rmw_init_options \<Rightarrow> opt_heap \<Rightarrow> rmw_ret \<times> rmw_init_options \<times> opt_heap" where
  "rmw_init_options_copy A src dst h =
     (if implementation_identifier src = None then (RMW_RET_INVALID_ARGUMENT, dst, h)
      else if implementation_identifier src \<noteq> Some eclipse_cyclonedds_identifier
        then (RMW_RET_INCORRECT_RMW_IMPLEMENTATION, dst, h)
      else if implementation_identifier dst \<noteq> None then (RMW_RET_INVALID_ARGUMENT, dst, h)
      else
        let tmp = src in
        (case (case enclave_at src of
                 None \<Rightarrow> (RMW_RET_OK, tmp, h)
               | Some a \<Rightarrow> (case rmw_enclave_options_copy A a h of (ret, a', h) \<Rightarrow> (ret, tmp\<lparr>enclave_at := a'\<rparr>, h))) of
           (ret, tmp, h) \<Rightarrow>
             if ret \<noteq> RMW_RET_OK then (ret, dst, h)
             else
               (case rmw_security_options_copy A (security_of src) (rmw_get_zero_initialized_security_options A) h of
                  (ret, so, h) \<Rightarrow>
                    if ret \<noteq> RMW_RET_OK then (ret, dst, snd (rmw_enclave_options_fini A (enclave_at tmp) h))
                    else (RMW_RET_OK, tmp\<lparr>security_of := so\<rparr>, h))))"

definition rmw_init_options_fini ::
  "options_api \<Rightarrow> rmw_init_options \<Rightarrow> opt_heap \<Rightarrow> rmw_ret \<times> rmw_init_options \<times> opt_heap" where
  "rmw_init_options_fini A opts h =
     (if implementation_identifier opts = None then (RMW_RET_INVALID_ARGUMENT, opts, h)
      else if implementation_identifier opts \<noteq> Some eclipse_cyclonedds_identifier
        then (RMW_RET_INCORRECT_RMW_IMPLEMENTATION, opts, h)
      else if \<not> allocator_valid opts then (RMW_RET_INVALID_ARGUMENT, opts, h)
      else
        (case (case enclave_at opts of None \<Rightarrow> (RMW_RET_OK, h) | Some a \<Rightarrow> rmw_enclave_options_fini A (Some a) h) of
           (ret, h) \<Rightarrow>
             if ret \<noteq> RMW_RET_OK then (ret, opts, h)
             else (case rmw_security_options_fini A (security_of opts) h of (ret, _, h) \<Rightarrow> (ret, zero_init_options A, h))))"

text \<open>What \<open>check_create_domain\<close> reads of the discovery options when it writes the configuration of a domain.\<close>

definition peer_addresses :: "discovery_object \<Rightarrow> opt_heap \<Rightarrow> string list result" where
  "peer_addresses disc h =
     (if static_peers_count disc = 0 then Inr []
      else
        (case peers_at disc of
           None \<Rightarrow> Inl (UB ''read through a null pointer'')
         | Some a \<Rightarrow>
            (case h a of
               Some (PeersBlock ps) \<Rightarrow>
                 if static_peers_count disc \<le> length ps then Inr (take (static_peers_count disc) ps)
                 else Inl (UB ''read past the end of the static peers'')
             | _ \<Rightarrow> Inl (UB ''read of released static peers''))))"

section \<open>What rmw promises\<close>

text \<open>
  A copy is a fresh block with the same contents, or nothing has changed; releasing releases the block.
  Options without a security root own nothing.
\<close>

definition enclave_copy_documented :: "options_api \<Rightarrow> bool" where
  "enclave_copy_documented A \<longleftrightarrow> (\<forall>a h x. h a = Some (StringBlock x) \<longrightarrow>
     (case rmw_enclave_options_copy A a h of (ret, a', h') \<Rightarrow>
        if ret = RMW_RET_OK then (\<exists>n. a' = Some n \<and> h n = None \<and> h' = h(n \<mapsto> StringBlock x)) else h' = h))"

definition enclave_fini_documented :: "options_api \<Rightarrow> bool" where
  "enclave_fini_documented A \<longleftrightarrow>
     (\<forall>a h x. h a = Some (StringBlock x) \<longrightarrow> rmw_enclave_options_fini A (Some a) h = (RMW_RET_OK, h(a := None)))
   \<and> (\<forall>h. snd (rmw_enclave_options_fini A None h) = h)"

definition security_copy_documented :: "options_api \<Rightarrow> bool" where
  "security_copy_documented A \<longleftrightarrow> (\<forall>s z h. root_path_at z = None \<longrightarrow>
     (case rmw_security_options_copy A s z h of (ret, s', h') \<Rightarrow>
        if ret = RMW_RET_OK
        then enforce s' = enforce s \<and>
          (case root_path_at s of
             None \<Rightarrow> root_path_at s' = None \<and> h' = h
           | Some a \<Rightarrow> (\<forall>x. h a = Some (StringBlock x) \<longrightarrow>
               (\<exists>n. root_path_at s' = Some n \<and> h n = None \<and> h' = h(n \<mapsto> StringBlock x))))
        else h' = h))"

definition security_fini_documented :: "options_api \<Rightarrow> bool" where
  "security_fini_documented A \<longleftrightarrow> (\<forall>s h. case root_path_at s of
        None \<Rightarrow> fst (rmw_security_options_fini A s h) = RMW_RET_OK \<and> snd (snd (rmw_security_options_fini A s h)) = h
      | Some a \<Rightarrow> (\<forall>x. h a = Some (StringBlock x) \<longrightarrow>
          fst (rmw_security_options_fini A s h) = RMW_RET_OK \<and> snd (snd (rmw_security_options_fini A s h)) = h(a := None)))"

definition options_documented :: "options_api \<Rightarrow> bool" where
  "options_documented A \<longleftrightarrow>
     root_path_at (rmw_get_zero_initialized_security_options A) = None \<and> enclave_copy_documented A
   \<and> enclave_fini_documented A \<and> security_copy_documented A \<and> security_fini_documented A"

text \<open>The text at an address, and initialised options whose strings are allocated.\<close>

definition text_at :: "opt_heap \<Rightarrow> nat option \<Rightarrow> string option" where
  "text_at h a = (case a of None \<Rightarrow> None | Some n \<Rightarrow> (case h n of Some (StringBlock x) \<Rightarrow> Some x | _ \<Rightarrow> None))"

definition options_valid :: "rmw_init_options \<Rightarrow> opt_heap \<Rightarrow> bool" where
  "options_valid opts h \<longleftrightarrow>
     implementation_identifier opts = Some eclipse_cyclonedds_identifier \<and> allocator_valid opts
   \<and> (\<forall>a. enclave_at opts = Some a \<longrightarrow> text_at h (Some a) \<noteq> None)
   \<and> (\<forall>a. root_path_at (security_of opts) = Some a \<longrightarrow> text_at h (Some a) \<noteq> None)"

section \<open>The parts\<close>

lemma enclave_copy_cases:
  assumes "options_documented A" "h a = Some (StringBlock x)" "rmw_enclave_options_copy A a h = (ret, a', h')"
  shows "ret = RMW_RET_OK \<Longrightarrow> \<exists>n. a' = Some n \<and> h n = None \<and> h' = h(n \<mapsto> StringBlock x)"
    and "ret \<noteq> RMW_RET_OK \<Longrightarrow> h' = h"
proof -
  have "enclave_copy_documented A" using assms(1) by (simp only: options_documented_def simp_thms)
  note c = this [unfolded enclave_copy_documented_def, rule_format, where h = h and a = a and x = x, OF assms(2), unfolded assms(3) prod.case]
  show "ret = RMW_RET_OK \<Longrightarrow> \<exists>n. a' = Some n \<and> h n = None \<and> h' = h(n \<mapsto> StringBlock x)" using c by (simp only: if_True if_False simp_thms)
  show "ret \<noteq> RMW_RET_OK \<Longrightarrow> h' = h" using c by (simp only: if_True if_False simp_thms)
qed

lemma enclave_fini:
  assumes "options_documented A"
  shows "h a = Some (StringBlock x) \<Longrightarrow> rmw_enclave_options_fini A (Some a) h = (RMW_RET_OK, h(a := None))"
    and "snd (rmw_enclave_options_fini A None h) = h"
  using assms by (simp_all add: options_documented_def enclave_fini_documented_def)

lemma security_copy_cases:
  assumes "options_documented A"
    and "rmw_security_options_copy A s (rmw_get_zero_initialized_security_options A) h = (ret, s', h')"
    and "\<And>a. root_path_at s = Some a \<Longrightarrow> text_at h (Some a) \<noteq> None"
  shows "ret \<noteq> RMW_RET_OK \<Longrightarrow> h' = h"
    and "ret = RMW_RET_OK \<Longrightarrow> (root_path_at s = None \<and> root_path_at s' = None \<and> h' = h)
      \<or> (\<exists>a x n. root_path_at s = Some a \<and> h a = Some (StringBlock x) \<and> root_path_at s' = Some n
           \<and> h n = None \<and> h' = h(n \<mapsto> StringBlock x))"
proof -
  have z: "root_path_at (rmw_get_zero_initialized_security_options A) = None"
    using assms(1) by (simp only: options_documented_def simp_thms)
  have "security_copy_documented A" using assms(1) by (simp only: options_documented_def simp_thms)
  note c = this [unfolded security_copy_documented_def, rule_format, OF z, of s h, unfolded assms(2) prod.case]
  then show "ret \<noteq> RMW_RET_OK \<Longrightarrow> h' = h" by (simp only: if_False simp_thms)
  have "\<exists>x. h a = Some (StringBlock x)" if "root_path_at s = Some a" for a
    using assms(3) [OF that] by (auto simp: text_at_def split: option.splits heap_block.splits)
  then show "ret = RMW_RET_OK \<Longrightarrow> (root_path_at s = None \<and> root_path_at s' = None \<and> h' = h)
      \<or> (\<exists>a x n. root_path_at s = Some a \<and> h a = Some (StringBlock x) \<and> root_path_at s' = Some n
           \<and> h n = None \<and> h' = h(n \<mapsto> StringBlock x))"
    using c by (cases "root_path_at s") (simp_all only: if_True option.case simp_thms, blast+)
qed

lemma security_fini:
  assumes "options_documented A"
  shows "root_path_at s = None \<Longrightarrow> \<exists>z. rmw_security_options_fini A s h = (RMW_RET_OK, z, h)"
    and "root_path_at s = Some a \<Longrightarrow> h a = Some (StringBlock x) \<Longrightarrow>
      \<exists>z. rmw_security_options_fini A s h = (RMW_RET_OK, z, h(a := None))"
proof -
  have "security_fini_documented A" using assms by (simp only: options_documented_def simp_thms)
  note c = this [unfolded security_fini_documented_def, rule_format]
  show "root_path_at s = None \<Longrightarrow> \<exists>z. rmw_security_options_fini A s h = (RMW_RET_OK, z, h)"
    using c [of s h] by (cases "rmw_security_options_fini A s h") auto
  show "root_path_at s = Some a \<Longrightarrow> h a = Some (StringBlock x) \<Longrightarrow>
      \<exists>z. rmw_security_options_fini A s h = (RMW_RET_OK, z, h(a := None))"
    using c [of s h] by (cases "rmw_security_options_fini A s h") auto
qed

text \<open>
  The strings a copy made, as additions to the heap: \<open>owns h h' a b\<close> says that block \<open>b\<close> of \<open>h'\<close> is a fresh
  copy of block \<open>a\<close> of \<open>h\<close>, the rest being the same, and nothing when there is no \<open>a\<close>.
\<close>

definition owns :: "opt_heap \<Rightarrow> opt_heap \<Rightarrow> nat option \<Rightarrow> nat option \<Rightarrow> bool" where
  "owns h h' a b \<longleftrightarrow>
     (case (a, b) of
        (None, None) \<Rightarrow> h' = h
      | (Some a, Some b) \<Rightarrow> (\<exists>x. h a = Some (StringBlock x) \<and> h b = None \<and> h' = h(b \<mapsto> StringBlock x))
      | _ \<Rightarrow> False)"

lemma enclave_copied:
  assumes "options_documented A" "options_valid src h"
    and "(case enclave_at src of None \<Rightarrow> (RMW_RET_OK, src, h)
      | Some a \<Rightarrow> (case rmw_enclave_options_copy A a h of (ret, a', h) \<Rightarrow> (ret, src\<lparr>enclave_at := a'\<rparr>, h))) = (ret, tmp, h')"
  shows "if ret = RMW_RET_OK then owns h h' (enclave_at src) (enclave_at tmp) \<and> tmp = src\<lparr>enclave_at := enclave_at tmp\<rparr>
    else h' = h"
proof (cases "enclave_at src")
  case None
  then show ?thesis using assms(3) by (auto simp: owns_def)
next
  case (Some a)
  then obtain x where x: "h a = Some (StringBlock x)"
    using assms(2) by (auto simp: options_valid_def text_at_def split: option.splits heap_block.splits)
  obtain r a' h1 where c: "rmw_enclave_options_copy A a h = (r, a', h1)" by (cases "rmw_enclave_options_copy A a h")
  then show ?thesis using Some assms(3) enclave_copy_cases [OF assms(1) x c] x by (auto simp: owns_def)
qed

text \<open>What the new object owns, and that releasing it is exact.\<close>

lemma owns_text: "owns h h' a b \<Longrightarrow> text_at h' b = text_at h a"
  by (auto simp: owns_def text_at_def split: option.splits)

lemma owns_later: "owns h h' a b \<Longrightarrow> h n \<noteq> None \<Longrightarrow> h' n = h n \<and> b \<noteq> Some n"
  by (auto simp: owns_def split: option.splits)

lemma owns_text_later: "owns h h' a b \<Longrightarrow> text_at h c \<noteq> None \<Longrightarrow> text_at h' c = text_at h c"
  using owns_later [of h h' a b] by (cases c) (auto simp: text_at_def split: option.splits)

lemma release_fresh: "h n = None \<Longrightarrow> h(n := None) = (h :: opt_heap)"
  by auto

lemma fini_exact:
  assumes "options_documented A" "owns h h1 a e" "owns h1 h2 b (root_path_at so)"
    and "enclave_at dst' = e" "security_of dst' = so"
    and "implementation_identifier dst' = Some eclipse_cyclonedds_identifier" "allocator_valid dst'"
  shows "rmw_init_options_fini A dst' h2 = (RMW_RET_OK, zero_init_options A, h)"
proof -
  let ?h3 = "(case e of None \<Rightarrow> h2 | Some n \<Rightarrow> h2(n := None))"
  have 1: "(case e of None \<Rightarrow> (RMW_RET_OK, h2) | Some a \<Rightarrow> rmw_enclave_options_fini A (Some a) h2) = (RMW_RET_OK, ?h3)"
  proof (cases e)
    case (Some n)
    then obtain x where "h1 n = Some (StringBlock x)" using assms(2) by (auto simp: owns_def split: option.splits)
    then have "h2 n = Some (StringBlock x)" using owns_later [OF assms(3), of n] by simp
    then show ?thesis using enclave_fini(1) [OF assms(1)] Some by simp
  qed simp
  have "\<exists>z. rmw_security_options_fini A so ?h3 = (RMW_RET_OK, z, h)"
  proof (cases "root_path_at so")
    case None
    then have "?h3 = h" using assms(2,3) by (auto simp: owns_def split: option.splits)
    then show ?thesis using security_fini(1) [OF assms(1) None] by simp
  next
    case (Some n)
    then obtain x where x: "h1 n = None" "h2 = h1(n \<mapsto> StringBlock x)" using assms(3) by (auto simp: owns_def split: option.splits)
    have "?h3 n = Some (StringBlock x)" "?h3(n := None) = h"
      using assms(2) x by (auto simp: owns_def release_fresh split: option.splits if_splits)
    then show ?thesis using security_fini(2) [OF assms(1) Some] by metis
  qed
  then show ?thesis using 1 assms(4-7) by (auto simp: rmw_init_options_fini_def)
qed

section \<open>Copies\<close>

text \<open>
  C40. Copying init options either fails and changes nothing, or makes an object that owns its enclave and
  its security root: they have the same text in blocks of their own, and finalising the copy gives the
  memory back exactly.  The static peers are not copied: the copy has the source's address, so it can read
  them only as long as the source's are not released.
\<close>

theorem options_copy_ownership:
  assumes "options_documented A" "options_valid src h" "implementation_identifier dst = None"
    and "rmw_init_options_copy A src dst h = (ret, dst', h')"
  shows "if ret \<noteq> RMW_RET_OK then dst' = dst \<and> h' = h
    else text_at h' (enclave_at dst') = text_at h (enclave_at src)
       \<and> text_at h' (root_path_at (security_of dst')) = text_at h (root_path_at (security_of src))
       \<and> (\<forall>a b. h a \<noteq> None \<longrightarrow> h' a = h a \<and> enclave_at dst' \<noteq> Some a \<and> root_path_at (security_of dst') \<noteq> Some a)
       \<and> rmw_init_options_fini A dst' h' = (RMW_RET_OK, zero_init_options A, h)
       \<and> discovery_of dst' = discovery_of src
       \<and> (\<forall>p. peers_at (discovery_of src) = Some p \<and> static_peers_count (discovery_of src) \<noteq> 0 \<longrightarrow>
            peer_addresses (discovery_of dst') (h'(p := None)) = Inl (UB ''read of released static peers''))"
proof -
  obtain r1 tmp h1 where e: "(case enclave_at src of None \<Rightarrow> (RMW_RET_OK, src, h)
      | Some a \<Rightarrow> (case rmw_enclave_options_copy A a h of (ret, a', h) \<Rightarrow> (ret, src\<lparr>enclave_at := a'\<rparr>, h))) = (r1, tmp, h1)"
    by (metis prod_cases3)
  note ec = enclave_copied [OF assms(1,2) e]
  obtain r2 so h2 where sc: "rmw_security_options_copy A (security_of src) (rmw_get_zero_initialized_security_options A) h1
      = (r2, so, h2)" by (metis prod_cases3)
  have id: "implementation_identifier src = Some eclipse_cyclonedds_identifier" "allocator_valid src"
    using assms(2) by (simp_all add: options_valid_def)
  have copy: "rmw_init_options_copy A src dst h = (if r1 \<noteq> RMW_RET_OK then (r1, dst, h1)
      else if r2 \<noteq> RMW_RET_OK then (r2, dst, snd (rmw_enclave_options_fini A (enclave_at tmp) h2))
      else (RMW_RET_OK, tmp\<lparr>security_of := so\<rparr>, h2))"
    unfolding rmw_init_options_copy_def Let_def e using id assms(3) sc by simp
  show ?thesis
  proof (cases "r1 = RMW_RET_OK")
    case False
    then show ?thesis using copy assms(4) ec by simp
  next
    case r1: True
    then have own: "owns h h1 (enclave_at src) (enclave_at tmp)" "tmp = src\<lparr>enclave_at := enclave_at tmp\<rparr>"
      using ec by simp_all
    have rt: "text_at h1 (Some a) \<noteq> None" if "root_path_at (security_of src) = Some a" for a
      using that own(1) assms(2) by (auto simp: options_valid_def owns_def text_at_def split: option.splits heap_block.splits)
    have sd: "r2 \<noteq> RMW_RET_OK \<Longrightarrow> h2 = h1"
      by (rule security_copy_cases(1) [OF assms(1) sc]) (rule rt)
    show ?thesis
    proof (cases "r2 = RMW_RET_OK")
      case False
      have "snd (rmw_enclave_options_fini A (enclave_at tmp) h1) = h"
        using own(1) enclave_fini [OF assms(1)] by (auto simp: owns_def split: option.splits)
      then show ?thesis using copy assms(4) r1 False sd by simp
    next
      case r2: True
      have own2: "owns h1 h2 (root_path_at (security_of src)) (root_path_at so)"
        using security_copy_cases(2) [OF assms(1) sc rt] r2 by (auto simp: owns_def)
      have d: "ret = RMW_RET_OK" "dst' = tmp\<lparr>security_of := so\<rparr>" "h' = h2" using copy assms(4) r1 r2 by simp_all
      have f: "enclave_at dst' = enclave_at tmp" "security_of dst' = so" "discovery_of dst' = discovery_of src"
        "implementation_identifier dst' = Some eclipse_cyclonedds_identifier" "allocator_valid dst'"
        by (simp_all add: d(2), (subst own(2), simp add: id)+)
      have t: "text_at h2 (enclave_at tmp) = text_at h (enclave_at src)"
        using owns_text [OF own(1)] owns_text_later [OF own2, of "enclave_at tmp"] own(1) assms(2)
        by (cases "enclave_at src"; cases "enclave_at tmp") (auto simp: options_valid_def owns_def text_at_def)
      have u: "text_at h2 (root_path_at so) = text_at h (root_path_at (security_of src))"
        using owns_text [OF own2] owns_text_later [OF own(1), of "root_path_at (security_of src)"] assms(2)
        by (cases "root_path_at (security_of src)") (auto simp: options_valid_def text_at_def)
      have l: "h a \<noteq> None \<Longrightarrow> h2 a = h a \<and> enclave_at tmp \<noteq> Some a \<and> root_path_at so \<noteq> Some a" for a
        using owns_later [OF own(1), of a] owns_later [OF own2, of a] by simp
      show ?thesis
        using fini_exact [OF assms(1) own(1) own2 f(1,2,4,5)] f t u l d
        by (simp add: peer_addresses_def)
    qed
  qed
qed

text \<open>
  An allocator that uses the first free address, and three options: with an enclave, a security root and
  a static peer.
\<close>

definition first_free :: "opt_heap \<Rightarrow> nat" where
  "first_free h = (if h 0 = None then 0 else if h 1 = None then 1 else if h 2 = None then 2 else if h 3 = None then 3
     else if h 4 = None then 4 else 5)"

definition duplicate :: "nat \<Rightarrow> opt_heap \<Rightarrow> rmw_ret \<times> nat option \<times> opt_heap" where
  "duplicate a h =
     (if h (first_free h) = None then (RMW_RET_OK, Some (first_free h), h(first_free h := h a))
      else (RMW_RET_BAD_ALLOC, None, h))"

definition ex_options_api :: options_api where
  "ex_options_api = \<lparr>RMW_DEFAULT_DOMAIN_ID = 18446744073709551615,
     rmw_get_zero_initialized_discovery_options =
       \<lparr>discovery_range_of = RANGE_NOT_SET, peers_at = None, static_peers_count = 0\<rparr>,
     rmw_get_zero_initialized_security_options = \<lparr>enforce = False, root_path_at = None\<rparr>,
     rmw_discovery_options_init = (\<lambda>disc n h. (RMW_RET_OK, disc, h)),
     rmw_enclave_options_copy = duplicate,
     rmw_enclave_options_fini = (\<lambda>a h. case a of None \<Rightarrow> (RMW_RET_INVALID_ARGUMENT, h) | Some a \<Rightarrow> (RMW_RET_OK, h(a := None))),
     rmw_security_options_copy = (\<lambda>s z h. case root_path_at s of None \<Rightarrow> (RMW_RET_OK, s, h)
        | Some a \<Rightarrow> (case duplicate a h of (ret, a', h') \<Rightarrow> (ret, s\<lparr>root_path_at := a'\<rparr>, h'))),
     rmw_security_options_fini = (\<lambda>s h. case root_path_at s of None \<Rightarrow> (RMW_RET_OK, s, h)
        | Some a \<Rightarrow> (RMW_RET_OK, s\<lparr>root_path_at := None\<rparr>, h(a := None)))\<rparr>"

lemma duplicate_cases:
  "h a = Some (StringBlock x) \<Longrightarrow> case duplicate a h of (ret, a', h') \<Rightarrow>
     if ret = RMW_RET_OK then (\<exists>n. a' = Some n \<and> h n = None \<and> h' = h(n \<mapsto> StringBlock x)) else h' = h"
  by (simp add: duplicate_def)

lemma ex_options_documented: "options_documented ex_options_api"
proof -
  have "enclave_copy_documented ex_options_api"
    unfolding enclave_copy_documented_def ex_options_api_def options_api.simps by (intro allI impI) (rule duplicate_cases)
  moreover have "security_copy_documented ex_options_api"
    by (auto simp: security_copy_documented_def ex_options_api_def duplicate_def split: option.splits)
  ultimately show ?thesis
    by (simp add: options_documented_def enclave_fini_documented_def security_fini_documented_def ex_options_api_def
        split: option.splits)
qed

definition ex_init_options :: rmw_init_options where
  "ex_init_options = \<lparr>implementation_identifier = Some eclipse_cyclonedds_identifier, instance_id = 0, allocator_valid = True,
     discovery_of = \<lparr>discovery_range_of = RANGE_SUBNET, peers_at = Some 2, static_peers_count = 1\<rparr>, domain_id_of = 0,
     enclave_at = Some 0, security_of = \<lparr>enforce = True, root_path_at = Some 1\<rparr>\<rparr>"

definition ex_init_heap :: opt_heap where
  "ex_init_heap = [0 \<mapsto> StringBlock ''/'', 1 \<mapsto> StringBlock ''/keys'', 2 \<mapsto> PeersBlock [''10.0.0.7'']]"

lemma options_copy_ownership_witness:
  "\<exists>dst' h'. rmw_init_options_copy ex_options_api ex_init_options (zero_init_options ex_options_api) ex_init_heap = (RMW_RET_OK, dst', h')
    \<and> peer_addresses (discovery_of dst') h' = Inr [''10.0.0.7'']
    \<and> peer_addresses (discovery_of dst') (h'(2 := None)) = Inl (UB ''read of released static peers'')
    \<and> rmw_init_options_fini ex_options_api dst' h' = (RMW_RET_OK, zero_init_options ex_options_api, ex_init_heap)"
proof -
  obtain ret dst' h' where c: "rmw_init_options_copy ex_options_api ex_init_options (zero_init_options ex_options_api) ex_init_heap
      = (ret, dst', h')" by (metis prod_cases3)
  have "ret = RMW_RET_OK"
    using c by (simp add: rmw_init_options_copy_def ex_options_api_def ex_init_options_def ex_init_heap_def zero_init_options_def
        duplicate_def first_free_def)
  moreover have "options_valid ex_init_options ex_init_heap"
    by (simp add: options_valid_def ex_init_options_def ex_init_heap_def text_at_def)
  ultimately show ?thesis
    using options_copy_ownership [OF ex_options_documented _ _ c] c
    by (auto simp: zero_init_options_def ex_init_options_def ex_init_heap_def peer_addresses_def)
qed

end
