(* ===== verification/Spec2Isabelle.thy ===== *)
theory Spec2Isabelle
  imports Examples Names Qos WaitClaims Events ServiceClaims EndpointClaims ContextClaims MessageClaims DiscoveryClaims GraphClaims DynTypeClaims InitOptions
begin

text \<open>
  rmw_cyclonedds: the ROS 2 middleware interface on Eclipse Cyclone DDS, \<^verbatim>\<open>src/rmw_cyclonedds_cpp/src\<close>.

  Parts of the program and how they interact.  A type support handle describes a message type by
  introspection tables; \<^verbatim>\<open>TypeSupport2.cpp\<close> wraps them in value types.  \<^verbatim>\<open>Serialization.cpp\<close> builds a CDR
  writer and reader from a value type; they serialize, measure, deserialize, print and extract
  keys, with \<^verbatim>\<open>trivsercache.hpp\<close> deciding when a struct may be copied as memory.  \<^verbatim>\<open>serdata.cpp\<close> plugs the
  writers and readers into Cyclone DDS as serialized types and serialized samples.  \<^verbatim>\<open>rmw_node.cpp\<close> is
  the rmw interface on top: contexts own a domain, a participant and a thread that keeps the graph; nodes
  count the uses of a context; publishers, subscriptions, clients and services are DDS writers and readers
  with names, types and QoS converted; wait sets and listeners tell the layer above what has arrived.
  \<^verbatim>\<open>type_name.cpp\<close> and \<^verbatim>\<open>demangle.cpp\<close> map names between ROS and DDS.

  Theories, in import order, with the code each models.

    \<^item> \<open>Prelude\<close>: widths, \<open>size_t\<close> arithmetic with its wrap-around, exceptions and undefined behaviour as
      values of \<open>exn\<close>, results, alignment, and the collection \<open>ledger\<close>.
    \<^item> \<open>Bytewise\<close>: \<^verbatim>\<open>bytewise.hpp\<close> (byte order, \<open>byteswap\<close>, \<open>align_\<close>).
    \<^item> \<open>TypeSupport\<close>: \<^verbatim>\<open>TypeSupport2.hpp/.cpp\<close>.  The virtual classes \<open>AnyValueType\<close> are one datatype; a message in
      memory is read through a record of accessors.
    \<^item> \<open>Cursors\<close>: the \<open>CDRCursor\<close> classes of \<^verbatim>\<open>Serialization.cpp\<close>, with the locale \<open>write_cursor\<close> for their contract,
      interpreted on the size cursor and the data cursor in both byte orders.
    \<^item> \<open>TrivSerCache\<close>: \<^verbatim>\<open>trivsercache.hpp\<close>, and that a positive answer makes the memory image the encoding.
    \<^item> \<open>CdrSpec\<close>: the reference encoding \<open>cdr\<close>, a function of value, type, byte order and offset.
    \<^item> \<open>CdrWriter\<close>, \<open>CdrSize\<close>, \<open>CdrReader\<close>, \<open>CdrDecode\<close>, \<open>ExtractKey\<close>, \<open>CdrPrint\<close>: \<open>CDRWriter\<close> and \<open>CDRReader\<close>, operation by
      operation, each proved against \<open>cdr\<close>.
    \<^item> \<open>Serdata\<close>, \<open>SerdataProps\<close>: \<^verbatim>\<open>serdata.cpp\<close>: samples, keys, hashes, fragment chains.
    \<^item> \<open>Names\<close>: \<^verbatim>\<open>type_name.cpp\<close>, \<^verbatim>\<open>demangle.cpp\<close>, \<^verbatim>\<open>u16string.cpp\<close>, \<open>make_fqtopic\<close>.
    \<^item> \<open>Qos\<close>: the QoS conversions of \<^verbatim>\<open>rmw_node.cpp\<close>.
    \<^item> \<open>Examples\<close>: the concrete types, memories and machines of the witnesses.

  The remaining theories model \<^verbatim>\<open>rmw_node.cpp\<close>.

    \<^item> \<open>RmwBase\<close>: return codes, event types, the objects behind the rmw handles and the part of Cyclone DDS that
      wait sets call.
    \<^item> \<open>WaitSet\<close>, \<open>WaitProps\<close>, \<open>WaitSteps\<close>, \<open>WaitClaims\<close>: \<open>rmw_wait\<close> and the caches of attached objects.  The locale
      \<open>keyed_cache\<close> is the contract of the two overloads of \<open>require_reattach\<close>, interpreted on both.  Several threads
      are a step relation in which a call is three steps: entering, attaching and waking up.  Attaching and
      reporting are one step each, because nothing else touches a wait set that is in use.
    \<^item> \<open>Events\<close>: the listener callbacks, the functions that set user callbacks, \<open>rmw_take_event\<close>.
    \<^item> \<open>Services\<close>, \<open>ServiceProps\<close>, \<open>ServiceClaims\<close>: requests, responses, availability.
    \<^item> \<open>Endpoints\<close>, \<open>EndpointProps\<close>, \<open>ClientService\<close>, \<open>EndpointClaims\<close>: creating and destroying publishers, subscriptions,
      clients and services.  What the process owns (entities, allocations, listeners, QoS objects,
      references to types) is a multiset; a label that errors jump to is a function.
    \<^item> \<open>Contexts\<close>, \<open>ContextProps\<close>, \<open>ContextLedger\<close>, \<open>ContextClaims\<close>: \<open>rmw_context_impl_s\<close>, the domains of the process and
      their reference counts, nodes.  The process is a step relation on its contexts.
    \<^item> \<open>Messages\<close>, \<open>MessageClaims\<close>: publishing, taking, sequences, loans, \<open>rmw_serialize\<close>.
    \<^item> \<open>Discovery\<close>, \<open>DiscoveryClaims\<close>: the discovery thread.  The locale \<open>sample_loop\<close> is the loop of its handlers,
      interpreted on both kinds.
    \<^item> \<open>GraphQueries\<close>, \<open>GraphClaims\<close>: listing, counting and describing what is in the graph; actual QoS.
    \<^item> \<open>DynType\<close>, \<open>DynTypeProps\<close>, \<open>DynTypeClaims\<close>: \<^verbatim>\<open>dyntype.cpp\<close> and the type library hooks of \<^verbatim>\<open>serdata.cpp\<close>.
      \<open>dyn_cdr\<close> is the encoding a dynamic type stands for.
    \<^item> \<open>InitOptions\<close>: init options, with what they own on an explicit heap.

  What the lemmas show.  The writer emits exactly \<open>cdr\<close> (C3), the size cursor measures it, the
  reported and maximum sizes bound it (C4, C5); the reader inverts it across byte orders (C2) and is
  safe on arbitrary bytes (C6); keys are extracted, hashed and compared consistently (C7,
  C8, C10); a sample published is the sample received
  (C1).  Names and QoS are read back as written (C35, C13).  A blocked call of
  \<open>rmw_wait\<close> waits for what it was given and reports what is triggered (C14, C15, C16), no
  notification is lost (C19), responses reach the client that asked (C20).  What is created is
  released (C23, C28), and domains live as long as they are used (C26).
  Defects of the code are theorems too: C12, C17,
  C18, C24, C27, and the theorems on
  the size and the keys of arrays.  The graph follows discovery, and the
  queries report exactly what was created (C33, C35).  The dynamic type
  of a message describes what the writer emits (C37).  Defects again: C36,
  C38, C39, and the static peers in C40.

  Bounds.  Recursion is over the type or the value, so no fuel is needed; an array's element count and
  a string's length are the program's \<open>size_t\<close>, below \<open>2 ^ 64\<close>, and the theorems name the size limits they
  need (a message fits in \<open>2 ^ 32\<close> bytes, as its length fields do).  Loops that ask the outside world are
  \<open>partial_function (option)\<close>: not returning is \<open>None\<close>, and that they return is proved.

  What is a parameter.  Cyclone DDS, rmw_dds_common, rcpputils, the C library's \<open>snprintf\<close> and the
  generated message code are not under src/: they are records of functions passed to the definitions (\<open>env\<close>,
  \<open>rmw_lib\<close>, \<open>dds_api\<close>, \<open>cs_api\<close>, \<open>ep_api\<close>, \<open>ctx_api\<close>, \<open>msg_api\<close>, \<open>disc_api\<close>,
  \<open>graph_api\<close>, \<open>dyn_api\<close>, \<open>options_api\<close>), on an abstract state of the outside world where they have
  one, with what is relied on as named predicates (\<open>env_ok\<close>, \<open>rmw_time_spec\<close>, \<open>replaces_all\<close>, \<open>entity_reports\<close>,
  \<open>cyclone\<close>, \<open>cyclone_cs\<close>, \<open>dyn_api_documented\<close>, \<open>options_documented\<close>), and each property that uses such a predicate is applied to a concrete instance
  by its witness.

  Not modelled.  Logging, the tracing hooks, the argument checks that only compare identifier
  strings or look for null pointers, exceptions of the type support in the creation of endpoints,
  \<^verbatim>\<open>rmw_get_network_flow_endpoints.cpp\<close>, which reports that it is unsupported.
\<close>

section \<open>Publishing and receiving\<close>









text \<open>
  C5. The maximum the constructor of \<open>CDRWriter\<close> computes bounds the length of the encoding of every
  value the type admits (or is \<open>SIZE_MAX\<close>, for types without a bound).
\<close>

theorem max_size_bounds_encoding:
  assumes "make_cdr_writer E root variant = Inr w" "wf_type root" "inhabited root"
    and "fits root (top_value E m root variant what src)"
  shows "get_max_serialized_size w what = SIZE_MAX \<or>
     length (cdr_message E m root variant what src) \<le> get_max_serialized_size w what"
  by (rule max_bounds_message [OF assms])

lemma max_size_bounds_encoding_witness:
  "length (cdr_message big ex_memory ex_keyed SRSample Sample 64) \<le> 33"
  using max_size_bounds_encoding [OF ex_writer_made, where root = ex_keyed and what = Sample and E = big
      and variant = SRSample and m = ex_memory and src = 64] by simp







section \<open>The optimisations of the serializer\<close>

text \<open>
  \<open>TriviallySerializedCache\<close> is total and sound: its constructor succeeds, a lookup of the root
  type or of any type below it, at any offset, never throws, and when it answers \<open>true\<close> the encoding
  of any value of the type at that offset is the bytes of its object in memory.
\<close>

theorem trivial_lookup_sound:
  assumes "wf_type t"
  shows "\<exists>C. TriviallySerializedCache t = Inr C \<and>
    (\<forall>u \<in> subtypes t. \<forall>al. \<exists>b. lookup_trivially_serialized C al u = Inr b \<and>
       (b \<longrightarrow> (\<forall>E m a. cdr E Sample u (read_obj E m a u) al = mem_read m a (szof u))))"
  using TriviallySerializedCache_complete [OF assms] lookup_complete triv_is_bytes by fastforce

lemma trivial_lookup_sound_witness:
  "\<exists>C. TriviallySerializedCache (ex_array_of False) = Inr C \<and>
    (\<forall>u \<in> subtypes (ex_array_of False). \<forall>al. \<exists>b. lookup_trivially_serialized C al u = Inr b \<and>
       (b \<longrightarrow> (\<forall>E m a. cdr E Sample u (read_obj E m a u) al = mem_read m a (szof u))))"
  by (rule trivial_lookup_sound) simp

text \<open>
  Two adjacent elements are enough: when \<open>lookup_many_trivially_serialized\<close> answers \<open>true\<close> at an
  offset, the encoding there of an array of any number of elements is the bytes of the array.
\<close>

theorem trivial_many_lookup_sound:
  assumes "wf_type t" "u \<in> subtypes t"
  shows "\<exists>C b. TriviallySerializedCache t = Inr C \<and> lookup_many_trivially_serialized C al u = Inr b \<and>
    (b \<longrightarrow> (\<forall>E m a n. cdr_list (cdr E Sample u) (map (\<lambda>i. read_obj E m (a + i * szof u) u) [0..<n]) al
                = mem_read m a (n * szof u)))"
  using TriviallySerializedCache_complete [OF assms(1)] lookup_many_complete [OF _ assms(2)]
    many_triv_is_bytes [of al u Sample] by blast

lemma trivial_many_lookup_sound_witness:
  "\<exists>C b. TriviallySerializedCache (ex_array_of False) = Inr C \<and>
    lookup_many_trivially_serialized C 4 (PrimitiveValueType INT32) = Inr b \<and>
    (b \<longrightarrow> (\<forall>E m a n. cdr_list (cdr E Sample (PrimitiveValueType INT32))
       (map (\<lambda>i. read_obj E m (a + i * szof (PrimitiveValueType INT32)) (PrimitiveValueType INT32)) [0..<n]) 4
       = mem_read m a (n * szof (PrimitiveValueType INT32))))"
  by (rule trivial_many_lookup_sound) (simp_all add: ex_types is_primitive_kind_def)

text \<open>
  The size cursor measures what the serialize cursor writes: the measured size is the length of
  the encoding.
\<close>

theorem measured_size_exact:
  assumes "make_cdr_writer E root variant = Inr w" "wf_type root" "plain_mode what root"
    and "length (cdr_message E m root variant what src) < SIZE_MOD"
  shows "measure_serialized_size E w m src what = Inr (length (cdr_message E m root variant what src))"
  using measure_message [of w what E m src] make_cdr_writer_root [OF assms(1,2)] assms(2-4) by simp

lemma measured_size_exact_witness:
  "measure_serialized_size big (ex_writer big ex_keyed SRSample) ex_memory 64 Sample
     = Inr (length (cdr_message big ex_memory ex_keyed SRSample Sample 64))"
  by (rule measured_size_exact [OF ex_writer_made])
    (use ex_message_length [of big SRSample Sample 64] in simp_all)

section \<open>Types\<close>

text \<open>
  C9. The value types built from the introspection tables, through the C or the C++ constructors and
  for nested messages, are well formed: primitive kinds are primitive, every element has a size,
  bounds fit \<open>uint32_t\<close>, arrays have between 1 and \<open>UINT32_MAX\<close> elements, and a struct has keys exactly
  if one of its members is a key.
\<close>

theorem message_value_type_wf:
  assumes "make_message_value_type A ts = Inr vt"
  shows "wf_type vt \<and> (\<exists>si ms. vt = StructValueType si ms \<and> m_has_keys si = list_ex is_key ms)"
  using make_value_types_wf(1) [OF assms] by (auto simp: wf_struct_def)

lemma message_value_type_wf_witness:
  "wf_type (StructValueType \<lparr>size_of = 4, m_has_keys = True, m_is_self_contained = True, m_type_generator = ROSIDL_Cpp\<rparr>
     [Member ''id'' (PrimitiveValueType UINT32) 0 True])"
  using message_value_type_wf [of ex_abi ex_type_support] by (simp add: ex_type_support_def rosidlcpp_member_type_def)

text \<open>
  \<open>create_sertype\<close> succeeds for every well-formed struct with members, and the type it makes has
  keys exactly if the struct has.
\<close>

theorem create_sertype_succeeds:
  assumes "wf_struct root" "inhabited root"
  shows "\<exists>tp. create_sertype E name basehash req root = Inr tp \<and> contains_key tp = has_keys root
    \<and> message_type tp = root \<and> is_request_header tp = req"
  using create_sertype_total [OF assms] create_sertype_facts by metis

lemma create_sertype_succeeds_witness:
  "\<exists>tp. create_sertype big ''pkg::msg::dds_::K_'' 3 False ex_keyed = Inr tp \<and> contains_key tp = has_keys ex_keyed
    \<and> message_type tp = ex_keyed \<and> is_request_header tp = False"
  by (rule create_sertype_succeeds) simp_all

section \<open>Serialized samples\<close>

text \<open>
  Reassembly does not depend on the fragmentation: any fragment chain that covers a message,
  with overlaps and duplicates, gives the same serdata, the same key and the same error as the whole
  message in one piece.
\<close>

theorem reassembly_independent_of_fragmentation:
  assumes "env_ok V" "covers msg 0 (f # fs)" "frag_min f = 0" "length msg + 3 < SIZE_MOD"
  shows "serdata_rmw_from_ser V tp k (f # fs) (length msg) = serdata_rmw_from_ser_iov V tp k [msg] (length msg)"
  using from_ser_fragments [OF assms] assms(4) by (simp add: serdata_rmw_from_serialized_message_def)

lemma reassembly_independent_of_fragmentation_witness:
  "serdata_rmw_from_ser (ex_env big) (ex_sertype big False ex_keyed) SDK_KEY (ex_first # ex_chain) 8
   = serdata_rmw_from_ser_iov (ex_env big) (ex_sertype big False ex_keyed) SDK_KEY [ex_msg] 8"
  using reassembly_independent_of_fragmentation [OF ex_env_ok(1) ex_chain_covers(1,2),
      where tp = "ex_sertype big False ex_keyed" and k = SDK_KEY] by simp

text \<open>
  \<open>serdata_rmw::resize\<close>: the buffer is a multiple of four bytes, holds the size asked for and at
  most three more, and the padding is zero.
\<close>

theorem resize_pads_to_four:
  assumes "env_ok V" "n + 3 < SIZE_MOD" "resize V n d = Inr d'"
  shows "4 dvd m_size d' \<and> n \<le> m_size d' \<and> m_size d' < n + 4 \<and> length (data_bytes d') = m_size d'
    \<and> drop n (data_bytes d') = zeros (m_size d' - n)"
  using resize_shape [OF assms] by blast

lemma resize_pads_to_four_witness:
  "\<exists>d'. resize (ex_env little) 5 ex_key_serdata = Inr d' \<and> m_size d' < 9 \<and> drop 5 (data_bytes d') = zeros (m_size d' - 5)"
proof -
  obtain d' where d': "resize (ex_env little) 5 ex_key_serdata = Inr d'"
    using resize_block [of "ex_env little" 5 "replicate 8 170" ex_key_serdata]
    by (simp add: ex_env_def padding_def env_ok_def plain_runtime_resize)
  from resize_pads_to_four [OF _ _ this] show ?thesis using d' by simp
qed

text \<open>
  A key serialized on its own and deserialized in key mode sets the key members of the object to
  the values sent and leaves every other member as it was.
\<close>

theorem key_roundtrip_merges:
  assumes "make_cdr_writer T root variant = Inr w" "make_cdr_reader root variant = Inr r"
    and "wf_type root" "resize_spec rt" "has_keys root" "key_safe root"
    and "fits root (read_obj T m src root)" "shaped root (top_data dst)"
    and "length (cdr_message T m root variant Key src) \<le> length block"
  shows "rbind (writer_serialize T w m block src Key) (\<lambda>out. reader_deserialize E rt r dst out Key)
    = Inr (dst\<lparr>top_data := key_merge root (read_obj T m src root) (top_data dst)\<rparr>)"
  using writer_serialize_message [of w Key T m block src] make_cdr_writer_root [OF assms(1,3)] assms(3,6,9)
    reader_roundtrip_key [OF assms(2-8)]
  by (simp add: plain_mode_def Let_def)

lemma key_roundtrip_merges_witness:
  "rbind (writer_serialize big (ex_writer big ex_keyed SRSample) ex_memory (zeros 60) 64 Key)
     (\<lambda>out. reader_deserialize little plain_runtime (ex_reader ex_keyed SRSample) ex_dst out Key)
   = Inr (ex_dst\<lparr>top_data := key_merge ex_keyed (read_obj big ex_memory 64 ex_keyed) (top_data ex_dst)\<rparr>)"
  by (rule key_roundtrip_merges [OF ex_writer_made ex_reader_made])
    (use ex_message_length [of big SRSample Key 64] in \<open>simp_all add: plain_runtime_resize\<close>)



section \<open>Printing\<close>



text \<open>
  \<open>serdata_rmw_print\<close> on any serdata and any buffer stays within the buffer: the position it
  returns is at most its size, no character is written past its end, and no undefined behaviour is
  reached on malformed data.
\<close>

theorem serdata_print_in_bounds:
  assumes "wf_type (rd_root_value_type (cdr_reader_of tp))"
  shows "case serdata_rmw_print V tp d buf of
      Inl e \<Rightarrow> \<forall>s. e \<noteq> UB s
    | Inr (n, buf') \<Rightarrow> n \<le> length buf \<and> length buf' = length buf"
  by (rule serdata_print_bounds [OF assms])

lemma serdata_print_in_bounds_witness:
  "case serdata_rmw_print (ex_env little) (ex_sertype little False ex_keyed) ex_key_serdata (replicate 6 CHR ''x'') of
      Inl e \<Rightarrow> \<forall>s. e \<noteq> UB s
    | Inr (n, buf') \<Rightarrow> n \<le> length (replicate 6 CHR ''x'') \<and> length buf' = length (replicate 6 CHR ''x'')"
  by (rule serdata_print_in_bounds)
    (use make_cdr_reader_root(1) [OF ex_reader_made, of ex_keyed SRSample] in simp)

section \<open>Where the code falls short\<close>

text \<open>
  C12. The sequence number of a request is not byte-swapped: a reader of the other byte order obtains
  the GUID of the client as it was sent and the sequence number with its bytes reversed, since
  \<open>bswap\<close> has no specialisation for \<open>int64_t\<close>.
\<close>

theorem request_sequence_number_not_swapped:
  assumes "make_cdr_reader root SRRequest = Inr r" "wf_type root" "resize_spec rt"
    and "fits root (top_value T m root SRRequest Sample src)" "shaped root (top_data dst)" "E \<noteq> T"
  shows "\<exists>dst'. reader_deserialize E rt r dst (cdr_message T m root SRRequest Sample src @ rest) Sample = Inr dst' \<and>
    top_guid dst' = bytes_word T (mem_read m src 8) \<and>
    top_seq dst' = bswap64 (bytes_word T (mem_read m (src + 8) 8))"
proof -
  have "bswap64 (bytes_word T (mem_read m (src + 8) 8)) = bytes_word E (mem_read m (src + 8) 8)"
    by (rule bswap64_bytes_word) (use assms(6) in auto)
  then show ?thesis
    by (simp add: reader_roundtrip [OF assms(1-5)] received_def read_seq_def)
qed

lemma request_sequence_number_not_swapped_witness:
  "\<exists>dst'. reader_deserialize big plain_runtime (ex_reader ex_keyed SRRequest) ex_dst
      (cdr_message little ex_memory ex_keyed SRRequest Sample 64 @ []) Sample = Inr dst' \<and>
    top_guid dst' = bytes_word little (mem_read ex_memory 64 8) \<and>
    top_seq dst' = bswap64 (bytes_word little (mem_read ex_memory (64 + 8) 8))"
  by (rule request_sequence_number_not_swapped [OF ex_reader_made]) (simp_all add: plain_runtime_resize)

text \<open>
  The size of a fixed-length array of three 32-bit integers is over-reported by two elements: the
  bound counts the two elements that determine the element size and then all three again.
\<close>

theorem array_size_over_reported:
  "get_serialized_size E (ex_writer E (ex_array_of False) SRSample) ex_memory src Sample = Inr 24 \<and>
   length (cdr_message E ex_memory (ex_array_of False) SRSample Sample src) = 16"
  using ex_array_sizes [where E = E and key = False and what = Sample]
    ex_array_length [where E = E and key = False and what = Sample and src = src]
  by (simp add: get_serialized_size_def)

text \<open>
  As a consequence, a writer's key with such an array carries eight zero bytes that the key a
  reader extracts from the same sample lacks, and \<open>serdata_rmw_eqkey\<close> tells them apart.
\<close>

theorem array_keys_differ:
  "\<exists>d d'. serdata_rmw_from_sample (ex_env E) (ex_sertype E False (ex_array_of True)) SDK_DATA ex_memory src = Inr (Some d, None) \<and>
    serdata_rmw_from_serialized_message (ex_env E) (ex_sertype E False (ex_array_of True)) SDK_DATA (data_bytes d)
      = Inr (Some d', None) \<and>
    key_bytes d = key_bytes d' @ zeros 8 \<and> \<not> serdata_rmw_eqkey d d'"
proof -
  let ?tp = "ex_sertype E False (ex_array_of True)"
  obtain d d' where d: "serdata_rmw_from_sample (ex_env E) ?tp SDK_DATA ex_memory src = Inr (Some d, None)"
    "serdata_rmw_from_serialized_message (ex_env E) ?tp SDK_DATA (data_bytes d) = Inr (Some d', None)"
    "get_serialized_size (machine (ex_env E)) (cdr_writer_of ?tp) ex_memory src Key = Inr (m_keysize d)"
    "key_bytes d = message_of (machine (ex_env E)) ?tp ex_memory src Key
       @ zeros (m_keysize d - length (message_of (machine (ex_env E)) ?tp ex_memory src Key))"
    "key_bytes d' = message_of (machine (ex_env E)) ?tp ex_memory src Key"
    "m_keysize d' = length (message_of (machine (ex_env E)) ?tp ex_memory src Key)"
    by (rule local_received_keys [of "ex_env E" ?tp ex_memory src]) (simp_all add: ex_array_sendable)
  have "m_keysize d = 24"
    using d(3) ex_array_sizes [where E = E and key = True and what = Key] by (simp add: get_serialized_size_def)
  moreover have "length (message_of (machine (ex_env E)) ?tp ex_memory src Key) = 16"
    using ex_array_length [where E = E and key = True and what = Key and src = src] by simp
  ultimately show ?thesis using d by (intro exI [of _ d] exI [of _ d']) (simp add: serdata_rmw_eqkey_def)
qed

text \<open>
  \<open>extractkey_be\<close> does not transcode the characters of a wide string: on a little-endian machine
  the length in front of them is big-endian, as it should be, and the characters are little-endian.
  The key hash of such a key is not that of the big-endian key.
\<close>

theorem wide_key_not_swapped:
  assumes "make_cdr_reader root variant = Inr r" "wf_type root" "m_has_keys si"
    and "root = StructValueType si [Member nm (U16StringValueType b sz) moff True]" "2 * length s \<le> UINT32_MAX"
  shows "reader_extractkey_be little r pre (rtps_header T @ cdr T Key root (LStruct [LWStr s]) 0 @ rest) Key
   = Inr (pre @ rtps_header big @ cdr_u32 big (2 * length s) 0 @ u16s_bytes little s)"
  using extractkey_wide_message [OF assms(3,5), where E = little and D = big] make_cdr_reader_root(1,2) [OF assms(1,2)]
  by (simp add: reader_extractkey_be_def assms(4))

lemma wide_key_not_swapped_witness:
  "reader_extractkey_be little (ex_reader ex_wide SRSample) []
     (rtps_header little @ cdr little Key ex_wide (LStruct [LWStr [1]]) 0 @ []) Key
   = Inr (rtps_header big @ [0, 0, 0, 2] @ [1, 0])"
  using wide_key_not_swapped [OF ex_reader_made [of ex_wide SRSample] _ _ ex_wide_def, where s = "[1]" and T = little
      and pre = "[]" and rest = "[]"]
  by (simp add: ex_info_def ex_wide_bytes)

end
